(* ===== verification/Prelude.thy ===== *)
theory Prelude
  imports
    Main
    "HOL-Library.Word"
    "HOL-Library.Char_ord"
    "HOL-Library.List_Lexorder"
    "HOL-Library.AList"
    "HOL-Library.Multiset"
begin

text \<open>
  Shared vocabulary of the development: Go's time values and durations, and the string functions
  of the standard library the program calls (byte strings, \<open>strings.TrimSpace\<close>, decimal
  formatting, \<open>strings.Join\<close>, \<open>strings.Split\<close>).
\<close>

named_theorems go_simps \<open>unfolding of the standard-library operations\<close>
named_theorems step_defs \<open>definitions of the state-changing operations\<close>

section \<open>Times and durations\<close>

text \<open>
  \<open>time.Time\<close> is an instant: nanoseconds since Go's zero time (so \<open>IsZero\<close> is equality
  with 0). \<open>Before\<close>, \<open>After\<close> and \<open>Equal\<close> are the order on instants; \<open>UTC\<close> only changes the
  presentation and is the identity here. \<open>time.Duration\<close> is a signed 64-bit count of
  nanoseconds, kept as an \<open>int\<close>; where the code's arithmetic may leave the 64-bit range the
  wrap-around (\<open>wrap64\<close>) or the saturation of \<open>Time.Sub\<close> (\<open>sub_time\<close>) is written out.
\<close>

type_synonym time = int
type_synonym duration = int

definition zero_time :: time where [go_simps]: "zero_time = 0"

abbreviation is_zero :: "time \<Rightarrow> bool" where "is_zero t \<equiv> t = zero_time"

definition max_duration :: duration where [go_simps]: "max_duration = 9223372036854775807"
definition min_duration :: duration where [go_simps]: "min_duration = - 9223372036854775808"

definition nanosecond :: duration where [go_simps]: "nanosecond = 1"
definition millisecond :: duration where [go_simps]: "millisecond = 1000000"
definition second :: duration where [go_simps]: "second = 1000000000"
definition minute :: duration where [go_simps]: "minute = 60000000000"
definition hour :: duration where [go_simps]: "hour = 3600000000000"

definition wrap64 :: "int \<Rightarrow> int" where
  [go_simps]: "wrap64 x = (x + 9223372036854775808) mod 18446744073709551616 - 9223372036854775808"

text \<open>\<open>Time.Sub\<close> saturates at the extreme durations.\<close>

definition sub_time :: "time \<Rightarrow> time \<Rightarrow> duration" where
  [go_simps]: "sub_time t u = max min_duration (min max_duration (t - u))"

text \<open>Go's integer division truncates towards zero.\<close>

definition quot :: "int \<Rightarrow> int \<Rightarrow> int" where
  "quot a b = (if 0 \<le> a then a div b else - ((- a) div b))"

lemma wrap64_id: "min_duration \<le> x \<Longrightarrow> x \<le> max_duration \<Longrightarrow> wrap64 x = x"
  by (simp add: wrap64_def min_duration_def max_duration_def)

lemma wrap64_range: "min_duration \<le> wrap64 x \<and> wrap64 x \<le> max_duration"
proof -
  have "0 \<le> (x + 9223372036854775808) mod 18446744073709551616"
    and "(x + 9223372036854775808) mod 18446744073709551616 < 18446744073709551616"
    by simp_all
  then show ?thesis
    unfolding wrap64_def min_duration_def max_duration_def by linarith
qed

lemma sub_time_range: "min_duration \<le> sub_time t u" "sub_time t u \<le> max_duration"
  by (auto simp: sub_time_def min_duration_def max_duration_def)

lemma sub_time_exact: "\<bar>t - u\<bar> \<le> max_duration \<Longrightarrow> sub_time t u = t - u"
  by (auto simp: sub_time_def min_duration_def max_duration_def)

lemma sub_time_gt: "d < max_duration \<Longrightarrow> min_duration \<le> d \<Longrightarrow> d < sub_time t u \<longleftrightarrow> u + d < t"
  by (auto simp: sub_time_def min_duration_def max_duration_def)

lemma quot_nonneg [simp]: "0 \<le> a \<Longrightarrow> quot a b = a div b"
  by (simp add: quot_def)

section \<open>Byte strings\<close>

text \<open>A Go string is a sequence of bytes, here a list of 8-bit characters.\<close>

type_synonym bytes = "char list"

definition byte :: "nat \<Rightarrow> char" where "byte n = char_of n"

text \<open>
  The UTF-8 encodings of the code points \<open>strings.TrimSpace\<close> removes: the ASCII spaces,
  U+0085, U+00A0, U+1680, U+2000 to U+200A, U+2028, U+2029, U+202F, U+205F and U+3000.
\<close>

definition space_runes :: "string list" where
  "space_runes =
    [[CHR 0x09], [CHR 0x0A], [CHR 0x0B], [CHR 0x0C], [CHR 0x0D], [CHR 0x20], [CHR 0xC2, CHR 0x85],
     [CHR 0xC2, CHR 0xA0], [CHR 0xE1, CHR 0x9A, CHR 0x80], [CHR 0xE2, CHR 0x80, CHR 0x80],
     [CHR 0xE2, CHR 0x80, CHR 0x81], [CHR 0xE2, CHR 0x80, CHR 0x82],
     [CHR 0xE2, CHR 0x80, CHR 0x83], [CHR 0xE2, CHR 0x80, CHR 0x84],
     [CHR 0xE2, CHR 0x80, CHR 0x85], [CHR 0xE2, CHR 0x80, CHR 0x86],
     [CHR 0xE2, CHR 0x80, CHR 0x87], [CHR 0xE2, CHR 0x80, CHR 0x88],
     [CHR 0xE2, CHR 0x80, CHR 0x89], [CHR 0xE2, CHR 0x80, CHR 0x8A],
     [CHR 0xE2, CHR 0x80, CHR 0xA8], [CHR 0xE2, CHR 0x80, CHR 0xA9],
     [CHR 0xE2, CHR 0x80, CHR 0xAF], [CHR 0xE2, CHR 0x81, CHR 0x9F],
     [CHR 0xE3, CHR 0x80, CHR 0x80]]"

fun has_prefix :: "string \<Rightarrow> string \<Rightarrow> bool" where
  "has_prefix s [] = True"
| "has_prefix [] (p # ps) = False"
| "has_prefix (c # cs) (p # ps) = (c = p \<and> has_prefix cs ps)"

fun strip_first :: "string list \<Rightarrow> string \<Rightarrow> string option" where
  "strip_first [] s = None"
| "strip_first (p # ps) s =
     (if p \<noteq> [] \<and> has_prefix s p then Some (drop (length p) s) else strip_first ps s)"

lemma has_prefix_iff: "has_prefix s p \<longleftrightarrow> (\<exists>r. s = p @ r)"
  by (induction s p rule: has_prefix.induct) auto

lemma strip_first_shorter: "strip_first ps s = Some r \<Longrightarrow> length r < length s"
  by (induction ps) (auto simp: has_prefix_iff split: if_splits)

function trim_left :: "string list \<Rightarrow> string \<Rightarrow> string" where
  "trim_left ps s = (case strip_first ps s of None \<Rightarrow> s | Some r \<Rightarrow> trim_left ps r)"
  by pat_completeness auto
termination
  by (relation "measure (\<lambda>(ps, s). length s)") (auto dest: strip_first_shorter)

declare trim_left.simps [simp del]

lemma trim_left_Nil [simp]: "trim_left ps [] = []"
proof -
  have "strip_first ps [] = None"
    by (cases "strip_first ps []") (auto dest: strip_first_shorter)
  then show ?thesis by (subst trim_left.simps) simp
qed

lemma trim_left_stuck: "strip_first ps (trim_left ps s) = None"
proof (induction ps s rule: trim_left.induct)
  case (1 ps s)
  then show ?case
    by (subst trim_left.simps) (auto split: option.splits)
qed

lemma trim_left_idem [simp]: "trim_left ps (trim_left ps s) = trim_left ps s"
  by (subst trim_left.simps) (simp add: trim_left_stuck)

lemma trim_left_le: "length (trim_left ps s) \<le> length s"
proof (induction ps s rule: trim_left.induct)
  case (1 ps s)
  show ?case
  proof (cases "strip_first ps s")
    case None
    then show ?thesis by (simp add: trim_left.simps)
  next
    case (Some r)
    with 1 have "length (trim_left ps r) \<le> length r" by blast
    with Some show ?thesis
      by (subst trim_left.simps) (auto dest!: strip_first_shorter)
  qed
qed

text \<open>\<open>strings.TrimSpace\<close> and the test the program applies to required names.\<close>

definition trim_space :: "string \<Rightarrow> string" where
  "trim_space s = rev (trim_left (map rev space_runes) (rev (trim_left space_runes s)))"

abbreviation blank :: "string \<Rightarrow> bool" where "blank s \<equiv> trim_space s = []"

lemma trim_space_Nil [simp]: "trim_space [] = []"
  by (simp add: trim_space_def)

lemma trim_space_le: "length (trim_space s) \<le> length s"
  unfolding trim_space_def
  using trim_left_le [of space_runes s]
    trim_left_le [of "map rev space_runes" "rev (trim_left space_runes s)"] by simp

lemma nonblank_nonempty: "\<not> blank s \<Longrightarrow> s \<noteq> []"
  by auto

text \<open>Decimal rendering of a count (\<open>%d\<close>), \<open>strings.Join\<close>.\<close>

fun itoa :: "nat \<Rightarrow> string" where
  "itoa n = (if n < 10 then [byte (48 + n)] else itoa (n div 10) @ [byte (48 + n mod 10)])"

definition itoa_int :: "int \<Rightarrow> string" where
  "itoa_int i = (if i < 0 then CHR ''-'' # itoa (nat (- i)) else itoa (nat i))"

fun join :: "string \<Rightarrow> string list \<Rightarrow> string" where
  "join sep [] = []"
| "join sep [x] = x"
| "join sep (x # y # ys) = x @ sep @ join sep (y # ys)"

fun split_on :: "char \<Rightarrow> string \<Rightarrow> string list" where
  "split_on c [] = [[]]"
| "split_on c (x # xs) =
     (if x = c then [] # split_on c xs
      else (case split_on c xs of [] \<Rightarrow> [[x]] | w # ws \<Rightarrow> (x # w) # ws))"

lemma split_on_nonempty [simp]: "split_on c s \<noteq> []"
  by (induction s) (auto split: list.splits)

lemma split_on_no_sep: "w \<in> set (split_on c s) \<Longrightarrow> c \<notin> set w"
proof (induction s arbitrary: w)
  case Nil
  then show ?case by simp
next
  case (Cons x xs)
  obtain v vs where s: "split_on c xs = v # vs"
    by (cases "split_on c xs") auto
  show ?case
  proof (cases "x = c")
    case True
    with Cons show ?thesis by auto
  next
    case False
    with Cons.prems s have "w = x # v \<or> w \<in> set vs" by auto
    with False s Cons.IH [of v] Cons.IH [of w] show ?thesis by auto
  qed
qed

lemma join_split: "join [c] (split_on c s) = s"
proof (induction s)
  case Nil
  then show ?case by simp
next
  case (Cons x xs)
  obtain v vs where s: "split_on c xs = v # vs"
    by (cases "split_on c xs") auto
  with Cons show ?case by (cases vs) auto
qed

end
