(* ===== verification/Interfaces.thy ===== *)
theory Interfaces
  imports Prelude
begin

text \<open>
  The contracts several components share, each a locale whose laws its provider discharges by
  interpretation: a bounded log that keeps the newest entries, a store in which the newest
  record per key wins, an edge-triggered alarm, and a choice of an owner that does not depend
  on the alternatives that were not chosen.
\<close>

section \<open>Bounded logs\<close>

definition last_n :: "nat \<Rightarrow> 'a list \<Rightarrow> 'a list" where
  "last_n n xs = drop (length xs - n) xs"

lemma length_last_n [simp]: "length (last_n n xs) = min n (length xs)"
  by (auto simp: last_n_def)

lemma last_n_all [simp]: "length xs \<le> n \<Longrightarrow> last_n n xs = xs"
  by (simp add: last_n_def)

lemma last_n_append: "last_n n (last_n n xs @ ys) = last_n n (xs @ ys)"
proof (cases "length xs \<le> n")
  case True
  then show ?thesis by simp
next
  case False
  then show ?thesis by (simp add: last_n_def add.commute)
qed

lemma set_last_n: "set (last_n n xs) \<subseteq> set xs"
  by (simp add: last_n_def set_drop_subset)

lemma sorted_last_n: "sorted xs \<Longrightarrow> sorted (last_n n xs)"
  by (simp add: last_n_def sorted_wrt_drop)

lemma map_last_n: "map f (last_n n xs) = last_n n (map f xs)"
  by (simp add: last_n_def drop_map)

lemma last_n_suffix: "\<exists>ys. xs = ys @ last_n n xs"
  by (metis append_take_drop_id last_n_def)

locale bounded_log =
  fixes push :: "'l \<Rightarrow> 'x \<Rightarrow> 'l"
    and items :: "'l \<Rightarrow> 'x list"
    and cap :: nat
  assumes items_push: "length (items l) \<le> cap \<Longrightarrow> items (push l x) = last_n cap (items l @ [x])"
begin

lemma push_bound: "length (items l) \<le> cap \<Longrightarrow> length (items (push l x)) \<le> cap"
  by (simp add: items_push)

lemma pushes: "length (items l) \<le> cap \<Longrightarrow> items (foldl push l xs) = last_n cap (items l @ xs)"
proof (induction xs arbitrary: l)
  case Nil
  then show ?case by simp
next
  case (Cons x xs)
  have "items (foldl push (push l x) xs) = last_n cap (items (push l x) @ xs)"
    by (rule Cons.IH) (rule push_bound [OF Cons.prems])
  also have "\<dots> = last_n cap ((items l @ [x]) @ xs)"
    by (simp only: items_push [OF Cons.prems] last_n_append)
  finally show ?case by simp
qed

lemma pushes_bound: "length (items l) \<le> cap \<Longrightarrow> length (items (foldl push l xs)) \<le> cap"
  by (simp add: pushes)

lemma newest_kept: "length (items l) \<le> cap \<Longrightarrow> 0 < cap \<Longrightarrow> x \<in> set (items (push l x))"
  by (simp add: items_push last_n_def)

end

section \<open>Stores in which the newest record wins\<close>

locale newest_wins =
  fixes put :: "'s \<Rightarrow> 'r \<Rightarrow> 's"
    and held :: "'s \<Rightarrow> 'k \<Rightarrow> 'r option"
    and key :: "'r \<Rightarrow> 'k"
    and stamp :: "'r \<Rightarrow> int"
  assumes put_accept:
      "(\<And>old. held s (key r) = Some old \<Longrightarrow> stamp old < stamp r) \<Longrightarrow>
       held (put s r) = (held s)(key r \<mapsto> r)"
    and put_reject:
      "held s (key r) = Some old \<Longrightarrow> stamp r \<le> stamp old \<Longrightarrow> held (put s r) = held s"
begin

lemma put_cases:
  obtains (accept) "held (put s r) = (held s)(key r \<mapsto> r)"
      "\<And>old. held s (key r) = Some old \<Longrightarrow> stamp old < stamp r"
    | (reject) old where "held (put s r) = held s" "held s (key r) = Some old"
      "stamp r \<le> stamp old"
proof (cases "\<exists>old. held s (key r) = Some old \<and> stamp r \<le> stamp old")
  case True
  then show ?thesis using put_reject reject by blast
next
  case False
  then have "stamp old < stamp r" if "held s (key r) = Some old" for old
    using that by (meson not_less)
  then show ?thesis using put_accept accept by blast
qed

lemma put_mono:
  "held s k = Some old \<Longrightarrow> \<exists>new. held (put s r) k = Some new \<and> stamp old \<le> stamp new"
  by (rule put_cases [of s r]) (auto simp: less_imp_le)

lemma run_mono:
  "held s k = Some old \<Longrightarrow> \<exists>new. held (foldl put s rs) k = Some new \<and> stamp old \<le> stamp new"
proof (induction rs arbitrary: s old)
  case Nil
  then show ?case by simp
next
  case (Cons r rs)
  obtain mid where "held (put s r) k = Some mid" "stamp old \<le> stamp mid"
    using put_mono [OF Cons.prems] by blast
  with Cons.IH [of "put s r" mid] show ?case by force
qed

text \<open>After a run from an empty store, each key holds a record of the run, and no record of
  the run for that key is newer.\<close>

definition newest_of :: "'r set \<Rightarrow> ('k \<Rightarrow> 'r option) \<Rightarrow> bool" where
  "newest_of R h \<longleftrightarrow>
     (\<forall>k r. h k = Some r \<longrightarrow> r \<in> R \<and> key r = k \<and> (\<forall>r' \<in> R. key r' = k \<longrightarrow> stamp r' \<le> stamp r)) \<and>
     (\<forall>k. h k = None \<longrightarrow> k \<notin> key ` R)"

lemma newest_of_held:
  "newest_of R h \<Longrightarrow> h k = Some r \<Longrightarrow>
   r \<in> R \<and> key r = k \<and> (\<forall>r' \<in> R. key r' = k \<longrightarrow> stamp r' \<le> stamp r)"
  by (simp add: newest_of_def)

lemma newest_of_absent: "newest_of R h \<Longrightarrow> h k = None \<Longrightarrow> k \<notin> key ` R"
  by (simp add: newest_of_def)

lemma newest_of_put:
  assumes "newest_of R (held s)"
  shows "newest_of (insert r R) (held (put s r))"
proof (cases rule: put_cases [of s r])
  case accept
  then show ?thesis
    using assms unfolding newest_of_def
    by (auto simp: less_imp_le) (metis imageI less_imp_le option.exhaust order_trans)+
next
  case (reject old)
  then show ?thesis
    using assms unfolding newest_of_def by auto
qed

lemma newest_of_run:
  "newest_of R (held s) \<Longrightarrow> newest_of (R \<union> set rs) (held (foldl put s rs))"
proof (induction rs arbitrary: s R)
  case Nil
  then show ?case by simp
next
  case (Cons r rs)
  from Cons.IH [OF newest_of_put [OF Cons.prems, of r]] show ?case by simp
qed

lemma run_newest: "held s = Map.empty \<Longrightarrow> newest_of (set rs) (held (foldl put s rs))"
  using newest_of_run [of "{}" s rs] by (simp add: newest_of_def)

lemma newest_of_unique:
  assumes "newest_of R h" and "newest_of R h'"
    and "\<And>r r'. r \<in> R \<Longrightarrow> r' \<in> R \<Longrightarrow> key r = key r' \<Longrightarrow> stamp r = stamp r' \<Longrightarrow> r = r'"
  shows "h = h'"
proof
  fix k
  show "h k = h' k"
  proof (cases "h k")
    case None
    with assms(1) have "k \<notin> key ` R" by (simp add: newest_of_def)
    with assms(2) have "h' k = None"
      unfolding newest_of_def by (metis imageI not_Some_eq)
    with None show ?thesis by simp
  next
    case (Some r)
    with assms(1) have r: "r \<in> R" "key r = k" "\<forall>x \<in> R. key x = k \<longrightarrow> stamp x \<le> stamp r"
      by (auto simp: newest_of_def)
    then obtain r' where r': "h' k = Some r'"
      using assms(2) unfolding newest_of_def by (metis image_eqI not_Some_eq)
    with assms(2) have "r' \<in> R" "key r' = k" "\<forall>x \<in> R. key x = k \<longrightarrow> stamp x \<le> stamp r'"
      by (auto simp: newest_of_def)
    with r assms(3) have "r = r'" by (metis order_antisym)
    with Some r' show ?thesis by simp
  qed
qed

lemma run_order_irrelevant:
  assumes "held s = Map.empty" and "set rs = set rs'"
    and "\<And>r r'. r \<in> set rs \<Longrightarrow> r' \<in> set rs \<Longrightarrow> key r = key r' \<Longrightarrow> stamp r = stamp r' \<Longrightarrow> r = r'"
  shows "held (foldl put s rs) = held (foldl put s rs')"
proof (rule newest_of_unique)
  show "newest_of (set rs) (held (foldl put s rs))" by (rule run_newest [OF assms(1)])
  show "newest_of (set rs) (held (foldl put s rs'))"
    using run_newest [OF assms(1), of rs'] assms(2) by simp
qed (rule assms(3))

end

section \<open>Edge-triggered alarms\<close>

text \<open>The alerts a machine sends over a run of events.\<close>

fun emit_run :: "('s \<Rightarrow> 'e \<Rightarrow> 's \<times> 'a option) \<Rightarrow> 's \<Rightarrow> 'e list \<Rightarrow> 's \<times> 'a list" where
  "emit_run step s [] = (s, [])"
| "emit_run step s (e # es) =
     (let (s1, a) = step s e; (s2, as) = emit_run step s1 es
      in (s2, (case a of None \<Rightarrow> as | Some x \<Rightarrow> x # as)))"

text \<open>A list of alerts that opens and closes in turn; \<open>up\<close> says whether one is open first.\<close>

fun alternates :: "('a \<Rightarrow> bool) \<Rightarrow> ('a \<Rightarrow> bool) \<Rightarrow> bool \<Rightarrow> 'a list \<Rightarrow> bool" where
  "alternates opens closes up [] = True"
| "alternates opens closes up (a # as) =
     ((if up then closes a else opens a) \<and> alternates opens closes (\<not> up) as)"

locale alarm =
  fixes step :: "'s \<Rightarrow> 'e \<Rightarrow> 's \<times> 'a option"
    and raised :: "'s \<Rightarrow> bool"
    and opens :: "'a \<Rightarrow> bool"
    and closes :: "'a \<Rightarrow> bool"
  assumes open_edge: "step s e = (s', Some a) \<Longrightarrow> opens a \<Longrightarrow> \<not> raised s \<and> raised s'"
    and close_edge: "step s e = (s', Some a) \<Longrightarrow> closes a \<Longrightarrow> raised s \<and> \<not> raised s'"
    and level: "step s e = (s', out) \<Longrightarrow> raised s' \<noteq> raised s \<Longrightarrow>
      (\<exists>x. out = Some x \<and> (opens x \<or> closes x))"
begin

lemma run_alternates:
  "emit_run step s es = (s', as) \<Longrightarrow>
   alternates opens closes (raised s) (filter (\<lambda>a. opens a \<or> closes a) as)"
proof (induction es arbitrary: s as)
  case Nil
  then show ?case by simp
next
  case (Cons e es)
  obtain s1 a where st: "step s e = (s1, a)" by (cases "step s e")
  obtain s2 bs where run: "emit_run step s1 es = (s2, bs)" by (cases "emit_run step s1 es")
  from Cons.prems st run have as: "as = (case a of None \<Rightarrow> bs | Some x \<Rightarrow> x # bs)"
    and "s2 = s'" by simp_all
  with run have IH: "alternates opens closes (raised s1) (filter (\<lambda>a. opens a \<or> closes a) bs)"
    using Cons.IH by blast
  show ?case
  proof (cases "raised s1 = raised s")
    case True
    then have "\<not> (opens x \<or> closes x)" if "a = Some x" for x
      using open_edge close_edge st that by blast
    with True IH as show ?thesis by (auto split: option.splits)
  next
    case False
    then obtain x where x: "a = Some x" "opens x \<or> closes x" using level [OF st] by blast
    then show ?thesis
      using IH as st open_edge [of s e s1 x] close_edge [of s e s1 x] by auto
  qed
qed

text \<open>An opening and a closing alert for the same episode, and never more of either.\<close>

lemma alternates_balance:
  "alternates opens closes up (filter (\<lambda>a. opens a \<or> closes a) as) \<Longrightarrow>
   (\<And>a. \<not> (opens a \<and> closes a)) \<Longrightarrow>
   length (filter opens as) \<le> length (filter closes as) + (if up then 0 else 1) \<and>
   length (filter closes as) \<le> length (filter opens as) + (if up then 1 else 0)"
proof (induction as arbitrary: up)
  case Nil
  then show ?case by simp
next
  case (Cons a as)
  show ?case
  proof (cases "opens a \<or> closes a")
    case True
    with Cons.prems(1) have "alternates opens closes (\<not> up) (filter (\<lambda>a. opens a \<or> closes a) as)"
      and now: "if up then closes a else opens a" by auto
    from Cons.IH [OF this(1) Cons.prems(2)] now Cons.prems(2) [of a] show ?thesis
      by (auto split: if_splits)
  next
    case False
    with Cons.prems(1) have "alternates opens closes up (filter (\<lambda>a. opens a \<or> closes a) as)"
      by simp
    from Cons.IH [OF this Cons.prems(2)] False show ?thesis by auto
  qed
qed

lemma run_raised_iff:
  "emit_run step s es = (s', as) \<Longrightarrow>
   raised s' = (if even (length (filter (\<lambda>a. opens a \<or> closes a) as)) then raised s else \<not> raised s)"
proof (induction es arbitrary: s as)
  case Nil
  then show ?case by simp
next
  case (Cons e es)
  obtain s1 a where st: "step s e = (s1, a)" by (cases "step s e")
  obtain s2 bs where run: "emit_run step s1 es = (s2, bs)" by (cases "emit_run step s1 es")
  from Cons.prems st run have eqs: "s2 = s'" "as = (case a of None \<Rightarrow> bs | Some x \<Rightarrow> x # bs)"
    by simp_all
  have IH: "raised s' =
      (if even (length (filter (\<lambda>a. opens a \<or> closes a) bs)) then raised s1 else \<not> raised s1)"
    using Cons.IH [of s1 bs] run eqs by simp
  have "raised s1 \<noteq> raised s \<longleftrightarrow> (\<exists>x. a = Some x \<and> (opens x \<or> closes x))"
    using level [OF st] open_edge [of s e s1] close_edge [of s e s1] st by blast
  with IH eqs show ?case by (auto split: option.splits)
qed

end

section \<open>Stable choice of an owner\<close>

locale stable_choice =
  fixes pick :: "'p list \<Rightarrow> 'p option"
    and ident :: "'p \<Rightarrow> 'n"
  assumes pick_in: "pick xs = Some x \<Longrightarrow> x \<in> set xs"
    and pick_total: "pick xs = None \<longleftrightarrow> xs = []"
    and pick_keep: "pick xs = Some x \<Longrightarrow> ident x \<in> ident ` set ys \<Longrightarrow>
      ident ` set ys \<subseteq> ident ` set xs \<Longrightarrow> map_option ident (pick ys) = Some (ident x)"
begin

text \<open>The order in which the candidates are listed does not matter.\<close>

lemma pick_set: "ident ` set xs = ident ` set ys \<Longrightarrow>
    map_option ident (pick xs) = map_option ident (pick ys)"
proof (cases "pick xs")
  case None
  assume "ident ` set xs = ident ` set ys"
  with None show ?thesis using pick_total by auto
next
  case (Some x)
  assume eq: "ident ` set xs = ident ` set ys"
  have "ident x \<in> ident ` set ys" using pick_in [OF Some] eq by blast
  with Some show ?thesis using pick_keep [OF Some, of ys] eq by auto
qed

text \<open>Removing candidates that were not chosen changes nothing.\<close>

lemma pick_filter:
  "pick xs = Some x \<Longrightarrow> P x \<Longrightarrow> map_option ident (pick (filter P xs)) = Some (ident x)"
  by (rule pick_keep) (auto dest: pick_in)

text \<open>A new candidate either becomes the choice or changes nothing.\<close>

lemma pick_add:
  "map_option ident (pick (y # xs)) = Some (ident y) \<or>
   map_option ident (pick (y # xs)) = map_option ident (pick xs)"
proof (cases "pick (y # xs)")
  case None
  then show ?thesis by (simp add: pick_total)
next
  case (Some z)
  show ?thesis
  proof (cases "ident z = ident y")
    case True
    with Some show ?thesis by simp
  next
    case False
    with pick_in [OF Some] have "ident z \<in> ident ` set xs" by auto
    then have "map_option ident (pick xs) = Some (ident z)"
      by (rule pick_keep [OF Some]) auto
    with Some show ?thesis by auto
  qed
qed

end

end
