(* ===== verification/Check.thy ===== *)
theory Check
  imports Prelude
begin

text \<open>
  \<open>internal/check\<close>: what is probed (\<open>check\<close>), what a probe answers (\<open>result\<close>), the agreement
  rule (\<open>quorum\<close>) with their validation, and components with their rollup rule. An open string
  type of the source (\<open>Kind\<close>, \<open>Vantage\<close>, \<open>Status\<close>, \<open>Rollup\<close>) is a datatype with the declared
  constants and a constructor that carries any other string, so the \<open>default\<close> branches are kept.
\<close>

section \<open>Data\<close>

datatype kind = KindTCP | KindHTTP | KindBanner | KindDNS | KindTLS | KindSMTP | KindICMP
  | KindRequest | KindGRPC | KindNTP | KindOther string

datatype vantage = VantagePublic | VantageInternal | VantageOther string

datatype status = StatusUp | StatusDown | StatusWarning | StatusUnknown | StatusOther string

record quorum =
  q_agree :: int
  q_of :: int
  q_distinct :: bool

record check =
  c_name :: string
  c_kind :: kind
  c_target :: string
  c_vantage :: vantage
  c_interval :: duration
  c_timeout :: duration
  c_quorum :: quorum
  c_prober :: string
  c_probers :: "string list"
  c_expect_status :: "int list"
  c_expect_body :: string
  c_send :: string
  c_http_method :: string
  c_http_headers :: "(string \<times> string) list"
  c_http_body :: string
  c_server_name :: string
  c_start_tls :: bool
  c_dns_record :: string
  c_dns_server :: string
  c_dns_rcode :: string
  c_grpc_service :: string
  c_grpc_tls :: bool
  c_ca_file :: string
  c_proxy_profile :: string
  c_tls_expiry_warning :: duration
  c_latency_warning :: duration

record result =
  r_check :: string
  r_prober :: string
  r_vantage :: vantage
  r_status :: status
  r_at :: time
  r_latency :: duration
  r_detail :: string
  r_provider :: string
  r_proxy_profile :: string
  r_egress :: string

definition is_evidence :: "result \<Rightarrow> bool" where
  "is_evidence r \<longleftrightarrow>
     r_status r = StatusUp \<or> r_status r = StatusDown \<or> r_status r = StatusWarning"

datatype check_error =
    EligibleNameEmpty | EligibleListedTwice string | NameRequired | UnknownKind
  | BannerNeedsExpectBody | HTTPBodyTooLarge | RequestNeedsSend | RequestNeedsExpectBody
  | SendTooLarge | BadDNSRecord | DNSRCodeOnlyDNS | DNSRCodeNeedsServer | BadDNSRCode
  | DNSRecordNeedsServer | DNSServerOnlyDNS | GRPCServiceOnlyGRPC | GRPCTLSOnlyGRPC
  | BadProxyProfile | CAFileWrongKind | CAFileNotAbsolute | CAFileOutside
  | NegativeTLSExpiry | TLSExpiryOnlyTLS | NegativeLatency | LatencyNotBelowTimeout
  | TargetRequired | VantageRequired | IntervalNotPositive | TimeoutNotPositive
  | TimeoutNotBelowInterval | PreferredNotEligible | QuorumAgreeTooSmall | QuorumOfTooSmall

section \<open>Helpers of the validation\<close>

definition ascii_alnum :: "char \<Rightarrow> bool" where
  "ascii_alnum ch = (let n = (of_char ch :: nat) in
     (48 \<le> n \<and> n \<le> 57) \<or> (65 \<le> n \<and> n \<le> 90) \<or> (97 \<le> n \<and> n \<le> 122))"

text \<open>\<open>^[A-Za-z0-9][A-Za-z0-9._-]{0,63}$\<close>\<close>

fun valid_route_id :: "string \<Rightarrow> bool" where
  "valid_route_id [] = False"
| "valid_route_id (ch # cs) =
     (ascii_alnum ch \<and> length cs \<le> 63 \<and>
      list_all (\<lambda>d. ascii_alnum d \<or> d \<in> {CHR ''.'', CHR ''_'', CHR ''-''}) cs)"

definition valid_dns_record :: "string \<Rightarrow> bool" where
  "valid_dns_record s = List.member [[], ''A'', ''AAAA'', ''CAA'', ''CNAME'', ''MX'', ''NS'',
     ''SOA'', ''SRV'', ''TXT''] s"

text \<open>
  \<open>strings.ToUpper\<close>, up to comparison with ASCII words: ASCII letters, and the two other code
  points whose upper case is ASCII (U+0131 to I, U+017F to S). Every other code point maps to
  non-ASCII bytes, which no ASCII word contains, and is left as it is.
\<close>

definition upper_byte :: "char \<Rightarrow> char" where
  "upper_byte ch = (let n = (of_char ch :: nat) in
     if 97 \<le> n \<and> n \<le> 122 then byte (n - 32) else ch)"

fun to_upper :: "string \<Rightarrow> string" where
  "to_upper [] = []"
| "to_upper [a] = [upper_byte a]"
| "to_upper (a # b # cs) =
     (if a = byte 0xC4 \<and> b = byte 0xB1 then CHR ''I'' # to_upper cs
      else if a = byte 0xC5 \<and> b = byte 0xBF then CHR ''S'' # to_upper cs
      else upper_byte a # to_upper (b # cs))"

definition valid_dns_rcode :: "string \<Rightarrow> bool" where
  "valid_dns_rcode s = List.member [[], ''NOERROR'', ''FORMERR'', ''SERVFAIL'', ''NXDOMAIN'',
     ''NOTIMP'', ''REFUSED''] (to_upper s)"

text \<open>
  \<open>filepath.IsAbs\<close> and \<open>filepath.Clean\<close> on Unix. \<open>Clean\<close> is needed for absolute paths only: the
  validation reaches it after the test for an absolute path.
\<close>

definition is_abs :: "string \<Rightarrow> bool" where
  "is_abs p = has_prefix p ''/''"

fun clean_step :: "string list \<Rightarrow> string \<Rightarrow> string list" where
  "clean_step stack w =
     (if w = [] \<or> w = ''.'' then stack
      else if w = ''..'' then butlast stack
      else stack @ [w])"

definition clean_elements :: "string \<Rightarrow> string list" where
  "clean_elements p = foldl clean_step [] (split_on CHR ''/'' p)"

definition clean_abs :: "string \<Rightarrow> string" where
  "clean_abs p = CHR ''/'' # join ''/'' (clean_elements p)"

section \<open>Validation\<close>

text \<open>The pass over \<open>Probers\<close> that builds the set of eligible names.\<close>

fun eligible_names :: "string list \<Rightarrow> string list \<Rightarrow> check_error + string list" where
  "eligible_names seen [] = Inr seen"
| "eligible_names seen (p # ps) =
     (let p = trim_space p in
      if p = [] then Inl EligibleNameEmpty
      else if List.member seen p then Inl (EligibleListedTwice p)
      else eligible_names (seen @ [p]) ps)"

definition quorum_validate :: "quorum \<Rightarrow> check_error option" where
  "quorum_validate q =
     (if q_agree q < 1 then Some QuorumAgreeTooSmall
      else if q_of q < q_agree q then Some QuorumOfTooSmall
      else None)"

text \<open>The cases of the \<open>switch\<close> in order: the first guard that holds decides the error.\<close>

fun first_failing :: "(bool \<times> 'e) list \<Rightarrow> 'e option" where
  "first_failing [] = None"
| "first_failing ((g, e) # ges) = (if g then Some e else first_failing ges)"

definition known_kind :: "kind \<Rightarrow> bool" where
  "known_kind k = (case k of KindOther _ \<Rightarrow> False | _ \<Rightarrow> True)"

definition max_field_bytes :: nat where "max_field_bytes = 32768"

definition ca_root :: string where "ca_root = ''/etc/parallaxd/ca/''"

definition validate_cases :: "check \<Rightarrow> string list \<Rightarrow> (bool \<times> check_error) list" where
  "validate_cases c eligible =
    [(blank (c_name c), NameRequired),
     (\<not> known_kind (c_kind c), UnknownKind),
     (c_kind c = KindBanner \<and> blank (c_expect_body c), BannerNeedsExpectBody),
     (length (c_http_body c) > max_field_bytes, HTTPBodyTooLarge),
     (c_kind c = KindRequest \<and> blank (c_send c), RequestNeedsSend),
     (c_kind c = KindRequest \<and> blank (c_expect_body c), RequestNeedsExpectBody),
     (length (c_send c) > max_field_bytes, SendTooLarge),
     (c_kind c = KindDNS \<and> \<not> valid_dns_record (c_dns_record c), BadDNSRecord),
     (c_dns_rcode c \<noteq> [] \<and> c_kind c \<noteq> KindDNS, DNSRCodeOnlyDNS),
     (c_kind c = KindDNS \<and> c_dns_rcode c \<noteq> [] \<and> c_dns_server c = [], DNSRCodeNeedsServer),
     (c_kind c = KindDNS \<and> \<not> valid_dns_rcode (c_dns_rcode c), BadDNSRCode),
     (c_kind c = KindDNS \<and> (c_dns_record c = ''CAA'' \<or> c_dns_record c = ''SOA'') \<and>
        c_dns_server c = [], DNSRecordNeedsServer),
     (c_dns_server c \<noteq> [] \<and> c_kind c \<noteq> KindDNS, DNSServerOnlyDNS),
     (c_grpc_service c \<noteq> [] \<and> c_kind c \<noteq> KindGRPC, GRPCServiceOnlyGRPC),
     (c_grpc_tls c \<and> c_kind c \<noteq> KindGRPC, GRPCTLSOnlyGRPC),
     (c_proxy_profile c \<noteq> [] \<and>
        (c_kind c \<noteq> KindHTTP \<or> \<not> valid_route_id (c_proxy_profile c)), BadProxyProfile),
     (c_ca_file c \<noteq> [] \<and> c_kind c \<noteq> KindHTTP \<and> c_kind c \<noteq> KindTLS \<and>
        c_kind c \<noteq> KindSMTP \<and> c_kind c \<noteq> KindGRPC, CAFileWrongKind),
     (c_ca_file c \<noteq> [] \<and> \<not> is_abs (c_ca_file c), CAFileNotAbsolute),
     (c_ca_file c \<noteq> [] \<and> \<not> has_prefix (clean_abs (c_ca_file c)) ca_root, CAFileOutside),
     (c_tls_expiry_warning c < 0, NegativeTLSExpiry),
     (c_tls_expiry_warning c > 0 \<and> c_kind c \<noteq> KindTLS, TLSExpiryOnlyTLS),
     (c_latency_warning c < 0, NegativeLatency),
     (c_latency_warning c > 0 \<and> c_timeout c > 0 \<and> c_latency_warning c \<ge> c_timeout c,
        LatencyNotBelowTimeout),
     (blank (c_target c), TargetRequired),
     (c_vantage c \<noteq> VantagePublic \<and> c_vantage c \<noteq> VantageInternal, VantageRequired),
     (c_interval c \<le> 0, IntervalNotPositive),
     (c_timeout c \<le> 0, TimeoutNotPositive),
     (c_timeout c \<ge> c_interval c, TimeoutNotBelowInterval),
     (length eligible > 0 \<and> c_prober c \<noteq> [] \<and> \<not> List.member eligible (c_prober c),
        PreferredNotEligible)]"

definition check_validate :: "check \<Rightarrow> check_error option" where
  "check_validate c =
     (case eligible_names [] (c_probers c) of
        Inl e \<Rightarrow> Some e
      | Inr eligible \<Rightarrow>
          (case first_failing (validate_cases c eligible) of
             Some e \<Rightarrow> Some e
           | None \<Rightarrow> quorum_validate (c_quorum c)))"

lemma first_failing_None: "first_failing ges = None \<longleftrightarrow> (\<forall>(g, e) \<in> set ges. \<not> g)"
  by (induction ges) (auto split: if_splits)

lemma eligible_names_Inr:
  "eligible_names seen ps = Inr el \<longleftrightarrow>
   el = seen @ map trim_space ps \<and> [] \<notin> set (map trim_space ps) \<and>
   distinct (map trim_space ps) \<and> set seen \<inter> set (map trim_space ps) = {}"
  by (induction ps arbitrary: seen) (auto simp: Let_def)

lemma check_validate_None:
  "check_validate c = None \<longleftrightarrow>
   [] \<notin> set (map trim_space (c_probers c)) \<and> distinct (map trim_space (c_probers c)) \<and>
   (\<forall>(g, e) \<in> set (validate_cases c (map trim_space (c_probers c))). \<not> g) \<and>
   quorum_validate (c_quorum c) = None"
proof (cases "eligible_names [] (c_probers c)")
  case (Inl e)
  then show ?thesis
    using eligible_names_Inr [of "[]" "c_probers c" "map trim_space (c_probers c)"]
    by (auto simp: check_validate_def)
next
  case (Inr el)
  then have "el = map trim_space (c_probers c)" "[] \<notin> set (map trim_space (c_probers c))"
    "distinct (map trim_space (c_probers c))"
    using eligible_names_Inr [of "[]" "c_probers c" el] by simp_all
  with Inr show ?thesis
    by (simp add: check_validate_def first_failing_None [symmetric] split: option.splits)
qed

text \<open>What the rest of the program relies on of a check that passed.\<close>

lemma check_valid_timing:
  "check_validate c = None \<Longrightarrow>
   0 < c_timeout c \<and> c_timeout c < c_interval c \<and>
   1 \<le> q_agree (c_quorum c) \<and> q_agree (c_quorum c) \<le> q_of (c_quorum c)"
  by (simp add: check_validate_None validate_cases_def quorum_validate_def split: if_splits)

lemma check_valid_vantage:
  "check_validate c = None \<Longrightarrow> c_vantage c = VantagePublic \<or> c_vantage c = VantageInternal"
  by (auto simp: check_validate_None validate_cases_def)

lemma check_valid_ca:
  "check_validate c = None \<Longrightarrow> c_ca_file c \<noteq> [] \<Longrightarrow>
   is_abs (c_ca_file c) \<and> has_prefix (clean_abs (c_ca_file c)) ca_root"
  by (simp add: check_validate_None validate_cases_def)

lemma check_valid_prober:
  "check_validate c = None \<Longrightarrow> c_probers c \<noteq> [] \<Longrightarrow> c_prober c \<noteq> [] \<Longrightarrow>
   c_prober c \<in> trim_space ` set (c_probers c)"
  by (auto simp: check_validate_None validate_cases_def)

text \<open>The cleaned path has no \<open>..\<close>, no \<open>.\<close> and no empty element.\<close>

lemma clean_fold_elements:
  "set (foldl clean_step stack ws) \<subseteq> set stack \<union> (set ws - {[], ''.'', ''..''})"
proof (induction ws arbitrary: stack)
  case Nil
  then show ?case by simp
next
  case (Cons w ws)
  have "set (clean_step stack w) \<subseteq> set stack \<union> ({w} - {[], ''.'', ''..''})"
    by (auto dest: in_set_butlastD)
  with Cons.IH [of "clean_step stack w"] show ?case by auto
qed

lemma clean_elements_plain:
  "w \<in> set (clean_elements p) \<Longrightarrow> w \<noteq> [] \<and> w \<noteq> ''.'' \<and> w \<noteq> ''..'' \<and> CHR ''/'' \<notin> set w"
  using clean_fold_elements [of "[]" "split_on CHR ''/'' p"] split_on_no_sep
  unfolding clean_elements_def by fastforce

section \<open>Components\<close>

text \<open>\<open>RollupDefault\<close> is the empty string, which means \<open>RollupAny\<close>.\<close>

datatype rollup = RollupDefault | RollupAny | RollupAll | RollupQuorum | RollupOther string

record component =
  comp_name :: string
  comp_description :: string
  comp_checks :: "string list"
  comp_down_if :: rollup
  comp_down_at :: int

datatype component_error = ComponentNameRequired | ComponentNoChecks
  | ComponentListedTwice string | ComponentUnknownCheck string | ComponentBadDownAt
  | ComponentUnknownRollup

fun member_checks :: "(string \<Rightarrow> bool) option \<Rightarrow> string list \<Rightarrow> string list \<Rightarrow> component_error option"
where
  "member_checks known seen [] = None"
| "member_checks known seen (n # ns) =
     (if List.member seen n then Some (ComponentListedTwice n)
      else if (case known of None \<Rightarrow> False | Some k \<Rightarrow> \<not> k n) then Some (ComponentUnknownCheck n)
      else member_checks known (n # seen) ns)"

definition component_validate :: "component \<Rightarrow> (string \<Rightarrow> bool) option \<Rightarrow> component_error option" where
  "component_validate c known =
     (if blank (comp_name c) then Some ComponentNameRequired
      else if length (comp_checks c) = 0 then Some ComponentNoChecks
      else case member_checks known [] (comp_checks c) of
        Some e \<Rightarrow> Some e
      | None \<Rightarrow>
          (case comp_down_if c of
             RollupDefault \<Rightarrow> None | RollupAny \<Rightarrow> None | RollupAll \<Rightarrow> None
           | RollupQuorum \<Rightarrow>
               if comp_down_at c < 1 \<or> comp_down_at c > int (length (comp_checks c))
               then Some ComponentBadDownAt else None
           | RollupOther _ \<Rightarrow> Some ComponentUnknownRollup))"

definition is_down :: "component \<Rightarrow> nat \<Rightarrow> nat \<Rightarrow> bool" where
  "is_down c down all =
     (case comp_down_if c of
        RollupAll \<Rightarrow> down = all
      | RollupQuorum \<Rightarrow> comp_down_at c > 0 \<and> int down \<ge> comp_down_at c
      | _ \<Rightarrow> down > 0)"

record tally =
  t_down :: nat
  t_up :: nat
  t_warning :: nat
  t_undecided :: nat

definition tally0 :: tally where
  "tally0 = \<lparr>t_down = 0, t_up = 0, t_warning = 0, t_undecided = 0\<rparr>"

definition tally_step :: "(string \<rightharpoonup> status) \<Rightarrow> tally \<Rightarrow> string \<Rightarrow> tally" where
  "tally_step st t n =
     (case st n of
        Some StatusDown \<Rightarrow> t\<lparr>t_down := Suc (t_down t)\<rparr>
      | Some StatusUp \<Rightarrow> t\<lparr>t_up := Suc (t_up t)\<rparr>
      | Some StatusWarning \<Rightarrow> t\<lparr>t_warning := Suc (t_warning t)\<rparr>
      | _ \<Rightarrow> t\<lparr>t_undecided := Suc (t_undecided t)\<rparr>)"

definition roll :: "component \<Rightarrow> (string \<rightharpoonup> status) \<Rightarrow> status" where
  "roll c st =
     (let t = foldl (tally_step st) tally0 (comp_checks c) in
      if is_down c (t_down t) (length (comp_checks c)) then StatusDown
      else if t_undecided t > 0 \<or> t_up t + t_warning t = 0 then StatusUnknown
      else if t_warning t > 0 then StatusWarning
      else StatusUp)"

definition decided :: "status option \<Rightarrow> bool" where
  "decided s \<longleftrightarrow> s = Some StatusDown \<or> s = Some StatusUp \<or> s = Some StatusWarning"

abbreviation having :: "(string \<rightharpoonup> status) \<Rightarrow> status \<Rightarrow> string list \<Rightarrow> nat" where
  "having st s ns \<equiv> length (filter (\<lambda>n. st n = Some s) ns)"

lemma tally_counts:
  "foldl (tally_step st) t ns =
   \<lparr>t_down = t_down t + having st StatusDown ns,
    t_up = t_up t + having st StatusUp ns,
    t_warning = t_warning t + having st StatusWarning ns,
    t_undecided = t_undecided t + length (filter (\<lambda>n. \<not> decided (st n)) ns)\<rparr>"
proof (induction ns arbitrary: t)
  case Nil
  then show ?case by simp
next
  case (Cons n ns)
  have "tally_step st t n =
     \<lparr>t_down = t_down t + having st StatusDown [n], t_up = t_up t + having st StatusUp [n],
      t_warning = t_warning t + having st StatusWarning [n],
      t_undecided = t_undecided t + length (filter (\<lambda>n. \<not> decided (st n)) [n])\<rparr>"
    by (auto simp: tally_step_def decided_def split: option.splits status.splits)
  with Cons show ?case by simp
qed

lemma roll_counts:
  "roll c st =
     (if is_down c (having st StatusDown (comp_checks c)) (length (comp_checks c)) then StatusDown
      else if (\<exists>n \<in> set (comp_checks c). \<not> decided (st n)) \<or>
              (\<forall>n \<in> set (comp_checks c). st n \<noteq> Some StatusUp \<and> st n \<noteq> Some StatusWarning)
      then StatusUnknown
      else if \<exists>n \<in> set (comp_checks c). st n = Some StatusWarning then StatusWarning
      else StatusUp)"
  by (auto simp: roll_def tally_counts tally0_def Let_def filter_empty_conv)

lemma member_checks_None:
  "member_checks known seen ns = None \<longleftrightarrow>
   distinct ns \<and> set seen \<inter> set ns = {} \<and> (\<forall>k. known = Some k \<longrightarrow> (\<forall>n \<in> set ns. k n))"
  by (induction ns arbitrary: seen) (auto split: option.splits)

lemma component_valid:
  "component_validate c known = None \<longleftrightarrow>
   \<not> blank (comp_name c) \<and> comp_checks c \<noteq> [] \<and> distinct (comp_checks c) \<and>
   (\<forall>k. known = Some k \<longrightarrow> (\<forall>n \<in> set (comp_checks c). k n)) \<and>
   (\<forall>s. comp_down_if c \<noteq> RollupOther s) \<and>
   (comp_down_if c = RollupQuorum \<longrightarrow>
      1 \<le> comp_down_at c \<and> comp_down_at c \<le> int (length (comp_checks c)))"
  using member_checks_None [of known "[]" "comp_checks c"]
  by (auto simp: component_validate_def split: option.splits rollup.splits)

end
