(* ===== verification/Independent.thy ===== *)
theory Independent
  imports Check
begin

text \<open>
  \<open>quorum.IndependentResults\<close>: the largest set of results with distinct exits and, on request,
  distinct hosting providers, found by augmenting paths in a bipartite graph. Go's
  \<open>edges\<close>, \<open>matched\<close> and \<open>selected\<close> maps are association lists; the closure \<open>visit\<close> and its loop
  over the edges of a left node are one function, \<open>try_edges\<close>. \<open>sort.Slice\<close> is a stable sort
  here (the source compares by prober name, so only results of one prober under one key tie).
\<close>

section \<open>The code\<close>

definition unknown_provider :: string where "unknown_provider = ''unknown''"

definition provider_key :: "result \<Rightarrow> string" where
  "provider_key r = (let p = trim_space (r_provider r) in if p = [] then unknown_provider else p)"

definition left_key :: "bool \<Rightarrow> result \<Rightarrow> string" where
  "left_key distinct_providers r = (if distinct_providers then provider_key r else r_prober r)"

definition right_key :: "result \<Rightarrow> string" where
  "right_key r =
     (if r_proxy_profile r \<noteq> [] then ''proxy:'' @ r_egress r else ''direct:'' @ r_prober r)"

definition routed :: "result \<Rightarrow> bool" where
  "routed r \<longleftrightarrow> \<not> (r_proxy_profile r \<noteq> [] \<and> r_egress r = [])"

type_synonym edges = "(string \<times> result list) list"

definition add_edge :: "bool \<Rightarrow> edges \<Rightarrow> result \<Rightarrow> edges" where
  "add_edge d es r =
     (if \<not> routed r then es
      else AList.update (left_key d r)
        ((case map_of es (left_key d r) of None \<Rightarrow> [] | Some rs \<Rightarrow> rs) @ [r]) es)"

definition edges_of :: "bool \<Rightarrow> result list \<Rightarrow> edges" where
  "edges_of d rs = foldl (add_edge d) [] rs"

definition adj :: "edges \<Rightarrow> string \<Rightarrow> result list" where
  "adj es l = (case map_of es l of None \<Rightarrow> [] | Some rs \<Rightarrow> sort_key r_prober rs)"

record mstate =
  m_seen :: "string list"
  m_matched :: "(string \<times> string) list"
  m_selected :: "(string \<times> result) list"

definition claim_exit :: "mstate \<Rightarrow> string \<Rightarrow> string \<Rightarrow> result \<Rightarrow> mstate" where
  "claim_exit st l right r =
     st\<lparr>m_matched := AList.update right l (m_matched st),
        m_selected := AList.update right r (m_selected st)\<rparr>"

definition mark :: "mstate \<Rightarrow> string \<Rightarrow> mstate" where
  "mark st right = st\<lparr>m_seen := right # m_seen st\<rparr>"

function try_edges :: "edges \<Rightarrow> string \<Rightarrow> result list \<Rightarrow> mstate \<Rightarrow> bool \<times> mstate" where
  "try_edges es l [] st = (False, st)"
| "try_edges es l (r # rs) st =
     (if List.member (m_seen st) (right_key r) then try_edges es l rs st
      else
        case map_of (m_matched st) (right_key r) of
          None \<Rightarrow> (True, claim_exit (mark st (right_key r)) l (right_key r) r)
        | Some other \<Rightarrow>
            (case try_edges es other (adj es other) (mark st (right_key r)) of
               (ok, st2) \<Rightarrow>
                 if ok then (True, claim_exit st2 l (right_key r) r)
                 else try_edges es l rs st2))"
  by pat_completeness auto

lemma mark_simps [simp]:
  "m_seen (mark st x) = x # m_seen st" "m_matched (mark st x) = m_matched st"
  "m_selected (mark st x) = m_selected st"
  by (simp_all add: mark_def)

lemma claim_simps [simp]:
  "m_seen (claim_exit st l x r) = m_seen st"
  "m_matched (claim_exit st l x r) = AList.update x l (m_matched st)"
  "m_selected (claim_exit st l x r) = AList.update x r (m_selected st)"
  by (simp_all add: claim_exit_def)

text \<open>The exits visited only grow: needed before termination, as the loop goes on with the set
  the failed recursive call returned.\<close>

lemma try_edges_seen_dom:
  "try_edges_dom (es, l, rs, st) \<Longrightarrow> set (m_seen st) \<subseteq> set (m_seen (snd (try_edges es l rs st)))"
proof (induction es l rs st rule: try_edges.pinduct)
  case (1 es l st)
  then show ?case by (simp add: try_edges.psimps)
next
  case (2 es l r rs st)
  show ?case
  proof (cases "List.member (m_seen st) (right_key r)")
    case True
    with 2 show ?thesis by (simp add: try_edges.psimps)
  next
    case new: False
    show ?thesis
    proof (cases "map_of (m_matched st) (right_key r)")
      case None
      with new 2(1) show ?thesis by (auto simp: try_edges.psimps)
    next
      case (Some other)
      obtain ok st2 where rec: "try_edges es other (adj es other) (mark st (right_key r)) = (ok, st2)"
        by (cases "try_edges es other (adj es other) (mark st (right_key r))")
      have "set (m_seen st) \<subseteq> set (m_seen st2)"
        using 2(3) [OF new Some] rec by auto
      then show ?thesis
        using 2(1) 2(4) [OF new Some rec [symmetric]] new Some rec
        by (cases ok) (auto simp: try_edges.psimps)
    qed
  qed
qed

definition exits :: "edges \<Rightarrow> string set" where
  "exits es = right_key ` (\<Union>(l, rs) \<in> set es. set rs)"

lemma finite_exits [simp]: "finite (exits es)"
  by (auto simp: exits_def)

lemma adj_edges: "r \<in> set (adj es l) \<Longrightarrow> \<exists>rs. (l, rs) \<in> set es \<and> r \<in> set rs"
  by (cases "map_of es l") (auto simp: adj_def dest: map_of_SomeD)

lemma adj_exits: "right_key ` set (adj es l) \<subseteq> exits es"
  by (auto simp: exits_def dest!: adj_edges)

termination try_edges
proof (relation "(\<lambda>(es, l, rs, st). card ((exits es \<union> right_key ` set rs) - set (m_seen st)))
    <*mlex*> measure (\<lambda>(es, l, rs, st). length rs)", goal_cases)
  case 1
  show ?case by (simp add: wf_mlex)
next
  case (2 es l r rs st)
  show ?case
    by (rule mlex_leq) (auto intro!: card_mono)
next
  case (3 es l r rs st other)
  then show ?case
    using adj_exits [of es other]
    by (intro mlex_less) (auto intro!: psubset_card_mono)
next
  case (4 es l r rs st other ok st2)
  have "try_edges_dom (es, other, adj es other, mark st (right_key r))"
    using 4 by blast
  from try_edges_seen_dom [OF this] 4 have "set (m_seen st) \<subseteq> set (m_seen st2)"
    by (metis insert_subset list.simps(15) mark_simps(1) snd_conv)
  then have "exits es \<union> right_key ` set rs - set (m_seen st2)
      \<subseteq> exits es \<union> right_key ` set (r # rs) - set (m_seen st)" by auto
  then have "card (exits es \<union> right_key ` set rs - set (m_seen st2))
      \<le> card (exits es \<union> right_key ` set (r # rs) - set (m_seen st))"
    by (rule card_mono [rotated]) simp
  then show ?case
    by (intro mlex_leq) simp_all
qed

section \<open>Independent results\<close>

definition lefts :: "edges \<Rightarrow> string list" where
  "lefts es = sort (map fst es)"

definition visit :: "edges \<Rightarrow> mstate \<Rightarrow> string \<Rightarrow> mstate" where
  "visit es st l = snd (try_edges es l (adj es l) (st\<lparr>m_seen := []\<rparr>))"

definition mstate0 :: mstate where
  "mstate0 = \<lparr>m_seen = [], m_matched = [], m_selected = []\<rparr>"

definition independent_results :: "result list \<Rightarrow> bool \<Rightarrow> result list" where
  "independent_results rs d =
     (let es = edges_of d rs; st = foldl (visit es) mstate0 (lefts es)
      in sort_key r_prober (map snd (m_selected st)))"

definition independent_count :: "result list \<Rightarrow> bool \<Rightarrow> nat" where
  "independent_count rs d = length (independent_results rs d)"

text \<open>What the function promises: no two results share an exit, nor (on request) a provider.\<close>

definition independent :: "bool \<Rightarrow> result set \<Rightarrow> bool" where
  "independent d S \<longleftrightarrow> inj_on (left_key d) S \<and> inj_on right_key S \<and> (\<forall>r \<in> S. routed r)"

section \<open>The graph\<close>

abbreviation votes :: "bool \<Rightarrow> result list \<Rightarrow> string \<Rightarrow> result list" where
  "votes d rs l \<equiv> filter (\<lambda>r. routed r \<and> left_key d r = l) rs"

lemma map_of_edges_of:
  "map_of (edges_of d rs) l = (if votes d rs l = [] then None else Some (votes d rs l))"
proof (induction rs rule: rev_induct)
  case Nil
  then show ?case by (simp add: edges_of_def)
next
  case (snoc r rs)
  have step: "edges_of d (rs @ [r]) = add_edge d (edges_of d rs) r"
    by (simp add: edges_of_def)
  show ?case
  proof (cases "routed r \<and> left_key d r = l")
    case True
    then show ?thesis
      unfolding step by (simp add: add_edge_def AList.update_conv' snoc)
  next
    case False
    then have "votes d (rs @ [r]) l = votes d rs l" by auto
    with False show ?thesis
      unfolding step by (auto simp add: add_edge_def AList.update_conv' snoc)
  qed
qed

lemma set_adj: "set (adj (edges_of d rs) l) = {r \<in> set rs. routed r \<and> left_key d r = l}"
  by (cases "votes d rs l = []") (auto simp: adj_def map_of_edges_of filter_empty_conv)

lemma set_lefts: "set (lefts (edges_of d rs)) = left_key d ` {r \<in> set rs. routed r}"
proof -
  have "set (lefts (edges_of d rs)) = {l. map_of (edges_of d rs) l \<noteq> None}"
    by (auto simp: lefts_def map_of_eq_None_iff)
  then show ?thesis by (auto simp: map_of_edges_of filter_empty_conv)
qed

lemma distinct_edges_of: "distinct (map fst (edges_of d rs))"
proof (induction rs rule: rev_induct)
  case Nil
  then show ?case by (simp add: edges_of_def)
next
  case (snoc r rs)
  then show ?case
    by (simp add: edges_of_def add_edge_def distinct_update)
qed

lemma distinct_lefts: "distinct (lefts (edges_of d rs))"
  by (simp add: lefts_def distinct_edges_of)

section \<open>Augmenting paths\<close>

text \<open>The chosen result per exit, and the state invariant that ties the two maps together.\<close>

abbreviation chosen :: "mstate \<Rightarrow> string \<Rightarrow> result option" where
  "chosen st \<equiv> map_of (m_selected st)"

abbreviation owner :: "mstate \<Rightarrow> string \<Rightarrow> string option" where
  "owner st \<equiv> map_of (m_matched st)"

definition consistent :: "bool \<Rightarrow> result list \<Rightarrow> mstate \<Rightarrow> bool" where
  "consistent d rs st \<longleftrightarrow>
     owner st = map_option (left_key d) \<circ> chosen st \<and>
     (\<forall>x r. chosen st x = Some r \<longrightarrow> r \<in> set rs \<and> routed r \<and> right_key r = x) \<and>
     distinct (map fst (m_selected st))"

lemma consistent_mark [simp]: "consistent d rs (mark st x) = consistent d rs st"
  by (simp add: consistent_def)

lemma consistent_seen [simp]: "consistent d rs (st\<lparr>m_seen := xs\<rparr>) = consistent d rs st"
  by (simp add: consistent_def)

lemma consistent_claim:
  "consistent d rs st \<Longrightarrow> r \<in> set rs \<Longrightarrow> routed r \<Longrightarrow> left_key d r = l \<Longrightarrow> right_key r = x \<Longrightarrow>
   consistent d rs (claim_exit st l x r)"
  by (auto simp: consistent_def AList.update_conv' distinct_update fun_eq_iff)

lemma try_edges_seen: "try_edges es l rs st = (ok, st') \<Longrightarrow> set (m_seen st) \<subseteq> set (m_seen st')"
proof (induction es l rs st arbitrary: ok st' rule: try_edges.induct)
  case (1 es l st)
  then show ?case by simp
next
  case (2 es l r rs st)
  show ?case
  proof (cases "List.member (m_seen st) (right_key r)")
    case True
    with 2(1) [OF True] 2(4) show ?thesis by auto
  next
    case new: False
    show ?thesis
    proof (cases "owner st (right_key r)")
      case None
      with new 2(4) show ?thesis by auto
    next
      case (Some other)
      obtain ok2 st2 where rec: "try_edges es other (adj es other) (mark st (right_key r)) = (ok2, st2)"
        by (cases "try_edges es other (adj es other) (mark st (right_key r))")
      have "set (m_seen st) \<subseteq> set (m_seen st2)"
        using 2(2) [OF new Some rec] by simp
      then show ?thesis
        using 2(3) [OF new Some rec [symmetric], of ok st'] 2(4) new Some rec
        by (cases ok2) auto
    qed
  qed
qed

text \<open>A failed search changes no assignment, and the exits it visited are closed: each is taken,
  and every edge of its owner leads back among them.\<close>

lemma try_edges_fail:
  "try_edges es l rs st = (False, st') \<Longrightarrow>
   m_matched st' = m_matched st \<and> m_selected st' = m_selected st \<and>
   right_key ` set rs \<subseteq> set (m_seen st') \<and>
   (\<forall>x \<in> set (m_seen st') - set (m_seen st).
      \<exists>o'. owner st x = Some o' \<and> right_key ` set (adj es o') \<subseteq> set (m_seen st'))"
proof (induction es l rs st arbitrary: st' rule: try_edges.induct)
  case (1 es l st)
  then show ?case by simp
next
  case (2 es l r rs st)
  show ?case
  proof (cases "List.member (m_seen st) (right_key r)")
    case True
    with 2(1) [OF True] 2(4) show ?thesis
      using try_edges_seen [of es l rs st False st'] by auto
  next
    case new: False
    with 2(4) obtain other where o: "owner st (right_key r) = Some other"
      by (cases "owner st (right_key r)") auto
    obtain ok st2 where rec: "try_edges es other (adj es other) (mark st (right_key r)) = (ok, st2)"
      by (cases "try_edges es other (adj es other) (mark st (right_key r))")
    with 2(4) new o have nok: "\<not> ok" and rest: "try_edges es l rs st2 = (False, st')"
      by (auto split: if_splits)
    have A: "m_matched st2 = m_matched st" "m_selected st2 = m_selected st"
      "right_key ` set (adj es other) \<subseteq> set (m_seen st2)"
      "\<forall>x \<in> set (m_seen st2) - set (right_key r # m_seen st).
         \<exists>o'. owner st x = Some o' \<and> right_key ` set (adj es o') \<subseteq> set (m_seen st2)"
      using 2(2) [OF new o, of st2] rec nok by auto
    have B: "m_matched st' = m_matched st2" "m_selected st' = m_selected st2"
      "right_key ` set rs \<subseteq> set (m_seen st')"
      "\<forall>x \<in> set (m_seen st') - set (m_seen st2).
         \<exists>o'. owner st2 x = Some o' \<and> right_key ` set (adj es o') \<subseteq> set (m_seen st')"
      using 2(3) [OF new o rec [symmetric] nok rest] by auto
    have grow: "set (m_seen st2) \<subseteq> set (m_seen st')" "right_key r \<in> set (m_seen st2)"
      using try_edges_seen [OF rest] try_edges_seen [OF rec] by auto
    have "\<exists>o'. owner st x = Some o' \<and> right_key ` set (adj es o') \<subseteq> set (m_seen st')"
      if x: "x \<in> set (m_seen st') - set (m_seen st)" for x
    proof -
      consider "x = right_key r" | "x \<in> set (m_seen st2) - set (right_key r # m_seen st)"
        | "x \<in> set (m_seen st') - set (m_seen st2)" using x by auto
      then show ?thesis
      proof cases
        case 1
        with o A(3) grow(1) show ?thesis by (meson order_trans)
      next
        case 2
        with A(4) obtain o' where "owner st x = Some o'"
          "right_key ` set (adj es o') \<subseteq> set (m_seen st2)" by (meson bspec)
        with grow(1) show ?thesis by (meson order_trans)
      next
        case 3
        with B(4) A(1) show ?thesis by auto
      qed
    qed
    moreover have "right_key ` set (r # rs) \<subseteq> set (m_seen st')" using B(3) grow by auto
    ultimately show ?thesis using A(1,2) B(1,2) by simp
  qed
qed

text \<open>
  A successful search assigns one more exit. Inside the recursion the left node that is being
  moved still owns its old exit, a visited one that the caller overwrites; so injectivity holds
  apart from the exits \<open>l\<close> owned on entry.
\<close>

definition inj_owner :: "(string \<rightharpoonup> string) \<Rightarrow> string set \<Rightarrow> bool" where
  "inj_owner M H \<longleftrightarrow> (\<forall>x y l. M x = Some l \<longrightarrow> M y = Some l \<longrightarrow> x \<notin> H \<longrightarrow> y \<notin> H \<longrightarrow> x = y)"

definition augmented :: "string \<Rightarrow> string list \<Rightarrow> (string \<rightharpoonup> string) \<Rightarrow> (string \<rightharpoonup> string) \<Rightarrow> bool" where
  "augmented l seen M M' \<longleftrightarrow>
     (\<exists>x0. x0 \<notin> dom M \<and> dom M' = insert x0 (dom M)) \<and>
     (\<forall>x \<in> set seen. M' x = M x) \<and>
     inj_owner M' {x. M x = Some l} \<and>
     ran M' \<subseteq> insert l (ran M)"

lemma augmented_direct:
  assumes "inj_owner M {}" and "x \<notin> dom M" and "x \<notin> set seen"
  shows "augmented l seen M (M(x \<mapsto> l))"
  using assms unfolding augmented_def inj_owner_def
  by (auto simp: ran_def split: if_splits)

lemma augmented_step:
  assumes rec: "augmented other (x # seen) M M1"
    and inj: "inj_owner M {}" and x: "M x = Some other" "x \<notin> set seen"
    and hole: "\<And>y. M y = Some l \<Longrightarrow> y \<in> set seen"
  shows "augmented l seen M (M1(x \<mapsto> l))"
proof -
  have holes: "{y. M y = Some other} = {x}"
    using inj x(1) by (auto simp: inj_owner_def)
  have same: "M1 y = M y" if "y \<in> set seen" for y
    using rec that by (simp add: augmented_def)
  have inj1: "y = z" if "M1 y = Some k" "M1 z = Some k" "y \<noteq> x" "z \<noteq> x" for y z k
    using rec holes that by (auto simp: augmented_def inj_owner_def)
  have only: "M y = Some l" if y: "M1 y = Some l" "y \<noteq> x" for y
  proof (cases "\<exists>h. M h = Some l")
    case True
    then obtain h where h: "M h = Some l" by blast
    with hole same x(2) have "M1 h = Some l" "h \<noteq> x" by fastforce+
    with inj1 y have "y = h" by blast
    with h show ?thesis by simp
  next
    case False
    have "l \<in> insert other (ran M)"
      using rec y(1) by (auto simp: augmented_def ran_def)
    moreover have "other \<in> ran M" using x(1) by (auto simp: ran_def)
    ultimately show ?thesis using False by (auto simp: ran_def)
  qed
  have "dom (M1(x \<mapsto> l)) = dom M1"
    using rec x(1) by (auto simp: augmented_def)
  moreover have "ran (M1(x \<mapsto> l)) \<subseteq> insert l (ran M)"
    using rec x(1) by (auto simp: augmented_def ran_def)
  moreover have "inj_owner (M1(x \<mapsto> l)) {y. M y = Some l}"
    using inj1 only by (auto simp: inj_owner_def)
  ultimately show ?thesis
    using rec same x(2) unfolding augmented_def by auto
qed

lemma try_edges_ok:
  assumes "try_edges (edges_of d us) l rs st = (True, st')"
    and "set rs \<subseteq> set (adj (edges_of d us) l)" and "consistent d us st"
    and "inj_owner (owner st) {}" and "\<And>y. owner st y = Some l \<Longrightarrow> y \<in> set (m_seen st)"
  shows "consistent d us st' \<and> augmented l (m_seen st) (owner st) (owner st')"
  using assms
proof (induction "edges_of d us" l rs st arbitrary: st' rule: try_edges.induct)
  case (1 l st)
  then show ?case by simp
next
  case (2 l r rs st)
  have r: "r \<in> set us" "routed r" "left_key d r = l"
    using 2(5) by (auto simp: set_adj)
  show ?case
  proof (cases "List.member (m_seen st) (right_key r)")
    case True
    with 2(1) [OF True] 2(4-) show ?thesis by auto
  next
    case new: False
    show ?thesis
    proof (cases "owner st (right_key r)")
      case None
      with 2(4) new have st': "st' = claim_exit (mark st (right_key r)) l (right_key r) r" by simp
      have "augmented l (m_seen st) (owner st) ((owner st)(right_key r \<mapsto> l))"
        using 2(7) None new by (intro augmented_direct) auto
      then show ?thesis
        using st' 2(6) r by (auto simp: consistent_claim AList.update_conv')
    next
      case (Some other)
      obtain ok st2 where rec:
        "try_edges (edges_of d us) other (adj (edges_of d us) other) (mark st (right_key r)) = (ok, st2)"
        by (cases "try_edges (edges_of d us) other (adj (edges_of d us) other) (mark st (right_key r))")
      have hole: "y \<in> set (m_seen (mark st (right_key r)))" if "owner st y = Some other" for y
        using 2(7) Some that by (auto simp: inj_owner_def)
      show ?thesis
      proof (cases ok)
        case True
        with 2(4) new Some rec have st': "st' = claim_exit st2 l (right_key r) r" by simp
        have IH: "consistent d us st2 \<and>
            augmented other (right_key r # m_seen st) (owner st) (owner st2)"
          using 2(2) [OF new Some, of st2] rec True 2(6,7) hole by simp
        then have "augmented l (m_seen st) (owner st) ((owner st2)(right_key r \<mapsto> l))"
          using 2(7,8) Some new by (intro augmented_step [of other]) auto
        then show ?thesis
          using IH st' r by (auto simp: consistent_claim AList.update_conv')
      next
        case False
        with 2(4) new Some rec have rest: "try_edges (edges_of d us) l rs st2 = (True, st')" by simp
        from rec False have same: "m_matched st2 = m_matched st" "m_selected st2 = m_selected st"
          and grow: "set (m_seen (mark st (right_key r))) \<subseteq> set (m_seen st2)"
          using try_edges_fail [of "edges_of d us" other] try_edges_seen [OF rec] by auto
        have "set rs \<subseteq> set (adj (edges_of d us) l)" using 2(5) by simp
        moreover have "consistent d us st2" using 2(6) same by (simp add: consistent_def)
        moreover have "inj_owner (owner st2) {}" using 2(7) same by simp
        moreover have "y \<in> set (m_seen st2)" if "owner st2 y = Some l" for y
          using 2(8) [of y] that same grow by auto
        ultimately have "consistent d us st' \<and> augmented l (m_seen st2) (owner st2) (owner st')"
          using 2(3) [OF new Some rec [symmetric] False rest] by blast
        then show ?thesis
          using same grow by (auto simp: augmented_def)
      qed
    qed
  qed
qed

section \<open>The chosen set is independent and largest\<close>

abbreviation selection :: "mstate \<Rightarrow> result set" where
  "selection st \<equiv> ran (chosen st)"

definition candidate :: "bool \<Rightarrow> result list \<Rightarrow> string set \<Rightarrow> result set \<Rightarrow> bool" where
  "candidate d us P S \<longleftrightarrow> S \<subseteq> set us \<and> independent d S \<and> left_key d ` S \<subseteq> P"

definition matching :: "bool \<Rightarrow> result list \<Rightarrow> string set \<Rightarrow> mstate \<Rightarrow> bool" where
  "matching d us P st \<longleftrightarrow>
     consistent d us st \<and> inj_owner (owner st) {} \<and> ran (owner st) \<subseteq> P \<and>
     (\<forall>S. candidate d us P S \<longrightarrow> card S \<le> card (dom (owner st)))"

lemma candidate_finite: "candidate d us P S \<Longrightarrow> finite S"
  by (auto simp: candidate_def intro: finite_subset)

lemma dom_owner: "consistent d us st \<Longrightarrow> dom (owner st) = dom (chosen st)"
  by (auto simp: consistent_def dom_def)

lemma chosen_right: "consistent d us st \<Longrightarrow> chosen st x = Some r \<Longrightarrow> right_key r = x"
  by (simp add: consistent_def)

lemma finite_range_map_of': "finite (ran (map_of xs))"
  by (rule finite_subset [of _ "set (map snd xs)"]) (auto simp: ran_def dest: map_of_SomeD intro!: rev_image_eqI)

lemma selection_iff: "consistent d us st \<Longrightarrow> r \<in> selection st \<longleftrightarrow> chosen st (right_key r) = Some r"
  by (auto simp: ran_def dest: chosen_right)

lemma selection_right:
  assumes "consistent d us st"
  shows "inj_on right_key (selection st) \<and> right_key ` selection st = dom (owner st)"
proof
  show "inj_on right_key (selection st)"
    using assms by (intro inj_onI) (simp add: selection_iff)
  have "x \<in> right_key ` selection st" if "chosen st x = Some r" for x r
    using that chosen_right [OF assms that] by (auto simp: ran_def)
  moreover have "right_key r \<in> dom (chosen st)" if "r \<in> selection st" for r
    using that assms by (auto simp: selection_iff)
  ultimately show "right_key ` selection st = dom (owner st)"
    unfolding dom_owner [OF assms] by auto
qed

lemma selection_independent:
  assumes "consistent d us st" and "inj_owner (owner st) {}"
  shows "independent d (selection st)"
proof -
  have "inj_on (left_key d) (selection st)"
  proof (rule inj_onI)
    fix r s assume "r \<in> selection st" "s \<in> selection st" and eq: "left_key d r = left_key d s"
    then obtain x y where xy: "chosen st x = Some r" "chosen st y = Some s"
      by (auto simp: ran_def)
    with assms(1) eq have "owner st x = Some (left_key d s)" "owner st y = Some (left_key d s)"
      by (auto simp: consistent_def)
    with assms(2) have "x = y" by (auto simp: inj_owner_def)
    with xy show "r = s" by simp
  qed
  moreover have "\<forall>r \<in> selection st. routed r"
    using assms(1) by (auto simp: consistent_def ran_def)
  ultimately show ?thesis
    using selection_right [OF assms(1)] by (simp add: independent_def)
qed

lemma independent_mono: "independent d S \<Longrightarrow> T \<subseteq> S \<Longrightarrow> independent d T"
  by (auto simp: independent_def intro: inj_on_subset)

text \<open>A failed search: exchange the part of a candidate that uses visited exits for the chosen
  results on these exits, which avoids \<open>l\<close>.\<close>

lemma fail_bound:
  assumes m: "matching d us P st" and l: "l \<notin> P"
    and fail: "try_edges (edges_of d us) l (adj (edges_of d us) l) (st\<lparr>m_seen := []\<rparr>) = (False, st')"
    and S: "candidate d us (insert l P) S"
  shows "card S \<le> card (dom (owner st))"
proof -
  define R where "R = set (m_seen st')"
  have adjR: "right_key ` set (adj (edges_of d us) l) \<subseteq> R"
    and closed: "\<And>x. x \<in> R \<Longrightarrow> \<exists>k. owner st x = Some k \<and> right_key ` set (adj (edges_of d us) k) \<subseteq> R"
    using try_edges_fail [OF fail] by (auto simp: R_def)
  have con: "consistent d us st" and inj: "inj_owner (owner st) {}" and ranP: "ran (owner st) \<subseteq> P"
    using m by (auto simp: matching_def)
  define T where "T = {r \<in> selection st. right_key r \<in> R}"
  define In where "In = {r \<in> S. right_key r \<in> R}"
  define Out where "Out = {r \<in> S. right_key r \<notin> R}"
  have fin: "finite S" using S by (rule candidate_finite)
  have indS: "independent d S" "S \<subseteq> set us" using S by (auto simp: candidate_def)
  have RM: "R \<subseteq> right_key ` selection st"
    using closed selection_right [OF con] by blast
  then have rT: "right_key ` T = R" by (auto simp: T_def)
  have "T \<subseteq> selection st" by (auto simp: T_def)
  then have injT: "inj_on right_key T"
    using selection_right [OF con] by (auto intro: inj_on_subset)
  have finT: "finite T"
    by (rule finite_subset [OF \<open>T \<subseteq> selection st\<close>]) (rule finite_range_map_of')
  have "card In \<le> card R"
    using indS fin by (intro card_inj_on_le [of right_key]) (auto simp: In_def R_def independent_def inj_on_def)
  also have "card R = card T"
    using card_image [OF injT] rT by simp
  finally have inT: "card In \<le> card T" .
  have edge: "right_key r \<in> R" if "r \<in> S" "left_key d r = l \<or> (\<exists>x \<in> R. owner st x = Some (left_key d r))" for r
  proof -
    have r: "r \<in> set (adj (edges_of d us) (left_key d r))"
      using indS that(1) by (auto simp: set_adj independent_def)
    from that(2) show ?thesis
    proof
      assume "left_key d r = l"
      with r adjR show ?thesis by auto
    next
      assume "\<exists>x \<in> R. owner st x = Some (left_key d r)"
      then obtain x where "x \<in> R" "owner st x = Some (left_key d r)" by blast
      with closed [of x] r show ?thesis by auto
    qed
  qed
  have T_left: "\<exists>x \<in> R. owner st x = Some (left_key d r)" if "r \<in> T" for r
    using that con chosen_right [OF con] by (fastforce simp: T_def ran_def consistent_def)
  have "candidate d us P (T \<union> Out)"
    unfolding candidate_def
  proof (intro conjI)
    show "T \<union> Out \<subseteq> set us"
      using con indS by (auto simp: T_def Out_def consistent_def ran_def)
    have "inj_on (left_key d) (T \<union> Out)"
    proof (rule inj_onI)
      fix r s assume rs: "r \<in> T \<union> Out" "s \<in> T \<union> Out" "left_key d r = left_key d s"
      have "\<not> (a \<in> T \<and> b \<in> Out)" if "left_key d a = left_key d b" for a b
        using T_left [of a] edge [of b] that by (auto simp: Out_def)
      with rs have "(r \<in> T \<and> s \<in> T) \<or> (r \<in> Out \<and> s \<in> Out)" by (metis Un_iff)
      then show "r = s"
        using rs(3) indS selection_independent [OF con inj]
        by (auto simp: independent_def inj_on_def T_def Out_def)
    qed
    moreover have "inj_on right_key (T \<union> Out)"
      using injT indS by (auto simp: independent_def inj_on_def T_def Out_def)
    moreover have "\<forall>r \<in> T \<union> Out. routed r"
      using indS selection_independent [OF con inj] by (auto simp: independent_def T_def Out_def)
    ultimately show "independent d (T \<union> Out)" by (simp add: independent_def)
    have "left_key d r \<in> P" if "r \<in> Out" for r
      using edge [of r] that S by (auto simp: Out_def candidate_def)
    moreover have "left_key d r \<in> P" if "r \<in> T" for r
      using T_left [OF that] ranP by (auto simp: ran_def)
    ultimately show "left_key d ` (T \<union> Out) \<subseteq> P" by auto
  qed
  then have "card (T \<union> Out) \<le> card (dom (owner st))"
    using m by (simp add: matching_def)
  moreover have "card (T \<union> Out) = card T + card Out"
    using finT fin by (intro card_Un_disjoint) (auto simp: T_def Out_def)
  moreover have "card S = card In + card Out"
    using fin by (subst card_Un_disjoint [symmetric]) (auto simp: In_def Out_def intro!: arg_cong [of _ _ card])
  ultimately show ?thesis using inT by linarith
qed

lemma success_bound:
  assumes m: "matching d us P st" and S: "candidate d us (insert l P) S"
  shows "card S \<le> Suc (card (dom (owner st)))"
proof -
  define S' where "S' = {r \<in> S. left_key d r \<noteq> l}"
  have fin: "finite S" using S by (rule candidate_finite)
  have "candidate d us P S'"
    using S independent_mono [of d S S'] by (auto simp: candidate_def S'_def)
  then have "card S' \<le> card (dom (owner st))" using m by (simp add: matching_def)
  moreover have "card (S - S') \<le> 1"
    using S fin by (auto simp: candidate_def independent_def inj_on_def S'_def card_le_Suc0_iff_eq)
  moreover have "card S = card S' + card (S - S')"
    using fin card_Diff_subset [of S' S] card_mono [of S S'] by (auto simp: S'_def)
  ultimately show ?thesis by linarith
qed

lemma matching_visit:
  assumes m: "matching d us P st" and l: "l \<notin> P"
  shows "matching d us (insert l P) (visit (edges_of d us) st l)"
proof -
  obtain ok st' where t:
    "try_edges (edges_of d us) l (adj (edges_of d us) l) (st\<lparr>m_seen := []\<rparr>) = (ok, st')"
    by (cases "try_edges (edges_of d us) l (adj (edges_of d us) l) (st\<lparr>m_seen := []\<rparr>)")
  then have v: "visit (edges_of d us) st l = st'" by (simp add: visit_def)
  have con: "consistent d us st" and inj: "inj_owner (owner st) {}" and ranP: "ran (owner st) \<subseteq> P"
    using m by (auto simp: matching_def)
  from ranP l have free: "owner st y \<noteq> Some l" for y by (auto simp: ran_def)
  show ?thesis
  proof (cases ok)
    case True
    with t con inj free
    have con': "consistent d us st'" and aug: "augmented l [] (owner st) (owner st')"
      using try_edges_ok [of d us l "adj (edges_of d us) l" "st\<lparr>m_seen := []\<rparr>" st'] by auto
    from aug obtain x0 where x0: "x0 \<notin> dom (owner st)" "dom (owner st') = insert x0 (dom (owner st))"
      by (auto simp: augmented_def)
    have "inj_owner (owner st') {}"
      using aug free by (auto simp: augmented_def)
    moreover have "ran (owner st') \<subseteq> insert l P"
      using aug ranP by (auto simp: augmented_def)
    moreover have "card (dom (owner st')) = Suc (card (dom (owner st)))"
      using x0 by (simp add: finite_dom_map_of)
    ultimately show ?thesis
      using con' success_bound [OF m] v by (simp add: matching_def)
  next
    case False
    with t have f: "try_edges (edges_of d us) l (adj (edges_of d us) l) (st\<lparr>m_seen := []\<rparr>) = (False, st')"
      by simp
    have same: "m_matched st' = m_matched st" "m_selected st' = m_selected st"
      using try_edges_fail [OF f] by auto
    with con inj ranP v fail_bound [OF m l f] show ?thesis
      by (auto simp: matching_def consistent_def)
  qed
qed

lemma matching_visits:
  "matching d us P st \<Longrightarrow> distinct ls \<Longrightarrow> set ls \<inter> P = {} \<Longrightarrow>
   matching d us (P \<union> set ls) (foldl (visit (edges_of d us)) st ls)"
proof (induction ls arbitrary: P st)
  case Nil
  then show ?case by simp
next
  case (Cons l ls)
  have "matching d us (insert l P) (visit (edges_of d us) st l)"
    using Cons.prems by (intro matching_visit) auto
  then have "matching d us (insert l P \<union> set ls)
      (foldl (visit (edges_of d us)) (visit (edges_of d us) st l) ls)"
    using Cons.prems by (intro Cons.IH) auto
  then show ?case by simp
qed

lemma matching_start: "matching d us {} mstate0"
  by (auto simp: matching_def consistent_def inj_owner_def mstate0_def candidate_def)

definition final_matching :: "result list \<Rightarrow> bool \<Rightarrow> mstate" where
  "final_matching rs d = foldl (visit (edges_of d rs)) mstate0 (lefts (edges_of d rs))"

lemma independent_results_final:
  "independent_results rs d = sort_key r_prober (map snd (m_selected (final_matching rs d)))"
  by (simp add: independent_results_def final_matching_def Let_def)

lemma matching_final:
  "matching d us (left_key d ` {r \<in> set us. routed r}) (final_matching us d)"
  using matching_visits [OF matching_start distinct_lefts, of d us]
  by (simp add: final_matching_def set_lefts)

lemma consistent_final: "consistent d us (final_matching us d)"
  using matching_final [of d us] by (simp add: matching_def)

lemma set_independent_results: "set (independent_results us d) = selection (final_matching us d)"
proof -
  have "distinct (map fst (m_selected (final_matching us d)))"
    using consistent_final by (simp add: consistent_def)
  then show ?thesis by (simp add: independent_results_final ran_distinct)
qed

lemma independent_count_dom: "independent_count us d = card (dom (owner (final_matching us d)))"
proof -
  have "distinct (map fst (m_selected (final_matching us d)))"
    using consistent_final by (simp add: consistent_def)
  then show ?thesis
    unfolding dom_owner [OF consistent_final]
    using distinct_card [of "map fst (m_selected (final_matching us d))"]
    by (simp add: independent_count_def independent_results_final dom_map_of_conv_image_fst)
qed

lemma independent_results_independent: "independent d (set (independent_results us d))"
  unfolding set_independent_results
  using matching_final [of d us] by (intro selection_independent) (auto simp: matching_def)

lemma independent_results_subset: "set (independent_results us d) \<subseteq> set us"
  unfolding set_independent_results
  using consistent_final [of d us] by (auto simp: consistent_def ran_def)

lemma independent_results_distinct: "distinct (independent_results us d)"
proof -
  let ?st = "final_matching us d"
  have "card (set (independent_results us d)) = card (dom (owner ?st))"
    unfolding set_independent_results
    using selection_right [OF consistent_final, of us d] card_image by metis
  then show ?thesis
    using independent_count_dom [of us d] by (simp add: card_distinct independent_count_def)
qed

lemma independent_results_largest:
  assumes "S \<subseteq> set us" and "independent d S"
  shows "card S \<le> independent_count us d"
proof -
  have "candidate d us (left_key d ` {r \<in> set us. routed r}) S"
    using assms by (auto simp: candidate_def independent_def)
  with matching_final [of d us] show ?thesis
    by (simp add: matching_def independent_count_dom)
qed

lemma independent_count_card: "independent_count us d = card (set (independent_results us d))"
  by (simp add: independent_count_def distinct_card independent_results_distinct)

text \<open>Consequences the evaluation of a quorum uses.\<close>

lemma independent_count_mono:
  "set us \<subseteq> set vs \<Longrightarrow> independent_count us d \<le> independent_count vs d"
  unfolding independent_count_card [of us]
  using independent_results_subset [of us d] independent_results_independent [of d us]
  by (intro independent_results_largest) auto

lemma independent_count_set_eq:
  "set us = set vs \<Longrightarrow> independent_count us d = independent_count vs d"
  by (intro order_antisym independent_count_mono) simp_all

lemma independent_count_le_length: "independent_count us d \<le> length us"
proof -
  have "card (set (independent_results us d)) \<le> card (set us)"
    by (rule card_mono) (simp_all add: independent_results_subset)
  also have "\<dots> \<le> length us" by (rule card_length)
  finally show ?thesis by (simp add: independent_count_card)
qed

lemma independent_results_keys:
  "card (right_key ` set (independent_results us d)) = independent_count us d"
  "card (left_key d ` set (independent_results us d)) = independent_count us d"
  using independent_results_independent [of d us]
  by (simp_all add: independent_def card_image independent_count_card)

lemma independent_count_providers:
  "independent_count us True \<le> card (provider_key ` set us)"
proof -
  have "card (left_key True ` set (independent_results us True)) \<le> card (provider_key ` set us)"
    using independent_results_subset [of us True]
    by (intro card_mono) (auto simp: left_key_def)
  then show ?thesis by (simp add: independent_results_keys)
qed

end
