(* ===== verification/Quorum.thy ===== *)
theory Quorum
  imports Interfaces Independent
begin

text \<open>
  \<open>internal/quorum\<close>: \<open>Evaluate\<close> turns results into a verdict. The loop over the results is
  \<open>ballot_step\<close>; the part after it, which only counts the votes kept, is \<open>conclude\<close>. The map
  \<open>byProber\<close> is an association list; Go iterates it in any order, and \<open>conclude_perm\<close> shows that
  the order does not reach the verdict.
\<close>

record options =
  o_now :: time
  o_max_age :: duration
  o_isolated :: "string \<Rightarrow> bool"

record verdict =
  v_check :: string
  v_status :: status
  v_down :: nat
  v_up :: nat
  v_warning :: nat
  v_unknown :: nat
  v_ind_up :: nat
  v_ind_down :: nat
  v_counted :: nat
  v_discarded :: nat
  v_suppressed :: nat
  v_suppressed_probers :: "string list"
  v_providers :: "string list"
  v_dissent :: "string list"
  v_reason :: string

definition actionable :: "verdict \<Rightarrow> bool" where
  "actionable v \<longleftrightarrow> v_status v = StatusDown"

section \<open>Counting\<close>

definition usable :: "check \<Rightarrow> result \<Rightarrow> options \<Rightarrow> bool" where
  "usable c r opts =
     (if r_check r \<noteq> c_name c then False
      else if r_vantage r \<noteq> c_vantage c then False
      else if r_proxy_profile r \<noteq> c_proxy_profile c \<or> (c_proxy_profile c \<noteq> [] \<and> r_egress r = [])
      then False
      else if o_max_age opts > 0 \<and> \<not> is_zero (o_now opts) \<and> r_at r < o_now opts - o_max_age opts
      then False
      else True)"

record ballot =
  b_by_prober :: "(string \<times> result) list"
  b_discarded :: nat
  b_suppressed :: nat
  b_suppressed_probers :: "string list"

definition ballot0 :: ballot where
  "ballot0 = \<lparr>b_by_prober = [], b_discarded = 0, b_suppressed = 0, b_suppressed_probers = []\<rparr>"

definition ballot_step :: "check \<Rightarrow> options \<Rightarrow> ballot \<Rightarrow> result \<Rightarrow> ballot" where
  "ballot_step c opts b r =
     (if o_isolated opts (r_prober r) then
        b\<lparr>b_suppressed := Suc (b_suppressed b),
          b_suppressed_probers :=
            (if List.member (b_suppressed_probers b) (r_prober r) then b_suppressed_probers b
             else b_suppressed_probers b @ [r_prober r])\<rparr>
      else if \<not> usable c r opts then b\<lparr>b_discarded := Suc (b_discarded b)\<rparr>
      else case map_of (b_by_prober b) (r_prober r) of
        Some existing \<Rightarrow>
          b\<lparr>b_discarded := Suc (b_discarded b),
            b_by_prober := (if r_at r > r_at existing
              then AList.update (r_prober r) r (b_by_prober b) else b_by_prober b)\<rparr>
      | None \<Rightarrow> b\<lparr>b_by_prober := AList.update (r_prober r) r (b_by_prober b)\<rparr>)"

definition distinct_provider_names :: "result list \<Rightarrow> string list" where
  "distinct_provider_names rs = sort (remdups (map provider_key rs))"

definition prober_names :: "result list \<Rightarrow> string list" where
  "prober_names rs = sort (map r_prober rs)"

definition satisfies :: "quorum \<Rightarrow> result list \<Rightarrow> nat \<times> string list \<times> bool" where
  "satisfies q agreeing =
     (length agreeing, distinct_provider_names agreeing,
      int (independent_count agreeing (q_distinct q)) \<ge> q_agree q)"

definition down_reason :: "check \<Rightarrow> nat \<Rightarrow> verdict \<Rightarrow> string list \<Rightarrow> string" where
  "down_reason c agreed v providers =
     itoa agreed @ '' of '' @ itoa (v_counted v) @ '' probers reported down'' @
     (if length providers = 1 \<and> providers ! 0 = unknown_provider then '' (provider not recorded)''
      else if length providers = 1 then '' (all at '' @ providers ! 0 @ '')''
      else '' across '' @ itoa (length providers) @ '' providers: '' @ join '', '' providers) @
     (if v_up v > 0 then ''; '' @ itoa (v_up v) @ '' still reported up'' else []) @
     (if v_unknown v > 0 then ''; '' @ itoa (v_unknown v) @ '' could not tell'' else []) @
     (if c_proxy_profile c \<noteq> []
      then ''; '' @ itoa (v_ind_down v) @ '' independent down votes via proxy '' @ c_proxy_profile c
      else []) @
     (if q_distinct (c_quorum c) then ''; provider diversity required'' else [])"

definition with_status :: "status \<Rightarrow> result list \<Rightarrow> result list" where
  "with_status s rs = filter (\<lambda>r. r_status r = s) rs"

definition counts_of :: "check \<Rightarrow> ballot \<Rightarrow> result list \<Rightarrow> verdict" where
  "counts_of c b rs =
     (let down = with_status StatusDown rs; up = with_status StatusUp rs;
          warning = with_status StatusWarning rs; d = q_distinct (c_quorum c) in
      \<lparr>v_check = c_name c, v_status = StatusUnknown,
       v_down = length down, v_up = length up, v_warning = length warning,
       v_unknown = length (filter (\<lambda>r. \<not> is_evidence r) rs),
       v_ind_up = independent_count (up @ warning) d,
       v_ind_down = independent_count down d,
       v_counted = length down + length up + length warning,
       v_discarded = b_discarded b, v_suppressed = b_suppressed b,
       v_suppressed_probers = sort (b_suppressed_probers b),
       v_providers = [], v_dissent = [], v_reason = []\<rparr>)"

definition conclude :: "check \<Rightarrow> ballot \<Rightarrow> result list \<Rightarrow> verdict" where
  "conclude c b rs =
     (let down = with_status StatusDown rs; up = with_status StatusUp rs;
          warning = with_status StatusWarning rs; answered = up @ warning;
          q = c_quorum c; v = counts_of c b rs in
      case satisfies q down of (agreed, down_providers, confirmed) \<Rightarrow>
      if confirmed then
        v\<lparr>v_status := StatusDown, v_providers := down_providers, v_dissent := prober_names answered,
          v_reason := down_reason c agreed v down_providers\<rparr>
      else if v_counted v = 0 then
        v\<lparr>v_reason := ''no prober could form an opinion ('' @ itoa (v_unknown v) @ '' unknown, '' @
             itoa (v_discarded v) @ '' discarded)'' @
             (if v_suppressed v > 0
              then ''; '' @ itoa (v_suppressed v) @ '' result(s) not counted because '' @
                   join '', '' (v_suppressed_probers v) @ '' could reach no peer''
              else [])\<rparr>
      else if v_down v > 0 then
        v\<lparr>v_dissent := prober_names down,
          v_reason := ''inconclusive: '' @ itoa (v_down v) @ '' of '' @ itoa (v_counted v) @
            '' reported down, quorum needs '' @ itoa_int (q_agree q) @
            (if c_proxy_profile c \<noteq> []
             then ''; '' @ itoa (v_ind_down v) @ '' independent down votes'' else [])\<rparr>
      else case satisfies q warning of (_, warning_providers, warned) \<Rightarrow>
      if warned then
        v\<lparr>v_status := StatusWarning, v_providers := warning_providers, v_dissent := prober_names up,
          v_reason := itoa (v_warning v) @ '' of '' @ itoa (v_counted v) @ '' reported a warning''\<rparr>
      else case satisfies q answered of (_, providers, _) \<Rightarrow>
        v\<lparr>v_status := StatusUp, v_providers := providers,
          v_dissent := (if v_warning v > 0 then prober_names warning else []),
          v_reason := itoa (v_up v) @ '' of '' @ itoa (v_counted v) @ '' reported up'' @
            (if v_warning v > 0
             then ''; '' @ itoa (v_warning v) @ '' warning short of quorum '' @ itoa_int (q_agree q)
             else [])\<rparr>)"

definition evaluate :: "check \<Rightarrow> result list \<Rightarrow> options \<Rightarrow> verdict" where
  "evaluate c results opts =
     (let b = foldl (ballot_step c opts) ballot0 results
      in conclude c b (map snd (b_by_prober b)))"

section \<open>The votes that are kept\<close>

definition keep_newer :: "(string \<times> result) list \<Rightarrow> result \<Rightarrow> (string \<times> result) list" where
  "keep_newer kept r =
     (case map_of kept (r_prober r) of
        Some existing \<Rightarrow> if r_at r > r_at existing then AList.update (r_prober r) r kept else kept
      | None \<Rightarrow> AList.update (r_prober r) r kept)"

text \<open>One prober, one vote, its newest: \<open>byProber\<close> is a store in which the newest record wins.\<close>

interpretation votes_kept: newest_wins keep_newer map_of r_prober r_at
proof
  fix s :: "(string \<times> result) list" and r :: result
  assume "\<And>old. map_of s (r_prober r) = Some old \<Longrightarrow> r_at old < r_at r"
  then show "map_of (keep_newer s r) = (map_of s)(r_prober r \<mapsto> r)"
    by (auto simp: keep_newer_def AList.update_conv' split: option.splits)
next
  fix s :: "(string \<times> result) list" and r old :: result
  assume "map_of s (r_prober r) = Some old" "r_at r \<le> r_at old"
  then show "map_of (keep_newer s r) = map_of s" by (simp add: keep_newer_def)
qed

definition admitted :: "check \<Rightarrow> options \<Rightarrow> result \<Rightarrow> bool" where
  "admitted c opts r \<longleftrightarrow> \<not> o_isolated opts (r_prober r) \<and> usable c r opts"

definition kept_votes :: "check \<Rightarrow> options \<Rightarrow> result list \<Rightarrow> (string \<times> result) list" where
  "kept_votes c opts results = foldl keep_newer [] (filter (admitted c opts) results)"

abbreviation ballot_of :: "check \<Rightarrow> options \<Rightarrow> result list \<Rightarrow> ballot" where
  "ballot_of c opts results \<equiv> foldl (ballot_step c opts) ballot0 results"

lemma ballot_by_prober:
  "b_by_prober (foldl (ballot_step c opts) b results) =
   foldl keep_newer (b_by_prober b) (filter (admitted c opts) results)"
proof (induction results arbitrary: b)
  case Nil
  then show ?case by simp
next
  case (Cons r rs)
  have "b_by_prober (ballot_step c opts b r) =
      (if admitted c opts r then keep_newer (b_by_prober b) r else b_by_prober b)"
    by (auto simp: ballot_step_def admitted_def keep_newer_def split: option.splits)
  with Cons show ?case by simp
qed

lemma ballot_kept: "b_by_prober (ballot_of c opts results) = kept_votes c opts results"
  by (simp add: ballot_by_prober kept_votes_def ballot0_def)

lemma distinct_keep: "distinct (map fst s) \<Longrightarrow> distinct (map fst (foldl keep_newer s rs))"
  by (induction rs arbitrary: s) (auto simp: keep_newer_def distinct_update split: option.splits)

lemma distinct_kept: "distinct (map fst (kept_votes c opts results))"
  unfolding kept_votes_def by (rule distinct_keep) simp

lemma kept_newest:
  "map_of (kept_votes c opts results) p = Some r \<Longrightarrow>
   r \<in> set results \<and> admitted c opts r \<and> r_prober r = p \<and>
   (\<forall>r' \<in> set results. admitted c opts r' \<longrightarrow> r_prober r' = p \<longrightarrow> r_at r' \<le> r_at r)"
proof -
  assume "map_of (kept_votes c opts results) p = Some r"
  moreover have "map_of [] = (Map.empty :: string \<rightharpoonup> result)" by simp
  ultimately show ?thesis
    using votes_kept.newest_of_held [OF votes_kept.run_newest, of "[]" "filter (admitted c opts) results" p r]
    unfolding kept_votes_def by simp
qed

lemma kept_key: "(p, r) \<in> set (kept_votes c opts results) \<Longrightarrow> r_prober r = p"
  by (drule map_of_is_SomeI [OF distinct_kept], drule kept_newest) simp

lemma kept_in:
  "(p, r) \<in> set (kept_votes c opts results) \<Longrightarrow> r \<in> set results \<and> admitted c opts r"
  by (drule map_of_is_SomeI [OF distinct_kept], drule kept_newest) simp

abbreviation voters :: "check \<Rightarrow> options \<Rightarrow> result list \<Rightarrow> result list" where
  "voters c opts results \<equiv> map snd (kept_votes c opts results)"

lemma map_fst_kept: "map fst (kept_votes c opts results) = map r_prober (voters c opts results)"
  unfolding map_map
proof (rule map_cong [OF refl])
  fix x assume "x \<in> set (kept_votes c opts results)"
  then show "fst x = (r_prober \<circ> snd) x" using kept_key [of "fst x" "snd x"] by simp
qed

lemma distinct_voters: "distinct (map r_prober (voters c opts results))"
  using distinct_kept unfolding map_fst_kept .

lemma voters_in: "r \<in> set (voters c opts results) \<Longrightarrow> r \<in> set results \<and> admitted c opts r"
  using kept_in by auto

lemma evaluate_voters:
  "evaluate c results opts = conclude c (ballot_of c opts results) (voters c opts results)"
  by (simp add: evaluate_def Let_def ballot_kept)

section \<open>What the verdict rests on\<close>

abbreviation agreeing :: "check \<Rightarrow> result list \<Rightarrow> bool" where
  "agreeing c rs \<equiv> q_agree (c_quorum c) \<le> int (independent_count rs (q_distinct (c_quorum c)))"

lemma counts_simps [simp]:
  "v_status (counts_of c b rs) = StatusUnknown"
  "v_down (counts_of c b rs) = length (with_status StatusDown rs)"
  "v_up (counts_of c b rs) = length (with_status StatusUp rs)"
  "v_warning (counts_of c b rs) = length (with_status StatusWarning rs)"
  "v_unknown (counts_of c b rs) = length (filter (\<lambda>r. \<not> is_evidence r) rs)"
  "v_ind_up (counts_of c b rs) = independent_count
     (with_status StatusUp rs @ with_status StatusWarning rs) (q_distinct (c_quorum c))"
  "v_ind_down (counts_of c b rs) = independent_count
     (with_status StatusDown rs) (q_distinct (c_quorum c))"
  "v_discarded (counts_of c b rs) = b_discarded b"
  "v_suppressed (counts_of c b rs) = b_suppressed b"
  "v_suppressed_probers (counts_of c b rs) = sort (b_suppressed_probers b)"
  "v_counted (counts_of c b rs) = length (with_status StatusDown rs) +
     length (with_status StatusUp rs) + length (with_status StatusWarning rs)"
  by (simp_all add: counts_of_def Let_def)

text \<open>Every field that only counts is that of \<open>counts_of\<close>.\<close>

lemma conclude_counts:
  "v_down (conclude c b rs) = length (with_status StatusDown rs)"
  "v_up (conclude c b rs) = length (with_status StatusUp rs)"
  "v_warning (conclude c b rs) = length (with_status StatusWarning rs)"
  "v_unknown (conclude c b rs) = length (filter (\<lambda>r. \<not> is_evidence r) rs)"
  "v_ind_up (conclude c b rs) = independent_count
     (with_status StatusUp rs @ with_status StatusWarning rs) (q_distinct (c_quorum c))"
  "v_discarded (conclude c b rs) = b_discarded b"
  "v_suppressed (conclude c b rs) = b_suppressed b"
  "v_suppressed_probers (conclude c b rs) = sort (b_suppressed_probers b)"
  by (simp_all add: conclude_def Let_def satisfies_def)

lemma conclude_status:
  "v_status (conclude c b rs) =
     (if agreeing c (with_status StatusDown rs) then StatusDown
      else if \<forall>r \<in> set rs. \<not> is_evidence r then StatusUnknown
      else if \<exists>r \<in> set rs. r_status r = StatusDown then StatusUnknown
      else if agreeing c (with_status StatusWarning rs) then StatusWarning
      else StatusUp)"
  by (auto simp: conclude_def Let_def satisfies_def with_status_def filter_empty_conv is_evidence_def)

lemma conclude_providers_down:
  "v_status (conclude c b rs) = StatusDown \<Longrightarrow>
   agreeing c (with_status StatusDown rs) \<and>
   v_providers (conclude c b rs) = distinct_provider_names (with_status StatusDown rs)"
  by (auto simp: conclude_status conclude_def Let_def satisfies_def split: if_splits)

lemma sort_map_perm: "mset xs = mset ys \<Longrightarrow> sort (map f xs) = sort (map f ys)"
  by (metis mset_map properties_for_sort sorted_sort mset_sort)

lemma provider_names_perm:
  "mset xs = mset ys \<Longrightarrow> distinct_provider_names xs = distinct_provider_names ys"
  unfolding distinct_provider_names_def
  by (rule sorted_distinct_set_unique) (auto dest: mset_eq_setD)

lemma conclude_perm:
  assumes "mset rs = mset rs'"
  shows "conclude c b rs = conclude c b rs'"
proof -
  have st: "mset (with_status s rs) = mset (with_status s rs')" for s
    using assms by (simp add: with_status_def)
  have len: "length (with_status s rs) = length (with_status s rs')" for s
    by (rule mset_eq_length [OF st])
  have cnt: "independent_count (with_status s rs) d = independent_count (with_status s rs') d"
    "independent_count (with_status s rs @ with_status t rs) d =
     independent_count (with_status s rs' @ with_status t rs') d" for s t d
    using mset_eq_setD [OF st, of s] mset_eq_setD [OF st, of t]
    by (auto intro!: independent_count_set_eq)
  have nm: "prober_names (with_status s rs) = prober_names (with_status s rs')"
    "prober_names (with_status s rs @ with_status t rs) =
     prober_names (with_status s rs' @ with_status t rs')" for s t
    unfolding prober_names_def by (rule sort_map_perm, simp add: st)+
  have prov: "distinct_provider_names (with_status s rs) = distinct_provider_names (with_status s rs')"
    "distinct_provider_names (with_status s rs @ with_status t rs) =
     distinct_provider_names (with_status s rs' @ with_status t rs')" for s t
    using st by (auto intro!: provider_names_perm)
  have "length (filter (\<lambda>r. \<not> is_evidence r) rs) = length (filter (\<lambda>r. \<not> is_evidence r) rs')"
    using assms by (metis mset_eq_length mset_filter)
  then have "counts_of c b rs = counts_of c b rs'"
    by (simp add: counts_of_def Let_def len cnt)
  then show ?thesis
    by (simp only: conclude_def satisfies_def Let_def prod.case len cnt nm prov)
qed

section \<open>Properties of the verdict\<close>

lemma with_status_sub: "set (with_status s rs) \<subseteq> set rs"
  by (auto simp: with_status_def)

lemma voter_distinct_prober:
  "r \<in> set (voters c opts results) \<Longrightarrow> r' \<in> set (voters c opts results) \<Longrightarrow>
   r_prober r = r_prober r' \<Longrightarrow> r = r'"
  using distinct_voters [of c opts results]
  by (metis distinct_map inj_onD list.set_map)

definition reporters :: "status \<Rightarrow> result list \<Rightarrow> string set" where
  "reporters s rs = r_prober ` {r \<in> set rs. r_status r = s}"

text \<open>An agreement among the voters is a set of that many probers, each of which reported the
  status, was admitted, and is independent of the others.\<close>

lemma agreement_set:
  assumes "agreeing c (with_status s (voters c opts results))"
  shows "\<exists>S \<subseteq> set results. q_agree (c_quorum c) \<le> int (card S) \<and> independent (q_distinct (c_quorum c)) S \<and>
    inj_on r_prober S \<and> (\<forall>r \<in> S. r_status r = s \<and> admitted c opts r)"
proof -
  let ?us = "with_status s (voters c opts results)" and ?d = "q_distinct (c_quorum c)"
  let ?S = "set (independent_results ?us ?d)"
  have sub: "?S \<subseteq> set ?us" by (rule independent_results_subset)
  then have "r \<in> set results \<and> admitted c opts r \<and> r_status r = s" if "r \<in> ?S" for r
    using that voters_in [of r c opts results] by (auto simp: with_status_def)
  moreover have "inj_on r_prober ?S"
    using sub with_status_sub voter_distinct_prober by (intro inj_onI) blast
  moreover have "independent ?d ?S" by (rule independent_results_independent)
  ultimately show ?thesis
    using assms by (intro exI [of _ ?S]) (auto simp: independent_count_card)
qed

lemma agreement_reporters:
  assumes "agreeing c (with_status s (voters c opts results))"
  shows "q_agree (c_quorum c) \<le> int (card (reporters s results))"
proof -
  obtain S where S: "S \<subseteq> set results" "q_agree (c_quorum c) \<le> int (card S)" "inj_on r_prober S"
    "\<forall>r \<in> S. r_status r = s" using agreement_set [OF assms] by blast
  have "card S \<le> card (reporters s results)"
    using S by (intro card_inj_on_le [of r_prober]) (auto simp: reporters_def)
  with S(2) show ?thesis by linarith
qed

text \<open>Every result is accounted for exactly once.\<close>

lemma ballot_conservation:
  "length (b_by_prober (foldl (ballot_step c opts) b rs)) + b_discarded (foldl (ballot_step c opts) b rs)
     + b_suppressed (foldl (ballot_step c opts) b rs)
   = length (b_by_prober b) + b_discarded b + b_suppressed b + length rs"
proof (induction rs arbitrary: b)
  case Nil
  then show ?case by simp
next
  case (Cons r rs)
  have new: "length (AList.update k (v :: result) xs) = Suc (length xs)" if "map_of xs k = None" for k xs v
    using that by (induction xs) (auto split: if_splits)
  have old: "length (AList.update k (v :: result) xs) = length xs" if "map_of xs k = Some w" for k xs v w
    using that by (induction xs) (auto split: if_splits)
  have "length (b_by_prober (ballot_step c opts b r)) + b_discarded (ballot_step c opts b r)
     + b_suppressed (ballot_step c opts b r)
     = Suc (length (b_by_prober b) + b_discarded b + b_suppressed b)"
    by (auto simp: ballot_step_def new old split: option.splits)
  with Cons.IH [of "ballot_step c opts b r"] show ?case by simp
qed

lemma status_partition:
  "length rs = length (with_status StatusDown rs) + length (with_status StatusUp rs) +
     length (with_status StatusWarning rs) + length (filter (\<lambda>r. \<not> is_evidence r) rs)"
  by (induction rs) (auto simp: with_status_def is_evidence_def)

lemma suppressed_names:
  "set (b_suppressed_probers (foldl (ballot_step c opts) b rs)) =
   set (b_suppressed_probers b) \<union> {r_prober r |r. r \<in> set rs \<and> o_isolated opts (r_prober r)}"
proof (induction rs arbitrary: b)
  case Nil
  then show ?case by simp
next
  case (Cons r rs)
  have "set (b_suppressed_probers (ballot_step c opts b r)) = set (b_suppressed_probers b) \<union>
      {r_prober r' |r'. r' = r \<and> o_isolated opts (r_prober r')}"
    by (auto simp: ballot_step_def split: option.splits)
  with Cons.IH [of "ballot_step c opts b r"] show ?case by auto
qed

text \<open>Results that are not admitted leave the votes as they are.\<close>

lemma voters_admitted_only:
  "filter (admitted c opts) rs = filter (admitted c opts) rs' \<Longrightarrow> voters c opts rs = voters c opts rs'"
  by (simp add: kept_votes_def)

lemma evaluate_status_voters:
  "v_status (evaluate c results opts) =
     (if agreeing c (with_status StatusDown (voters c opts results)) then StatusDown
      else if \<forall>r \<in> set (voters c opts results). \<not> is_evidence r then StatusUnknown
      else if \<exists>r \<in> set (voters c opts results). r_status r = StatusDown then StatusUnknown
      else if agreeing c (with_status StatusWarning (voters c opts results)) then StatusWarning
      else StatusUp)"
  by (simp only: evaluate_voters conclude_status)

end
