(* ===== verification/Entity.thy ===== *)
theory Entity
  imports Quorum
begin

text \<open>
  \<open>entityState\<close> of \<open>internal/coordinator/coordinator.go\<close>: what the coordinator remembers about a
  check or a component, its state machine (\<open>apply\<close>) and the decision on one result (\<open>decide\<close>).
  The answers of the corroborators and the time the fan-out took are inputs of \<open>decide\<close>, and so
  are the two views of the world it takes: \<open>opts0\<close> (clock and isolated probers) when the result is
  looked at, \<open>opts\<close> when the evidence is evaluated; \<open>at\<close> and \<open>now\<close> are the clock at the two.
\<close>

datatype alert_kind = KindDown | KindRecovered | KindWarning | KindWarningCleared
  | KindSilent | KindReporting | KindIsolated | KindRejoined | KindUnwatched | KindWatched
  | KindWatchLost | KindWatchRecovered | KindAlertOther string

record attempt =
  a_at :: time
  a_duration_ms :: int
  a_reason :: string
  a_counted :: nat
  a_down :: nat
  a_up :: nat

record entity_state =
  es_status :: status
  es_stale :: bool
  es_since :: time
  es_last_verdict :: time
  es_suspected_since :: time
  es_last_attempt :: time
  es_last_corroboration :: duration
  es_inconclusive_attempts :: "64 word"
  es_last_inconclusive :: string
  es_history :: "attempt list"

definition max_inconclusive_history :: nat where "max_inconclusive_history = 32"

definition new_entity :: entity_state where
  "new_entity = \<lparr>es_status = StatusUnknown, es_stale = False, es_since = zero_time,
     es_last_verdict = zero_time, es_suspected_since = zero_time, es_last_attempt = zero_time,
     es_last_corroboration = 0, es_inconclusive_attempts = 0, es_last_inconclusive = [],
     es_history = []\<rparr>"

definition reported :: "entity_state \<Rightarrow> status" where
  "reported s = (if es_stale s then StatusUnknown else es_status s)"

definition clear_suspicion :: "entity_state \<Rightarrow> entity_state" where
  "clear_suspicion s = s\<lparr>es_suspected_since := zero_time, es_last_attempt := zero_time,
     es_last_corroboration := 0, es_inconclusive_attempts := 0, es_last_inconclusive := [],
     es_history := []\<rparr>"

section \<open>The state machine\<close>

definition enter :: "entity_state \<Rightarrow> status \<Rightarrow> time \<Rightarrow> entity_state" where
  "enter s st now = s\<lparr>es_status := st, es_since := now\<rparr>"

definition entity_apply :: "entity_state \<Rightarrow> status \<times> time \<Rightarrow> entity_state \<times> alert_kind option" where
  "entity_apply s e = (case e of (new, now) \<Rightarrow>
     (case new of
        StatusDown \<Rightarrow>
          if es_status s = StatusDown then (s, None) else (enter s StatusDown now, Some KindDown)
      | StatusWarning \<Rightarrow>
          (case es_status s of
             StatusWarning \<Rightarrow> (s, None)
           | StatusDown \<Rightarrow> (enter s StatusWarning now, Some KindRecovered)
           | _ \<Rightarrow> (enter s StatusWarning now, Some KindWarning))
      | StatusUp \<Rightarrow>
          (let previous = es_status s;
               s' = (if previous \<noteq> StatusUp then s\<lparr>es_since := now\<rparr> else s)\<lparr>es_status := StatusUp\<rparr>
           in case previous of
                StatusDown \<Rightarrow> (s', Some KindRecovered)
              | StatusWarning \<Rightarrow> (s', Some KindWarningCleared)
              | _ \<Rightarrow> (s', None))
      | _ \<Rightarrow> (s, None)))"

interpretation outage: alarm entity_apply "\<lambda>s. es_status s = StatusDown" "\<lambda>k. k = KindDown" "\<lambda>k. k = KindRecovered"
  by unfold_locales
    (auto simp: entity_apply_def enter_def Let_def split: prod.splits status.splits if_splits)

lemma apply_status:
  "es_status (fst (entity_apply s (new, now))) =
     (if new = StatusDown \<or> new = StatusWarning \<or> new = StatusUp then new else es_status s)"
  by (auto simp: entity_apply_def enter_def Let_def split: status.splits)

lemma apply_frame:
  "es_suspected_since (fst (entity_apply s e)) = es_suspected_since s"
  "es_stale (fst (entity_apply s e)) = es_stale s"
  "es_last_verdict (fst (entity_apply s e)) = es_last_verdict s"
  "es_history (fst (entity_apply s e)) = es_history s"
  "es_inconclusive_attempts (fst (entity_apply s e)) = es_inconclusive_attempts s"
  by (auto simp: entity_apply_def enter_def Let_def split: prod.splits status.splits)

lemma apply_alert:
  "snd (entity_apply s (new, now)) =
     (if new = StatusDown then (if es_status s = StatusDown then None else Some KindDown)
      else if new = StatusWarning then
        (if es_status s = StatusWarning then None
         else if es_status s = StatusDown then Some KindRecovered else Some KindWarning)
      else if new = StatusUp then
        (if es_status s = StatusDown then Some KindRecovered
         else if es_status s = StatusWarning then Some KindWarningCleared else None)
      else None)"
  by (auto simp: entity_apply_def Let_def split: status.splits)

text \<open>An alert is sent exactly when the decided status changes, apart from the first healthy
  verdict, which is not news.\<close>

lemma apply_alert_iff_change:
  "snd (entity_apply s (new, now)) \<noteq> None \<longleftrightarrow>
   es_status (fst (entity_apply s (new, now))) \<noteq> es_status s \<and>
   \<not> (new = StatusUp \<and> es_status s \<noteq> StatusDown \<and> es_status s \<noteq> StatusWarning)"
  by (simp add: apply_alert apply_status)

lemma apply_since:
  "es_since (fst (entity_apply s (new, now))) =
     (if es_status (fst (entity_apply s (new, now))) = es_status s then es_since s else now)"
  by (auto simp: entity_apply_def enter_def Let_def split: status.splits)

section \<open>The bounded history of inconclusive attempts\<close>

definition push_attempt :: "entity_state \<Rightarrow> attempt \<Rightarrow> entity_state" where
  "push_attempt s a =
     (let h = es_history s @ [a] in
      s\<lparr>es_history := (if length h > max_inconclusive_history
          then drop (length h - max_inconclusive_history) h else h)\<rparr>)"

interpretation attempts: bounded_log push_attempt es_history max_inconclusive_history
  by unfold_locales (auto simp: push_attempt_def Let_def last_n_def)

section \<open>Deciding\<close>

definition recovery_confirmed :: "check \<Rightarrow> verdict \<Rightarrow> bool" where
  "recovery_confirmed chk v \<longleftrightarrow> int (v_ind_up v) \<ge> q_agree (c_quorum chk)"

definition asks_about_failure :: "check \<Rightarrow> options \<Rightarrow> entity_state \<Rightarrow> result \<Rightarrow> bool" where
  "asks_about_failure chk opts0 st r =
     (let single = evaluate chk [r] opts0 in
      (r_status r = StatusDown \<and> \<not> actionable single) \<or>
      (r_status r = StatusWarning \<and> v_status single \<noteq> StatusWarning \<and> es_status st \<noteq> StatusWarning))"

definition asks_about_recovery :: "check \<Rightarrow> entity_state \<Rightarrow> result \<Rightarrow> bool" where
  "asks_about_recovery chk st r \<longleftrightarrow>
     r_status r = StatusUp \<and> (es_status st = StatusDown \<or> es_status st = StatusWarning) \<and>
     q_agree (c_quorum chk) > 1"

definition evidence :: "check \<Rightarrow> options \<Rightarrow> entity_state \<Rightarrow> result \<Rightarrow> result list \<Rightarrow> result list" where
  "evidence chk opts0 st r answers =
     (if asks_about_failure chk opts0 st r \<or> asks_about_recovery chk st r then r # answers else [r])"

definition hold_warning :: "entity_state \<Rightarrow> result \<Rightarrow> verdict \<Rightarrow> verdict" where
  "hold_warning st r v =
     (if es_status st = StatusWarning \<and> r_status r = StatusWarning \<and> v_status v = StatusUp
      then v\<lparr>v_status := StatusWarning, v_reason := r_prober r @ '' still reports the decided warning''\<rparr>
      else v)"

definition hold_outage :: "check \<Rightarrow> entity_state \<Rightarrow> verdict \<Rightarrow> verdict" where
  "hold_outage chk st v =
     (if (es_status st = StatusDown \<or> es_status st = StatusWarning) \<and> v_status v = StatusUp \<and>
         \<not> recovery_confirmed chk v
      then v\<lparr>v_status := StatusUnknown,
             v_reason := ''recovery unconfirmed: '' @ itoa (v_up v + v_warning v) @ '' of '' @
               itoa (v_counted v) @ '' reported up, quorum needs '' @ itoa_int (q_agree (c_quorum chk)) @
               (if c_proxy_profile chk \<noteq> []
                then ''; '' @ itoa (v_ind_up v) @ '' independent up votes'' else [])\<rparr>
      else v)"

definition judge :: "check \<Rightarrow> options \<Rightarrow> options \<Rightarrow> entity_state \<Rightarrow> result \<Rightarrow> result list \<Rightarrow> verdict" where
  "judge chk opts0 opts st r answers =
     hold_outage chk st (hold_warning st r (evaluate chk (evidence chk opts0 st r answers) opts))"

text \<open>The bookkeeping of suspicion: \<open>took\<close> is the time of the fan-out, if there was one.\<close>

definition note_suspicion :: "time \<Rightarrow> duration option \<Rightarrow> verdict \<Rightarrow> entity_state \<Rightarrow> entity_state" where
  "note_suspicion attempt_at took v st =
     (let st = (if is_zero (es_suspected_since st) then st\<lparr>es_suspected_since := attempt_at\<rparr> else st);
          st = st\<lparr>es_last_attempt := attempt_at\<rparr>;
          st = (case took of None \<Rightarrow> st | Some d \<Rightarrow> st\<lparr>es_last_corroboration := d\<rparr>)
      in if v_status v = StatusUnknown then
           push_attempt (st\<lparr>es_inconclusive_attempts := es_inconclusive_attempts st + 1,
                            es_last_inconclusive := v_reason v\<rparr>)
             \<lparr>a_at = attempt_at, a_duration_ms = quot (es_last_corroboration st) millisecond,
              a_reason = v_reason v, a_counted = v_counted v, a_down = v_down v, a_up = v_up v\<rparr>
         else st)"

definition suspicion :: "time \<Rightarrow> duration option \<Rightarrow> result \<Rightarrow> verdict \<Rightarrow> entity_state \<Rightarrow> entity_state" where
  "suspicion attempt_at took r v st =
     (if r_status r = StatusDown then note_suspicion attempt_at took v st
      else if v_status v = StatusUp \<or> v_status v = StatusWarning then clear_suspicion st
      else st)"

record decision =
  d_state :: entity_state
  d_verdict :: verdict
  d_alert :: "alert_kind option"
  d_suspected_at :: time
  d_fanned_out :: bool

definition decide ::
  "check \<Rightarrow> options \<Rightarrow> options \<Rightarrow> time \<Rightarrow> time \<Rightarrow> duration \<Rightarrow> result list \<Rightarrow> entity_state \<Rightarrow> result \<Rightarrow> decision" where
  "decide chk opts0 opts at now took answers st r =
     (let failure = asks_about_failure chk opts0 st r;
          v = judge chk opts0 opts st r answers;
          st1 = st\<lparr>es_last_verdict := now, es_stale := False\<rparr>;
          st2 = suspicion at (if failure then Some took else None) r v st1;
          (st3, alert) = entity_apply st2 (v_status v, now)
      in \<lparr>d_state = st3, d_verdict = v, d_alert = alert,
          d_suspected_at = es_suspected_since st2, d_fanned_out = failure\<rparr>)"

section \<open>Facts about decisions\<close>

lemma suspicion_status [simp]: "es_status (suspicion at took r v st) = es_status st"
  by (auto simp: suspicion_def note_suspicion_def clear_suspicion_def push_attempt_def Let_def
      split: option.splits)

lemma decide_verdict: "d_verdict (decide chk opts0 opts at now took answers st r) = judge chk opts0 opts st r answers"
  by (simp add: decide_def Let_def split: prod.splits)

lemma decide_apply:
  "\<exists>st2. es_status st2 = es_status st \<and>
     entity_apply st2 (v_status (judge chk opts0 opts st r answers), now) =
       (d_state (decide chk opts0 opts at now took answers st r), d_alert (decide chk opts0 opts at now took answers st r))"
proof -
  define st2 where "st2 = suspicion at (if asks_about_failure chk opts0 st r then Some took else None) r
        (judge chk opts0 opts st r answers) (st\<lparr>es_last_verdict := now, es_stale := False\<rparr>)"
  have "es_status st2 = es_status st" by (simp add: st2_def)
  moreover have "entity_apply st2 (v_status (judge chk opts0 opts st r answers), now) =
      (d_state (decide chk opts0 opts at now took answers st r), d_alert (decide chk opts0 opts at now took answers st r))"
    unfolding decide_def Let_def st2_def [symmetric]
    by (cases "entity_apply st2 (v_status (judge chk opts0 opts st r answers), now)") simp
  ultimately show ?thesis by blast
qed

lemma decide_status:
  "es_status (d_state (decide chk opts0 opts at now took answers st r)) =
     (let s = v_status (judge chk opts0 opts st r answers) in
      if s = StatusDown \<or> s = StatusWarning \<or> s = StatusUp then s else es_status st)"
proof -
  obtain st2 where st2: "es_status st2 = es_status st"
    and step: "entity_apply st2 (v_status (judge chk opts0 opts st r answers), now) =
       (d_state (decide chk opts0 opts at now took answers st r), d_alert (decide chk opts0 opts at now took answers st r))"
    using decide_apply by blast
  show ?thesis
    using apply_status [of st2 "v_status (judge chk opts0 opts st r answers)" now]
    unfolding step fst_conv st2 Let_def .
qed

lemma decide_alert:
  "d_alert (decide chk opts0 opts at now took answers st r) =
     snd (entity_apply st (v_status (judge chk opts0 opts st r answers), now))"
proof -
  obtain st2 where st2: "es_status st2 = es_status st"
    and step: "entity_apply st2 (v_status (judge chk opts0 opts st r answers), now) =
       (d_state (decide chk opts0 opts at now took answers st r), d_alert (decide chk opts0 opts at now took answers st r))"
    using decide_apply by blast
  show ?thesis
    using apply_alert [of st2 "v_status (judge chk opts0 opts st r answers)" now]
    unfolding step snd_conv st2 apply_alert .
qed

lemma judge_counts:
  "v_ind_up (judge chk opts0 opts st r answers) = v_ind_up (evaluate chk (evidence chk opts0 st r answers) opts)"
  by (simp add: judge_def hold_outage_def hold_warning_def)

lemma judge_down:
  "v_status (judge chk opts0 opts st r answers) = StatusDown \<longleftrightarrow>
   v_status (evaluate chk (evidence chk opts0 st r answers) opts) = StatusDown"
  by (simp add: judge_def hold_outage_def hold_warning_def)

lemma judge_up:
  "v_status (judge chk opts0 opts st r answers) = StatusUp \<Longrightarrow>
   es_status st = StatusDown \<or> es_status st = StatusWarning \<Longrightarrow>
   q_agree (c_quorum chk) \<le> int (v_ind_up (judge chk opts0 opts st r answers))"
  by (auto simp: judge_def hold_outage_def hold_warning_def recovery_confirmed_def split: if_splits)

lemma evaluate_warning_answered:
  assumes "v_status (evaluate chk rs opts) = StatusWarning"
  shows "q_agree (c_quorum chk) \<le> int (v_ind_up (evaluate chk rs opts))"
proof -
  let ?vs = "voters chk opts rs" and ?d = "q_distinct (c_quorum chk)"
  have "q_agree (c_quorum chk) \<le> int (independent_count (with_status StatusWarning ?vs) ?d)"
    using assms by (auto simp: evaluate_status_voters split: if_splits)
  moreover have "independent_count (with_status StatusWarning ?vs) ?d \<le>
      independent_count (with_status StatusUp ?vs @ with_status StatusWarning ?vs) ?d"
    by (rule independent_count_mono) auto
  ultimately show ?thesis
    by (simp add: evaluate_voters conclude_counts)
qed

text \<open>Whatever ends an outage was confirmed by enough independent probers that got an answer.\<close>

lemma recovery_needs_quorum:
  assumes "es_status st = StatusDown"
    and "es_status (d_state (decide chk opts0 opts at now took answers st r)) \<noteq> StatusDown"
  shows "q_agree (c_quorum chk) \<le> int (v_ind_up (judge chk opts0 opts st r answers))"
proof -
  have "v_status (judge chk opts0 opts st r answers) = StatusUp \<or>
      v_status (judge chk opts0 opts st r answers) = StatusWarning"
    using assms by (auto simp: decide_status Let_def split: if_splits)
  then show ?thesis
  proof
    assume "v_status (judge chk opts0 opts st r answers) = StatusUp"
    then show ?thesis using assms(1) by (intro judge_up) auto
  next
    assume "v_status (judge chk opts0 opts st r answers) = StatusWarning"
    then have "v_status (evaluate chk (evidence chk opts0 st r answers) opts) = StatusWarning"
      using assms(1) by (auto simp: judge_def hold_outage_def hold_warning_def split: if_splits)
    from evaluate_warning_answered [OF this] show ?thesis by (simp add: judge_counts)
  qed
qed

lemma decide_history_bound:
  assumes "length (es_history st) \<le> max_inconclusive_history"
  shows "length (es_history (d_state (decide chk opts0 opts at now took answers st r))) \<le> max_inconclusive_history"
proof -
  have noted: "length (es_history (note_suspicion at tk v s)) \<le> max_inconclusive_history"
    if "length (es_history s) \<le> max_inconclusive_history" for at tk v s
    using that by (auto simp: note_suspicion_def Let_def split: option.splits intro!: attempts.push_bound)
  have "length (es_history (suspicion at tk r v (st\<lparr>es_last_verdict := now, es_stale := False\<rparr>)))
      \<le> max_inconclusive_history" for tk v
    using noted assms by (auto simp: suspicion_def clear_suspicion_def)
  moreover have "d_state (decide chk opts0 opts at now took answers st r) =
      fst (entity_apply (suspicion at (if asks_about_failure chk opts0 st r then Some took else None) r
        (judge chk opts0 opts st r answers) (st\<lparr>es_last_verdict := now, es_stale := False\<rparr>))
        (v_status (judge chk opts0 opts st r answers), now))"
    by (simp only: decide_def Let_def decision.simps prod.case_eq_if)
  ultimately show ?thesis by (simp only: apply_frame(4))
qed

text \<open>The recorded suspicion: set by the first failed result, kept while failures go on.\<close>

lemma decide_suspected:
  "d_suspected_at (decide chk opts0 opts at now took answers st r) =
     (if r_status r = StatusDown
      then (if is_zero (es_suspected_since st) then at else es_suspected_since st)
      else if v_status (judge chk opts0 opts st r answers) = StatusUp \<or>
              v_status (judge chk opts0 opts st r answers) = StatusWarning then zero_time
      else es_suspected_since st)"
proof -
  have "d_suspected_at (decide chk opts0 opts at now took answers st r) =
      es_suspected_since (suspicion at (if asks_about_failure chk opts0 st r then Some took else None) r
        (judge chk opts0 opts st r answers) (st\<lparr>es_last_verdict := now, es_stale := False\<rparr>))"
    by (simp only: decide_def Let_def decision.simps prod.case_eq_if)
  then show ?thesis
    by (auto simp: suspicion_def note_suspicion_def clear_suspicion_def push_attempt_def Let_def
        split: option.splits)
qed

section \<open>One alert per outage\<close>

text \<open>The decisions taken on one check, as a machine: what was known when the result was looked at
  and when the evidence was evaluated, the two clock readings, the time of the fan-out, the answers
  and the result.\<close>

type_synonym decision_event = "options \<times> options \<times> time \<times> time \<times> duration \<times> result list \<times> result"

definition decide_step :: "check \<Rightarrow> entity_state \<Rightarrow> decision_event \<Rightarrow> entity_state \<times> alert_kind option" where
  "decide_step chk st e =
     (case e of (opts0, opts, at, now, took, answers, r) \<Rightarrow>
        let d = decide chk opts0 opts at now took answers st r in (d_state d, d_alert d))"

lemma decide_step_apply:
  assumes "decide_step chk st e = (st', out)"
  obtains st2 new now where "es_status st2 = es_status st" "entity_apply st2 (new, now) = (st', out)"
proof -
  obtain opts0 opts at now took answers r where e: "e = (opts0, opts, at, now, took, answers, r)"
    by (metis surj_pair)
  with assms have "d_state (decide chk opts0 opts at now took answers st r) = st'"
    "d_alert (decide chk opts0 opts at now took answers st r) = out"
    by (simp_all add: decide_step_def Let_def)
  with decide_apply [of st chk opts0 opts r answers now at took] that show ?thesis by auto
qed

interpretation decisions: alarm "decide_step chk" "\<lambda>s. es_status s = StatusDown"
    "\<lambda>k. k = KindDown" "\<lambda>k. k = KindRecovered" for chk
proof
  fix s e s' a
  assume "decide_step chk s e = (s', Some a)" and a: "a = KindDown"
  then obtain st2 new now where "es_status st2 = es_status s" "entity_apply st2 (new, now) = (s', Some a)"
    by (elim decide_step_apply)
  with outage.open_edge a show "es_status s \<noteq> StatusDown \<and> es_status s' = StatusDown" by metis
next
  fix s e s' a
  assume "decide_step chk s e = (s', Some a)" and a: "a = KindRecovered"
  then obtain st2 new now where "es_status st2 = es_status s" "entity_apply st2 (new, now) = (s', Some a)"
    by (elim decide_step_apply)
  with outage.close_edge a show "es_status s = StatusDown \<and> es_status s' \<noteq> StatusDown" by metis
next
  fix s e s' out
  assume "decide_step chk s e = (s', out)"
    and d: "(es_status s' = StatusDown) \<noteq> (es_status s = StatusDown)"
  then obtain st2 new now where st2: "es_status st2 = es_status s" and "entity_apply st2 (new, now) = (s', out)"
    by (elim decide_step_apply)
  from outage.level [OF this(2)] d st2 show "\<exists>x. out = Some x \<and> (x = KindDown \<or> x = KindRecovered)" by simp
qed

end
