(* ===== verification/Fleet.thy ===== *)
theory Fleet
  imports Interfaces Independent
begin

text \<open>
  The coordinator's view of the fleet: registered probers (\<open>Peer\<close>), which of them may run a
  check, the route each is registered for, the steady-state assignment by rendezvous hashing
  (\<open>assign.go\<close>) and the choice of corroborators (\<open>coordinator.go\<close>).
\<close>

record peer =
  p_name :: string
  p_url :: string
  p_provider :: string
  p_proxy_profiles :: "(string \<times> string) list"
  p_public_key :: bytes

text \<open>A missing key of a Go map reads as the empty string.\<close>

definition profile_exit :: "peer \<Rightarrow> string \<Rightarrow> string" where
  "profile_exit p profile = (case map_of (p_proxy_profiles p) profile of None \<Rightarrow> [] | Some e \<Rightarrow> e)"

definition peer_by_name :: "peer list \<Rightarrow> string \<Rightarrow> peer option" where
  "peer_by_name peers n = find (\<lambda>p. p_name p = n) peers"

section \<open>Eligibility and routes\<close>

datatype fleet_error = UnregisteredEligible string | NoProxyProfile string | InsufficientRoutes

fun lookup_peers :: "peer list \<Rightarrow> string list \<Rightarrow> fleet_error + peer list" where
  "lookup_peers peers [] = Inr []"
| "lookup_peers peers (n # ns) =
     (case peer_by_name peers n of
        None \<Rightarrow> Inl (UnregisteredEligible n)
      | Some p \<Rightarrow> (case lookup_peers peers ns of Inl e \<Rightarrow> Inl e | Inr ps \<Rightarrow> Inr (p # ps)))"

fun with_profile :: "check \<Rightarrow> peer list \<Rightarrow> fleet_error + peer list" where
  "with_profile chk [] = Inr []"
| "with_profile chk (p # ps) =
     (if c_proxy_profile chk \<noteq> [] \<and> profile_exit p (c_proxy_profile chk) = [] then
        (if length (c_probers chk) > 0 \<or> c_prober chk = p_name p then Inl (NoProxyProfile (p_name p))
         else with_profile chk ps)
      else (case with_profile chk ps of Inl e \<Rightarrow> Inl e | Inr qs \<Rightarrow> Inr (p # qs)))"

definition validate_eligible_probers :: "check \<Rightarrow> peer list \<Rightarrow> fleet_error + peer list" where
  "validate_eligible_probers chk peers =
     (if length (c_probers chk) > 0
      then (case lookup_peers peers (c_probers chk) of
              Inl e \<Rightarrow> Inl e | Inr candidates \<Rightarrow> with_profile chk candidates)
      else with_profile chk peers)"

definition empty_result :: result where
  "empty_result = \<lparr>r_check = [], r_prober = [], r_vantage = VantageOther [], r_status = StatusOther [],
     r_at = zero_time, r_latency = 0, r_detail = [], r_provider = [], r_proxy_profile = [], r_egress = []\<rparr>"

definition route_result :: "check \<Rightarrow> peer \<Rightarrow> result" where
  "route_result chk p = empty_result\<lparr>r_prober := p_name p, r_provider := p_provider p,
     r_proxy_profile := c_proxy_profile chk, r_egress := profile_exit p (c_proxy_profile chk)\<rparr>"

definition validate_route_quorum :: "check \<Rightarrow> peer list \<Rightarrow> fleet_error option" where
  "validate_route_quorum chk peers =
     (if c_proxy_profile chk = [] then None
      else if int (independent_count (map (route_result chk) peers) (q_distinct (c_quorum chk)))
              < q_agree (c_quorum chk)
      then Some InsufficientRoutes else None)"

definition route_mismatch :: string where
  "route_mismatch = ''result route does not match the registered proxy profile/exit''"

definition normalize_route :: "check \<Rightarrow> peer \<Rightarrow> result \<Rightarrow> result" where
  "normalize_route chk p r =
     (let expected = route_result chk p;
          r = (if r_proxy_profile r \<noteq> r_proxy_profile expected \<or> r_egress r \<noteq> r_egress expected \<or>
                  (c_proxy_profile chk \<noteq> [] \<and> r_egress expected = [])
               then r\<lparr>r_status := StatusUnknown, r_detail := route_mismatch\<rparr> else r)
      in r\<lparr>r_provider := p_provider p, r_proxy_profile := r_proxy_profile expected,
           r_egress := r_egress expected\<rparr>)"

definition eligible_peers :: "peer list \<Rightarrow> check \<Rightarrow> peer list" where
  "eligible_peers peers chk =
     (if length (c_probers chk) = 0 \<and> c_proxy_profile chk = [] then peers
      else filter (\<lambda>p. (length (c_probers chk) = 0 \<or> List.member (c_probers chk) (p_name p)) \<and>
              (c_proxy_profile chk = [] \<or> profile_exit p (c_proxy_profile chk) \<noteq> [])) peers)"

lemma route_result_simps [simp]:
  "r_prober (route_result chk p) = p_name p" "r_provider (route_result chk p) = p_provider p"
  "r_proxy_profile (route_result chk p) = c_proxy_profile chk"
  "r_egress (route_result chk p) = profile_exit p (c_proxy_profile chk)"
  by (simp_all add: route_result_def)

lemma normalize_fields:
  "r_prober (normalize_route chk p r) = r_prober r"
  "r_check (normalize_route chk p r) = r_check r"
  "r_vantage (normalize_route chk p r) = r_vantage r"
  "r_at (normalize_route chk p r) = r_at r"
  "r_provider (normalize_route chk p r) = p_provider p"
  "r_proxy_profile (normalize_route chk p r) = c_proxy_profile chk"
  "r_egress (normalize_route chk p r) = profile_exit p (c_proxy_profile chk)"
  by (simp_all add: normalize_route_def Let_def)

lemma normalize_status:
  "r_status (normalize_route chk p r) =
     (if r_proxy_profile r = c_proxy_profile chk \<and>
         r_egress r = profile_exit p (c_proxy_profile chk) \<and>
         (c_proxy_profile chk = [] \<or> profile_exit p (c_proxy_profile chk) \<noteq> [])
      then r_status r else StatusUnknown)"
  by (auto simp: normalize_route_def Let_def)

lemma normalize_idem:
  "normalize_route chk p (normalize_route chk p r) = normalize_route chk p r"
  by (simp add: normalize_route_def Let_def)

lemma eligible_sub: "set (eligible_peers peers chk) \<subseteq> set peers"
  by (auto simp: eligible_peers_def)

lemma eligible_distinct:
  "distinct (map p_name peers) \<Longrightarrow> distinct (map p_name (eligible_peers peers chk))"
  by (simp add: eligible_peers_def distinct_map_filter)

lemma eligible_exit:
  "p \<in> set (eligible_peers peers chk) \<Longrightarrow> c_proxy_profile chk \<noteq> [] \<Longrightarrow>
   profile_exit p (c_proxy_profile chk) \<noteq> []"
  by (auto simp: eligible_peers_def split: if_splits)

lemma peer_by_name_some: "peer_by_name peers n = Some p \<Longrightarrow> p \<in> set peers \<and> p_name p = n"
  by (auto simp: peer_by_name_def find_Some_iff)

lemma peer_by_name_distinct:
  "distinct (map p_name peers) \<Longrightarrow> p \<in> set peers \<Longrightarrow> peer_by_name peers (p_name p) = Some p"
  by (induction peers) (auto simp: peer_by_name_def)

section \<open>Rendezvous hashing\<close>

text \<open>FNV-1a, 64 bits: \<open>hash/fnv.New64a\<close>.\<close>

definition fnv_offset :: "64 word" where "fnv_offset = 14695981039346656037"
definition fnv_prime :: "64 word" where "fnv_prime = 1099511628211"

definition fnv_byte :: "64 word \<Rightarrow> char \<Rightarrow> 64 word" where
  "fnv_byte h ch = xor h (of_nat (of_char ch)) * fnv_prime"

definition weight :: "string \<Rightarrow> string \<Rightarrow> 64 word" where
  "weight check_name peer_name = foldl fnv_byte fnv_offset (check_name @ [byte 0] @ peer_name)"

definition assign_step :: "string \<Rightarrow> (peer \<times> 64 word) option \<Rightarrow> peer \<Rightarrow> (peer \<times> 64 word) option" where
  "assign_step check_name best p =
     (let s = weight check_name (p_name p) in
      case best of
        None \<Rightarrow> Some (p, s)
      | Some (b, score) \<Rightarrow>
          if s > score \<or> (s = score \<and> p_name p < p_name b) then Some (p, s) else Some (b, score))"

definition assign :: "string \<Rightarrow> peer list \<Rightarrow> peer option" where
  "assign check_name peers = map_option fst (foldl (assign_step check_name) None peers)"

text \<open>The order in which candidates beat each other depends on their names only.\<close>

definition beats :: "string \<Rightarrow> string \<Rightarrow> string \<Rightarrow> bool" where
  "beats check_name m n \<longleftrightarrow> weight check_name m > weight check_name n \<or>
     (weight check_name m = weight check_name n \<and> m < n)"

lemma beats_total: "beats k m n \<or> m = n \<or> beats k n m"
  by (auto simp: beats_def)

lemma beats_trans: "beats k l m \<Longrightarrow> beats k m n \<Longrightarrow> beats k l n"
  by (auto simp: beats_def)

lemma beats_irrefl [simp]: "\<not> beats k n n"
  by (simp add: beats_def)

definition is_best :: "string \<Rightarrow> peer list \<Rightarrow> peer \<Rightarrow> bool" where
  "is_best k xs b \<longleftrightarrow> b \<in> set xs \<and> (\<forall>x \<in> set xs. \<not> beats k (p_name x) (p_name b))"

lemma assign_step_None [simp]: "assign_step k None p = Some (p, weight k (p_name p))"
  by (simp add: assign_step_def)

lemma assign_step_Some: "assign_step k (Some (b, weight k (p_name b))) p =
    Some (if beats k (p_name p) (p_name b) then (p, weight k (p_name p)) else (b, weight k (p_name b)))"
  by (simp add: assign_step_def Let_def beats_def)

lemma assign_fold:
  "(case foldl (assign_step k) None xs of
      None \<Rightarrow> xs = []
    | Some (b, s) \<Rightarrow> s = weight k (p_name b) \<and> is_best k xs b)"
proof (induction xs rule: rev_induct)
  case Nil
  then show ?case by simp
next
  case (snoc x xs)
  show ?case
  proof (cases "foldl (assign_step k) None xs")
    case None
    with snoc show ?thesis by (simp add: is_best_def)
  next
    case (Some bs)
    obtain b s where bs: "bs = (b, s)" by (cases bs)
    with Some snoc have b: "s = weight k (p_name b)" "is_best k xs b" by auto
    show ?thesis
    proof (cases "beats k (p_name x) (p_name b)")
      case True
      then have "\<not> beats k (p_name y) (p_name x)" if "y \<in> set xs" for y
        using b(2) that beats_trans by (auto simp: is_best_def)
      with True Some bs b show ?thesis by (auto simp: assign_step_Some is_best_def)
    next
      case False
      with Some bs b show ?thesis by (auto simp: assign_step_Some is_best_def)
    qed
  qed
qed

lemma assign_best: "assign k xs = Some b \<Longrightarrow> is_best k xs b"
  using assign_fold [of xs k] by (auto simp: assign_def split: option.splits)

lemma assign_None: "assign k xs = None \<longleftrightarrow> xs = []"
  using assign_fold [of xs k] by (auto simp: assign_def is_best_def split: option.splits)

interpretation rendezvous: stable_choice "assign k" p_name for k
proof
  fix xs :: "peer list" and x assume "assign k xs = Some x"
  then show "x \<in> set xs" using assign_best by (auto simp: is_best_def)
next
  fix xs :: "peer list" show "assign k xs = None \<longleftrightarrow> xs = []" by (rule assign_None)
next
  fix xs ys :: "peer list" and x
  assume x: "assign k xs = Some x" and mem: "p_name x \<in> p_name ` set ys"
    and sub: "p_name ` set ys \<subseteq> p_name ` set xs"
  from mem have "ys \<noteq> []" by auto
  then obtain z where z: "assign k ys = Some z" using assign_None by (cases "assign k ys") auto
  have "\<not> beats k (p_name x) (p_name z)"
    using assign_best [OF z] mem by (auto simp: is_best_def)
  moreover have "p_name z \<in> p_name ` set xs"
    using assign_best [OF z] sub by (auto simp: is_best_def)
  then have "\<not> beats k (p_name z) (p_name x)"
    using assign_best [OF x] by (auto simp: is_best_def)
  ultimately have "p_name z = p_name x" using beats_total by blast
  with z show "map_option p_name (assign k ys) = Some (p_name x)" by simp
qed

section \<open>Who runs a check\<close>

definition base_assigned_to :: "peer list \<Rightarrow> check \<Rightarrow> string option" where
  "base_assigned_to peers chk =
     (if c_prober chk \<noteq> [] then Some (c_prober chk)
      else map_option p_name (assign (c_name chk) (eligible_peers peers chk)))"

text \<open>\<open>unavailable\<close> is \<open>unavailableProbers\<close>, \<open>recovering\<close> is \<open>meshRecoveryActive\<close> for this check.\<close>

definition assigned_to :: "peer list \<Rightarrow> (string \<Rightarrow> bool) \<Rightarrow> (string \<Rightarrow> bool) \<Rightarrow> check \<Rightarrow> string option" where
  "assigned_to peers unavailable recovering chk =
     (case base_assigned_to peers chk of
        None \<Rightarrow> None
      | Some preferred \<Rightarrow>
          let unavailable = (if unavailable preferred \<and> recovering preferred
                             then unavailable(preferred := False) else unavailable) in
          if \<not> unavailable preferred then Some preferred
          else map_option p_name (assign (c_name chk)
                 (filter (\<lambda>p. \<not> unavailable (p_name p)) (eligible_peers peers chk))))"

definition checks_for :: "peer list \<Rightarrow> (string \<Rightarrow> bool) \<Rightarrow> (check \<Rightarrow> string \<Rightarrow> bool) \<Rightarrow> check list \<Rightarrow>
    string \<Rightarrow> check list" where
  "checks_for peers unavailable recovering checks prober =
     sort_key c_name (filter (\<lambda>chk. assigned_to peers unavailable (recovering chk) chk = Some prober) checks)"

definition assignments :: "peer list \<Rightarrow> (string \<Rightarrow> bool) \<Rightarrow> (check \<Rightarrow> string \<Rightarrow> bool) \<Rightarrow> check list \<Rightarrow>
    (string \<times> string list) list" where
  "assignments peers unavailable recovering checks =
     map (\<lambda>(n, cs). (n, sort cs))
       (foldl (\<lambda>out chk.
          case assigned_to peers unavailable (recovering chk) chk of
            None \<Rightarrow> out
          | Some name \<Rightarrow> AList.update name
              ((case map_of out name of None \<Rightarrow> [] | Some cs \<Rightarrow> cs) @ [c_name chk]) out)
        (foldl (\<lambda>out p. AList.update (p_name p) [] out) [] peers) checks)"

lemma assigned_available:
  assumes "assigned_to peers unav rec chk = Some n"
  shows "\<not> unav n \<or> (base_assigned_to peers chk = Some n \<and> rec n)"
proof -
  obtain preferred where b: "base_assigned_to peers chk = Some preferred"
    using assms by (auto simp: assigned_to_def split: option.splits)
  show ?thesis
  proof (cases "unav preferred \<and> \<not> rec preferred")
    case True
    with assms b obtain p where
      p: "assign (c_name chk) (filter (\<lambda>p. \<not> unav (p_name p)) (eligible_peers peers chk)) = Some p"
      "n = p_name p"
      by (auto simp: assigned_to_def Let_def)
    with rendezvous.pick_in [OF p(1)] show ?thesis by simp
  next
    case False
    with assms b show ?thesis by (auto simp: assigned_to_def Let_def split: if_splits)
  qed
qed

lemma assigned_preferred:
  "base_assigned_to peers chk = Some n \<Longrightarrow> \<not> unav n \<or> rec n \<Longrightarrow> assigned_to peers unav rec chk = Some n"
  by (simp add: assigned_to_def Let_def)

section \<open>Choice of corroborators\<close>

definition fresh_split :: "string \<Rightarrow> peer list \<Rightarrow> string list \<times> peer list \<times> peer list" where
  "fresh_split provider ps =
     foldl (\<lambda>(seen, fresh, rest) p.
         if List.member seen (p_provider p) then (seen, fresh, rest @ [p])
         else (p_provider p # seen, fresh @ [p], rest)) ([provider], [], []) ps"

definition zero_peer :: peer where
  "zero_peer = \<lparr>p_name = [], p_url = [], p_provider = [], p_proxy_profiles = [], p_public_key = []\<rparr>"

definition peer_or_zero :: "peer list \<Rightarrow> string \<Rightarrow> peer" where
  "peer_or_zero peers n = (case peer_by_name peers n of None \<Rightarrow> zero_peer | Some p \<Rightarrow> p)"

definition route_order :: "peer list \<Rightarrow> check \<Rightarrow> result \<Rightarrow> peer list \<Rightarrow> peer list" where
  "route_order peers chk reported candidates =
     (let d = q_distinct (c_quorum chk);
          seed = route_result chk (peer_or_zero peers (r_prober reported));
          routes = filter (\<lambda>r. \<not> (r_egress r = r_egress seed \<or> (d \<and> r_provider r = r_provider seed)))
                     (map (route_result chk) candidates);
          first = independent_results routes d;
          chosen = map r_prober first
      in map (\<lambda>r. peer_or_zero peers (r_prober r)) first @
         filter (\<lambda>p. \<not> List.member chosen (p_name p)) candidates)"

definition corroborators :: "peer list \<Rightarrow> check \<Rightarrow> result \<Rightarrow> peer list" where
  "corroborators peers chk reported =
     (let candidates = filter (\<lambda>p. p_name p \<noteq> r_prober reported) (eligible_peers peers chk);
          want = q_of (c_quorum chk) - 1 in
      if want < 1 then []
      else let want = (if want > int (length candidates) then length candidates else nat want) in
      if c_proxy_profile chk \<noteq> [] then take want (route_order peers chk reported candidates)
      else if \<not> q_distinct (c_quorum chk) then take want candidates
      else case fresh_split (r_provider reported) candidates of
        (_, fresh, rest) \<Rightarrow> take want (fresh @ rest))"

lemma fresh_split_inv:
  "foldl (\<lambda>(seen, fresh, rest) p.
       if List.member seen (p_provider p) then (seen, fresh, rest @ [p])
       else (p_provider p # seen, fresh @ [p], rest)) (seen0, fresh0, rest0) ps = (seen, fresh, rest) \<Longrightarrow>
   distinct (map p_provider fresh0) \<Longrightarrow> p_provider ` set fresh0 \<subseteq> set seen0 \<Longrightarrow>
   mset fresh + mset rest = mset fresh0 + mset rest0 + mset ps \<and>
   distinct (map p_provider fresh) \<and>
   set seen = set seen0 \<union> p_provider ` set ps \<and>
   p_provider ` set fresh = p_provider ` set fresh0 \<union> (p_provider ` set ps - set seen0)"
proof (induction ps arbitrary: seen0 fresh0 rest0)
  case Nil
  then show ?case by auto
next
  case (Cons p ps)
  show ?case
  proof (cases "List.member seen0 (p_provider p)")
    case True
    with Cons.prems Cons.IH [of seen0 fresh0 "rest0 @ [p]"] show ?thesis by auto
  next
    case False
    then have new: "p_provider p \<notin> p_provider ` set fresh0" using Cons.prems(3) by auto
    have "mset fresh + mset rest = mset (fresh0 @ [p]) + mset rest0 + mset ps \<and>
        distinct (map p_provider fresh) \<and>
        set seen = set (p_provider p # seen0) \<union> p_provider ` set ps \<and>
        p_provider ` set fresh = p_provider ` set (fresh0 @ [p]) \<union>
          (p_provider ` set ps - set (p_provider p # seen0))"
      by (rule Cons.IH) (use False Cons.prems new in auto)
    with False show ?thesis by auto
  qed
qed

lemma fresh_split_spec:
  assumes "fresh_split provider ps = (seen, fresh, rest)"
  shows "mset (fresh @ rest) = mset ps" "distinct (map p_provider fresh)"
    "p_provider ` set fresh = p_provider ` set ps - {provider}"
  using fresh_split_inv [of "[provider]" "[]" "[]" ps seen fresh rest] assms
  by (auto simp: fresh_split_def)

lemma route_order_perm:
  assumes names: "distinct (map p_name peers)" and cand: "set candidates \<subseteq> set peers"
    and dist: "distinct (map p_name candidates)"
  shows "mset (route_order peers chk reported candidates) = mset candidates"
proof -
  define routes where "routes = filter (\<lambda>r. \<not> (r_egress r = r_egress (route_result chk (peer_or_zero peers (r_prober reported)))
      \<or> (q_distinct (c_quorum chk) \<and> r_provider r = r_provider (route_result chk (peer_or_zero peers (r_prober reported))))))
     (map (route_result chk) candidates)"
  define first where "first = independent_results routes (q_distinct (c_quorum chk))"
  have order: "route_order peers chk reported candidates =
      map (\<lambda>r. peer_or_zero peers (r_prober r)) first @
      filter (\<lambda>p. p_name p \<notin> r_prober ` set first) candidates"
    by (simp add: route_order_def Let_def first_def routes_def)
  have sub: "set first \<subseteq> route_result chk ` set candidates"
    using independent_results_subset [of routes "q_distinct (c_quorum chk)"]
    by (auto simp: first_def routes_def)
  have found: "peer_or_zero peers (r_prober (route_result chk p)) = p" if "p \<in> set candidates" for p
    using peer_by_name_distinct [OF names] cand that by (auto simp: peer_or_zero_def)
  have name_eq: "p = q" if "p \<in> set candidates" "q \<in> set candidates" "p_name p = p_name q" for p q
    using dist that by (metis distinct_map inj_onD)
  have inj: "inj_on (\<lambda>r. peer_or_zero peers (r_prober r)) (set first)"
    using sub found by (intro inj_onI) (metis (no_types, lifting) imageE subsetD)
  have d1: "distinct (map (\<lambda>r. peer_or_zero peers (r_prober r)) first)"
    using inj independent_results_distinct by (simp add: distinct_map first_def)
  have img: "(\<lambda>r. peer_or_zero peers (r_prober r)) ` set first =
      {p \<in> set candidates. p_name p \<in> r_prober ` set first}"
  proof (intro equalityI subsetI)
    fix x assume "x \<in> (\<lambda>r. peer_or_zero peers (r_prober r)) ` set first"
    then obtain r where r: "r \<in> set first" "x = peer_or_zero peers (r_prober r)" by blast
    with sub obtain q where q: "q \<in> set candidates" "r = route_result chk q" by blast
    with r found have "x = q" by simp
    with q r show "x \<in> {p \<in> set candidates. p_name p \<in> r_prober ` set first}"
      by (auto intro!: rev_image_eqI)
  next
    fix x assume x: "x \<in> {p \<in> set candidates. p_name p \<in> r_prober ` set first}"
    then obtain r where r: "r \<in> set first" "p_name x = r_prober r" by blast
    with sub obtain q where q: "q \<in> set candidates" "r = route_result chk q" by blast
    with x r have "x = q" using name_eq by simp
    with q r found show "x \<in> (\<lambda>r. peer_or_zero peers (r_prober r)) ` set first" by force
  qed
  have "distinct (route_order peers chk reported candidates)"
    unfolding order using d1 img dist by (auto simp: distinct_map)
  moreover have "set (route_order peers chk reported candidates) = set candidates"
    unfolding order using img by auto
  moreover have "distinct candidates" using dist by (simp add: distinct_map)
  ultimately show ?thesis using set_eq_iff_mset_eq_distinct by blast
qed

text \<open>The list \<open>corroborators\<close> truncates is a permutation of the candidates in every branch.\<close>

abbreviation other_eligible :: "peer list \<Rightarrow> check \<Rightarrow> result \<Rightarrow> peer list" where
  "other_eligible peers chk reported \<equiv>
     filter (\<lambda>p. p_name p \<noteq> r_prober reported) (eligible_peers peers chk)"

lemma corroborators_take:
  assumes "distinct (map p_name peers)"
  shows "\<exists>order. mset order = mset (other_eligible peers chk reported) \<and>
    corroborators peers chk reported =
      take (min (nat (q_of (c_quorum chk) - 1)) (length (other_eligible peers chk reported))) order"
proof -
  let ?cand = "other_eligible peers chk reported"
  have dist: "distinct (map p_name ?cand)"
    using eligible_distinct [OF assms] by (simp add: distinct_map_filter)
  have sub: "set ?cand \<subseteq> set peers" using eligible_sub by auto
  obtain seen fresh rest where fs: "fresh_split (r_provider reported) ?cand = (seen, fresh, rest)"
    by (cases "fresh_split (r_provider reported) ?cand") auto
  define order where "order = (if c_proxy_profile chk \<noteq> [] then route_order peers chk reported ?cand
      else if \<not> q_distinct (c_quorum chk) then ?cand else fresh @ rest)"
  have perm: "mset order = mset ?cand"
    using route_order_perm [OF assms sub dist] fresh_split_spec(1) [OF fs]
    by (simp add: order_def)
  have want: "(if q_of (c_quorum chk) - 1 > int (length ?cand) then length ?cand
      else nat (q_of (c_quorum chk) - 1)) = min (nat (q_of (c_quorum chk) - 1)) (length ?cand)"
    by auto
  have "corroborators peers chk reported =
      take (min (nat (q_of (c_quorum chk) - 1)) (length ?cand)) order"
  proof (cases "q_of (c_quorum chk) - 1 < 1")
    case True
    then show ?thesis by (simp add: corroborators_def Let_def)
  next
    case False
    then show ?thesis
      unfolding corroborators_def Let_def want order_def by (simp add: fs)
  qed
  with perm show ?thesis by blast
qed

lemma corroborators_fresh:
  assumes "c_proxy_profile chk = []" and "q_distinct (c_quorum chk)"
  shows "card (p_provider ` set (corroborators peers chk reported) - {r_provider reported}) =
    min (nat (q_of (c_quorum chk) - 1))
      (card (p_provider ` set (other_eligible peers chk reported) - {r_provider reported}))"
proof -
  let ?cand = "other_eligible peers chk reported" and ?w = "nat (q_of (c_quorum chk) - 1)"
  obtain seen fresh rest where fs: "fresh_split (r_provider reported) ?cand = (seen, fresh, rest)"
    by (cases "fresh_split (r_provider reported) ?cand") auto
  note spec = fresh_split_spec [OF fs]
  have len: "length fresh + length rest = length ?cand"
    using mset_eq_length [OF spec(1)] by simp
  have cs: "corroborators peers chk reported = take ?w (fresh @ rest)"
    using assms len by (auto simp: corroborators_def Let_def fs)
  have fresh_not: "r_provider reported \<notin> p_provider ` set (take ?w fresh)"
    using spec(3) by (auto dest: in_set_takeD)
  have total: "card (p_provider ` set fresh) = length fresh"
    using spec(2) distinct_card by fastforce
  have part: "card (p_provider ` set (take ?w fresh)) = min ?w (length fresh)"
    using distinct_card [of "take ?w (map p_provider fresh)"] distinct_take [OF spec(2)]
    by (simp add: take_map min.commute)
  have sub: "p_provider ` set (take (?w - length fresh) rest) - {r_provider reported} \<subseteq> p_provider ` set fresh"
  proof -
    have "set rest \<subseteq> set ?cand" using mset_eq_setD [OF spec(1)] by auto
    then show ?thesis using spec(3) by (auto dest!: in_set_takeD)
  qed
  show ?thesis
  proof (cases "?w \<le> length fresh")
    case True
    then have "p_provider ` set (take ?w (fresh @ rest)) - {r_provider reported} = p_provider ` set (take ?w fresh)"
      using fresh_not by auto
    with part total True spec(3) cs show ?thesis by simp
  next
    case False
    have "p_provider x \<noteq> r_provider reported" if "x \<in> set fresh" for x
      using spec(3) that by auto
    with False have "p_provider ` set (take ?w (fresh @ rest)) - {r_provider reported} = p_provider ` set fresh"
      using sub by auto
    with total False spec(3) cs show ?thesis by simp
  qed
qed

end
