(* ===== verification/Alert.thy ===== *)
theory Alert
  imports Entity Fleet
begin

text \<open>
  What the coordinator says: \<open>Alert\<close> and \<open>Member\<close> of \<open>internal/coordinator/notify.go\<close> with the
  one-line summary a person reads, the selectors of routes, escalations, maintenance windows and
  silences (\<open>lifecycle.go\<close>, \<open>delivery.go\<close>), and the destinations an alert is sent to.
\<close>

section \<open>Durations as text\<close>

text \<open>\<open>Duration.Round(time.Second)\<close>: halves away from zero, saturating.\<close>

definition round_second :: "duration \<Rightarrow> duration" where
  "round_second d =
     (if d < 0 then
        (let r = (- d) mod second in
         if 2 * r < second then d + r else max min_duration (d - second + r))
      else
        (let r = d mod second in
         if 2 * r < second then d - r else min max_duration (d + second - r)))"

fun strip_zeros :: "nat list \<Rightarrow> nat list" where
  "strip_zeros [] = []"
| "strip_zeros (d # ds) = (if d = 0 then strip_zeros ds else d # ds)"

text \<open>\<open>fmtFrac\<close>: the lowest \<open>prec\<close> decimal digits as a fraction, without trailing zeros.\<close>

definition fraction :: "nat \<Rightarrow> nat \<Rightarrow> string" where
  "fraction prec v =
     (let ds = rev (strip_zeros (map (\<lambda>i. v div 10 ^ i mod 10) [0..<prec])) in
      if ds = [] then [] else CHR ''.'' # map (\<lambda>d. byte (48 + d)) ds)"

definition dur_string_pos :: "nat \<Rightarrow> string" where
  "dur_string_pos u =
     (if u < 1000000000 then
        (if u = 0 then ''0s''
         else if u < 1000 then itoa u @ ''ns''
         else if u < 1000000 then itoa (u div 1000) @ fraction 3 u @ map byte [0xC2, 0xB5] @ ''s''
         else itoa (u div 1000000) @ fraction 6 u @ ''ms'')
      else
        (let s = u div 1000000000; m = s div 60; h = m div 60;
             seconds = itoa (s mod 60) @ fraction 9 u @ ''s'' in
         if m = 0 then seconds
         else if h = 0 then itoa (m mod 60) @ ''m'' @ seconds
         else itoa h @ ''h'' @ itoa (m mod 60) @ ''m'' @ seconds))"

definition dur_string :: "duration \<Rightarrow> string" where
  "dur_string d = (if d < 0 then CHR ''-'' # dur_string_pos (nat (- d)) else dur_string_pos (nat d))"

lemma round_second_near:
  "0 \<le> d \<Longrightarrow> d + second \<le> max_duration \<Longrightarrow>
   round_second d mod second = 0 \<and> \<bar>2 * (round_second d - d)\<bar> \<le> second"
proof -
  assume d: "0 \<le> d" "d + second \<le> max_duration"
  have r: "0 \<le> d mod second" "d mod second < second" by (simp_all add: second_def)
  have "(d - d mod second) mod second = 0" by (simp add: minus_mod_eq_mult_div)
  moreover have "(d + second - d mod second) mod second = 0"
    by (metis add.commute add_diff_eq calculation mod_add_self1)
  ultimately show ?thesis
    using d r by (auto simp: round_second_def Let_def min_def)
qed

section \<open>Alerts\<close>

record member =
  m_check :: string
  m_target :: string
  m_status :: status

record alert =
  al_component :: string
  al_members :: "member list"
  al_prober :: string
  al_check :: string
  al_target :: string
  al_detail :: string
  al_kind :: alert_kind
  al_at :: time
  al_suspected_at :: time
  al_escalation :: string
  al_verdict :: verdict

definition empty_verdict :: verdict where
  "empty_verdict = \<lparr>v_check = [], v_status = StatusOther [], v_down = 0, v_up = 0, v_warning = 0,
     v_unknown = 0, v_ind_up = 0, v_ind_down = 0, v_counted = 0, v_discarded = 0,
     v_suppressed = 0, v_suppressed_probers = [], v_providers = [], v_dissent = [], v_reason = []\<rparr>"

definition empty_alert :: alert where
  "empty_alert = \<lparr>al_component = [], al_members = [], al_prober = [], al_check = [],
     al_target = [], al_detail = [], al_kind = KindAlertOther [], al_at = zero_time,
     al_suspected_at = zero_time, al_escalation = [], al_verdict = empty_verdict\<rparr>"

definition subject :: "alert \<Rightarrow> string" where
  "subject a = (if al_prober a \<noteq> [] then al_prober a
     else if al_component a \<noteq> [] then al_component a else al_check a)"

definition verb :: "alert \<Rightarrow> string" where
  "verb a = (case al_kind a of
       KindRecovered \<Rightarrow> ''RECOVERED''
     | KindWarning \<Rightarrow> ''WARNING''
     | KindWarningCleared \<Rightarrow> ''WARNING CLEARED''
     | KindSilent \<Rightarrow> ''NOT REPORTING''
     | KindReporting \<Rightarrow> ''REPORTING''
     | KindIsolated \<Rightarrow> ''ISOLATED''
     | KindRejoined \<Rightarrow> ''REJOINED''
     | KindUnwatched \<Rightarrow> ''UNWATCHED''
     | KindWatched \<Rightarrow> ''WATCHED''
     | KindWatchLost \<Rightarrow> ''COORDINATOR SILENT''
     | KindWatchRecovered \<Rightarrow> ''COORDINATOR RETURNED''
     | _ \<Rightarrow> ''DOWN'')"

definition em_dash :: string where "em_dash = '' '' @ map byte [0xE2, 0x80, 0x94] @ '' ''"

definition append_escalation :: "alert \<Rightarrow> string \<Rightarrow> string" where
  "append_escalation a b = (if al_escalation a \<noteq> [] then b @ ''; ESCALATION '' @ al_escalation a else b)"

definition append_latency :: "alert \<Rightarrow> string \<Rightarrow> string" where
  "append_latency a b =
     (let latency = round_second (sub_time (al_at a) (al_suspected_at a)) in
      if al_kind a = KindDown \<and> \<not> is_zero (al_suspected_at a) \<and> latency \<ge> second
      then b @ ''; first suspected '' @ dur_string latency @ '' earlier'' else b)"

definition failing_members :: "alert \<Rightarrow> string list" where
  "failing_members a = map m_check (filter (\<lambda>m. m_status m = StatusDown \<or>
     (al_kind a = KindWarning \<and> m_status m = StatusWarning)) (al_members a))"

definition summary :: "alert \<Rightarrow> string" where
  "summary a =
     (if al_prober a = [] \<and> al_component a = [] \<and> al_check a = [] then
        append_escalation a (verb a @ (if al_detail a \<noteq> [] then em_dash @ al_detail a else []))
      else if al_prober a \<noteq> [] then
        append_escalation a
          (verb a @ '' prober '' @ al_prober a @
           (if al_detail a \<noteq> [] then em_dash @ al_detail a else []) @
           (if length (al_members a) > 0 then '': '' @ join '', '' (map m_check (al_members a)) else []))
      else if al_component a \<noteq> [] then
        append_escalation a (append_latency a
          (verb a @ '' '' @ al_component a @
           (if length (failing_members a) > 0 then em_dash @ join '', '' (failing_members a)
            else if al_detail a \<noteq> [] then em_dash @ al_detail a else [])))
      else
        append_escalation a (append_latency a
          (verb a @ '' '' @ al_check a @ '' ('' @ al_target a @ '')'' @
           (if v_reason (al_verdict a) \<noteq> [] then em_dash @ v_reason (al_verdict a) else []) @
           (if length (v_dissent (al_verdict a)) > 0
            then ''; dissenting: '' @ join '', '' (v_dissent (al_verdict a)) else []))))"

section \<open>Selectors\<close>

fun any_check :: "alert \<Rightarrow> string list \<Rightarrow> bool" where
  "any_check a [] = False"
| "any_check a (n # ns) =
     (n = al_check a \<or> list_ex (\<lambda>m. n = m_check m) (al_members a) \<or> any_check a ns)"

definition alert_matches :: "alert \<Rightarrow> string list \<Rightarrow> string list \<Rightarrow> string list \<Rightarrow> bool" where
  "alert_matches a checks components probers \<longleftrightarrow>
     (length checks = 0 \<and> length components = 0 \<and> length probers = 0) \<or>
     any_check a checks \<or> list_ex (\<lambda>n. n = al_component a) components \<or>
     list_ex (\<lambda>n. n = al_prober a) probers"

definition selector_matches ::
  "alert \<Rightarrow> string list \<Rightarrow> string list \<Rightarrow> string list \<Rightarrow> alert_kind list \<Rightarrow> bool" where
  "selector_matches a checks components probers kinds \<longleftrightarrow>
     (length kinds > 0 \<longrightarrow> List.member kinds (al_kind a)) \<and>
     alert_matches a checks components probers"

definition valid_kind :: "alert_kind \<Rightarrow> bool" where
  "valid_kind k = (case k of KindAlertOther _ \<Rightarrow> False | _ \<Rightarrow> True)"

lemma any_check_iff:
  "any_check a ns \<longleftrightarrow> (\<exists>n \<in> set ns. n = al_check a \<or> n \<in> m_check ` set (al_members a))"
  by (induction ns) (auto simp: list_ex_iff)

lemma alert_matches_iff:
  "alert_matches a cs ps qs \<longleftrightarrow>
     (cs = [] \<and> ps = [] \<and> qs = []) \<or>
     (\<exists>n \<in> set cs. n = al_check a \<or> n \<in> m_check ` set (al_members a)) \<or>
     al_component a \<in> set ps \<or> al_prober a \<in> set qs"
  by (auto simp: alert_matches_def any_check_iff list_ex_iff)

text \<open>Kinds that close an incident rather than open one.\<close>

definition closing_kind :: "alert_kind \<Rightarrow> bool" where
  "closing_kind k \<longleftrightarrow> (case k of KindRecovered \<Rightarrow> True | KindWarningCleared \<Rightarrow> True
     | KindReporting \<Rightarrow> True | KindRejoined \<Rightarrow> True | KindWatched \<Rightarrow> True
     | KindWatchRecovered \<Rightarrow> True | _ \<Rightarrow> False)"

section \<open>Destinations and their routes\<close>

record route =
  rt_name :: string
  rt_destination :: string
  rt_checks :: "string list"
  rt_components :: "string list"
  rt_probers :: "string list"
  rt_kinds :: "alert_kind list"

record escalation_policy =
  ep_name :: string
  ep_destination :: string
  ep_after :: duration
  ep_checks :: "string list"
  ep_components :: "string list"
  ep_probers :: "string list"
  ep_kinds :: "alert_kind list"

record destination =
  ds_name :: string
  ds_has_notifier :: bool

definition route_state :: "alert \<Rightarrow> string \<Rightarrow> route list \<Rightarrow> bool \<times> bool" where
  "route_state a dest routes =
     foldl (\<lambda>(has_routes, matched) r.
        if rt_destination r \<noteq> dest then (has_routes, matched)
        else (True, matched \<or> selector_matches a (rt_checks r) (rt_components r) (rt_probers r) (rt_kinds r)))
       (False, False) routes"

definition delivery_targets :: "string list \<Rightarrow> route list \<Rightarrow> alert \<Rightarrow> string list" where
  "delivery_targets destinations routes a =
     ''default'' # filter (\<lambda>d. case route_state a d routes of (has_routes, matched) \<Rightarrow>
        \<not> has_routes \<or> matched) destinations"

lemma route_state_fold:
  "foldl (\<lambda>(h, m) r. if rt_destination r \<noteq> dest then (h, m)
        else (True, m \<or> selector_matches a (rt_checks r) (rt_components r) (rt_probers r) (rt_kinds r)))
       (h, m) routes =
     (h \<or> (\<exists>r \<in> set routes. rt_destination r = dest),
      m \<or> (\<exists>r \<in> set routes. rt_destination r = dest \<and>
        selector_matches a (rt_checks r) (rt_components r) (rt_probers r) (rt_kinds r)))"
  by (induction routes arbitrary: h m) auto

lemma delivery_targets_iff:
  "d \<in> set (delivery_targets dests routes a) \<longleftrightarrow>
     d = ''default'' \<or>
     (d \<in> set dests \<and>
      ((\<forall>r \<in> set routes. rt_destination r \<noteq> d) \<or>
       (\<exists>r \<in> set routes. rt_destination r = d \<and>
         selector_matches a (rt_checks r) (rt_components r) (rt_probers r) (rt_kinds r))))"
  unfolding delivery_targets_def route_state_def route_state_fold by auto

section \<open>Validation of the notification configuration\<close>

definition default_retry_initial :: duration where "default_retry_initial = 15 * second"
definition default_retry_max :: duration where "default_retry_max = 15 * minute"

datatype notify_error = NegativeRetry | RetryMaxTooShort | BadDestination | DuplicateDestination string
  | UnnamedRoute | RouteToDefault string | DuplicateRoute string | RouteUnknownDestination string
  | BadEscalation | DuplicateEscalation string | EscalationUnknownDestination string
  | UnknownCheck string | UnknownComponent string | UnknownProber string | UnknownKind alert_kind

definition first_unknown :: "string list \<Rightarrow> string list \<Rightarrow> string option" where
  "first_unknown known names = find (\<lambda>n. \<not> List.member known n) names"

definition validate_alert_selector ::
  "string list \<Rightarrow> string list \<Rightarrow> string list \<Rightarrow> string list \<Rightarrow> string list \<Rightarrow> string list \<Rightarrow>
   alert_kind list \<Rightarrow> notify_error option" where
  "validate_alert_selector known_checks known_components known_probers checks components probers kinds =
     (case first_unknown known_checks checks of Some n \<Rightarrow> Some (UnknownCheck n) | None \<Rightarrow>
      case first_unknown known_components components of Some n \<Rightarrow> Some (UnknownComponent n) | None \<Rightarrow>
      case first_unknown known_probers probers of Some n \<Rightarrow> Some (UnknownProber n) | None \<Rightarrow>
      map_option UnknownKind (find (\<lambda>k. \<not> valid_kind k) kinds))"

fun known_destinations :: "string list \<Rightarrow> destination list \<Rightarrow> notify_error + string list" where
  "known_destinations known [] = Inr known"
| "known_destinations known (d # ds) =
     (let name = trim_space (ds_name d) in
      if name = [] \<or> name \<noteq> ds_name d \<or> \<not> ds_has_notifier d then Inl BadDestination
      else if List.member known name then Inl (DuplicateDestination name)
      else known_destinations (name # known) ds)"

fun validate_routes :: "(route \<Rightarrow> notify_error option) \<Rightarrow> string list \<Rightarrow> string list \<Rightarrow> route list \<Rightarrow>
    notify_error option" where
  "validate_routes sel known seen [] = None"
| "validate_routes sel known seen (r # rs) =
     (if blank (rt_name r) \<or> trim_space (rt_name r) \<noteq> rt_name r then Some UnnamedRoute
      else if rt_destination r = ''default'' then Some (RouteToDefault (rt_name r))
      else if List.member seen (rt_name r) then Some (DuplicateRoute (rt_name r))
      else if \<not> List.member known (rt_destination r) then Some (RouteUnknownDestination (rt_name r))
      else case sel r of Some e \<Rightarrow> Some e
      | None \<Rightarrow> validate_routes sel known (rt_name r # seen) rs)"

fun validate_escalations :: "(escalation_policy \<Rightarrow> notify_error option) \<Rightarrow> string list \<Rightarrow>
    string list \<Rightarrow> escalation_policy list \<Rightarrow> notify_error option" where
  "validate_escalations sel known seen [] = None"
| "validate_escalations sel known seen (p # ps) =
     (if blank (ep_name p) \<or> trim_space (ep_name p) \<noteq> ep_name p \<or> ep_after p \<le> 0 then Some BadEscalation
      else if List.member seen (ep_name p) then Some (DuplicateEscalation (ep_name p))
      else if \<not> List.member known (ep_destination p) then Some (EscalationUnknownDestination (ep_name p))
      else case sel p of Some e \<Rightarrow> Some e
      | None \<Rightarrow> validate_escalations sel known (ep_name p # seen) ps)"

lemma known_destinations_Inr:
  "known_destinations known ds = Inr ks \<Longrightarrow>
   set ks = set known \<union> ds_name ` set ds \<and>
   distinct (map ds_name ds) \<and> ds_name ` set ds \<inter> set known = {} \<and>
   (\<forall>d \<in> set ds. ds_has_notifier d \<and> \<not> blank (ds_name d))"
proof (induction known ds rule: known_destinations.induct)
  case (1 known)
  then show ?case by simp
next
  case (2 known d ds)
  from "2.prems" have ok: "trim_space (ds_name d) = ds_name d" "ds_name d \<noteq> []" "ds_has_notifier d"
    "ds_name d \<notin> set known" "known_destinations (ds_name d # known) ds = Inr ks"
    by (auto simp: Let_def split: if_splits)
  with "2.IH" [OF refl] have "set ks = set (ds_name d # known) \<union> ds_name ` set ds \<and>
      distinct (map ds_name ds) \<and> ds_name ` set ds \<inter> set (ds_name d # known) = {} \<and>
      (\<forall>d \<in> set ds. ds_has_notifier d \<and> \<not> blank (ds_name d))"
    by (auto simp: Let_def)
  with ok show ?case by auto
qed

lemma validate_routes_None:
  "validate_routes sel known seen rs = None \<Longrightarrow>
   distinct (map rt_name rs) \<and> set seen \<inter> rt_name ` set rs = {} \<and>
   (\<forall>r \<in> set rs. rt_destination r \<in> set known \<and> rt_destination r \<noteq> ''default'' \<and> sel r = None)"
  by (induction sel known seen rs rule: validate_routes.induct) (auto split: if_splits option.splits)

lemma validate_escalations_None:
  "validate_escalations sel known seen ps = None \<Longrightarrow>
   distinct (map ep_name ps) \<and> set seen \<inter> ep_name ` set ps = {} \<and>
   (\<forall>p \<in> set ps. ep_destination p \<in> set known \<and> ep_after p > 0 \<and> sel p = None)"
  by (induction sel known seen ps rule: validate_escalations.induct) (auto split: if_splits option.splits)

end
