(* ===== verification/Suppression.thy ===== *)
theory Suppression
  imports Alert
begin

text \<open>
  Maintenance windows (\<open>internal/coordinator/operations.go\<close>) and silences (\<open>lifecycle.go\<close>): when
  each is in force, what makes one valid, and the operations on the two stores.
  \<open>time.ParseDuration\<close> works on floating-point fractions and is the parameter \<open>parse\<close>.
\<close>

record maintenance =
  mt_name :: string
  mt_starts_at :: time
  mt_ends_at :: time
  mt_every :: string
  mt_checks :: "string list"
  mt_components :: "string list"
  mt_probers :: "string list"
  mt_comment :: string
  mt_source :: string
  mt_created_at :: time
  mt_created_by :: string
  mt_updated_at :: time
  mt_updated_by :: string

record silence =
  si_id :: nat
  si_name :: string
  si_starts_at :: time
  si_ends_at :: time
  si_checks :: "string list"
  si_components :: "string list"
  si_probers :: "string list"
  si_created_at :: time
  si_created_by :: string
  si_comment :: string
  si_cancelled_at :: "time option"
  si_cancelled_by :: string
  si_cancellation :: string

definition maintenance_active :: "(string \<Rightarrow> duration option) \<Rightarrow> maintenance \<Rightarrow> time \<Rightarrow> bool" where
  "maintenance_active parse m now =
     (if now < mt_starts_at m then False
      else
        (let now' = (case parse (mt_every m) of
               None \<Rightarrow> now
             | Some every \<Rightarrow>
                 if every > 0 then now + quot (- sub_time now (mt_starts_at m)) every * every else now)
         in now' < mt_ends_at m))"

definition silence_active :: "silence \<Rightarrow> time \<Rightarrow> bool" where
  "silence_active s now \<longleftrightarrow>
     si_cancelled_at s = None \<and> \<not> now < si_starts_at s \<and> now < si_ends_at s"

datatype suppression_error = ActorRequired | NameRequired | InvalidInterval | InvalidEvery
  | WindowTooLong | ScopeCheck string | ScopeComponent string | ScopeProber string
  | MaintenanceConfigured | MaintenanceExists | MaintenanceNotFound | SilenceNotFound

text \<open>What the coordinator knows: the names a scope may mention.\<close>

record catalogue =
  k_checks :: "string list"
  k_components :: "string list"
  k_probers :: "string list"

definition validate_scope ::
  "catalogue \<Rightarrow> string list \<Rightarrow> string list \<Rightarrow> string list \<Rightarrow> suppression_error option" where
  "validate_scope k checks components probers =
     (case first_unknown (k_checks k) checks of Some n \<Rightarrow> Some (ScopeCheck n) | None \<Rightarrow>
      case first_unknown (k_components k) components of Some n \<Rightarrow> Some (ScopeComponent n) | None \<Rightarrow>
      map_option ScopeProber (first_unknown (k_probers k) probers))"

definition validate_silence :: "catalogue \<Rightarrow> silence \<Rightarrow> suppression_error option" where
  "validate_silence k s =
     (if blank (si_name s) then Some NameRequired
      else if is_zero (si_starts_at s) \<or> \<not> si_ends_at s > si_starts_at s then Some InvalidInterval
      else validate_scope k (si_checks s) (si_components s) (si_probers s))"

definition maintenance_validate ::
  "(string \<Rightarrow> duration option) \<Rightarrow> maintenance \<Rightarrow> suppression_error option" where
  "maintenance_validate parse m =
     (if mt_name m = [] then Some NameRequired
      else if is_zero (mt_starts_at m) \<or> \<not> mt_ends_at m > mt_starts_at m then Some InvalidInterval
      else if mt_every m \<noteq> [] then
        (case parse (mt_every m) of
           None \<Rightarrow> Some InvalidEvery
         | Some every \<Rightarrow>
             if every \<le> 0 then Some InvalidEvery
             else if sub_time (mt_ends_at m) (mt_starts_at m) \<ge> every then Some WindowTooLong
             else None)
      else None)"

section \<open>The stores\<close>

definition create_silence ::
  "catalogue \<Rightarrow> time \<Rightarrow> silence list \<times> nat \<Rightarrow> silence \<Rightarrow>
   (silence list \<times> nat) \<times> (suppression_error + silence)" where
  "create_silence k now st s =
     (let s = (if is_zero (si_starts_at s) then s\<lparr>si_starts_at := now\<rparr> else s);
          s = s\<lparr>si_created_at := now, si_created_by := trim_space (si_created_by s)\<rparr>
      in if si_created_by s = [] then (st, Inl ActorRequired)
         else case validate_silence k s of Some e \<Rightarrow> (st, Inl e)
         | None \<Rightarrow>
             (let s = s\<lparr>si_id := Suc (snd st)\<rparr> in ((fst st @ [s], Suc (snd st)), Inr s)))"

fun cancel_in :: "nat \<Rightarrow> time \<Rightarrow> string \<Rightarrow> string \<Rightarrow> silence list \<Rightarrow> silence list option" where
  "cancel_in sid now actor remark [] = None"
| "cancel_in sid now actor remark (s # ss) =
     (if si_id s \<noteq> sid then map_option ((#) s) (cancel_in sid now actor remark ss)
      else if si_cancelled_at s \<noteq> None then Some (s # ss)
      else Some (s\<lparr>si_cancelled_at := Some now, si_cancelled_by := actor,
                   si_cancellation := trim_space remark\<rparr> # ss))"

definition cancel_silence ::
  "time \<Rightarrow> silence list \<Rightarrow> nat \<Rightarrow> string \<Rightarrow> string \<Rightarrow> silence list \<times> suppression_error option" where
  "cancel_silence now ss sid actor remark =
     (let actor = trim_space actor in
      if actor = [] then (ss, Some ActorRequired)
      else case cancel_in sid now actor remark ss of
        None \<Rightarrow> (ss, Some SilenceNotFound)
      | Some ss' \<Rightarrow> (ss', None))"

definition maintenance_windows :: "maintenance list \<Rightarrow> maintenance list \<Rightarrow> maintenance list" where
  "maintenance_windows configured managed =
     map (\<lambda>m. m\<lparr>mt_source := ''config''\<rparr>) configured @ managed"

text \<open>The index of the last managed window of that name, as the loop leaves it.\<close>

fun last_index :: "('a \<Rightarrow> bool) \<Rightarrow> 'a list \<Rightarrow> nat \<Rightarrow> nat option \<Rightarrow> nat option" where
  "last_index P [] i found = found"
| "last_index P (x # xs) i found = last_index P xs (Suc i) (if P x then Some i else found)"

definition put_maintenance ::
  "(string \<Rightarrow> duration option) \<Rightarrow> catalogue \<Rightarrow> maintenance list \<Rightarrow> time \<Rightarrow> maintenance list \<Rightarrow>
   maintenance \<Rightarrow> string \<Rightarrow> bool \<Rightarrow> maintenance list \<times> (suppression_error + maintenance)" where
  "put_maintenance parse k configured now managed m actor create =
     (let actor = trim_space actor in
      if actor = [] then (managed, Inl ActorRequired)
      else
        let m = m\<lparr>mt_name := trim_space (mt_name m)\<rparr>;
            m = (if is_zero (mt_starts_at m) \<and> create then m\<lparr>mt_starts_at := now\<rparr> else m);
            m = m\<lparr>mt_source := ''api'', mt_updated_at := now, mt_updated_by := actor\<rparr>
        in case maintenance_validate parse m of Some e \<Rightarrow> (managed, Inl e)
        | None \<Rightarrow>
          (case validate_scope k (mt_checks m) (mt_components m) (mt_probers m) of
             Some e \<Rightarrow> (managed, Inl e)
           | None \<Rightarrow>
             if list_ex (\<lambda>c. mt_name c = mt_name m) configured
             then (managed, Inl MaintenanceConfigured)
             else
               (case last_index (\<lambda>e. mt_name e = mt_name m) managed 0 None of
                  Some i \<Rightarrow>
                    if create then (managed, Inl MaintenanceExists)
                    else (let m = m\<lparr>mt_created_at := mt_created_at (managed ! i),
                                    mt_created_by := mt_created_by (managed ! i)\<rparr>
                          in (managed[i := m], Inr m))
                | None \<Rightarrow>
                    if \<not> create then (managed, Inl MaintenanceNotFound)
                    else (let m = m\<lparr>mt_created_at := now, mt_created_by := actor\<rparr>
                          in (managed @ [m], Inr m)))))"

fun delete_first :: "('a \<Rightarrow> bool) \<Rightarrow> 'a list \<Rightarrow> 'a list option" where
  "delete_first P [] = None"
| "delete_first P (x # xs) = (if P x then Some xs else map_option ((#) x) (delete_first P xs))"

definition delete_maintenance ::
  "maintenance list \<Rightarrow> maintenance list \<Rightarrow> string \<Rightarrow> string \<Rightarrow>
   maintenance list \<times> suppression_error option" where
  "delete_maintenance configured managed nm actor =
     (let actor = trim_space actor in
      if actor = [] then (managed, Some ActorRequired)
      else if list_ex (\<lambda>c. mt_name c = nm) configured then (managed, Some MaintenanceConfigured)
      else case delete_first (\<lambda>e. mt_name e = nm) managed of
        None \<Rightarrow> (managed, Some MaintenanceNotFound)
      | Some managed' \<Rightarrow> (managed', None))"

section \<open>When a window is in force\<close>

lemma quot_neg_div: "0 \<le> x \<Longrightarrow> 0 < e \<Longrightarrow> quot (- x) e = - (x div e)"
  by (auto simp: quot_def)

lemma periodic_window:
  fixes t s e p :: int
  assumes "s \<le> t" "0 < p" "e - s < p"
  shows "t - (t - s) div p * p < e \<longleftrightarrow> (\<exists>k::nat. s + int k * p \<le> t \<and> t < e + int k * p)"
proof -
  let ?q = "(t - s) div p"
  have q: "0 \<le> ?q" using assms by (simp add: pos_imp_zdiv_nonneg_iff)
  have m: "t - ?q * p = s + (t - s) mod p"
    by (simp add: minus_div_mult_eq_mod [symmetric])
  have lo: "s + ?q * p \<le> t" and hi: "t < s + ?q * p + p"
    using m pos_mod_sign [OF assms(2), of "t - s"] pos_mod_bound [OF assms(2), of "t - s"] by linarith+
  show ?thesis
  proof
    assume "t - ?q * p < e"
    with q lo have "s + int (nat ?q) * p \<le> t \<and> t < e + int (nat ?q) * p" by simp
    then show "\<exists>k::nat. s + int k * p \<le> t \<and> t < e + int k * p" by blast
  next
    assume "\<exists>k::nat. s + int k * p \<le> t \<and> t < e + int k * p"
    then obtain k :: nat where k: "s + int k * p \<le> t" "t < e + int k * p" by blast
    have "int k = ?q"
    proof (rule ccontr)
      assume "int k \<noteq> ?q"
      then consider "int k + 1 \<le> ?q" | "?q + 1 \<le> int k" by linarith
      then show False
      proof cases
        case 1
        then have "(int k + 1) * p \<le> ?q * p" using assms(2) by (intro mult_right_mono) auto
        with lo k(2) assms(3) show False by (simp add: algebra_simps)
      next
        case 2
        then have "(?q + 1) * p \<le> int k * p" using assms(2) by (intro mult_right_mono) auto
        with hi k(1) show False by (simp add: algebra_simps)
      qed
    qed
    with k(2) show "t - ?q * p < e" by simp
  qed
qed

lemma maintenance_once:
  "parse (mt_every m) = None \<Longrightarrow>
   maintenance_active parse m now \<longleftrightarrow> mt_starts_at m \<le> now \<and> now < mt_ends_at m"
  by (auto simp: maintenance_active_def)

lemma maintenance_repeats:
  assumes "maintenance_validate parse m = None" "mt_every m \<noteq> []" "parse (mt_every m) = Some p"
    and "now - mt_starts_at m \<le> max_duration"
    and "mt_ends_at m - mt_starts_at m \<le> max_duration"
  shows "maintenance_active parse m now \<longleftrightarrow>
    (\<exists>k::nat. mt_starts_at m + int k * p \<le> now \<and> now < mt_ends_at m + int k * p)"
proof (cases "now < mt_starts_at m")
  case True
  have p: "0 < p" using assms(1-3) by (auto simp: maintenance_validate_def split: if_splits)
  have "mt_starts_at m \<le> mt_starts_at m + int k * p" for k using p by simp
  with True have "\<not> mt_starts_at m + int k * p \<le> now" for k using order_trans not_le by blast
  with True show ?thesis by (auto simp: maintenance_active_def)
next
  case False
  have p: "0 < p" "sub_time (mt_ends_at m) (mt_starts_at m) < p" "mt_starts_at m < mt_ends_at m"
    "mt_starts_at m \<le> now"
    using assms(1-3) False by (auto simp: maintenance_validate_def split: if_splits)
  from p(3) assms(5) have "mt_ends_at m - mt_starts_at m < p"
    using p(2) sub_time_exact [of "mt_ends_at m" "mt_starts_at m"] by simp
  moreover have "sub_time now (mt_starts_at m) = now - mt_starts_at m"
    using False assms(4) by (intro sub_time_exact) auto
  moreover have "quot (- (now - mt_starts_at m)) p = - ((now - mt_starts_at m) div p)"
    using p by (intro quot_neg_div) auto
  ultimately show ?thesis
    using False p periodic_window [of "mt_starts_at m" now p "mt_ends_at m"]
    by (simp only: maintenance_active_def assms(3) Let_def option.case if_False if_True) simp
qed

section \<open>Operations keep the stores well formed\<close>

definition silences_ok :: "silence list \<times> nat \<Rightarrow> bool" where
  "silences_ok st \<longleftrightarrow> distinct (map si_id (fst st)) \<and> (\<forall>s \<in> set (fst st). 1 \<le> si_id s \<and> si_id s \<le> snd st)"

lemma create_silence_ok: "silences_ok st \<Longrightarrow> silences_ok (fst (create_silence k now st s))"
  by (auto simp: create_silence_def silences_ok_def Let_def split: option.splits)

lemma create_silence_result:
  "snd (create_silence k now st s) = Inr s' \<Longrightarrow>
   s' \<in> set (fst (fst (create_silence k now st s))) \<and> si_starts_at s' < si_ends_at s' \<and>
   si_created_by s' \<noteq> [] \<and> si_id s' = Suc (snd st) \<and>
   (si_starts_at s' = si_starts_at s \<or> si_starts_at s' = now)"
  by (auto simp: create_silence_def Let_def validate_silence_def split: option.splits if_splits)

lemma cancel_in_ids: "cancel_in sid now actor remark ss = Some ss' \<Longrightarrow> map si_id ss' = map si_id ss"
  by (induction sid now actor remark ss arbitrary: ss' rule: cancel_in.induct) (auto split: if_splits)

lemma cancel_in_None: "cancel_in sid now actor remark ss = None \<longleftrightarrow> sid \<notin> si_id ` set ss"
  by (induction ss) auto

lemma cancel_in_cancelled:
  "cancel_in sid now actor remark ss = Some ss' \<Longrightarrow> distinct (map si_id ss) \<Longrightarrow>
   s \<in> set ss' \<Longrightarrow> si_id s = sid \<Longrightarrow> si_cancelled_at s \<noteq> None"
proof (induction sid now actor remark ss arbitrary: ss' rule: cancel_in.induct)
  case (1 sid now actor remark)
  then show ?case by simp
next
  case (2 sid now actor remark x xs)
  show ?case
  proof (cases "si_id x = sid")
    case False
    with "2.prems" obtain ys where "cancel_in sid now actor remark xs = Some ys" "ss' = x # ys"
      by auto
    with False 2 show ?thesis by auto
  next
    case True
    have "si_id x \<notin> si_id ` set xs" using "2.prems"(2) by simp
    then have "\<forall>y \<in> set xs. si_id y \<noteq> sid" unfolding True by (metis imageI)
    moreover have "\<exists>x'. ss' = x' # xs \<and> si_cancelled_at x' \<noteq> None"
      using True "2.prems"(1) by (auto split: if_splits)
    ultimately show ?thesis using "2.prems"(3,4) by auto
  qed
qed

lemma cancel_in_others:
  "cancel_in sid now actor remark ss = Some ss' \<Longrightarrow>
   filter (\<lambda>s. si_id s \<noteq> sid) ss' = filter (\<lambda>s. si_id s \<noteq> sid) ss"
  by (induction sid now actor remark ss arbitrary: ss' rule: cancel_in.induct) (auto split: if_splits)

lemma last_index_None: "last_index P xs i None = None \<longleftrightarrow> (\<forall>x \<in> set xs. \<not> P x)"
proof -
  have found: "last_index P xs i (Some j) \<noteq> None" for xs i j
    by (induction xs arbitrary: i j) auto
  show ?thesis by (induction xs arbitrary: i) (auto simp: found)
qed

lemma last_index_Some:
  "last_index P xs i found = Some j \<Longrightarrow>
   found = Some j \<or> (i \<le> j \<and> j < i + length xs \<and> P (xs ! (j - i)))"
proof (induction xs arbitrary: i found)
  case Nil
  then show ?case by simp
next
  case (Cons x xs)
  from Cons.prems have "last_index P xs (Suc i) (if P x then Some i else found) = Some j" by simp
  from Cons.IH [OF this] show ?case
  proof
    assume "(if P x then Some i else found) = Some j"
    then show ?thesis by (auto split: if_splits)
  next
    assume j: "Suc i \<le> j \<and> j < Suc i + length xs \<and> P (xs ! (j - Suc i))"
    then have "j - i = Suc (j - Suc i)" by linarith
    with j show ?thesis by auto
  qed
qed

text \<open>Managed windows have names of their own and are valid.\<close>

definition managed_ok :: "(string \<Rightarrow> duration option) \<Rightarrow> maintenance list \<Rightarrow> maintenance list \<Rightarrow> bool" where
  "managed_ok parse configured managed \<longleftrightarrow>
     distinct (map mt_name managed) \<and> mt_name ` set configured \<inter> mt_name ` set managed = {} \<and>
     (\<forall>m \<in> set managed. maintenance_validate parse m = None)"

lemma validate_created [simp]:
  "maintenance_validate parse (m\<lparr>mt_created_at := t, mt_created_by := a\<rparr>) = maintenance_validate parse m"
  by (cases "parse (mt_every m)") (simp_all add: maintenance_validate_def)

lemma managed_ok_replace:
  assumes "managed_ok parse configured ms" "i < length ms" "mt_name m = mt_name (ms ! i)"
    "maintenance_validate parse m = None"
  shows "managed_ok parse configured (ms[i := m])"
proof -
  have names: "map mt_name (ms[i := m]) = map mt_name ms"
    using assms(2,3) by (simp add: map_update list_update_same_conv)
  then have "mt_name ` set (ms[i := m]) = mt_name ` set ms" by (metis list.set_map)
  moreover have "\<forall>x \<in> set (ms[i := m]). maintenance_validate parse x = None"
    using assms(1,4) set_update_subset_insert [of ms i m] by (auto simp: managed_ok_def)
  ultimately show ?thesis using assms(1) names by (simp only: managed_ok_def)
qed

lemma put_maintenance_ok:
  assumes "managed_ok parse configured ms"
  shows "managed_ok parse configured (fst (put_maintenance parse k configured now ms m actor create))"
proof -
  have replaced: "managed_ok parse configured (ms[i := m'])"
    if "last_index (\<lambda>e. mt_name e = mt_name m') ms 0 None = Some i"
      "maintenance_validate parse m' = None" for i m'
    using last_index_Some [OF that(1)] that(2) by (intro managed_ok_replace [OF assms]) auto
  have appended: "managed_ok parse configured (ms @ [m'])"
    if "last_index (\<lambda>e. mt_name e = mt_name m') ms 0 None = None"
      "maintenance_validate parse m' = None"
      "\<not> list_ex (\<lambda>c. mt_name c = mt_name m') configured" for m'
    using assms that by (auto simp: managed_ok_def last_index_None list_ex_iff)
  show ?thesis
    unfolding put_maintenance_def Let_def
    by (auto split: option.splits intro!: assms replaced appended)
qed

lemma delete_first_perm:
  "delete_first P xs = Some ys \<Longrightarrow> \<exists>x. P x \<and> mset xs = add_mset x (mset ys)"
  by (induction P xs arbitrary: ys rule: delete_first.induct) (auto split: if_splits)

lemma delete_first_sublist:
  "delete_first P xs = Some ys \<Longrightarrow> set ys \<subseteq> set xs \<and> (distinct (map f xs) \<longrightarrow> distinct (map f ys))"
proof (induction P xs arbitrary: ys rule: delete_first.induct)
  case (1 P)
  then show ?case by simp
next
  case (2 P x xs)
  then show ?case by (auto split: if_splits) blast+
qed

lemma delete_first_gone:
  "delete_first (\<lambda>x. f x = n) xs = Some ys \<Longrightarrow> distinct (map f xs) \<Longrightarrow> n \<notin> f ` set ys"
proof (induction "\<lambda>x. f x = n" xs arbitrary: ys rule: delete_first.induct)
  case 1
  then show ?case by simp
next
  case (2 x xs)
  then show ?case by (auto split: if_splits)
qed

lemma delete_maintenance_ok:
  "managed_ok parse configured ms \<Longrightarrow>
   managed_ok parse configured (fst (delete_maintenance configured ms nm actor))"
proof -
  assume ok: "managed_ok parse configured ms"
  have "managed_ok parse configured ys" if "delete_first (\<lambda>e. mt_name e = nm) ms = Some ys" for ys
    using delete_first_sublist [OF that, of mt_name] ok by (auto simp: managed_ok_def)
  with ok show ?thesis by (auto simp: delete_maintenance_def Let_def split: option.splits)
qed

end
