(* ===== verification/Incidents.thy ===== *)
theory Incidents
  imports Suppression
begin

text \<open>
  Incidents (\<open>internal/coordinator/operations.go\<close> and \<open>lifecycle.go\<close>): the part of the
  coordinator's state that alerting works on, how an alert opens or resolves an incident, and what
  an operator may do with one. \<open>now\<close> is the handler's reading of the clock.
\<close>

record incident =
  in_id :: nat
  in_subject :: string
  in_kind :: alert_kind
  in_opened_at :: time
  in_resolved_at :: time
  in_active :: bool
  in_suppressed :: bool
  in_maintenance :: string
  in_silence_id :: nat
  in_silence :: string
  in_acknowledged_at :: "time option"
  in_acknowledged_by :: string
  in_acknowledgement :: string
  in_resolved_by :: string
  in_resolution :: string
  in_manual_resolution :: bool
  in_alert :: alert

text \<open>\<open>LastError\<close>: nothing, the destination is not configured, or what its notifier said.\<close>

datatype delivery_error = NoError | Unavailable string | NotifierError string

record delivery =
  dl_id :: nat
  dl_destination :: string
  dl_alert :: alert
  dl_created_at :: time
  dl_next_attempt :: time
  dl_attempts :: nat
  dl_last_attempt :: time
  dl_last_error :: delivery_error
  dl_escalation :: string
  dl_incident_id :: nat

record desk =
  dk_incidents :: "incident list"
  dk_next_incident :: nat
  dk_silences :: "silence list"
  dk_next_silence :: nat
  dk_maintenance :: "maintenance list"
  dk_outbox :: "delivery list"
  dk_next_delivery :: nat
  dk_escalated :: "(string \<times> time) list"

record desk_config =
  dc_maintenance :: "maintenance list"
  dc_destinations :: "string list"
  dc_routes :: "route list"
  dc_escalations :: "escalation_policy list"
  dc_retry_initial :: duration
  dc_retry_max :: duration

definition windows :: "'c desk_config_scheme \<Rightarrow> 'a desk_scheme \<Rightarrow> maintenance list" where
  "windows cfg d = maintenance_windows (dc_maintenance cfg) (dk_maintenance d)"

definition active_maintenance ::
  "(string \<Rightarrow> duration option) \<Rightarrow> 'c desk_config_scheme \<Rightarrow> time \<Rightarrow> 'a desk_scheme \<Rightarrow> alert \<Rightarrow> string" where
  "active_maintenance parse cfg now d a =
     (case find (\<lambda>m. maintenance_active parse m now \<and>
               alert_matches a (mt_checks m) (mt_components m) (mt_probers m)) (windows cfg d) of
        None \<Rightarrow> [] | Some m \<Rightarrow> mt_name m)"

definition active_silence :: "time \<Rightarrow> 'a desk_scheme \<Rightarrow> alert \<Rightarrow> nat \<times> string" where
  "active_silence now d a =
     (case find (\<lambda>s. silence_active s now \<and>
               alert_matches a (si_checks s) (si_components s) (si_probers s)) (dk_silences d) of
        None \<Rightarrow> (0, []) | Some s \<Rightarrow> (si_id s, si_name s))"

definition suppression_active ::
  "(string \<Rightarrow> duration option) \<Rightarrow> 'c desk_config_scheme \<Rightarrow> time \<Rightarrow> 'a desk_scheme \<Rightarrow> incident \<Rightarrow> bool" where
  "suppression_active parse cfg now d i \<longleftrightarrow>
     (in_maintenance i \<noteq> [] \<and>
        list_ex (\<lambda>m. mt_name m = in_maintenance i \<and> maintenance_active parse m now \<and>
          alert_matches (in_alert i) (mt_checks m) (mt_components m) (mt_probers m)) (windows cfg d)) \<or>
     (in_silence_id i \<noteq> 0 \<and>
        list_ex (\<lambda>s. si_id s = in_silence_id i \<and> silence_active s now) (dk_silences d))"

definition cancel_escalations :: "nat \<Rightarrow> 'a desk_scheme \<Rightarrow> 'a desk_scheme" where
  "cancel_escalations iid d =
     d\<lparr>dk_outbox := filter (\<lambda>q. \<not> (dl_incident_id q = iid \<and> dl_escalation q \<noteq> [])) (dk_outbox d)\<rparr>"

text \<open>Change the first entry that satisfies \<open>P\<close>.\<close>

fun update_first :: "('x \<Rightarrow> bool) \<Rightarrow> ('x \<Rightarrow> 'x) \<Rightarrow> 'x list \<Rightarrow> 'x list" where
  "update_first P f [] = []"
| "update_first P f (x # xs) = (if P x then f x # xs else x # update_first P f xs)"

definition record_incident :: "alert \<Rightarrow> string \<Rightarrow> nat \<Rightarrow> string \<Rightarrow> 'a desk_scheme \<Rightarrow> 'a desk_scheme" where
  "record_incident a maint sid sname d =
     (if closing_kind (al_kind a) then
        (let open_here = (\<lambda>i. in_subject i = subject a \<and> in_active i) in
         case find open_here (rev (dk_incidents d)) of
           None \<Rightarrow> d
         | Some i \<Rightarrow>
             cancel_escalations (in_id i)
               (d\<lparr>dk_incidents := rev (update_first open_here
                    (\<lambda>i. i\<lparr>in_active := False, in_resolved_at := al_at a\<rparr>) (rev (dk_incidents d)))\<rparr>))
      else
        d\<lparr>dk_next_incident := Suc (dk_next_incident d),
          dk_incidents := dk_incidents d @
            [\<lparr>in_id = Suc (dk_next_incident d), in_subject = subject a, in_kind = al_kind a,
              in_opened_at = al_at a, in_resolved_at = zero_time, in_active = True,
              in_suppressed = (maint \<noteq> [] \<or> sid \<noteq> 0), in_maintenance = maint,
              in_silence_id = sid, in_silence = sname, in_acknowledged_at = None,
              in_acknowledged_by = [], in_acknowledgement = [], in_resolved_by = [],
              in_resolution = [], in_manual_resolution = False, in_alert = a\<rparr>]\<rparr>)"

datatype incident_error = IncidentActorRequired | IncidentNotFound | IncidentInactive

definition acknowledge_incident ::
  "time \<Rightarrow> nat \<Rightarrow> string \<Rightarrow> string \<Rightarrow> 'a desk_scheme \<Rightarrow> 'a desk_scheme \<times> incident_error option" where
  "acknowledge_incident now iid actor remark d =
     (let actor = trim_space actor in
      if actor = [] then (d, Some IncidentActorRequired)
      else case find (\<lambda>i. in_id i = iid) (dk_incidents d) of
        None \<Rightarrow> (d, Some IncidentNotFound)
      | Some i \<Rightarrow>
          if \<not> in_active i then (d, Some IncidentInactive)
          else (cancel_escalations iid
                 (d\<lparr>dk_incidents := update_first (\<lambda>i. in_id i = iid)
                     (\<lambda>i. i\<lparr>in_acknowledged_at := Some now, in_acknowledged_by := actor,
                            in_acknowledgement := trim_space remark\<rparr>) (dk_incidents d)\<rparr>), None))"

definition resolve_incident ::
  "time \<Rightarrow> nat \<Rightarrow> string \<Rightarrow> string \<Rightarrow> 'a desk_scheme \<Rightarrow> 'a desk_scheme \<times> incident_error option" where
  "resolve_incident now iid actor remark d =
     (let actor = trim_space actor in
      if actor = [] then (d, Some IncidentActorRequired)
      else case find (\<lambda>i. in_id i = iid) (dk_incidents d) of
        None \<Rightarrow> (d, Some IncidentNotFound)
      | Some i \<Rightarrow>
          if \<not> in_active i then (d, Some IncidentInactive)
          else (cancel_escalations iid
                 (d\<lparr>dk_incidents := update_first (\<lambda>i. in_id i = iid)
                     (\<lambda>i. i\<lparr>in_active := False, in_resolved_at := now, in_resolved_by := actor,
                            in_resolution := trim_space remark, in_manual_resolution := True\<rparr>)
                     (dk_incidents d)\<rparr>), None))"

section \<open>Well-formed incident books\<close>

definition book_ok :: "'a desk_scheme \<Rightarrow> bool" where
  "book_ok d \<longleftrightarrow> sorted_wrt (<) (map in_id (dk_incidents d)) \<and>
     (\<forall>i \<in> set (dk_incidents d). 1 \<le> in_id i \<and> in_id i \<le> dk_next_incident d)"

lemma update_first_map: "(\<And>x. g (f x) = g x) \<Longrightarrow> map g (update_first P f xs) = map g xs"
  by (induction xs) auto

lemma update_first_set: "x \<in> set (update_first P f xs) \<Longrightarrow> x \<in> set xs \<or> (\<exists>y \<in> set xs. P y \<and> x = f y)"
  by (induction xs) (auto split: if_splits)

lemma update_first_none: "(\<And>x. x \<in> set xs \<Longrightarrow> \<not> P x) \<Longrightarrow> update_first P f xs = xs"
  by (induction xs) auto

text \<open>What changes is exactly the entry \<open>find\<close> returns.\<close>

lemma update_first_split:
  "find P xs = Some x \<Longrightarrow>
   \<exists>us vs. xs = us @ x # vs \<and> P x \<and> (\<forall>u \<in> set us. \<not> P u) \<and> update_first P f xs = us @ f x # vs"
proof (induction xs)
  case Nil
  then show ?case by simp
next
  case (Cons y ys)
  show ?case
  proof (cases "P y")
    case True
    with Cons.prems show ?thesis by (intro exI [of _ "[]"] exI [of _ ys]) auto
  next
    case False
    with Cons obtain us vs where "ys = us @ x # vs" "P x" "\<forall>u \<in> set us. \<not> P u"
      "update_first P f ys = us @ f x # vs" by auto
    with False show ?thesis by (intro exI [of _ "y # us"] exI [of _ vs]) auto
  qed
qed

lemma find_None_iff_all: "find P xs = None \<longleftrightarrow> (\<forall>x \<in> set xs. \<not> P x)"
  by (auto simp: find_None_iff)

lemma book_ok_same_ids:
  fixes d :: "'a desk_scheme" and d' :: "'b desk_scheme"
  shows "book_ok d \<Longrightarrow> map in_id (dk_incidents d') = map in_id (dk_incidents d) \<Longrightarrow>
   dk_next_incident d' = dk_next_incident d \<Longrightarrow> book_ok d'"
proof -
  assume ok: "book_ok d" and ids: "map in_id (dk_incidents d') = map in_id (dk_incidents d)"
    and nx: "dk_next_incident d' = dk_next_incident d"
  from ids have "in_id ` set (dk_incidents d') = in_id ` set (dk_incidents d)"
    by (metis list.set_map)
  then have "\<exists>j \<in> set (dk_incidents d). in_id j = in_id i" if "i \<in> set (dk_incidents d')" for i
    using that by (metis imageE imageI)
  then have "\<forall>i \<in> set (dk_incidents d'). 1 \<le> in_id i \<and> in_id i \<le> dk_next_incident d"
    using ok unfolding book_ok_def by metis
  with ok nx ids show ?thesis by (simp add: book_ok_def)
qed

lemma cancel_frame [simp]:
  "dk_incidents (cancel_escalations iid d) = dk_incidents d"
  "dk_next_incident (cancel_escalations iid d) = dk_next_incident d"
  "dk_silences (cancel_escalations iid d) = dk_silences d"
  "dk_maintenance (cancel_escalations iid d) = dk_maintenance d"
  "dk_next_delivery (cancel_escalations iid d) = dk_next_delivery d"
  "dk_escalated (cancel_escalations iid d) = dk_escalated d"
  by (simp_all add: cancel_escalations_def)

lemma record_incident_ids:
  "closing_kind (al_kind a) \<Longrightarrow>
   map in_id (dk_incidents (record_incident a m sid sn d)) = map in_id (dk_incidents d)"
  by (auto simp: record_incident_def Let_def rev_map [symmetric] update_first_map split: option.splits)

lemma record_incident_ok: "book_ok d \<Longrightarrow> book_ok (record_incident a m sid sn d)"
proof (cases "closing_kind (al_kind a)")
  case True
  assume "book_ok d"
  moreover have "dk_next_incident (record_incident a m sid sn d) = dk_next_incident d"
    using True by (auto simp: record_incident_def Let_def split: option.splits)
  ultimately show ?thesis by (rule book_ok_same_ids [OF _ record_incident_ids [OF True]])
next
  case False
  assume ok: "book_ok d"
  have new: "dk_next_incident d < Suc (dk_next_incident d)" by simp
  from ok have "\<forall>i \<in> set (dk_incidents d). in_id i < Suc (dk_next_incident d)"
    by (auto simp: book_ok_def le_imp_less_Suc)
  with ok False show ?thesis
    by (auto simp: record_incident_def book_ok_def sorted_wrt_append)
qed

lemma acknowledge_ok: "book_ok d \<Longrightarrow> book_ok (fst (acknowledge_incident now iid actor remark d))"
  by (auto simp: acknowledge_incident_def Let_def split: option.splits
      intro!: book_ok_same_ids [of d] update_first_map)

lemma resolve_ok: "book_ok d \<Longrightarrow> book_ok (fst (resolve_incident now iid actor remark d))"
  by (auto simp: resolve_incident_def Let_def split: option.splits
      intro!: book_ok_same_ids [of d] update_first_map)

lemma book_ids_distinct: "book_ok d \<Longrightarrow> distinct (map in_id (dk_incidents d))"
  by (simp add: book_ok_def strict_sorted_iff)

section \<open>What an alert does to the book\<close>

abbreviation active_incidents :: "'a desk_scheme \<Rightarrow> string \<Rightarrow> incident list" where
  "active_incidents d s \<equiv> filter (\<lambda>i. in_subject i = s \<and> in_active i) (dk_incidents d)"

text \<open>An opening alert adds one active incident; a closing one resolves the newest active
  incident of its subject and no other.\<close>

lemma opening_active:
  "\<not> closing_kind (al_kind a) \<Longrightarrow>
   length (active_incidents (record_incident a m sid sn d) s) =
     length (active_incidents d s) + (if s = subject a then 1 else 0)"
  by (auto simp: record_incident_def)

lemma closing_resolves_newest:
  assumes "closing_kind (al_kind a)"
  shows "active_incidents (record_incident a m sid sn d) s =
    (if s = subject a then butlast (active_incidents d s) else active_incidents d s)"
proof (cases "find (\<lambda>i. in_subject i = subject a \<and> in_active i) (rev (dk_incidents d))")
  case None
  then have "active_incidents d (subject a) = []"
    by (auto simp: find_None_iff_all filter_empty_conv)
  with None assms show ?thesis by (simp add: record_incident_def)
next
  case (Some i)
  let ?f = "\<lambda>i. i\<lparr>in_active := False, in_resolved_at := al_at a\<rparr>"
  obtain us vs where split: "rev (dk_incidents d) = us @ i # vs"
      "in_subject i = subject a \<and> in_active i"
      "\<forall>u \<in> set us. \<not> (in_subject u = subject a \<and> in_active u)"
      "update_first (\<lambda>i. in_subject i = subject a \<and> in_active i) ?f (rev (dk_incidents d)) = us @ ?f i # vs"
    using update_first_split [OF Some, of ?f] by blast
  then have inc: "dk_incidents d = rev vs @ i # rev us"
    by (metis append.assoc append_Cons append_Nil rev.simps(2) rev_append rev_rev_ident)
  have new: "dk_incidents (record_incident a m sid sn d) = rev vs @ ?f i # rev us"
    using assms Some split(4) by (simp add: record_incident_def)
  have none: "filter (\<lambda>i. in_subject i = subject a \<and> in_active i) (rev us) = []"
    using split(3) by (auto simp: filter_empty_conv)
  show ?thesis
    unfolding new inc using none split(2) by (auto simp: butlast_append)
qed

end
