(* ===== verification/Delivery.thy ===== *)
theory Delivery
  imports Incidents
begin

text \<open>
  Sending alerts (\<open>internal/coordinator/delivery.go\<close>): immediate delivery, the outbox with its
  retries, escalations, and what happens when a suppression ends (\<open>releaseSuppressions\<close> and
  \<open>emit\<close> of \<open>operations.go\<close>). What a notifier answers is a parameter: \<open>send\<close> for an immediate
  delivery, \<open>attempt\<close> (with the time the attempt ended) for one from the outbox. Every call of a
  notifier is an event of the result.
\<close>

section \<open>Retry delays\<close>

definition retry_initial :: "'c desk_config_scheme \<Rightarrow> duration" where
  "retry_initial cfg = (if dc_retry_initial cfg > 0 then dc_retry_initial cfg else default_retry_initial)"

definition retry_max :: "'c desk_config_scheme \<Rightarrow> duration" where
  "retry_max cfg = (if dc_retry_max cfg > 0 then dc_retry_max cfg else default_retry_max)"

text \<open>The loop, with the number of rounds \<open>i < attempts\<close> leaves; the doubling is 64-bit.\<close>

fun retry_loop :: "duration \<Rightarrow> nat \<Rightarrow> duration \<Rightarrow> duration" where
  "retry_loop mx 0 delay = (if delay > mx then mx else delay)"
| "retry_loop mx (Suc n) delay =
     (if \<not> delay < mx then (if delay > mx then mx else delay)
      else if delay > quot mx 2 then mx
      else retry_loop mx n (wrap64 (delay * 2)))"

definition retry_delay :: "'c desk_config_scheme \<Rightarrow> nat \<Rightarrow> duration" where
  "retry_delay cfg attempts = retry_loop (retry_max cfg) (attempts - 1) (retry_initial cfg)"

lemma min_double: "(a::int) \<le> mx \<Longrightarrow> min (2 * min a mx) mx = min (2 * a) mx" if "0 \<le> mx"
  using that by (auto simp: min_def)

lemma retry_loop_min:
  "0 < delay \<Longrightarrow> 0 < mx \<Longrightarrow> mx \<le> max_duration \<Longrightarrow> retry_loop mx n delay = min (delay * 2 ^ n) mx"
proof (induction mx n delay rule: retry_loop.induct)
  case (1 mx delay)
  then show ?case by (auto simp: min_def)
next
  case (2 mx n delay)
  have big: "delay * 2 \<le> delay * 2 ^ Suc n" using "2.prems" by simp
  show ?case
  proof (cases "delay < mx \<and> delay \<le> mx div 2")
    case True
    then have "delay * 2 \<le> mx" by linarith
    with "2.prems" have w: "wrap64 (delay * 2) = delay * 2"
      by (intro wrap64_id) (auto simp: min_duration_def)
    have "retry_loop mx n (wrap64 (delay * 2)) = min (wrap64 (delay * 2) * 2 ^ n) mx"
      using "2.prems" True w by (intro "2.IH") auto
    with True "2.prems" w show ?thesis by (simp add: mult.assoc)
  next
    case False
    then have "mx \<le> delay * 2" using "2.prems" by linarith
    with big have "min (delay * 2 ^ Suc n) mx = mx" by (simp add: min_def)
    moreover have "retry_loop mx (Suc n) delay = mx \<or> (\<not> delay < mx)"
      using False "2.prems" by auto
    ultimately show ?thesis by (auto simp: min_def)
  qed
qed

section \<open>The outbox\<close>

datatype event = Sent nat string alert | Failed nat string alert delivery_error

definition empty_delivery :: delivery where
  "empty_delivery = \<lparr>dl_id = 0, dl_destination = [], dl_alert = empty_alert, dl_created_at = zero_time,
     dl_next_attempt = zero_time, dl_attempts = 0, dl_last_attempt = zero_time,
     dl_last_error = NoError, dl_escalation = [], dl_incident_id = 0\<rparr>"

definition destination_pending :: "'a desk_scheme \<Rightarrow> string \<Rightarrow> bool" where
  "destination_pending d dest = list_ex (\<lambda>q. dl_destination q = dest) (dk_outbox d)"

definition enqueue_delivery :: "time \<Rightarrow> delivery \<Rightarrow> 'a desk_scheme \<Rightarrow> 'a desk_scheme" where
  "enqueue_delivery now q d =
     (let n = Suc (dk_next_delivery d) in
      d\<lparr>dk_next_delivery := n,
        dk_outbox := dk_outbox d @ [q\<lparr>dl_id := n, dl_created_at := now,
          dl_next_attempt := (if is_zero (dl_next_attempt q) then now else dl_next_attempt q)\<rparr>]\<rparr>)"

definition known_destination :: "'c desk_config_scheme \<Rightarrow> string \<Rightarrow> bool" where
  "known_destination cfg dest \<longleftrightarrow> dest = ''default'' \<or> List.member (dc_destinations cfg) dest"

definition deliver_one :: "'c desk_config_scheme \<Rightarrow> time \<Rightarrow> (string \<Rightarrow> alert \<Rightarrow> string option) \<Rightarrow> alert \<Rightarrow>
    'a desk_scheme \<times> event list \<Rightarrow> string \<Rightarrow> 'a desk_scheme \<times> event list" where
  "deliver_one cfg now send a de dest =
     (let (d, evs) = de in
      if destination_pending d dest then
        (enqueue_delivery now (empty_delivery\<lparr>dl_destination := dest, dl_alert := a,
           dl_next_attempt := now\<rparr>) d, evs)
      else
        (case (if known_destination cfg dest then map_option NotifierError (send dest a)
               else Some (Unavailable dest)) of
           None \<Rightarrow> (d, evs @ [Sent 0 dest a])
         | Some err \<Rightarrow>
             (enqueue_delivery now (empty_delivery\<lparr>dl_destination := dest, dl_alert := a,
                dl_next_attempt := now + retry_initial cfg, dl_attempts := 1,
                dl_last_attempt := now, dl_last_error := err\<rparr>) d,
              evs @ [Failed 0 dest a err])))"

definition deliver :: "'c desk_config_scheme \<Rightarrow> time \<Rightarrow> (string \<Rightarrow> alert \<Rightarrow> string option) \<Rightarrow> alert \<Rightarrow>
    'a desk_scheme \<Rightarrow> 'a desk_scheme \<times> event list" where
  "deliver cfg now send a d =
     foldl (deliver_one cfg now send a) (d, []) (delivery_targets (dc_destinations cfg) (dc_routes cfg) a)"

definition emit :: "(string \<Rightarrow> duration option) \<Rightarrow> 'c desk_config_scheme \<Rightarrow> time \<Rightarrow>
    (string \<Rightarrow> alert \<Rightarrow> string option) \<Rightarrow> alert \<Rightarrow> 'a desk_scheme \<Rightarrow> 'a desk_scheme \<times> event list" where
  "emit parse cfg now send a d =
     (let m = active_maintenance parse cfg now d a; (sid, sname) = active_silence now d a;
          d = record_incident a m sid sname d
      in if m \<noteq> [] \<or> sid \<noteq> 0 then (d, []) else deliver cfg now send a d)"

definition released_alert :: "time \<Rightarrow> incident \<Rightarrow> alert" where
  "released_alert now i = (in_alert i)\<lparr>al_at := now,
     al_detail := trim_space (al_detail (in_alert i) @
       ''; suppression ended and the incident is still active'')\<rparr>"

definition release_due :: "(string \<Rightarrow> duration option) \<Rightarrow> 'c desk_config_scheme \<Rightarrow> time \<Rightarrow>
    'a desk_scheme \<Rightarrow> incident \<Rightarrow> bool" where
  "release_due parse cfg now d i \<longleftrightarrow>
     in_active i \<and> in_suppressed i \<and> \<not> suppression_active parse cfg now d i"

definition deliver_all :: "'c desk_config_scheme \<Rightarrow> time \<Rightarrow> (string \<Rightarrow> alert \<Rightarrow> string option) \<Rightarrow>
    alert list \<Rightarrow> 'a desk_scheme \<Rightarrow> 'a desk_scheme \<times> event list" where
  "deliver_all cfg now send as d =
     foldl (\<lambda>(d, evs) a. let (d', evs') = deliver cfg now send a d in (d', evs @ evs')) (d, []) as"

definition release_suppressions :: "(string \<Rightarrow> duration option) \<Rightarrow> 'c desk_config_scheme \<Rightarrow> time \<Rightarrow>
    (string \<Rightarrow> alert \<Rightarrow> string option) \<Rightarrow> 'a desk_scheme \<Rightarrow> 'a desk_scheme \<times> event list" where
  "release_suppressions parse cfg now send d =
     (let due = release_due parse cfg now d;
          alerts = map (released_alert now) (filter due (dk_incidents d));
          incidents = map (\<lambda>i. if due i then i\<lparr>in_suppressed := False, in_maintenance := [],
            in_silence_id := 0, in_silence := []\<rparr> else i) (dk_incidents d)
      in deliver_all cfg now send alerts (d\<lparr>dk_incidents := incidents\<rparr>))"

section \<open>Escalations\<close>

definition escalation_key :: "nat \<Rightarrow> string \<Rightarrow> string" where
  "escalation_key iid policy = itoa iid @ ''/'' @ policy"

definition escalates :: "time \<Rightarrow> incident \<Rightarrow> escalation_policy \<Rightarrow> bool" where
  "escalates now i p \<longleftrightarrow>
     in_active i \<and> in_acknowledged_at i = None \<and> \<not> in_suppressed i \<and>
     \<not> now < in_opened_at i + ep_after p \<and>
     selector_matches (in_alert i) (ep_checks p) (ep_components p) (ep_probers p) (ep_kinds p) \<and>
     \<not> (in_kind i = KindWarning \<and> \<not> List.member (ep_kinds p) KindWarning)"

definition escalation_delivery :: "time \<Rightarrow> nat \<Rightarrow> incident \<Rightarrow> escalation_policy \<Rightarrow> delivery" where
  "escalation_delivery now n i p =
     empty_delivery\<lparr>dl_id := n, dl_destination := ep_destination p,
       dl_alert := (in_alert i)\<lparr>al_at := now, al_escalation := ep_name p,
         al_detail := trim_space (al_detail (in_alert i) @ ''; escalation '' @ ep_name p @
           '' after '' @ dur_string (ep_after p))\<rparr>,
       dl_created_at := now, dl_next_attempt := now, dl_escalation := ep_name p,
       dl_incident_id := in_id i\<rparr>"

definition escalate :: "time \<Rightarrow> 'a desk_scheme \<Rightarrow> incident \<times> escalation_policy \<Rightarrow> 'a desk_scheme" where
  "escalate now d ip =
     (let (i, p) = ip; key = escalation_key (in_id i) (ep_name p) in
      if map_of (dk_escalated d) key \<noteq> None \<or> \<not> escalates now i p then d
      else
        (let n = Suc (dk_next_delivery d) in
         d\<lparr>dk_next_delivery := n, dk_outbox := dk_outbox d @ [escalation_delivery now n i p],
           dk_escalated := AList.update key now (dk_escalated d)\<rparr>))"

definition schedule_escalations :: "'c desk_config_scheme \<Rightarrow> time \<Rightarrow> 'a desk_scheme \<Rightarrow> 'a desk_scheme" where
  "schedule_escalations cfg now d =
     foldl (escalate now) d (List.product (dk_incidents d) (dc_escalations cfg))"

definition escalation_relevant :: "'a desk_scheme \<Rightarrow> delivery \<Rightarrow> bool" where
  "escalation_relevant d q =
     (case find (\<lambda>i. in_id i = dl_incident_id q) (dk_incidents d) of
        None \<Rightarrow> False
      | Some i \<Rightarrow> in_active i \<and> in_acknowledged_at i = None \<and> \<not> in_suppressed i)"

definition remove_delivery :: "nat \<Rightarrow> delivery list \<Rightarrow> delivery list" where
  "remove_delivery n qs = (case delete_first (\<lambda>q. dl_id q = n) qs of None \<Rightarrow> qs | Some qs' \<Rightarrow> qs')"

text \<open>One item of a pass over the outbox: the destinations that are blocked, the state, the calls.\<close>

definition process_item :: "'c desk_config_scheme \<Rightarrow> time \<Rightarrow> (delivery \<Rightarrow> time \<times> string option) \<Rightarrow>
    string list \<times> 'a desk_scheme \<times> event list \<Rightarrow> delivery \<Rightarrow> string list \<times> 'a desk_scheme \<times> event list"
where
  "process_item cfg now attempt bde q =
     (let (blocked, d, evs) = bde in
      if List.member blocked (dl_destination q) then (blocked, d, evs)
      else if dl_next_attempt q > now then (dl_destination q # blocked, d, evs)
      else if dl_escalation q \<noteq> [] \<and> \<not> escalation_relevant d q
      then (blocked, d\<lparr>dk_outbox := remove_delivery (dl_id q) (dk_outbox d)\<rparr>, evs)
      else
        (let (at, answer) = attempt q in
         case (if known_destination cfg (dl_destination q) then map_option NotifierError answer
               else Some (Unavailable (dl_destination q))) of
           None \<Rightarrow>
             (blocked, d\<lparr>dk_outbox := remove_delivery (dl_id q) (dk_outbox d)\<rparr>,
              evs @ [Sent (dl_id q) (dl_destination q) (dl_alert q)])
         | Some err \<Rightarrow>
             (dl_destination q # blocked,
              d\<lparr>dk_outbox := update_first (\<lambda>x. dl_id x = dl_id q)
                  (\<lambda>x. x\<lparr>dl_attempts := Suc (dl_attempts x), dl_last_attempt := at,
                         dl_last_error := err,
                         dl_next_attempt := at + retry_delay cfg (Suc (dl_attempts x))\<rparr>)
                  (dk_outbox d)\<rparr>,
              evs @ [Failed (dl_id q) (dl_destination q) (dl_alert q) err])))"

definition process_deliveries :: "'c desk_config_scheme \<Rightarrow> time \<Rightarrow> (delivery \<Rightarrow> time \<times> string option) \<Rightarrow>
    'a desk_scheme \<Rightarrow> 'a desk_scheme \<times> event list" where
  "process_deliveries cfg now attempt d =
     (let d = schedule_escalations cfg now d;
          (blocked, d, evs) = foldl (process_item cfg now attempt) ([], d, []) (sort_key dl_id (dk_outbox d))
      in (d, evs))"

section \<open>The outbox stays well formed\<close>

definition outbox_ok :: "'a desk_scheme \<Rightarrow> bool" where
  "outbox_ok d \<longleftrightarrow> sorted_wrt (<) (map dl_id (dk_outbox d)) \<and>
     (\<forall>q \<in> set (dk_outbox d). 1 \<le> dl_id q \<and> dl_id q \<le> dk_next_delivery d)"

lemma outbox_append:
  fixes d :: "'a desk_scheme" and d' :: "'b desk_scheme"
  assumes "outbox_ok d" "dk_outbox d' = dk_outbox d @ [q]" "dl_id q = Suc (dk_next_delivery d)"
    "dk_next_delivery d' = Suc (dk_next_delivery d)"
  shows "outbox_ok d'"
proof -
  have "\<forall>x \<in> set (dk_outbox d). dl_id x < Suc (dk_next_delivery d)"
    using assms(1) by (auto simp: outbox_ok_def le_imp_less_Suc)
  with assms show ?thesis by (auto simp: outbox_ok_def sorted_wrt_append)
qed

lemma outbox_filter:
  fixes d :: "'a desk_scheme" and d' :: "'b desk_scheme"
  assumes "outbox_ok d" "dk_outbox d' = filter P (dk_outbox d)" "dk_next_delivery d' = dk_next_delivery d"
  shows "outbox_ok d'"
  using assms by (auto simp: outbox_ok_def sorted_wrt_map sorted_wrt_filter)

lemma outbox_same_ids:
  fixes d :: "'a desk_scheme" and d' :: "'b desk_scheme"
  assumes "outbox_ok d" "map dl_id (dk_outbox d') = map dl_id (dk_outbox d)"
    "dk_next_delivery d' = dk_next_delivery d"
  shows "outbox_ok d'"
proof -
  from assms(2) have "dl_id ` set (dk_outbox d') = dl_id ` set (dk_outbox d)" by (metis list.set_map)
  then have "\<exists>y \<in> set (dk_outbox d). dl_id y = dl_id x" if "x \<in> set (dk_outbox d')" for x
    using that by (metis imageE imageI)
  then have "\<forall>x \<in> set (dk_outbox d'). 1 \<le> dl_id x \<and> dl_id x \<le> dk_next_delivery d"
    using assms(1) unfolding outbox_ok_def by metis
  with assms show ?thesis by (simp add: outbox_ok_def)
qed

lemma enqueue_outbox:
  "dk_outbox (enqueue_delivery now q d) = dk_outbox d @
     [q\<lparr>dl_id := Suc (dk_next_delivery d), dl_created_at := now,
        dl_next_attempt := (if is_zero (dl_next_attempt q) then now else dl_next_attempt q)\<rparr>]"
  "dk_next_delivery (enqueue_delivery now q d) = Suc (dk_next_delivery d)"
  "dk_incidents (enqueue_delivery now q d) = dk_incidents d"
  "dk_escalated (enqueue_delivery now q d) = dk_escalated d"
  "dk_silences (enqueue_delivery now q d) = dk_silences d"
  "dk_maintenance (enqueue_delivery now q d) = dk_maintenance d"
  "dk_next_incident (enqueue_delivery now q d) = dk_next_incident d"
  "dk_next_silence (enqueue_delivery now q d) = dk_next_silence d"
  by (simp_all add: enqueue_delivery_def Let_def)

lemma enqueue_ok: "outbox_ok d \<Longrightarrow> outbox_ok (enqueue_delivery now q d)"
  by (rule outbox_append) (auto simp: enqueue_outbox)

lemma deliver_one_cases:
  obtains q where "deliver_one cfg now send a (d, evs) dest = (enqueue_delivery now q d, evs)"
      "dl_destination q = dest" "dl_alert q = a" "destination_pending d dest" "dl_escalation q = []"
  | q err where "deliver_one cfg now send a (d, evs) dest =
        (enqueue_delivery now q d, evs @ [Failed 0 dest a err])"
      "dl_destination q = dest" "dl_alert q = a" "\<not> destination_pending d dest" "dl_escalation q = []"
  | "deliver_one cfg now send a (d, evs) dest = (d, evs @ [Sent 0 dest a])"
      "\<not> destination_pending d dest" "known_destination cfg dest" "send dest a = None"
  by (cases "destination_pending d dest"; cases "known_destination cfg dest"; cases "send dest a")
    (auto simp: deliver_one_def empty_delivery_def)

lemma deliver_fold_ok:
  "outbox_ok d \<Longrightarrow> outbox_ok (fst (foldl (deliver_one cfg now send a) (d, evs) ts))"
proof (induction ts arbitrary: d evs)
  case Nil
  then show ?case by simp
next
  case (Cons t ts)
  show ?case
    by (cases rule: deliver_one_cases [of cfg now send a d evs t])
      (simp_all add: Cons.IH Cons.prems enqueue_ok)
qed

lemma deliver_ok: "outbox_ok d \<Longrightarrow> outbox_ok (fst (deliver cfg now send a d))"
  unfolding deliver_def by (rule deliver_fold_ok)

text \<open>Every target is either told at once or has the alert in its queue; nothing is lost.\<close>

definition told :: "'a desk_scheme \<times> event list \<Rightarrow> string \<Rightarrow> alert \<Rightarrow> bool" where
  "told r dest a \<longleftrightarrow> Sent 0 dest a \<in> set (snd r) \<or>
     (\<exists>q \<in> set (dk_outbox (fst r)). dl_destination q = dest \<and> dl_alert q = a)"

lemma deliver_one_told:
  "told (deliver_one cfg now send a r dest) dest a \<and>
   (told r x b \<longrightarrow> told (deliver_one cfg now send a r dest) x b)"
proof -
  obtain d evs where r: "r = (d, evs)" by (cases r)
  show ?thesis
    unfolding r
    by (cases rule: deliver_one_cases [of cfg now send a d evs dest])
      (auto simp: told_def enqueue_outbox)
qed

lemma deliver_fold_told:
  "told r x b \<or> (b = a \<and> x \<in> set ts) \<Longrightarrow> told (foldl (deliver_one cfg now send a) r ts) x b"
proof (induction ts arbitrary: r)
  case Nil
  then show ?case by simp
next
  case (Cons t ts)
  then have "told (deliver_one cfg now send a r t) x b \<or> (b = a \<and> x \<in> set ts)"
    using deliver_one_told [where cfg = cfg and now = now and send = send and a = a and r = r
        and dest = t and x = x and b = b] by (cases "x = t \<and> b = a") auto
  from Cons.IH [OF this] show ?case by simp
qed

lemma deliver_reaches:
  "dest \<in> set (delivery_targets (dc_destinations cfg) (dc_routes cfg) a) \<Longrightarrow>
   told (deliver cfg now send a d) dest a"
  unfolding deliver_def by (rule deliver_fold_told) simp

text \<open>An alert never overtakes one that is still queued for the same destination.\<close>

lemma deliver_fold_frame:
  "foldl (deliver_one cfg now send a) (d, evs) ts = (d', evs') \<Longrightarrow>
   (\<exists>new. dk_outbox d' = dk_outbox d @ new \<and> (\<forall>q \<in> set new. dl_alert q = a \<and> dl_escalation q = [])) \<and>
   dk_incidents d' = dk_incidents d \<and> dk_escalated d' = dk_escalated d \<and>
   dk_silences d' = dk_silences d \<and> dk_maintenance d' = dk_maintenance d \<and>
   dk_next_incident d' = dk_next_incident d \<and> dk_next_silence d' = dk_next_silence d \<and>
   (\<forall>e \<in> set evs'. e \<in> set evs \<or>
      (\<exists>t. (e = Sent 0 t a \<or> (\<exists>err. e = Failed 0 t a err)) \<and> \<not> destination_pending d t))"
proof (induction ts arbitrary: d evs)
  case Nil
  then show ?case by auto
next
  case (Cons t ts)
  show ?case
  proof (cases rule: deliver_one_cases [of cfg now send a d evs t])
    case (1 q)
    with Cons.prems have "foldl (deliver_one cfg now send a) (enqueue_delivery now q d, evs) ts = (d', evs')"
      by simp
    from Cons.IH [OF this] 1 show ?thesis
      by (auto simp: enqueue_outbox destination_pending_def)
  next
    case (2 q err)
    with Cons.prems have "foldl (deliver_one cfg now send a)
        (enqueue_delivery now q d, evs @ [Failed 0 t a err]) ts = (d', evs')" by simp
    from Cons.IH [OF this] 2 show ?thesis
      by (auto simp: enqueue_outbox destination_pending_def)
  next
    case 3
    with Cons.prems have "foldl (deliver_one cfg now send a) (d, evs @ [Sent 0 t a]) ts = (d', evs')"
      by simp
    from Cons.IH [OF this] 3 show ?thesis by auto
  qed
qed

lemma deliver_frame:
  "deliver cfg now send a d = (d', evs') \<Longrightarrow>
   (\<exists>new. dk_outbox d' = dk_outbox d @ new \<and> (\<forall>q \<in> set new. dl_alert q = a \<and> dl_escalation q = [])) \<and>
   dk_incidents d' = dk_incidents d \<and> dk_escalated d' = dk_escalated d \<and>
   dk_silences d' = dk_silences d \<and> dk_maintenance d' = dk_maintenance d \<and>
   dk_next_incident d' = dk_next_incident d \<and> dk_next_silence d' = dk_next_silence d \<and>
   (\<forall>e \<in> set evs'. \<exists>t. (e = Sent 0 t a \<or> (\<exists>err. e = Failed 0 t a err)) \<and> \<not> destination_pending d t)"
  unfolding deliver_def by (drule deliver_fold_frame) simp

section \<open>A pass over the outbox\<close>

lemma delete_first_distinct:
  "distinct (map f xs) \<Longrightarrow>
   (case delete_first (\<lambda>x. f x = n) xs of None \<Rightarrow> xs | Some ys \<Rightarrow> ys) = filter (\<lambda>x. f x \<noteq> n) xs"
proof (induction xs)
  case Nil
  then show ?case by simp
next
  case (Cons x xs)
  show ?case
  proof (cases "f x = n")
    case True
    with Cons.prems have "n \<notin> f ` set xs" by simp
    then have "filter (\<lambda>x. f x \<noteq> n) xs = xs" by (auto simp: filter_id_conv)
    with True show ?thesis by simp
  next
    case False
    with Cons show ?thesis by (auto split: option.splits)
  qed
qed

lemma remove_delivery_filter:
  "outbox_ok d \<Longrightarrow> remove_delivery n (dk_outbox d) = filter (\<lambda>q. dl_id q \<noteq> n) (dk_outbox d)"
  by (simp add: remove_delivery_def delete_first_distinct outbox_ok_def strict_sorted_iff)

lemma process_item_cases:
  obtains (skip) "process_item cfg now attempt (bl, d, evs) q = (bl, d, evs)" "dl_destination q \<in> set bl"
  | (later) "process_item cfg now attempt (bl, d, evs) q = (dl_destination q # bl, d, evs)"
      "dl_destination q \<notin> set bl" "now < dl_next_attempt q"
  | (stale) "process_item cfg now attempt (bl, d, evs) q =
        (bl, d\<lparr>dk_outbox := remove_delivery (dl_id q) (dk_outbox d)\<rparr>, evs)"
      "dl_destination q \<notin> set bl" "dl_next_attempt q \<le> now"
      "dl_escalation q \<noteq> []" "\<not> escalation_relevant d q"
  | (sent) "process_item cfg now attempt (bl, d, evs) q =
        (bl, d\<lparr>dk_outbox := remove_delivery (dl_id q) (dk_outbox d)\<rparr>,
         evs @ [Sent (dl_id q) (dl_destination q) (dl_alert q)])"
      "dl_destination q \<notin> set bl" "dl_next_attempt q \<le> now"
      "dl_escalation q = [] \<or> escalation_relevant d q" "snd (attempt q) = None"
  | (failed) at err where "process_item cfg now attempt (bl, d, evs) q =
        (dl_destination q # bl,
         d\<lparr>dk_outbox := update_first (\<lambda>x. dl_id x = dl_id q)
                  (\<lambda>x. x\<lparr>dl_attempts := Suc (dl_attempts x), dl_last_attempt := at,
                         dl_last_error := err,
                         dl_next_attempt := at + retry_delay cfg (Suc (dl_attempts x))\<rparr>)
                  (dk_outbox d)\<rparr>,
         evs @ [Failed (dl_id q) (dl_destination q) (dl_alert q) err])"
      "dl_destination q \<notin> set bl" "dl_next_attempt q \<le> now"
      "dl_escalation q = [] \<or> escalation_relevant d q"
      "\<not> known_destination cfg (dl_destination q) \<or> snd (attempt q) \<noteq> None"
proof (cases "dl_destination q \<in> set bl \<or> now < dl_next_attempt q \<or>
    (dl_escalation q \<noteq> [] \<and> \<not> escalation_relevant d q)")
  case True
  then consider "dl_destination q \<in> set bl" | "dl_destination q \<notin> set bl" "now < dl_next_attempt q"
    | "dl_destination q \<notin> set bl" "dl_next_attempt q \<le> now" "dl_escalation q \<noteq> []"
      "\<not> escalation_relevant d q" by linarith
  then show ?thesis
  proof cases
    case 1
    then show ?thesis by (intro skip) (simp_all add: process_item_def)
  next
    case 2
    then show ?thesis by (intro later) (simp_all add: process_item_def)
  next
    case 3
    then show ?thesis by (intro stale) (simp_all add: process_item_def)
  qed
next
  case False
  obtain at answer where at: "attempt q = (at, answer)" by (cases "attempt q")
  show ?thesis
  proof (cases "known_destination cfg (dl_destination q) \<and> answer = None")
    case True
    with False at show ?thesis using sent by (auto simp: process_item_def)
  next
    case neg: False
    then obtain err where "(if known_destination cfg (dl_destination q) then map_option NotifierError answer
               else Some (Unavailable (dl_destination q))) = Some err"
      by (cases "known_destination cfg (dl_destination q)"; cases answer) auto
    with False neg at show ?thesis using failed [of at err] by (auto simp: process_item_def)
  qed
qed

definition signature :: "'a desk_scheme \<Rightarrow> (nat \<times> string) list" where
  "signature d = map (\<lambda>q. (dl_id q, dl_destination q)) (dk_outbox d)"

lemma signature_update:
  "signature (d\<lparr>dk_outbox := update_first P
     (\<lambda>x. x\<lparr>dl_attempts := f x, dl_last_attempt := t, dl_last_error := e, dl_next_attempt := g x\<rparr>)
     (dk_outbox d)\<rparr>) = signature d"
  unfolding signature_def by (simp add: update_first_map)

lemma signature_remove:
  "outbox_ok d \<Longrightarrow>
   signature (d\<lparr>dk_outbox := remove_delivery n (dk_outbox d)\<rparr>) = filter (\<lambda>s. fst s \<noteq> n) (signature d)"
  by (simp add: signature_def remove_delivery_filter filter_map comp_def)

lemma process_item_ok:
  "outbox_ok d \<Longrightarrow> process_item cfg now attempt (bl, d, evs) q = (bl', d', evs') \<Longrightarrow> outbox_ok d'"
proof (cases rule: process_item_cases [of cfg now attempt bl d evs q])
  case (failed at err)
  assume "outbox_ok d" and "process_item cfg now attempt (bl, d, evs) q = (bl', d', evs')"
  with failed(1) show ?thesis by (auto intro: outbox_same_ids simp: update_first_map)
qed (auto simp: remove_delivery_filter intro: outbox_filter)

text \<open>The state of a pass: what is left of the items already visited is blocked, and no call went
  out before an older item for the same destination was done.\<close>

definition pass_inv :: "nat set \<Rightarrow> string list \<times> 'a desk_scheme \<times> event list \<Rightarrow> bool" where
  "pass_inv visited bde \<longleftrightarrow> (case bde of (bl, d, evs) \<Rightarrow>
     outbox_ok d \<and>
     (\<forall>n dest. (n, dest) \<in> set (signature d) \<longrightarrow> n \<in> visited \<longrightarrow> dest \<in> set bl) \<and>
     (\<forall>n dest a. Sent n dest a \<in> set evs \<longrightarrow> n \<in> visited) \<and>
     (\<forall>n dest a k. Sent n dest a \<in> set evs \<longrightarrow> (k, dest) \<in> set (signature d) \<longrightarrow> n < k))"

lemma process_item_inv:
  assumes inv: "pass_inv V (bl, d, evs)"
    and later: "\<forall>n \<in> V. n < dl_id q"
    and rest: "\<forall>(n, x) \<in> set (signature d). n \<in> V \<or> dl_id q \<le> n"
    and own: "\<forall>x \<in> set (dk_outbox d). dl_id x = dl_id q \<longrightarrow> dl_destination x = dl_destination q"
  shows "pass_inv (insert (dl_id q) V) (process_item cfg now attempt (bl, d, evs) q)"
proof -
  have own': "x = dl_destination q" if "(dl_id q, x) \<in> set (signature d)" for x
    using own that by (auto simp: signature_def)
  have ok: "outbox_ok d"
    and i1: "\<And>n dest. (n, dest) \<in> set (signature d) \<Longrightarrow> n \<in> V \<Longrightarrow> dest \<in> set bl"
    and i2: "\<And>n dest a. Sent n dest a \<in> set evs \<Longrightarrow> n \<in> V"
    and i3: "\<And>n dest a k. Sent n dest a \<in> set evs \<Longrightarrow> (k, dest) \<in> set (signature d) \<Longrightarrow> n < k"
    using inv unfolding pass_inv_def prod.case by blast+
  show ?thesis
  proof (cases rule: process_item_cases [of cfg now attempt bl d evs q])
    case skip
    then show ?thesis
      unfolding skip(1) pass_inv_def prod.case using ok by (auto dest: i1 i2 i3 own')
  next
    case later
    show ?thesis
      unfolding later(1) pass_inv_def prod.case using ok by (auto dest: i1 i2 i3 own')
  next
    case stale
    show ?thesis
      unfolding stale(1) pass_inv_def prod.case signature_remove [OF ok]
      using process_item_ok [OF ok stale(1)] by (auto dest: i1 i2 i3)
  next
    case sent
    have "dl_id q < n" if "(n, dl_destination q) \<in> set (signature d)" "n \<noteq> dl_id q" for n
      using that sent(2) rest i1 by fastforce
    then show ?thesis
      unfolding sent(1) pass_inv_def prod.case signature_remove [OF ok]
      using process_item_ok [OF ok sent(1)] by (auto dest: i1 i2 i3)
  next
    case (failed at err)
    show ?thesis
      unfolding failed(1) pass_inv_def prod.case signature_update
      using process_item_ok [OF ok failed(1)] by (auto dest: i1 i2 i3 own')
  qed
qed

lemma process_item_sub:
  "outbox_ok d \<Longrightarrow> process_item cfg now attempt (bl, d, evs) q = (bl', d', evs') \<Longrightarrow>
   set (signature d') \<subseteq> set (signature d)"
  by (cases rule: process_item_cases [of cfg now attempt bl d evs q])
    (auto simp: signature_remove signature_update)

lemma process_fold_inv:
  "pass_inv V bde \<Longrightarrow> sorted_wrt (<) (map dl_id qs) \<Longrightarrow> (\<forall>n \<in> V. \<forall>q \<in> set qs. n < dl_id q) \<Longrightarrow>
   (\<forall>s \<in> set (signature (fst (snd bde))). fst s \<in> V \<or> s \<in> set (map (\<lambda>q. (dl_id q, dl_destination q)) qs)) \<Longrightarrow>
   pass_inv (V \<union> dl_id ` set qs) (foldl (process_item cfg now attempt) bde qs)"
proof (induction qs arbitrary: V bde)
  case Nil
  then show ?case by simp
next
  case (Cons q qs)
  obtain bl d evs where bde: "bde = (bl, d, evs)" by (cases bde)
  obtain bl' d' evs' where step: "process_item cfg now attempt (bl, d, evs) q = (bl', d', evs')"
    by (cases "process_item cfg now attempt (bl, d, evs) q")
  have ok: "outbox_ok d" using Cons.prems(1) by (simp add: bde pass_inv_def)
  have sorted: "\<forall>x \<in> set qs. dl_id q < dl_id x" using Cons.prems(2) by simp
  have sig: "\<forall>(n, x) \<in> set (signature d). n \<in> V \<or> (n = dl_id q \<and> x = dl_destination q) \<or>
      (n, x) \<in> set (map (\<lambda>q. (dl_id q, dl_destination q)) qs)"
    using Cons.prems(4) by (auto simp: bde)
  have "pass_inv (insert (dl_id q) V) (process_item cfg now attempt (bl, d, evs) q)"
  proof (rule process_item_inv)
    show "pass_inv V (bl, d, evs)" using Cons.prems(1) bde by simp
    show "\<forall>n \<in> V. n < dl_id q" using Cons.prems(3) by simp
    show "\<forall>(n, x) \<in> set (signature d). n \<in> V \<or> dl_id q \<le> n"
      using sig sorted by (auto simp: less_imp_le)
    show "\<forall>x \<in> set (dk_outbox d). dl_id x = dl_id q \<longrightarrow> dl_destination x = dl_destination q"
    proof (intro ballI impI)
      fix x assume x: "x \<in> set (dk_outbox d)" "dl_id x = dl_id q"
      have "(dl_id x, dl_destination x) \<in> set (signature d)" using x(1) by (simp add: signature_def)
      then have "(dl_id q, dl_destination x) \<in> set (signature d)" by (simp only: x(2))
      with sig sorted Cons.prems(3) show "dl_destination x = dl_destination q" by fastforce
    qed
  qed
  then have "pass_inv (insert (dl_id q) V \<union> dl_id ` set qs)
      (foldl (process_item cfg now attempt) (bl', d', evs') qs)"
    unfolding step
  proof (rule Cons.IH)
    show "sorted_wrt (<) (map dl_id qs)" using Cons.prems(2) by simp
    show "\<forall>n \<in> insert (dl_id q) V. \<forall>x \<in> set qs. n < dl_id x" using Cons.prems(3) sorted by simp
    show "\<forall>s \<in> set (signature (fst (snd (bl', d', evs')))). fst s \<in> insert (dl_id q) V \<or>
        s \<in> set (map (\<lambda>q. (dl_id q, dl_destination q)) qs)"
      using process_item_sub [OF ok step] sig by fastforce
  qed
  then show ?case by (simp add: bde step)
qed

section \<open>Scheduling escalations\<close>

lemma escalate_cases:
  obtains "escalate now d (i, p) = d"
    "map_of (dk_escalated d) (escalation_key (in_id i) (ep_name p)) \<noteq> None \<or> \<not> escalates now i p"
  | "escalate now d (i, p) = d\<lparr>dk_next_delivery := Suc (dk_next_delivery d),
        dk_outbox := dk_outbox d @ [escalation_delivery now (Suc (dk_next_delivery d)) i p],
        dk_escalated := AList.update (escalation_key (in_id i) (ep_name p)) now (dk_escalated d)\<rparr>"
    "map_of (dk_escalated d) (escalation_key (in_id i) (ep_name p)) = None" "escalates now i p"
  by (auto simp: escalate_def Let_def)

lemma escalation_delivery_simps [simp]:
  "dl_id (escalation_delivery now n i p) = n"
  "dl_incident_id (escalation_delivery now n i p) = in_id i"
  "dl_escalation (escalation_delivery now n i p) = ep_name p"
  "dl_destination (escalation_delivery now n i p) = ep_destination p"
  by (simp_all add: escalation_delivery_def empty_delivery_def)

lemma escalate_ok: "outbox_ok d \<Longrightarrow> outbox_ok (escalate now d ip)"
proof -
  assume ok: "outbox_ok d"
  obtain i p where ip: "ip = (i, p)" by (cases ip)
  show ?thesis
    unfolding ip using ok
    by (cases rule: escalate_cases [of now d i p]) (auto intro: outbox_append)
qed

lemma escalate_fold_ok: "outbox_ok d \<Longrightarrow> outbox_ok (foldl (escalate now) d ips)"
  by (induction ips arbitrary: d) (auto simp: escalate_ok)

lemma schedule_ok: "outbox_ok d \<Longrightarrow> outbox_ok (schedule_escalations cfg now d)"
  by (simp add: schedule_escalations_def escalate_fold_ok)

definition entry_key :: "delivery \<Rightarrow> string" where
  "entry_key q = escalation_key (dl_incident_id q) (dl_escalation q)"

text \<open>What a round of scheduling adds: one entry per pair of a page-worthy incident and a policy
  that is due for it and has not fired for it before; every pair it adds is then marked.\<close>

lemma escalate_fold_new:
  "\<exists>new. dk_outbox (foldl (escalate now) d ips) = dk_outbox d @ new \<and>
     (\<forall>q \<in> set new. \<exists>(i, p) \<in> set ips. escalates now i p \<and> dl_incident_id q = in_id i \<and>
        dl_escalation q = ep_name p \<and> dl_destination q = ep_destination p) \<and>
     distinct (map entry_key new) \<and>
     (\<forall>q \<in> set new. map_of (dk_escalated d) (entry_key q) = None) \<and>
     dom (map_of (dk_escalated (foldl (escalate now) d ips))) =
       dom (map_of (dk_escalated d)) \<union> entry_key ` set new"
proof (induction ips arbitrary: d)
  case Nil
  show ?case by (intro exI [of _ "[]"]) simp
next
  case (Cons ip ips)
  obtain i p where ip: "ip = (i, p)" by (cases ip)
  show ?case
  proof (cases rule: escalate_cases [of now d i p])
    case 1
    obtain new where "dk_outbox (foldl (escalate now) d ips) = dk_outbox d @ new"
      "\<forall>q \<in> set new. \<exists>(i, p) \<in> set ips. escalates now i p \<and> dl_incident_id q = in_id i \<and>
        dl_escalation q = ep_name p \<and> dl_destination q = ep_destination p"
      "distinct (map entry_key new)"
      "\<forall>q \<in> set new. map_of (dk_escalated d) (entry_key q) = None"
      "dom (map_of (dk_escalated (foldl (escalate now) d ips))) =
       dom (map_of (dk_escalated d)) \<union> entry_key ` set new"
      using Cons.IH [of d] by blast
    with 1 ip show ?thesis by (intro exI [of _ new]) auto
  next
    case 2
    let ?d = "escalate now d (i, p)" and ?q = "escalation_delivery now (Suc (dk_next_delivery d)) i p"
    have k: "entry_key ?q = escalation_key (in_id i) (ep_name p)" by (simp add: entry_key_def)
    obtain new where new: "dk_outbox (foldl (escalate now) ?d ips) = dk_outbox ?d @ new"
      "\<forall>q \<in> set new. \<exists>(i, p) \<in> set ips. escalates now i p \<and> dl_incident_id q = in_id i \<and>
        dl_escalation q = ep_name p \<and> dl_destination q = ep_destination p"
      "distinct (map entry_key new)"
      "\<forall>q \<in> set new. map_of (dk_escalated ?d) (entry_key q) = None"
      "dom (map_of (dk_escalated (foldl (escalate now) ?d ips))) =
       dom (map_of (dk_escalated ?d)) \<union> entry_key ` set new"
      using Cons.IH [of ?d] by blast
    have esc: "map_of (dk_escalated ?d) = (map_of (dk_escalated d))(entry_key ?q \<mapsto> now)"
      using 2(1) k by (simp add: AList.update_conv')
    have fresh: "\<forall>q \<in> set new. entry_key q \<noteq> entry_key ?q \<and> map_of (dk_escalated d) (entry_key q) = None"
      using new(4) by (auto simp: esc split: if_splits)
    show ?thesis
    proof (intro exI [of _ "?q # new"] conjI)
      show "dk_outbox (foldl (escalate now) d (ip # ips)) = dk_outbox d @ ?q # new"
        using new(1) 2(1) ip by simp
      show "\<forall>q \<in> set (?q # new). \<exists>(i, p) \<in> set (ip # ips). escalates now i p \<and> dl_incident_id q = in_id i \<and>
        dl_escalation q = ep_name p \<and> dl_destination q = ep_destination p"
        using new(2) 2(3) ip by auto
      show "distinct (map entry_key (?q # new))" using new(3) fresh by auto
      show "\<forall>q \<in> set (?q # new). map_of (dk_escalated d) (entry_key q) = None"
        using fresh 2(2) k by auto
      show "dom (map_of (dk_escalated (foldl (escalate now) d (ip # ips)))) =
          dom (map_of (dk_escalated d)) \<union> entry_key ` set (?q # new)"
        using new(5) ip by (auto simp: esc)
    qed
  qed
qed

lemma schedule_new:
  "\<exists>new. dk_outbox (schedule_escalations cfg now d) = dk_outbox d @ new \<and>
     (\<forall>q \<in> set new. \<exists>i \<in> set (dk_incidents d). \<exists>p \<in> set (dc_escalations cfg). escalates now i p \<and>
        dl_incident_id q = in_id i \<and> dl_escalation q = ep_name p \<and> dl_destination q = ep_destination p) \<and>
     distinct (map entry_key new) \<and>
     (\<forall>q \<in> set new. map_of (dk_escalated d) (entry_key q) = None) \<and>
     dom (map_of (dk_escalated (schedule_escalations cfg now d))) =
       dom (map_of (dk_escalated d)) \<union> entry_key ` set new"
proof -
  obtain new where new: "dk_outbox (schedule_escalations cfg now d) = dk_outbox d @ new"
     "\<forall>q \<in> set new. \<exists>(i, p) \<in> set (List.product (dk_incidents d) (dc_escalations cfg)). escalates now i p \<and>
        dl_incident_id q = in_id i \<and> dl_escalation q = ep_name p \<and> dl_destination q = ep_destination p"
     "distinct (map entry_key new)"
     "\<forall>q \<in> set new. map_of (dk_escalated d) (entry_key q) = None"
     "dom (map_of (dk_escalated (schedule_escalations cfg now d))) =
       dom (map_of (dk_escalated d)) \<union> entry_key ` set new"
    unfolding schedule_escalations_def using escalate_fold_new by blast
  have "\<forall>q \<in> set new. \<exists>i \<in> set (dk_incidents d). \<exists>p \<in> set (dc_escalations cfg). escalates now i p \<and>
        dl_incident_id q = in_id i \<and> dl_escalation q = ep_name p \<and> dl_destination q = ep_destination p"
  proof
    fix q assume "q \<in> set new"
    with new(2) obtain i p where "(i, p) \<in> set (List.product (dk_incidents d) (dc_escalations cfg))"
      "escalates now i p" "dl_incident_id q = in_id i" "dl_escalation q = ep_name p"
      "dl_destination q = ep_destination p" by blast
    then show "\<exists>i \<in> set (dk_incidents d). \<exists>p \<in> set (dc_escalations cfg). escalates now i p \<and>
        dl_incident_id q = in_id i \<and> dl_escalation q = ep_name p \<and> dl_destination q = ep_destination p"
      by auto
  qed
  with new show ?thesis by blast
qed

lemma escalate_frame:
  "dk_incidents (escalate now d ip) = dk_incidents d"
  "dk_next_incident (escalate now d ip) = dk_next_incident d"
  "dk_silences (escalate now d ip) = dk_silences d"
  "dk_maintenance (escalate now d ip) = dk_maintenance d"
  by (cases ip; simp add: escalate_def Let_def)+

lemma schedule_frame:
  "dk_incidents (schedule_escalations cfg now d) = dk_incidents d"
proof -
  have "dk_incidents (foldl (escalate now) d ips) = dk_incidents d" for ips
    by (induction ips arbitrary: d) (auto simp: escalate_frame)
  then show ?thesis by (simp add: schedule_escalations_def)
qed

section \<open>The guarantees of a pass\<close>

lemma pass_start:
  assumes "outbox_ok d"
  shows "pass_inv (dl_id ` set (dk_outbox d))
    (foldl (process_item cfg now attempt) ([], d, []) (dk_outbox d))"
proof -
  have "pass_inv ({} \<union> dl_id ` set (dk_outbox d))
      (foldl (process_item cfg now attempt) ([], d, []) (dk_outbox d))"
    using assms by (intro process_fold_inv) (auto simp: pass_inv_def outbox_ok_def signature_def)
  then show ?thesis by simp
qed

lemma outbox_sorted: "outbox_ok d \<Longrightarrow> sort_key dl_id (dk_outbox d) = dk_outbox d"
  by (rule sort_key_id_if_sorted) (simp add: outbox_ok_def strict_sorted_iff)

lemma process_ordered:
  assumes "outbox_ok d" "process_deliveries cfg now attempt d = (d', evs)"
  shows "outbox_ok d' \<and>
    (\<forall>n dest a. Sent n dest a \<in> set evs \<longrightarrow>
       (\<forall>q \<in> set (dk_outbox d'). dl_destination q = dest \<longrightarrow> n < dl_id q))"
proof -
  let ?d = "schedule_escalations cfg now d"
  have ok: "outbox_ok ?d" by (rule schedule_ok [OF assms(1)])
  obtain bl where run: "foldl (process_item cfg now attempt) ([], ?d, []) (dk_outbox ?d) = (bl, d', evs)"
    using assms(2) by (auto simp: process_deliveries_def outbox_sorted [OF ok] Let_def split: prod.splits)
  have inv: "pass_inv (dl_id ` set (dk_outbox ?d)) (bl, d', evs)"
    using pass_start [OF ok] run by metis
  then have "outbox_ok d'" and
    i3: "\<And>n dest a k. Sent n dest a \<in> set evs \<Longrightarrow> (k, dest) \<in> set (signature d') \<Longrightarrow> n < k"
    unfolding pass_inv_def prod.case by blast+
  moreover have "(dl_id q, dl_destination q) \<in> set (signature d')" if "q \<in> set (dk_outbox d')" for q
    using that by (simp add: signature_def)
  ultimately show ?thesis by blast
qed

text \<open>When every entry is due and every notifier answers, one pass empties the outbox.\<close>

lemma process_drains_fold:
  assumes "\<forall>q \<in> set qs. dl_next_attempt q \<le> now \<and> known_destination cfg (dl_destination q) \<and>
      snd (attempt q) = None"
    and "outbox_ok d" "dk_outbox d = qs"
  shows "\<exists>d' evs'. foldl (process_item cfg now attempt) ([], d, evs) qs = ([], d', evs') \<and> dk_outbox d' = []"
  using assms
proof (induction qs arbitrary: d evs)
  case Nil
  then show ?case by simp
next
  case (Cons q qs)
  have removed: "remove_delivery (dl_id q) (dk_outbox d) = qs"
    by (simp add: remove_delivery_def Cons.prems(3))
  have tail: "outbox_ok (d\<lparr>dk_outbox := qs\<rparr>)"
    using Cons.prems(2,3) by (auto simp: outbox_ok_def)
  have step: "\<exists>evs'. process_item cfg now attempt ([], d, evs) q = ([], d\<lparr>dk_outbox := qs\<rparr>, evs')"
    by (cases rule: process_item_cases [of cfg now attempt "[]" d evs q])
      (use Cons.prems(1) in \<open>auto simp: removed\<close>)
  then obtain evs1 where "process_item cfg now attempt ([], d, evs) q = ([], d\<lparr>dk_outbox := qs\<rparr>, evs1)"
    by blast
  moreover have "\<exists>d' evs'. foldl (process_item cfg now attempt) ([], d\<lparr>dk_outbox := qs\<rparr>, evs1) qs =
      ([], d', evs') \<and> dk_outbox d' = []"
    by (rule Cons.IH [OF _ tail]) (use Cons.prems(1) in simp_all)
  ultimately show ?case by simp
qed

section \<open>Suppression\<close>

lemma emit_suppressed:
  assumes "active_maintenance parse cfg now d a \<noteq> [] \<or> fst (active_silence now d a) \<noteq> 0"
  shows "emit parse cfg now send a d =
    (record_incident a (active_maintenance parse cfg now d a) (fst (active_silence now d a))
       (snd (active_silence now d a)) d, [])"
  using assms by (auto simp: emit_def Let_def split: prod.splits)

lemma emit_delivered:
  assumes "active_maintenance parse cfg now d a = []" "fst (active_silence now d a) = 0"
  shows "emit parse cfg now send a d =
    deliver cfg now send a (record_incident a [] 0 (snd (active_silence now d a)) d)"
  using assms by (auto simp: emit_def Let_def split: prod.splits)

lemma record_outbox: "set (dk_outbox (record_incident a m sid sn d)) \<subseteq> set (dk_outbox d)"
  by (auto simp: record_incident_def cancel_escalations_def Let_def split: option.splits)

lemma record_outbox_ok: "outbox_ok d \<Longrightarrow> outbox_ok (record_incident a m sid sn d)"
proof -
  assume ok: "outbox_ok d"
  have "\<exists>P. dk_outbox (record_incident a m sid sn d) = filter P (dk_outbox d)"
    by (auto simp: record_incident_def cancel_escalations_def Let_def split: option.splits
        intro: exI [of _ "\<lambda>_. True"])
  moreover have "dk_next_delivery (record_incident a m sid sn d) = dk_next_delivery d"
    by (auto simp: record_incident_def Let_def split: option.splits)
  ultimately show ?thesis using outbox_filter [OF ok] by blast
qed

lemma emit_ok: "outbox_ok d \<Longrightarrow> outbox_ok (fst (emit parse cfg now send a d))"
  by (auto simp: emit_def Let_def deliver_ok record_outbox_ok split: prod.splits)

lemma deliver_all_step:
  "foldl (\<lambda>(d, evs) a. let (d', evs') = deliver cfg now send a d in (d', evs @ evs')) (d, evs) as =
     (fst (deliver_all cfg now send as d), evs @ snd (deliver_all cfg now send as d))"
proof (induction as arbitrary: d evs)
  case Nil
  then show ?case by (simp add: deliver_all_def)
next
  case (Cons a as)
  obtain d1 e1 where d1: "deliver cfg now send a d = (d1, e1)" by (cases "deliver cfg now send a d")
  have "deliver_all cfg now send (a # as) d =
      (fst (deliver_all cfg now send as d1), e1 @ snd (deliver_all cfg now send as d1))"
    unfolding deliver_all_def using Cons.IH [of d1 "[] @ e1"] d1 by (simp add: deliver_all_def)
  with Cons.IH [of d1 "evs @ e1"] d1 show ?case by simp
qed

lemma deliver_all_Cons:
  "deliver_all cfg now send (a # as) d =
     (let (d1, e1) = deliver cfg now send a d in
      (fst (deliver_all cfg now send as d1), e1 @ snd (deliver_all cfg now send as d1)))"
  using deliver_all_step [of cfg now send d "[]" "a # as"]
    deliver_all_step [of cfg now send "fst (deliver cfg now send a d)" "snd (deliver cfg now send a d)" as]
  by (cases "deliver cfg now send a d") (simp add: deliver_all_def)

lemma deliver_all_ok: "outbox_ok d \<Longrightarrow> outbox_ok (fst (deliver_all cfg now send as d))"
proof (induction as arbitrary: d)
  case Nil
  then show ?case by (simp add: deliver_all_def)
next
  case (Cons a as)
  obtain d1 e1 where d1: "deliver cfg now send a d = (d1, e1)" by (cases "deliver cfg now send a d")
  with deliver_ok [OF Cons.prems, of cfg now send a] have "outbox_ok d1" by simp
  from Cons.IH [OF this] show ?case by (simp add: deliver_all_Cons d1)
qed

lemma deliver_all_frame:
  "\<exists>new. dk_outbox (fst (deliver_all cfg now send as d)) = dk_outbox d @ new \<and>
     (\<forall>q \<in> set new. dl_escalation q = []) \<and>
     dk_incidents (fst (deliver_all cfg now send as d)) = dk_incidents d \<and>
     dk_silences (fst (deliver_all cfg now send as d)) = dk_silences d \<and>
     dk_maintenance (fst (deliver_all cfg now send as d)) = dk_maintenance d \<and>
     dk_escalated (fst (deliver_all cfg now send as d)) = dk_escalated d \<and>
     dk_next_incident (fst (deliver_all cfg now send as d)) = dk_next_incident d \<and>
     dk_next_silence (fst (deliver_all cfg now send as d)) = dk_next_silence d"
proof (induction as arbitrary: d)
  case Nil
  show ?case by (intro exI [of _ "[]"]) (simp add: deliver_all_def)
next
  case (Cons a as)
  obtain d1 e1 where d1: "deliver cfg now send a d = (d1, e1)" by (cases "deliver cfg now send a d")
  obtain new1 where new1: "dk_outbox d1 = dk_outbox d @ new1" "\<forall>q \<in> set new1. dl_escalation q = []"
    "dk_incidents d1 = dk_incidents d" "dk_escalated d1 = dk_escalated d"
    "dk_silences d1 = dk_silences d" "dk_maintenance d1 = dk_maintenance d"
    "dk_next_incident d1 = dk_next_incident d" "dk_next_silence d1 = dk_next_silence d"
    using deliver_frame [OF d1] by blast
  obtain new2 where new2: "dk_outbox (fst (deliver_all cfg now send as d1)) = dk_outbox d1 @ new2"
    "\<forall>q \<in> set new2. dl_escalation q = []" using Cons.IH [of d1] by blast
  show ?case
    using Cons.IH [of d1] new1 new2
    by (intro exI [of _ "new1 @ new2"]) (auto simp: deliver_all_Cons d1)
qed

lemma deliver_all_incidents: "dk_incidents (fst (deliver_all cfg now send as d)) = dk_incidents d"
  using deliver_all_frame by blast

text \<open>Once suppression ends for an active incident, it is announced to every target.\<close>

lemma deliver_all_reaches:
  "a \<in> set as \<Longrightarrow> dest \<in> set (delivery_targets (dc_destinations cfg) (dc_routes cfg) a) \<Longrightarrow>
   told (deliver_all cfg now send as d) dest a"
proof (induction as arbitrary: d)
  case Nil
  then show ?case by simp
next
  case (Cons b bs)
  obtain d1 e1 where d1: "deliver cfg now send b d = (d1, e1)" by (cases "deliver cfg now send b d")
  show ?case
  proof (cases "a \<in> set bs")
    case True
    with Cons.IH [of d1] Cons.prems(2) show ?thesis
      by (auto simp: deliver_all_Cons d1 told_def)
  next
    case False
    with Cons.prems have "told (d1, e1) dest a" using deliver_reaches [of dest cfg a now send d] d1 by simp
    then show ?thesis
      using deliver_all_frame [of cfg now send bs d1]
      by (auto simp: deliver_all_Cons d1 told_def)
  qed
qed

lemma suppression_frame:
  "dk_silences d' = dk_silences d \<Longrightarrow> dk_maintenance d' = dk_maintenance d \<Longrightarrow>
   suppression_active parse cfg now d' i = suppression_active parse cfg now d i"
  by (simp add: suppression_active_def windows_def)

lemma release_incidents:
  "dk_incidents (fst (release_suppressions parse cfg now send d)) =
     map (\<lambda>i. if release_due parse cfg now d i
               then i\<lparr>in_suppressed := False, in_maintenance := [], in_silence_id := 0, in_silence := []\<rparr>
               else i) (dk_incidents d)"
  unfolding release_suppressions_def Let_def deliver_all_incidents by simp

lemma release_settled:
  "i \<in> set (dk_incidents (fst (release_suppressions parse cfg now send d))) \<Longrightarrow>
   in_active i \<Longrightarrow> in_suppressed i \<Longrightarrow> suppression_active parse cfg now d i"
  unfolding release_incidents by (auto simp: release_due_def split: if_splits)

lemma release_announces:
  "i \<in> set (dk_incidents d) \<Longrightarrow> release_due parse cfg now d i \<Longrightarrow>
   dest \<in> set (delivery_targets (dc_destinations cfg) (dc_routes cfg) (released_alert now i)) \<Longrightarrow>
   told (release_suppressions parse cfg now send d) dest (released_alert now i)"
  unfolding release_suppressions_def Let_def by (rule deliver_all_reaches) auto

end
