(* ===== verification/Console.thy ===== *)
theory Console
  imports Delivery
begin

text \<open>
  The alerting half of the coordinator as a state machine: everything that can happen to a
  \<open>desk\<close> (an alert, an operator's request, a round of deliveries, the end of a suppression), the
  invariant every step keeps, and the promise that an escalation policy fires at most once per
  incident.
\<close>

section \<open>Operator requests\<close>

definition desk_create_silence ::
  "catalogue \<Rightarrow> time \<Rightarrow> silence \<Rightarrow> 'a desk_scheme \<Rightarrow> 'a desk_scheme \<times> (suppression_error + silence)" where
  "desk_create_silence k now s d =
     (let ((ss, n), res) = create_silence k now (dk_silences d, dk_next_silence d) s
      in (d\<lparr>dk_silences := ss, dk_next_silence := n\<rparr>, res))"

text \<open>\<open>handleDeleteSilence\<close>: cancelling ends the suppression of what the silence held back.\<close>

definition desk_cancel_silence ::
  "(string \<Rightarrow> duration option) \<Rightarrow> 'c desk_config_scheme \<Rightarrow> time \<Rightarrow> (string \<Rightarrow> alert \<Rightarrow> string option) \<Rightarrow>
   nat \<Rightarrow> string \<Rightarrow> string \<Rightarrow> 'a desk_scheme \<Rightarrow> 'a desk_scheme \<times> event list \<times> suppression_error option" where
  "desk_cancel_silence parse cfg now send sid actor remark d =
     (case cancel_silence now (dk_silences d) sid actor remark of
        (ss, Some e) \<Rightarrow> (d, [], Some e)
      | (ss, None) \<Rightarrow>
          (let (d', evs) = release_suppressions parse cfg now send (d\<lparr>dk_silences := ss\<rparr>)
           in (d', evs, None)))"

definition desk_put_maintenance ::
  "(string \<Rightarrow> duration option) \<Rightarrow> 'c desk_config_scheme \<Rightarrow> catalogue \<Rightarrow> time \<Rightarrow>
   (string \<Rightarrow> alert \<Rightarrow> string option) \<Rightarrow> maintenance \<Rightarrow> string \<Rightarrow> bool \<Rightarrow> 'a desk_scheme \<Rightarrow>
   'a desk_scheme \<times> event list \<times> (suppression_error + maintenance)" where
  "desk_put_maintenance parse cfg k now send m actor create d =
     (case put_maintenance parse k (dc_maintenance cfg) now (dk_maintenance d) m actor create of
        (ms, Inl e) \<Rightarrow> (d, [], Inl e)
      | (ms, Inr m') \<Rightarrow>
          (let (d', evs) = release_suppressions parse cfg now send (d\<lparr>dk_maintenance := ms\<rparr>)
           in (d', evs, Inr m')))"

definition desk_delete_maintenance ::
  "(string \<Rightarrow> duration option) \<Rightarrow> 'c desk_config_scheme \<Rightarrow> time \<Rightarrow>
   (string \<Rightarrow> alert \<Rightarrow> string option) \<Rightarrow> string \<Rightarrow> string \<Rightarrow> 'a desk_scheme \<Rightarrow>
   'a desk_scheme \<times> event list \<times> suppression_error option" where
  "desk_delete_maintenance parse cfg now send nm actor d =
     (case delete_maintenance (dc_maintenance cfg) (dk_maintenance d) nm actor of
        (ms, Some e) \<Rightarrow> (d, [], Some e)
      | (ms, None) \<Rightarrow>
          (let (d', evs) = release_suppressions parse cfg now send (d\<lparr>dk_maintenance := ms\<rparr>)
           in (d', evs, None)))"

inductive desk_step :: "(string \<Rightarrow> duration option) \<Rightarrow> 'c desk_config_scheme \<Rightarrow> 'a desk_scheme \<Rightarrow>
    'a desk_scheme \<Rightarrow> bool" for parse cfg where
  Emit: "desk_step parse cfg d (fst (emit parse cfg now send a d))"
| Acknowledge: "desk_step parse cfg d (fst (acknowledge_incident now iid actor remark d))"
| Resolve: "desk_step parse cfg d (fst (resolve_incident now iid actor remark d))"
| CreateSilence: "desk_step parse cfg d (fst (desk_create_silence k now s d))"
| CancelSilence: "desk_step parse cfg d (fst (desk_cancel_silence parse cfg now send sid actor remark d))"
| PutMaintenance: "desk_step parse cfg d (fst (desk_put_maintenance parse cfg k now send m actor create d))"
| DeleteMaintenance: "desk_step parse cfg d (fst (desk_delete_maintenance parse cfg now send nm actor d))"
| Release: "desk_step parse cfg d (fst (release_suppressions parse cfg now send d))"
| Process: "desk_step parse cfg d (fst (process_deliveries cfg now attempt d))"

inductive desk_run :: "(string \<Rightarrow> duration option) \<Rightarrow> 'c desk_config_scheme \<Rightarrow> 'a desk_scheme \<Rightarrow>
    'a desk_scheme \<Rightarrow> bool" for parse cfg where
  Start: "desk_run parse cfg d d"
| Step: "desk_run parse cfg d d' \<Longrightarrow> desk_step parse cfg d' d'' \<Longrightarrow> desk_run parse cfg d d''"

inductive_cases desk_run_cases: "desk_run parse cfg d d'"

section \<open>Escalation keys\<close>

declare itoa.simps [simp del]

lemma itoa_digits: "set (itoa n) \<subseteq> (\<lambda>d. byte (48 + d)) ` {..<10}"
proof (induction n rule: itoa.induct)
  case (1 n)
  show ?case
  proof (cases "n < 10")
    case True
    then show ?thesis by (subst itoa.simps) auto
  next
    case False
    with 1 have "set (itoa (n div 10)) \<subseteq> (\<lambda>d. byte (48 + d)) ` {..<10}" by blast
    moreover have "n mod 10 < 10" by simp
    ultimately show ?thesis using False by (subst itoa.simps) auto
  qed
qed

lemma byte_digit_inj: "d < 10 \<Longrightarrow> e < 10 \<Longrightarrow> byte (48 + d) = byte (48 + e) \<Longrightarrow> d = e"
proof -
  assume "d < 10" "e < 10" "byte (48 + d) = byte (48 + e)"
  then have "of_char (byte (48 + d)) = (of_char (byte (48 + e)) :: nat)" by simp
  with \<open>d < 10\<close> \<open>e < 10\<close> show ?thesis by (simp add: byte_def)
qed

lemma slash_not_digit: "CHR ''/'' \<notin> set (itoa n)"
proof
  assume "CHR ''/'' \<in> set (itoa n)"
  then obtain d where "d < 10" "CHR ''/'' = byte (48 + d)" using itoa_digits by blast
  then have "of_char (CHR ''/'') = (of_char (byte (48 + d)) :: nat)" by simp
  with \<open>d < 10\<close> show False by (simp add: byte_def)
qed

lemma itoa_nonempty: "itoa n \<noteq> []"
  by (subst itoa.simps) simp

lemma itoa_inj: "itoa m = itoa n \<Longrightarrow> m = n"
proof (induction m arbitrary: n rule: itoa.induct)
  case (1 m)
  show ?case
  proof (cases "m < 10")
    case True
    then have m: "itoa m = [byte (48 + m)]" by (subst itoa.simps) simp
    show ?thesis
    proof (cases "n < 10")
      case n: True
      then have "itoa n = [byte (48 + n)]" by (subst itoa.simps) simp
      with m 1(2) True n show ?thesis by (auto dest: byte_digit_inj)
    next
      case False
      then have "itoa n = itoa (n div 10) @ [byte (48 + n mod 10)]" by (subst itoa.simps) simp
      with m 1(2) itoa_nonempty [of "n div 10"] show ?thesis by (simp add: append_eq_Cons_conv)
    qed
  next
    case False
    then have m: "itoa m = itoa (m div 10) @ [byte (48 + m mod 10)]" by (subst itoa.simps) simp
    show ?thesis
    proof (cases "n < 10")
      case n: True
      then have "itoa n = [byte (48 + n)]" by (subst itoa.simps) simp
      with m 1(2) itoa_nonempty [of "m div 10"] show ?thesis by (simp add: append_eq_Cons_conv)
    next
      case n: False
      then have "itoa n = itoa (n div 10) @ [byte (48 + n mod 10)]" by (subst itoa.simps) simp
      with m 1(2) have "itoa (m div 10) = itoa (n div 10)" "byte (48 + m mod 10) = byte (48 + n mod 10)"
        by auto
      with 1(1) [OF False] have "m div 10 = n div 10" "m mod 10 = n mod 10"
        by (auto dest: byte_digit_inj [rotated 2])
      then show ?thesis by (metis div_mult_mod_eq)
    qed
  qed
qed

lemma escalation_key_inj: "escalation_key i p = escalation_key j q \<longleftrightarrow> i = j \<and> p = q"
proof
  assume eq: "escalation_key i p = escalation_key j q"
  have "takeWhile (\<lambda>c. c \<noteq> CHR ''/'') (itoa n @ ''/'' @ r) = itoa n" for n r
    using slash_not_digit [of n] by (subst takeWhile_append2) auto
  from this [of i p] this [of j q] eq have same: "itoa i = itoa j" unfolding escalation_key_def by simp
  with eq have "p = q" by (simp add: escalation_key_def)
  with itoa_inj [OF same] show "i = j \<and> p = q" by simp
qed auto

section \<open>The invariant\<close>

text \<open>Every pending escalation is marked as fired, and no two are for the same pair.\<close>

definition pending_escalations :: "'a desk_scheme \<Rightarrow> delivery list" where
  "pending_escalations d = filter (\<lambda>q. dl_escalation q \<noteq> []) (dk_outbox d)"

definition fired :: "'a desk_scheme \<Rightarrow> string set" where
  "fired d = dom (map_of (dk_escalated d))"

definition escalations_ok :: "'a desk_scheme \<Rightarrow> bool" where
  "escalations_ok d \<longleftrightarrow> distinct (map entry_key (pending_escalations d)) \<and>
     entry_key ` set (pending_escalations d) \<subseteq> fired d"

definition desk_ok :: "(string \<Rightarrow> duration option) \<Rightarrow> 'c desk_config_scheme \<Rightarrow> 'a desk_scheme \<Rightarrow> bool" where
  "desk_ok parse cfg d \<longleftrightarrow> book_ok d \<and> outbox_ok d \<and> escalations_ok d \<and>
     silences_ok (dk_silences d, dk_next_silence d) \<and>
     managed_ok parse (dc_maintenance cfg) (dk_maintenance d)"

text \<open>What the steps other than a round of deliveries do to the outbox: entries leave, and what
  is added is not an escalation.\<close>

definition quiet :: "'a desk_scheme \<Rightarrow> 'b desk_scheme \<Rightarrow> bool" where
  "quiet d d' \<longleftrightarrow> fired d' = fired d \<and>
     (\<exists>P new. dk_outbox d' = filter P (dk_outbox d) @ new \<and> (\<forall>q \<in> set new. dl_escalation q = []))"

lemma quietI:
  fixes d :: "'a desk_scheme" and d' :: "'b desk_scheme"
  assumes "fired d' = fired d" "dk_outbox d' = filter P (dk_outbox d) @ new"
    "\<forall>q \<in> set new. dl_escalation q = []"
  shows "quiet d d'"
  unfolding quiet_def using assms by (intro conjI exI [of _ P] exI [of _ new])

lemma quiet_refl [simp]: "quiet d d"
  by (rule quietI [where P = "\<lambda>_. True" and new = "[]"]) auto

lemma quiet_trans: "quiet d1 d2 \<Longrightarrow> quiet d2 d3 \<Longrightarrow> quiet d1 d3"
proof -
  assume "quiet d1 d2" and "quiet d2 d3"
  then obtain P Q ns ms where
    "dk_outbox d2 = filter P (dk_outbox d1) @ ns" "\<forall>q \<in> set ns. dl_escalation q = []"
    "dk_outbox d3 = filter Q (dk_outbox d2) @ ms" "\<forall>q \<in> set ms. dl_escalation q = []"
    "fired d3 = fired d1" unfolding quiet_def by blast
  then have "dk_outbox d3 = filter (\<lambda>q. P q \<and> Q q) (dk_outbox d1) @ (filter Q ns @ ms)"
    "\<forall>q \<in> set (filter Q ns @ ms). dl_escalation q = []" by (auto simp: conj_commute)
  from quietI [OF \<open>fired d3 = fired d1\<close> this] show ?thesis .
qed

lemma quiet_pending:
  "quiet d d' \<Longrightarrow> \<exists>P. pending_escalations d' = filter P (pending_escalations d)"
proof -
  assume "quiet d d'"
  then obtain P new where "dk_outbox d' = filter P (dk_outbox d) @ new" "\<forall>q \<in> set new. dl_escalation q = []"
    unfolding quiet_def by blast
  then have "pending_escalations d' = filter P (pending_escalations d)"
    by (auto simp: pending_escalations_def conj_commute filter_empty_conv)
  then show ?thesis by (rule exI [where x = P])
qed

lemma quiet_ok: "escalations_ok d \<Longrightarrow> quiet d d' \<Longrightarrow> escalations_ok d'"
proof -
  assume ok: "escalations_ok d" and q: "quiet d d'"
  obtain P where P: "pending_escalations d' = filter P (pending_escalations d)"
    using quiet_pending [OF q] by blast
  moreover have "fired d' = fired d" using q by (simp add: quiet_def)
  ultimately show ?thesis using ok by (auto simp: escalations_ok_def distinct_map_filter)
qed

lemma quiet_cancel: "quiet d (cancel_escalations iid d)"
  by (rule quietI [where P = "\<lambda>q. \<not> (dl_incident_id q = iid \<and> dl_escalation q \<noteq> [])" and new = "[]"])
    (auto simp: cancel_escalations_def fired_def)

lemma quiet_same: "dk_outbox d' = dk_outbox d \<Longrightarrow> dk_escalated d' = dk_escalated d \<Longrightarrow> quiet d d'"
  by (rule quietI [where P = "\<lambda>_. True" and new = "[]"]) (auto simp: fired_def)

lemma quiet_append:
  "\<exists>new. dk_outbox d' = dk_outbox d @ new \<and> (\<forall>q \<in> set new. dl_escalation q = []) \<Longrightarrow>
   dk_escalated d' = dk_escalated d \<Longrightarrow> quiet d d'"
proof -
  assume "\<exists>new. dk_outbox d' = dk_outbox d @ new \<and> (\<forall>q \<in> set new. dl_escalation q = [])"
    and e: "dk_escalated d' = dk_escalated d"
  then obtain new where "dk_outbox d' = filter (\<lambda>_. True) (dk_outbox d) @ new"
    "\<forall>q \<in> set new. dl_escalation q = []" by auto
  with e show ?thesis by (intro quietI [where P = "\<lambda>_. True" and new = new]) (auto simp: fired_def)
qed

lemma quiet_record: "quiet d (record_incident a m sid sn d)"
proof (cases "closing_kind (al_kind a)")
  case True
  show ?thesis
  proof (cases "find (\<lambda>i. in_subject i = subject a \<and> in_active i) (rev (dk_incidents d))")
    case None
    with True show ?thesis by (simp add: record_incident_def)
  next
    case (Some i)
    with True show ?thesis
      by (auto simp: record_incident_def intro: quiet_trans [OF quiet_same quiet_cancel])
  qed
next
  case False
  then show ?thesis by (auto simp: record_incident_def intro: quiet_same)
qed

lemma quiet_emit: "quiet d (fst (emit parse cfg now send a d))"
proof -
  obtain m sid sn where m: "m = active_maintenance parse cfg now d a"
    and s: "active_silence now d a = (sid, sn)" by (cases "active_silence now d a") auto
  let ?d = "record_incident a m sid sn d"
  obtain d' evs where dv: "deliver cfg now send a ?d = (d', evs)" by (cases "deliver cfg now send a ?d")
  have "quiet ?d d'" using deliver_frame [OF dv] by (intro quiet_append) blast+
  then have "quiet d d'" by (rule quiet_trans [OF quiet_record])
  with m s dv show ?thesis using quiet_record by (auto simp: emit_def Let_def)
qed

lemma quiet_release: "quiet d (fst (release_suppressions parse cfg now send d))"
proof -
  have "quiet d' (fst (deliver_all cfg now send as d'))" for d' :: "'a desk_scheme" and as
    using deliver_all_frame [of cfg now send as d'] by (intro quiet_append) blast+
  then show ?thesis
    unfolding release_suppressions_def Let_def by (rule quiet_trans [rotated]) (rule quiet_same; simp)
qed

lemma quiet_acknowledge: "quiet d (fst (acknowledge_incident now iid actor remark d))"
  by (auto simp: acknowledge_incident_def Let_def split: option.splits
      intro: quiet_trans [OF quiet_same quiet_cancel])

lemma quiet_resolve: "quiet d (fst (resolve_incident now iid actor remark d))"
  by (auto simp: resolve_incident_def Let_def split: option.splits
      intro: quiet_trans [OF quiet_same quiet_cancel])

text \<open>A round of deliveries: scheduling marks what it adds, a pass only removes or re-times.\<close>

lemma pending_keys:
  "map entry_key (pending_escalations d) =
     map (\<lambda>(i, e). escalation_key i e)
       (filter (\<lambda>s. snd s \<noteq> []) (map (\<lambda>q. (dl_incident_id q, dl_escalation q)) (dk_outbox d)))"
  by (simp add: pending_escalations_def filter_map comp_def entry_key_def)

lemma escalations_ok_keys:
  fixes d :: "'a desk_scheme" and d' :: "'b desk_scheme"
  assumes "escalations_ok d" "map entry_key (pending_escalations d') = map entry_key (pending_escalations d)"
    "fired d' = fired d"
  shows "escalations_ok d'"
proof -
  from assms(2) have "entry_key ` set (pending_escalations d') = entry_key ` set (pending_escalations d)"
    by (metis list.set_map)
  with assms show ?thesis by (simp add: escalations_ok_def)
qed

lemma process_item_escalations:
  assumes "outbox_ok d" "escalations_ok d" "process_item cfg now attempt (bl, d, evs) q = (bl', d', evs')"
  shows "escalations_ok d' \<and> fired d' = fired d \<and>
    set (map entry_key (pending_escalations d')) \<subseteq> set (map entry_key (pending_escalations d))"
proof -
  have removed: "quiet d (d\<lparr>dk_outbox := remove_delivery n (dk_outbox d)\<rparr>)" for n
    by (rule quietI [where P = "\<lambda>q. dl_id q \<noteq> n" and new = "[]"])
      (auto simp: fired_def remove_delivery_filter [OF assms(1)])
  have removed_keys: "set (map entry_key (pending_escalations (d\<lparr>dk_outbox := remove_delivery n (dk_outbox d)\<rparr>)))
      \<subseteq> set (map entry_key (pending_escalations d))" for n
    using quiet_pending [OF removed, of n] by auto
  have removed_fired: "fired (d\<lparr>dk_outbox := qs\<rparr>) = fired d" for qs by (simp add: fired_def)
  show ?thesis
  proof (cases rule: process_item_cases [of cfg now attempt bl d evs q])
    case skip
    with assms show ?thesis by simp
  next
    case later
    with assms show ?thesis by simp
  next
    case stale
    with assms(3) have "d' = d\<lparr>dk_outbox := remove_delivery (dl_id q) (dk_outbox d)\<rparr>" by simp
    with quiet_ok [OF assms(2) removed] removed_keys removed_fired show ?thesis by metis
  next
    case sent
    with assms(3) have "d' = d\<lparr>dk_outbox := remove_delivery (dl_id q) (dk_outbox d)\<rparr>" by simp
    with quiet_ok [OF assms(2) removed] removed_keys removed_fired show ?thesis by metis
  next
    case (failed at err)
    have "map entry_key (pending_escalations d') = map entry_key (pending_escalations d)"
      using failed(1) assms(3) by (auto simp: pending_keys update_first_map)
    moreover have "fired d' = fired d" using failed(1) assms(3) by (auto simp: fired_def)
    ultimately show ?thesis using escalations_ok_keys [OF assms(2)] by simp
  qed
qed

lemma process_fold_escalations:
  "outbox_ok d \<Longrightarrow> escalations_ok d \<Longrightarrow>
   foldl (process_item cfg now attempt) (bl, d, evs) qs = (bl', d', evs') \<Longrightarrow>
   escalations_ok d' \<and> fired d' = fired d \<and> outbox_ok d' \<and>
   set (map entry_key (pending_escalations d')) \<subseteq> set (map entry_key (pending_escalations d))"
proof (induction qs arbitrary: bl d evs)
  case Nil
  then show ?case by simp
next
  case (Cons q qs)
  obtain bl1 d1 evs1 where step: "process_item cfg now attempt (bl, d, evs) q = (bl1, d1, evs1)"
    by (cases "process_item cfg now attempt (bl, d, evs) q")
  note one = process_item_escalations [OF Cons.prems(1,2) step]
  from Cons.prems(3) step have "foldl (process_item cfg now attempt) (bl1, d1, evs1) qs = (bl', d', evs')"
    by simp
  note two = Cons.IH [OF process_item_ok [OF Cons.prems(1) step] one [THEN conjunct1] this]
  show ?case using one two by (metis subset_trans)
qed

definition named_policies :: "'c desk_config_scheme \<Rightarrow> bool" where
  "named_policies cfg \<longleftrightarrow> (\<forall>p \<in> set (dc_escalations cfg). ep_name p \<noteq> [])"

lemma schedule_escalations_ok:
  assumes "escalations_ok d" "named_policies cfg"
  shows "escalations_ok (schedule_escalations cfg now d) \<and> fired d \<subseteq> fired (schedule_escalations cfg now d) \<and>
    (\<exists>new. pending_escalations (schedule_escalations cfg now d) = pending_escalations d @ new \<and>
       (\<forall>q \<in> set new. entry_key q \<notin> fired d))"
proof -
  obtain new where new: "dk_outbox (schedule_escalations cfg now d) = dk_outbox d @ new"
     "\<forall>q \<in> set new. \<exists>i \<in> set (dk_incidents d). \<exists>p \<in> set (dc_escalations cfg). escalates now i p \<and>
        dl_incident_id q = in_id i \<and> dl_escalation q = ep_name p \<and> dl_destination q = ep_destination p"
     "distinct (map entry_key new)" "\<forall>q \<in> set new. map_of (dk_escalated d) (entry_key q) = None"
     "dom (map_of (dk_escalated (schedule_escalations cfg now d))) =
       dom (map_of (dk_escalated d)) \<union> entry_key ` set new"
    using schedule_new by blast
  have "\<forall>q \<in> set new. dl_escalation q \<noteq> []" using new(2) assms(2) by (force simp: named_policies_def)
  then have pend: "pending_escalations (schedule_escalations cfg now d) = pending_escalations d @ new"
    by (simp add: pending_escalations_def new(1))
  have fresh: "\<forall>q \<in> set new. entry_key q \<notin> fired d" using new(4) by (simp add: fired_def domIff)
  moreover have "fired (schedule_escalations cfg now d) = fired d \<union> entry_key ` set new"
    using new(5) by (simp add: fired_def)
  moreover have "set (map entry_key (pending_escalations d)) \<inter> set (map entry_key new) = {}"
    using fresh assms(1) by (auto simp: escalations_ok_def)
  ultimately show ?thesis
    using assms(1) new(3) by (auto simp: escalations_ok_def pend)
qed

lemma process_escalations_ok:
  assumes "outbox_ok d" "escalations_ok d" "named_policies cfg"
  shows "escalations_ok (fst (process_deliveries cfg now attempt d)) \<and>
    outbox_ok (fst (process_deliveries cfg now attempt d)) \<and>
    fired d \<subseteq> fired (fst (process_deliveries cfg now attempt d))"
proof -
  let ?d = "schedule_escalations cfg now d"
  have ok: "outbox_ok ?d" by (rule schedule_ok [OF assms(1)])
  note sched = schedule_escalations_ok [OF assms(2,3), of now]
  obtain bl d' evs where run: "foldl (process_item cfg now attempt) ([], ?d, []) (sort_key dl_id (dk_outbox ?d)) = (bl, d', evs)"
    by (cases "foldl (process_item cfg now attempt) ([], ?d, []) (sort_key dl_id (dk_outbox ?d))")
  then have "fst (process_deliveries cfg now attempt d) = d'"
    by (simp add: process_deliveries_def Let_def)
  with process_fold_escalations [OF ok _ run] sched show ?thesis by auto
qed

lemma process_item_frame:
  "process_item cfg now attempt (bl, d, evs) q = (bl', d', evs') \<Longrightarrow>
   dk_incidents d' = dk_incidents d \<and> dk_next_incident d' = dk_next_incident d \<and>
   dk_silences d' = dk_silences d \<and> dk_next_silence d' = dk_next_silence d \<and>
   dk_maintenance d' = dk_maintenance d"
  by (cases rule: process_item_cases [of cfg now attempt bl d evs q]) auto

lemma process_frame:
  "dk_incidents (fst (process_deliveries cfg now attempt d)) = dk_incidents d \<and>
   dk_next_incident (fst (process_deliveries cfg now attempt d)) = dk_next_incident d \<and>
   dk_silences (fst (process_deliveries cfg now attempt d)) = dk_silences d \<and>
   dk_next_silence (fst (process_deliveries cfg now attempt d)) = dk_next_silence d \<and>
   dk_maintenance (fst (process_deliveries cfg now attempt d)) = dk_maintenance d"
proof -
  have pass: "foldl (process_item cfg now attempt) (bl, e, evs) qs = (bl', d', evs') \<Longrightarrow>
     dk_incidents d' = dk_incidents e \<and> dk_next_incident d' = dk_next_incident e \<and>
     dk_silences d' = dk_silences e \<and> dk_next_silence d' = dk_next_silence e \<and>
     dk_maintenance d' = dk_maintenance e" for bl e evs qs bl' d' evs'
  proof (induction qs arbitrary: bl e evs)
    case Nil
    then show ?case by simp
  next
    case (Cons q qs)
    obtain bl1 d1 evs1 where step: "process_item cfg now attempt (bl, e, evs) q = (bl1, d1, evs1)"
      by (cases "process_item cfg now attempt (bl, e, evs) q")
    with Cons.prems Cons.IH [of bl1 d1 evs1] process_item_frame [OF step] show ?case by simp
  qed
  have sched: "dk_incidents (foldl (escalate now) e ips) = dk_incidents e \<and>
     dk_next_incident (foldl (escalate now) e ips) = dk_next_incident e \<and>
     dk_silences (foldl (escalate now) e ips) = dk_silences e \<and>
     dk_next_silence (foldl (escalate now) e ips) = dk_next_silence e \<and>
     dk_maintenance (foldl (escalate now) e ips) = dk_maintenance e" for e ips
  proof (induction ips arbitrary: e)
    case Nil
    then show ?case by simp
  next
    case (Cons ip ips)
    have "dk_next_silence (escalate now e ip) = dk_next_silence e"
      by (cases ip) (simp add: escalate_def Let_def)
    with Cons.IH [of "escalate now e ip"] show ?case by (simp add: escalate_frame)
  qed
  let ?d = "schedule_escalations cfg now d"
  obtain bl d' evs where run: "foldl (process_item cfg now attempt) ([], ?d, []) (sort_key dl_id (dk_outbox ?d)) = (bl, d', evs)"
    by (cases "foldl (process_item cfg now attempt) ([], ?d, []) (sort_key dl_id (dk_outbox ?d))")
  then have "fst (process_deliveries cfg now attempt d) = d'"
    by (simp add: process_deliveries_def Let_def)
  with pass [OF run] sched show ?thesis by (simp add: schedule_escalations_def)
qed

section \<open>Every step keeps the invariant\<close>

lemma emit_frame:
  "dk_incidents (fst (emit parse cfg now send a d)) =
     dk_incidents (record_incident a (active_maintenance parse cfg now d a) (fst (active_silence now d a))
       (snd (active_silence now d a)) d) \<and>
   dk_next_incident (fst (emit parse cfg now send a d)) =
     dk_next_incident (record_incident a (active_maintenance parse cfg now d a) (fst (active_silence now d a))
       (snd (active_silence now d a)) d) \<and>
   dk_silences (fst (emit parse cfg now send a d)) = dk_silences d \<and>
   dk_next_silence (fst (emit parse cfg now send a d)) = dk_next_silence d \<and>
   dk_maintenance (fst (emit parse cfg now send a d)) = dk_maintenance d"
proof -
  let ?r = "record_incident a (active_maintenance parse cfg now d a) (fst (active_silence now d a))
       (snd (active_silence now d a)) d"
  obtain d' evs where dv: "deliver cfg now send a ?r = (d', evs)" by (cases "deliver cfg now send a ?r")
  have "dk_silences ?r = dk_silences d \<and> dk_next_silence ?r = dk_next_silence d \<and>
      dk_maintenance ?r = dk_maintenance d"
    by (auto simp: record_incident_def Let_def cancel_escalations_def split: option.splits)
  moreover have "fst (emit parse cfg now send a d) = ?r \<or> fst (emit parse cfg now send a d) = d'"
    using dv by (auto simp: emit_def Let_def split: prod.splits)
  ultimately show ?thesis using deliver_frame [OF dv] by metis
qed

lemma emit_book: "book_ok d \<Longrightarrow> book_ok (fst (emit parse cfg now send a d))"
proof -
  assume "book_ok d"
  then have ok: "book_ok (record_incident a (active_maintenance parse cfg now d a)
      (fst (active_silence now d a)) (snd (active_silence now d a)) d)"
    by (rule record_incident_ok)
  show ?thesis
    by (rule book_ok_same_ids [OF ok]) (simp_all add: emit_frame)
qed

lemma release_frame:
  "dk_next_incident (fst (release_suppressions parse cfg now send d)) = dk_next_incident d \<and>
   dk_silences (fst (release_suppressions parse cfg now send d)) = dk_silences d \<and>
   dk_next_silence (fst (release_suppressions parse cfg now send d)) = dk_next_silence d \<and>
   dk_maintenance (fst (release_suppressions parse cfg now send d)) = dk_maintenance d"
proof -
  have "dk_next_incident (fst (deliver_all cfg now send as e)) = dk_next_incident e \<and>
     dk_silences (fst (deliver_all cfg now send as e)) = dk_silences e \<and>
     dk_next_silence (fst (deliver_all cfg now send as e)) = dk_next_silence e \<and>
     dk_maintenance (fst (deliver_all cfg now send as e)) = dk_maintenance e"
    for as and e :: "'a desk_scheme"
    using deliver_all_frame [of cfg now send as e] by blast
  then show ?thesis by (simp add: release_suppressions_def Let_def)
qed

lemma release_book: "book_ok d \<Longrightarrow> book_ok (fst (release_suppressions parse cfg now send d))"
  by (rule book_ok_same_ids) (auto simp: release_incidents release_frame)

lemma outbox_ok_incidents [simp]: "outbox_ok (d\<lparr>dk_incidents := ins\<rparr>) = outbox_ok d"
  by (simp add: outbox_ok_def)

lemma release_outbox: "outbox_ok d \<Longrightarrow> outbox_ok (fst (release_suppressions parse cfg now send d))"
proof -
  assume "outbox_ok d"
  then have "outbox_ok (d\<lparr>dk_incidents := ins\<rparr>)" for ins by simp
  then show ?thesis unfolding release_suppressions_def Let_def by (rule deliver_all_ok)
qed

lemma release_desk_ok: "desk_ok parse cfg d \<Longrightarrow> desk_ok parse cfg (fst (release_suppressions parse cfg now send d))"
  unfolding desk_ok_def using quiet_ok [OF _ quiet_release]
  by (auto simp: release_frame intro: release_book release_outbox)

lemma cancel_outbox_ok [intro]: "outbox_ok d \<Longrightarrow> outbox_ok (cancel_escalations iid d)"
  by (rule outbox_filter) (auto simp: cancel_escalations_def)

lemma cancel_silence_ok:
  "silences_ok (ss, n) \<Longrightarrow> silences_ok (fst (cancel_silence now ss sid actor remark), n)"
proof -
  assume ok: "silences_ok (ss, n)"
  have "silences_ok (ss', n)" if "cancel_in sid now (trim_space actor) remark ss = Some ss'" for ss'
  proof -
    have ids: "map si_id ss' = map si_id ss" by (rule cancel_in_ids [OF that])
    then have "si_id ` set ss' = si_id ` set ss" by (metis list.set_map)
    then have "\<exists>t \<in> set ss. si_id t = si_id s" if "s \<in> set ss'" for s
      using that by (metis imageE imageI)
    with ok ids show ?thesis unfolding silences_ok_def fst_conv snd_conv by metis
  qed
  with ok show ?thesis by (auto simp: cancel_silence_def Let_def split: option.splits)
qed

text \<open>Changing the silences or the windows alone leaves the rest of the invariant untouched.\<close>

lemma desk_ok_silences:
  "desk_ok parse cfg d \<Longrightarrow> silences_ok (ss, n) \<Longrightarrow> desk_ok parse cfg (d\<lparr>dk_silences := ss, dk_next_silence := n\<rparr>)"
  by (simp add: desk_ok_def book_ok_def outbox_ok_def escalations_ok_def pending_escalations_def fired_def)

lemma desk_ok_maintenance:
  "desk_ok parse cfg d \<Longrightarrow> managed_ok parse (dc_maintenance cfg) ms \<Longrightarrow>
   desk_ok parse cfg (d\<lparr>dk_maintenance := ms\<rparr>)"
  by (simp add: desk_ok_def book_ok_def outbox_ok_def escalations_ok_def pending_escalations_def fired_def)

lemma acknowledge_desk_ok:
  "desk_ok parse cfg d \<Longrightarrow> desk_ok parse cfg (fst (acknowledge_incident now iid actor remark d))"
proof -
  assume ok: "desk_ok parse cfg d"
  have "outbox_ok (fst (acknowledge_incident now iid actor remark d))"
    using ok by (auto simp: acknowledge_incident_def Let_def desk_ok_def split: option.splits)
  moreover have "dk_silences (fst (acknowledge_incident now iid actor remark d)) = dk_silences d \<and>
      dk_next_silence (fst (acknowledge_incident now iid actor remark d)) = dk_next_silence d \<and>
      dk_maintenance (fst (acknowledge_incident now iid actor remark d)) = dk_maintenance d"
    by (auto simp: acknowledge_incident_def Let_def cancel_escalations_def split: option.splits)
  ultimately show ?thesis
    using ok quiet_ok [OF _ quiet_acknowledge] acknowledge_ok by (auto simp: desk_ok_def)
qed

lemma resolve_desk_ok:
  "desk_ok parse cfg d \<Longrightarrow> desk_ok parse cfg (fst (resolve_incident now iid actor remark d))"
proof -
  assume ok: "desk_ok parse cfg d"
  have "outbox_ok (fst (resolve_incident now iid actor remark d))"
    using ok by (auto simp: resolve_incident_def Let_def desk_ok_def split: option.splits)
  moreover have "dk_silences (fst (resolve_incident now iid actor remark d)) = dk_silences d \<and>
      dk_next_silence (fst (resolve_incident now iid actor remark d)) = dk_next_silence d \<and>
      dk_maintenance (fst (resolve_incident now iid actor remark d)) = dk_maintenance d"
    by (auto simp: resolve_incident_def Let_def cancel_escalations_def split: option.splits)
  ultimately show ?thesis
    using ok quiet_ok [OF _ quiet_resolve] resolve_ok by (auto simp: desk_ok_def)
qed

lemma emit_desk_ok: "desk_ok parse cfg d \<Longrightarrow> desk_ok parse cfg (fst (emit parse cfg now send a d))"
  unfolding desk_ok_def using quiet_ok [OF _ quiet_emit]
  by (auto simp: emit_frame intro: emit_book emit_ok)

lemma process_desk_ok:
  "named_policies cfg \<Longrightarrow> desk_ok parse cfg d \<Longrightarrow> desk_ok parse cfg (fst (process_deliveries cfg now attempt d))"
proof -
  assume names: "named_policies cfg" and ok: "desk_ok parse cfg d"
  have "book_ok (fst (process_deliveries cfg now attempt d))"
    using ok process_frame [of cfg now attempt d] by (auto simp: desk_ok_def book_ok_def)
  with ok process_escalations_ok [OF _ _ names, of d now attempt] process_frame [of cfg now attempt d]
  show ?thesis by (simp add: desk_ok_def)
qed

lemma create_silence_desk_ok:
  "desk_ok parse cfg d \<Longrightarrow> desk_ok parse cfg (fst (desk_create_silence k now s d))"
proof -
  assume ok: "desk_ok parse cfg d"
  obtain ss n res where c: "create_silence k now (dk_silences d, dk_next_silence d) s = ((ss, n), res)"
    by (metis surj_pair)
  have "silences_ok (ss, n)"
    using create_silence_ok [of "(dk_silences d, dk_next_silence d)" k now s] ok c by (simp add: desk_ok_def)
  with ok c show ?thesis by (simp add: desk_create_silence_def desk_ok_silences)
qed

lemma cancel_silence_desk_ok:
  "desk_ok parse cfg d \<Longrightarrow> desk_ok parse cfg (fst (desk_cancel_silence parse cfg now send sid actor remark d))"
proof -
  assume ok: "desk_ok parse cfg d"
  obtain ss e where c: "cancel_silence now (dk_silences d) sid actor remark = (ss, e)" by (metis surj_pair)
  have "silences_ok (ss, dk_next_silence d)"
    using cancel_silence_ok [of "dk_silences d" "dk_next_silence d" now sid actor remark] ok c
    by (simp add: desk_ok_def)
  then have "desk_ok parse cfg (d\<lparr>dk_silences := ss\<rparr>)"
    using desk_ok_silences [OF ok, of ss "dk_next_silence d"] by simp
  from release_desk_ok [OF this, of now send] ok c show ?thesis
    by (auto simp: desk_cancel_silence_def split: option.splits prod.splits)
qed

lemma put_maintenance_desk_ok:
  "desk_ok parse cfg d \<Longrightarrow>
   desk_ok parse cfg (fst (desk_put_maintenance parse cfg k now send m actor create d))"
proof -
  assume ok: "desk_ok parse cfg d"
  obtain ms res where c: "put_maintenance parse k (dc_maintenance cfg) now (dk_maintenance d) m actor create = (ms, res)"
    by (metis surj_pair)
  have "managed_ok parse (dc_maintenance cfg) ms"
    using put_maintenance_ok [of parse "dc_maintenance cfg" "dk_maintenance d" k now m actor create] ok c
    by (simp add: desk_ok_def)
  then have "desk_ok parse cfg (d\<lparr>dk_maintenance := ms\<rparr>)" by (rule desk_ok_maintenance [OF ok])
  from release_desk_ok [OF this, of now send] ok c show ?thesis
    by (auto simp: desk_put_maintenance_def split: sum.splits prod.splits)
qed

lemma delete_maintenance_desk_ok:
  "desk_ok parse cfg d \<Longrightarrow>
   desk_ok parse cfg (fst (desk_delete_maintenance parse cfg now send nm actor d))"
proof -
  assume ok: "desk_ok parse cfg d"
  obtain ms e where c: "delete_maintenance (dc_maintenance cfg) (dk_maintenance d) nm actor = (ms, e)"
    by (metis surj_pair)
  have "managed_ok parse (dc_maintenance cfg) ms"
    using delete_maintenance_ok [of parse "dc_maintenance cfg" "dk_maintenance d" nm actor] ok c
    by (simp add: desk_ok_def)
  then have "desk_ok parse cfg (d\<lparr>dk_maintenance := ms\<rparr>)" by (rule desk_ok_maintenance [OF ok])
  from release_desk_ok [OF this, of now send] ok c show ?thesis
    by (auto simp: desk_delete_maintenance_def split: option.splits prod.splits)
qed

lemmas desk_ok_steps = emit_desk_ok acknowledge_desk_ok resolve_desk_ok create_silence_desk_ok
  cancel_silence_desk_ok put_maintenance_desk_ok delete_maintenance_desk_ok release_desk_ok process_desk_ok

lemma step_ok: "desk_step parse cfg d d' \<Longrightarrow> named_policies cfg \<Longrightarrow> desk_ok parse cfg d \<Longrightarrow> desk_ok parse cfg d'"
  by (induction rule: desk_step.induct) (auto intro: desk_ok_steps)

lemma run_ok: "desk_run parse cfg d d' \<Longrightarrow> named_policies cfg \<Longrightarrow> desk_ok parse cfg d \<Longrightarrow> desk_ok parse cfg d'"
  by (induction rule: desk_run.induct) (auto intro: step_ok)

section \<open>Escalations fire once and stop when told to\<close>

lemma quiet_steps:
  "quiet d d' \<Longrightarrow> fired d' = fired d \<and>
   set (map entry_key (pending_escalations d')) \<subseteq> set (map entry_key (pending_escalations d))"
  using quiet_pending [of d d'] by (auto simp: quiet_def)

lemma quiet_outbox_same:
  "dk_outbox d' = dk_outbox d \<Longrightarrow> dk_escalated d' = dk_escalated d \<Longrightarrow> quiet d' d'' \<Longrightarrow> quiet d d''"
  by (rule quiet_trans [OF quiet_same])

text \<open>The console's requests either fail and change nothing or end in a release.\<close>

lemma console_shapes:
  "fst (desk_cancel_silence parse cfg now send sid actor remark d) = d \<or>
   (\<exists>ss. fst (desk_cancel_silence parse cfg now send sid actor remark d) =
      fst (release_suppressions parse cfg now send (d\<lparr>dk_silences := ss\<rparr>)))"
  "fst (desk_put_maintenance parse cfg k now send m actor create d) = d \<or>
   (\<exists>ms. fst (desk_put_maintenance parse cfg k now send m actor create d) =
      fst (release_suppressions parse cfg now send (d\<lparr>dk_maintenance := ms\<rparr>)))"
  "fst (desk_delete_maintenance parse cfg now send nm actor d) = d \<or>
   (\<exists>ms. fst (desk_delete_maintenance parse cfg now send nm actor d) =
      fst (release_suppressions parse cfg now send (d\<lparr>dk_maintenance := ms\<rparr>)))"
proof -
  obtain ss e where "cancel_silence now (dk_silences d) sid actor remark = (ss, e)" by (metis surj_pair)
  then show "fst (desk_cancel_silence parse cfg now send sid actor remark d) = d \<or>
      (\<exists>ss. fst (desk_cancel_silence parse cfg now send sid actor remark d) =
        fst (release_suppressions parse cfg now send (d\<lparr>dk_silences := ss\<rparr>)))"
    by (cases e; cases "release_suppressions parse cfg now send (d\<lparr>dk_silences := ss\<rparr>)")
      (auto simp: desk_cancel_silence_def intro!: exI [of _ ss])
  obtain ms r where "put_maintenance parse k (dc_maintenance cfg) now (dk_maintenance d) m actor create = (ms, r)"
    by (metis surj_pair)
  then show "fst (desk_put_maintenance parse cfg k now send m actor create d) = d \<or>
      (\<exists>ms. fst (desk_put_maintenance parse cfg k now send m actor create d) =
        fst (release_suppressions parse cfg now send (d\<lparr>dk_maintenance := ms\<rparr>)))"
    by (cases r; cases "release_suppressions parse cfg now send (d\<lparr>dk_maintenance := ms\<rparr>)")
      (auto simp: desk_put_maintenance_def intro!: exI [of _ ms])
  obtain ds f where "delete_maintenance (dc_maintenance cfg) (dk_maintenance d) nm actor = (ds, f)"
    by (metis surj_pair)
  then show "fst (desk_delete_maintenance parse cfg now send nm actor d) = d \<or>
      (\<exists>ms. fst (desk_delete_maintenance parse cfg now send nm actor d) =
        fst (release_suppressions parse cfg now send (d\<lparr>dk_maintenance := ms\<rparr>)))"
    by (cases f; cases "release_suppressions parse cfg now send (d\<lparr>dk_maintenance := ds\<rparr>)")
      (auto simp: desk_delete_maintenance_def intro!: exI [of _ ds])
qed

lemma quiet_console:
  "quiet d (fst (desk_create_silence k now s d))"
  "quiet d (fst (desk_cancel_silence parse cfg now send sid actor remark d))"
  "quiet d (fst (desk_put_maintenance parse cfg k now send m actor create d))"
  "quiet d (fst (desk_delete_maintenance parse cfg now send nm actor d))"
proof -
  show "quiet d (fst (desk_create_silence k now s d))"
    by (auto simp: desk_create_silence_def split: prod.splits intro: quiet_same)
  have rel: "quiet d (fst (release_suppressions parse cfg now send d'))"
    if "dk_outbox d' = dk_outbox d" "dk_escalated d' = dk_escalated d" for d' :: "'a desk_scheme"
    by (rule quiet_outbox_same [OF that quiet_release])
  have rels: "quiet d (fst (release_suppressions parse cfg now send (d\<lparr>dk_silences := ss\<rparr>)))"
    "quiet d (fst (release_suppressions parse cfg now send (d\<lparr>dk_maintenance := ms\<rparr>)))" for ss ms
    by (rule rel; simp)+
  show "quiet d (fst (desk_cancel_silence parse cfg now send sid actor remark d))"
    using console_shapes(1) [of parse cfg now send sid actor remark d] rels by (elim disjE exE) simp_all
  show "quiet d (fst (desk_put_maintenance parse cfg k now send m actor create d))"
    using console_shapes(2) [of parse cfg k now send m actor create d] rels by (elim disjE exE) simp_all
  show "quiet d (fst (desk_delete_maintenance parse cfg now send nm actor d))"
    using console_shapes(3) [of parse cfg now send nm actor d] rels by (elim disjE exE) simp_all
qed

lemmas quiet_all = quiet_emit quiet_acknowledge quiet_resolve quiet_release quiet_console

text \<open>A step adds an escalation only for a pair that has never fired, and forgets no pair.\<close>

lemma process_pending:
  assumes "outbox_ok d" "escalations_ok d" "named_policies cfg"
  shows "set (map entry_key (pending_escalations (fst (process_deliveries cfg now attempt d)))) \<subseteq>
    set (map entry_key (pending_escalations (schedule_escalations cfg now d)))"
proof -
  let ?d = "schedule_escalations cfg now d"
  obtain bl d' evs where run: "foldl (process_item cfg now attempt) ([], ?d, []) (sort_key dl_id (dk_outbox ?d)) = (bl, d', evs)"
    by (cases "foldl (process_item cfg now attempt) ([], ?d, []) (sort_key dl_id (dk_outbox ?d))")
  then have "fst (process_deliveries cfg now attempt d) = d'"
    by (simp add: process_deliveries_def Let_def)
  with process_fold_escalations [OF schedule_ok [OF assms(1)] _ run]
    schedule_escalations_ok [OF assms(2,3), of now] show ?thesis by simp
qed

definition settled :: "nat \<Rightarrow> 'a desk_scheme \<Rightarrow> bool" where
  "settled iid d \<longleftrightarrow> iid \<le> dk_next_incident d \<and>
     (\<forall>i \<in> set (dk_incidents d). in_id i = iid \<longrightarrow> \<not> in_active i \<or> in_acknowledged_at i \<noteq> None) \<and>
     (\<forall>q \<in> set (pending_escalations d). dl_incident_id q \<noteq> iid)"

lemma quiet_fires:
  assumes "quiet d d'"
  shows "fired d \<subseteq> fired d' \<and> (\<forall>q \<in> set (pending_escalations d').
    entry_key q \<in> entry_key ` set (pending_escalations d) \<or> entry_key q \<notin> fired d)"
  using quiet_steps [OF assms] by auto

lemma quiet_settled:
  assumes "settled iid d" "quiet d d'"
  shows "\<forall>q \<in> set (pending_escalations d'). dl_incident_id q \<noteq> iid"
  using quiet_pending [OF assms(2)] assms(1) by (auto simp: settled_def)

lemma step_fires_once:
  assumes "desk_step parse cfg d d'" "named_policies cfg" "desk_ok parse cfg d"
  shows "fired d \<subseteq> fired d' \<and> (\<forall>q \<in> set (pending_escalations d').
    entry_key q \<in> entry_key ` set (pending_escalations d) \<or> entry_key q \<notin> fired d)"
  using assms
proof (induction rule: desk_step.induct)
  case (Process d now attempt)
  have grows: "fired d \<subseteq> fired (fst (process_deliveries cfg now attempt d))"
    using process_escalations_ok [of d cfg now attempt] Process by (simp add: desk_ok_def)
  from schedule_escalations_ok [of d cfg now] Process
  obtain new where new: "pending_escalations (schedule_escalations cfg now d) = pending_escalations d @ new"
     "\<forall>q \<in> set new. entry_key q \<notin> fired d" by (auto simp: desk_ok_def)
  moreover have "set (map entry_key (pending_escalations (fst (process_deliveries cfg now attempt d)))) \<subseteq>
      set (map entry_key (pending_escalations (schedule_escalations cfg now d)))"
    using Process by (intro process_pending) (auto simp: desk_ok_def)
  ultimately have sub: "set (map entry_key (pending_escalations (fst (process_deliveries cfg now attempt d))))
      \<subseteq> entry_key ` set (pending_escalations d) \<union> entry_key ` set new" by simp
  show ?case
  proof (intro conjI ballI)
    fix q assume "q \<in> set (pending_escalations (fst (process_deliveries cfg now attempt d)))"
    then have "entry_key q \<in> set (map entry_key (pending_escalations (fst (process_deliveries cfg now attempt d))))"
      by simp
    with sub have "entry_key q \<in> entry_key ` set (pending_escalations d) \<or> entry_key q \<in> entry_key ` set new"
      by blast
    then show "entry_key q \<in> entry_key ` set (pending_escalations d) \<or> entry_key q \<notin> fired d"
      using new(2) by auto
  qed (rule grows)
qed (rule quiet_fires, rule quiet_all)+

text \<open>Incidents age: identifiers are never reused, a resolved incident stays resolved, an
  acknowledgement stays.\<close>

definition aged :: "'a desk_scheme \<Rightarrow> 'b desk_scheme \<Rightarrow> bool" where
  "aged d d' \<longleftrightarrow> dk_next_incident d \<le> dk_next_incident d' \<and>
     (\<forall>i' \<in> set (dk_incidents d'). dk_next_incident d < in_id i' \<or>
        (\<exists>i \<in> set (dk_incidents d). in_id i = in_id i' \<and> (in_active i' \<longrightarrow> in_active i) \<and>
           (in_acknowledged_at i \<noteq> None \<longrightarrow> in_acknowledged_at i' \<noteq> None)))"

lemma aged_same:
  "dk_incidents d' = dk_incidents d \<Longrightarrow> dk_next_incident d' = dk_next_incident d \<Longrightarrow> aged d d'"
  by (auto simp: aged_def)

lemma aged_update:
  assumes "dk_incidents d' = update_first P f (dk_incidents d)" "dk_next_incident d' = dk_next_incident d"
    and "\<And>i. in_id (f i) = in_id i \<and> (in_active (f i) \<longrightarrow> in_active i) \<and>
      (in_acknowledged_at i \<noteq> None \<longrightarrow> in_acknowledged_at (f i) \<noteq> None)"
  shows "aged d d'"
  unfolding aged_def using assms(2,3) update_first_set [of _ P f "dk_incidents d", folded assms(1)] by fastforce

lemma aged_record: "aged d (record_incident a m sid sn d)"
proof (cases "closing_kind (al_kind a)")
  case False
  then show ?thesis by (auto simp: aged_def record_incident_def)
next
  case True
  let ?P = "\<lambda>i. in_subject i = subject a \<and> in_active i"
  let ?f = "\<lambda>i. i\<lparr>in_active := False, in_resolved_at := al_at a\<rparr>"
  have "dk_next_incident (record_incident a m sid sn d) = dk_next_incident d"
    using True by (auto simp: record_incident_def Let_def split: option.splits)
  moreover have "dk_incidents (record_incident a m sid sn d) = rev (update_first ?P ?f (rev (dk_incidents d)))"
  proof (cases "find ?P (rev (dk_incidents d))")
    case None
    then have "update_first ?P ?f (rev (dk_incidents d)) = rev (dk_incidents d)"
      by (intro update_first_none) (auto simp: find_None_iff_all)
    with None True show ?thesis by (simp add: record_incident_def)
  next
    case (Some i)
    with True show ?thesis by (simp add: record_incident_def)
  qed
  ultimately show ?thesis
    unfolding aged_def using update_first_set [of _ ?P ?f "rev (dk_incidents d)"] by fastforce
qed

lemma aged_emit: "aged d (fst (emit parse cfg now send a d))"
  using aged_record [of d a] unfolding aged_def by (simp add: emit_frame)

lemma aged_release: "aged d (fst (release_suppressions parse cfg now send d))"
  unfolding aged_def by (auto simp: release_incidents release_frame)

lemma aged_acknowledge: "aged d (fst (acknowledge_incident now iid actor remark d))"
  by (auto simp: acknowledge_incident_def Let_def split: option.splits intro: aged_same aged_update)

lemma aged_resolve: "aged d (fst (resolve_incident now iid actor remark d))"
  by (auto simp: resolve_incident_def Let_def split: option.splits intro: aged_same aged_update)

lemma aged_console:
  "aged d (fst (desk_create_silence k now s d))"
  "aged d (fst (desk_cancel_silence parse cfg now send sid actor remark d))"
  "aged d (fst (desk_put_maintenance parse cfg k now send m actor create d))"
  "aged d (fst (desk_delete_maintenance parse cfg now send nm actor d))"
proof -
  show "aged d (fst (desk_create_silence k now s d))"
    by (auto simp: desk_create_silence_def split: prod.splits intro: aged_same)
  have rel: "aged d (fst (release_suppressions parse cfg now send d'))"
    if "dk_incidents d' = dk_incidents d" "dk_next_incident d' = dk_next_incident d" for d' :: "'a desk_scheme"
    using aged_release [of d' parse cfg now send] that unfolding aged_def by simp
  have rels: "aged d (fst (release_suppressions parse cfg now send (d\<lparr>dk_silences := ss\<rparr>)))"
    "aged d (fst (release_suppressions parse cfg now send (d\<lparr>dk_maintenance := ms\<rparr>)))" "aged d d" for ss ms
    by (rule rel aged_same; simp)+
  show "aged d (fst (desk_cancel_silence parse cfg now send sid actor remark d))"
    using console_shapes(1) [of parse cfg now send sid actor remark d] rels by (elim disjE exE) simp_all
  show "aged d (fst (desk_put_maintenance parse cfg k now send m actor create d))"
    using console_shapes(2) [of parse cfg k now send m actor create d] rels by (elim disjE exE) simp_all
  show "aged d (fst (desk_delete_maintenance parse cfg now send nm actor d))"
    using console_shapes(3) [of parse cfg now send nm actor d] rels by (elim disjE exE) simp_all
qed

lemma aged_process: "aged d (fst (process_deliveries cfg now attempt d))"
  using process_frame by (intro aged_same) blast+

lemmas aged_all = aged_emit aged_acknowledge aged_resolve aged_release aged_console aged_process

lemma step_aged: "desk_step parse cfg d d' \<Longrightarrow> aged d d'"
  by (induction rule: desk_step.induct) (rule aged_all)+

lemma acknowledge_settles:
  assumes "desk_ok parse cfg d" "snd (acknowledge_incident now iid actor remark d) = None"
  shows "settled iid (fst (acknowledge_incident now iid actor remark d))"
proof -
  obtain i where i: "find (\<lambda>i. in_id i = iid) (dk_incidents d) = Some i" "in_active i" "trim_space actor \<noteq> []"
    using assms(2) by (auto simp: acknowledge_incident_def Let_def split: option.splits if_splits)
  let ?f = "\<lambda>i. i\<lparr>in_acknowledged_at := Some now, in_acknowledged_by := trim_space actor,
                            in_acknowledgement := trim_space remark\<rparr>"
  have eq: "fst (acknowledge_incident now iid actor remark d) =
      cancel_escalations iid (d\<lparr>dk_incidents := update_first (\<lambda>i. in_id i = iid) ?f (dk_incidents d)\<rparr>)"
    using i by (simp add: acknowledge_incident_def Let_def)
  obtain us vs where split: "dk_incidents d = us @ i # vs" "in_id i = iid"
    "update_first (\<lambda>i. in_id i = iid) ?f (dk_incidents d) = us @ ?f i # vs"
    using update_first_split [OF i(1), of ?f] by blast
  have dist: "distinct (map in_id (dk_incidents d))"
    using assms(1) book_ids_distinct by (auto simp: desk_ok_def)
  have bound: "iid \<le> dk_next_incident d" using assms(1) split(1,2) by (auto simp: desk_ok_def book_ok_def)
  have others: "in_id x \<noteq> iid" if "x \<in> set us \<union> set vs" for x
    using dist that split(2) by (auto simp: split(1) image_iff)
  show ?thesis
    unfolding eq settled_def using bound others split(3)
    by (auto simp: pending_escalations_def cancel_escalations_def)
qed

lemma settled_schedule:
  assumes "settled iid d"
  shows "\<forall>q \<in> set (pending_escalations (schedule_escalations cfg now d)). dl_incident_id q \<noteq> iid"
proof -
  obtain new where new: "dk_outbox (schedule_escalations cfg now d) = dk_outbox d @ new"
     "\<forall>q \<in> set new. \<exists>i \<in> set (dk_incidents d). \<exists>p \<in> set (dc_escalations cfg). escalates now i p \<and>
        dl_incident_id q = in_id i \<and> dl_escalation q = ep_name p \<and> dl_destination q = ep_destination p"
    using schedule_new by blast
  then have "\<forall>q \<in> set new. dl_incident_id q \<noteq> iid"
    using assms unfolding settled_def escalates_def by metis
  with new(1) assms show ?thesis by (auto simp: pending_escalations_def settled_def)
qed

lemma entry_key_incident: "entry_key q = entry_key r \<Longrightarrow> dl_incident_id q = dl_incident_id r"
  by (simp add: entry_key_def escalation_key_inj)

lemma settled_step:
  assumes "desk_step parse cfg d d'" "named_policies cfg" "desk_ok parse cfg d" "settled iid d"
  shows "settled iid d'"
proof -
  have aged: "aged d d'" by (rule step_aged [OF assms(1)])
  have "\<forall>i \<in> set (dk_incidents d'). in_id i = iid \<longrightarrow> \<not> in_active i \<or> in_acknowledged_at i \<noteq> None"
  proof (intro ballI impI)
    fix i' assume i': "i' \<in> set (dk_incidents d')" "in_id i' = iid"
    with aged assms(4) obtain i where "i \<in> set (dk_incidents d)" "in_id i = iid"
      "in_active i' \<longrightarrow> in_active i" "in_acknowledged_at i \<noteq> None \<longrightarrow> in_acknowledged_at i' \<noteq> None"
      unfolding aged_def settled_def by (metis not_less)
    with assms(4) show "\<not> in_active i' \<or> in_acknowledged_at i' \<noteq> None"
      unfolding settled_def by blast
  qed
  moreover have "\<forall>q \<in> set (pending_escalations d'). dl_incident_id q \<noteq> iid"
    using assms
  proof (induction rule: desk_step.induct)
    case (Process d now attempt)
    have "set (map entry_key (pending_escalations (fst (process_deliveries cfg now attempt d)))) \<subseteq>
        set (map entry_key (pending_escalations (schedule_escalations cfg now d)))"
      using Process by (intro process_pending) (auto simp: desk_ok_def)
    then have "\<exists>r \<in> set (pending_escalations (schedule_escalations cfg now d)). entry_key q = entry_key r"
      if "q \<in> set (pending_escalations (fst (process_deliveries cfg now attempt d)))" for q
      using that by auto
    with settled_schedule [OF Process(3), of cfg now] entry_key_incident show ?case by metis
  qed (rule quiet_settled, assumption, rule quiet_all)+
  moreover have "iid \<le> dk_next_incident d'" using aged assms(4) by (auto simp: aged_def settled_def)
  ultimately show ?thesis by (simp add: settled_def)
qed

lemma settled_run:
  "desk_run parse cfg d d' \<Longrightarrow> named_policies cfg \<Longrightarrow> desk_ok parse cfg d \<Longrightarrow> settled iid d \<Longrightarrow> settled iid d'"
proof (induction rule: desk_run.induct)
  case (Start d)
  then show ?case by simp
next
  case (Step d d' d'')
  then show ?case using settled_step run_ok by blast
qed

end
