(* ===== verification/Mesh.thy ===== *)
theory Mesh
  imports Interfaces Check
begin

text \<open>
  \<open>internal/mesh\<close>: which probers can still see the fleet, decided from each prober's own newest
  report. \<open>latest\<close>, \<open>Unreachable\<close> and \<open>Edges\<close> are association lists; the slices built by
  iterating \<open>latest\<close> are sorted by the code, so its order does not show.
\<close>

definition default_min_peers :: int where "default_min_peers = 2"

record peer_view =
  pv_peer :: string
  pv_reachable :: bool
  pv_detail :: string
  pv_latency :: duration

record report =
  rep_prober :: string
  rep_at :: time
  rep_peers :: "peer_view list"

definition reached :: "report \<Rightarrow> nat" where
  "reached r = length (filter pv_reachable (rep_peers r))"

record mesh_options =
  mo_now :: time
  mo_max_age :: duration
  mo_min_peers :: int

record mesh_view =
  mv_isolated :: "string list"
  mv_reporting :: "string list"
  mv_partitioned :: bool
  mv_unreachable :: "(string \<times> string list) list"
  mv_edges :: "(string \<times> (string \<times> bool) list) list"

definition view_isolated :: "mesh_view \<Rightarrow> string \<Rightarrow> bool" where
  "view_isolated st prober = List.member (mv_isolated st) prober"

definition min_peers_of :: "mesh_options \<Rightarrow> int" where
  "min_peers_of opts = (if mo_min_peers opts \<le> 0 then default_min_peers else mo_min_peers opts)"

text \<open>A report is looked at when it names its prober and is not too old.\<close>

definition report_fresh :: "mesh_options \<Rightarrow> report \<Rightarrow> bool" where
  "report_fresh opts r \<longleftrightarrow> rep_prober r \<noteq> [] \<and>
     \<not> (mo_max_age opts > 0 \<and> \<not> is_zero (mo_now opts) \<and> rep_at r < mo_now opts - mo_max_age opts)"

definition put_report :: "(string \<times> report) list \<Rightarrow> report \<Rightarrow> (string \<times> report) list" where
  "put_report latest r =
     (case map_of latest (rep_prober r) of
        Some prev \<Rightarrow> if rep_at r > rep_at prev then AList.update (rep_prober r) r latest else latest
      | None \<Rightarrow> AList.update (rep_prober r) r latest)"

definition latest_step :: "mesh_options \<Rightarrow> (string \<times> report) list \<Rightarrow> report \<Rightarrow> (string \<times> report) list"
where
  "latest_step opts latest r = (if \<not> report_fresh opts r then latest else put_report latest r)"

definition latest_reports :: "mesh_options \<Rightarrow> report list \<Rightarrow> (string \<times> report) list" where
  "latest_reports opts rs = foldl (latest_step opts) [] rs"

definition looks_isolated :: "mesh_options \<Rightarrow> report \<Rightarrow> bool" where
  "looks_isolated opts r \<longleftrightarrow> int (length (rep_peers r)) \<ge> min_peers_of opts \<and> reached r = 0"

definition add_unreachable ::
  "(string \<times> string list) list \<Rightarrow> string \<Rightarrow> peer_view list \<Rightarrow> (string \<times> string list) list" where
  "add_unreachable un name ps =
     foldl (\<lambda>u p. if pv_reachable p then u
              else AList.update (pv_peer p)
                ((case map_of u (pv_peer p) of None \<Rightarrow> [] | Some ns \<Rightarrow> ns) @ [name]) u) un ps"

definition edges_from :: "peer_view list \<Rightarrow> (string \<times> bool) list" where
  "edges_from ps = foldl (\<lambda>e p. AList.update (pv_peer p) (pv_reachable p) e) [] ps"

definition mesh_evaluate :: "report list \<Rightarrow> mesh_options \<Rightarrow> mesh_view" where
  "mesh_evaluate rs opts =
     (let latest = latest_reports opts rs;
          isolated = sort (map fst (filter (\<lambda>(name, r). looks_isolated opts r) latest)) in
      \<lparr>mv_isolated = isolated,
       mv_reporting = sort (map fst latest),
       mv_partitioned = length isolated > 1,
       mv_unreachable = map (\<lambda>(p, ns). (p, sort ns))
          (foldl (\<lambda>u (name, r). add_unreachable u name (rep_peers r)) [] latest),
       mv_edges = map (\<lambda>(name, r). (name, edges_from (rep_peers r))) latest\<rparr>)"

fun join_names_from :: "string \<Rightarrow> bool \<Rightarrow> string list \<Rightarrow> string" where
  "join_names_from out later [] = out"
| "join_names_from out later (n # ns) =
     join_names_from (if later then out @ '', '' @ n else out @ n) True ns"

definition join_names :: "string list \<Rightarrow> string" where
  "join_names ns = join_names_from [] False ns"

definition mesh_summary :: "mesh_view \<Rightarrow> string" where
  "mesh_summary s =
     (if length (mv_isolated s) = 0
      then itoa (length (mv_reporting s)) @ '' probers reporting, all can see the fleet''
      else if mv_partitioned s
      then ''fleet appears partitioned: '' @ itoa (length (mv_isolated s)) @ '' of '' @
           itoa (length (mv_reporting s)) @ '' probers can reach no peer ('' @
           join_names (mv_isolated s) @ '')''
      else mv_isolated s ! 0 @ '' can reach no peer; its results are not being counted'')"

lemma join_names_from_later: "join_names_from out True ns = out @ concat (map (\<lambda>n. '', '' @ n) ns)"
  by (induction ns arbitrary: out) simp_all

lemma join_concat: "join sep (n # ns) = n @ concat (map (\<lambda>m. sep @ m) ns)"
  by (induction ns arbitrary: n) simp_all

lemma join_names_join: "join_names ns = join '', '' ns"
  by (cases ns) (simp_all add: join_names_def join_names_from_later join_concat)

section \<open>The newest report per prober\<close>

interpretation reports_kept: newest_wins put_report map_of rep_prober rep_at
proof
  fix s :: "(string \<times> report) list" and r :: report
  assume "\<And>old. map_of s (rep_prober r) = Some old \<Longrightarrow> rep_at old < rep_at r"
  then show "map_of (put_report s r) = (map_of s)(rep_prober r \<mapsto> r)"
    by (auto simp: put_report_def AList.update_conv' split: option.splits)
next
  fix s :: "(string \<times> report) list" and r old :: report
  assume "map_of s (rep_prober r) = Some old" "rep_at r \<le> rep_at old"
  then show "map_of (put_report s r) = map_of s" by (simp add: put_report_def)
qed

lemma latest_filter: "latest_reports opts rs = foldl put_report [] (filter (report_fresh opts) rs)"
proof -
  have "foldl (latest_step opts) l rs = foldl put_report l (filter (report_fresh opts) rs)" for l
    by (induction rs arbitrary: l) (auto simp: latest_step_def)
  then show ?thesis by (simp add: latest_reports_def)
qed

lemma distinct_latest: "distinct (map fst (latest_reports opts rs))"
proof -
  have "distinct (map fst l) \<Longrightarrow> distinct (map fst (foldl put_report l xs))" for l xs
    by (induction xs arbitrary: l) (auto simp: put_report_def distinct_update split: option.splits)
  then show ?thesis by (simp add: latest_filter)
qed

lemma latest_newest:
  "reports_kept.newest_of {r \<in> set rs. report_fresh opts r} (map_of (latest_reports opts rs))"
  using reports_kept.run_newest [of "[]" "filter (report_fresh opts) rs"]
  by (simp add: latest_filter)

text \<open>The newest fresh reports of one prober: what isolation is decided from.\<close>

definition newest_report :: "mesh_options \<Rightarrow> report list \<Rightarrow> report \<Rightarrow> bool" where
  "newest_report opts rs r \<longleftrightarrow> r \<in> set rs \<and> report_fresh opts r \<and>
     (\<forall>r' \<in> set rs. report_fresh opts r' \<longrightarrow> rep_prober r' = rep_prober r \<longrightarrow> rep_at r' \<le> rep_at r)"

lemma latest_is_newest:
  "map_of (latest_reports opts rs) p = Some r \<Longrightarrow> newest_report opts rs r \<and> rep_prober r = p"
  using reports_kept.newest_of_held [OF latest_newest, of opts rs p r]
  by (simp add: newest_report_def)

lemma latest_exists:
  assumes "r \<in> set rs" and "report_fresh opts r"
  shows "\<exists>r'. map_of (latest_reports opts rs) (rep_prober r) = Some r'"
  using reports_kept.newest_of_absent [OF latest_newest, of opts rs "rep_prober r"] assms
  by (cases "map_of (latest_reports opts rs) (rep_prober r)") auto

lemma isolated_iff_latest:
  "p \<in> set (mv_isolated (mesh_evaluate rs opts)) \<longleftrightarrow>
   (\<exists>r. map_of (latest_reports opts rs) p = Some r \<and> looks_isolated opts r)"
proof -
  have "p \<in> set (mv_isolated (mesh_evaluate rs opts)) \<longleftrightarrow>
      (\<exists>r. (p, r) \<in> set (latest_reports opts rs) \<and> looks_isolated opts r)"
    by (force simp: mesh_evaluate_def Let_def)
  then show ?thesis
    using map_of_is_SomeI [OF distinct_latest] map_of_SomeD by fastforce
qed

lemma reporting_iff:
  "p \<in> set (mv_reporting (mesh_evaluate rs opts)) \<longleftrightarrow>
   (\<exists>r \<in> set rs. report_fresh opts r \<and> rep_prober r = p)"
proof -
  have "p \<in> set (mv_reporting (mesh_evaluate rs opts)) \<longleftrightarrow>
      map_of (latest_reports opts rs) p \<noteq> None"
    by (simp add: mesh_evaluate_def Let_def map_of_eq_None_iff)
  then show ?thesis
    using latest_exists [of _ rs opts] latest_is_newest [of opts rs p]
    by (fastforce simp: newest_report_def)
qed

lemma isolated_sorted_distinct:
  "sorted (mv_isolated (mesh_evaluate rs opts)) \<and> distinct (mv_isolated (mesh_evaluate rs opts))"
  using distinct_latest [of opts rs]
  by (simp add: mesh_evaluate_def Let_def distinct_map_filter)

text \<open>When a prober's reports carry distinct times, its newest report is unique and isolation is
  exactly what this report says.\<close>

lemma isolated_iff_newest:
  assumes "\<And>r r'. r \<in> set rs \<Longrightarrow> r' \<in> set rs \<Longrightarrow> rep_prober r = p \<Longrightarrow> rep_prober r' = p \<Longrightarrow>
      rep_at r = rep_at r' \<Longrightarrow> r = r'"
  shows "p \<in> set (mv_isolated (mesh_evaluate rs opts)) \<longleftrightarrow>
    (\<exists>r. newest_report opts rs r \<and> rep_prober r = p \<and> looks_isolated opts r)"
proof
  assume "p \<in> set (mv_isolated (mesh_evaluate rs opts))"
  then obtain r where "map_of (latest_reports opts rs) p = Some r" and l: "looks_isolated opts r"
    by (auto simp: isolated_iff_latest)
  from latest_is_newest [OF this(1)] l
  show "\<exists>r. newest_report opts rs r \<and> rep_prober r = p \<and> looks_isolated opts r" by blast
next
  assume "\<exists>r. newest_report opts rs r \<and> rep_prober r = p \<and> looks_isolated opts r"
  then obtain r where r: "newest_report opts rs r" "rep_prober r = p" "looks_isolated opts r"
    by blast
  then obtain r' where r': "map_of (latest_reports opts rs) p = Some r'"
    using latest_exists [of r rs opts] by (auto simp: newest_report_def)
  then have n: "newest_report opts rs r'" "rep_prober r' = p" using latest_is_newest by auto
  with r have "rep_at r = rep_at r'" by (auto simp: newest_report_def intro!: order_antisym)
  then have "r = r'" using assms r n by (auto simp: newest_report_def)
  with r r' show "p \<in> set (mv_isolated (mesh_evaluate rs opts))"
    by (auto simp: isolated_iff_latest)
qed

lemma latest_own: "map_of (latest_reports opts rs) p =
    map_of (latest_reports opts (filter (\<lambda>r. rep_prober r = p) rs)) p"
proof -
  have own: "map_of (foldl put_report l xs) p =
      map_of (foldl put_report l' (filter (\<lambda>r. rep_prober r = p) xs)) p"
    if "map_of l p = map_of l' p" for l l' xs
    using that
  proof (induction xs arbitrary: l l')
    case Nil
    then show ?case by simp
  next
    case (Cons x xs)
    have "map_of (put_report l x) p = map_of (if rep_prober x = p then put_report l' x else l') p"
      using Cons.prems
      by (auto simp: put_report_def AList.update_conv' split: option.splits)
    from Cons.IH [OF this] show ?case by simp
  qed
  show ?thesis
    unfolding latest_filter
    using own [of "[]" "[]" "filter (report_fresh opts) rs"] by (simp add: conj_commute)
qed

end
