(* ===== verification/History.thy ===== *)
theory History
  imports Fleet
begin

text \<open>
  Observation history (\<open>internal/coordinator/history.go\<close>): every accepted result is kept per check,
  ordered by the time it was received, within the retention window and a per-check bound. The
  identifier of an observation (a hash of its JSON) is the parameter \<open>mk_id\<close>, the reading of an
  RFC 3339 time the parameter \<open>parse_time\<close> (zero when it fails); the journal file is not modelled.
\<close>

record observation =
  ob_id :: string
  ob_check :: string
  ob_kind :: kind
  ob_target :: string
  ob_prober :: string
  ob_provider :: string
  ob_proxy_profile :: string
  ob_egress :: string
  ob_status :: status
  ob_verdict :: status
  ob_observed_at :: time
  ob_received_at :: time
  ob_latency_ms :: int
  ob_detail :: string
  ob_source :: string
  ob_suppressed :: bool
  ob_dns_answers :: "string list"
  ob_tls_common_name :: string
  ob_tls_expires_at :: time

definition default_history_retention :: duration where "default_history_retention = 30 * 24 * hour"
definition default_history_max :: nat where "default_history_max = 10000"

record history_config =
  hc_retention :: duration
  hc_max_per_check :: int

definition history_retention :: "history_config \<Rightarrow> duration" where
  "history_retention h = (if hc_retention h > 0 then hc_retention h else default_history_retention)"

definition history_max :: "history_config \<Rightarrow> nat" where
  "history_max h = (if hc_max_per_check h > 0 then nat (hc_max_per_check h) else default_history_max)"

section \<open>Binary search\<close>

text \<open>\<open>sort.Search\<close> on the half-open range from \<open>i\<close> to \<open>j\<close>.\<close>

function search_between :: "(nat \<Rightarrow> bool) \<Rightarrow> nat \<Rightarrow> nat \<Rightarrow> nat" where
  "search_between f i j =
     (if i < j then
        (let h = (i + j) div 2 in if \<not> f h then search_between f (Suc h) j else search_between f i h)
      else i)"
  by pat_completeness auto
termination
  by (relation "measure (\<lambda>(f, i, j). j - i)") auto

declare search_between.simps [simp del]

definition search :: "nat \<Rightarrow> (nat \<Rightarrow> bool) \<Rightarrow> nat" where
  "search n f = search_between f 0 n"

text \<open>\<open>k\<close> separates the positions below \<open>n\<close> at which \<open>f\<close> fails from those at which it holds.\<close>

definition cut :: "(nat \<Rightarrow> bool) \<Rightarrow> nat \<Rightarrow> nat \<Rightarrow> bool" where
  "cut f n k \<longleftrightarrow> k \<le> n \<and> (\<forall>x < k. \<not> f x) \<and> (\<forall>x. k \<le> x \<and> x < n \<longrightarrow> f x)"

definition upward :: "(nat \<Rightarrow> bool) \<Rightarrow> nat \<Rightarrow> bool" where
  "upward f n \<longleftrightarrow> (\<forall>x y. x \<le> y \<longrightarrow> y < n \<longrightarrow> f x \<longrightarrow> f y)"

lemma search_between_cut:
  "upward f n \<Longrightarrow> i \<le> j \<Longrightarrow> j \<le> n \<Longrightarrow> \<forall>x < i. \<not> f x \<Longrightarrow> \<forall>x. j \<le> x \<and> x < n \<longrightarrow> f x \<Longrightarrow>
   cut f n (search_between f i j)"
proof (induction f i j rule: search_between.induct)
  case (1 f i j)
  show ?case
  proof (cases "i < j")
    case False
    with "1.prems" have "i = j" by simp
    with "1.prems" show ?thesis by (subst search_between.simps) (simp add: cut_def)
  next
    case True
    let ?h = "(i + j) div 2"
    have h: "i \<le> ?h" "?h < j" using True by auto
    show ?thesis
    proof (cases "f ?h")
      case False
      have before: "\<forall>x < Suc ?h. \<not> f x"
      proof (intro allI impI notI)
        fix x assume "x < Suc ?h" "f x"
        then have "x \<le> ?h" "?h < n" using h(2) "1.prems"(3) by auto
        with "1.prems"(1) \<open>f x\<close> False show False unfolding upward_def by blast
      qed
      have "cut f n (search_between f (Suc ?h) j)"
        using "1.IH"(1) [OF True refl False "1.prems"(1) _ "1.prems"(3) before "1.prems"(5)] h by simp
      with True False show ?thesis by (subst search_between.simps) (simp add: Let_def)
    next
      case fh: True
      have after: "\<forall>x. ?h \<le> x \<and> x < n \<longrightarrow> f x"
        using "1.prems"(1) fh unfolding upward_def by blast
      have "cut f n (search_between f i ?h)"
        using "1.IH"(2) [OF True refl _ "1.prems"(1) h(1) _ "1.prems"(4) after] fh h(2) "1.prems"(3) by simp
      with True fh show ?thesis by (subst search_between.simps) (simp add: Let_def)
    qed
  qed
qed

lemma search_cut: "upward f n \<Longrightarrow> cut f n (search n f)"
  unfolding search_def by (rule search_between_cut) auto

section \<open>Keeping observations\<close>

fun split_sep :: "string \<Rightarrow> string \<Rightarrow> string \<Rightarrow> string list" where
  "split_sep sep acc [] = [acc]"
| "split_sep sep acc (c # cs) =
     (if sep \<noteq> [] \<and> has_prefix (c # cs) sep then acc # split_sep sep [] (drop (length sep - 1) cs)
      else split_sep sep (acc @ [c]) cs)"

definition expiry_step :: "(string \<Rightarrow> time) \<Rightarrow> time \<Rightarrow> string \<Rightarrow> time" where
  "expiry_step parse_time t part =
     (if has_prefix part ''expires '' then parse_time (drop 8 part) else t)"

definition add_protocol_metadata :: "(string \<Rightarrow> time) \<Rightarrow> observation \<Rightarrow> observation" where
  "add_protocol_metadata parse_time o1 =
     (case ob_kind o1 of
        KindDNS \<Rightarrow>
          if (ob_status o1 = StatusUp \<or> ob_status o1 = StatusWarning) \<and> ob_detail o1 \<noteq> []
          then o1\<lparr>ob_dns_answers := split_on (byte 10) (ob_detail o1)\<rparr> else o1
      | KindTLS \<Rightarrow>
          (let parts = split_sep ''; '' [] (ob_detail o1);
               o2 = (if length parts \<ge> 2 then o1\<lparr>ob_tls_common_name := parts ! 1\<rparr> else o1)
           in o2\<lparr>ob_tls_expires_at := foldl (expiry_step parse_time) (ob_tls_expires_at o2) parts\<rparr>)
      | _ \<Rightarrow> o1)"

definition observe ::
  "(string \<Rightarrow> time) \<Rightarrow> (observation \<Rightarrow> string) \<Rightarrow> time \<Rightarrow> check \<Rightarrow> result \<Rightarrow> string \<Rightarrow> bool \<Rightarrow> status \<Rightarrow>
   observation" where
  "observe parse_time mk_id now chk r source suppressed verdict =
     (let o1 = add_protocol_metadata parse_time
            \<lparr>ob_id = [], ob_check = c_name chk, ob_kind = c_kind chk, ob_target = c_target chk,
             ob_prober = r_prober r, ob_provider = r_provider r,
             ob_proxy_profile = r_proxy_profile r, ob_egress = r_egress r,
             ob_status = r_status r, ob_verdict = verdict, ob_observed_at = r_at r,
             ob_received_at = now, ob_latency_ms = quot (r_latency r) millisecond,
             ob_detail = r_detail r, ob_source = source, ob_suppressed = suppressed,
             ob_dns_answers = [], ob_tls_common_name = [], ob_tls_expires_at = zero_time\<rparr>
      in if ob_id o1 \<noteq> [] then o1 else o1\<lparr>ob_id := mk_id o1\<rparr>)"

text \<open>A missing key of the history map reads as the empty slice.\<close>

definition kept :: "(string \<times> observation list) list \<Rightarrow> string \<Rightarrow> observation list" where
  "kept h n = (case map_of h n of None \<Rightarrow> [] | Some xs \<Rightarrow> xs)"

definition insert_observation :: "observation \<Rightarrow> observation list \<Rightarrow> observation list" where
  "insert_observation x items =
     (let at = search (length items) (\<lambda>i. ob_received_at (items ! i) > ob_received_at x)
      in take at items @ [x] @ drop at items)"

definition trim_observations :: "history_config \<Rightarrow> time \<Rightarrow> observation list \<Rightarrow> observation list" where
  "trim_observations hc now items =
     (let cutoff = now - history_retention hc;
          first = search (length items) (\<lambda>i. \<not> ob_received_at (items ! i) < cutoff);
          items = drop first items
      in if length items > history_max hc then drop (length items - history_max hc) items else items)"

definition append_history ::
  "history_config \<Rightarrow> time \<Rightarrow> (string \<times> observation list) list \<Rightarrow> observation \<Rightarrow>
   (string \<times> observation list) list" where
  "append_history hc now h x =
     AList.update (ob_check x) (trim_observations hc now (insert_observation x (kept h (ob_check x)))) h"

section \<open>Reading it\<close>

definition history_of ::
  "history_config \<Rightarrow> time \<Rightarrow> (string \<times> observation list) list \<Rightarrow> string \<Rightarrow> time \<Rightarrow> int \<Rightarrow>
   observation list" where
  "history_of hc now h name since limit =
     (let cutoff = now - history_retention hc;
          since = (if is_zero since \<or> since < cutoff then cutoff else since);
          pick = filter (\<lambda>x. \<not> ob_received_at x < since);
          out = (if name \<noteq> [] then pick (kept h name)
                 else sort_key ob_received_at (concat (map (\<lambda>(n, items). pick items) h)))
      in if limit > 0 \<and> int (length out) > limit then drop (length out - nat limit) out else out)"

definition answered :: "status \<Rightarrow> bool" where
  "answered s \<longleftrightarrow> s = StatusUp \<or> s = StatusWarning"

record history_summary =
  hs_check :: string
  hs_samples :: nat
  hs_up :: nat
  hs_down :: nat
  hs_warning :: nat
  hs_unknown :: nat
  hs_suppressed :: nat
  hs_corroborations :: nat
  hs_latencies :: "int list"
  hs_first :: time
  hs_last :: time

definition summary0 :: "string \<Rightarrow> history_summary" where
  "summary0 n = \<lparr>hs_check = n, hs_samples = 0, hs_up = 0, hs_down = 0, hs_warning = 0,
     hs_unknown = 0, hs_suppressed = 0, hs_corroborations = 0, hs_latencies = [],
     hs_first = zero_time, hs_last = zero_time\<rparr>"

text \<open>The verdict an observation is filed under: the empty string falls back to its own status.\<close>

definition filed_under :: "observation \<Rightarrow> status" where
  "filed_under x = (if ob_verdict x = StatusOther [] then ob_status x else ob_verdict x)"

definition summarise_one :: "history_summary \<Rightarrow> observation \<Rightarrow> history_summary" where
  "summarise_one s x =
     (let s = s\<lparr>hs_samples := Suc (hs_samples s),
                hs_first := (if hs_samples s = 0 then ob_received_at x else hs_first s),
                hs_last := ob_received_at x\<rparr> in
      if ob_source x = ''corroboration'' then s\<lparr>hs_corroborations := Suc (hs_corroborations s)\<rparr>
      else if ob_suppressed x then s\<lparr>hs_suppressed := Suc (hs_suppressed s)\<rparr>
      else
        (let v = filed_under x;
             s = (case v of
                    StatusUp \<Rightarrow> s\<lparr>hs_up := Suc (hs_up s)\<rparr>
                  | StatusWarning \<Rightarrow> s\<lparr>hs_warning := Suc (hs_warning s)\<rparr>
                  | StatusDown \<Rightarrow> s\<lparr>hs_down := Suc (hs_down s)\<rparr>
                  | _ \<Rightarrow> s\<lparr>hs_unknown := Suc (hs_unknown s)\<rparr>)
         in if answered v \<and> answered (ob_status x) \<and> ob_latency_ms x \<ge> 0
            then s\<lparr>hs_latencies := hs_latencies s @ [ob_latency_ms x]\<rparr> else s))"

definition summarise ::
  "history_config \<Rightarrow> time \<Rightarrow> (string \<times> observation list) list \<Rightarrow> string \<Rightarrow> history_summary" where
  "summarise hc now h n =
     foldl summarise_one (summary0 n)
       (filter (\<lambda>x. \<not> ob_received_at x < now - history_retention hc) (kept h n))"

definition p95 :: "int list \<Rightarrow> int" where
  "p95 latencies = sort latencies ! ((length latencies * 95 + 99) div 100 - 1)"

definition average :: "int list \<Rightarrow> int" where
  "average latencies = quot (sum_list latencies) (int (length latencies))"

section \<open>Order and bounds\<close>

definition received_sorted :: "observation list \<Rightarrow> bool" where
  "received_sorted xs \<longleftrightarrow> sorted (map ob_received_at xs)"

lemma sorted_nth_le: "received_sorted xs \<Longrightarrow> i \<le> j \<Longrightarrow> j < length xs \<Longrightarrow>
    ob_received_at (xs ! i) \<le> ob_received_at (xs ! j)"
  using sorted_nth_mono [of "map ob_received_at xs" i j] by (simp add: received_sorted_def)

text \<open>Positions of a sorted list and the entries before and after a cut.\<close>

lemma cut_take: "cut (\<lambda>i. P (xs ! i)) (length xs) k \<Longrightarrow> y \<in> set (take k xs) \<Longrightarrow> \<not> P y"
  by (auto simp: cut_def in_set_conv_nth)

lemma cut_drop:
  assumes "cut (\<lambda>i. P (xs ! i)) (length xs) k" "y \<in> set (drop k xs)"
  shows "P y"
proof -
  obtain i where "i < length (drop k xs)" "y = drop k xs ! i" using assms(2) by (auto simp: in_set_conv_nth)
  with assms(1) show ?thesis by (simp add: cut_def)
qed

lemma received_upward:
  assumes "received_sorted xs" "\<And>t u. t \<le> u \<Longrightarrow> P t \<Longrightarrow> P u"
  shows "upward (\<lambda>i. P (ob_received_at (xs ! i))) (length xs)"
  unfolding upward_def using assms(2) sorted_nth_le [OF assms(1)] by blast

definition insert_at :: "observation \<Rightarrow> observation list \<Rightarrow> nat" where
  "insert_at x items = search (length items) (\<lambda>i. ob_received_at (items ! i) > ob_received_at x)"

lemma insert_at_cut:
  "received_sorted items \<Longrightarrow>
   cut (\<lambda>i. ob_received_at (items ! i) > ob_received_at x) (length items) (insert_at x items)"
  unfolding insert_at_def
  by (intro search_cut received_upward [where P = "\<lambda>t. t > ob_received_at x"]) auto

lemma insert_point:
  assumes "received_sorted items"
  shows "y \<in> set (take (insert_at x items) items) \<Longrightarrow> ob_received_at y \<le> ob_received_at x"
    and "y \<in> set (drop (insert_at x items) items) \<Longrightarrow> ob_received_at x < ob_received_at y"
  using cut_take [where P = "\<lambda>y. ob_received_at y > ob_received_at x", OF insert_at_cut [OF assms]]
    cut_drop [where P = "\<lambda>y. ob_received_at y > ob_received_at x", OF insert_at_cut [OF assms]]
  by (auto simp: not_less)

lemma insert_observation_at:
  "insert_observation x items = take (insert_at x items) items @ x # drop (insert_at x items) items"
  by (simp add: insert_observation_def insert_at_def Let_def)

lemma insert_sorted: "received_sorted items \<Longrightarrow> received_sorted (insert_observation x items)"
proof -
  assume s: "received_sorted items"
  let ?k = "insert_at x items"
  have "sorted (map ob_received_at (take ?k items))" "sorted (map ob_received_at (drop ?k items))"
    using s by (simp_all add: received_sorted_def take_map [symmetric] drop_map [symmetric] sorted_wrt_take sorted_wrt_drop)
  moreover have "ob_received_at y \<le> ob_received_at z"
    if "y \<in> set (take ?k items)" "z \<in> set (drop ?k items)" for y z
    using insert_point(1) [OF s that(1)] insert_point(2) [OF s that(2)] by simp
  ultimately show ?thesis
    using insert_point [OF s, of _ x]
    by (auto simp: insert_observation_at received_sorted_def sorted_append less_imp_le)
qed

lemma insert_mset: "mset (insert_observation x items) = add_mset x (mset items)"
proof -
  have "mset (take n items) + mset (drop n items) = mset items" for n
    by (metis append_take_drop_id mset_append)
  then show ?thesis by (simp add: insert_observation_def Let_def)
qed

text \<open>Trimming keeps the newest of what is inside the window.\<close>

lemma trim_spec:
  assumes "received_sorted items"
  shows "trim_observations hc now items =
    last_n (history_max hc) (filter (\<lambda>x. now - history_retention hc \<le> ob_received_at x) items)"
proof -
  let ?c = "now - history_retention hc"
  let ?first = "search (length items) (\<lambda>i. \<not> ob_received_at (items ! i) < ?c)"
  have cut: "cut (\<lambda>i. \<not> ob_received_at (items ! i) < ?c) (length items) ?first"
    by (intro search_cut received_upward [where P = "\<lambda>t. \<not> t < ?c", OF assms]) auto
  have "\<not> ?c \<le> ob_received_at y" if "y \<in> set (take ?first items)" for y
    using cut_take [where P = "\<lambda>y. \<not> ob_received_at y < ?c", OF cut that] by simp
  then have "filter (\<lambda>x. ?c \<le> ob_received_at x) (take ?first items) = []"
    by (simp add: filter_empty_conv)
  moreover have "?c \<le> ob_received_at y" if "y \<in> set (drop ?first items)" for y
    using cut_drop [where P = "\<lambda>y. \<not> ob_received_at y < ?c", OF cut that] by simp
  then have "filter (\<lambda>x. ?c \<le> ob_received_at x) (drop ?first items) = drop ?first items"
    by (simp add: filter_id_conv)
  ultimately have "filter (\<lambda>x. ?c \<le> ob_received_at x) items = drop ?first items"
    by (metis append_take_drop_id append_Nil filter_append)
  then show ?thesis by (simp add: trim_observations_def Let_def last_n_def)
qed

definition history_ok :: "history_config \<Rightarrow> (string \<times> observation list) list \<Rightarrow> bool" where
  "history_ok hc h \<longleftrightarrow> (\<forall>n. received_sorted (kept h n) \<and> length (kept h n) \<le> history_max hc)"

lemma kept_append:
  "kept (append_history hc now h x) n =
     (if n = ob_check x then trim_observations hc now (insert_observation x (kept h n)) else kept h n)"
  by (simp add: kept_def append_history_def AList.update_conv')

lemma append_history_ok: "history_ok hc h \<Longrightarrow> history_ok hc (append_history hc now h x)"
proof -
  assume ok: "history_ok hc h"
  have "received_sorted (trim_observations hc now (insert_observation x (kept h n))) \<and>
      length (trim_observations hc now (insert_observation x (kept h n))) \<le> history_max hc" for n
  proof -
    have "received_sorted (insert_observation x (kept h n))"
      using ok insert_sorted by (simp add: history_ok_def)
    note t = trim_spec [OF this, of hc now]
    have "sorted (map ob_received_at (filter P xs))" if "received_sorted xs" for P and xs :: "observation list"
      using that by (simp add: received_sorted_def sorted_filter)
    with \<open>received_sorted (insert_observation x (kept h n))\<close> show ?thesis
      unfolding t by (simp add: received_sorted_def map_last_n sorted_last_n)
  qed
  with ok show ?thesis by (simp add: history_ok_def kept_append)
qed

text \<open>Every sample of a summary is counted exactly once.\<close>

lemma summarise_count:
  "hs_samples (foldl summarise_one s xs) = hs_samples s + length xs \<and>
   hs_up (foldl summarise_one s xs) + hs_down (foldl summarise_one s xs) +
     hs_warning (foldl summarise_one s xs) + hs_unknown (foldl summarise_one s xs) +
     hs_suppressed (foldl summarise_one s xs) + hs_corroborations (foldl summarise_one s xs) =
   hs_up s + hs_down s + hs_warning s + hs_unknown s + hs_suppressed s + hs_corroborations s + length xs"
proof (induction xs arbitrary: s)
  case Nil
  then show ?case by simp
next
  case (Cons x xs)
  have "hs_samples (summarise_one s x) = Suc (hs_samples s) \<and>
    hs_up (summarise_one s x) + hs_down (summarise_one s x) + hs_warning (summarise_one s x) +
      hs_unknown (summarise_one s x) + hs_suppressed (summarise_one s x) + hs_corroborations (summarise_one s x) =
    Suc (hs_up s + hs_down s + hs_warning s + hs_unknown s + hs_suppressed s + hs_corroborations s)"
    by (auto simp: summarise_one_def Let_def split: status.splits)
  with Cons show ?case by simp
qed

end
