(* ===== verification/Watchdog.thy ===== *)
theory Watchdog
  imports Console Mesh History
begin

text \<open>
  The coordinator's whole decision state and the two watches of
  \<open>internal/coordinator/watchdog.go\<close>: inward, which checks nobody reports on any more and which
  prober has gone silent; outward, whether its own heartbeat gets through. The mesh half
  (\<open>mesh.go\<close>, \<open>assign.go\<close>) reads the same state. A handler reads the clock once, as \<open>now\<close>.
\<close>

section \<open>State and configuration\<close>

record coord = desk +
  co_checks :: "check list"
  co_states :: "(string \<times> entity_state) list"
  co_component_states :: "(string \<times> entity_state) list"
  co_last_scheduled :: "(string \<times> time) list"
  co_reports :: "(string \<times> report) list"
  co_isolated :: "string list"
  co_silent :: "(string \<times> bool) list"
  co_recovery :: "(string \<times> time) list"
  co_overruled :: "((string \<times> string) \<times> nat) list"
  co_history :: "(string \<times> observation list) list"
  co_beat_failures :: nat
  co_started_at :: time

record coord_config = desk_config +
  cc_peers :: "peer list"
  cc_components :: "component list"
  cc_result_max_age :: duration
  cc_stale_multiplier :: int
  cc_stale_grace :: duration
  cc_mesh_max_age :: duration
  cc_mesh_min_peers :: int
  cc_heartbeat_interval :: duration
  cc_history :: history_config

text \<open>What the coordinator calls that is not its own: the two parsers, the naming of an
  observation and the notifiers.\<close>

record world =
  w_parse_duration :: "string \<Rightarrow> duration option"
  w_parse_time :: "string \<Rightarrow> time"
  w_observation_id :: "observation \<Rightarrow> string"
  w_send :: "string \<Rightarrow> alert \<Rightarrow> string option"

definition check_by_name :: "coord \<Rightarrow> string \<Rightarrow> check option" where
  "check_by_name co n = find (\<lambda>c. c_name c = n) (co_checks co)"

definition state_of :: "(string \<times> entity_state) list \<Rightarrow> string \<Rightarrow> entity_state" where
  "state_of m n = (case map_of m n of None \<Rightarrow> new_entity | Some st \<Rightarrow> st)"

definition flag :: "(string \<times> bool) list \<Rightarrow> string \<Rightarrow> bool" where
  "flag m n = (case map_of m n of None \<Rightarrow> False | Some b \<Rightarrow> b)"

definition time_of :: "(string \<times> time) list \<Rightarrow> string \<Rightarrow> time" where
  "time_of m n = (case map_of m n of None \<Rightarrow> zero_time | Some t \<Rightarrow> t)"

section \<open>Mesh view and availability\<close>

definition default_mesh_max_age :: duration where "default_mesh_max_age = 3 * minute"

definition mesh_of :: "coord_config \<Rightarrow> time \<Rightarrow> coord \<Rightarrow> mesh_view" where
  "mesh_of cfg now co = mesh_evaluate (map snd (co_reports co))
     \<lparr>mo_now = now,
      mo_max_age = (if cc_mesh_max_age cfg \<le> 0 then default_mesh_max_age else cc_mesh_max_age cfg),
      mo_min_peers = cc_mesh_min_peers cfg\<rparr>"

definition isolated_probers :: "coord_config \<Rightarrow> time \<Rightarrow> coord \<Rightarrow> string \<Rightarrow> bool" where
  "isolated_probers cfg now co n = List.member (mv_isolated (mesh_of cfg now co)) n"

definition unavailable_probers :: "coord_config \<Rightarrow> time \<Rightarrow> coord \<Rightarrow> string \<Rightarrow> bool" where
  "unavailable_probers cfg now co n \<longleftrightarrow> isolated_probers cfg now co n \<or> flag (co_silent co) n"

section \<open>How late is too late\<close>

definition default_stale_multiplier :: int where "default_stale_multiplier = 3"
definition default_stale_grace :: duration where "default_stale_grace = 30 * second"

definition stale_after :: "coord_config \<Rightarrow> check \<Rightarrow> duration" where
  "stale_after cfg chk =
     (let mult = (if cc_stale_multiplier cfg \<le> 0 then default_stale_multiplier else cc_stale_multiplier cfg);
          grace = (if cc_stale_grace cfg \<le> 0 then default_stale_grace else cc_stale_grace cfg)
      in wrap64 (wrap64 (c_interval chk * mult) + grace))"

definition mesh_recovery_active :: "coord_config \<Rightarrow> time \<Rightarrow> coord \<Rightarrow> check \<Rightarrow> string \<Rightarrow> bool" where
  "mesh_recovery_active cfg now co chk prober =
     (let recovered = time_of (co_recovery co) prober in
      \<not> is_zero recovered \<and> sub_time now recovered \<le> stale_after cfg chk)"

definition effective_owner :: "coord_config \<Rightarrow> time \<Rightarrow> coord \<Rightarrow> check \<Rightarrow> string option" where
  "effective_owner cfg now co chk =
     assigned_to (cc_peers cfg) (unavailable_probers cfg now co) (mesh_recovery_active cfg now co chk) chk"

definition last_heard :: "coord_config \<Rightarrow> coord \<Rightarrow> check \<Rightarrow> time" where
  "last_heard cfg co chk =
     (let last = (case map_of (co_states co) (c_name chk) of
            None \<Rightarrow> co_started_at co
          | Some st \<Rightarrow> if \<not> is_zero (es_last_verdict st) then es_last_verdict st else co_started_at co)
      in case base_assigned_to (cc_peers cfg) chk of
           None \<Rightarrow> last
         | Some resp \<Rightarrow> (let recovered = time_of (co_recovery co) resp in
             if recovered > last then recovered else last))"

definition stale_checks :: "coord_config \<Rightarrow> time \<Rightarrow> coord \<Rightarrow> (string \<times> duration) list" where
  "stale_checks cfg now co =
     map (\<lambda>chk. (c_name chk, sub_time now (last_heard cfg co chk)))
       (filter (\<lambda>chk. sub_time now (last_heard cfg co chk) > stale_after cfg chk) (co_checks co))"

section \<open>Silent probers\<close>

definition unassigned :: string where "unassigned = ''(unassigned)''"

definition responsible :: "coord_config \<Rightarrow> coord \<Rightarrow> string \<Rightarrow> string" where
  "responsible cfg co n =
     (case check_by_name co n of
        None \<Rightarrow> unassigned
      | Some chk \<Rightarrow> (case base_assigned_to (cc_peers cfg) chk of None \<Rightarrow> unassigned | Some p \<Rightarrow> p))"

definition group_step :: "(string \<Rightarrow> string) \<Rightarrow> (string \<times> string list) list \<Rightarrow> string \<Rightarrow>
    (string \<times> string list) list" where
  "group_step who m n = AList.update (who n)
     ((case map_of m (who n) of None \<Rightarrow> [] | Some ns \<Rightarrow> ns) @ [n]) m"

definition by_prober :: "coord_config \<Rightarrow> coord \<Rightarrow> string list \<Rightarrow> (string \<times> string list) list" where
  "by_prober cfg co stale = foldl (group_step (responsible cfg co)) [] stale"

definition silence_alert ::
  "coord \<Rightarrow> (string \<times> duration) list \<Rightarrow> time \<Rightarrow> string \<Rightarrow> string list \<Rightarrow> alert" where
  "silence_alert co silent_for now who checks =
     (let names = sort checks;
          longest = foldl (\<lambda>l n. case map_of silent_for n of None \<Rightarrow> l | Some d \<Rightarrow> if d > l then d else l) 0 names
      in empty_alert\<lparr>al_prober := who, al_kind := KindSilent, al_at := now,
           al_members := map (\<lambda>n. \<lparr>m_check = n,
             m_target = (case check_by_name co n of None \<Rightarrow> [] | Some c \<Rightarrow> c_target c),
             m_status = StatusUnknown\<rparr>) names,
           al_detail := ''no results for '' @ dur_string (round_second longest) @
             ''; these checks are not being run''\<rparr>)"

definition apply_silence ::
  "coord \<Rightarrow> (string \<times> duration) list \<Rightarrow> time \<Rightarrow> (string \<times> string list) list \<Rightarrow>
   (string \<times> bool) list \<times> alert list" where
  "apply_silence co silent_for now groups =
     (let (silent, out) = foldl (\<lambda>(silent, out) (who, checks).
            if flag silent who then (silent, out)
            else (AList.update who True silent, out @ [silence_alert co silent_for now who checks]))
          (co_silent co, []) groups
      in (silent, sort_key al_prober out))"

definition mark_result_reporting :: "string \<Rightarrow> coord \<Rightarrow> coord \<times> bool" where
  "mark_result_reporting prober co =
     (let co = co\<lparr>co_recovery := AList.delete prober (co_recovery co)\<rparr> in
      if \<not> flag (co_silent co) prober then (co, False)
      else (co\<lparr>co_silent := AList.update prober False (co_silent co)\<rparr>, True))"

definition begin_mesh_recovery :: "string \<Rightarrow> time \<Rightarrow> coord \<Rightarrow> coord" where
  "begin_mesh_recovery prober now co =
     (if \<not> flag (co_silent co) prober \<or> \<not> is_zero (time_of (co_recovery co) prober) then co
      else co\<lparr>co_recovery := AList.update prober now (co_recovery co)\<rparr>)"

section \<open>Emitting from the coordinator\<close>

definition co_emit :: "world \<Rightarrow> coord_config \<Rightarrow> time \<Rightarrow> alert \<Rightarrow> coord \<times> event list \<Rightarrow> coord \<times> event list" where
  "co_emit w cfg now a ce =
     (let (co, evs) = ce; (co', evs') = emit (w_parse_duration w) cfg now (w_send w) a co in (co', evs @ evs'))"

section \<open>Components\<close>

definition components_for :: "coord_config \<Rightarrow> string \<Rightarrow> component list" where
  "components_for cfg n = filter (\<lambda>c. List.member (comp_checks c) n) (cc_components cfg)"

definition check_statuses :: "coord \<Rightarrow> string list \<Rightarrow> string \<Rightarrow> status option" where
  "check_statuses co names n =
     (if List.member names n then map_option reported (map_of (co_states co) n) else None)"

definition members_of :: "coord \<Rightarrow> component \<Rightarrow> member list" where
  "members_of co cm =
     map (\<lambda>n. \<lparr>m_check = n,
        m_target = (case check_by_name co n of None \<Rightarrow> [] | Some c \<Rightarrow> c_target c),
        m_status = (case check_statuses co (comp_checks cm) n of None \<Rightarrow> StatusUnknown | Some s \<Rightarrow> s)\<rparr>)
       (comp_checks cm)"

definition earliest_step :: "coord \<Rightarrow> time \<Rightarrow> string \<Rightarrow> time" where
  "earliest_step co earliest n =
     (case map_of (co_states co) n of
        None \<Rightarrow> earliest
      | Some st \<Rightarrow>
          let at = es_suspected_since st in
          if \<not> is_zero at \<and> (is_zero earliest \<or> at < earliest) then at else earliest)"

definition earliest_suspicion :: "coord \<Rightarrow> string list \<Rightarrow> time" where
  "earliest_suspicion co names = foldl (earliest_step co) zero_time names"

definition roll_component :: "world \<Rightarrow> coord_config \<Rightarrow> time \<Rightarrow> coord \<times> event list \<Rightarrow> component \<Rightarrow>
    coord \<times> event list" where
  "roll_component w cfg now ce cm =
     (let (co, evs) = ce;
          status = roll cm (check_statuses co (comp_checks cm));
          (st, alert) = entity_apply
            ((state_of (co_component_states co) (comp_name cm))\<lparr>es_last_verdict := now\<rparr>) (status, now);
          co = co\<lparr>co_component_states := AList.update (comp_name cm) st (co_component_states co)\<rparr>
      in case alert of
           None \<Rightarrow> (co, evs)
         | Some kind \<Rightarrow>
             co_emit w cfg now (empty_alert\<lparr>al_component := comp_name cm,
               al_detail := comp_description cm, al_kind := kind, al_at := now,
               al_members := members_of co cm,
               al_suspected_at := (if kind = KindDown then earliest_suspicion co (comp_checks cm)
                                   else zero_time)\<rparr>) (co, evs))"

definition roll_up :: "world \<Rightarrow> coord_config \<Rightarrow> time \<Rightarrow> string \<Rightarrow> coord \<times> event list \<Rightarrow> coord \<times> event list" where
  "roll_up w cfg now changed ce = foldl (roll_component w cfg now) ce (components_for cfg changed)"

section \<open>The staleness tick\<close>

definition flag_stale :: "string list \<Rightarrow> coord \<Rightarrow> coord" where
  "flag_stale stale co =
     co\<lparr>co_states := foldl (\<lambda>m chk. AList.update (c_name chk)
          ((state_of m (c_name chk))\<lparr>es_stale := List.member stale (c_name chk)\<rparr>) m)
        (co_states co) (co_checks co)\<rparr>"

definition check_staleness :: "world \<Rightarrow> coord_config \<Rightarrow> time \<Rightarrow> coord \<Rightarrow> coord \<times> event list" where
  "check_staleness w cfg now co =
     (let (co, evs) = release_suppressions (w_parse_duration w) cfg now (w_send w) co;
          stale = stale_checks cfg now co;
          co = flag_stale (map fst stale) co;
          (silent, alerts) = apply_silence co stale now (by_prober cfg co (map fst stale));
          co = co\<lparr>co_silent := silent\<rparr>;
          (co, evs) = foldl (\<lambda>ce a. co_emit w cfg now a ce) (co, evs) alerts
      in foldl (\<lambda>ce n. roll_up w cfg now n ce) (co, evs) (map fst stale))"

section \<open>The outward heartbeat\<close>

definition unwatched_after :: nat where "unwatched_after = 3"
definition default_heartbeat_interval :: duration where "default_heartbeat_interval = minute"

datatype beat = BeatFailed string | BeatSucceeded

definition unwatched_alert :: "time \<Rightarrow> nat \<Rightarrow> string \<Rightarrow> alert" where
  "unwatched_alert now n detail = empty_alert\<lparr>al_kind := KindUnwatched, al_at := now,
     al_detail := itoa n @ '' heartbeats in a row did not reach the watcher ('' @ detail @
       ''); nothing outside this coordinator would notice if it died''\<rparr>"

definition watched_alert :: "time \<Rightarrow> alert" where
  "watched_alert now = empty_alert\<lparr>al_kind := KindWatched, al_at := now,
     al_detail := ''heartbeats are reaching the watcher again''\<rparr>"

definition beat_step :: "nat \<Rightarrow> time \<times> beat \<Rightarrow> nat \<times> alert option" where
  "beat_step failures e =
     (case e of
        (now, BeatFailed detail) \<Rightarrow>
          (let n = Suc failures in
           (n, if n = unwatched_after then Some (unwatched_alert now n detail) else None))
      | (now, BeatSucceeded) \<Rightarrow>
          (0, if failures \<ge> unwatched_after then Some (watched_alert now) else None))"

definition co_beat :: "world \<Rightarrow> coord_config \<Rightarrow> time \<Rightarrow> beat \<Rightarrow> coord \<Rightarrow> coord \<times> event list" where
  "co_beat w cfg now b co =
     (let (n, alert) = beat_step (co_beat_failures co) (now, b); co = co\<lparr>co_beat_failures := n\<rparr> in
      case alert of None \<Rightarrow> (co, []) | Some a \<Rightarrow> co_emit w cfg now a (co, []))"

definition heartbeat_timeout :: "coord_config \<Rightarrow> duration" where
  "heartbeat_timeout cfg =
     (let interval = (if cc_heartbeat_interval cfg \<le> 0 then default_heartbeat_interval
                      else cc_heartbeat_interval cfg);
          t = quot interval 3
      in if t < 10 * second then t else 10 * second)"

interpretation heartbeat: alarm beat_step "\<lambda>n. n \<ge> unwatched_after"
    "\<lambda>a. al_kind a = KindUnwatched" "\<lambda>a. al_kind a = KindWatched"
  by unfold_locales
    (auto simp: beat_step_def unwatched_alert_def watched_alert_def unwatched_after_def Let_def
      split: prod.splits beat.splits if_splits)

section \<open>One alert per silence\<close>

text \<open>What happens to the silence of a prober \<open>p\<close>: a staleness tick, or a scheduled result from
  some prober \<open>q\<close>.\<close>

datatype silence_event = Tick "(string \<times> duration) list" time "(string \<times> string list) list"
  | Result_from string time

definition reporting_alert :: "string \<Rightarrow> time \<Rightarrow> alert" where
  "reporting_alert prober now = empty_alert\<lparr>al_prober := prober, al_kind := KindReporting, al_at := now,
     al_detail := ''reporting again; preferred assignments restored''\<rparr>"

definition silence_step :: "string \<Rightarrow> coord \<Rightarrow> silence_event \<Rightarrow> coord \<times> alert option" where
  "silence_step p co e =
     (case e of
        Tick silent_for now groups \<Rightarrow>
          (let (silent, alerts) = apply_silence co silent_for now groups
           in (co\<lparr>co_silent := silent\<rparr>, find (\<lambda>a. al_prober a = p) alerts))
      | Result_from q now \<Rightarrow>
          (let (co', changed) = mark_result_reporting q co
           in (co', if changed \<and> q = p then Some (reporting_alert p now) else None)))"

lemma find_mem: "find P xs = Some x \<Longrightarrow> x \<in> set xs \<and> P x"
  by (auto simp: find_Some_iff)

lemma find_exists: "x \<in> set xs \<Longrightarrow> P x \<Longrightarrow> \<exists>y. find P xs = Some y"
  by (induction xs) auto

lemma flag_update: "flag (AList.update k b m) n = (if n = k then b else flag m n)"
  by (simp add: flag_def AList.update_conv')

lemma apply_silence_fold:
  "foldl (\<lambda>(silent, out) (who, checks).
      if flag silent who then (silent, out)
      else (AList.update who True silent, out @ [silence_alert co silent_for now who checks]))
    (silent, out) groups = (silent', out') \<Longrightarrow>
   (\<forall>p. flag silent' p \<longleftrightarrow> flag silent p \<or> p \<in> fst ` set groups) \<and>
   (\<exists>new. out' = out @ new \<and> distinct (map al_prober new) \<and>
      (\<forall>a \<in> set new. al_kind a = KindSilent) \<and>
      al_prober ` set new = {p \<in> fst ` set groups. \<not> flag silent p})"
proof (induction groups arbitrary: silent out)
  case Nil
  then show ?case by simp
next
  case (Cons g gs)
  obtain who cs where g: "g = (who, cs)" by (cases g)
  show ?case
  proof (cases "flag silent who")
    case True
    with Cons.prems g Cons.IH [of silent out] show ?thesis by auto
  next
    case False
    let ?s = "AList.update who True silent" and ?a = "silence_alert co silent_for now who cs"
    have a: "al_prober ?a = who" "al_kind ?a = KindSilent"
      by (simp_all add: silence_alert_def Let_def)
    from Cons.prems g False obtain new where new:
      "\<forall>p. flag silent' p \<longleftrightarrow> flag ?s p \<or> p \<in> fst ` set gs"
      "out' = (out @ [?a]) @ new" "distinct (map al_prober new)" "\<forall>a \<in> set new. al_kind a = KindSilent"
      "al_prober ` set new = {p \<in> fst ` set gs. \<not> flag ?s p}"
      using Cons.IH [of ?s "out @ [?a]"] by auto
    have "who \<notin> al_prober ` set new" using new(5) by (simp add: flag_update)
    then have "distinct (map al_prober (?a # new))" using new(3) a by simp
    moreover have "al_prober ` set (?a # new) = {p \<in> fst ` set (g # gs). \<not> flag silent p}"
      using new(5) False a g by (auto simp: flag_update split: if_splits)
    ultimately show ?thesis
      using new(1,2,4) a g by (intro conjI exI [of _ "?a # new"]) (auto simp: flag_update)
  qed
qed

lemma apply_silence_spec:
  assumes "apply_silence co silent_for now groups = (silent', alerts)"
  shows "flag silent' p \<longleftrightarrow> flag (co_silent co) p \<or> p \<in> fst ` set groups"
    and "distinct (map al_prober alerts)" and "\<forall>a \<in> set alerts. al_kind a = KindSilent"
    and "al_prober ` set alerts = {p \<in> fst ` set groups. \<not> flag (co_silent co) p}"
proof -
  obtain out where run: "foldl (\<lambda>(silent, out) (who, checks).
      if flag silent who then (silent, out)
      else (AList.update who True silent, out @ [silence_alert co silent_for now who checks]))
    (co_silent co, []) groups = (silent', out)" and al: "alerts = sort_key al_prober out"
    using assms by (auto simp: apply_silence_def split: prod.splits)
  from apply_silence_fold [OF run] al
  show "flag silent' p \<longleftrightarrow> flag (co_silent co) p \<or> p \<in> fst ` set groups"
    "distinct (map al_prober alerts)" "\<forall>a \<in> set alerts. al_kind a = KindSilent"
    "al_prober ` set alerts = {p \<in> fst ` set groups. \<not> flag (co_silent co) p}"
    by (auto simp: distinct_map inj_on_def)
qed

lemma mark_reporting_flag:
  "mark_result_reporting q co = (co', changed) \<Longrightarrow>
   changed = flag (co_silent co) q \<and> (flag (co_silent co') p \<longleftrightarrow> flag (co_silent co) p \<and> p \<noteq> q)"
  by (auto simp: mark_result_reporting_def flag_update Let_def split: if_splits)

interpretation silence: alarm "silence_step p" "\<lambda>co. flag (co_silent co) p"
    "\<lambda>a. al_kind a = KindSilent" "\<lambda>a. al_kind a = KindReporting" for p
proof
  fix co co' e and a
  assume step: "silence_step p co e = (co', Some a)" and k: "al_kind a = KindSilent"
  show "\<not> flag (co_silent co) p \<and> flag (co_silent co') p"
  proof (cases e)
    case (Tick sf now groups)
    obtain silent alerts where ap: "apply_silence co sf now groups = (silent, alerts)"
      by (cases "apply_silence co sf now groups")
    with step Tick have "a \<in> set alerts" "al_prober a = p" "co' = co\<lparr>co_silent := silent\<rparr>"
      by (auto simp: silence_step_def find_Some_iff)
    with apply_silence_spec [OF ap] show ?thesis by auto
  next
    case (Result_from q now)
    with step k show ?thesis
      by (auto simp: silence_step_def reporting_alert_def split: prod.splits if_splits)
  qed
next
  fix co co' e and a
  assume step: "silence_step p co e = (co', Some a)" and k: "al_kind a = KindReporting"
  show "flag (co_silent co) p \<and> \<not> flag (co_silent co') p"
  proof (cases e)
    case (Tick sf now groups)
    obtain silent alerts where ap: "apply_silence co sf now groups = (silent, alerts)"
      by (cases "apply_silence co sf now groups")
    with step Tick have "a \<in> set alerts" by (auto simp: silence_step_def find_Some_iff)
    with apply_silence_spec(3) [OF ap] k show ?thesis by auto
  next
    case (Result_from q now)
    obtain co1 b where m: "mark_result_reporting q co = (co1, b)" by (cases "mark_result_reporting q co")
    with step Result_from have "b" "q = p" "co' = co1" by (auto simp: silence_step_def split: if_splits)
    with mark_reporting_flag [OF m] show ?thesis by auto
  qed
next
  fix co co' e and out
  assume step: "silence_step p co e = (co', out)" and c: "flag (co_silent co') p \<noteq> flag (co_silent co) p"
  show "\<exists>x. out = Some x \<and> (al_kind x = KindSilent \<or> al_kind x = KindReporting)"
  proof (cases e)
    case (Tick sf now groups)
    obtain silent alerts where ap: "apply_silence co sf now groups = (silent, alerts)"
      by (cases "apply_silence co sf now groups")
    with step Tick have o: "out = find (\<lambda>a. al_prober a = p) alerts" "co' = co\<lparr>co_silent := silent\<rparr>"
      by (auto simp: silence_step_def)
    with c apply_silence_spec(1,4) [OF ap] have "p \<in> al_prober ` set alerts" by auto
    then obtain y where "y \<in> set alerts" "al_prober y = p" by blast
    then obtain x where x: "find (\<lambda>a. al_prober a = p) alerts = Some x"
      using find_exists [of y alerts "\<lambda>a. al_prober a = p"] by blast
    then have "out = Some x" "x \<in> set alerts" using o(1) find_mem [OF x] by auto
    with apply_silence_spec(3) [OF ap] show ?thesis by auto
  next
    case (Result_from q now)
    obtain co1 b where m: "mark_result_reporting q co = (co1, b)" by (cases "mark_result_reporting q co")
    with step Result_from c mark_reporting_flag [OF m] show ?thesis
      by (auto simp: silence_step_def reporting_alert_def)
  qed
qed

section \<open>Staleness\<close>

lemma stale_after_exact:
  assumes "0 \<le> c_interval chk"
    and "c_interval chk * (if cc_stale_multiplier cfg \<le> 0 then default_stale_multiplier else cc_stale_multiplier cfg)
      + (if cc_stale_grace cfg \<le> 0 then default_stale_grace else cc_stale_grace cfg) \<le> max_duration"
  shows "stale_after cfg chk =
    c_interval chk * (if cc_stale_multiplier cfg \<le> 0 then default_stale_multiplier else cc_stale_multiplier cfg)
      + (if cc_stale_grace cfg \<le> 0 then default_stale_grace else cc_stale_grace cfg)"
proof -
  let ?m = "if cc_stale_multiplier cfg \<le> 0 then default_stale_multiplier else cc_stale_multiplier cfg"
  let ?g = "if cc_stale_grace cfg \<le> 0 then default_stale_grace else cc_stale_grace cfg"
  have pos: "0 < ?m" "0 < ?g" by (simp_all add: default_stale_multiplier_def default_stale_grace_def second_def)
  have m: "0 \<le> c_interval chk * ?m" using assms(1) pos by simp
  have "wrap64 (c_interval chk * ?m) = c_interval chk * ?m"
    using m assms(2) pos by (intro wrap64_id) (simp_all add: min_duration_def)
  moreover have "wrap64 (c_interval chk * ?m + ?g) = c_interval chk * ?m + ?g"
    using m assms(2) pos by (intro wrap64_id) (simp_all add: min_duration_def)
  ultimately show ?thesis by (simp add: stale_after_def Let_def)
qed

lemma stale_checks_iff:
  "n \<in> fst ` set (stale_checks cfg now co) \<longleftrightarrow>
   (\<exists>chk \<in> set (co_checks co). c_name chk = n \<and> stale_after cfg chk < sub_time now (last_heard cfg co chk))"
  by (auto simp: stale_checks_def image_iff)

lemma last_heard_verdict:
  "map_of (co_states co) (c_name chk) = Some st \<Longrightarrow> \<not> is_zero (es_last_verdict st) \<Longrightarrow>
   es_last_verdict st \<le> last_heard cfg co chk"
  by (auto simp: last_heard_def Let_def split: option.splits)

text \<open>A check whose last verdict is within its allowance is never stale, whatever its owner does.\<close>

lemma fresh_not_stale:
  assumes "distinct (map c_name (co_checks co))" "chk \<in> set (co_checks co)"
    and "map_of (co_states co) (c_name chk) = Some st" "\<not> is_zero (es_last_verdict st)"
    and "now - es_last_verdict st \<le> stale_after cfg chk" "0 \<le> stale_after cfg chk"
  shows "c_name chk \<notin> fst ` set (stale_checks cfg now co)"
proof
  assume "c_name chk \<in> fst ` set (stale_checks cfg now co)"
  then obtain c where c: "c \<in> set (co_checks co)" "c_name c = c_name chk"
    "stale_after cfg c < sub_time now (last_heard cfg co c)"
    unfolding stale_checks_iff by blast
  with assms(1,2) have "c = chk" by (metis distinct_map inj_onD)
  with c have l: "stale_after cfg chk < sub_time now (last_heard cfg co chk)" by simp
  have "now - last_heard cfg co chk \<le> stale_after cfg chk"
    using last_heard_verdict [OF assms(3,4), of cfg] assms(5) by linarith
  moreover have "sub_time now (last_heard cfg co chk) \<le> max (now - last_heard cfg co chk) min_duration"
    by (simp add: sub_time_def)
  ultimately show False using l assms(6) by (simp add: min_duration_def)
qed

lemma flag_stale_fold:
  "distinct (map c_name cs) \<Longrightarrow>
   state_of (foldl (\<lambda>m chk. AList.update (c_name chk)
      ((state_of m (c_name chk))\<lparr>es_stale := List.member stale (c_name chk)\<rparr>) m) m cs) n =
   (if n \<in> c_name ` set cs then (state_of m n)\<lparr>es_stale := n \<in> set stale\<rparr> else state_of m n)"
proof (induction cs arbitrary: m)
  case Nil
  then show ?case by simp
next
  case (Cons c cs)
  have one: "state_of (AList.update (c_name c) x m) n = (if n = c_name c then x else state_of m n)" for x
    by (simp add: state_of_def AList.update_conv')
  show ?case
  proof (cases "n = c_name c")
    case True
    with Cons.prems have "n \<notin> c_name ` set cs" by simp
    with Cons True one show ?thesis by simp
  next
    case False
    with Cons one show ?thesis by simp
  qed
qed

lemma flag_stale_spec:
  "distinct (map c_name (co_checks co)) \<Longrightarrow>
   state_of (co_states (flag_stale stale co)) n =
     (if n \<in> c_name ` set (co_checks co) then (state_of (co_states co) n)\<lparr>es_stale := n \<in> set stale\<rparr>
      else state_of (co_states co) n)"
  using flag_stale_fold [of "co_checks co" stale "co_states co" n] by (simp add: flag_stale_def)

lemma heartbeat_timeout_bounds:
  "0 \<le> heartbeat_timeout cfg \<and> heartbeat_timeout cfg \<le> 10 * second \<and>
   3 * heartbeat_timeout cfg \<le>
     (if cc_heartbeat_interval cfg \<le> 0 then default_heartbeat_interval else cc_heartbeat_interval cfg)"
  by (auto simp: heartbeat_timeout_def Let_def default_heartbeat_interval_def minute_def second_def)

end
