(* ===== verification/Coordinator.thy ===== *)
theory Coordinator
  imports Watchdog
begin

text \<open>
  The coordinator's handlers (\<open>internal/coordinator/coordinator.go\<close>, \<open>handlers.go\<close>, \<open>mesh.go\<close>):
  a scheduled result comes in, is corroborated and decided, moves the check's state machine and the
  components above it, and may alert; a mesh report moves the set of isolated probers. A handler
  is one step on \<open>coord\<close>; the answers of the corroborators are an input of it, with the clock
  before and after the fan-out.
\<close>

section \<open>Corroboration\<close>

text \<open>The outside of a fan-out: whether a slot was free, the request identifiers drawn, what each
  prober's verified answer said (the request it quotes and its result) and the time it took.\<close>

record fanout =
  fo_slot :: bool
  fo_request_id :: "string \<Rightarrow> string"
  fo_answer :: "string \<Rightarrow> (string \<times> result) option"
  fo_took :: duration

definition ask :: "check \<Rightarrow> peer \<Rightarrow> string \<Rightarrow> (string \<times> result) option \<Rightarrow> result option" where
  "ask chk p rid answer =
     (case answer of
        None \<Rightarrow> None
      | Some (quoted, r) \<Rightarrow>
          if quoted \<noteq> rid then None
          else if r_prober r \<noteq> p_name p then None
          else if r_check r \<noteq> c_name chk then None
          else Some (normalize_route chk p r))"

definition corroborate :: "peer list \<Rightarrow> check \<Rightarrow> result \<Rightarrow> fanout \<Rightarrow> result list" where
  "corroborate peers chk rp f =
     (let asked = corroborators peers chk rp in
      if length asked = 0 \<or> \<not> fo_slot f then []
      else sort_key r_prober
        (List.map_filter (\<lambda>p. ask chk p (fo_request_id f (p_name p)) (fo_answer f (p_name p))) asked))"

lemma ask_sound:
  "ask chk p rid answer = Some r \<Longrightarrow>
   r_prober r = p_name p \<and> r_check r = c_name chk \<and> r_provider r = p_provider p \<and>
   r_proxy_profile r = c_proxy_profile chk \<and> r_egress r = profile_exit p (c_proxy_profile chk) \<and>
   (\<exists>raw. answer = Some (rid, raw) \<and> (r_status r = r_status raw \<or> r_status r = StatusUnknown))"
  by (auto simp: ask_def normalize_fields normalize_status split: option.splits if_splits)

lemma corroborate_sound:
  "r \<in> set (corroborate peers chk rp f) \<Longrightarrow>
   \<exists>p \<in> set (corroborators peers chk rp).
     ask chk p (fo_request_id f (p_name p)) (fo_answer f (p_name p)) = Some r"
  by (auto simp: corroborate_def Let_def List.map_filter_def split: if_splits)

section \<open>Processing a scheduled result\<close>

definition eval_options :: "coord_config \<Rightarrow> time \<Rightarrow> coord \<Rightarrow> options" where
  "eval_options cfg now co =
     \<lparr>o_now = now, o_max_age = cc_result_max_age cfg, o_isolated = isolated_probers cfg now co\<rparr>"

definition record_observation ::
  "world \<Rightarrow> coord_config \<Rightarrow> time \<Rightarrow> check \<Rightarrow> string \<Rightarrow> (result \<Rightarrow> bool) \<Rightarrow> status \<Rightarrow> coord \<Rightarrow> result \<Rightarrow> coord"
where
  "record_observation w cfg now chk source suppressed verdict co r =
     co\<lparr>co_history := append_history (cc_history cfg) now (co_history co)
         (observe (w_parse_time w) (w_observation_id w) now chk r source (suppressed r) verdict)\<rparr>"

definition isolated_verdict :: "check \<Rightarrow> result \<Rightarrow> verdict" where
  "isolated_verdict chk r = empty_verdict\<lparr>v_check := c_name chk, v_status := StatusUnknown,
     v_suppressed := 1, v_suppressed_probers := [r_prober r],
     v_reason := r_prober r @ '' can reach no peer; its result was not counted''\<rparr>"

text \<open>A failed or warning result that enough peers contradicted.\<close>

definition overrules :: "check \<Rightarrow> result \<Rightarrow> verdict \<Rightarrow> bool" where
  "overrules chk r v \<longleftrightarrow>
     (r_status r = StatusDown \<or> r_status r = StatusWarning) \<and> v_status v \<noteq> StatusDown \<and>
     v_status v \<noteq> r_status r \<and> int (v_ind_up v) \<ge> q_agree (c_quorum chk)"

definition count_overruled :: "check \<Rightarrow> result \<Rightarrow> verdict \<Rightarrow> coord \<Rightarrow> coord" where
  "count_overruled chk r v co =
     (if overrules chk r v then
        co\<lparr>co_overruled := AList.update (r_prober r, c_name chk)
            (Suc (case map_of (co_overruled co) (r_prober r, c_name chk) of None \<Rightarrow> 0 | Some n \<Rightarrow> n))
            (co_overruled co)\<rparr>
      else co)"

definition report_back :: "world \<Rightarrow> coord_config \<Rightarrow> time \<Rightarrow> string \<Rightarrow> coord \<Rightarrow> coord \<times> event list" where
  "report_back w cfg now prober co =
     (let (co, changed) = mark_result_reporting prober co in
      if changed then co_emit w cfg now (reporting_alert prober now) (co, []) else (co, []))"

definition check_alert :: "check \<Rightarrow> alert_kind \<Rightarrow> time \<Rightarrow> decision \<Rightarrow> alert" where
  "check_alert chk kind now d =
     empty_alert\<lparr>al_check := c_name chk, al_target := c_target chk, al_kind := kind, al_at := now,
       al_suspected_at := d_suspected_at d, al_verdict := d_verdict d\<rparr>"

text \<open>\<open>decide\<close> with the state it works on: the check's entity, the observations of the answers.\<close>

definition decide_check ::
  "world \<Rightarrow> coord_config \<Rightarrow> time \<Rightarrow> time \<Rightarrow> fanout \<Rightarrow> check \<Rightarrow> result \<Rightarrow> coord \<Rightarrow> coord \<times> decision" where
  "decide_check w cfg at now f chk r co =
     (let st = state_of (co_states co) (c_name chk);
          opts0 = eval_options cfg at co;
          answers = corroborate (cc_peers cfg) chk r f;
          asked = asks_about_failure chk opts0 st r \<or> asks_about_recovery chk st r;
          co = (if asked then foldl (record_observation w cfg now chk ''corroboration''
                    (\<lambda>x. r_vantage x \<noteq> c_vantage chk) (StatusOther [])) co answers else co);
          d = decide chk opts0 (eval_options cfg now co) at now (fo_took f) answers st r
      in (co\<lparr>co_states := AList.update (c_name chk) (d_state d) (co_states co)\<rparr>, d))"

text \<open>A check inside a component alerts through the component.\<close>

definition alert_check ::
  "world \<Rightarrow> coord_config \<Rightarrow> time \<Rightarrow> check \<Rightarrow> decision \<Rightarrow> coord \<times> event list \<Rightarrow> coord \<times> event list" where
  "alert_check w cfg now chk d ce =
     (case d_alert d of
        Some kind \<Rightarrow>
          if length (components_for cfg (c_name chk)) = 0
          then co_emit w cfg now (check_alert chk kind now d) ce else ce
      | None \<Rightarrow> ce)"

text \<open>What \<open>process\<close> does with the result of a prober that is not isolated.\<close>

definition act_on :: "world \<Rightarrow> coord_config \<Rightarrow> time \<Rightarrow> time \<Rightarrow> fanout \<Rightarrow> check \<Rightarrow> result \<Rightarrow> coord \<Rightarrow>
    coord \<times> event list \<times> verdict" where
  "act_on w cfg at now f chk r co =
     (let (co, evs) = report_back w cfg at (r_prober r) co;
          (co, d) = decide_check w cfg at now f chk r co;
          v = d_verdict d;
          co = record_observation w cfg now chk ''scheduled''
                 (\<lambda>r. r_vantage r \<noteq> c_vantage chk) (v_status v) co r;
          co = count_overruled chk r v co;
          (co, evs) = roll_up w cfg now (c_name chk) (alert_check w cfg now chk d (co, evs))
      in (co, evs, v))"

datatype process_error = UnknownCheckName string | UnknownProberName string

definition process :: "world \<Rightarrow> coord_config \<Rightarrow> time \<Rightarrow> time \<Rightarrow> fanout \<Rightarrow> result \<Rightarrow> coord \<Rightarrow>
    coord \<times> event list \<times> (process_error + verdict)" where
  "process w cfg at now f r co =
     (case check_by_name co (r_check r) of
        None \<Rightarrow> (co, [], Inl (UnknownCheckName (r_check r)))
      | Some chk \<Rightarrow>
     (case peer_by_name (cc_peers cfg) (r_prober r) of
        None \<Rightarrow> (co, [], Inl (UnknownProberName (r_prober r)))
      | Some peer \<Rightarrow>
          (let r = normalize_route chk peer r in
           if isolated_probers cfg at co (r_prober r) then
             (record_observation w cfg at chk ''scheduled'' (\<lambda>_. True) StatusUnknown co r, [],
              Inr (isolated_verdict chk r))
           else (case act_on w cfg at now f chk r co of (co, evs, v) \<Rightarrow> (co, evs, Inr v)))))"

section \<open>Accepting a scheduled result\<close>

datatype submission = RejectedAuthentication | RejectedUnknownCheck | RejectedRequestBound
  | RejectedNotAssigned | RejectedQueueFull | RejectedReplay | AcceptedResult result

definition scheduled_key :: "result \<Rightarrow> string" where
  "scheduled_key r = r_prober r @ [byte 0] @ r_check r"

text \<open>\<open>handleResult\<close> up to the hand-over to \<open>process\<close>: \<open>payload\<close> is what \<open>OpenResult\<close> returned
  (the request it is bound to, the result), \<open>free\<close> whether a slot of the queue was free.\<close>

definition submit_result :: "coord_config \<Rightarrow> time \<Rightarrow> (string \<times> result) option \<Rightarrow> bool \<Rightarrow> coord \<Rightarrow>
    coord \<times> submission" where
  "submit_result cfg now payload free co =
     (case payload of
        None \<Rightarrow> (co, RejectedAuthentication)
      | Some (request_id, r) \<Rightarrow>
     (case check_by_name co (r_check r) of
        None \<Rightarrow> (co, RejectedUnknownCheck)
      | Some chk \<Rightarrow>
          if request_id \<noteq> [] then (co, RejectedRequestBound)
          else if effective_owner cfg now co chk \<noteq> Some (r_prober r) \<and>
                  \<not> (base_assigned_to (cc_peers cfg) chk = Some (r_prober r) \<and> flag (co_silent co) (r_prober r))
          then (co, RejectedNotAssigned)
          else if \<not> free then (co, RejectedQueueFull)
          else if \<not> r_at r > time_of (co_last_scheduled co) (scheduled_key r) then (co, RejectedReplay)
          else (co\<lparr>co_last_scheduled := AList.update (scheduled_key r) (r_at r) (co_last_scheduled co)\<rparr>,
                AcceptedResult (r\<lparr>r_provider := (case peer_by_name (cc_peers cfg) (r_prober r) of
                   None \<Rightarrow> [] | Some p \<Rightarrow> p_provider p)\<rparr>))))"

section \<open>Mesh reports\<close>

definition transition_alerts :: "time \<Rightarrow> mesh_view \<Rightarrow> string list \<Rightarrow> alert list" where
  "transition_alerts now st was =
     map (\<lambda>n. empty_alert\<lparr>al_prober := n, al_kind := KindIsolated, al_at := now,
             al_detail := mesh_summary st\<rparr>)
         (filter (\<lambda>n. \<not> List.member was n) (mv_isolated st)) @
     map (\<lambda>n. empty_alert\<lparr>al_prober := n, al_kind := KindRejoined, al_at := now,
             al_detail := ''can reach the fleet again; its results are being counted''\<rparr>)
         (filter (\<lambda>n. \<not> List.member (mv_isolated st) n) was)"

definition report_mesh_transitions :: "world \<Rightarrow> coord_config \<Rightarrow> time \<Rightarrow> coord \<Rightarrow> coord \<times> event list" where
  "report_mesh_transitions w cfg now co =
     (let st = mesh_of cfg now co; was = co_isolated co; co = co\<lparr>co_isolated := mv_isolated st\<rparr> in
      foldl (\<lambda>ce a. co_emit w cfg now a ce) (co, []) (transition_alerts now st was))"

datatype mesh_response = MeshRejected | MeshUnknownProber | MeshAccepted

definition handle_mesh :: "world \<Rightarrow> coord_config \<Rightarrow> time \<Rightarrow> report option \<Rightarrow> coord \<Rightarrow>
    coord \<times> event list \<times> mesh_response" where
  "handle_mesh w cfg now opened co =
     (case opened of
        None \<Rightarrow> (co, [], MeshRejected)
      | Some rep \<Rightarrow>
          if peer_by_name (cc_peers cfg) (rep_prober rep) = None then (co, [], MeshUnknownProber)
          else
            (let co = co\<lparr>co_reports := put_report (co_reports co) rep\<rparr>;
                 (co, evs) = report_mesh_transitions w cfg now co;
                 co = (if isolated_probers cfg now co (rep_prober rep) then co
                       else begin_mesh_recovery (rep_prober rep) now co)
             in (co, evs, MeshAccepted)))"

section \<open>The status page\<close>

record status_entry =
  se_check :: string
  se_target :: string
  se_status :: status
  se_since :: time
  se_last_verdict :: time
  se_assigned_to :: string
  se_suspected_since :: time
  se_last_attempt :: time
  se_last_corroboration_ms :: int
  se_inconclusive_attempts :: "64 word"
  se_last_inconclusive :: string
  se_history :: "attempt list"
  se_stale :: bool
  se_last_known :: "status option"

definition blank_entry :: "coord_config \<Rightarrow> time \<Rightarrow> coord \<Rightarrow> check \<Rightarrow> status_entry" where
  "blank_entry cfg now co chk =
     \<lparr>se_check = c_name chk, se_target = c_target chk, se_status = StatusUnknown, se_since = zero_time,
      se_last_verdict = zero_time,
      se_assigned_to = (case effective_owner cfg now co chk of None \<Rightarrow> [] | Some n \<Rightarrow> n),
      se_suspected_since = zero_time, se_last_attempt = zero_time, se_last_corroboration_ms = 0,
      se_inconclusive_attempts = 0, se_last_inconclusive = [], se_history = [], se_stale = False,
      se_last_known = None\<rparr>"

definition status_entry_of :: "coord_config \<Rightarrow> time \<Rightarrow> coord \<Rightarrow> check \<Rightarrow> status_entry" where
  "status_entry_of cfg now co chk =
     (let e = blank_entry cfg now co chk in
      case map_of (co_states co) (c_name chk) of
        None \<Rightarrow> e
      | Some st \<Rightarrow>
          (let e = e\<lparr>se_status := reported st, se_since := es_since st,
             se_last_verdict := es_last_verdict st, se_suspected_since := es_suspected_since st,
             se_last_attempt := es_last_attempt st,
             se_last_corroboration_ms := quot (es_last_corroboration st) millisecond,
             se_inconclusive_attempts := es_inconclusive_attempts st,
             se_last_inconclusive := es_last_inconclusive st, se_history := es_history st\<rparr>
           in if es_stale st then e\<lparr>se_stale := True, se_last_known := Some (es_status st)\<rparr> else e))"

definition status_page :: "coord_config \<Rightarrow> time \<Rightarrow> coord \<Rightarrow> status_entry list" where
  "status_page cfg now co = sort_key se_check (map (status_entry_of cfg now co) (co_checks co))"

record component_entry =
  ce_component :: string
  ce_description :: string
  ce_status :: status
  ce_since :: time
  ce_checks :: "string list"
  ce_down_if :: rollup

definition component_entry_of :: "coord \<Rightarrow> component \<Rightarrow> component_entry" where
  "component_entry_of co cm =
     (let status = roll cm (check_statuses co (comp_checks cm)) in
      \<lparr>ce_component = comp_name cm, ce_description = comp_description cm, ce_status = status,
       ce_since = (case map_of (co_component_states co) (comp_name cm) of
           None \<Rightarrow> zero_time | Some st \<Rightarrow> if es_status st = status then es_since st else zero_time),
       ce_checks = comp_checks cm,
       ce_down_if = (case comp_down_if cm of RollupDefault \<Rightarrow> RollupAny | r \<Rightarrow> r)\<rparr>)"

definition components_page :: "coord_config \<Rightarrow> coord \<Rightarrow> component_entry list" where
  "components_page cfg co = sort_key ce_component (map (component_entry_of co) (cc_components cfg))"

section \<open>Alerting leaves the rest of the state alone\<close>

text \<open>The functions on the desk do not touch what extends it: the coordinator's own fields.\<close>

lemma enqueue_more: "desk.more (enqueue_delivery now q d) = desk.more d"
  by (simp add: enqueue_delivery_def Let_def)

lemma record_more: "desk.more (record_incident a m sid sn d) = desk.more d"
  by (auto simp: record_incident_def cancel_escalations_def Let_def split: option.splits)

lemma deliver_more: "desk.more (fst (deliver cfg now send a d)) = desk.more d"
proof -
  have "desk.more (fst (foldl (deliver_one cfg now send a) (d, evs) ts)) = desk.more d" for evs ts
  proof (induction ts arbitrary: d evs)
    case Nil
    then show ?case by simp
  next
    case (Cons t ts)
    show ?case
      by (cases rule: deliver_one_cases [of cfg now send a d evs t]) (simp_all add: Cons.IH enqueue_more)
  qed
  then show ?thesis by (simp add: deliver_def)
qed

lemma emit_more: "desk.more (fst (emit parse cfg now send a d)) = desk.more d"
  by (auto simp: emit_def Let_def deliver_more record_more split: prod.splits)

lemma release_more: "desk.more (fst (release_suppressions parse cfg now send d)) = desk.more d"
proof -
  have "desk.more (fst (deliver_all cfg now send as d)) = desk.more d" for as and d :: "'a desk_scheme"
  proof (induction as arbitrary: d)
    case Nil
    then show ?case by (simp add: deliver_all_def)
  next
    case (Cons a as)
    then show ?case
      using deliver_more [of cfg now send a d] by (cases "deliver cfg now send a d") (simp add: deliver_all_Cons)
  qed
  then show ?thesis by (simp add: release_suppressions_def Let_def)
qed

lemma more_fields:
  assumes "desk.more co' = desk.more (co :: coord)"
  shows "co_checks co' = co_checks co" "co_states co' = co_states co"
    "co_component_states co' = co_component_states co" "co_last_scheduled co' = co_last_scheduled co"
    "co_reports co' = co_reports co" "co_isolated co' = co_isolated co" "co_silent co' = co_silent co"
    "co_recovery co' = co_recovery co" "co_overruled co' = co_overruled co" "co_history co' = co_history co"
    "co_beat_failures co' = co_beat_failures co" "co_started_at co' = co_started_at co"
  using assms by (cases co; cases co'; simp)+

lemma co_emit_fst: "fst (co_emit w cfg now a ce) = fst (emit (w_parse_duration w) cfg now (w_send w) a (fst ce))"
  by (simp add: co_emit_def split: prod.splits)

lemma co_emit_more: "desk.more (fst (co_emit w cfg now a ce)) = desk.more (fst ce)"
  by (simp add: co_emit_fst emit_more)

lemmas co_emit_keeps [simp] = more_fields [OF co_emit_more]

lemma co_emits_more: "desk.more (fst (foldl (\<lambda>ce a. co_emit w cfg now a ce) ce as)) = desk.more (fst ce)"
  by (induction as arbitrary: ce) (simp_all add: co_emit_more)

lemmas co_emits_keeps [simp] = more_fields [OF co_emits_more]

section \<open>The invariant of the coordinator\<close>

definition histories_ok :: "(string \<times> entity_state) list \<Rightarrow> bool" where
  "histories_ok m \<longleftrightarrow> (\<forall>n. length (es_history (state_of m n)) \<le> max_inconclusive_history)"

definition reports_ok :: "(string \<times> report) list \<Rightarrow> bool" where
  "reports_ok rs \<longleftrightarrow> distinct (map fst rs) \<and> (\<forall>(n, r) \<in> set rs. rep_prober r = n)"

definition coord_ok :: "world \<Rightarrow> coord_config \<Rightarrow> coord \<Rightarrow> bool" where
  "coord_ok w cfg co \<longleftrightarrow> desk_ok (w_parse_duration w) cfg co \<and> histories_ok (co_states co) \<and>
     history_ok (cc_history cfg) (co_history co) \<and> reports_ok (co_reports co) \<and>
     distinct (co_isolated co)"

lemma desk_ok_fields [simp]:
  "desk_ok p cfg (co\<lparr>co_states := x1\<rparr>) = desk_ok p cfg co"
  "desk_ok p cfg (co\<lparr>co_component_states := x2\<rparr>) = desk_ok p cfg co"
  "desk_ok p cfg (co\<lparr>co_last_scheduled := x3\<rparr>) = desk_ok p cfg co"
  "desk_ok p cfg (co\<lparr>co_reports := x4\<rparr>) = desk_ok p cfg co"
  "desk_ok p cfg (co\<lparr>co_isolated := x5\<rparr>) = desk_ok p cfg co"
  "desk_ok p cfg (co\<lparr>co_silent := x6\<rparr>) = desk_ok p cfg co"
  "desk_ok p cfg (co\<lparr>co_recovery := x7\<rparr>) = desk_ok p cfg co"
  "desk_ok p cfg (co\<lparr>co_overruled := x8\<rparr>) = desk_ok p cfg co"
  "desk_ok p cfg (co\<lparr>co_history := x9\<rparr>) = desk_ok p cfg co"
  "desk_ok p cfg (co\<lparr>co_beat_failures := x10\<rparr>) = desk_ok p cfg co"
  by (simp_all add: desk_ok_def book_ok_def outbox_ok_def escalations_ok_def pending_escalations_def fired_def)

lemma coord_ok_more:
  "desk_ok (w_parse_duration w) cfg co' \<Longrightarrow> desk.more co' = desk.more co \<Longrightarrow> coord_ok w cfg co \<Longrightarrow> coord_ok w cfg co'"
  using more_fields [of co' co] by (simp add: coord_ok_def)

lemma co_emit_ok: "coord_ok w cfg (fst ce) \<Longrightarrow> coord_ok w cfg (fst (co_emit w cfg now a ce))"
  using emit_desk_ok [of "w_parse_duration w" cfg "fst ce" now "w_send w" a]
  by (intro coord_ok_more [OF _ co_emit_more]) (auto simp: co_emit_fst coord_ok_def)

lemma co_emits_ok:
  "coord_ok w cfg (fst ce) \<Longrightarrow> coord_ok w cfg (fst (foldl (\<lambda>ce a. co_emit w cfg now a ce) ce as))"
  by (induction as arbitrary: ce) (simp_all add: co_emit_ok)

lemma record_observation_ok:
  "coord_ok w cfg co \<Longrightarrow> coord_ok w cfg (record_observation w cfg now chk source dropped verdict co r)"
  by (simp add: coord_ok_def record_observation_def append_history_ok)

lemma record_observations_ok:
  "coord_ok w cfg co \<Longrightarrow> coord_ok w cfg (foldl (record_observation w cfg now chk source dropped verdict) co rs)"
  by (induction rs arbitrary: co) (simp_all add: record_observation_ok)

lemma record_observation_fields [simp]:
  "co_states (record_observation w cfg now chk source dropped verdict co r) = co_states co"
  "co_component_states (record_observation w cfg now chk source dropped verdict co r) = co_component_states co"
  "co_checks (record_observation w cfg now chk source dropped verdict co r) = co_checks co"
  "co_last_scheduled (record_observation w cfg now chk source dropped verdict co r) = co_last_scheduled co"
  "co_reports (record_observation w cfg now chk source dropped verdict co r) = co_reports co"
  "co_silent (record_observation w cfg now chk source dropped verdict co r) = co_silent co"
  by (simp_all add: record_observation_def)

lemma record_observations_fields [simp]:
  "co_states (foldl (record_observation w cfg now chk source dropped verdict) co rs) = co_states co"
  "co_component_states (foldl (record_observation w cfg now chk source dropped verdict) co rs) = co_component_states co"
  "co_checks (foldl (record_observation w cfg now chk source dropped verdict) co rs) = co_checks co"
  "co_last_scheduled (foldl (record_observation w cfg now chk source dropped verdict) co rs) = co_last_scheduled co"
  "co_reports (foldl (record_observation w cfg now chk source dropped verdict) co rs) = co_reports co"
  by (induction rs arbitrary: co) simp_all

lemma state_of_update: "state_of (AList.update k x m) n = (if n = k then x else state_of m n)"
  by (simp add: state_of_def AList.update_conv')

lemma histories_update:
  "histories_ok m \<Longrightarrow> length (es_history x) \<le> max_inconclusive_history \<Longrightarrow> histories_ok (AList.update k x m)"
  by (simp add: histories_ok_def state_of_update)

lemma report_back_ok:
  "coord_ok w cfg co \<Longrightarrow> coord_ok w cfg (fst (report_back w cfg now prober co))"
proof -
  assume ok: "coord_ok w cfg co"
  have "coord_ok w cfg (fst (mark_result_reporting prober co))"
    using ok by (simp add: mark_result_reporting_def coord_ok_def Let_def)
  then show ?thesis
    by (auto simp: report_back_def co_emit_ok split: prod.splits)
qed

lemma decide_check_ok:
  "coord_ok w cfg co \<Longrightarrow> coord_ok w cfg (fst (decide_check w cfg at now f chk r co))"
proof -
  assume ok: "coord_ok w cfg co"
  have len: "length (es_history (state_of (co_states co) (c_name chk))) \<le> max_inconclusive_history"
    using ok by (simp add: coord_ok_def histories_ok_def)
  define co1 where "co1 = (if asks_about_failure chk (eval_options cfg at co) (state_of (co_states co) (c_name chk)) r \<or>
      asks_about_recovery chk (state_of (co_states co) (c_name chk)) r
    then foldl (record_observation w cfg now chk ''corroboration'' (\<lambda>x. r_vantage x \<noteq> c_vantage chk) (StatusOther []))
      co (corroborate (cc_peers cfg) chk r f) else co)"
  have ok1: "coord_ok w cfg co1" unfolding co1_def using ok by (simp add: record_observations_ok)
  have states: "co_states co1 = co_states co" by (simp add: co1_def)
  have "coord_ok w cfg (co1\<lparr>co_states := AList.update (c_name chk) (d_state
      (decide chk (eval_options cfg at co) (eval_options cfg now co1) at now (fo_took f)
        (corroborate (cc_peers cfg) chk r f) (state_of (co_states co) (c_name chk)) r)) (co_states co1)\<rparr>)"
    using ok1 decide_history_bound [OF len] by (simp add: coord_ok_def histories_update)
  then show ?thesis
    by (simp add: decide_check_def Let_def co1_def)
qed

lemma count_overruled_ok: "coord_ok w cfg co \<Longrightarrow> coord_ok w cfg (count_overruled chk r v co)"
  by (simp add: count_overruled_def coord_ok_def)

lemma roll_component_ok:
  "coord_ok w cfg (fst ce) \<Longrightarrow> coord_ok w cfg (fst (roll_component w cfg now ce cm))"
proof -
  assume ok: "coord_ok w cfg (fst ce)"
  obtain co evs where ce: "ce = (co, evs)" by (cases ce)
  obtain st alert where ap: "entity_apply ((state_of (co_component_states co) (comp_name cm))\<lparr>es_last_verdict := now\<rparr>)
      (roll cm (check_statuses co (comp_checks cm)), now) = (st, alert)" by (metis surj_pair)
  have "coord_ok w cfg (co\<lparr>co_component_states := x\<rparr>)" for x
    using ok by (simp add: ce coord_ok_def)
  then show ?thesis
    by (cases alert) (simp_all add: roll_component_def ce ap Let_def co_emit_ok)
qed

lemma roll_up_ok: "coord_ok w cfg (fst ce) \<Longrightarrow> coord_ok w cfg (fst (roll_up w cfg now n ce))"
proof -
  have "coord_ok w cfg (fst ce) \<Longrightarrow> coord_ok w cfg (fst (foldl (roll_component w cfg now) ce cms))" for cms
    by (induction cms arbitrary: ce) (simp_all add: roll_component_ok)
  then show "coord_ok w cfg (fst ce) \<Longrightarrow> coord_ok w cfg (fst (roll_up w cfg now n ce))"
    by (simp add: roll_up_def)
qed

lemma alert_check_ok: "coord_ok w cfg (fst ce) \<Longrightarrow> coord_ok w cfg (fst (alert_check w cfg now chk d ce))"
  by (auto simp: alert_check_def co_emit_ok split: option.splits)

text \<open>The stages of an accepted result, named.\<close>

lemma act_on_stages:
  obtains co1 evs1 co2 d co3 where
    "report_back w cfg at (r_prober r) co = (co1, evs1)"
    "decide_check w cfg at now f chk r co1 = (co2, d)"
    "co3 = count_overruled chk r (d_verdict d) (record_observation w cfg now chk ''scheduled''
        (\<lambda>r. r_vantage r \<noteq> c_vantage chk) (v_status (d_verdict d)) co2 r)"
    "fst (act_on w cfg at now f chk r co) =
       fst (roll_up w cfg now (c_name chk) (alert_check w cfg now chk d (co3, evs1)))"
    "fst (snd (act_on w cfg at now f chk r co)) =
       snd (roll_up w cfg now (c_name chk) (alert_check w cfg now chk d (co3, evs1)))"
    "snd (snd (act_on w cfg at now f chk r co)) = d_verdict d"
proof -
  obtain co1 evs1 where 1: "report_back w cfg at (r_prober r) co = (co1, evs1)" by (metis surj_pair)
  obtain co2 d where 2: "decide_check w cfg at now f chk r co1 = (co2, d)" by (metis surj_pair)
  show ?thesis
    by (rule that [OF 1 2 refl]) (simp_all add: act_on_def 1 2 Let_def split: prod.splits)
qed

lemma act_on_ok: "coord_ok w cfg co \<Longrightarrow> coord_ok w cfg (fst (act_on w cfg at now f chk r co))"
proof -
  assume ok: "coord_ok w cfg co"
  obtain co1 evs1 co2 d co3 where st:
    "report_back w cfg at (r_prober r) co = (co1, evs1)"
    "decide_check w cfg at now f chk r co1 = (co2, d)"
    "co3 = count_overruled chk r (d_verdict d) (record_observation w cfg now chk ''scheduled''
        (\<lambda>r. r_vantage r \<noteq> c_vantage chk) (v_status (d_verdict d)) co2 r)"
    "fst (act_on w cfg at now f chk r co) =
       fst (roll_up w cfg now (c_name chk) (alert_check w cfg now chk d (co3, evs1)))"
    by (rule act_on_stages)
  have "coord_ok w cfg co1" using report_back_ok [OF ok, of at "r_prober r"] st(1) by simp
  from decide_check_ok [OF this, of at now f chk r] st(2) have "coord_ok w cfg co2" by simp
  then have "coord_ok w cfg co3" unfolding st(3) by (intro count_overruled_ok record_observation_ok)
  then show ?thesis unfolding st(4) by (intro roll_up_ok alert_check_ok) simp
qed

lemma process_ok: "coord_ok w cfg co \<Longrightarrow> coord_ok w cfg (fst (process w cfg at now f r co))"
  using act_on_ok [of w cfg co at now f]
  by (auto simp: process_def Let_def record_observation_ok split: option.splits prod.splits)
    (metis fst_conv)

section \<open>Every handler keeps the invariant\<close>

lemma submit_ok: "coord_ok w cfg co \<Longrightarrow> coord_ok w cfg (fst (submit_result cfg now payload free co))"
  by (auto simp: submit_result_def coord_ok_def split: option.splits)

lemma set_alist_update: "x \<in> set (AList.update k v al) \<Longrightarrow> x = (k, v) \<or> x \<in> set al"
  by (induction al) (auto split: if_splits)

lemma put_report_ok: "reports_ok rs \<Longrightarrow> reports_ok (put_report rs r)"
proof -
  assume ok: "reports_ok rs"
  have "reports_ok (AList.update (rep_prober r) r rs)"
    unfolding reports_ok_def
  proof (intro conjI ballI)
    show "distinct (map fst (AList.update (rep_prober r) r rs))"
      using ok by (simp add: reports_ok_def distinct_update)
    fix x assume "x \<in> set (AList.update (rep_prober r) r rs)"
    from set_alist_update [OF this] ok show "case x of (n, r) \<Rightarrow> rep_prober r = n"
      by (auto simp: reports_ok_def)
  qed
  with ok show ?thesis by (auto simp: put_report_def split: option.splits)
qed

lemma handle_mesh_ok: "coord_ok w cfg co \<Longrightarrow> coord_ok w cfg (fst (handle_mesh w cfg now opened co))"
proof -
  assume ok: "coord_ok w cfg co"
  have "coord_ok w cfg (fst (report_mesh_transitions w cfg now (co\<lparr>co_reports := put_report (co_reports co) rep\<rparr>)))" for rep
  proof -
    let ?co = "co\<lparr>co_reports := put_report (co_reports co) rep\<rparr>"
    have "distinct (mv_isolated (mesh_of cfg now ?co))"
      using isolated_sorted_distinct by (simp add: mesh_of_def)
    then have "coord_ok w cfg (?co\<lparr>co_isolated := mv_isolated (mesh_of cfg now ?co)\<rparr>)"
      using ok by (simp add: coord_ok_def put_report_ok)
    then show ?thesis by (simp add: report_mesh_transitions_def Let_def co_emits_ok)
  qed
  moreover have "coord_ok w cfg co' \<Longrightarrow> coord_ok w cfg (begin_mesh_recovery p now co')" for co' p
    by (simp add: begin_mesh_recovery_def coord_ok_def)
  ultimately show ?thesis
    using ok by (auto simp: handle_mesh_def Let_def split: option.splits prod.splits) (metis fst_conv)+
qed

lemma co_beat_ok: "coord_ok w cfg co \<Longrightarrow> coord_ok w cfg (fst (co_beat w cfg now b co))"
proof -
  assume ok: "coord_ok w cfg co"
  obtain n alert where "beat_step (co_beat_failures co) (now, b) = (n, alert)" by (metis surj_pair)
  moreover have "coord_ok w cfg (co\<lparr>co_beat_failures := n\<rparr>)" using ok by (simp add: coord_ok_def)
  ultimately show ?thesis by (cases alert) (simp_all add: co_beat_def Let_def co_emit_ok)
qed

lemma release_coord_ok:
  "coord_ok w cfg co \<Longrightarrow>
   coord_ok w cfg (fst (release_suppressions (w_parse_duration w) cfg now (w_send w) co))"
  by (rule coord_ok_more [OF _ release_more]) (auto simp: coord_ok_def intro: release_desk_ok)

lemma flag_stale_history: "es_history (state_of (co_states (flag_stale stale co)) n) = es_history (state_of (co_states co) n)"
proof -
  have "es_history (state_of (foldl (\<lambda>m chk. AList.update (c_name chk)
      ((state_of m (c_name chk))\<lparr>es_stale := List.member stale (c_name chk)\<rparr>) m) m cs) n) =
    es_history (state_of m n)" for m cs
  proof (induction cs arbitrary: m)
    case Nil
    then show ?case by simp
  next
    case (Cons c cs)
    then show ?case by (simp add: state_of_update)
  qed
  then show ?thesis by (simp add: flag_stale_def)
qed

lemma flag_stale_status: "es_status (state_of (co_states (flag_stale stale co)) n) = es_status (state_of (co_states co) n)"
proof -
  have "es_status (state_of (foldl (\<lambda>m chk. AList.update (c_name chk)
      ((state_of m (c_name chk))\<lparr>es_stale := List.member stale (c_name chk)\<rparr>) m) m cs) n) =
    es_status (state_of m n)" for m cs
  proof (induction cs arbitrary: m)
    case Nil
    then show ?case by simp
  next
    case (Cons c cs)
    then show ?case by (simp add: state_of_update)
  qed
  then show ?thesis by (simp add: flag_stale_def)
qed

lemma check_staleness_stages:
  obtains co1 silent alerts ce where
    "co1 = fst (release_suppressions (w_parse_duration w) cfg now (w_send w) co)"
    "fst ce = (flag_stale (map fst (stale_checks cfg now co1)) co1)\<lparr>co_silent := silent\<rparr>"
    "check_staleness w cfg now co = foldl (\<lambda>ce n. roll_up w cfg now n ce)
       (foldl (\<lambda>ce a. co_emit w cfg now a ce) ce alerts) (map fst (stale_checks cfg now co1))"
proof -
  obtain co1 evs where 1: "release_suppressions (w_parse_duration w) cfg now (w_send w) co = (co1, evs)"
    by (metis surj_pair)
  let ?stale = "stale_checks cfg now co1"
  let ?co2 = "flag_stale (map fst ?stale) co1"
  obtain silent alerts where 2: "apply_silence ?co2 ?stale now (by_prober cfg ?co2 (map fst ?stale)) = (silent, alerts)"
    by (metis surj_pair)
  show ?thesis
    by (rule that [of co1 "(?co2\<lparr>co_silent := silent\<rparr>, evs)" silent alerts])
      (simp_all add: check_staleness_def 1 2 Let_def split: prod.splits)
qed

lemma roll_ups_ok:
  "coord_ok w cfg (fst ce) \<Longrightarrow> coord_ok w cfg (fst (foldl (\<lambda>ce n. roll_up w cfg now n ce) ce ns))"
  by (induction ns arbitrary: ce) (simp_all add: roll_up_ok)

lemma check_staleness_ok: "coord_ok w cfg co \<Longrightarrow> coord_ok w cfg (fst (check_staleness w cfg now co))"
proof -
  assume ok: "coord_ok w cfg co"
  obtain co1 silent alerts ce where st:
    "co1 = fst (release_suppressions (w_parse_duration w) cfg now (w_send w) co)"
    "fst ce = (flag_stale (map fst (stale_checks cfg now co1)) co1)\<lparr>co_silent := silent\<rparr>"
    "check_staleness w cfg now co = foldl (\<lambda>ce n. roll_up w cfg now n ce)
       (foldl (\<lambda>ce a. co_emit w cfg now a ce) ce alerts) (map fst (stale_checks cfg now co1))"
    by (rule check_staleness_stages)
  have "coord_ok w cfg co1" unfolding st(1) by (rule release_coord_ok [OF ok])
  then have "coord_ok w cfg (fst ce)"
    unfolding st(2) using flag_stale_history
    by (simp add: coord_ok_def histories_ok_def) (simp add: flag_stale_def)
  then show ?thesis unfolding st(3) by (intro roll_ups_ok co_emits_ok)
qed

text \<open>The coordinator as a transition system.\<close>

inductive coord_step :: "world \<Rightarrow> coord_config \<Rightarrow> coord \<Rightarrow> coord \<Rightarrow> bool" for w cfg where
  Submit: "coord_step w cfg co (fst (submit_result cfg now payload free co))"
| Result: "coord_step w cfg co (fst (process w cfg at now f r co))"
| Mesh: "coord_step w cfg co (fst (handle_mesh w cfg now opened co))"
| Tick: "coord_step w cfg co (fst (check_staleness w cfg now co))"
| Beat: "coord_step w cfg co (fst (co_beat w cfg now b co))"
| Desk: "desk_step (w_parse_duration w) cfg co co' \<Longrightarrow> desk.more co' = desk.more co \<Longrightarrow> coord_step w cfg co co'"

inductive_cases coord_step_elim: "coord_step w cfg co co'"

definition initial_coord :: "check list \<Rightarrow> time \<Rightarrow> coord" where
  "initial_coord checks now =
     \<lparr>dk_incidents = [], dk_next_incident = 0, dk_silences = [], dk_next_silence = 0,
      dk_maintenance = [], dk_outbox = [], dk_next_delivery = 0, dk_escalated = [],
      co_checks = checks, co_states = [], co_component_states = [], co_last_scheduled = [],
      co_reports = [], co_isolated = [], co_silent = [], co_recovery = [], co_overruled = [],
      co_history = [], co_beat_failures = 0, co_started_at = now\<rparr>"

inductive coord_reachable :: "world \<Rightarrow> coord_config \<Rightarrow> coord \<Rightarrow> bool" for w cfg where
  Init: "coord_reachable w cfg (initial_coord checks now)"
| Next: "coord_reachable w cfg co \<Longrightarrow> coord_step w cfg co co' \<Longrightarrow> coord_reachable w cfg co'"

lemma initial_ok: "coord_ok w cfg (initial_coord checks now)"
  by (simp add: initial_coord_def coord_ok_def desk_ok_def book_ok_def outbox_ok_def escalations_ok_def
      pending_escalations_def fired_def silences_ok_def managed_ok_def histories_ok_def state_of_def
      new_entity_def history_ok_def kept_def received_sorted_def reports_ok_def)

lemma coord_step_ok:
  "coord_step w cfg co co' \<Longrightarrow> named_policies cfg \<Longrightarrow> coord_ok w cfg co \<Longrightarrow> coord_ok w cfg co'"
proof (induction rule: coord_step.induct)
  case (Desk co co')
  then show ?case using step_ok by (intro coord_ok_more [of w cfg co' co]) (auto simp: coord_ok_def)
qed (simp_all add: submit_ok process_ok handle_mesh_ok check_staleness_ok co_beat_ok)

lemma reachable_ok: "coord_reachable w cfg co \<Longrightarrow> named_policies cfg \<Longrightarrow> coord_ok w cfg co"
  by (induction rule: coord_reachable.induct) (auto intro: initial_ok coord_step_ok)

section \<open>What a result does to the checks\<close>

lemma roll_component_states [simp]:
  "co_states (fst (roll_component w cfg now ce cm)) = co_states (fst ce)"
  "co_checks (fst (roll_component w cfg now ce cm)) = co_checks (fst ce)"
  "co_last_scheduled (fst (roll_component w cfg now ce cm)) = co_last_scheduled (fst ce)"
  by (simp_all add: roll_component_def Let_def split: prod.splits option.splits)

lemma roll_up_states [simp]:
  "co_states (fst (roll_up w cfg now n ce)) = co_states (fst ce)"
  "co_checks (fst (roll_up w cfg now n ce)) = co_checks (fst ce)"
  "co_last_scheduled (fst (roll_up w cfg now n ce)) = co_last_scheduled (fst ce)"
proof -
  have "co_states (fst (foldl (roll_component w cfg now) ce cms)) = co_states (fst ce) \<and>
      co_checks (fst (foldl (roll_component w cfg now) ce cms)) = co_checks (fst ce) \<and>
      co_last_scheduled (fst (foldl (roll_component w cfg now) ce cms)) = co_last_scheduled (fst ce)" for cms
    by (induction cms arbitrary: ce) simp_all
  then show "co_states (fst (roll_up w cfg now n ce)) = co_states (fst ce)"
    "co_checks (fst (roll_up w cfg now n ce)) = co_checks (fst ce)"
    "co_last_scheduled (fst (roll_up w cfg now n ce)) = co_last_scheduled (fst ce)"
    by (simp_all add: roll_up_def)
qed

lemma alert_check_states [simp]: "co_states (fst (alert_check w cfg now chk d ce)) = co_states (fst ce)"
  by (simp add: alert_check_def split: option.splits)

lemma report_back_fields:
  "report_back w cfg now prober co = (co', evs) \<Longrightarrow>
   co_states co' = co_states co \<and> co_reports co' = co_reports co \<and> co_checks co' = co_checks co"
proof -
  assume r: "report_back w cfg now prober co = (co', evs)"
  obtain co1 b where m: "mark_result_reporting prober co = (co1, b)" by (metis surj_pair)
  have f: "co_states co1 = co_states co \<and> co_reports co1 = co_reports co \<and> co_checks co1 = co_checks co"
    using m by (auto simp: mark_result_reporting_def Let_def split: if_splits)
  have "co' = co1 \<or> co' = fst (co_emit w cfg now (reporting_alert prober now) (co1, []))"
    using r m by (auto simp: report_back_def split: if_splits)
  then show ?thesis using f by (elim disjE) simp_all
qed

lemma eval_options_cong: "co_reports co' = co_reports co \<Longrightarrow> eval_options cfg now co' = eval_options cfg now co"
  by (rule options.equality) (auto simp: eval_options_def isolated_probers_def mesh_of_def)

text \<open>The decision taken on a result, from the state the coordinator is in.\<close>

definition decision_on :: "coord_config \<Rightarrow> time \<Rightarrow> time \<Rightarrow> fanout \<Rightarrow> check \<Rightarrow> result \<Rightarrow> coord \<Rightarrow> decision" where
  "decision_on cfg at now f chk r co =
     decide chk (eval_options cfg at co) (eval_options cfg now co) at now (fo_took f)
       (corroborate (cc_peers cfg) chk r f) (state_of (co_states co) (c_name chk)) r"

lemma decide_check_result:
  "decide_check w cfg at now f chk r co = (co', d) \<Longrightarrow>
   d = decision_on cfg at now f chk r co \<and>
   co_states co' = AList.update (c_name chk) (d_state d) (co_states co)"
proof -
  assume dc: "decide_check w cfg at now f chk r co = (co', d)"
  define co1 where "co1 = (if asks_about_failure chk (eval_options cfg at co) (state_of (co_states co) (c_name chk)) r \<or>
      asks_about_recovery chk (state_of (co_states co) (c_name chk)) r
    then foldl (record_observation w cfg now chk ''corroboration'' (\<lambda>x. r_vantage x \<noteq> c_vantage chk) (StatusOther []))
      co (corroborate (cc_peers cfg) chk r f) else co)"
  have c: "co_states co1 = co_states co" "co_reports co1 = co_reports co" by (simp_all add: co1_def)
  have o: "eval_options cfg now co1 = eval_options cfg now co" by (rule eval_options_cong [OF c(2)])
  have "d = decision_on cfg at now f chk r co"
    using dc unfolding decide_check_def Let_def co1_def [symmetric] o decision_on_def by simp
  moreover have "co_states co' = AList.update (c_name chk) (d_state d) (co_states co1)"
    using dc unfolding decide_check_def Let_def co1_def [symmetric] by auto
  ultimately show ?thesis using c by simp
qed

lemma act_on_states:
  "co_states (fst (act_on w cfg at now f chk r co)) =
     AList.update (c_name chk) (d_state (decision_on cfg at now f chk r co)) (co_states co)"
  "snd (snd (act_on w cfg at now f chk r co)) = d_verdict (decision_on cfg at now f chk r co)"
proof -
  obtain co1 evs1 co2 d co3 where st:
    "report_back w cfg at (r_prober r) co = (co1, evs1)"
    "decide_check w cfg at now f chk r co1 = (co2, d)"
    "co3 = count_overruled chk r (d_verdict d) (record_observation w cfg now chk ''scheduled''
        (\<lambda>r. r_vantage r \<noteq> c_vantage chk) (v_status (d_verdict d)) co2 r)"
    "fst (act_on w cfg at now f chk r co) =
       fst (roll_up w cfg now (c_name chk) (alert_check w cfg now chk d (co3, evs1)))"
    "snd (snd (act_on w cfg at now f chk r co)) = d_verdict d"
    by (rule act_on_stages)
  have f: "co_states co1 = co_states co" "co_reports co1 = co_reports co"
    using report_back_fields [OF st(1)] by auto
  have "decision_on cfg at now f chk r co1 = decision_on cfg at now f chk r co"
    using f eval_options_cong [OF f(2)] by (simp add: decision_on_def)
  with decide_check_result [OF st(2)] f
  have d: "d = decision_on cfg at now f chk r co"
    "co_states co2 = AList.update (c_name chk) (d_state d) (co_states co)" by simp_all
  have "co_states co3 = co_states co2" unfolding st(3) by (simp add: count_overruled_def)
  with st(4) d show "co_states (fst (act_on w cfg at now f chk r co)) =
     AList.update (c_name chk) (d_state (decision_on cfg at now f chk r co)) (co_states co)" by simp
  show "snd (snd (act_on w cfg at now f chk r co)) = d_verdict (decision_on cfg at now f chk r co)"
    using st(5) d by simp
qed

lemma check_by_name_some: "check_by_name co n = Some chk \<Longrightarrow> chk \<in> set (co_checks co) \<and> c_name chk = n"
  by (auto simp: check_by_name_def find_Some_iff)

lemma process_branches:
  obtains (unknown) e where "process w cfg at now f r co = (co, [], Inl e)"
      "check_by_name co (r_check r) = None \<or> peer_by_name (cc_peers cfg) (r_prober r) = None"
  | (isolated) chk peer where "check_by_name co (r_check r) = Some chk"
      "peer_by_name (cc_peers cfg) (r_prober r) = Some peer" "isolated_probers cfg at co (r_prober r)"
      "process w cfg at now f r co =
        (record_observation w cfg at chk ''scheduled'' (\<lambda>_. True) StatusUnknown co (normalize_route chk peer r),
         [], Inr (isolated_verdict chk (normalize_route chk peer r)))"
  | (accepted) chk peer where "check_by_name co (r_check r) = Some chk"
      "peer_by_name (cc_peers cfg) (r_prober r) = Some peer" "\<not> isolated_probers cfg at co (r_prober r)"
      "process w cfg at now f r co =
        (fst (act_on w cfg at now f chk (normalize_route chk peer r) co),
         fst (snd (act_on w cfg at now f chk (normalize_route chk peer r) co)),
         Inr (snd (snd (act_on w cfg at now f chk (normalize_route chk peer r) co))))"
proof (cases "check_by_name co (r_check r)")
  case None
  then show ?thesis by (intro unknown) (auto simp: process_def)
next
  case (Some chk)
  show ?thesis
  proof (cases "peer_by_name (cc_peers cfg) (r_prober r)")
    case None
    with Some show ?thesis by (intro unknown) (auto simp: process_def)
  next
    case peer: (Some peer)
    show ?thesis
    proof (cases "isolated_probers cfg at co (r_prober r)")
      case True
      with Some peer show ?thesis
        by (intro isolated) (auto simp: process_def normalize_fields Let_def)
    next
      case False
      with Some peer show ?thesis
        by (intro accepted) (auto simp: process_def normalize_fields Let_def split: prod.splits)
    qed
  qed
qed

text \<open>A result moves the state of its own check and of no other.\<close>

lemma process_other_checks:
  "n \<noteq> r_check r \<Longrightarrow> state_of (co_states (fst (process w cfg at now f r co))) n = state_of (co_states co) n"
proof (cases rule: process_branches [of w cfg at now f r co])
  case (accepted chk peer)
  assume "n \<noteq> r_check r"
  with accepted check_by_name_some [OF accepted(1)] show ?thesis
    by (simp add: act_on_states state_of_update)
qed (simp_all add: record_observation_def)

lemma process_own_check:
  assumes "check_by_name co (r_check r) = Some chk" "peer_by_name (cc_peers cfg) (r_prober r) = Some peer"
    and "\<not> isolated_probers cfg at co (r_prober r)"
  shows "state_of (co_states (fst (process w cfg at now f r co))) (r_check r) =
    d_state (decision_on cfg at now f chk (normalize_route chk peer r) co)"
proof (cases rule: process_branches [of w cfg at now f r co])
  case (accepted chk' peer')
  with assms check_by_name_some [OF assms(1)] show ?thesis
    by (simp add: act_on_states state_of_update)
qed (use assms in auto)

lemma process_isolated_frame:
  "isolated_probers cfg at co (r_prober r) \<Longrightarrow>
   fst (snd (process w cfg at now f r co)) = [] \<and>
   (\<exists>h. fst (process w cfg at now f r co) = co\<lparr>co_history := h\<rparr>)"
proof (cases rule: process_branches [of w cfg at now f r co])
  case (unknown e)
  then show ?thesis by (auto intro: exI [of _ "co_history co"])
next
  case (isolated chk peer)
  then show ?thesis by (auto simp: record_observation_def)
qed simp

text \<open>The staleness watch never decides anything about a target.\<close>

lemma staleness_decides_nothing:
  "es_status (state_of (co_states (fst (check_staleness w cfg now co))) n) = es_status (state_of (co_states co) n)"
proof -
  obtain co1 silent alerts ce where st:
    "co1 = fst (release_suppressions (w_parse_duration w) cfg now (w_send w) co)"
    "fst ce = (flag_stale (map fst (stale_checks cfg now co1)) co1)\<lparr>co_silent := silent\<rparr>"
    "check_staleness w cfg now co = foldl (\<lambda>ce n. roll_up w cfg now n ce)
       (foldl (\<lambda>ce a. co_emit w cfg now a ce) ce alerts) (map fst (stale_checks cfg now co1))"
    by (rule check_staleness_stages)
  have rolls: "co_states (fst (foldl (\<lambda>ce n. roll_up w cfg now n ce) ce ns)) = co_states (fst ce)" for ce ns
    by (induction ns arbitrary: ce) simp_all
  have "co_states co1 = co_states co" unfolding st(1) by (rule more_fields(2) [OF release_more])
  then show ?thesis
    unfolding st(3) rolls by (simp add: st(2) flag_stale_status)
qed

text \<open>After a tick, what readers are shown for a check is its decision, or unknown if it is stale.\<close>

lemma staleness_flags:
  assumes "distinct (map c_name (co_checks co))" "chk \<in> set (co_checks co)"
  shows "es_stale (state_of (co_states (fst (check_staleness w cfg now co))) (c_name chk)) \<longleftrightarrow>
    c_name chk \<in> fst ` set (stale_checks cfg now co)"
proof -
  obtain co1 silent alerts ce where st:
    "co1 = fst (release_suppressions (w_parse_duration w) cfg now (w_send w) co)"
    "fst ce = (flag_stale (map fst (stale_checks cfg now co1)) co1)\<lparr>co_silent := silent\<rparr>"
    "check_staleness w cfg now co = foldl (\<lambda>ce n. roll_up w cfg now n ce)
       (foldl (\<lambda>ce a. co_emit w cfg now a ce) ce alerts) (map fst (stale_checks cfg now co1))"
    by (rule check_staleness_stages)
  have rolls: "co_states (fst (foldl (\<lambda>ce n. roll_up w cfg now n ce) ce ns)) = co_states (fst ce)" for ce ns
    by (induction ns arbitrary: ce) simp_all
  note f = more_fields [OF release_more, of "w_parse_duration w" cfg now "w_send w" co, folded st(1)]
  have "last_heard cfg co1 c = last_heard cfg co c" for c by (simp only: last_heard_def f)
  then have same: "stale_checks cfg now co1 = stale_checks cfg now co" by (simp add: stale_checks_def f)
  show ?thesis
    unfolding st(3) rolls using assms by (simp add: st(2) flag_stale_spec f same)
qed

section \<open>Who alerts\<close>

fun event_alert :: "event \<Rightarrow> alert" where
  "event_alert (Sent n dest a) = a"
| "event_alert (Failed n dest a e) = a"

lemma deliver_alerts:
  "deliver cfg now send a d = (d', evs) \<Longrightarrow> e \<in> set evs \<Longrightarrow> event_alert e = a"
  using deliver_frame [of cfg now send a d d' evs] by auto

lemma emit_alerts: "e \<in> set (snd (emit parse cfg now send a d)) \<Longrightarrow> event_alert e = a"
proof -
  assume e: "e \<in> set (snd (emit parse cfg now send a d))"
  obtain sid sn where s: "active_silence now d a = (sid, sn)" by (metis surj_pair)
  obtain d' evs where dv: "deliver cfg now send a
      (record_incident a (active_maintenance parse cfg now d a) sid sn d) = (d', evs)" by (metis surj_pair)
  from e s dv have "e \<in> set evs" by (auto simp: emit_def Let_def split: if_splits)
  from deliver_alerts [OF dv this] show ?thesis .
qed

lemma co_emit_alerts: "e \<in> set (snd (co_emit w cfg now a ce)) \<Longrightarrow> e \<in> set (snd ce) \<or> event_alert e = a"
proof -
  obtain co evs where ce: "ce = (co, evs)" by (cases ce)
  obtain co' evs' where em: "emit (w_parse_duration w) cfg now (w_send w) a co = (co', evs')" by (metis surj_pair)
  assume "e \<in> set (snd (co_emit w cfg now a ce))"
  then have "e \<in> set evs \<or> e \<in> set evs'" by (auto simp: co_emit_def ce em)
  with emit_alerts [of e "w_parse_duration w" cfg now "w_send w" a co] em ce show ?thesis by auto
qed

lemma roll_component_alerts:
  "e \<in> set (snd (roll_component w cfg now ce cm)) \<Longrightarrow>
   e \<in> set (snd ce) \<or> (al_component (event_alert e) = comp_name cm \<and> al_check (event_alert e) = [] \<and> al_prober (event_alert e) = [])"
proof -
  assume e: "e \<in> set (snd (roll_component w cfg now ce cm))"
  obtain co evs where ce: "ce = (co, evs)" by (cases ce)
  obtain st alert where ap: "entity_apply ((state_of (co_component_states co) (comp_name cm))\<lparr>es_last_verdict := now\<rparr>)
      (roll cm (check_statuses co (comp_checks cm)), now) = (st, alert)" by (metis surj_pair)
  show ?thesis
  proof (cases alert)
    case None
    with e show ?thesis by (simp add: roll_component_def ce ap Let_def)
  next
    case (Some k)
    with e co_emit_alerts show ?thesis
      by (fastforce simp: roll_component_def ce ap Let_def empty_alert_def)
  qed
qed

lemma roll_up_alerts:
  "e \<in> set (snd (roll_up w cfg now n ce)) \<Longrightarrow>
   e \<in> set (snd ce) \<or>
   (\<exists>cm \<in> set (components_for cfg n). al_component (event_alert e) = comp_name cm \<and>
      al_check (event_alert e) = [] \<and> al_prober (event_alert e) = [])"
proof -
  have "e \<in> set (snd (foldl (roll_component w cfg now) ce cms)) \<Longrightarrow>
    e \<in> set (snd ce) \<or> (\<exists>cm \<in> set cms. al_component (event_alert e) = comp_name cm \<and>
      al_check (event_alert e) = [] \<and> al_prober (event_alert e) = [])" for cms
  proof (induction cms arbitrary: ce)
    case Nil
    then show ?case by simp
  next
    case (Cons cm cms)
    from Cons.prems have "e \<in> set (snd (foldl (roll_component w cfg now) (roll_component w cfg now ce cm) cms))"
      by simp
    from Cons.IH [OF this] roll_component_alerts [of e w cfg now ce cm] show ?case by auto
  qed
  then show "e \<in> set (snd (roll_up w cfg now n ce)) \<Longrightarrow>
   e \<in> set (snd ce) \<or>
   (\<exists>cm \<in> set (components_for cfg n). al_component (event_alert e) = comp_name cm \<and>
      al_check (event_alert e) = [] \<and> al_prober (event_alert e) = [])"
    by (simp add: roll_up_def)
qed

text \<open>What a scheduled result may cause to be sent: that its prober reports again, that its check
  changed (only if the check is in no component), that a component containing it changed.\<close>

lemma process_alerts:
  assumes "e \<in> set (fst (snd (process w cfg at now f r co)))"
  shows "(al_prober (event_alert e) = r_prober r \<and> al_kind (event_alert e) = KindReporting \<and> al_check (event_alert e) = []) \<or>
    (al_check (event_alert e) = r_check r \<and> components_for cfg (r_check r) = []) \<or>
    (\<exists>cm \<in> set (components_for cfg (r_check r)). al_component (event_alert e) = comp_name cm \<and>
       al_check (event_alert e) = [] \<and> al_prober (event_alert e) = [])"
proof (cases rule: process_branches [of w cfg at now f r co])
  case (unknown x)
  with assms show ?thesis by simp
next
  case (isolated chk peer)
  with assms show ?thesis by simp
next
  case (accepted chk peer)
  let ?r = "normalize_route chk peer r"
  have n: "c_name chk = r_check r" using check_by_name_some [OF accepted(1)] by simp
  obtain co1 evs1 co2 d co3 where st:
    "report_back w cfg at (r_prober ?r) co = (co1, evs1)"
    "fst (snd (act_on w cfg at now f chk ?r co)) =
       snd (roll_up w cfg now (c_name chk) (alert_check w cfg now chk d (co3, evs1)))"
    by (rule act_on_stages)
  have returning: "event_alert x = reporting_alert (r_prober r) at" if "x \<in> set evs1" for x
  proof -
    obtain co0 b where m: "mark_result_reporting (r_prober ?r) co = (co0, b)" by (metis surj_pair)
    with st(1) that have "x \<in> set (snd (co_emit w cfg at (reporting_alert (r_prober ?r) at) (co0, [])))"
      by (auto simp: report_back_def split: if_splits)
    from co_emit_alerts [OF this] show ?thesis by (simp add: normalize_fields)
  qed
  have own: "x \<in> set evs1 \<or> (al_check (event_alert x) = r_check r \<and> components_for cfg (r_check r) = [])"
    if "x \<in> set (snd (alert_check w cfg now chk d (co3, evs1)))" for x
    using that co_emit_alerts [of x w cfg now _ "(co3, evs1)"] n
    by (fastforce simp: alert_check_def check_alert_def split: option.splits if_splits)
  from assms accepted(4) st(2) have "e \<in> set (snd (roll_up w cfg now (c_name chk) (alert_check w cfg now chk d (co3, evs1))))"
    by simp
  from roll_up_alerts [OF this] show ?thesis
  proof
    assume "e \<in> set (snd (alert_check w cfg now chk d (co3, evs1)))"
    from own [OF this] returning [of e] show ?thesis by (auto simp: reporting_alert_def empty_alert_def)
  qed (use n in simp)
qed

section \<open>Scheduled results move forward\<close>

lemma submit_accepted:
  "submit_result cfg now payload free co = (co', AcceptedResult r') \<Longrightarrow>
   \<exists>r. payload = Some ([], r) \<and> r_at r' = r_at r \<and> r_status r' = r_status r \<and>
     scheduled_key r' = scheduled_key r \<and> free \<and>
     time_of (co_last_scheduled co) (scheduled_key r) < r_at r \<and>
     co' = co\<lparr>co_last_scheduled := AList.update (scheduled_key r) (r_at r) (co_last_scheduled co)\<rparr>"
  by (auto simp: submit_result_def scheduled_key_def split: option.splits if_splits)

lemma submit_rejected:
  "submit_result cfg now payload free co = (co', s) \<Longrightarrow> (\<forall>r. s \<noteq> AcceptedResult r) \<Longrightarrow> co' = co"
  by (fastforce simp: submit_result_def split: option.splits if_splits)

lemma time_of_update: "time_of (AList.update k t m) n = (if n = k then t else time_of m n)"
  by (simp add: time_of_def AList.update_conv')

lemma submit_mono:
  "time_of (co_last_scheduled co) k \<le> time_of (co_last_scheduled (fst (submit_result cfg now payload free co))) k"
proof -
  obtain co' s where sub: "submit_result cfg now payload free co = (co', s)" by (metis surj_pair)
  show ?thesis
  proof (cases "\<exists>r. s = AcceptedResult r")
    case True
    with sub submit_accepted [of cfg now payload free co co'] show ?thesis
      by (auto simp: time_of_update)
  next
    case False
    with submit_rejected [OF sub] sub show ?thesis by auto
  qed
qed

text \<open>A run of submissions, each with its time, payload and queue state; what is accepted.\<close>

fun submit_run :: "coord_config \<Rightarrow> coord \<Rightarrow> (time \<times> (string \<times> result) option \<times> bool) list \<Rightarrow> result list" where
  "submit_run cfg co [] = []"
| "submit_run cfg co ((now, payload, free) # es) =
     (case submit_result cfg now payload free co of
        (co', AcceptedResult r) \<Rightarrow> r # submit_run cfg co' es
      | (co', _) \<Rightarrow> submit_run cfg co' es)"

lemma submit_run_forward:
  "sorted_wrt (<) (map r_at (filter (\<lambda>r. scheduled_key r = k) (submit_run cfg co es))) \<and>
   (\<forall>r \<in> set (submit_run cfg co es). scheduled_key r = k \<longrightarrow> time_of (co_last_scheduled co) k < r_at r)"
proof (induction es arbitrary: co)
  case Nil
  then show ?case by simp
next
  case (Cons e es)
  obtain now payload free where e: "e = (now, payload, free)" by (metis surj_pair)
  obtain co' s where sub: "submit_result cfg now payload free co = (co', s)" by (metis surj_pair)
  have mono: "time_of (co_last_scheduled co) k \<le> time_of (co_last_scheduled co') k"
    using submit_mono [of co k cfg now payload free] sub by simp
  show ?case
  proof (cases "\<exists>r. s = AcceptedResult r")
    case False
    then have "submit_run cfg co (e # es) = submit_run cfg co' es"
      using sub e by (cases s) auto
    with Cons.IH [of co'] mono show ?thesis by fastforce
  next
    case True
    then obtain r where r: "s = AcceptedResult r" by blast
    from submit_accepted [OF sub [unfolded r]]
    have acc: "time_of (co_last_scheduled co) (scheduled_key r) < r_at r"
      "time_of (co_last_scheduled co') (scheduled_key r) = r_at r" by (auto simp: time_of_update)
    have run: "submit_run cfg co (e # es) = r # submit_run cfg co' es" using sub r e by simp
    from Cons.IH [of co'] have "sorted_wrt (<) (map r_at (filter (\<lambda>r. scheduled_key r = k) (submit_run cfg co' es)))"
      "\<forall>x \<in> set (submit_run cfg co' es). scheduled_key x = k \<longrightarrow> time_of (co_last_scheduled co') k < r_at x"
      by blast+
    with acc mono show ?thesis unfolding run by (cases "scheduled_key r = k") fastforce+
  qed
qed

section \<open>Isolation is announced once\<close>

definition mesh_step :: "string \<Rightarrow> string list \<Rightarrow> time \<times> mesh_view \<Rightarrow> string list \<times> alert option" where
  "mesh_step p was e =
     (mv_isolated (snd e), find (\<lambda>a. al_prober a = p) (transition_alerts (fst e) (snd e) was))"

lemma transition_alerts_for:
  "find (\<lambda>a. al_prober a = p) (transition_alerts now st was) =
     (if p \<in> set (mv_isolated st) \<and> p \<notin> set was
      then Some (empty_alert\<lparr>al_prober := p, al_kind := KindIsolated, al_at := now, al_detail := mesh_summary st\<rparr>)
      else if p \<in> set was \<and> p \<notin> set (mv_isolated st)
      then Some (empty_alert\<lparr>al_prober := p, al_kind := KindRejoined, al_at := now,
             al_detail := ''can reach the fleet again; its results are being counted''\<rparr>)
      else None)"
proof -
  have find_map: "find (\<lambda>a. al_prober a = p) (map (\<lambda>n. g n) ns @ rest) =
      (if p \<in> set ns then Some (g p) else find (\<lambda>a. al_prober a = p) rest)"
    if "\<And>n. al_prober (g n) = n" for g ns rest
    using that by (induction ns) auto
  have find_map': "find (\<lambda>a. al_prober a = p) (map (\<lambda>n. g n) ns) = (if p \<in> set ns then Some (g p) else None)"
    if "\<And>n. al_prober (g n) = n" for g ns
    using that by (induction ns) auto
  show ?thesis
    unfolding transition_alerts_def by (subst find_map, simp, subst find_map', simp, auto)
qed

interpretation isolation: alarm "mesh_step p" "\<lambda>was. p \<in> set was"
    "\<lambda>a. al_kind a = KindIsolated" "\<lambda>a. al_kind a = KindRejoined" for p
  by unfold_locales (auto simp: mesh_step_def transition_alerts_for split: if_splits)

lemma report_mesh_transitions_step:
  "co_isolated (fst (report_mesh_transitions w cfg now co)) = fst (mesh_step p (co_isolated co) (now, mesh_of cfg now co))"
  by (simp add: report_mesh_transitions_def Let_def mesh_step_def)

section \<open>Outages rest on a quorum\<close>

text \<open>If a result turns its check down, enough distinct probers reported it down: each admitted
  (fresh, of the check's vantage and route, not isolated), independent of the others, and each
  either the sender or a corroborator that was asked and answered.\<close>

lemma down_needs_quorum:
  assumes "check_by_name co (r_check r) = Some chk" "peer_by_name (cc_peers cfg) (r_prober r) = Some peer"
    and "es_status (state_of (co_states co) (r_check r)) \<noteq> StatusDown"
    and "es_status (state_of (co_states (fst (process w cfg at now f r co))) (r_check r)) = StatusDown"
  shows "\<exists>S. q_agree (c_quorum chk) \<le> int (card S) \<and> independent (q_distinct (c_quorum chk)) S \<and>
    inj_on r_prober S \<and> S \<subseteq> insert (normalize_route chk peer r)
        (set (corroborate (cc_peers cfg) chk (normalize_route chk peer r) f)) \<and>
    (\<forall>x \<in> S. r_status x = StatusDown \<and> admitted chk (eval_options cfg now co) x)"
proof -
  let ?r = "normalize_route chk peer r"
  have n: "c_name chk = r_check r" using check_by_name_some [OF assms(1)] by simp
  have iso: "\<not> isolated_probers cfg at co (r_prober r)"
  proof
    assume "isolated_probers cfg at co (r_prober r)"
    from process_isolated_frame [OF this, of w now f] obtain h where
      "fst (process w cfg at now f r co) = co\<lparr>co_history := h\<rparr>" by blast
    with assms(3,4) show False by simp
  qed
  let ?early = "eval_options cfg at co" and ?late = "eval_options cfg now co"
  let ?as = "corroborate (cc_peers cfg) chk ?r f" and ?st = "state_of (co_states co) (c_name chk)"
  have "es_status (d_state (decision_on cfg at now f chk ?r co)) = StatusDown"
    using assms(4) process_own_check [OF assms(1,2) iso] by simp
  then have "v_status (judge chk ?early ?late ?st ?r ?as) = StatusDown"
    using assms(3) n unfolding decision_on_def by (auto simp: decide_status Let_def split: if_splits)
  then have "v_status (evaluate chk (evidence chk ?early ?st ?r ?as) ?late) = StatusDown"
    by (simp add: judge_down)
  then have "agreeing chk (with_status StatusDown (voters chk ?late (evidence chk ?early ?st ?r ?as)))"
    by (simp only: evaluate_status_voters split: if_splits) auto
  from agreement_set [OF this] obtain S where
    "S \<subseteq> set (evidence chk ?early ?st ?r ?as)" "q_agree (c_quorum chk) \<le> int (card S)"
    "independent (q_distinct (c_quorum chk)) S" "inj_on r_prober S"
    "\<forall>x \<in> S. r_status x = StatusDown \<and> admitted chk ?late x" by blast
  moreover have "set (evidence chk ?early ?st ?r ?as) \<subseteq> insert ?r (set ?as)"
    by (auto simp: evidence_def)
  ultimately show ?thesis by blast
qed

text \<open>The same for the end of an outage: the votes that answered.\<close>

lemma recovery_needs_votes:
  assumes "check_by_name co (r_check r) = Some chk" "peer_by_name (cc_peers cfg) (r_prober r) = Some peer"
    and "es_status (state_of (co_states co) (r_check r)) = StatusDown"
    and "es_status (state_of (co_states (fst (process w cfg at now f r co))) (r_check r)) \<noteq> StatusDown"
  shows "\<exists>S. q_agree (c_quorum chk) \<le> int (card S) \<and> independent (q_distinct (c_quorum chk)) S \<and>
    inj_on r_prober S \<and> S \<subseteq> insert (normalize_route chk peer r)
        (set (corroborate (cc_peers cfg) chk (normalize_route chk peer r) f)) \<and>
    (\<forall>x \<in> S. (r_status x = StatusUp \<or> r_status x = StatusWarning) \<and> admitted chk (eval_options cfg now co) x)"
proof -
  let ?r = "normalize_route chk peer r"
  have n: "c_name chk = r_check r" using check_by_name_some [OF assms(1)] by simp
  have iso: "\<not> isolated_probers cfg at co (r_prober r)"
  proof
    assume "isolated_probers cfg at co (r_prober r)"
    from process_isolated_frame [OF this, of w now f] obtain h where
      "fst (process w cfg at now f r co) = co\<lparr>co_history := h\<rparr>" by blast
    with assms(3,4) show False by simp
  qed
  let ?early = "eval_options cfg at co" and ?late = "eval_options cfg now co"
  let ?as = "corroborate (cc_peers cfg) chk ?r f" and ?st = "state_of (co_states co) (c_name chk)"
  let ?ev = "evidence chk ?early ?st ?r ?as" and ?d = "q_distinct (c_quorum chk)"
  have "es_status (d_state (decision_on cfg at now f chk ?r co)) \<noteq> StatusDown"
    using assms(4) process_own_check [OF assms(1,2) iso] by simp
  then have "q_agree (c_quorum chk) \<le> int (v_ind_up (judge chk ?early ?late ?st ?r ?as))"
    unfolding decision_on_def using assms(3) n by (intro recovery_needs_quorum) simp_all
  then have q: "q_agree (c_quorum chk) \<le> int (independent_count
      (with_status StatusUp (voters chk ?late ?ev) @ with_status StatusWarning (voters chk ?late ?ev)) ?d)"
    by (simp add: judge_counts evaluate_voters conclude_counts)
  let ?answered = "with_status StatusUp (voters chk ?late ?ev) @ with_status StatusWarning (voters chk ?late ?ev)"
  let ?S = "set (independent_results ?answered ?d)"
  have sub: "?S \<subseteq> set ?answered" by (rule independent_results_subset)
  have votes: "r \<in> set (voters chk ?late ?ev) \<and> (r_status r = StatusUp \<or> r_status r = StatusWarning)"
    if "r \<in> ?S" for r using sub that by (auto simp: with_status_def)
  have "inj_on r_prober ?S"
    using votes voter_distinct_prober by (intro inj_onI) blast
  moreover have "independent ?d ?S" by (rule independent_results_independent)
  moreover have "?S \<subseteq> insert ?r (set ?as)"
    using votes voters_in by (fastforce simp: evidence_def split: if_splits)
  moreover have "\<forall>x \<in> ?S. (r_status x = StatusUp \<or> r_status x = StatusWarning) \<and> admitted chk ?late x"
    using votes voters_in by blast
  moreover have "q_agree (c_quorum chk) \<le> int (card ?S)"
    using q by (simp only: independent_count_card)
  ultimately show ?thesis by blast
qed

end
