(* ===== verification/Examples.thy ===== *)
theory Examples
  imports Coordinator
begin

text \<open>
  A small deployment on which the theorems are instantiated: three probers at three providers, one
  web check that needs two of three to agree, a coordinator without components, windows or routes,
  and results of the check. Nothing here models code.
\<close>

definition web_check :: check where
  "web_check = \<lparr>c_name = ''web'', c_kind = KindHTTP, c_target = ''https://example.org'', c_vantage = VantagePublic,
     c_interval = minute, c_timeout = 10 * second, c_quorum = \<lparr>q_agree = 2, q_of = 3, q_distinct = True\<rparr>,
     c_prober = ''ams'', c_probers = [], c_expect_status = [200], c_expect_body = [], c_send = [],
     c_http_method = [], c_http_headers = [], c_http_body = [], c_server_name = [], c_start_tls = False,
     c_dns_record = [], c_dns_server = [], c_dns_rcode = [], c_grpc_service = [], c_grpc_tls = False,
     c_ca_file = [], c_proxy_profile = [], c_tls_expiry_warning = 0, c_latency_warning = 0\<rparr>"

definition a_peer :: "string \<Rightarrow> string \<Rightarrow> peer" where
  "a_peer n provider = \<lparr>p_name = n, p_url = [], p_provider = provider, p_proxy_profiles = [], p_public_key = []\<rparr>"

definition fleet3 :: "peer list" where
  "fleet3 = [a_peer ''ams'' ''one'', a_peer ''fra'' ''two'', a_peer ''nyc'' ''three'']"

definition a_result :: "string \<Rightarrow> status \<Rightarrow> time \<Rightarrow> result" where
  "a_result n s at = \<lparr>r_check = ''web'', r_prober = n, r_vantage = VantagePublic, r_status = s, r_at = at,
     r_latency = 0, r_detail = [], r_provider = [], r_proxy_profile = [], r_egress = []\<rparr>"

definition config3 :: coord_config where
  "config3 = \<lparr>dc_maintenance = [], dc_destinations = [], dc_routes = [], dc_escalations = [],
     dc_retry_initial = 0, dc_retry_max = 0, cc_peers = fleet3, cc_components = [],
     cc_result_max_age = 2 * minute, cc_stale_multiplier = 0, cc_stale_grace = 0, cc_mesh_max_age = 0,
     cc_mesh_min_peers = 0, cc_heartbeat_interval = 0, cc_history = \<lparr>hc_retention = 0, hc_max_per_check = 0\<rparr>\<rparr>"

definition plain_world :: world where
  "plain_world = \<lparr>w_parse_duration = (\<lambda>_. None), w_parse_time = (\<lambda>_. 0), w_observation_id = (\<lambda>_. []),
     w_send = (\<lambda>_ _. None)\<rparr>"

definition answering :: "status \<Rightarrow> time \<Rightarrow> fanout" where
  "answering s at = \<lparr>fo_slot = True, fo_request_id = (\<lambda>n. n), fo_answer = (\<lambda>n. Some (n, a_result n s at)),
     fo_took = 0\<rparr>"

definition start :: coord where "start = initial_coord [web_check] 0"

lemmas example_defs = web_check_def a_peer_def fleet3_def a_result_def config3_def plain_world_def
  answering_def start_def

text \<open>The state after \<open>ams\<close> reported the site down and both others confirmed it.\<close>

definition outage_run :: "coord \<times> event list \<times> (process_error + verdict)" where
  "outage_run = process plain_world config3 (1000 * second) (1001 * second)
     (answering StatusDown (1000 * second)) (a_result ''ams'' StatusDown (1000 * second)) start"

lemma outage_status: "es_status (state_of (co_states (fst outage_run)) ''web'') = StatusDown"
  by code_simp

lemma outage_told: "\<exists>e es. fst (snd outage_run) = e # es \<and> al_prober (event_alert e) = []"
proof -
  have "fst (snd outage_run) \<noteq> [] \<and> al_prober (event_alert (hd (fst (snd outage_run)))) = []"
    by code_simp
  then show ?thesis by (metis list.exhaust_sel)
qed

lemma start_checks [simp]: "check_by_name start ''web'' = Some web_check"
  by (simp add: start_def initial_coord_def check_by_name_def web_check_def)

lemma fleet_names [simp]: "peer_by_name (cc_peers config3) ''ams'' = Some (a_peer ''ams'' ''one'')"
  by (simp add: config3_def fleet3_def peer_by_name_def a_peer_def)

lemma a_result_simps [simp]:
  "r_check (a_result n s t) = ''web''" "r_prober (a_result n s t) = n" "r_status (a_result n s t) = s"
  "r_at (a_result n s t) = t" "r_vantage (a_result n s t) = VantagePublic"
  "r_provider (a_result n s t) = []" "r_proxy_profile (a_result n s t) = []" "r_egress (a_result n s t) = []"
  by (simp_all add: a_result_def)

lemma start_states [simp]: "state_of (co_states start) n = new_entity"
  by (simp add: start_def initial_coord_def state_of_def)

lemma web_check_valid: "check_validate web_check = None"
proof -
  have "trim_space ''web'' = ''web''" "trim_space ''https://example.org'' = ''https://example.org''" by code_simp+
  then show ?thesis
    by (simp add: check_validate_None validate_cases_def web_check_def quorum_validate_def known_kind_def
        valid_dns_record_def valid_dns_rcode_def max_field_bytes_def second_def minute_def)
qed

end
