(* ===== verification/Verdicts.thy ===== *)
theory Verdicts
  imports Examples
begin

text \<open>
  What the verdict of a check means (\<open>internal/quorum\<close>): the size of an independent set is the
  largest there is, and the status computed is the one a short declarative reading of the votes
  gives. The reading \<open>verdict_of\<close> knows nothing of ballots, matchings or the order of arrival.
\<close>

section \<open>A declarative reading of the votes\<close>

text \<open>The vote of a prober is its newest admitted result.\<close>

definition newest_votes :: "check \<Rightarrow> options \<Rightarrow> result list \<Rightarrow> result set" where
  "newest_votes c opts rs =
     {r \<in> set rs. admitted c opts r \<and>
        (\<forall>r' \<in> set rs. admitted c opts r' \<longrightarrow> r_prober r' = r_prober r \<longrightarrow> r_at r' \<le> r_at r)}"

text \<open>Enough votes for a status, no two sharing an exit or (on request) a provider.\<close>

definition quorum_for :: "check \<Rightarrow> status \<Rightarrow> result set \<Rightarrow> bool" where
  "quorum_for c s V \<longleftrightarrow>
     (\<exists>S \<subseteq> {r \<in> V. r_status r = s}. independent (q_distinct (c_quorum c)) S \<and>
        q_agree (c_quorum c) \<le> int (card S))"

definition verdict_of :: "check \<Rightarrow> result set \<Rightarrow> status" where
  "verdict_of c V =
     (if quorum_for c StatusDown V then StatusDown
      else if \<forall>r \<in> V. \<not> is_evidence r then StatusUnknown
      else if \<exists>r \<in> V. r_status r = StatusDown then StatusUnknown
      else if quorum_for c StatusWarning V then StatusWarning
      else StatusUp)"

text \<open>No prober reports twice at the same instant.\<close>

definition one_report_per_instant :: "result list \<Rightarrow> bool" where
  "one_report_per_instant rs \<longleftrightarrow>
     (\<forall>r \<in> set rs. \<forall>r' \<in> set rs. r_prober r = r_prober r' \<longrightarrow> r_at r = r_at r' \<longrightarrow> r = r')"

lemma agreeing_iff:
  "agreeing c (with_status s rs) \<longleftrightarrow> quorum_for c s (set rs)"
proof
  assume a: "agreeing c (with_status s rs)"
  let ?S = "set (independent_results (with_status s rs) (q_distinct (c_quorum c)))"
  have "?S \<subseteq> {r \<in> set rs. r_status r = s}"
    using independent_results_subset [of "with_status s rs"] by (auto simp: with_status_def)
  with a show "quorum_for c s (set rs)"
    unfolding quorum_for_def
    by (intro exI [of _ ?S]) (simp add: independent_results_independent independent_count_card)
next
  assume "quorum_for c s (set rs)"
  then obtain S where S: "S \<subseteq> set (with_status s rs)" "independent (q_distinct (c_quorum c)) S"
    "q_agree (c_quorum c) \<le> int (card S)"
    by (auto simp: quorum_for_def with_status_def)
  from independent_results_largest [OF S(1,2)] S(3) show "agreeing c (with_status s rs)" by linarith
qed

lemma voters_newest:
  assumes "one_report_per_instant rs"
  shows "set (voters c opts rs) = newest_votes c opts rs"
proof (intro set_eqI iffI)
  fix r assume "r \<in> set (voters c opts rs)"
  then obtain p where "(p, r) \<in> set (kept_votes c opts rs)" by auto
  then have "map_of (kept_votes c opts rs) p = Some r" by (simp add: distinct_kept)
  from kept_newest [OF this] show "r \<in> newest_votes c opts rs" by (auto simp: newest_votes_def)
next
  fix r assume r: "r \<in> newest_votes c opts rs"
  then have adm: "r \<in> set rs" "admitted c opts r" by (auto simp: newest_votes_def)
  have run: "votes_kept.newest_of (set (filter (admitted c opts) rs)) (map_of (kept_votes c opts rs))"
    unfolding kept_votes_def by (rule votes_kept.run_newest) simp
  have "map_of (kept_votes c opts rs) (r_prober r) \<noteq> None"
    using votes_kept.newest_of_absent [OF run, of "r_prober r"] adm by auto
  then obtain r0 where r0: "map_of (kept_votes c opts rs) (r_prober r) = Some r0" by auto
  from kept_newest [OF this] r adm have "r_at r0 = r_at r" "r0 \<in> set rs" "r_prober r0 = r_prober r"
    by (auto simp: newest_votes_def intro!: order_antisym)
  with assms adm have "r0 = r" by (auto simp: one_report_per_instant_def)
  with r0 show "r \<in> set (voters c opts rs)" by (force dest: map_of_SomeD)
qed

section \<open>The ballot does not depend on the order of arrival\<close>

text \<open>A store in which the newest record wins keeps the first of the records of that key and instant,
  so only the order among records of one key and one instant can matter.\<close>

context newest_wins
begin

lemma run_first:
  assumes "held s = (\<lambda>_. None)"
  shows "held (foldl put s rs) k = Some r \<Longrightarrow> \<exists>ys. filter (\<lambda>x. key x = k \<and> stamp x = stamp r) rs = r # ys"
proof (induction rs rule: rev_induct)
  case Nil
  with assms show ?case by simp
next
  case (snoc x rs)
  show ?case
  proof (rule put_cases [of "foldl put s rs" x])
    assume put: "held (put (foldl put s rs) x) = (held (foldl put s rs))(key x \<mapsto> x)"
      and newer: "\<And>old. held (foldl put s rs) (key x) = Some old \<Longrightarrow> stamp old < stamp x"
    have "stamp y < stamp x" if y: "y \<in> set rs" "key y = key x" for y
    proof -
      have run: "newest_of (set rs) (held (foldl put s rs))" by (rule run_newest) (rule assms)
      from newest_of_absent [OF run, of "key x"] y obtain old where "held (foldl put s rs) (key x) = Some old"
        by (metis image_eqI not_None_eq)
      with newest_of_held [OF run this] newer y show ?thesis by fastforce
    qed
    then have "filter (\<lambda>y. key y = key x \<and> stamp y = stamp x) rs = []" by (fastforce simp: filter_empty_conv)
    with snoc put show ?thesis by (auto split: if_splits)
  qed (use snoc in auto)
qed

lemma run_turns:
  assumes empty: "held s = (\<lambda>_. None)"
    and turns: "\<And>k t. filter (\<lambda>x. key x = k \<and> stamp x = t) rs = filter (\<lambda>x. key x = k \<and> stamp x = t) rs'"
  shows "held (foldl put s rs) = held (foldl put s rs')"
proof
  fix k
  have sets: "x \<in> set rs \<longleftrightarrow> x \<in> set rs'" for x
    using arg_cong [OF turns [of "key x" "stamp x"], of "\<lambda>xs. x \<in> set xs"] by simp
  then have same: "set rs = set rs'" by blast
  have run: "newest_of (set rs) (held (foldl put s rs))" "newest_of (set rs) (held (foldl put s rs'))"
    using run_newest [OF empty, of rs] run_newest [OF empty, of rs'] same by simp_all
  show "held (foldl put s rs) k = held (foldl put s rs') k"
  proof (cases "k \<in> key ` set rs")
    case True
    then obtain r r' where r: "held (foldl put s rs) k = Some r" "held (foldl put s rs') k = Some r'"
      using newest_of_absent [OF run(1)] newest_of_absent [OF run(2)] by blast
    with newest_of_held [OF run(1)] newest_of_held [OF run(2)] have "stamp r = stamp r'"
      by (meson order_antisym)
    moreover obtain ys ys' where "filter (\<lambda>x. key x = k \<and> stamp x = stamp r) rs = r # ys"
        "filter (\<lambda>x. key x = k \<and> stamp x = stamp r') rs' = r' # ys'"
      using run_first [OF empty r(1)] run_first [OF empty r(2)] by blast
    ultimately have "r # ys = r' # ys'" using turns [of k "stamp r"] by simp
    with r show ?thesis by simp
  next
    case False
    with newest_of_held [OF run(1), of k] newest_of_held [OF run(2), of k] show ?thesis
      by (metis image_eqI option.exhaust)
  qed
qed

end

text \<open>The results of each prober and instant come in the same order in both lists; otherwise the lists
  may be arranged in any way.\<close>

definition same_turns :: "result list \<Rightarrow> result list \<Rightarrow> bool" where
  "same_turns rs rs' \<longleftrightarrow>
     (\<forall>p t. filter (\<lambda>r. r_prober r = p \<and> r_at r = t) rs = filter (\<lambda>r. r_prober r = p \<and> r_at r = t) rs')"

lemma same_turns_mset: "same_turns rs rs' \<Longrightarrow> mset rs = mset rs'"
proof (rule multiset_eqI)
  fix r assume "same_turns rs rs'"
  then have "filter (\<lambda>x. x = r) (filter (\<lambda>x. r_prober x = r_prober r \<and> r_at x = r_at r) rs) =
      filter (\<lambda>x. x = r) (filter (\<lambda>x. r_prober x = r_prober r \<and> r_at x = r_at r) rs')"
    by (simp only: same_turns_def)
  then have "filter (\<lambda>x. r = x) rs = filter (\<lambda>x. r = x) rs'"
    by (simp add: eq_commute [of _ r] conj_commute cong: conj_cong)
  then show "count (mset rs) r = count (mset rs') r"
    by (simp add: count_mset count_list_eq_length_filter)
qed

text \<open>A prober that never reports two different results at one instant leaves every order open.\<close>

lemma one_report_turns:
  assumes "mset rs = mset rs'" "one_report_per_instant rs"
  shows "same_turns rs rs'"
  unfolding same_turns_def
proof (intro allI)
  fix p t
  let ?P = "\<lambda>r. r_prober r = p \<and> r_at r = t"
  have m: "mset (filter ?P rs) = mset (filter ?P rs')" using assms(1) by simp
  show "filter ?P rs = filter ?P rs'"
  proof (cases "filter ?P rs")
    case Nil
    with m show ?thesis by simp
  next
    case (Cons r xs)
    have "r \<in> set (filter ?P rs)" unfolding Cons by simp
    then have r: "\<forall>x \<in> set (filter ?P rs). x = r" using assms(2) by (auto simp: one_report_per_instant_def)
    moreover have sets: "set (filter ?P rs') = set (filter ?P rs)" using m by (metis mset_eq_setD)
    ultimately have r': "\<forall>x \<in> set (filter ?P rs'). x = r" by (simp only: sets)
    have "filter ?P rs = replicate (length (filter ?P rs)) r" by (rule replicate_length_same [OF r, symmetric])
    also have "\<dots> = replicate (length (filter ?P rs')) r" by (simp only: mset_eq_length [OF m])
    also have "\<dots> = filter ?P rs'" by (rule replicate_length_same [OF r'])
    finally show ?thesis .
  qed
qed

lemma voters_turns:
  assumes "same_turns rs rs'"
  shows "mset (voters c opts rs) = mset (voters c opts rs')"
proof -
  have "map_of (kept_votes c opts rs) = map_of (kept_votes c opts rs')"
    unfolding kept_votes_def
  proof (rule votes_kept.run_turns)
    fix p t
    from assms have "filter (admitted c opts) (filter (\<lambda>r. r_prober r = p \<and> r_at r = t) rs) =
        filter (admitted c opts) (filter (\<lambda>r. r_prober r = p \<and> r_at r = t) rs')" by (simp only: same_turns_def)
    then show "filter (\<lambda>r. r_prober r = p \<and> r_at r = t) (filter (admitted c opts) rs) =
        filter (\<lambda>r. r_prober r = p \<and> r_at r = t) (filter (admitted c opts) rs')"
      by (simp add: conj_commute cong: conj_cong)
  qed simp
  then have "set (voters c opts rs) = set (voters c opts rs')"
    using map_of_inject_set [OF distinct_kept distinct_kept] by (metis list.set_map)
  then show ?thesis using distinct_voters set_eq_iff_mset_eq_distinct distinct_map by blast
qed

lemma suppressed_count:
  "b_suppressed (foldl (ballot_step c opts) b rs) =
     b_suppressed b + length (filter (\<lambda>r. o_isolated opts (r_prober r)) rs)"
proof (induction rs arbitrary: b)
  case Nil
  then show ?case by simp
next
  case (Cons r rs)
  have "b_suppressed (ballot_step c opts b r) = b_suppressed b + (if o_isolated opts (r_prober r) then 1 else 0)"
    by (auto simp: ballot_step_def split: option.splits)
  with Cons.IH [of "ballot_step c opts b r"] show ?case by simp
qed

lemma suppressed_distinct:
  "distinct (b_suppressed_probers b) \<Longrightarrow>
   distinct (b_suppressed_probers (foldl (ballot_step c opts) b rs))"
proof (induction rs arbitrary: b)
  case Nil
  then show ?case by simp
next
  case (Cons r rs)
  then have "distinct (b_suppressed_probers (ballot_step c opts b r))"
    by (auto simp: ballot_step_def split: option.splits)
  with Cons.IH show ?case by simp
qed

lemma ballot0_simps [simp]: "b_by_prober ballot0 = []" "b_discarded ballot0 = 0" "b_suppressed ballot0 = 0"
  "b_suppressed_probers ballot0 = []"
  by (simp_all add: ballot0_def)

lemma ballot_total:
  "length (kept_votes c opts rs) + b_discarded (ballot_of c opts rs) + b_suppressed (ballot_of c opts rs) = length rs"
  using ballot_conservation [of c opts ballot0 rs] by (simp add: ballot_kept)

lemma conclude_ballot:
  assumes "b_discarded b = b_discarded b'" "b_suppressed b = b_suppressed b'"
    and "sort (b_suppressed_probers b) = sort (b_suppressed_probers b')"
  shows "conclude c b rs = conclude c b' rs"
proof -
  have "counts_of c b rs = counts_of c b' rs" using assms by (simp add: counts_of_def)
  then show ?thesis by (simp add: conclude_def)
qed

lemma ballot_perm:
  assumes turns: "same_turns rs rs'"
  shows "b_discarded (ballot_of c opts rs) = b_discarded (ballot_of c opts rs')"
    and "b_suppressed (ballot_of c opts rs) = b_suppressed (ballot_of c opts rs')"
    and "sort (b_suppressed_probers (ballot_of c opts rs)) = sort (b_suppressed_probers (ballot_of c opts rs'))"
proof -
  note same = same_turns_mset [OF turns]
  then have set_eq: "set rs = set rs'" by (rule mset_eq_setD)
  have "length (kept_votes c opts rs) = length (kept_votes c opts rs')"
    using mset_eq_length [OF voters_turns [OF turns, of c opts]] by simp
  moreover show sup: "b_suppressed (ballot_of c opts rs) = b_suppressed (ballot_of c opts rs')"
    using same by (simp add: suppressed_count) (metis mset_eq_length mset_filter)
  moreover have "length rs = length rs'" by (rule mset_eq_length [OF same])
  ultimately show "b_discarded (ballot_of c opts rs) = b_discarded (ballot_of c opts rs')"
    using ballot_total [of c opts rs] ballot_total [of c opts rs'] by linarith
  have "set (b_suppressed_probers (ballot_of c opts rs)) = set (b_suppressed_probers (ballot_of c opts rs'))"
    using set_eq by (simp add: suppressed_names)
  then show "sort (b_suppressed_probers (ballot_of c opts rs)) = sort (b_suppressed_probers (ballot_of c opts rs'))"
    by (intro sorted_distinct_set_unique) (simp_all add: suppressed_distinct)
qed

section \<open>Theorems\<close>

text \<open>C4: \<open>IndependentResults\<close> returns results of its input, no two of which share an exit or (on
  request) a provider, and no set of results with this property is larger.\<close>

theorem independent_results_maximum:
  "set (independent_results rs d) \<subseteq> set rs \<and> independent d (set (independent_results rs d)) \<and>
   distinct (independent_results rs d) \<and> independent_count rs d = card (set (independent_results rs d)) \<and>
   (S \<subseteq> set rs \<longrightarrow> independent d S \<longrightarrow> card S \<le> independent_count rs d)"
  using independent_results_largest [of S rs d]
  by (simp add: independent_results_subset independent_results_independent independent_results_distinct
      independent_count_card)

definition two_exits :: "result list" where
  "two_exits = [(a_result ''ams'' StatusDown 1)\<lparr>r_provider := ''one''\<rparr>,
     (a_result ''fra'' StatusDown 1)\<lparr>r_provider := ''two''\<rparr>, (a_result ''nyc'' StatusDown 1)\<lparr>r_provider := ''two''\<rparr>]"

theorem independent_results_maximum_witness:
  "card (set (take 2 two_exits)) \<le> independent_count two_exits True"
proof -
  have "independent True (set (take 2 two_exits))" by code_simp
  with independent_results_maximum [of two_exits True "set (take 2 two_exits)"]
  show ?thesis by (auto simp: two_exits_def)
qed

text \<open>C3: the status \<open>Evaluate\<close> computes is the declarative reading of the newest admitted vote of
  each prober: down exactly when a quorum of independent probers says down, unknown when nobody has
  an opinion or some but too few say down, a warning only with a quorum of its own, up otherwise.\<close>

theorem evaluate_refines_votes:
  assumes "one_report_per_instant rs"
  shows "v_status (evaluate c rs opts) = verdict_of c (newest_votes c opts rs)"
  by (simp only: evaluate_status_voters agreeing_iff voters_newest [OF assms] verdict_of_def)

theorem evaluate_refines_votes_witness:
  "v_status (evaluate web_check two_exits \<lparr>o_now = 5, o_max_age = 0, o_isolated = (\<lambda>_. False)\<rparr>) =
   verdict_of web_check (newest_votes web_check \<lparr>o_now = 5, o_max_age = 0, o_isolated = (\<lambda>_. False)\<rparr> two_exits)"
  by (rule evaluate_refines_votes) (simp add: one_report_per_instant_def two_exits_def a_result_def)

text \<open>C5: the whole verdict, with its counts, names and reason, is the same however the results of
  different probers and of different instants are interleaved. The results one prober reported for
  one and the same instant must come in the same order: \<open>Evaluate\<close> keeps the first of them
  (\<open>order_within_an_instant\<close>).\<close>

theorem evaluate_order_irrelevant:
  assumes "same_turns rs rs'"
  shows "evaluate c rs opts = evaluate c rs' opts"
  using conclude_ballot [OF ballot_perm [OF assms, of c opts]] voters_turns [OF assms, of c opts] conclude_perm
  by (metis evaluate_voters)

definition told_twice :: "result list" where
  "told_twice = [a_result ''ams'' StatusUp 1, a_result ''ams'' StatusDown 1]"

theorem evaluate_order_irrelevant_witness:
  "evaluate web_check (told_twice @ two_exits) \<lparr>o_now = 5, o_max_age = 0, o_isolated = (\<lambda>_. False)\<rparr> =
   evaluate web_check (tl two_exits @ told_twice @ [hd two_exits]) \<lparr>o_now = 5, o_max_age = 0, o_isolated = (\<lambda>_. False)\<rparr>"
  by (rule evaluate_order_irrelevant) (auto simp: same_turns_def told_twice_def two_exits_def a_result_def)

text \<open>Any order will do where no prober has two different results of one instant.\<close>

corollary evaluate_permuted:
  "mset rs = mset rs' \<Longrightarrow> one_report_per_instant rs \<Longrightarrow> evaluate c rs opts = evaluate c rs' opts"
  using conclude_ballot [OF ballot_perm [OF one_report_turns, of rs rs' c opts]]
    voters_turns [OF one_report_turns, of rs rs' c opts] conclude_perm
  by (metis evaluate_voters)

text \<open>And the order within an instant decides.\<close>

lemma order_within_an_instant:
  "v_up (evaluate web_check told_twice \<lparr>o_now = 5, o_max_age = 0, o_isolated = (\<lambda>_. False)\<rparr>) = 1"
  "v_up (evaluate web_check (rev told_twice) \<lparr>o_now = 5, o_max_age = 0, o_isolated = (\<lambda>_. False)\<rparr>) = 0"
  by code_simp+

text \<open>Every result is accounted for exactly once: it is counted as a vote, is one without an
  opinion, is discarded, or is suppressed because its prober is isolated.\<close>

lemma every_result_accounted:
  "v_counted (evaluate c rs opts) + v_unknown (evaluate c rs opts) + v_discarded (evaluate c rs opts) +
     v_suppressed (evaluate c rs opts) = length rs"
proof -
  have "v_counted (evaluate c rs opts) + v_unknown (evaluate c rs opts) = length (voters c opts rs)"
    using status_partition [of "voters c opts rs"]
    by (simp add: evaluate_voters conclude_counts conclude_def Let_def satisfies_def)
  moreover have "length (voters c opts rs) = length (kept_votes c opts rs)" by simp
  ultimately show ?thesis
    using ballot_total [of c opts rs] by (simp add: evaluate_voters conclude_counts)
qed

end
