(* ===== verification/Alerting.thy ===== *)
theory Alerting
  imports Examples
begin

text \<open>
  What the alerting half of the coordinator promises (\<open>notify.go\<close>, \<open>delivery.go\<close>, \<open>operations.go\<close>,
  \<open>lifecycle.go\<close>): who is told, in which order, what suppression holds back and gives back, when
  an escalation fires, and what is left open when the alerts of a check are folded into incidents.
\<close>

section \<open>Example desk\<close>

definition a_page :: "alert_kind \<Rightarrow> alert" where
  "a_page k = empty_alert\<lparr>al_check := ''web'', al_kind := k, al_at := 100\<rparr>"

definition two_sinks :: "unit desk_config_scheme" where
  "two_sinks = \<lparr>dc_maintenance = [], dc_destinations = [''pager''],
     dc_routes = [\<lparr>rt_name = ''r'', rt_destination = ''pager'', rt_checks = [''web''], rt_components = [],
        rt_probers = [], rt_kinds = [KindDown]\<rparr>],
     dc_escalations = [\<lparr>ep_name = ''boss'', ep_destination = ''pager'', ep_after = minute, ep_checks = [],
        ep_components = [], ep_probers = [], ep_kinds = []\<rparr>],
     dc_retry_initial = 0, dc_retry_max = 0\<rparr>"

definition empty_desk :: desk where
  "empty_desk = \<lparr>dk_incidents = [], dk_next_incident = 0, dk_silences = [], dk_next_silence = 0,
     dk_maintenance = [], dk_outbox = [], dk_next_delivery = 0, dk_escalated = []\<rparr>"

definition no_parse :: "string \<Rightarrow> duration option" where "no_parse s = None"
definition sends :: "string \<Rightarrow> alert \<Rightarrow> string option" where "sends dest a = None"

lemma empty_desk_ok: "desk_ok no_parse two_sinks empty_desk"
  by (simp add: empty_desk_def desk_ok_def book_ok_def outbox_ok_def escalations_ok_def
      pending_escalations_def fired_def silences_ok_def managed_ok_def)

lemma two_sinks_named: "named_policies two_sinks"
  by (simp add: named_policies_def two_sinks_def)

definition silenced_desk :: desk where
  "silenced_desk = empty_desk\<lparr>dk_silences := [\<lparr>si_id = 1, si_name = ''quiet'', si_starts_at = 0, si_ends_at = 500,
     si_checks = [], si_components = [], si_probers = [], si_created_at = 0, si_created_by = ''op'', si_comment = [],
     si_cancelled_at = None, si_cancelled_by = [], si_cancellation = []\<rparr>], dk_next_silence := 1\<rparr>"

section \<open>Who is told\<close>

text \<open>C14: an alert that nothing suppresses reaches exactly its targets. \<open>default\<close> and every configured
  destination that has no route, or has a route matching the alert, is either told at once or has
  the alert in its queue; no event concerns another destination.\<close>

theorem alert_reaches_targets:
  assumes "active_maintenance parse cfg now d a = []" "fst (active_silence now d a) = 0"
    and "emit parse cfg now send a d = (d', evs)"
    and "dest = ''default'' \<or> (dest \<in> set (dc_destinations cfg) \<and>
      ((\<forall>r \<in> set (dc_routes cfg). rt_destination r \<noteq> dest) \<or>
       (\<exists>r \<in> set (dc_routes cfg). rt_destination r = dest \<and>
          selector_matches a (rt_checks r) (rt_components r) (rt_probers r) (rt_kinds r))))"
  shows "Sent 0 dest a \<in> set evs \<or> (\<exists>q \<in> set (dk_outbox d'). dl_destination q = dest \<and> dl_alert q = a)"
proof -
  have "dest \<in> set (delivery_targets (dc_destinations cfg) (dc_routes cfg) a)"
    using assms(4) by (simp only: delivery_targets_iff)
  from deliver_reaches [OF this] assms(1-3) show ?thesis
    unfolding emit_delivered [OF assms(1,2)] told_def by (metis fst_conv snd_conv)
qed

theorem alert_reaches_targets_witness:
  "Sent 0 ''pager'' (a_page KindDown) \<in> set (snd (emit no_parse two_sinks 100 sends (a_page KindDown) empty_desk)) \<or>
   (\<exists>q \<in> set (dk_outbox (fst (emit no_parse two_sinks 100 sends (a_page KindDown) empty_desk))).
      dl_destination q = ''pager'' \<and> dl_alert q = a_page KindDown)"
  by (rule alert_reaches_targets [OF _ _ surjective_pairing])
    (simp_all add: active_maintenance_def windows_def maintenance_windows_def active_silence_def two_sinks_def
      empty_desk_def selector_matches_def alert_matches_iff a_page_def empty_alert_def)

text \<open>An alert under an active maintenance window or silence is recorded and not sent: the
  outbox gains nothing and no notifier is called, and an opening alert still adds one active incident
  that carries it and is marked as suppressed.\<close>

theorem suppressed_alert_recorded:
  assumes "active_maintenance parse cfg now d a \<noteq> [] \<or> fst (active_silence now d a) \<noteq> 0"
    and "emit parse cfg now send a d = (d', evs)"
  shows "evs = [] \<and> set (dk_outbox d') \<subseteq> set (dk_outbox d) \<and>
    (\<not> closing_kind (al_kind a) \<longrightarrow>
      (\<exists>i. dk_incidents d' = dk_incidents d @ [i] \<and> in_active i \<and> in_suppressed i \<and> in_alert i = a))"
proof -
  have "d' = record_incident a (active_maintenance parse cfg now d a) (fst (active_silence now d a))
       (snd (active_silence now d a)) d" "evs = []"
    using assms(2) unfolding emit_suppressed [OF assms(1)] by simp_all
  with assms(1) show ?thesis
    by (auto simp: record_incident_def cancel_escalations_def Let_def split: option.splits)
qed

theorem suppressed_alert_recorded_witness:
  "snd (emit no_parse two_sinks 100 sends (a_page KindDown) silenced_desk) = []"
proof -
  have "fst (active_silence 100 silenced_desk (a_page KindDown)) \<noteq> 0"
    by (simp add: active_silence_def silenced_desk_def silence_active_def alert_matches_iff)
  then show ?thesis
    using suppressed_alert_recorded [OF _ surjective_pairing, of no_parse two_sinks 100 silenced_desk
        "a_page KindDown" sends] by blast
qed

text \<open>C15: when a suppression ends, every incident it held back that is still active is announced to
  all its targets, and no active incident stays marked as suppressed without a window or silence that
  is in force.\<close>

theorem release_gives_back:
  assumes "release_suppressions parse cfg now send d = (d', evs)"
  shows "(\<forall>i \<in> set (dk_incidents d'). in_active i \<longrightarrow> in_suppressed i \<longrightarrow> suppression_active parse cfg now d i) \<and>
    (\<forall>i \<in> set (dk_incidents d). \<forall>dest \<in> set (delivery_targets (dc_destinations cfg) (dc_routes cfg) (released_alert now i)).
       in_active i \<longrightarrow> in_suppressed i \<longrightarrow> \<not> suppression_active parse cfg now d i \<longrightarrow>
       Sent 0 dest (released_alert now i) \<in> set evs \<or>
       (\<exists>q \<in> set (dk_outbox d'). dl_destination q = dest \<and> dl_alert q = released_alert now i))"
  using release_settled [of _ parse cfg now send d] release_announces [of _ d parse cfg now _ send] assms
  by (simp add: release_due_def told_def)

definition held_desk :: desk where
  "held_desk = fst (emit no_parse two_sinks 100 sends (a_page KindDown) silenced_desk)"

definition held_incident :: incident where "held_incident = hd (dk_incidents held_desk)"

theorem release_gives_back_witness:
  "Sent 0 ''pager'' (released_alert 600 held_incident)
     \<in> set (snd (release_suppressions no_parse two_sinks 600 sends held_desk)) \<or>
   (\<exists>q \<in> set (dk_outbox (fst (release_suppressions no_parse two_sinks 600 sends held_desk))).
     dl_destination q = ''pager'' \<and> dl_alert q = released_alert 600 held_incident)"
proof -
  have "held_incident \<in> set (dk_incidents held_desk)" "in_active held_incident" "in_suppressed held_incident"
    "\<not> suppression_active no_parse two_sinks 600 held_desk held_incident"
    "''pager'' \<in> set (delivery_targets (dc_destinations two_sinks) (dc_routes two_sinks)
       (released_alert 600 held_incident))"
    by code_simp+
  with release_gives_back [OF surjective_pairing, of no_parse two_sinks 600 sends held_desk] show ?thesis by blast
qed

section \<open>The outbox\<close>

text \<open>Deliveries to one destination keep their order: a pass over the outbox never sends an
  entry while an older one for the same destination stays queued, and the outbox stays sorted by its
  unique numbers.\<close>

theorem deliveries_in_order:
  assumes "outbox_ok d" "process_deliveries cfg now attempt d = (d', evs)"
  shows "outbox_ok d' \<and>
    (\<forall>n dest a. Sent n dest a \<in> set evs \<longrightarrow>
       (\<forall>q \<in> set (dk_outbox d'). dl_destination q = dest \<longrightarrow> n < dl_id q))"
  by (rule process_ordered [OF assms])

theorem deliveries_in_order_witness:
  "outbox_ok (fst (process_deliveries two_sinks 5 (\<lambda>q. (5, None)) empty_desk))"
proof -
  have "outbox_ok empty_desk" using empty_desk_ok by (simp add: desk_ok_def)
  from deliveries_in_order [OF this surjective_pairing] show ?thesis by blast
qed

text \<open>C18: the outbox drains: once every entry is due and its destination configured, and the
  notifiers accept, one pass leaves it empty.\<close>

theorem outbox_drains:
  assumes "outbox_ok d"
    and "\<forall>q \<in> set (dk_outbox (schedule_escalations cfg now d)).
      dl_next_attempt q \<le> now \<and> known_destination cfg (dl_destination q) \<and> snd (attempt q) = None"
  shows "dk_outbox (fst (process_deliveries cfg now attempt d)) = []"
proof -
  have ok: "outbox_ok (schedule_escalations cfg now d)" by (rule schedule_ok [OF assms(1)])
  from process_drains_fold [OF assms(2) ok refl, of "[]"] show ?thesis
    by (auto simp: process_deliveries_def outbox_sorted [OF ok] Let_def)
qed

definition queued_desk :: desk where
  "queued_desk = empty_desk\<lparr>dk_next_delivery := 1, dk_outbox := [empty_delivery\<lparr>dl_id := 1,
     dl_destination := ''pager'', dl_alert := a_page KindDown, dl_next_attempt := 5\<rparr>]\<rparr>"

theorem outbox_drains_witness: "dk_outbox (fst (process_deliveries two_sinks 9 (\<lambda>q. (9, None)) queued_desk)) = []"
  by (rule outbox_drains)
    (simp_all add: outbox_ok_def queued_desk_def empty_desk_def empty_delivery_def schedule_escalations_def
      known_destination_def two_sinks_def)

text \<open>The delay before retry \<open>n\<close> doubles from the initial delay up to the maximum, exactly and
  without overflow.\<close>

theorem retry_delay_exponential:
  assumes "dc_retry_max cfg \<le> max_duration"
  shows "retry_delay cfg n = min (retry_initial cfg * 2 ^ (n - 1)) (retry_max cfg)"
  unfolding retry_delay_def using assms
  by (intro retry_loop_min)
    (simp_all add: retry_initial_def retry_max_def default_retry_initial_def default_retry_max_def
      second_def minute_def max_duration_def)

theorem retry_delay_exponential_witness: "retry_delay two_sinks 4 = 120 * second"
  using retry_delay_exponential [of two_sinks 4]
  by (simp add: two_sinks_def retry_initial_def retry_max_def default_retry_initial_def default_retry_max_def
      second_def minute_def max_duration_def)

section \<open>Escalations\<close>

lemma run_fires_once:
  "desk_run parse cfg d d' \<Longrightarrow> named_policies cfg \<Longrightarrow> desk_ok parse cfg d \<Longrightarrow>
   fired d \<subseteq> fired d' \<and> (\<forall>q \<in> set (pending_escalations d').
     entry_key q \<in> entry_key ` set (pending_escalations d) \<or> entry_key q \<notin> fired d)"
proof (induction rule: desk_run.induct)
  case (Start d)
  then show ?case by auto
next
  case (Step d d' d'')
  have ok: "desk_ok parse cfg d'" by (rule run_ok [OF Step.hyps(1) Step.prems])
  note last = step_fires_once [OF Step.hyps(2) Step.prems(1) ok]
  show ?case
  proof (intro conjI ballI)
    show "fired d \<subseteq> fired d''" using Step.IH [OF Step.prems] last by blast
  next
    fix q assume "q \<in> set (pending_escalations d'')"
    with last consider (old) x where "x \<in> set (pending_escalations d')" "entry_key q = entry_key x"
      | (new) "entry_key q \<notin> fired d'" by blast
    then show "entry_key q \<in> entry_key ` set (pending_escalations d) \<or> entry_key q \<notin> fired d"
    proof cases
      case old
      with Step.IH [OF Step.prems] have "entry_key x \<in> entry_key ` set (pending_escalations d) \<or> entry_key x \<notin> fired d"
        by blast
      with old(2) show ?thesis by simp
    next
      case new
      with Step.IH [OF Step.prems] show ?thesis by blast
    qed
  qed
qed

text \<open>C16: an escalation policy fires at most once per incident: if it has fired for the incident and
  its delivery is no longer queued, then whatever happens next, no delivery for the two is ever
  queued again.\<close>

theorem escalation_fires_once:
  assumes "desk_run parse cfg d d'" "named_policies cfg" "desk_ok parse cfg d"
    and "map_of (dk_escalated d) (escalation_key iid policy) \<noteq> None"
    and "\<forall>q \<in> set (dk_outbox d). \<not> (dl_incident_id q = iid \<and> dl_escalation q = policy \<and> policy \<noteq> [])"
    and "q \<in> set (dk_outbox d')"
  shows "\<not> (dl_incident_id q = iid \<and> dl_escalation q = policy \<and> policy \<noteq> [])"
proof
  assume q: "dl_incident_id q = iid \<and> dl_escalation q = policy \<and> policy \<noteq> []"
  then have "q \<in> set (pending_escalations d')" "entry_key q = escalation_key iid policy"
    using assms(6) by (auto simp: pending_escalations_def entry_key_def)
  with run_fires_once [OF assms(1-3)] assms(4)
  obtain p where "p \<in> set (pending_escalations d)" "entry_key p = escalation_key iid policy"
    by (fastforce simp: fired_def)
  with assms(5) q show False
    by (auto simp: pending_escalations_def entry_key_def escalation_key_inj)
qed

definition open_desk :: desk where
  "open_desk = record_incident (a_page KindDown) [] 0 [] empty_desk"

definition fired_desk :: desk where "fired_desk = open_desk\<lparr>dk_escalated := [(escalation_key 1 ''boss'', 7)]\<rparr>"

lemma open_desk_ok: "desk_ok no_parse two_sinks open_desk"
  by (simp add: open_desk_def record_incident_def a_page_def empty_desk_def closing_kind_def empty_alert_def
      desk_ok_def book_ok_def outbox_ok_def escalations_ok_def pending_escalations_def fired_def
      silences_ok_def managed_ok_def)

lemma fired_desk_ok: "desk_ok no_parse two_sinks fired_desk"
  using open_desk_ok by (simp add: fired_desk_def open_desk_def record_incident_def a_page_def empty_desk_def
      closing_kind_def empty_alert_def desk_ok_def book_ok_def outbox_ok_def escalations_ok_def
      pending_escalations_def)

lemma one_pass: "desk_run parse cfg d (fst (process_deliveries cfg now attempt d))"
  by (rule desk_run.Step [OF desk_run.Start desk_step.Process])

theorem escalation_fires_once_witness:
  "filter (\<lambda>q. dl_incident_id q = 1 \<and> dl_escalation q = ''boss'')
     (dk_outbox (fst (process_deliveries two_sinks (1000 * second) (\<lambda>q. (1000 * second, None)) fired_desk))) = []"
proof -
  have "\<not> (dl_incident_id q = 1 \<and> dl_escalation q = ''boss'' \<and> ''boss'' \<noteq> [])"
    if "q \<in> set (dk_outbox (fst (process_deliveries two_sinks (1000 * second) (\<lambda>q. (1000 * second, None)) fired_desk)))"
    for q
    by (rule escalation_fires_once [OF one_pass two_sinks_named fired_desk_ok _ _ that])
      (simp_all add: fired_desk_def open_desk_def record_incident_def a_page_def empty_desk_def
        closing_kind_def empty_alert_def)
  then show ?thesis by (simp add: filter_empty_conv)
qed

text \<open>C17: once an operator has acknowledged an incident, no escalation of it is queued, at once or
  after any sequence of alerts, operator requests and deliveries.\<close>

theorem acknowledged_never_escalates:
  assumes "desk_ok parse cfg d" "named_policies cfg"
    and "acknowledge_incident now iid actor remark d = (d1, None)"
    and "desk_run parse cfg d1 d'" "q \<in> set (dk_outbox d')"
  shows "\<not> (dl_incident_id q = iid \<and> dl_escalation q \<noteq> [])"
proof -
  have "desk_ok parse cfg d1"
    using acknowledge_desk_ok [OF assms(1), of now iid actor remark] assms(3) by simp
  moreover have "settled iid d1"
    using acknowledge_settles [OF assms(1), of now iid actor remark] assms(3) by simp
  ultimately have "settled iid d'" by (intro settled_run [OF assms(4,2)])
  with assms(5) show ?thesis by (auto simp: settled_def pending_escalations_def)
qed

definition acked_desk :: desk where
  "acked_desk = fst (acknowledge_incident 200 1 ''op'' [] open_desk)"

theorem acknowledged_never_escalates_witness:
  "filter (\<lambda>q. dl_incident_id q = 1 \<and> dl_escalation q \<noteq> [])
     (dk_outbox (fst (process_deliveries two_sinks (1000 * second) (\<lambda>q. (1000 * second, None)) acked_desk))) = []"
proof -
  have "snd (acknowledge_incident 200 1 ''op'' [] open_desk) = None" by code_simp
  then have "acknowledge_incident 200 1 ''op'' [] open_desk = (acked_desk, None)"
    by (simp add: acked_desk_def prod_eq_iff)
  from acknowledged_never_escalates [OF open_desk_ok two_sinks_named this one_pass]
  show ?thesis by (fastforce simp: filter_empty_conv)
qed

section \<open>Incidents\<close>

text \<open>An opening alert adds exactly one active incident, for its own subject; a closing alert
  closes the newest active incident of its subject and no other.\<close>

lemma incident_book:
  "active_incidents (record_incident a m sid sn d) s =
     (if s \<noteq> subject a then active_incidents d s
      else if closing_kind (al_kind a) then butlast (active_incidents d s)
      else active_incidents d s @ [last (dk_incidents (record_incident a m sid sn d))])"
proof (cases "closing_kind (al_kind a)")
  case True
  then show ?thesis by (simp add: closing_resolves_newest)
next
  case False
  then show ?thesis by (simp add: record_incident_def)
qed

text \<open>A check that goes from warning to down and then up leaves its warning incident open: the
  state machine sends a warning, an outage and a recovery and ends up, and the recovery closes only
  the outage. No later alert of the check closes it, as an up check sends none.\<close>

theorem warning_incident_left_open:
  assumes "es_status st = StatusUnknown \<or> es_status st = StatusUp"
    and "al_kind a = KindWarning" "al_kind b = KindDown" "al_kind c = KindRecovered"
    and "subject a = s" "subject b = s" "subject c = s" "active_incidents d s = []"
  shows "(let (st', alerts) = emit_run entity_apply st [(StatusWarning, t1), (StatusDown, t2), (StatusUp, t3)]
     in es_status st' = StatusUp \<and> alerts = [KindWarning, KindDown, KindRecovered]) \<and>
    (\<exists>i. active_incidents (record_incident c m3 k3 n3 (record_incident b m2 k2 n2 (record_incident a m1 k1 n1 d))) s = [i] \<and>
       in_kind i = KindWarning \<and> in_alert i = a)"
proof (rule conjI)
  show "let (st', alerts) = emit_run entity_apply st [(StatusWarning, t1), (StatusDown, t2), (StatusUp, t3)]
     in es_status st' = StatusUp \<and> alerts = [KindWarning, KindDown, KindRecovered]"
    using assms(1) by (auto simp: entity_apply_def enter_def Let_def)
  have "active_incidents (record_incident c m3 k3 n3 (record_incident b m2 k2 n2 (record_incident a m1 k1 n1 d))) s =
      [last (dk_incidents (record_incident a m1 k1 n1 d))]"
    using assms by (simp add: incident_book closing_kind_def)
  moreover have "in_kind (last (dk_incidents (record_incident a m1 k1 n1 d))) = KindWarning"
    "in_alert (last (dk_incidents (record_incident a m1 k1 n1 d))) = a"
    using assms(2) by (simp_all add: record_incident_def closing_kind_def)
  ultimately show "\<exists>i. active_incidents (record_incident c m3 k3 n3 (record_incident b m2 k2 n2
      (record_incident a m1 k1 n1 d))) s = [i] \<and> in_kind i = KindWarning \<and> in_alert i = a" by blast
qed

theorem warning_incident_left_open_witness:
  "\<exists>i. active_incidents (record_incident (a_page KindRecovered) [] 0 [] (record_incident (a_page KindDown) [] 0 []
     (record_incident (a_page KindWarning) [] 0 [] empty_desk))) ''web'' = [i] \<and> in_kind i = KindWarning"
  using warning_incident_left_open [of new_entity "a_page KindWarning" "a_page KindDown" "a_page KindRecovered"
      "''web''" empty_desk]
  by (simp add: new_entity_def a_page_def empty_alert_def subject_def empty_desk_def) blast

section \<open>Maintenance windows\<close>

text \<open>A valid repeating window is in force exactly in its repetitions: from some whole number of
  periods after its start to the same number of periods after its end.\<close>

theorem maintenance_recurs:
  assumes "maintenance_validate parse m = None" "mt_every m \<noteq> []" "parse (mt_every m) = Some p"
    and "now - mt_starts_at m \<le> max_duration"
    and "mt_ends_at m - mt_starts_at m \<le> max_duration"
  shows "maintenance_active parse m now \<longleftrightarrow>
    (\<exists>k::nat. mt_starts_at m + int k * p \<le> now \<and> now < mt_ends_at m + int k * p)"
  by (rule maintenance_repeats [OF assms])

definition nightly :: maintenance where
  "nightly = \<lparr>mt_name = ''nightly'', mt_starts_at = 100, mt_ends_at = 110, mt_every = ''24h'', mt_checks = [],
     mt_components = [], mt_probers = [], mt_comment = [], mt_source = [], mt_created_at = 0, mt_created_by = [],
     mt_updated_at = 0, mt_updated_by = []\<rparr>"

theorem maintenance_recurs_witness:
  "maintenance_active (\<lambda>s. Some 24) nightly 150 \<longleftrightarrow>
    (\<exists>k::nat. 100 + int k * 24 \<le> 150 \<and> 150 < 110 + int k * 24)"
  using maintenance_recurs [of "\<lambda>s. Some 24" nightly 24 150]
  by (simp add: nightly_def maintenance_validate_def zero_time_def max_duration_def sub_time_def min_duration_def)

end
