(* ===== verification/Vantages.thy ===== *)
theory Vantages
  imports Examples
begin

text \<open>
  What the coordinator promises about its probers (\<open>internal/mesh\<close>, \<open>assign.go\<close>, the corroborator
  choice of \<open>coordinator.go\<close>, \<open>watchdog.go\<close>) and about what it keeps of their results
  (\<open>history.go\<close>, \<open>internal/check\<close>).
\<close>

section \<open>Isolation\<close>

text \<open>A prober counts as isolated exactly when its own newest report that is still fresh covers
  enough peers and reached none of them; no other prober's report plays a part.\<close>

theorem isolated_by_own_report:
  assumes "\<forall>r \<in> set rs. \<forall>r' \<in> set rs. rep_prober r = p \<longrightarrow> rep_prober r' = p \<longrightarrow> rep_at r = rep_at r' \<longrightarrow> r = r'"
  shows "view_isolated (mesh_evaluate rs opts) p \<longleftrightarrow>
    (\<exists>r \<in> set rs. rep_prober r = p \<and> report_fresh opts r \<and>
       (\<forall>r' \<in> set rs. report_fresh opts r' \<longrightarrow> rep_prober r' = p \<longrightarrow> rep_at r' \<le> rep_at r) \<and>
       min_peers_of opts \<le> int (length (rep_peers r)) \<and> (\<forall>v \<in> set (rep_peers r). \<not> pv_reachable v))"
proof -
  have "view_isolated (mesh_evaluate rs opts) p \<longleftrightarrow>
      (\<exists>r. newest_report opts rs r \<and> rep_prober r = p \<and> looks_isolated opts r)"
    unfolding view_isolated_def using isolated_iff_newest [of rs p opts] assms by auto
  moreover have "looks_isolated opts r \<longleftrightarrow> min_peers_of opts \<le> int (length (rep_peers r)) \<and>
      (\<forall>v \<in> set (rep_peers r). \<not> pv_reachable v)" for r
    by (auto simp: looks_isolated_def reached_def filter_empty_conv)
  ultimately show ?thesis by (auto simp: newest_report_def)
qed

definition lonely_report :: "string \<Rightarrow> time \<Rightarrow> bool \<Rightarrow> report" where
  "lonely_report n t ok = \<lparr>rep_prober = n, rep_at = t,
     rep_peers = [\<lparr>pv_peer = ''x'', pv_reachable = ok, pv_detail = [], pv_latency = 0\<rparr>,
                  \<lparr>pv_peer = ''y'', pv_reachable = False, pv_detail = [], pv_latency = 0\<rparr>]\<rparr>"

theorem isolated_by_own_report_witness:
  "\<not> view_isolated (mesh_evaluate [lonely_report ''ams'' 1 False, lonely_report ''ams'' 2 True]
     \<lparr>mo_now = 3, mo_max_age = 0, mo_min_peers = 0\<rparr>) ''ams''"
  by (subst isolated_by_own_report)
    (auto simp: lonely_report_def report_fresh_def)

section \<open>Assignment\<close>

text \<open>C22: the choice by weight is stable. Losing probers that were not chosen changes nothing; a new
  prober either takes the check or changes nothing; the order in which probers are listed is
  irrelevant.\<close>

theorem assignment_stable:
  assumes "assign k ps = Some b"
  shows "(P b \<longrightarrow> map_option p_name (assign k (filter P ps)) = Some (p_name b)) \<and>
    map_option p_name (assign k (new # ps)) \<in> {Some (p_name new), Some (p_name b)} \<and>
    map_option p_name (assign k (rev ps)) = Some (p_name b)"
  using rendezvous.pick_filter [OF assms, of P] rendezvous.pick_add [of k new ps]
    rendezvous.pick_set [of "rev ps" ps k] assms by auto

theorem assignment_stable_witness:
  "map_option p_name (assign ''web'' (rev [a_peer ''ams'' ''one''])) = Some ''ams''"
proof -
  have "assign ''web'' [a_peer ''ams'' ''one''] = Some (a_peer ''ams'' ''one'')"
    by (simp add: assign_def assign_step_def)
  from assignment_stable [OF this, of "\<lambda>_. True" "a_peer ''fra'' ''two''"]
  have "map_option p_name (assign ''web'' (rev [a_peer ''ams'' ''one''])) = Some (p_name (a_peer ''ams'' ''one''))"
    by (elim conjE)
  also have "p_name (a_peer ''ams'' ''one'') = ''ams''" by (simp add: a_peer_def)
  finally show ?thesis .
qed

text \<open>A check runs on its preferred prober whenever this one is available or has just proved
  to be alive, and never on a prober that is isolated or silent and has not.\<close>

theorem assignment_available:
  assumes "base_assigned_to peers chk = Some b"
  shows "(\<not> unavailable b \<or> recovering b \<longrightarrow> assigned_to peers unavailable recovering chk = Some b) \<and>
    (\<forall>n. assigned_to peers unavailable recovering chk = Some n \<longrightarrow> \<not> unavailable n \<or> (n = b \<and> recovering n))"
proof (intro conjI allI impI)
  assume "\<not> unavailable b \<or> recovering b"
  then show "assigned_to peers unavailable recovering chk = Some b" by (rule assigned_preferred [OF assms])
next
  fix n assume "assigned_to peers unavailable recovering chk = Some n"
  from assigned_available [OF this] assms show "\<not> unavailable n \<or> (n = b \<and> recovering n)" by simp
qed

theorem assignment_available_witness:
  "assigned_to fleet3 (\<lambda>n. n = ''fra'') (\<lambda>_. False) web_check = Some ''ams''"
proof -
  have "base_assigned_to fleet3 web_check = Some ''ams''"
    by (simp add: base_assigned_to_def web_check_def)
  from assignment_available [OF this, of "\<lambda>n. n = ''fra''" "\<lambda>_. False"] show ?thesis by simp
qed

section \<open>Corroboration\<close>

text \<open>Of the probers eligible for the check other than the reporter, as many are asked as the
  quorum calls for and there are, none of them twice; where diversity is required, the ones asked
  cover as many providers other than the reporter's as any choice of that size could.\<close>

theorem corroborators_chosen:
  assumes "distinct (map p_name peers)"
  shows "set (corroborators peers chk rp) \<subseteq> set (other_eligible peers chk rp) \<and>
    distinct (map p_name (corroborators peers chk rp)) \<and>
    length (corroborators peers chk rp) =
      min (nat (q_of (c_quorum chk) - 1)) (length (other_eligible peers chk rp)) \<and>
    (c_proxy_profile chk = [] \<longrightarrow> q_distinct (c_quorum chk) \<longrightarrow>
      card (p_provider ` set (corroborators peers chk rp) - {r_provider rp}) =
      min (nat (q_of (c_quorum chk) - 1))
        (card (p_provider ` set (other_eligible peers chk rp) - {r_provider rp})))"
proof -
  obtain order where o: "mset order = mset (other_eligible peers chk rp)"
    "corroborators peers chk rp =
       take (min (nat (q_of (c_quorum chk) - 1)) (length (other_eligible peers chk rp))) order"
    using corroborators_take [OF assms] by blast
  have "distinct (map p_name (other_eligible peers chk rp))"
    using eligible_distinct [OF assms] by (simp add: distinct_map_filter)
  then have "distinct (map p_name order)"
    using o(1) by (metis mset_eq_imp_distinct_iff mset_map)
  moreover have "set order = set (other_eligible peers chk rp)" "length order = length (other_eligible peers chk rp)"
    by (rule mset_eq_setD [OF o(1)], rule mset_eq_length [OF o(1)])
  moreover note corroborators_fresh [of chk peers rp]
  ultimately show ?thesis
    unfolding o(2) by (auto simp: take_map [symmetric] dest: in_set_takeD)
qed

theorem corroborators_chosen_witness: "length (corroborators fleet3 web_check (a_result ''ams'' StatusDown 5)) = 2"
proof -
  have "distinct (map p_name fleet3)" by (simp add: fleet3_def a_peer_def)
  from corroborators_chosen [OF this, of web_check "a_result ''ams'' StatusDown 5"] show ?thesis
    by (simp add: web_check_def eligible_peers_def fleet3_def a_peer_def)
qed

text \<open>C23: a result enters the evaluation only as the verified answer to a request of this very
  fan-out: it quotes the request's own identifier, is signed by the prober that was asked, answers
  the check, and carries the provider and exit the coordinator has on record, not those it claims.\<close>

theorem corroboration_authentic:
  assumes "x \<in> set (corroborate peers chk rp f)"
  shows "\<exists>p \<in> set (corroborators peers chk rp). \<exists>raw.
    fo_answer f (p_name p) = Some (fo_request_id f (p_name p), raw) \<and>
    r_prober x = p_name p \<and> r_check x = c_name chk \<and> r_provider x = p_provider p \<and>
    r_egress x = profile_exit p (c_proxy_profile chk) \<and>
    (r_status x = r_status raw \<or> r_status x = StatusUnknown)"
proof -
  obtain p where "p \<in> set (corroborators peers chk rp)"
    "ask chk p (fo_request_id f (p_name p)) (fo_answer f (p_name p)) = Some x"
    using corroborate_sound [OF assms] by blast
  with ask_sound [OF this(2)] show ?thesis by blast
qed

theorem corroboration_authentic_witness:
  "\<exists>p \<in> set (corroborators fleet3 web_check (a_result ''ams'' StatusDown 5)). p_provider p = ''two''"
proof -
  have "(a_result ''fra'' StatusDown 5)\<lparr>r_provider := ''two''\<rparr> \<in> set (corroborate fleet3 web_check
      (a_result ''ams'' StatusDown 5) (answering StatusDown 5))"
    by code_simp
  from corroboration_authentic [OF this] show ?thesis by auto
qed

section \<open>Watching the probers\<close>

text \<open>A check that was decided within its allowance is not reported as stale.\<close>

theorem fresh_check_not_stale:
  assumes "distinct (map c_name (co_checks co))" "chk \<in> set (co_checks co)"
    and "map_of (co_states co) (c_name chk) = Some st" "es_last_verdict st \<noteq> zero_time"
    and "now - es_last_verdict st \<le> stale_after cfg chk" "0 \<le> stale_after cfg chk"
  shows "c_name chk \<notin> fst ` set (stale_checks cfg now co)"
  by (rule fresh_not_stale [OF assms])

theorem fresh_check_not_stale_witness:
  "''web'' \<notin> fst ` set (stale_checks config3 (200 * second)
     (start\<lparr>co_states := [(''web'', new_entity\<lparr>es_last_verdict := 100 * second\<rparr>)]\<rparr>))"
proof -
  have a: "stale_after config3 web_check = 210 * second" by code_simp
  show ?thesis
    using fresh_check_not_stale [of "start\<lparr>co_states := [(''web'', new_entity\<lparr>es_last_verdict := 100 * second\<rparr>)]\<rparr>"
        web_check "new_entity\<lparr>es_last_verdict := 100 * second\<rparr>" "200 * second" config3] a
    by (simp add: start_def initial_coord_def web_check_def second_def zero_time_def)
qed

text \<open>The alerts about the watch itself alternate too: over any run of heartbeats, of staleness
  ticks and results, and of mesh evaluations, a lost watcher, a silent prober and an isolated prober
  are each announced once, and announced as returned before they are announced again.\<close>

theorem watch_alerts_alternate:
  "alternates (\<lambda>a. al_kind a = KindUnwatched) (\<lambda>a. al_kind a = KindWatched) (n \<ge> unwatched_after)
     (filter (\<lambda>a. al_kind a = KindUnwatched \<or> al_kind a = KindWatched) (snd (emit_run beat_step n pings))) \<and>
   alternates (\<lambda>a. al_kind a = KindSilent) (\<lambda>a. al_kind a = KindReporting) (flag (co_silent co) p)
     (filter (\<lambda>a. al_kind a = KindSilent \<or> al_kind a = KindReporting) (snd (emit_run (silence_step p) co ticks))) \<and>
   alternates (\<lambda>a. al_kind a = KindIsolated) (\<lambda>a. al_kind a = KindRejoined) (p \<in> set was)
     (filter (\<lambda>a. al_kind a = KindIsolated \<or> al_kind a = KindRejoined) (snd (emit_run (mesh_step p) was views)))"
  by (intro conjI heartbeat.run_alternates [OF surjective_pairing] silence.run_alternates [OF surjective_pairing]
      isolation.run_alternates [OF surjective_pairing])

section \<open>What is kept\<close>

text \<open>Recording an observation keeps the history of its check sorted by arrival and bounded: what
  is stored is the old history with the observation at its place, less what is older than the
  retention, and of that the newest entries up to the maximum; other checks are untouched.\<close>

theorem history_append:
  assumes "history_ok hc h"
  shows "history_ok hc (append_history hc now h x) \<and>
    (\<exists>ys. received_sorted ys \<and> mset ys = add_mset x (mset (kept h (ob_check x))) \<and>
       kept (append_history hc now h x) (ob_check x) =
         last_n (history_max hc) (filter (\<lambda>y. now - history_retention hc \<le> ob_received_at y) ys)) \<and>
    (n \<noteq> ob_check x \<longrightarrow> kept (append_history hc now h x) n = kept h n)"
proof -
  have s: "received_sorted (insert_observation x (kept h (ob_check x)))"
    using assms by (intro insert_sorted) (simp add: history_ok_def)
  show ?thesis
    using append_history_ok [OF assms] trim_spec [OF s] s insert_mset [of x "kept h (ob_check x)"]
    by (auto simp: kept_append)
qed

theorem history_append_witness:
  "history_ok \<lparr>hc_retention = 0, hc_max_per_check = 2\<rparr>
     (append_history \<lparr>hc_retention = 0, hc_max_per_check = 2\<rparr> 5 []
       (observe (\<lambda>_. 0) (\<lambda>_. []) 5 web_check (a_result ''ams'' StatusUp 4) ''scheduled'' False StatusUp))"
proof -
  have "history_ok \<lparr>hc_retention = 0, hc_max_per_check = 2\<rparr> []"
    by (simp add: history_ok_def kept_def received_sorted_def)
  from history_append [OF this] show ?thesis by blast
qed

section \<open>What is accepted\<close>

text \<open>C24: a check that passes validation has a timeout shorter than its interval, a quorum that can
  be met, a vantage that says which path it means, distinct eligible probers with the preferred one
  among them, and a certificate file that stays beneath the directory reserved for it.\<close>

theorem valid_check:
  assumes "check_validate c = None"
  shows "0 < c_timeout c \<and> c_timeout c < c_interval c \<and>
    1 \<le> q_agree (c_quorum c) \<and> q_agree (c_quorum c) \<le> q_of (c_quorum c) \<and>
    (c_vantage c = VantagePublic \<or> c_vantage c = VantageInternal) \<and>
    distinct (map trim_space (c_probers c)) \<and>
    (c_probers c \<noteq> [] \<longrightarrow> c_prober c \<noteq> [] \<longrightarrow> c_prober c \<in> trim_space ` set (c_probers c)) \<and>
    (c_ca_file c \<noteq> [] \<longrightarrow> is_abs (c_ca_file c) \<and> has_prefix (clean_abs (c_ca_file c)) ca_root)"
proof -
  have "distinct (map trim_space (c_probers c))" using assms by (simp only: check_validate_None)
  then show ?thesis
    using check_valid_timing [OF assms]
    by (intro conjI impI check_valid_vantage [OF assms] check_valid_prober [OF assms]
        check_valid_ca [OF assms, THEN conjunct1] check_valid_ca [OF assms, THEN conjunct2]) simp_all
qed

theorem valid_check_witness: "0 < c_timeout web_check \<and> c_timeout web_check < c_interval web_check"
  using valid_check [OF web_check_valid] by blast

end
