(* ===== verification/Guard.thy ===== *)
theory Guard
  imports Check
begin

text \<open>
  Where a prober may connect (\<open>internal/probe/guard.go\<close>). \<open>netip.Addr\<close> is a 32-bit word or a 128-bit
  word with a zone, \<open>netip.Prefix\<close> an address with a length (\<open>None\<close> for an invalid one); the
  classification methods of \<open>net/netip\<close> are written out, and its parsers are the parameters
  \<open>parse_addr\<close> and \<open>parse_prefix\<close>.
\<close>

section \<open>Addresses and prefixes\<close>

datatype addr = V4 "32 word" | V6 "128 word" string

record prefix_t =
  px_addr :: addr
  px_bits :: "nat option"

definition mapped :: "128 word \<Rightarrow> bool" where "mapped a \<longleftrightarrow> drop_bit 32 a = 0xffff"

text \<open>\<open>Addr.Unmap\<close>, \<open>Addr.BitLen\<close>.\<close>

fun unmap_addr :: "addr \<Rightarrow> addr" where
  "unmap_addr (V4 a) = V4 a"
| "unmap_addr (V6 a z) = (if mapped a then V4 (ucast a) else V6 a z)"

fun bit_len :: "addr \<Rightarrow> nat" where
  "bit_len (V4 a) = 32"
| "bit_len (V6 a z) = 128"

definition link_local_unicast :: "addr \<Rightarrow> bool" where
  "link_local_unicast x = (case unmap_addr x of
     V4 a \<Rightarrow> drop_bit 16 a = 0xa9fe | V6 a _ \<Rightarrow> drop_bit 118 a = 0x3fa)"

definition link_local_multicast :: "addr \<Rightarrow> bool" where
  "link_local_multicast x = (case unmap_addr x of
     V4 a \<Rightarrow> drop_bit 8 a = 0xe00000 | V6 a _ \<Rightarrow> drop_bit 120 a = 0xff \<and> take_bit 4 (drop_bit 112 a) = 2)"

definition multicast :: "addr \<Rightarrow> bool" where
  "multicast x = (case unmap_addr x of
     V4 a \<Rightarrow> drop_bit 28 a = 0xe | V6 a _ \<Rightarrow> drop_bit 120 a = 0xff)"

definition unspecified :: "addr \<Rightarrow> bool" where
  "unspecified x \<longleftrightarrow> x = V4 0 \<or> x = V6 0 []"

definition loopback :: "addr \<Rightarrow> bool" where
  "loopback x = (case unmap_addr x of V4 a \<Rightarrow> drop_bit 24 a = 127 | V6 a _ \<Rightarrow> a = 1)"

definition private_addr :: "addr \<Rightarrow> bool" where
  "private_addr x = (case unmap_addr x of
     V4 a \<Rightarrow> drop_bit 24 a = 10 \<or> drop_bit 20 a = 0xac1 \<or> drop_bit 16 a = 0xc0a8
   | V6 a _ \<Rightarrow> drop_bit 121 a = 0x7e)"

fun is_ula :: "addr \<Rightarrow> bool" where
  "is_ula (V4 a) = False"
| "is_ula (V6 a z) = (\<not> mapped a \<and> drop_bit 121 a = 0x7e)"

text \<open>\<open>Prefix.Contains\<close>: never across address families, never an address with a zone, never for an
  invalid prefix. \<open>PrefixFrom\<close> drops the zone and is invalid for a length the address does not have;
  \<open>Masked\<close> clears the host bits.\<close>

definition prefix_from :: "addr \<Rightarrow> nat \<Rightarrow> prefix_t" where
  "prefix_from x n = \<lparr>px_addr = (case x of V4 a \<Rightarrow> V4 a | V6 a _ \<Rightarrow> V6 a []),
     px_bits = (if n \<le> bit_len x then Some n else None)\<rparr>"

definition masked :: "prefix_t \<Rightarrow> prefix_t" where
  "masked p = (case px_bits p of
     None \<Rightarrow> p
   | Some n \<Rightarrow> p\<lparr>px_addr := (case px_addr p of
         V4 a \<Rightarrow> V4 (push_bit (32 - n) (drop_bit (32 - n) a))
       | V6 a z \<Rightarrow> V6 (push_bit (128 - n) (drop_bit (128 - n) a)) z)\<rparr>)"

definition prefix_contains :: "prefix_t \<Rightarrow> addr \<Rightarrow> bool" where
  "prefix_contains p x = (case (px_bits p, px_addr p, x) of
     (Some n, V4 a, V4 b) \<Rightarrow> drop_bit (32 - n) a = drop_bit (32 - n) b
   | (Some n, V6 a _, V6 b z) \<Rightarrow> z = [] \<and> drop_bit (128 - n) a = drop_bit (128 - n) b
   | _ \<Rightarrow> False)"

abbreviation net4 :: "32 word \<Rightarrow> nat \<Rightarrow> prefix_t" where "net4 a n \<equiv> prefix_from (V4 a) n"
abbreviation net6 :: "128 word \<Rightarrow> nat \<Rightarrow> prefix_t" where "net6 a n \<equiv> prefix_from (V6 a []) n"

definition special_use :: "prefix_t list" where
  "special_use =
    [net4 0 8, net4 0x64400000 10, net4 0xc0000000 24, net4 0xc0000200 24, net4 0xc6120000 15,
     net4 0xc6336400 24, net4 0xcb007100 24, net4 0xf0000000 4,
     net6 0x0064ff9b000100000000000000000000 48, net6 0x01000000000000000000000000000000 64,
     net6 0x20010002000000000000000000000000 48, net6 0x20010db8000000000000000000000000 32,
     net6 0x20010010000000000000000000000000 28, net6 0x20010020000000000000000000000000 28]"

section \<open>The policy\<close>

record policy =
  po_allow :: "prefix_t list"
  po_deny :: "prefix_t list"
  po_require_allow :: bool

datatype refusal = LinkLocalNeverProbed | MulticastNotATarget | UnspecifiedNotATarget | PublicByLoopback
  | PublicByPrivate | PublicBySpecialUse | AllowlistRequired | DeniedBy prefix_t | OutsideAllowed

fun match_prefix :: "prefix_t list \<Rightarrow> addr \<Rightarrow> prefix_t option" where
  "match_prefix [] x = None"
| "match_prefix (p # ps) x = (if prefix_contains (masked p) x then Some p else match_prefix ps x)"

definition in_prefixes :: "prefix_t list \<Rightarrow> addr \<Rightarrow> bool" where
  "in_prefixes ps x = (match_prefix ps x \<noteq> None)"

definition allows :: "policy \<Rightarrow> vantage \<Rightarrow> addr \<Rightarrow> refusal option" where
  "allows p v x =
     (if link_local_unicast x \<or> link_local_multicast x then Some LinkLocalNeverProbed
      else if multicast x then Some MulticastNotATarget
      else if unspecified x then Some UnspecifiedNotATarget
      else if v = VantagePublic \<and> loopback x then Some PublicByLoopback
      else if v = VantagePublic \<and> (private_addr x \<or> is_ula x) then Some PublicByPrivate
      else if v = VantagePublic \<and> in_prefixes special_use x then Some PublicBySpecialUse
      else if v = VantageInternal \<and> po_require_allow p \<and> length (po_allow p) = 0 then Some AllowlistRequired
      else case match_prefix (po_deny p) x of
        Some pfx \<Rightarrow> Some (DeniedBy pfx)
      | None \<Rightarrow>
          if length (po_allow p) > 0 \<and> match_prefix (po_allow p) x = None then Some OutsideAllowed
          else None)"

text \<open>The hook of the dialer, on the resolved address the system is about to connect to. \<open>split\<close> is
  \<open>net.SplitHostPort\<close>.\<close>

datatype dial_refusal = NotHostPort | NotResolved | Blocked addr refusal

definition dial_control :: "(string \<Rightarrow> (string \<times> string) option) \<Rightarrow> (string \<Rightarrow> addr option) \<Rightarrow>
    vantage \<Rightarrow> policy \<Rightarrow> string \<Rightarrow> dial_refusal option" where
  "dial_control split parse_addr v p address =
     (case split address of
        None \<Rightarrow> Some NotHostPort
      | Some (host, port) \<Rightarrow>
     (case parse_addr host of
        None \<Rightarrow> Some NotResolved
      | Some x \<Rightarrow> map_option (Blocked (unmap_addr x)) (allows p v (unmap_addr x))))"

fun parse_prefixes :: "(string \<Rightarrow> prefix_t option) \<Rightarrow> (string \<Rightarrow> addr option) \<Rightarrow> string list \<Rightarrow>
    string + prefix_t list" where
  "parse_prefixes parse_prefix parse_addr [] = Inr []"
| "parse_prefixes parse_prefix parse_addr (s # ss) =
     (case (case parse_prefix s of
          Some pfx \<Rightarrow> Some (masked pfx)
        | None \<Rightarrow> map_option (\<lambda>x. prefix_from (unmap_addr x) (bit_len x)) (parse_addr s)) of
        None \<Rightarrow> Inl s
      | Some pfx \<Rightarrow>
          (case parse_prefixes parse_prefix parse_addr ss of Inl e \<Rightarrow> Inl e | Inr ps \<Rightarrow> Inr (pfx # ps)))"

section \<open>Prefixes\<close>

lemma drop_push_drop: "drop_bit n (push_bit n (drop_bit n (a :: 'a::len word))) = drop_bit n a"
  by (rule bit_word_eqI) (auto simp: bit_drop_bit_eq bit_push_bit_iff dest: bit_imp_le_length)

lemma contains_masked [simp]: "prefix_contains (masked p) x = prefix_contains p x"
  by (auto simp: prefix_contains_def masked_def drop_push_drop split: option.splits addr.splits)

lemma match_prefix_None: "match_prefix ps x = None \<longleftrightarrow> (\<forall>p \<in> set ps. \<not> prefix_contains p x)"
  by (induction ps) auto

lemma match_prefix_Some: "match_prefix ps x = Some p \<Longrightarrow> p \<in> set ps \<and> prefix_contains p x"
  by (induction ps) (auto split: if_splits)

lemma in_prefixes_iff: "in_prefixes ps x \<longleftrightarrow> (\<exists>p \<in> set ps. prefix_contains p x)"
  by (auto simp: in_prefixes_def match_prefix_None)

lemma invalid_contains_nothing: "px_bits p = None \<Longrightarrow> \<not> prefix_contains p x"
  by (simp add: prefix_contains_def)

text \<open>A prefix is a range of addresses.\<close>

lemma div_range: "0 < d \<Longrightarrow> (x :: int) div d = c \<longleftrightarrow> c * d \<le> x \<and> x < (c + 1) * d"
proof -
  assume d: "0 < d"
  have m: "0 \<le> x mod d" "x mod d < d" using d by simp_all
  have x: "x = x div d * d + x mod d" by simp
  show ?thesis
  proof
    assume "x div d = c"
    with x m show "c * d \<le> x \<and> x < (c + 1) * d" by (simp only: distrib_right) linarith
  next
    assume c: "c * d \<le> x \<and> x < (c + 1) * d"
    then have "0 \<le> x - c * d" "x - c * d < d" by (simp_all add: algebra_simps)
    then show "x div d = c" by (intro int_div_pos_eq [of x d c "x - c * d"]) simp_all
  qed
qed

lemma uint_drop: "uint (drop_bit n a) = uint a div 2 ^ n" for a :: "'a::len word"
proof -
  have "take_bit LENGTH('a) (uint a) = uint a"
    by (rule take_bit_int_eq_self) simp_all
  then show ?thesis by (simp only: unsigned_drop_bit_eq drop_bit_int_def)
qed

lemma drop_bit_range: "drop_bit n a = c \<longleftrightarrow> uint c * 2 ^ n \<le> uint a \<and> uint a < (uint c + 1) * 2 ^ n"
  for a c :: "'a::len word"
  by (simp only: word_uint_eq_iff uint_drop) (simp add: div_range)

section \<open>The IPv4 addresses a public check may use\<close>

definition quad :: "int \<Rightarrow> int \<Rightarrow> int \<Rightarrow> int \<Rightarrow> int" where
  "quad b0 b1 b2 b3 = ((b0 * 256 + b1) * 256 + b2) * 256 + b3"

text \<open>What no vantage reaches, and what a public vantage does not; each range excludes its end.\<close>

definition never_ranges :: "(int \<times> int) list" where
  "never_ranges =
    [(quad 169 254 0 0, quad 169 255 0 0), (quad 224 0 0 0, quad 240 0 0 0), (0, 1)]"

definition not_public_ranges :: "(int \<times> int) list" where
  "not_public_ranges =
    [(quad 127 0 0 0, quad 128 0 0 0), (quad 10 0 0 0, quad 11 0 0 0), (quad 172 16 0 0, quad 172 32 0 0),
     (quad 192 168 0 0, quad 192 169 0 0), (quad 0 0 0 0, quad 1 0 0 0), (quad 100 64 0 0, quad 100 128 0 0),
     (quad 192 0 0 0, quad 192 0 1 0), (quad 192 0 2 0, quad 192 0 3 0), (quad 198 18 0 0, quad 198 20 0 0),
     (quad 198 51 100 0, quad 198 51 101 0), (quad 203 0 113 0, quad 203 0 114 0), (quad 240 0 0 0, quad 256 0 0 0)]"

definition outside :: "(int \<times> int) list \<Rightarrow> int \<Rightarrow> bool" where
  "outside ranges n = list_all (\<lambda>(lo, hi). \<not> (lo \<le> n \<and> n < hi)) ranges"

lemma v4_never:
  "link_local_unicast (V4 a) \<or> link_local_multicast (V4 a) \<or> multicast (V4 a) \<or> unspecified (V4 a) \<longleftrightarrow>
   \<not> outside never_ranges (uint a)"
proof -
  have "uint a = 0 \<longleftrightarrow> uint a < 1" using unsigned_greater_eq [of a, where ?'a = int] by linarith
  then show ?thesis
    unfolding link_local_unicast_def link_local_multicast_def multicast_def unspecified_def outside_def
      never_ranges_def quad_def
    by (simp add: drop_bit_range uint_0_iff [symmetric] del: uint_0_iff) auto
qed

lemma v4_net: "prefix_contains (net4 c n) (V4 a) \<longleftrightarrow> n \<le> 32 \<and>
    uint c div 2 ^ (32 - n) * 2 ^ (32 - n) \<le> uint a \<and> uint a < (uint c div 2 ^ (32 - n) + 1) * 2 ^ (32 - n)"
proof -
  have "drop_bit (32 - n) c = drop_bit (32 - n) a \<longleftrightarrow>
      uint c div 2 ^ (32 - n) * 2 ^ (32 - n) \<le> uint a \<and> uint a < (uint c div 2 ^ (32 - n) + 1) * 2 ^ (32 - n)"
    by (subst eq_commute) (simp only: drop_bit_range [of "32 - n" a] uint_drop)
  then show ?thesis by (simp add: prefix_contains_def prefix_from_def)
qed

lemma v6_net: "\<not> prefix_contains (net6 c n) (V4 a)"
  by (simp add: prefix_contains_def prefix_from_def)

lemma v4_special:
  "in_prefixes special_use (V4 a) \<longleftrightarrow> \<not> outside (drop 4 not_public_ranges) (uint a)"
  unfolding in_prefixes_iff special_use_def outside_def not_public_ranges_def quad_def
  by (simp add: v4_net v6_net)

lemma v4_not_public:
  "loopback (V4 a) \<or> private_addr (V4 a) \<or> is_ula (V4 a) \<longleftrightarrow> \<not> outside (take 4 not_public_ranges) (uint a)"
  unfolding loopback_def private_addr_def outside_def not_public_ranges_def quad_def
  by (simp add: drop_bit_range)

lemma outside_split: "outside rs n \<longleftrightarrow> outside (take k rs) n \<and> outside (drop k rs) n"
  unfolding outside_def by (metis append_take_drop_id list_all_append)

lemma allows_public4:
  "allows p VantagePublic (V4 a) = None \<longleftrightarrow>
     outside never_ranges (uint a) \<and> outside not_public_ranges (uint a) \<and>
     (\<forall>d \<in> set (po_deny p). \<not> prefix_contains d (V4 a)) \<and>
     (po_allow p = [] \<or> (\<exists>q \<in> set (po_allow p). prefix_contains q (V4 a)))"
proof -
  have "allows p VantagePublic (V4 a) = None \<longleftrightarrow>
     \<not> (link_local_unicast (V4 a) \<or> link_local_multicast (V4 a) \<or> multicast (V4 a) \<or> unspecified (V4 a)) \<and>
     \<not> (loopback (V4 a) \<or> private_addr (V4 a) \<or> is_ula (V4 a)) \<and> \<not> in_prefixes special_use (V4 a) \<and>
     match_prefix (po_deny p) (V4 a) = None \<and>
     (po_allow p = [] \<or> match_prefix (po_allow p) (V4 a) \<noteq> None)"
    by (auto simp: allows_def split: option.splits)
  then show ?thesis
    unfolding v4_never v4_not_public v4_special match_prefix_None outside_split [of not_public_ranges _ 4]
    by blast
qed

lemma allows_any4: "allows p v (V4 a) = None \<Longrightarrow> outside never_ranges (uint a)"
  using v4_never [of a] by (auto simp: allows_def split: if_splits)

text \<open>A mapped address is judged as the IPv4 address it carries.\<close>

lemma mapped_public: "link_local_unicast (unmap_addr x) = link_local_unicast x" "multicast (unmap_addr x) = multicast x"
    "loopback (unmap_addr x) = loopback x" "private_addr (unmap_addr x) = private_addr x"
  by (cases x; simp add: link_local_unicast_def multicast_def loopback_def private_addr_def)+

lemma dial_control_None:
  "dial_control split_hp parse_addr v p address = None \<longleftrightarrow>
   (\<exists>host port x. split_hp address = Some (host, port) \<and> parse_addr host = Some x \<and>
      allows p v (unmap_addr x) = None)"
  by (auto simp: dial_control_def split: option.splits)

text \<open>An exclusion written as a mapped address becomes an invalid prefix and excludes nothing.\<close>

lemma mapped_single_host:
  assumes "parse_prefix s = None" "parse_addr s = Some (V6 a z)" "mapped a"
  shows "\<exists>p. parse_prefixes parse_prefix parse_addr [s] = Inr [p] \<and> (\<forall>x. \<not> prefix_contains p x)"
  using assms by (simp add: prefix_from_def prefix_contains_def)

end
