(* ===== verification/Probe.thy ===== *)
theory Probe
  imports Guard Alert
begin

text \<open>
  The probe executors (\<open>internal/probe/probe.go\<close>, \<open>protocols.go\<close>, \<open>grpc.go\<close>): how a failure is
  classified, what each protocol takes as an answer, and \<open>Run\<close>, which turns it into a result. What
  the network does is an input: the addresses a name resolved to with what happened on each, the
  chunks a socket delivered, the response of a library. A detail keeps the parts of the code's text
  as a constructor; \<open>render\<close> turns it into the string.
\<close>

section \<open>Errors and their classification\<close>

text \<open>
  A Go error as far as \<open>classify\<close> looks into it: a leaf, or a wrapper with the error it unwraps to.
  \<open>OpError\<close> is \<open>net.OpError\<close>, with the text in front of its cause.
\<close>

datatype err = Plain string | EndOfFile | Canceled | DeadlineExceeded | ProxyFailure string
  | BlockedTarget string | SetupError string err | DNSError string string | OpError string err
  | Wrapped string err

fun err_text :: "err \<Rightarrow> string" where
  "err_text (Plain s) = s"
| "err_text EndOfFile = ''EOF''"
| "err_text Canceled = ''context canceled''"
| "err_text DeadlineExceeded = ''context deadline exceeded''"
| "err_text (ProxyFailure stage) = ''proxy '' @ stage @ '' failed''"
| "err_text (BlockedTarget s) = s"
| "err_text (SetupError op e) = op @ '': '' @ err_text e"
| "err_text (DNSError name s) = ''lookup '' @ name @ '': '' @ s"
| "err_text (OpError before e) = before @ '': '' @ err_text e"
| "err_text (Wrapped before e) = before @ '': '' @ err_text e"

text \<open>\<open>errors.As\<close> and \<open>errors.Is\<close> walk this chain.\<close>

fun err_chain :: "err \<Rightarrow> err list" where
  "err_chain (SetupError op e) = SetupError op e # err_chain e"
| "err_chain (OpError before e) = OpError before e # err_chain e"
| "err_chain (Wrapped before e) = Wrapped before e # err_chain e"
| "err_chain e = [e]"

fun is_proxy :: "err \<Rightarrow> bool" where "is_proxy (ProxyFailure _) = True" | "is_proxy _ = False"
fun is_blocked :: "err \<Rightarrow> bool" where "is_blocked (BlockedTarget _) = True" | "is_blocked _ = False"
fun is_setup :: "err \<Rightarrow> bool" where "is_setup (SetupError _ _) = True" | "is_setup _ = False"
fun is_dns :: "err \<Rightarrow> bool" where "is_dns (DNSError _ _) = True" | "is_dns _ = False"
fun is_op :: "err \<Rightarrow> bool" where "is_op (OpError _ _) = True" | "is_op _ = False"

fun contains_text :: "string \<Rightarrow> string \<Rightarrow> bool" where
  "contains_text [] needle = (needle = [])"
| "contains_text (c # cs) needle = (has_prefix (c # cs) needle \<or> contains_text cs needle)"

lemma contains_text_iff: "contains_text s needle \<longleftrightarrow> (\<exists>a b. s = a @ needle @ b)"
proof (induction s)
  case Nil
  then show ?case by auto
next
  case (Cons c cs)
  show ?case
  proof
    assume "contains_text (c # cs) needle"
    then consider "has_prefix (c # cs) needle" | "contains_text cs needle" by auto
    then show "\<exists>a b. c # cs = a @ needle @ b"
    proof cases
      case 1
      then obtain r where "c # cs = needle @ r" unfolding has_prefix_iff by blast
      then show ?thesis by (metis append_Nil)
    next
      case 2
      with Cons obtain a b where "cs = a @ needle @ b" by blast
      then show ?thesis by (metis append_Cons)
    qed
  next
    assume "\<exists>a b. c # cs = a @ needle @ b"
    then obtain a b where ab: "c # cs = a @ needle @ b" by blast
    show "contains_text (c # cs) needle"
    proof (cases a)
      case Nil
      with ab have "has_prefix (c # cs) needle" by (auto simp: has_prefix_iff)
      then show ?thesis by simp
    next
      case (Cons x xs)
      with ab have "cs = xs @ needle @ b" by simp
      with Cons.IH show ?thesis by auto
    qed
  qed
qed

definition no_route_needles :: "string list" where
  "no_route_needles = [''network is unreachable'', ''no route to host'', ''host is down'']"

definition is_no_route :: "err \<Rightarrow> bool" where
  "is_no_route e = list_ex (contains_text (err_text e)) no_route_needles"

definition unwrap_op :: "err \<Rightarrow> err" where
  "unwrap_op e = (case List.find is_op (err_chain e) of Some (OpError _ cause) \<Rightarrow> cause | _ \<Rightarrow> e)"

datatype detail = NoDetail | ErrorText string | ProbeCancelled | CouldNotResolve string string
  | NoNetworkPath string | InvalidTarget string | NoProxyProfile | ProxyNotEstablished
  | HTTPStatus string | ReadingBody string | BodyLacks string | NoGreeting string
  | GreetingLacks string string | MatchedIn string nat | ResponseLacks string nat
  | ShortNTP nat | UnexpectedMode nat | Unsynchronised nat | TimestampMismatch | NTPAnswer nat nat
  | HandshakeFailed string | PeerLacks string string | CertificateExpires string duration duration
  | TLSPeer string | SMTPFailed string string | SMTPSucceeded | NoPermittedAddress | EchoFrom string
  | GRPCFailed string | GRPCNotServing string | GRPCServing string | DNSNoRecords
  | DNSLacks string string | DNSRecords string | InvalidCheckText string | WrongKind kind kind
  | CannotRun kind | LatencyExceeds detail duration duration | During detail string
  | UnsupportedDNSRecord string | InvalidDNSResponse bool string | DNSMismatch | DNSRCode string string
  | DNSAnswered string string

definition classify :: "err option \<Rightarrow> status \<times> detail" where
  "classify failure =
     (case failure of
        None \<Rightarrow> (StatusUp, NoDetail)
      | Some e \<Rightarrow>
     (case List.find is_proxy (err_chain e) of
        Some p \<Rightarrow> (StatusUnknown, ErrorText (err_text p))
      | None \<Rightarrow>
          if List.member (err_chain e) Canceled then (StatusUnknown, ProbeCancelled)
          else
     (case List.find is_blocked (err_chain e) of
        Some b \<Rightarrow> (StatusUnknown, ErrorText (err_text b))
      | None \<Rightarrow>
     (case List.find is_setup (err_chain e) of
        Some s \<Rightarrow> (StatusUnknown, ErrorText (err_text s))
      | None \<Rightarrow>
     (case List.find is_dns (err_chain e) of
        Some (DNSError name s) \<Rightarrow> (StatusUnknown, CouldNotResolve name s)
      | _ \<Rightarrow>
          if is_no_route e then (StatusUnknown, NoNetworkPath (err_text (unwrap_op e)))
          else (StatusDown, ErrorText (err_text (unwrap_op e))))))))"

text \<open>A failure counts against the target only if nothing on its chain speaks of this prober.\<close>

lemma classify_down:
  assumes "classify (Some e) = (StatusDown, d)"
  shows "(\<forall>x \<in> set (err_chain e). \<not> is_proxy x \<and> \<not> is_blocked x \<and> \<not> is_setup x \<and> \<not> is_dns x \<and> x \<noteq> Canceled) \<and>
    \<not> is_no_route e"
proof -
  have none: "List.find P xs = None \<longleftrightarrow> (\<forall>x \<in> set xs. \<not> P x)" for P :: "err \<Rightarrow> bool" and xs
    by (auto simp: find_None_iff)
  have dns: "List.find is_dns xs = Some x \<Longrightarrow> \<exists>n s. x = DNSError n s" for xs x
  proof -
    assume "List.find is_dns xs = Some x"
    then have "is_dns x" by (auto simp: find_Some_iff)
    then show ?thesis by (cases x) simp_all
  qed
  show ?thesis
    using assms dns [of "err_chain e"]
    by (auto simp: classify_def none split: option.splits if_splits)
qed

lemma classify_not_warning: "fst (classify f) \<in> {StatusUp, StatusDown, StatusUnknown}"
  by (auto simp: classify_def split: option.splits err.splits)

lemma classify_up: "fst (classify f) = StatusUp \<longleftrightarrow> f = None"
  by (auto simp: classify_def split: option.splits err.splits)

lemma classify_not_up: "classify (Some e) \<noteq> (StatusUp, d)"
  using classify_up [of "Some e"] by auto

section \<open>Dialling\<close>

text \<open>
  What \<open>net.Dialer\<close> does with the addresses a name resolved to: it tries them in turn, each only if
  the control hook lets it, and reports the first failure if none connects. \<open>dg_lookup\<close> is the
  resolver's failure, an entry of \<open>dg_tries\<close> an address with what the system answers on it.
\<close>

record dialing =
  dg_lookup :: "err option"
  dg_tries :: "(string \<times> err option) list"

fun dial_serial :: "(string \<Rightarrow> err option) \<Rightarrow> err option \<Rightarrow> (string \<times> err option) list \<Rightarrow> err + string" where
  "dial_serial control failure [] =
     Inl (case failure of Some e \<Rightarrow> e | None \<Rightarrow> OpError ''dial'' (Plain ''missing address''))"
| "dial_serial control failure ((address, answer) # rest) =
     (case (case control address of Some e \<Rightarrow> Some e | None \<Rightarrow> answer) of
        None \<Rightarrow> Inr address
      | Some e \<Rightarrow> dial_serial control
          (Some (case failure of Some f \<Rightarrow> f | None \<Rightarrow> OpError (''dial tcp '' @ address) e)) rest)"

definition dial :: "(string \<Rightarrow> err option) \<Rightarrow> dialing \<Rightarrow> err + string" where
  "dial control dg =
     (case dg_lookup dg of
        Some e \<Rightarrow> Inl (OpError ''dial tcp'' e)
      | None \<Rightarrow> dial_serial control None (dg_tries dg))"

text \<open>The hook of \<open>guardedDialer\<close>, its refusals as errors; \<open>show_refusal\<close> renders them.\<close>

definition guard_control :: "(string \<Rightarrow> (string \<times> string) option) \<Rightarrow> (string \<Rightarrow> addr option) \<Rightarrow>
    (dial_refusal \<Rightarrow> string) \<Rightarrow> vantage \<Rightarrow> policy \<Rightarrow> string \<Rightarrow> err option" where
  "guard_control split_hp parse_addr show_refusal v p address =
     (case dial_control split_hp parse_addr v p address of
        None \<Rightarrow> None
      | Some (Blocked x r) \<Rightarrow> Some (BlockedTarget (show_refusal (Blocked x r)))
      | Some NotHostPort \<Rightarrow> Some (Wrapped (show_refusal NotHostPort) (Plain []))
      | Some NotResolved \<Rightarrow> Some (Plain (show_refusal NotResolved)))"

lemma dial_serial_allowed:
  "dial_serial control f tries = Inr a \<Longrightarrow> control a = None \<and> (a, None) \<in> set tries"
  by (induction control f tries rule: dial_serial.induct) (auto split: option.splits)

lemma dial_allowed: "dial control dg = Inr a \<Longrightarrow> control a = None \<and> (a, None) \<in> set (dg_tries dg)"
  by (auto simp: dial_def dial_serial_allowed split: option.splits dest: dial_serial_allowed)

section \<open>The executors\<close>

type_synonym outcome = "status \<times> duration \<times> detail"

definition failed :: "err \<Rightarrow> outcome" where
  "failed e = (let (s, d) = classify (Some e) in (s, 0, d))"

definition setup_failed :: "err \<Rightarrow> outcome" where
  "setup_failed e = (StatusUnknown, 0, ErrorText (err_text (SetupError ''set probe deadline'' e)))"

definition probe_tcp :: "(string \<Rightarrow> err option) \<Rightarrow> dialing \<Rightarrow> duration \<Rightarrow> outcome" where
  "probe_tcp control dg latency =
     (case dial control dg of Inl e \<Rightarrow> failed e | Inr _ \<Rightarrow> (StatusUp, latency, NoDetail))"

definition max_body_read :: nat where "max_body_read = 65536"

definition status_acceptable :: "int \<Rightarrow> int list \<Rightarrow> bool" where
  "status_acceptable code expect =
     (if length expect = 0 then code \<ge> 200 \<and> code < 300 else List.member expect code)"

text \<open>\<open>io.ReadAll\<close> behind \<open>io.LimitReader\<close>: a stream, and the error that ends it (\<open>None\<close> for its
  regular end).\<close>

definition read_limited :: "nat \<Rightarrow> string \<times> err option \<Rightarrow> string \<times> err option" where
  "read_limited limit stream =
     (take limit (fst stream), if length (fst stream) < limit then snd stream else None)"

datatype http_answer =
    RequestFailed err bool string
  | Responded int string "string \<times> err option"

record http_script =
  hs_roots :: "string option"
  hs_transport :: "string option"
  hs_request :: "string option"
  hs_answer :: http_answer
  hs_latency :: duration

definition probe_http :: "(string \<Rightarrow> bool) \<Rightarrow> check \<Rightarrow> http_script \<Rightarrow> outcome" where
  "probe_http profiles c h =
     (case hs_roots h of
        Some e \<Rightarrow> (StatusUnknown, 0, ErrorText e)
      | None \<Rightarrow>
          (let proxied = (c_proxy_profile c \<noteq> []) in
           if proxied \<and> \<not> profiles (c_proxy_profile c) then (StatusUnknown, 0, NoProxyProfile)
           else case (if proxied then hs_transport h else None) of
             Some e \<Rightarrow> (StatusUnknown, 0, ErrorText e)
           | None \<Rightarrow>
          (case hs_request h of
             Some e \<Rightarrow> (StatusUnknown, 0, InvalidTarget e)
           | None \<Rightarrow>
          (case hs_answer h of
             RequestFailed e established phases \<Rightarrow>
               if proxied \<and> \<not> established \<and>
                  (List.member (err_chain e) DeadlineExceeded \<or> List.member (err_chain e) Canceled)
               then (StatusUnknown, 0, ProxyNotEstablished)
               else (let (s, d) = classify (Some e) in
                 (s, 0, if s = StatusDown \<and> \<not> proxied \<and> phases \<noteq> [] then During d phases else d))
           | Responded code text body \<Rightarrow>
               if \<not> status_acceptable code (c_expect_status c) then (StatusDown, hs_latency h, HTTPStatus text)
               else if c_expect_body c \<noteq> [] then
                 (case read_limited max_body_read body of
                    (_, Some e) \<Rightarrow> (StatusDown, hs_latency h, ReadingBody (err_text e))
                  | (data, None) \<Rightarrow>
                      if \<not> contains_text data (c_expect_body c)
                      then (StatusDown, hs_latency h, BodyLacks (c_expect_body c))
                      else (StatusUp, hs_latency h, NoDetail))
               else (StatusUp, hs_latency h, NoDetail)))))"

text \<open>
  \<open>Banner\<close>. \<open>ReadString\<close> of a \<open>bufio.Reader\<close> collects full buffers until the delimiter or an error:
  the size of the buffer does not bound what it returns.
\<close>

definition max_banner_read :: nat where "max_banner_read = 4096"

definition read_string :: "char \<Rightarrow> string \<times> err \<Rightarrow> string \<times> err option" where
  "read_string delim stream =
     (if delim \<in> set (fst stream)
      then (takeWhile (\<lambda>ch. ch \<noteq> delim) (fst stream) @ [delim], None)
      else (fst stream, Some (snd stream)))"

definition trim_right :: "char list \<Rightarrow> string \<Rightarrow> string" where
  "trim_right cutset s = rev (dropWhile (\<lambda>ch. ch \<in> set cutset) (rev s))"

definition probe_banner :: "(string \<Rightarrow> err option) \<Rightarrow> check \<Rightarrow> dialing \<Rightarrow> err option \<Rightarrow> string \<times> err \<Rightarrow> duration \<Rightarrow> outcome"
where
  "probe_banner control c dg deadline stream latency =
     (case dial control dg of
        Inl e \<Rightarrow> failed e
      | Inr _ \<Rightarrow>
     (case deadline of
        Some e \<Rightarrow> setup_failed e
      | None \<Rightarrow>
          (let (line, e) = read_string (CHR 0x0A) stream in
           if e \<noteq> None \<and> line = []
           then (StatusDown, latency, NoGreeting (case e of None \<Rightarrow> [] | Some f \<Rightarrow> err_text (unwrap_op f)))
           else (let greeting = trim_right [CHR 0x0D, CHR 0x0A] line in
             if \<not> contains_text greeting (c_expect_body c)
             then (StatusDown, latency, GreetingLacks greeting (c_expect_body c))
             else (StatusUp, latency, NoDetail)))))"

text \<open>A server that never ends its line is read to the end of what it sends, however long.\<close>

lemma greeting_unbounded:
  "\<exists>stream. fst (read_string (CHR 0x0A) (stream, e)) = stream \<and> max_banner_read < length stream \<and> n \<le> length stream"
  by (rule exI [of _ "replicate (Suc (max n max_banner_read)) (CHR ''a'')"]) (auto simp: read_string_def less_Suc_eq_le le_SucI)

text \<open>
  \<open>Request\<close>: a read delivers the next chunk, cut to the space left in the buffer; after the chunks
  every read fails with \<open>final\<close> (the end of the stream, or the deadline).
\<close>

datatype reading = Matched string | Exhausted string | ReadFailed err

function request_loop :: "string \<Rightarrow> string \<Rightarrow> string list \<Rightarrow> err \<Rightarrow> reading" where
  "request_loop expect buf chunks final =
     (if \<not> length buf < max_body_read then Exhausted buf
      else case chunks of
        [] \<Rightarrow> if contains_text buf expect then Matched buf
              else if final = EndOfFile then Exhausted buf else ReadFailed final
      | chunk # rest \<Rightarrow>
          (let buf = buf @ take (max_body_read - length buf) chunk in
           if contains_text buf expect then Matched buf else request_loop expect buf rest final))"
  by pat_completeness auto
termination request_loop by (relation "measure (\<lambda>(_, _, chunks, _). length chunks)") auto

declare request_loop.simps [simp del]

record request_script =
  rs_deadline :: "err option"
  rs_write :: "err option"
  rs_chunks :: "string list"
  rs_final :: err
  rs_latency :: duration

definition probe_request :: "(string \<Rightarrow> err option) \<Rightarrow> check \<Rightarrow> dialing \<Rightarrow> request_script \<Rightarrow> outcome" where
  "probe_request control c dg s =
     (case dial control dg of
        Inl e \<Rightarrow> failed e
      | Inr _ \<Rightarrow>
     (case rs_deadline s of
        Some e \<Rightarrow> setup_failed e
      | None \<Rightarrow>
     (case rs_write s of
        Some e \<Rightarrow> failed e
      | None \<Rightarrow>
     (case request_loop (c_expect_body c) [] (rs_chunks s) (rs_final s) of
        Matched buf \<Rightarrow> (StatusUp, rs_latency s, MatchedIn (c_expect_body c) (length buf))
      | Exhausted buf \<Rightarrow> (StatusDown, rs_latency s, ResponseLacks (c_expect_body c) (length buf))
      | ReadFailed e \<Rightarrow> failed e))))"

text \<open>How the stream was cut into chunks does not decide what is found in it.\<close>

lemma contains_append: "contains_text s needle \<Longrightarrow> contains_text (s @ t) needle"
  unfolding contains_text_iff by (metis append.assoc)

lemma request_loop_stream:
  assumes "length buf \<le> max_body_read" "\<not> contains_text buf expect"
  shows "request_loop expect buf chunks final =
    (let all = take max_body_read (buf @ concat chunks) in
     if contains_text all expect then request_loop expect buf chunks final
     else if length all < max_body_read \<and> final \<noteq> EndOfFile then ReadFailed final else Exhausted all) \<and>
    ((\<exists>m. request_loop expect buf chunks final = Matched m) \<longleftrightarrow>
     contains_text (take max_body_read (buf @ concat chunks)) expect)"
  using assms
proof (induction chunks arbitrary: buf)
  case Nil
  then show ?case by (auto simp: request_loop.simps Let_def)
next
  case (Cons chunk rest)
  define buf' where "buf' = buf @ take (max_body_read - length buf) chunk"
  have len: "length buf' \<le> max_body_read" using Cons.prems(1) by (simp add: buf'_def)
  have cut: "take max_body_read (buf' @ concat rest) = take max_body_read (buf @ concat (chunk # rest))"
    using Cons.prems(1) by (simp add: buf'_def) (cases "length chunk \<le> max_body_read - length buf"; simp)
  show ?case
  proof (cases "length buf < max_body_read")
    case False
    with Cons.prems have "take max_body_read (buf @ concat (chunk # rest)) = buf" by simp
    with False Cons.prems show ?thesis by (simp add: request_loop.simps [of expect buf] Let_def)
  next
    case True
    then have step: "request_loop expect buf (chunk # rest) final =
        (if contains_text buf' expect then Matched buf' else request_loop expect buf' rest final)"
      by (simp add: request_loop.simps [of expect buf] buf'_def Let_def)
    show ?thesis
    proof (cases "contains_text buf' expect")
      case True
      have "take max_body_read (buf' @ concat rest) = buf' @ take (max_body_read - length buf') (concat rest)"
        using len by simp
      with True have "contains_text (take max_body_read (buf' @ concat rest)) expect"
        by (metis contains_append)
      with True step cut show ?thesis by (simp add: Let_def)
    next
      case False
      with step have e: "request_loop expect buf (chunk # rest) final = request_loop expect buf' rest final"
        by simp
      show ?thesis using Cons.IH [OF len False] unfolding e cut .
    qed
  qed
qed

end
