(* ===== verification/Protocols.thy ===== *)
theory Protocols
  imports Probe
begin

text \<open>
  The executors that speak a protocol (\<open>internal/probe/protocols.go\<close>, \<open>grpc.go\<close>) and \<open>Run\<close>, which
  builds the result. Libraries that are not part of the program (TLS, SMTP, gRPC, the DNS and ICMP
  codecs) answer as inputs: the error they return, or the message they parsed.
\<close>

section \<open>NTP\<close>

definition ntp_epoch_offset :: int where "ntp_epoch_offset = 2208988800"

text \<open>\<open>Time.Unix\<close> and \<open>Time.Nanosecond\<close>, for a clock counted from Go's zero time.\<close>

definition unix_seconds :: "time \<Rightarrow> int" where "unix_seconds t = t div second - 62135596800"
definition nanos :: "time \<Rightarrow> int" where "nanos t = t mod second"

text \<open>\<open>binary.BigEndian.PutUint32\<close> of a value truncated to 32 bits.\<close>

definition be32 :: "int \<Rightarrow> bytes" where
  "be32 v = (let n = nat (v mod 4294967296) in
     [byte (n div 16777216), byte (n div 65536 mod 256), byte (n div 256 mod 256), byte (n mod 256)])"

definition ntp_timestamp :: "time \<Rightarrow> bytes" where
  "ntp_timestamp now =
     be32 (unix_seconds now + ntp_epoch_offset) @ be32 (nanos now * 4294967296 div 1000000000)"

definition ntp_request :: "time \<Rightarrow> bytes" where
  "ntp_request now = byte 0x23 # replicate 39 (byte 0) @ ntp_timestamp now"

definition byte_at :: "bytes \<Rightarrow> nat \<Rightarrow> nat" where "byte_at s i = of_char (s ! i)"

text \<open>The checks on a datagram, of which at most 512 bytes are read.\<close>

definition ntp_answer :: "time \<Rightarrow> bytes \<Rightarrow> status \<times> detail" where
  "ntp_answer now datagram =
     (let response = take 512 datagram in
      if length response < 48 then (StatusDown, ShortNTP (length response))
      else
        (let mode = byte_at response 0 mod 8; stratum = byte_at response 1 in
         if mode \<noteq> 4 \<and> mode \<noteq> 5 then (StatusDown, UnexpectedMode mode)
         else if stratum = 0 \<or> stratum \<ge> 16 then (StatusDown, Unsynchronised stratum)
         else if take 8 (drop 24 response) \<noteq> take 8 (drop 40 (ntp_request now))
         then (StatusDown, TimestampMismatch)
         else (StatusUp, NTPAnswer (byte_at response 0 div 8 mod 8) stratum)))"

definition probe_ntp :: "time \<Rightarrow> err option \<Rightarrow> err option \<Rightarrow> err + bytes \<Rightarrow> duration \<Rightarrow>
    (string \<Rightarrow> err option) \<Rightarrow> dialing \<Rightarrow> outcome" where
  "probe_ntp now deadline sent reply latency control dg =
     (case dial control dg of
        Inl e \<Rightarrow> failed e
      | Inr _ \<Rightarrow>
     (case deadline of
        Some e \<Rightarrow> setup_failed e
      | None \<Rightarrow>
     (case sent of
        Some e \<Rightarrow> failed e
      | None \<Rightarrow>
     (case reply of
        Inl e \<Rightarrow> failed e
      | Inr datagram \<Rightarrow> (let (s, d) = ntp_answer now datagram in (s, latency, d))))))"

section \<open>DNS\<close>

datatype lookup = AddrAnswer "addr list" | MXAnswer "(nat \<times> string) list" | TXTAnswer "string list"
  | CNAMEAnswer string | NSAnswer "string list" | SRVAnswer "(nat \<times> nat \<times> nat \<times> string) list"

definition trim_dot :: "string \<Rightarrow> string" where
  "trim_dot s = (if s \<noteq> [] \<and> last s = CHR ''.'' then butlast s else s)"

fun wanted_family :: "string \<Rightarrow> addr \<Rightarrow> bool" where
  "wanted_family record (V4 _) = (record \<noteq> ''AAAA'')"
| "wanted_family record (V6 _ _) = (record \<noteq> ''A'')"

text \<open>The loop over the addresses stops at the first the guard refuses.\<close>

fun dns_addrs :: "(addr \<Rightarrow> refusal option) \<Rightarrow> (addr \<Rightarrow> string) \<Rightarrow> string \<Rightarrow> addr list \<Rightarrow> refusal + string list" where
  "dns_addrs guard show_addr record [] = Inr []"
| "dns_addrs guard show_addr record (x # xs) =
     (if \<not> wanted_family record x then dns_addrs guard show_addr record xs
      else case guard (unmap_addr x) of
        Some r \<Rightarrow> Inl r
      | None \<Rightarrow> (case dns_addrs guard show_addr record xs of Inl r \<Rightarrow> Inl r | Inr vs \<Rightarrow> Inr (show_addr x # vs)))"

fun dns_values :: "(addr \<Rightarrow> refusal option) \<Rightarrow> (addr \<Rightarrow> string) \<Rightarrow> string \<Rightarrow> lookup \<Rightarrow> refusal + string list" where
  "dns_values guard show_addr record (AddrAnswer xs) = dns_addrs guard show_addr record xs"
| "dns_values guard show_addr record (MXAnswer ms) = Inr (map (\<lambda>(pref, host). itoa pref @ '' '' @ trim_dot host) ms)"
| "dns_values guard show_addr record (TXTAnswer ts) = Inr ts"
| "dns_values guard show_addr record (CNAMEAnswer v) = Inr (if v \<noteq> [] then [trim_dot v] else [])"
| "dns_values guard show_addr record (NSAnswer ns) = Inr (map trim_dot ns)"
| "dns_values guard show_addr record (SRVAnswer ss) =
     Inr (map (\<lambda>(prio, weight, port, host). itoa prio @ '' '' @ itoa weight @ '' '' @ itoa port @ '' '' @ trim_dot host) ss)"

definition probe_dns :: "policy \<Rightarrow> (addr \<Rightarrow> string) \<Rightarrow> (refusal \<Rightarrow> string) \<Rightarrow> check \<Rightarrow> lookup \<Rightarrow> err option \<Rightarrow>
    duration \<Rightarrow> outcome" where
  "probe_dns p show_addr show_refusal c answer failure latency =
     (let record = (if c_dns_record c = [] then ''A'' else c_dns_record c) in
      case dns_values (allows p (c_vantage c)) show_addr record answer of
        Inl r \<Rightarrow> (StatusUnknown, 0, ErrorText (show_refusal r))
      | Inr values \<Rightarrow>
     (case failure of
        Some e \<Rightarrow> failed e
      | None \<Rightarrow>
          (let joined = join [CHR 0x0A] (sort values) in
           if length values = 0 then (StatusDown, latency, DNSNoRecords)
           else if c_expect_body c \<noteq> [] \<and> \<not> contains_text joined (c_expect_body c)
           then (StatusDown, latency, DNSLacks joined (c_expect_body c))
           else (StatusUp, latency, DNSRecords joined))))"

definition dns_rcode_name :: "nat \<Rightarrow> string" where
  "dns_rcode_name code =
     (if code = 0 then ''NOERROR'' else if code = 1 then ''FORMERR'' else if code = 2 then ''SERVFAIL''
      else if code = 3 then ''NXDOMAIN'' else if code = 4 then ''NOTIMP'' else if code = 5 then ''REFUSED''
      else ''RCODE'' @ itoa code)"

text \<open>
  A check that names its server asks it directly, over UDP and, if the answer is cut short, over TCP, each
  time through the guarded dialer. \<open>dnsmessage\<close> packs the question (\<open>sv_query\<close> is its refusal) and reads the
  answer (\<open>sv_unpack\<close>); a resource keeps the number of its type.
\<close>

datatype dns_body = ABody string | AAAABody string | CNAMEBody string | MXBody nat string | NSBody string
  | SOABody string string nat nat nat nat nat | SRVBody nat nat nat string | TXTBody "string list" | UnknownBody bytes
  | OtherResource

definition dns_record_type :: "string \<Rightarrow> nat option" where
  "dns_record_type record =
     (if record = ''A'' then Some 1 else if record = ''AAAA'' then Some 28 else if record = ''CAA'' then Some 257
      else if record = ''CNAME'' then Some 5 else if record = ''MX'' then Some 15 else if record = ''NS'' then Some 2
      else if record = ''SOA'' then Some 6 else if record = ''SRV'' then Some 33 else if record = ''TXT'' then Some 16
      else None)"

definition spaced :: "string list \<Rightarrow> string" where "spaced = join '' ''"

fun dns_body_value :: "nat \<Rightarrow> dns_body \<Rightarrow> string list" where
  "dns_body_value wanted (ABody a) = [a]"
| "dns_body_value wanted (AAAABody a) = [a]"
| "dns_body_value wanted (CNAMEBody v) = [trim_dot v]"
| "dns_body_value wanted (MXBody pref host) = [spaced [itoa pref, trim_dot host]]"
| "dns_body_value wanted (NSBody v) = [trim_dot v]"
| "dns_body_value wanted (SOABody ns mbox serial refresh retry expire minimum) =
     [spaced [trim_dot ns, trim_dot mbox, itoa serial, itoa refresh, itoa retry, itoa expire, itoa minimum]]"
| "dns_body_value wanted (SRVBody prio wgt port host) = [spaced [itoa prio, itoa wgt, itoa port, trim_dot host]]"
| "dns_body_value wanted (TXTBody parts) = [concat parts]"
| "dns_body_value wanted (UnknownBody data) =
     (if wanted = 257 \<and> length data \<ge> 2 \<and> byte_at data 1 + 2 \<le> length data
      then [spaced [itoa (byte_at data 0), take (byte_at data 1) (drop 2 data), drop (2 + byte_at data 1) data]] else [])"
| "dns_body_value wanted OtherResource = []"

definition dns_resource_values :: "(nat \<times> dns_body) list \<Rightarrow> nat \<Rightarrow> string list" where
  "dns_resource_values resources wanted =
     concat (map (\<lambda>(kind, body). if kind \<noteq> wanted then [] else dns_body_value wanted body) resources)"

record dns_message =
  dm_id :: nat
  dm_response :: bool
  dm_truncated :: bool
  dm_rcode :: nat
  dm_answers :: "(nat \<times> dns_body) list"

text \<open>One exchange: the deadline is set, the query written, the response read.\<close>

record exchange =
  ex_deadline :: "err option"
  ex_answer :: "err + bytes"

definition exchange_dns :: "(string \<Rightarrow> err option) \<Rightarrow> dialing \<Rightarrow> exchange \<Rightarrow> err + bytes" where
  "exchange_dns control dg x =
     (case dial control dg of
        Inl e \<Rightarrow> Inl e
      | Inr _ \<Rightarrow> (case ex_deadline x of Some e \<Rightarrow> Inl (SetupError ''set probe deadline'' e) | None \<Rightarrow> ex_answer x))"

record server_script =
  sv_query :: "string option"
  sv_id :: nat
  sv_udp :: exchange
  sv_tcp_dialing :: dialing
  sv_tcp :: exchange
  sv_unpack :: "bytes \<Rightarrow> string + dns_message"
  sv_latency :: duration

definition judge_dns :: "check \<Rightarrow> nat \<Rightarrow> nat \<Rightarrow> duration \<Rightarrow> dns_message \<Rightarrow> outcome" where
  "judge_dns c wanted qid latency m =
     (if dm_id m \<noteq> qid \<or> \<not> dm_response m then (StatusDown, latency, DNSMismatch)
      else (let rcode = dns_rcode_name (dm_rcode m); want = to_upper (c_dns_rcode c);
                want = (if want = [] then ''NOERROR'' else want)
            in if rcode \<noteq> want then (StatusDown, latency, DNSRCode rcode want)
               else (let values = dns_resource_values (dm_answers m) wanted; joined = join [CHR 0x0A] (sort values)
                     in if c_expect_body c \<noteq> [] \<and> \<not> contains_text joined (c_expect_body c)
                        then (StatusDown, latency, DNSLacks joined (c_expect_body c))
                        else if length values = 0 \<and> wanted \<noteq> 0 \<and> want = ''NOERROR'' then (StatusDown, latency, DNSNoRecords)
                        else (StatusUp, latency, DNSAnswered rcode joined))))"

definition probe_server :: "check \<Rightarrow> server_script \<Rightarrow> (string \<Rightarrow> err option) \<Rightarrow> dialing \<Rightarrow> outcome" where
  "probe_server c s control dg =
     (let record = (if c_dns_record c = [] then ''A'' else c_dns_record c) in
      case dns_record_type record of
        None \<Rightarrow> (StatusUnknown, 0, UnsupportedDNSRecord record)
      | Some wanted \<Rightarrow>
     (case sv_query s of
        Some e \<Rightarrow> (StatusUnknown, 0, ErrorText e)
      | None \<Rightarrow>
     (case exchange_dns control dg (sv_udp s) of
        Inl e \<Rightarrow> failed e
      | Inr response \<Rightarrow>
     (case sv_unpack s response of
        Inl e \<Rightarrow> (StatusDown, sv_latency s, InvalidDNSResponse False e)
      | Inr m \<Rightarrow>
          if \<not> dm_truncated m then judge_dns c wanted (sv_id s) (sv_latency s) m
          else (case exchange_dns control (sv_tcp_dialing s) (sv_tcp s) of
            Inl e \<Rightarrow> failed e
          | Inr response \<Rightarrow>
         (case sv_unpack s response of
            Inl e \<Rightarrow> (StatusDown, sv_latency s, InvalidDNSResponse True e)
          | Inr m \<Rightarrow> judge_dns c wanted (sv_id s) (sv_latency s) m))))))"

section \<open>TLS, SMTP and gRPC\<close>

record tls_script =
  tl_roots :: "string option"
  tl_host :: "string option"
  tl_handshake :: "string option"
  tl_peer :: string
  tl_not_after :: time
  tl_now :: time
  tl_latency :: duration

definition probe_tls :: "check \<Rightarrow> tls_script \<Rightarrow> (string \<Rightarrow> err option) \<Rightarrow> dialing \<Rightarrow> outcome" where
  "probe_tls c t control dg =
     (case tl_roots t of
        Some e \<Rightarrow> (StatusUnknown, 0, ErrorText e)
      | None \<Rightarrow>
     (case tl_host t of
        None \<Rightarrow> (StatusUnknown, 0, InvalidTarget (c_target c))
      | Some host \<Rightarrow>
     (case dial control dg of
        Inl e \<Rightarrow> failed e
      | Inr _ \<Rightarrow>
     (case tl_handshake t of
        Some e \<Rightarrow> (StatusDown, tl_latency t, HandshakeFailed e)
      | None \<Rightarrow>
          if c_expect_body c \<noteq> [] \<and> \<not> contains_text (tl_peer t) (c_expect_body c)
          then (StatusDown, tl_latency t, PeerLacks (tl_peer t) (c_expect_body c))
          else if c_tls_expiry_warning c > 0 \<and> sub_time (tl_not_after t) (tl_now t) \<le> c_tls_expiry_warning c
          then (StatusWarning, tl_latency t,
            CertificateExpires (tl_peer t) (sub_time (tl_not_after t) (tl_now t)) (c_tls_expiry_warning c))
          else (StatusUp, tl_latency t, TLSPeer (tl_peer t))))))"

record smtp_script =
  sm_roots :: "string option"
  sm_host :: "string option"
  sm_deadline :: "err option"
  sm_greeting :: "string option"
  sm_hello :: "string option"
  sm_starttls :: "string option"
  sm_noop :: "string option"
  sm_latency :: duration

definition probe_smtp :: "check \<Rightarrow> smtp_script \<Rightarrow> (string \<Rightarrow> err option) \<Rightarrow> dialing \<Rightarrow> outcome" where
  "probe_smtp c s control dg =
     (case sm_roots s of
        Some e \<Rightarrow> (StatusUnknown, 0, ErrorText e)
      | None \<Rightarrow>
     (case sm_host s of
        None \<Rightarrow> (StatusUnknown, 0, InvalidTarget (c_target c))
      | Some host \<Rightarrow>
     (case dial control dg of
        Inl e \<Rightarrow> failed e
      | Inr _ \<Rightarrow>
     (case sm_deadline s of
        Some e \<Rightarrow> setup_failed e
      | None \<Rightarrow>
     (case sm_greeting s of
        Some e \<Rightarrow> (StatusDown, sm_latency s, SMTPFailed ''greeting'' e)
      | None \<Rightarrow>
     (case sm_hello s of
        Some e \<Rightarrow> (StatusDown, sm_latency s, SMTPFailed ''EHLO'' e)
      | None \<Rightarrow>
     (case (if c_start_tls c then sm_starttls s else None) of
        Some e \<Rightarrow> (StatusDown, sm_latency s, SMTPFailed ''STARTTLS'' e)
      | None \<Rightarrow>
     (case sm_noop s of
        Some e \<Rightarrow> (StatusDown, sm_latency s, SMTPFailed ''NOOP'' e)
      | None \<Rightarrow> (StatusUp, sm_latency s, SMTPSucceeded)))))))))"

record grpc_script =
  gr_roots :: "string option"
  gr_host :: "string option"
  gr_check :: "string option"
  gr_status :: string
  gr_latency :: duration

definition probe_grpc :: "check \<Rightarrow> grpc_script \<Rightarrow> (string \<Rightarrow> err option) \<Rightarrow> dialing \<Rightarrow> outcome" where
  "probe_grpc c g control dg =
     (case gr_roots g of
        Some e \<Rightarrow> (StatusUnknown, 0, ErrorText e)
      | None \<Rightarrow>
          if c_grpc_tls c \<and> gr_host g = None then (StatusUnknown, 0, InvalidTarget (c_target c))
          else case dial control dg of
            Inl e \<Rightarrow> failed e
          | Inr _ \<Rightarrow>
         (case gr_check g of
            Some e \<Rightarrow> (StatusDown, gr_latency g, GRPCFailed e)
          | None \<Rightarrow>
              if gr_status g \<noteq> ''SERVING'' then (StatusDown, gr_latency g, GRPCNotServing (gr_status g))
              else (StatusUp, gr_latency g, GRPCServing (c_grpc_service c))))"

section \<open>ICMP\<close>

datatype packet = Unparsed | Echo nat nat string | OtherBody nat

definition icmp_payload :: string where "icmp_payload = ''parallaxd''"

fun matches_echo :: "packet \<Rightarrow> nat \<Rightarrow> nat \<Rightarrow> bool" where
  "matches_echo (Echo kind seq data) reply want = (kind = reply \<and> seq = want \<and> data = icmp_payload)"
| "matches_echo _ _ _ = False"

text \<open>The first resolved address the policy permits; the reply type for its family.\<close>

definition select_addr :: "policy \<Rightarrow> vantage \<Rightarrow> addr list \<Rightarrow> addr option" where
  "select_addr p v xs = List.find (\<lambda>x. allows p v (unmap_addr x) = None) xs"

definition echo_reply :: "addr \<Rightarrow> nat" where
  "echo_reply x = (case unmap_addr x of V4 _ \<Rightarrow> 0 | V6 _ _ \<Rightarrow> 129)"

text \<open>The socket delivers packets, each from a peer, until a read fails with \<open>final\<close>.\<close>

fun await_echo :: "nat \<Rightarrow> nat \<Rightarrow> duration \<Rightarrow> (packet \<times> string) list \<Rightarrow> err \<Rightarrow> outcome" where
  "await_echo reply seq latency [] final = failed final"
| "await_echo reply seq latency ((pk, from) # rest) final =
     (if matches_echo pk reply seq then (StatusUp, latency, EchoFrom from)
      else await_echo reply seq latency rest final)"

record icmp_script =
  ic_lookup :: "err option"
  ic_addrs :: "addr list"
  ic_socket :: "string option"
  ic_deadline :: "err option"
  ic_write :: "err option"
  ic_packets :: "(packet \<times> string) list"
  ic_final :: err
  ic_latency :: duration

definition probe_icmp :: "policy \<Rightarrow> check \<Rightarrow> nat \<Rightarrow> icmp_script \<Rightarrow> outcome" where
  "probe_icmp p c counter s =
     (case ic_lookup s of
        Some e \<Rightarrow> failed e
      | None \<Rightarrow>
     (case select_addr p (c_vantage c) (ic_addrs s) of
        None \<Rightarrow> (StatusUnknown, 0, NoPermittedAddress)
      | Some x \<Rightarrow>
     (case ic_socket s of
        Some e \<Rightarrow> (StatusUnknown, 0, ErrorText e)
      | None \<Rightarrow>
     (case ic_deadline s of
        Some e \<Rightarrow> setup_failed e
      | None \<Rightarrow>
     (case ic_write s of
        Some e \<Rightarrow> failed e
      | None \<Rightarrow> await_echo (echo_reply x) (counter mod 65536) (ic_latency s) (ic_packets s) (ic_final s))))))"

section \<open>HTTP without a proxy\<close>

text \<open>The transport of a client without a proxy connects through the guarded dialer. What cannot be connected
  comes back as a \<open>url.Error\<close> around the dial's error, with the text \<open>request\<close> in front; \<open>phases\<close> is what was traced.\<close>

definition http_connect :: "string \<Rightarrow> string \<Rightarrow> (string \<Rightarrow> err option) \<Rightarrow> dialing \<Rightarrow> http_script \<Rightarrow> http_script" where
  "http_connect request phases control dg h =
     (case dial control dg of
        Inl e \<Rightarrow> h\<lparr>hs_answer := RequestFailed (Wrapped request e) False phases\<rparr>
      | Inr _ \<Rightarrow> h)"

definition probe_http_direct :: "(string \<Rightarrow> bool) \<Rightarrow> string \<Rightarrow> string \<Rightarrow> check \<Rightarrow> http_script \<Rightarrow>
    (string \<Rightarrow> err option) \<Rightarrow> dialing \<Rightarrow> outcome" where
  "probe_http_direct profiles request phases c h control dg =
     probe_http profiles c (http_connect request phases control dg h)"

section \<open>The contract of an executor that dials\<close>

text \<open>
  An executor reports a failed dial as \<open>classify\<close> judges it, perhaps wrapped, unless it stopped before
  dialling, and takes a target for up (or worth a warning) only after a connection. What follows is what
  a coordinator may conclude from its votes.
\<close>

definition own_fault :: "err \<Rightarrow> bool" where
  "own_fault e \<longleftrightarrow>
     list_ex (\<lambda>x. is_proxy x \<or> is_blocked x \<or> is_setup x \<or> is_dns x \<or> x = Canceled) (err_chain e) \<or> is_no_route e"

lemma own_fault_classified: "own_fault e \<Longrightarrow> fst (classify (Some e)) = StatusUnknown"
proof -
  assume own: "own_fault e"
  have "fst (classify (Some e)) \<noteq> StatusDown"
  proof
    assume "fst (classify (Some e)) = StatusDown"
    then have "classify (Some e) = (StatusDown, snd (classify (Some e)))" by (simp add: prod_eq_iff)
    from classify_down [OF this] own show False by (auto simp: own_fault_def list_ex_iff)
  qed
  moreover have "fst (classify (Some e)) \<noteq> StatusUp" by (simp add: classify_up)
  ultimately show ?thesis using classify_not_warning [of "Some e"] by auto
qed

lemma failed_status: "fst (failed e) = fst (classify (Some e))"
  by (simp add: failed_def split: prod.splits)

lemma own_fault_wrapped: "own_fault e \<Longrightarrow> own_fault (Wrapped before e)"
proof -
  assume own: "own_fault e"
  have "contains_text (before @ '': '' @ err_text e) n" if "contains_text (err_text e) n" for n
    using that unfolding contains_text_iff by (metis append.assoc)
  then have "is_no_route e \<Longrightarrow> is_no_route (Wrapped before e)" by (auto simp: is_no_route_def list_ex_iff)
  with own show ?thesis by (auto simp: own_fault_def)
qed

locale executor =
  fixes run :: "(string \<Rightarrow> err option) \<Rightarrow> dialing \<Rightarrow> outcome"
  assumes undialled: "dial control dg = Inl e \<Longrightarrow> fst (run control dg) = StatusUnknown \<or>
      (\<exists>e'. fst (run control dg) = fst (classify (Some e')) \<and> (own_fault e \<longrightarrow> own_fault e'))"
begin

text \<open>A failure that lies with this prober is no evidence against the target.\<close>

lemma own_fault_unknown: "dial control dg = Inl e \<Longrightarrow> own_fault e \<Longrightarrow> fst (run control dg) = StatusUnknown"
  using undialled own_fault_classified by metis

text \<open>Whatever is reported as up or down after a connection rests on an address the guard permits.\<close>

lemma judged_address:
  assumes "fst (run control dg) \<in> {StatusUp, StatusWarning}"
  shows "\<exists>a. dial control dg = Inr a \<and> control a = None"
proof (cases "dial control dg")
  case (Inl e)
  have none: "fst (classify (Some e')) \<notin> {StatusUp, StatusWarning}" for e'
    using classify_not_warning [of "Some e'"] classify_up [of "Some e'"] by auto
  from undialled [OF Inl] have False
  proof
    assume "fst (run control dg) = StatusUnknown"
    with assms show False by simp
  next
    assume "\<exists>e'. fst (run control dg) = fst (classify (Some e')) \<and> (own_fault e \<longrightarrow> own_fault e')"
    then obtain e' where "fst (run control dg) = fst (classify (Some e'))" by blast
    with none [of e'] assms show False by (simp del: insert_iff)
  qed
  then show ?thesis ..
next
  case (Inr a)
  then show ?thesis using dial_allowed by blast
qed

text \<open>If the guard refuses every address there is, the check is misaimed: nobody votes.\<close>

lemma refused_unknown:
  assumes "dg_lookup dg = None" "dg_tries dg \<noteq> []"
    and "\<And>a. a \<in> fst ` set (dg_tries dg) \<Longrightarrow> \<exists>s. control a = Some (BlockedTarget s)"
  shows "fst (run control dg) = StatusUnknown"
proof -
  have refuse: "dial_serial control (Some (OpError b (BlockedTarget t))) tries = Inl (OpError b (BlockedTarget t))"
    if "\<And>a. a \<in> fst ` set tries \<Longrightarrow> \<exists>s. control a = Some (BlockedTarget s)" for tries b t
    using that
  proof (induction tries)
    case Nil
    then show ?case by simp
  next
    case (Cons x tries)
    obtain a answer where x: "x = (a, answer)" by (cases x)
    obtain s where "control a = Some (BlockedTarget s)" using Cons.prems [of a] x by auto
    with x Cons.IH Cons.prems show ?case by simp
  qed
  obtain a answer rest where tries: "dg_tries dg = (a, answer) # rest"
    using assms(2) by (cases "dg_tries dg") auto
  obtain s where s: "control a = Some (BlockedTarget s)" using assms(3) [of a] tries by auto
  have "dial control dg = Inl (OpError (''dial tcp '' @ a) (BlockedTarget s))"
    using refuse [of rest] assms(1,3) tries s by (simp add: dial_def)
  from own_fault_unknown [OF this] show ?thesis by (simp add: own_fault_def)
qed

end

lemma undialled_failed: "out = failed e \<or> fst out = StatusUnknown \<Longrightarrow>
    fst out = StatusUnknown \<or> (\<exists>e'. fst out = fst (classify (Some e')) \<and> (own_fault e \<longrightarrow> own_fault e'))"
  by (auto simp: failed_status)

interpretation tcp: executor "\<lambda>control dg. probe_tcp control dg latency" for latency
  by unfold_locales (rule undialled_failed, simp add: probe_tcp_def)

interpretation banner: executor "\<lambda>control dg. probe_banner control c dg deadline stream latency"
    for c deadline stream latency
  by unfold_locales (rule undialled_failed, simp add: probe_banner_def)

interpretation tcp_request: executor "\<lambda>control dg. probe_request control c dg s" for c s
  by unfold_locales (rule undialled_failed, simp add: probe_request_def)

interpretation ntp: executor "\<lambda>control dg. probe_ntp now deadline sent reply latency control dg"
    for now deadline sent reply latency
  by unfold_locales (rule undialled_failed, simp add: probe_ntp_def)

interpretation tls: executor "probe_tls c t" for c t
  by unfold_locales (rule undialled_failed, simp add: probe_tls_def split: option.splits)

interpretation smtp: executor "probe_smtp c s" for c s
  by unfold_locales (rule undialled_failed, simp add: probe_smtp_def split: option.splits)

interpretation grpc: executor "probe_grpc c g" for c g
  by unfold_locales (rule undialled_failed, simp add: probe_grpc_def split: option.splits)

interpretation dns_server: executor "probe_server c s" for c s
  by unfold_locales (rule undialled_failed, simp add: probe_server_def exchange_dns_def Let_def split: option.splits)

lemma http_direct_undialled:
  assumes "dial control dg = Inl e" "c_proxy_profile c = []"
  shows "fst (probe_http_direct profiles request phases c h control dg) = StatusUnknown \<or>
    fst (probe_http_direct profiles request phases c h control dg) = fst (classify (Some (Wrapped request e)))"
  using assms by (auto simp: probe_http_direct_def http_connect_def probe_http_def Let_def split: option.splits prod.splits)

interpretation http: executor "probe_http_direct profiles request phases (c\<lparr>c_proxy_profile := []\<rparr>) h"
    for profiles request phases c h
proof
  fix control dg e
  assume "dial control dg = Inl e"
  from http_direct_undialled [OF this, of "c\<lparr>c_proxy_profile := []\<rparr>" profiles request phases h]
  show "fst (probe_http_direct profiles request phases (c\<lparr>c_proxy_profile := []\<rparr>) h control dg) = StatusUnknown \<or>
      (\<exists>e'. fst (probe_http_direct profiles request phases (c\<lparr>c_proxy_profile := []\<rparr>) h control dg) = fst (classify (Some e')) \<and>
        (own_fault e \<longrightarrow> own_fault e'))"
    using own_fault_wrapped by auto
qed

text \<open>Where nothing is dialled: the addresses a name resolved to.\<close>

lemma dns_refused:
  assumes "x \<in> set xs" "wanted_family record x" "guard (unmap_addr x) \<noteq> None"
  shows "\<exists>r. dns_values guard show_addr record (AddrAnswer xs) = Inl r"
proof -
  have "\<exists>r. dns_addrs guard show_addr record xs = Inl r"
    using assms(1) by (induction xs) (use assms(2,3) in \<open>auto split: option.splits\<close>)
  then show ?thesis by simp
qed

lemma select_refused: "\<forall>x \<in> set xs. allows p v (unmap_addr x) \<noteq> None \<Longrightarrow> select_addr p v xs = None"
  by (auto simp: select_addr_def find_None_iff)

section \<open>Building the result\<close>

definition latency_checked :: "check \<Rightarrow> outcome \<Rightarrow> outcome" where
  "latency_checked c out =
     (case out of (s, latency, d) \<Rightarrow>
        if s = StatusUp \<and> c_latency_warning c > 0 \<and> latency > c_latency_warning c
        then (StatusWarning, latency, LatencyExceeds d latency (c_latency_warning c)) else out)"

text \<open>\<open>Run\<close>: \<open>speaks\<close> is the executor's kind, \<open>err_name\<close> the text of a validation error.\<close>

definition run_probe :: "(detail \<Rightarrow> string) \<Rightarrow> (check_error \<Rightarrow> string) \<Rightarrow> time \<Rightarrow> kind \<Rightarrow> outcome \<Rightarrow> check \<Rightarrow>
    string \<Rightarrow> string \<Rightarrow> result" where
  "run_probe render err_name now speaks out c prober provider =
     (let r = \<lparr>r_check = c_name c, r_prober = prober, r_vantage = c_vantage c, r_status = StatusOther [],
            r_at = now, r_latency = 0, r_detail = [], r_provider = provider, r_proxy_profile = [],
            r_egress = []\<rparr> in
      case check_validate c of
        Some e \<Rightarrow> r\<lparr>r_status := StatusUnknown, r_detail := render (InvalidCheckText (err_name e))\<rparr>
      | None \<Rightarrow>
          if speaks \<noteq> c_kind c then r\<lparr>r_status := StatusUnknown, r_detail := render (WrongKind speaks (c_kind c))\<rparr>
          else (case latency_checked c out of (s, latency, d) \<Rightarrow>
            r\<lparr>r_status := s, r_latency := latency, r_detail := render d\<rparr>))"

lemma run_probe_identity:
  "r_check (run_probe render err_name now speaks out c prober provider) = c_name c \<and>
   r_prober (run_probe render err_name now speaks out c prober provider) = prober \<and>
   r_provider (run_probe render err_name now speaks out c prober provider) = provider \<and>
   r_vantage (run_probe render err_name now speaks out c prober provider) = c_vantage c \<and>
   r_at (run_probe render err_name now speaks out c prober provider) = now"
  by (simp add: run_probe_def Let_def split: option.splits prod.splits)

lemma run_probe_status:
  "r_status (run_probe render err_name now speaks out c prober provider) =
     (if check_validate c \<noteq> None \<or> speaks \<noteq> c_kind c then StatusUnknown
      else if fst out = StatusUp \<and> 0 < c_latency_warning c \<and> c_latency_warning c < fst (snd out)
      then StatusWarning else fst out)"
  by (auto simp: run_probe_def latency_checked_def Let_def split: option.splits prod.splits)

section \<open>What an answer is taken for\<close>

lemma ntp_up:
  "fst (ntp_answer now datagram) = StatusUp \<longleftrightarrow>
   48 \<le> length datagram \<and> byte_at datagram 0 mod 8 \<in> {4, 5} \<and>
   1 \<le> byte_at datagram 1 \<and> byte_at datagram 1 < 16 \<and> take 8 (drop 24 datagram) = ntp_timestamp now"
proof -
  have q: "take 8 (drop 40 (ntp_request now)) = ntp_timestamp now"
    by (simp add: ntp_request_def ntp_timestamp_def be32_def Let_def)
  have "take 8 (drop 24 (take 512 datagram)) = take 8 (drop 24 datagram)" by (simp add: drop_take min_def)
  moreover have "byte_at (take 512 datagram) 0 = byte_at datagram 0" "byte_at (take 512 datagram) 1 = byte_at datagram 1"
    by (simp_all add: byte_at_def)
  ultimately show ?thesis by (auto simp: ntp_answer_def q Let_def min_def)
qed

lemma http_up:
  assumes "probe_http profiles c h = (s, latency, d)" "s = StatusUp"
  shows "\<exists>code text body. hs_answer h = Responded code text body \<and> status_acceptable code (c_expect_status c) \<and>
    (c_expect_body c \<noteq> [] \<longrightarrow> contains_text (take max_body_read (fst body)) (c_expect_body c))"
  using assms
  by (auto simp: probe_http_def read_limited_def Let_def classify_not_up
      split: option.splits http_answer.splits if_splits prod.splits)

lemma icmp_up:
  assumes "fst (await_echo reply seq latency packets final) = StatusUp"
  shows "\<exists>(pk, from) \<in> set packets. matches_echo pk reply seq"
  using assms
proof (induction reply seq latency packets final rule: await_echo.induct)
  case (1 reply seq latency final)
  then show ?case using classify_up [of "Some final"] by (simp add: failed_def split: prod.splits)
next
  case (2 reply seq latency pk "from" rest final)
  then show ?case by (auto split: if_splits)
qed

end
