(* ===== verification/Base64.thy ===== *)
theory Base64
  imports Prelude
begin

text \<open>
  \<open>encoding/base64\<close> as the program uses it: \<open>StdEncoding\<close> (padded, skipping line breaks when it
  decodes, not insisting on zero trailing bits) for keys in configuration files, \<open>RawURLEncoding\<close>
  (unpadded, only encoded) for request identifiers.
\<close>

definition std_alphabet :: string where
  "std_alphabet = ''ABCDEFGHIJKLMNOPQRSTUVWXYZabcdefghijklmnopqrstuvwxyz0123456789+/''"

definition url_alphabet :: string where
  "url_alphabet = ''ABCDEFGHIJKLMNOPQRSTUVWXYZabcdefghijklmnopqrstuvwxyz0123456789-_''"

fun index_of :: "'a list \<Rightarrow> 'a \<Rightarrow> nat option" where
  "index_of [] x = None"
| "index_of (y # ys) x = (if x = y then Some 0 else map_option Suc (index_of ys x))"

text \<open>The digits of one, two and three bytes.\<close>

definition digits1 :: "string \<Rightarrow> nat \<Rightarrow> string" where
  "digits1 al a = [al ! (a div 4), al ! (a mod 4 * 16)]"

definition digits2 :: "string \<Rightarrow> nat \<Rightarrow> nat \<Rightarrow> string" where
  "digits2 al a b = [al ! (a div 4), al ! (a mod 4 * 16 + b div 16), al ! (b mod 16 * 4)]"

definition digits3 :: "string \<Rightarrow> nat \<Rightarrow> nat \<Rightarrow> nat \<Rightarrow> string" where
  "digits3 al a b c = [al ! (a div 4), al ! (a mod 4 * 16 + b div 16),
     al ! (b mod 16 * 4 + c div 64), al ! (c mod 64)]"

fun b64_encode :: "string \<Rightarrow> bool \<Rightarrow> bytes \<Rightarrow> string" where
  "b64_encode al padded [] = []"
| "b64_encode al padded [a] = digits1 al (of_char a) @ (if padded then ''=='' else [])"
| "b64_encode al padded [a, b] = digits2 al (of_char a) (of_char b) @ (if padded then ''='' else [])"
| "b64_encode al padded (a # b # c # rs) =
     digits3 al (of_char a) (of_char b) (of_char c) @ b64_encode al padded rs"

text \<open>One quantum of four characters; padding is accepted in the last one only.\<close>

definition b64_quantum :: "string \<Rightarrow> bool \<Rightarrow> char \<Rightarrow> char \<Rightarrow> char \<Rightarrow> char \<Rightarrow> bytes option" where
  "b64_quantum al final p q r s =
     (case (index_of al p, index_of al q) of
        (Some x, Some y) \<Rightarrow>
          if r = CHR ''='' then
            (if s = CHR ''='' \<and> final then Some [byte (x * 4 + y div 16)] else None)
          else (case index_of al r of
             None \<Rightarrow> None
           | Some z \<Rightarrow>
               if s = CHR ''='' then
                 (if final then Some [byte (x * 4 + y div 16), byte (y mod 16 * 16 + z div 4)] else None)
               else map_option (\<lambda>v. [byte (x * 4 + y div 16), byte (y mod 16 * 16 + z div 4), byte (z mod 4 * 64 + v)])
                 (index_of al s))
      | _ \<Rightarrow> None)"

fun b64_quanta :: "string \<Rightarrow> string \<Rightarrow> bytes option" where
  "b64_quanta al [] = Some []"
| "b64_quanta al (p # q # r # s # rs) =
     (case b64_quantum al (rs = []) p q r s of
        None \<Rightarrow> None
      | Some bs \<Rightarrow> map_option (\<lambda>more. bs @ more) (b64_quanta al rs))"
| "b64_quanta al _ = None"

definition b64_decode :: "string \<Rightarrow> string \<Rightarrow> bytes option" where
  "b64_decode al s = b64_quanta al (filter (\<lambda>c. c \<noteq> CHR 0x0A \<and> c \<noteq> CHR 0x0D) s)"

section \<open>Decoding an encoding\<close>

lemma index_of_nth: "distinct xs \<Longrightarrow> n < length xs \<Longrightarrow> index_of xs (xs ! n) = Some n"
  by (induction xs arbitrary: n) (auto simp: nth_Cons split: nat.splits)

lemma std_alphabet_facts: "distinct std_alphabet" "length std_alphabet = 64" "CHR ''='' \<notin> set std_alphabet"
    "CHR 0x0A \<notin> set std_alphabet" "CHR 0x0D \<notin> set std_alphabet"
  by code_simp+

lemma url_alphabet_facts: "distinct url_alphabet" "length url_alphabet = 64"
  by code_simp+

lemma std_digit: "n < 64 \<Longrightarrow> index_of std_alphabet (std_alphabet ! n) = Some n"
  by (simp add: index_of_nth std_alphabet_facts)

lemma std_plain:
  assumes "n < 64"
  shows "std_alphabet ! n \<noteq> CHR ''=''" "std_alphabet ! n \<noteq> CHR 0x0A" "std_alphabet ! n \<noteq> CHR 0x0D"
proof -
  have "std_alphabet ! n \<in> set std_alphabet" using assms by (simp add: std_alphabet_facts(2))
  with std_alphabet_facts(3-5)
  show "std_alphabet ! n \<noteq> CHR ''=''" "std_alphabet ! n \<noteq> CHR 0x0A" "std_alphabet ! n \<noteq> CHR 0x0D"
    by (metis (no_types))+
qed

lemma char_lt: "(of_char c :: nat) < 256"
  by (metis of_char_of nat_of_char_less_256)

lemma byte_of_char [simp]: "byte (of_char c) = c"
  by (simp add: byte_def)

lemma div_small:
  fixes a :: nat
  assumes "a < 256"
  shows "a div 4 < 64" "a div 16 < 16" "a div 64 < 4"
  using assms by (simp_all add: less_mult_imp_div_less)

lemma sextet_lt:
  fixes a b c :: nat
  assumes "a < 256" "b < 256" "c < 256"
  shows "a div 4 < 64" "a mod 4 * 16 < 64" "a mod 4 * 16 + b div 16 < 64" "b mod 16 * 4 < 64"
    "b mod 16 * 4 + c div 64 < 64" "c mod 64 < 64"
proof -
  have low: "x * 16 + y < 64" if "x < 4" "y < 16" for x y :: nat using that by linarith
  have high: "x * 4 + y < 64" if "x < 16" "y < 4" for x y :: nat using that by linarith
  show "a div 4 < 64" "c mod 64 < 64" using div_small [OF assms(1)] by simp_all
  show "a mod 4 * 16 < 64" using low [of "a mod 4" 0] by simp
  show "a mod 4 * 16 + b div 16 < 64" by (rule low) (simp_all add: div_small [OF assms(2)])
  show "b mod 16 * 4 < 64" using high [of "b mod 16" 0] by simp
  show "b mod 16 * 4 + c div 64 < 64" by (rule high) (simp_all add: div_small [OF assms(3)])
qed

lemma sextet_back:
  fixes a :: nat
  assumes "a < 256"
  shows "a div 16 div 16 = 0" "a div 64 div 4 = 0" "a div 16 mod 16 = a div 16" "a div 64 mod 4 = a div 64"
  using div_small [OF assms] by simp_all

lemmas sextets = sextet_lt [OF char_lt char_lt char_lt] sextet_back [OF char_lt]

lemma quanta_encode: "b64_quanta std_alphabet (b64_encode std_alphabet True bs) = Some bs"
  by (induction std_alphabet True bs rule: b64_encode.induct)
    (simp_all add: digits1_def digits2_def digits3_def b64_quantum_def std_digit std_plain sextets)

lemma encode_no_breaks:
  "filter (\<lambda>c. c \<noteq> CHR 0x0A \<and> c \<noteq> CHR 0x0D) (b64_encode std_alphabet True bs) = b64_encode std_alphabet True bs"
  by (induction std_alphabet True bs rule: b64_encode.induct)
    (simp_all add: digits1_def digits2_def digits3_def std_plain sextets)

lemma decode_encode: "b64_decode std_alphabet (b64_encode std_alphabet True bs) = Some bs"
  by (simp add: b64_decode_def encode_no_breaks quanta_encode)

text \<open>The unpadded encoding loses nothing either.\<close>

lemma nth_inj: "distinct al \<Longrightarrow> length al = 64 \<Longrightarrow> m < 64 \<Longrightarrow> n < 64 \<Longrightarrow> al ! m = al ! n \<longleftrightarrow> m = n"
  by (simp add: nth_eq_iff_index_eq)

lemma length_b64_raw: "length (b64_encode al False bs) = (length bs * 4 + 2) div 3"
  by (induction al False bs rule: b64_encode.induct) (simp_all add: digits1_def digits2_def digits3_def)

end
