(* ===== verification/Wire.thy ===== *)
theory Wire
  imports Check Mesh Base64
begin

text \<open>
  The signed protocol between the coordinator, its probers and its watcher
  (\<open>internal/wire/wire.go\<close>): envelopes, the five kinds of signed message with the checks each
  passes when it is opened, in the code's order, and the textual form of keys. \<open>crypto/ed25519\<close> is
  the parameter \<open>crypto\<close> and \<open>encoding/json\<close> the parameter \<open>codec\<close>; what a theorem needs of them it
  names. The header states what is relied on: a signature made with a key verifies under its public
  key, and nothing verifies that was never signed.
\<close>

section \<open>Messages\<close>

datatype domain = DomainResult | DomainRequest | DomainDoc | DomainMesh | DomainHeartbeat

fun domain_bytes :: "domain \<Rightarrow> bytes" where
  "domain_bytes DomainResult = ''parallaxd/result/v1'' @ [CHR 0x00]"
| "domain_bytes DomainRequest = ''parallaxd/request/v1'' @ [CHR 0x00]"
| "domain_bytes DomainDoc = ''parallaxd/document/v1'' @ [CHR 0x00]"
| "domain_bytes DomainMesh = ''parallaxd/mesh/v1'' @ [CHR 0x00]"
| "domain_bytes DomainHeartbeat = ''parallaxd/heartbeat/v1'' @ [CHR 0x00]"

definition max_clock_skew :: duration where "max_clock_skew = 2 * minute"

definition max_payload_bytes :: int where "max_payload_bytes = 65536"

record envelope =
  ev_peer :: string
  ev_payload :: bytes
  ev_signature :: bytes

record published =
  pd_audience :: string
  pd_kind :: string
  pd_issued_at :: time
  pd_data :: bytes

record request =
  rq_id :: string
  rq_prober :: string
  rq_check :: check
  rq_issued_at :: time
  rq_expires_at :: time

record result_payload =
  rp_result :: result
  rp_request_id :: string

record heartbeat =
  hb_coordinator :: string
  hb_at :: time
  hb_checks :: int
  hb_probers :: int
  hb_stale :: int

datatype wire_error =
    ErrPayloadTooLarge | ErrUnknownPeer string | ErrBadSignature string | ErrDecode | ErrIdentity
  | ErrExpired | ErrFromTheFuture | ErrEncode | PeerNameRequired | PublicKeySize nat | PrivateKeySize nat
  | NoProberName | CoordinatorRequired | NoRequestID | NoExpiry | NoIntendedProber
  | ExpiryNotAfterIssue | InvalidCheck check_error | NoCoordinatorName | NoTimestamp
  | PublisherRequired | BadBase64

text \<open>What the code calls of \<open>crypto/ed25519\<close> and \<open>encoding/json\<close>.\<close>

record crypto =
  cr_sign :: "bytes \<Rightarrow> bytes \<Rightarrow> bytes"
  cr_verify :: "bytes \<Rightarrow> bytes \<Rightarrow> bytes \<Rightarrow> bool"

record 'm codec =
  cd_encode :: "'m \<Rightarrow> bytes option"
  cd_decode :: "bytes \<Rightarrow> 'm option"

definition public_key_size :: nat where "public_key_size = 32"
definition private_key_size :: nat where "private_key_size = 64"

section \<open>The keyring\<close>

type_synonym keyring = "(string \<times> bytes) list"

definition keyring_add :: "keyring \<Rightarrow> string \<Rightarrow> bytes \<Rightarrow> wire_error + keyring" where
  "keyring_add k peer pub =
     (if peer = [] then Inl PeerNameRequired
      else if length pub \<noteq> public_key_size then Inl (PublicKeySize (length pub))
      else Inr (AList.update peer pub k))"

definition keyring_peers :: "keyring \<Rightarrow> string list" where
  "keyring_peers k = map fst k"

definition signed_bytes :: "domain \<Rightarrow> bytes \<Rightarrow> bytes" where
  "signed_bytes d payload = domain_bytes d @ payload"

definition ring_verify :: "crypto \<Rightarrow> keyring \<Rightarrow> domain \<Rightarrow> envelope \<Rightarrow> wire_error option" where
  "ring_verify cr k d e =
     (if int (length (ev_payload e)) > max_payload_bytes then Some ErrPayloadTooLarge
      else case map_of k (ev_peer e) of
        None \<Rightarrow> Some (ErrUnknownPeer (ev_peer e))
      | Some pub \<Rightarrow>
          if \<not> cr_verify cr pub (signed_bytes d (ev_payload e)) (ev_signature e)
          then Some (ErrBadSignature (ev_peer e)) else None)"

definition seal :: "crypto \<Rightarrow> 'm codec \<Rightarrow> bytes \<Rightarrow> domain \<Rightarrow> string \<Rightarrow> 'm \<Rightarrow> wire_error + envelope" where
  "seal cr cd priv d peer v =
     (if length priv \<noteq> private_key_size then Inl (PrivateKeySize (length priv))
      else case cd_encode cd v of
        None \<Rightarrow> Inl ErrEncode
      | Some payload \<Rightarrow> Inr \<lparr>ev_peer = peer, ev_payload = payload,
          ev_signature = cr_sign cr priv (signed_bytes d payload)\<rparr>)"

text \<open>Every \<open>Open\<close> starts with \<open>verify\<close> and then decodes the payload.\<close>

definition unseal :: "crypto \<Rightarrow> 'm codec \<Rightarrow> keyring \<Rightarrow> domain \<Rightarrow> envelope \<Rightarrow> wire_error + 'm" where
  "unseal cr cd k d e =
     (case ring_verify cr k d e of
        Some err \<Rightarrow> Inl err
      | None \<Rightarrow> (case cd_decode cd (ev_payload e) of None \<Rightarrow> Inl ErrDecode | Some m \<Rightarrow> Inr m))"

section \<open>Signing and opening\<close>

definition sign_result :: "crypto \<Rightarrow> result_payload codec \<Rightarrow> bytes \<Rightarrow> result_payload \<Rightarrow> wire_error + envelope" where
  "sign_result cr cd priv p =
     (if r_prober (rp_result p) = [] then Inl NoProberName
      else seal cr cd priv DomainResult (r_prober (rp_result p)) p)"

definition open_result :: "crypto \<Rightarrow> result_payload codec \<Rightarrow> keyring \<Rightarrow> envelope \<Rightarrow> time \<Rightarrow>
    wire_error + result_payload" where
  "open_result cr cd k e now =
     (case unseal cr cd k DomainResult e of
        Inl err \<Rightarrow> Inl err
      | Inr p \<Rightarrow>
          if r_prober (rp_result p) \<noteq> ev_peer e then Inl ErrIdentity
          else if \<not> is_zero now \<and> r_at (rp_result p) > now + max_clock_skew then Inl ErrFromTheFuture
          else Inr p)"

definition sign_request :: "crypto \<Rightarrow> request codec \<Rightarrow> bytes \<Rightarrow> string \<Rightarrow> request \<Rightarrow> wire_error + envelope" where
  "sign_request cr cd priv coordinator r =
     (if coordinator = [] then Inl CoordinatorRequired
      else if rq_id r = [] then Inl NoRequestID
      else if is_zero (rq_expires_at r) then Inl NoExpiry
      else if rq_prober r = [] then Inl NoIntendedProber
      else seal cr cd priv DomainRequest coordinator r)"

definition open_request :: "crypto \<Rightarrow> request codec \<Rightarrow> keyring \<Rightarrow> envelope \<Rightarrow> time \<Rightarrow> wire_error + request" where
  "open_request cr cd k e now =
     (case unseal cr cd k DomainRequest e of
        Inl err \<Rightarrow> Inl err
      | Inr r \<Rightarrow>
          if \<not> is_zero now \<and> now > rq_expires_at r then Inl ErrExpired
          else if rq_prober r = [] then Inl NoIntendedProber
          else if \<not> is_zero now \<and> rq_issued_at r > now + max_clock_skew then Inl ErrFromTheFuture
          else if is_zero (rq_issued_at r) \<or> \<not> rq_expires_at r > rq_issued_at r then Inl ExpiryNotAfterIssue
          else case check_validate (rq_check r) of
            Some err \<Rightarrow> Inl (InvalidCheck err)
          | None \<Rightarrow> Inr r)"

definition sign_mesh_report :: "crypto \<Rightarrow> report codec \<Rightarrow> bytes \<Rightarrow> report \<Rightarrow> wire_error + envelope" where
  "sign_mesh_report cr cd priv r =
     (if rep_prober r = [] then Inl NoProberName
      else seal cr cd priv DomainMesh (rep_prober r) r)"

definition open_mesh_report :: "crypto \<Rightarrow> report codec \<Rightarrow> keyring \<Rightarrow> envelope \<Rightarrow> time \<Rightarrow> wire_error + report" where
  "open_mesh_report cr cd k e now =
     (case unseal cr cd k DomainMesh e of
        Inl err \<Rightarrow> Inl err
      | Inr r \<Rightarrow>
          if rep_prober r \<noteq> ev_peer e then Inl ErrIdentity
          else if \<not> is_zero now \<and> rep_at r > now + max_clock_skew then Inl ErrFromTheFuture
          else Inr r)"

definition sign_heartbeat :: "crypto \<Rightarrow> heartbeat codec \<Rightarrow> bytes \<Rightarrow> heartbeat \<Rightarrow> wire_error + envelope" where
  "sign_heartbeat cr cd priv h =
     (if hb_coordinator h = [] then Inl NoCoordinatorName
      else if is_zero (hb_at h) then Inl NoTimestamp
      else seal cr cd priv DomainHeartbeat (hb_coordinator h) h)"

definition open_heartbeat :: "crypto \<Rightarrow> heartbeat codec \<Rightarrow> keyring \<Rightarrow> envelope \<Rightarrow> time \<Rightarrow> duration \<Rightarrow>
    wire_error + heartbeat" where
  "open_heartbeat cr cd k e now max_age =
     (case unseal cr cd k DomainHeartbeat e of
        Inl err \<Rightarrow> Inl err
      | Inr h \<Rightarrow>
          if hb_coordinator h \<noteq> ev_peer e then Inl ErrIdentity
          else if \<not> is_zero now \<and> hb_at h > now + max_clock_skew then Inl ErrFromTheFuture
          else if \<not> is_zero now \<and> max_age > 0 \<and> hb_at h < now - max_age then Inl ErrExpired
          else Inr h)"

definition sign_document :: "crypto \<Rightarrow> 'd codec \<Rightarrow> bytes \<Rightarrow> string \<Rightarrow> 'd \<Rightarrow> wire_error + envelope" where
  "sign_document cr cd priv publisher doc =
     (if publisher = [] then Inl PublisherRequired
      else seal cr cd priv DomainDoc publisher doc)"

definition open_document :: "crypto \<Rightarrow> keyring \<Rightarrow> envelope \<Rightarrow> wire_error + bytes" where
  "open_document cr k e =
     (case ring_verify cr k DomainDoc e of Some err \<Rightarrow> Inl err | None \<Rightarrow> Inr (ev_payload e))"

definition sign_published :: "crypto \<Rightarrow> published codec \<Rightarrow> 'd codec \<Rightarrow> bytes \<Rightarrow> string \<Rightarrow> string \<Rightarrow> string \<Rightarrow>
    time \<Rightarrow> 'd \<Rightarrow> wire_error + envelope" where
  "sign_published cr pcd dcd priv publisher audience kind now data =
     (case cd_encode dcd data of
        None \<Rightarrow> Inl ErrEncode
      | Some raw \<Rightarrow> sign_document cr pcd priv publisher
          \<lparr>pd_audience = audience, pd_kind = kind, pd_issued_at = now, pd_data = raw\<rparr>)"

definition open_published :: "crypto \<Rightarrow> published codec \<Rightarrow> keyring \<Rightarrow> envelope \<Rightarrow> string \<Rightarrow> string \<Rightarrow> string \<Rightarrow>
    time \<Rightarrow> wire_error + bytes" where
  "open_published cr pcd k e publisher audience kind now =
     (case open_document cr k e of
        Inl err \<Rightarrow> Inl err
      | Inr raw \<Rightarrow>
          if ev_peer e \<noteq> publisher then Inl ErrIdentity
          else case cd_decode pcd raw of
            None \<Rightarrow> Inl ErrDecode
          | Some doc \<Rightarrow>
              if pd_audience doc \<noteq> audience \<or> pd_kind doc \<noteq> kind then Inl ErrIdentity
              else if pd_issued_at doc > now + max_clock_skew then Inl ErrFromTheFuture
              else if pd_issued_at doc < now - 2 * minute then Inl ErrExpired
              else Inr (pd_data doc))"

section \<open>Identifiers and keys as text\<close>

text \<open>\<open>NewRequestID\<close> on the sixteen bytes the random source returned.\<close>

definition new_request_id :: "bytes option \<Rightarrow> string option" where
  "new_request_id entropy = map_option (b64_encode url_alphabet False) entropy"

definition encode_key :: "bytes \<Rightarrow> string" where
  "encode_key key = b64_encode std_alphabet True key"

definition decode_public_key :: "string \<Rightarrow> wire_error + bytes" where
  "decode_public_key s =
     (case b64_decode std_alphabet s of
        None \<Rightarrow> Inl BadBase64
      | Some raw \<Rightarrow> if length raw \<noteq> public_key_size then Inl (PublicKeySize (length raw)) else Inr raw)"

definition decode_private_key :: "string \<Rightarrow> wire_error + bytes" where
  "decode_private_key s =
     (case b64_decode std_alphabet s of
        None \<Rightarrow> Inl BadBase64
      | Some raw \<Rightarrow> if length raw \<noteq> private_key_size then Inl (PrivateKeySize (length raw)) else Inr raw)"

lemma key_text:
  "decode_public_key (encode_key k) = (if length k = public_key_size then Inr k else Inl (PublicKeySize (length k)))"
  "decode_private_key (encode_key k) = (if length k = private_key_size then Inr k else Inl (PrivateKeySize (length k)))"
  by (simp_all add: decode_public_key_def decode_private_key_def encode_key_def decode_encode)

text \<open>A key accepted from a configuration file is accepted by the keyring.\<close>

lemma decoded_key_fits:
  "decode_public_key s = Inr pub \<Longrightarrow> peer \<noteq> [] \<Longrightarrow> keyring_add k peer pub = Inr (AList.update peer pub k)"
  by (auto simp: decode_public_key_def keyring_add_def split: option.splits if_splits)

lemma keyring_add_lookup:
  "keyring_add k peer pub = Inr k' \<Longrightarrow> map_of k' = (map_of k)(peer \<mapsto> pub)"
  by (auto simp: keyring_add_def update_conv' split: if_splits)

section \<open>Domain separation\<close>

lemma domain_bytes_prefix_free: "domain_bytes d @ p = domain_bytes d' @ p' \<Longrightarrow> d = d' \<and> p = p'"
  by (cases d; cases d') simp_all

lemma signed_bytes_inj: "signed_bytes d p = signed_bytes d' p' \<longleftrightarrow> d = d' \<and> p = p'"
  using domain_bytes_prefix_free unfolding signed_bytes_def by blast

section \<open>What opening proves\<close>

text \<open>
  \<open>log\<close> is the set of things ever sealed: a public key, the kind of message and its payload. Nobody
  else can make a signature that verifies under a key of the ring.
\<close>

definition unforgeable :: "crypto \<Rightarrow> keyring \<Rightarrow> (bytes \<times> domain \<times> bytes) set \<Rightarrow> bool" where
  "unforgeable cr k log \<longleftrightarrow>
     (\<forall>pub msg sig. pub \<in> ran (map_of k) \<longrightarrow> cr_verify cr pub msg sig \<longrightarrow>
        (\<exists>(key, d, payload) \<in> log. key = pub \<and> msg = signed_bytes d payload))"

text \<open>The keys match: what \<open>priv\<close> signs verifies under \<open>pub\<close>.\<close>

definition key_pair :: "crypto \<Rightarrow> bytes \<Rightarrow> bytes \<Rightarrow> bool" where
  "key_pair cr priv pub \<longleftrightarrow> length priv = private_key_size \<and> (\<forall>msg. cr_verify cr pub msg (cr_sign cr priv msg))"

lemma ring_verify_None:
  "ring_verify cr k d e = None \<longleftrightarrow> int (length (ev_payload e)) \<le> max_payload_bytes \<and>
     (\<exists>pub. map_of k (ev_peer e) = Some pub \<and> cr_verify cr pub (signed_bytes d (ev_payload e)) (ev_signature e))"
  by (auto simp: ring_verify_def split: option.splits)

lemma unseal_Inr:
  "unseal cr cd k d e = Inr m \<longleftrightarrow> ring_verify cr k d e = None \<and> cd_decode cd (ev_payload e) = Some m"
  by (auto simp: unseal_def split: option.splits)

lemma verified_was_sealed:
  assumes "unforgeable cr k log" "ring_verify cr k d e = None"
  shows "\<exists>pub. map_of k (ev_peer e) = Some pub \<and> (pub, d, ev_payload e) \<in> log"
proof -
  obtain pub where pub: "map_of k (ev_peer e) = Some pub"
      "cr_verify cr pub (signed_bytes d (ev_payload e)) (ev_signature e)"
    using assms(2) by (auto simp: ring_verify_None)
  then have "pub \<in> ran (map_of k)" by (auto simp: ran_def)
  with assms(1) pub(2) obtain d' payload where "(pub, d', payload) \<in> log"
      "signed_bytes d (ev_payload e) = signed_bytes d' payload"
    unfolding unforgeable_def by fast
  with pub(1) show ?thesis by (auto simp: signed_bytes_inj)
qed

lemma seal_verifies:
  assumes "seal cr cd priv d peer v = Inr e" "map_of k peer = Some pub" "key_pair cr priv pub"
    and "int (length (ev_payload e)) \<le> max_payload_bytes"
  shows "ring_verify cr k d e = None"
  using assms by (auto simp: seal_def ring_verify_None key_pair_def split: option.splits if_splits)

lemma seal_fields:
  "seal cr cd priv d peer v = Inr e \<Longrightarrow> ev_peer e = peer \<and> cd_encode cd v = Some (ev_payload e)"
  by (auto simp: seal_def split: option.splits if_splits)

lemma seal_unseal:
  assumes "seal cr cd priv d peer v = Inr e" "map_of k peer = Some pub" "key_pair cr priv pub"
    and "int (length (ev_payload e)) \<le> max_payload_bytes" "cd_decode cd (ev_payload e) = Some v"
  shows "unseal cr cd k d e = Inr v"
  using seal_verifies [OF assms(1-4)] assms(5) by (simp add: unseal_Inr)

section \<open>The contract of a kind of message\<close>

text \<open>What every \<open>Open\<close> promises, and what follows from it for the messages it accepts.\<close>

locale channel =
  fixes accept :: "crypto \<Rightarrow> keyring \<Rightarrow> envelope \<Rightarrow> wire_error + 'm"
    and tag :: domain
    and reading :: "bytes \<Rightarrow> 'm option"
  assumes accepted: "accept cr k e = Inr m \<Longrightarrow>
      ring_verify cr k tag e = None \<and> reading (ev_payload e) = Some m"
begin

lemma authentic:
  assumes "accept cr k e = Inr m" "unforgeable cr k log"
  shows "\<exists>pub. map_of k (ev_peer e) = Some pub \<and> (pub, tag, ev_payload e) \<in> log \<and>
    reading (ev_payload e) = Some m"
  using accepted [OF assms(1)] verified_was_sealed [OF assms(2), of tag e] by blast

lemma unregistered_refused: "map_of k (ev_peer e) = None \<Longrightarrow> accept cr k e \<noteq> Inr m"
  using accepted [of cr k e m] by (auto simp: ring_verify_None)

lemma oversized_refused: "max_payload_bytes < int (length (ev_payload e)) \<Longrightarrow> accept cr k e \<noteq> Inr m"
  using accepted [of cr k e m] by (auto simp: ring_verify_None)

lemma other_kind_refused:
  assumes "unforgeable cr k log" "\<And>pub d payload. (pub, d, payload) \<in> log \<Longrightarrow> payload = ev_payload e \<Longrightarrow> d \<noteq> tag"
  shows "accept cr k e \<noteq> Inr m"
  using authentic [OF _ assms(1), of e m] assms(2) by blast

end

locale identified_channel = channel +
  fixes sender :: "'a \<Rightarrow> string"
  assumes named: "accept cr k e = Inr m \<Longrightarrow> sender m = ev_peer e"
begin

lemma sender_sealed:
  assumes "accept cr k e = Inr m" "unforgeable cr k log"
  shows "\<exists>pub. map_of k (sender m) = Some pub \<and> (pub, tag, ev_payload e) \<in> log \<and>
    reading (ev_payload e) = Some m"
  using authentic [OF assms] named [OF assms(1)] by simp

end

interpretation results: identified_channel "\<lambda>cr k e. open_result cr cd k e now" DomainResult "cd_decode cd"
    "\<lambda>p. r_prober (rp_result p)" for cd now
  by unfold_locales (auto simp: open_result_def unseal_Inr split: sum.splits if_splits)

interpretation mesh_reports: identified_channel "\<lambda>cr k e. open_mesh_report cr cd k e now" DomainMesh
    "cd_decode cd" rep_prober for cd now
  by unfold_locales (auto simp: open_mesh_report_def unseal_Inr split: sum.splits if_splits)

interpretation heartbeats: identified_channel "\<lambda>cr k e. open_heartbeat cr cd k e now max_age" DomainHeartbeat
    "cd_decode cd" hb_coordinator for cd now max_age
  by unfold_locales (auto simp: open_heartbeat_def unseal_Inr split: sum.splits if_splits)

interpretation requests: channel "\<lambda>cr k e. open_request cr cd k e now" DomainRequest "cd_decode cd" for cd now
  by unfold_locales (auto simp: open_request_def unseal_Inr split: sum.splits if_splits option.splits)

interpretation documents: channel "\<lambda>cr k e. open_published cr pcd k e publisher audience kind now" DomainDoc
    "\<lambda>raw. map_option pd_data (cd_decode pcd raw)" for pcd publisher audience kind now
  by unfold_locales
    (auto simp: open_published_def open_document_def split: sum.splits if_splits option.splits)

section \<open>Round trips\<close>

lemma result_round_trip:
  assumes "sign_result cr cd priv p = Inr e" "map_of k (r_prober (rp_result p)) = Some pub"
    "key_pair cr priv pub" "int (length (ev_payload e)) \<le> max_payload_bytes" "cd_decode cd (ev_payload e) = Some p"
    "r_at (rp_result p) \<le> now + max_clock_skew"
  shows "open_result cr cd k e now = Inr p"
proof -
  have s: "seal cr cd priv DomainResult (r_prober (rp_result p)) p = Inr e"
    using assms(1) by (simp add: sign_result_def split: if_splits)
  from seal_unseal [OF s assms(2-5)] seal_fields [OF s] assms(6) show ?thesis
    by (simp add: open_result_def)
qed

lemma request_round_trip:
  assumes "sign_request cr cd priv c r = Inr e" "map_of k c = Some pub" "key_pair cr priv pub"
    "int (length (ev_payload e)) \<le> max_payload_bytes" "cd_decode cd (ev_payload e) = Some r"
    "zero_time < rq_issued_at r" "rq_issued_at r < rq_expires_at r" "rq_issued_at r \<le> now + max_clock_skew"
    "now \<le> rq_expires_at r" "check_validate (rq_check r) = None"
  shows "open_request cr cd k e now = Inr r"
proof -
  have s: "seal cr cd priv DomainRequest c r = Inr e" and n: "rq_prober r \<noteq> []"
    using assms(1) by (simp_all add: sign_request_def split: if_splits)
  from seal_unseal [OF s assms(2-5)] seal_fields [OF s] n assms(6-10) show ?thesis
    by (simp add: open_request_def)
qed

lemma open_request_checks:
  "open_request cr cd k e now = Inr r \<Longrightarrow> is_zero now \<or> (now \<le> rq_expires_at r \<and> rq_issued_at r \<le> now + max_clock_skew)"
  "open_request cr cd k e now = Inr r \<Longrightarrow> rq_prober r \<noteq> [] \<and> rq_issued_at r < rq_expires_at r \<and>
     check_validate (rq_check r) = None"
  by (auto simp: open_request_def split: sum.splits if_splits option.splits)

lemma open_result_checks:
  "open_result cr cd k e now = Inr p \<Longrightarrow> is_zero now \<or> r_at (rp_result p) \<le> now + max_clock_skew"
  by (auto simp: open_result_def split: sum.splits if_splits)

lemma open_published_checks:
  "open_published cr pcd k e publisher audience kind now = Inr raw \<Longrightarrow>
   ev_peer e = publisher \<and> (\<exists>doc. cd_decode pcd (ev_payload e) = Some doc \<and> pd_audience doc = audience \<and>
     pd_kind doc = kind \<and> now - 2 * minute \<le> pd_issued_at doc \<and> pd_issued_at doc \<le> now + max_clock_skew \<and>
     raw = pd_data doc)"
  by (auto simp: open_published_def open_document_def split: sum.splits if_splits option.splits)

end
