(* ===== verification/Prober.thy ===== *)
theory Prober
  imports Protocols Wire
begin

text \<open>
  The prober (\<open>internal/prober\<close>): it answers signed requests (\<open>prober.go\<close>), keeps its schedules in
  step with the coordinator's assignments (\<open>assignments.go\<close>) and reports which peers it can reach
  (\<open>mesh.go\<close>). What an executor found is the parameter \<open>execute\<close>, whether a probe slot was free before
  the caller gave up is \<open>slot\<close>. Handlers return what they did as well as what they answered: \<open>Some c\<close>
  as the probe made is the only network traffic a request causes.
\<close>

section \<open>Configuration\<close>

text \<open>What \<open>url.Parse\<close> returns of a proxy's URL.\<close>

record url =
  u_scheme :: string
  u_host :: string
  u_hostname :: string
  u_has_user :: bool
  u_query :: string
  u_force_query :: bool
  u_fragment :: string
  u_path :: string
  u_port :: string

record proxy_profile =
  px_url :: string
  px_egress :: string
  px_credentials_file :: string
  px_ca_file :: string

datatype prober_error = ProfileNames | ProxyURL | ProxyPort | CredentialsNotAbsolute | ProxyCAFile
  | ProberNameRequired | SigningKeySize nat | KeyringRequired | ProberNeedsCoordinator
  | RunCancelled | SignFailed wire_error

definition default_port :: "string \<Rightarrow> string" where
  "default_port scheme = (if scheme = ''http'' then ''80'' else if scheme = ''https'' then ''443''
     else if scheme = ''socks5'' then ''1080'' else [])"

text \<open>\<open>atoi\<close> stands for \<open>strconv.Atoi\<close>. The result is the host and port to connect to.\<close>

definition proxy_endpoint :: "(string \<Rightarrow> url option) \<Rightarrow> (string \<Rightarrow> int option) \<Rightarrow> proxy_profile \<Rightarrow>
    prober_error + string \<times> string" where
  "proxy_endpoint parse_url atoi p =
     (case parse_url (px_url p) of
        None \<Rightarrow> Inl ProxyURL
      | Some u \<Rightarrow>
          if u_hostname u = [] \<or> u_has_user u \<or> u_query u \<noteq> [] \<or> u_force_query u \<or> u_fragment u \<noteq> [] \<or>
             (u_path u \<noteq> [] \<and> u_path u \<noteq> ''/'') \<or>
             (u_scheme u \<noteq> ''http'' \<and> u_scheme u \<noteq> ''https'' \<and> u_scheme u \<noteq> ''socks5'')
          then Inl ProxyURL
          else
            (let port = (if u_port u = [] then default_port (u_scheme u) else u_port u) in
             case atoi port of
               None \<Rightarrow> Inl ProxyPort
             | Some n \<Rightarrow> if n < 1 \<or> n > 65535 then Inl ProxyPort else Inr (u_hostname u, port)))"

fun validate_proxy_profiles :: "(string \<Rightarrow> url option) \<Rightarrow> (string \<Rightarrow> int option) \<Rightarrow>
    (string \<times> proxy_profile) list \<Rightarrow> prober_error option" where
  "validate_proxy_profiles parse_url atoi [] = None"
| "validate_proxy_profiles parse_url atoi ((name, p) # ps) =
     (if \<not> valid_route_id name \<or> \<not> valid_route_id (px_egress p) then Some ProfileNames
      else case proxy_endpoint parse_url atoi p of
        Inl e \<Rightarrow> Some e
      | Inr _ \<Rightarrow>
          if px_credentials_file p \<noteq> [] \<and> \<not> is_abs (px_credentials_file p) then Some CredentialsNotAbsolute
          else if px_ca_file p \<noteq> [] \<and> (\<not> has_prefix (px_url p) ''https://'' \<or>
            \<not> (is_abs (px_ca_file p) \<and> has_prefix (clean_abs (px_ca_file p)) ca_root)) then Some ProxyCAFile
          else validate_proxy_profiles parse_url atoi ps)"

record prober_config =
  pc_name :: string
  pc_coordinator :: string
  pc_provider :: string
  pc_key :: bytes
  pc_ring :: "keyring option"
  pc_profiles :: "(string \<times> proxy_profile) list"
  pc_max_concurrent :: int

definition default_max_concurrent :: int where "default_max_concurrent = 32"

definition new_prober :: "(string \<Rightarrow> url option) \<Rightarrow> (string \<Rightarrow> int option) \<Rightarrow> prober_config \<Rightarrow>
    prober_error + prober_config" where
  "new_prober parse_url atoi cfg =
     (case validate_proxy_profiles parse_url atoi (pc_profiles cfg) of
        Some e \<Rightarrow> Inl e
      | None \<Rightarrow>
          if pc_name cfg = [] then Inl ProberNameRequired
          else if length (pc_key cfg) \<noteq> private_key_size then Inl (SigningKeySize (length (pc_key cfg)))
          else if pc_ring cfg = None then Inl KeyringRequired
          else if pc_coordinator cfg = [] then Inl ProberNeedsCoordinator
          else Inr (cfg\<lparr>pc_max_concurrent :=
            (if pc_max_concurrent cfg \<le> 0 then default_max_concurrent else pc_max_concurrent cfg)\<rparr>))"

section \<open>Running a check\<close>

definition sign_run :: "crypto \<Rightarrow> result_payload codec \<Rightarrow> prober_config \<Rightarrow> result \<Rightarrow> string \<Rightarrow> prober_error + envelope"
where
  "sign_run cr cd cfg r rid =
     (case sign_result cr cd (pc_key cfg) \<lparr>rp_result = r, rp_request_id = rid\<rparr> of
        Inl e \<Rightarrow> Inl (SignFailed e) | Inr env \<Rightarrow> Inr env)"

definition run_result :: "(detail \<Rightarrow> string) \<Rightarrow> (check_error \<Rightarrow> string) \<Rightarrow> prober_config \<Rightarrow> time \<Rightarrow> outcome \<Rightarrow>
    check \<Rightarrow> result" where
  "run_result render err_name cfg now out c =
     (let r = (run_probe render err_name now (c_kind c) out c (pc_name cfg) (pc_provider cfg))
            \<lparr>r_proxy_profile := c_proxy_profile c\<rparr>
      in if c_proxy_profile c \<noteq> [] then r\<lparr>r_egress :=
           (case map_of (pc_profiles cfg) (c_proxy_profile c) of None \<Rightarrow> [] | Some p \<Rightarrow> px_egress p)\<rparr> else r)"

definition prober_run :: "crypto \<Rightarrow> result_payload codec \<Rightarrow> (detail \<Rightarrow> string) \<Rightarrow> (check_error \<Rightarrow> string) \<Rightarrow>
    prober_config \<Rightarrow> time \<Rightarrow> bool \<Rightarrow> (check \<Rightarrow> outcome) \<Rightarrow> check \<Rightarrow> string \<Rightarrow> prober_error + envelope" where
  "prober_run cr cd render err_name cfg now slot execute c rid =
     (if \<not> known_kind (c_kind c) then
        sign_run cr cd cfg \<lparr>r_check = c_name c, r_prober = pc_name cfg, r_vantage = c_vantage c,
          r_status = StatusUnknown, r_at = now, r_latency = 0, r_detail = render (CannotRun (c_kind c)),
          r_provider = pc_provider cfg, r_proxy_profile = [], r_egress = []\<rparr> rid
      else if \<not> slot then Inl RunCancelled
      else sign_run cr cd cfg (run_result render err_name cfg now (execute c) c) rid)"

section \<open>Requests\<close>

type_synonym seen_requests = "(string \<times> time) list"

definition accept_request :: "time \<Rightarrow> string \<Rightarrow> time \<Rightarrow> seen_requests \<Rightarrow> seen_requests \<times> bool" where
  "accept_request now rid expires seen =
     (let seen = filter (\<lambda>(_, until_t). \<not> now > until_t) seen in
      if rid \<in> fst ` set seen then (seen, False) else (AList.update rid expires seen, True))"

datatype probe_response = ProbeMalformed | ProbeRejected wire_error | ProbeForAnother | ProbeReplayed
  | ProbeFailed | ProbeAnswered envelope

text \<open>The handler reads the clock twice: \<open>opened\<close> when it checks the request, \<open>taken\<close> under the mutex of
  \<open>acceptRequest\<close>. In between other requests may be accepted.\<close>

definition handle_probe :: "crypto \<Rightarrow> request codec \<Rightarrow> prober_config \<Rightarrow> time \<Rightarrow> time \<Rightarrow>
    (check \<Rightarrow> string \<Rightarrow> prober_error + envelope) \<Rightarrow> envelope option \<Rightarrow> seen_requests \<Rightarrow>
    seen_requests \<times> probe_response \<times> request option" where
  "handle_probe cr cd cfg opened taken run body seen =
     (case body of
        None \<Rightarrow> (seen, ProbeMalformed, None)
      | Some env \<Rightarrow>
     (case open_request cr cd (case pc_ring cfg of None \<Rightarrow> [] | Some k \<Rightarrow> k) env opened of
        Inl e \<Rightarrow> (seen, ProbeRejected e, None)
      | Inr req \<Rightarrow>
          if rq_prober req \<noteq> pc_name cfg then (seen, ProbeForAnother, None)
          else
            (let (seen, fresh) = accept_request taken (rq_id req) (rq_expires_at req) seen in
             if \<not> fresh then (seen, ProbeReplayed, None)
             else (seen, (case run (rq_check req) (rq_id req) of
                 Inl _ \<Rightarrow> ProbeFailed | Inr env \<Rightarrow> ProbeAnswered env), Some req))))"

text \<open>
  The probes a sequence of requests makes, with the reading of the clock under the mutex. Only
  \<open>acceptRequest\<close> touches what the handlers share, so however they overlap, what they do is settled by the
  order in which they get the mutex: that is the order of the list.
\<close>

fun probes_made :: "crypto \<Rightarrow> request codec \<Rightarrow> prober_config \<Rightarrow> (check \<Rightarrow> string \<Rightarrow> prober_error + envelope) \<Rightarrow>
    seen_requests \<Rightarrow> (time \<times> time \<times> envelope option) list \<Rightarrow> (request \<times> time) list" where
  "probes_made cr cd cfg run seen [] = []"
| "probes_made cr cd cfg run seen ((opened, taken, body) # rest) =
     (let (seen, _, made) = handle_probe cr cd cfg opened taken run body seen in
      (case made of None \<Rightarrow> [] | Some r \<Rightarrow> [(r, taken)]) @ probes_made cr cd cfg run seen rest)"

section \<open>Assignments\<close>

datatype assignment_error = AssignmentsRejected wire_error | AssignmentsUnreadable | AssignmentsInvalid check_error

fun first_invalid :: "check list \<Rightarrow> check_error option" where
  "first_invalid [] = None"
| "first_invalid (c # cs) = (case check_validate c of Some e \<Rightarrow> Some e | None \<Rightarrow> first_invalid cs)"

text \<open>\<open>fetchAssignments\<close> from the moment the envelope has been decoded.\<close>

definition open_assignments :: "crypto \<Rightarrow> published codec \<Rightarrow> (bytes \<Rightarrow> check list option) \<Rightarrow> prober_config \<Rightarrow>
    time \<Rightarrow> envelope \<Rightarrow> assignment_error + check list" where
  "open_assignments cr pcd decode_checks cfg now env =
     (case open_published cr pcd (case pc_ring cfg of None \<Rightarrow> [] | Some k \<Rightarrow> k) env (pc_coordinator cfg)
         (pc_name cfg) ''assignments'' now of
        Inl e \<Rightarrow> Inl (AssignmentsRejected e)
      | Inr raw \<Rightarrow>
     (case decode_checks raw of
        None \<Rightarrow> Inl AssignmentsUnreadable
      | Some checks \<Rightarrow>
     (case first_invalid checks of
        Some e \<Rightarrow> Inl (AssignmentsInvalid e)
      | None \<Rightarrow> Inr checks)))"

type_synonym schedules = "(string \<times> check) list"

definition by_name :: "check list \<Rightarrow> schedules" where
  "by_name checks = foldl (\<lambda>m c. AList.update (c_name c) c m) [] checks"

text \<open>
  \<open>reconcile\<close>: the schedules that keep running, those cancelled, those started. \<open>same\<close> is the
  comparison by JSON text.
\<close>

definition reconcile :: "(check \<Rightarrow> check \<Rightarrow> bool) \<Rightarrow> schedules \<Rightarrow> check list \<Rightarrow>
    schedules \<times> schedules \<times> schedules" where
  "reconcile same running checks =
     (let target = by_name checks;
          stays = (\<lambda>(n, c). case map_of target n of None \<Rightarrow> False | Some c' \<Rightarrow> same c c');
          kept = filter stays running;
          started = filter (\<lambda>(n, _). n \<notin> fst ` set kept) target
      in (kept @ started, filter (\<lambda>x. \<not> stays x) running, started))"

section \<open>The mesh round\<close>

record mesh_peer =
  mp_name :: string
  mp_address :: string

text \<open>\<open>answer\<close> is what dialling an address gave: an error text, or the latency.\<close>

definition probe_peers :: "string \<Rightarrow> (string \<Rightarrow> string + duration) \<Rightarrow> mesh_peer list \<Rightarrow> peer_view list" where
  "probe_peers self answer peers =
     map (\<lambda>p. (case answer (mp_address p) of
           Inl e \<Rightarrow> \<lparr>pv_peer = mp_name p, pv_reachable = False, pv_detail = e, pv_latency = 0\<rparr>
         | Inr l \<Rightarrow> \<lparr>pv_peer = mp_name p, pv_reachable = True, pv_detail = [], pv_latency = l\<rparr>))
       (filter (\<lambda>p. \<not> (mp_name p = self \<or> mp_address p = [])) peers)"

definition mesh_round :: "string \<Rightarrow> time \<Rightarrow> (string \<Rightarrow> string + duration) \<Rightarrow> mesh_peer list \<Rightarrow> report option" where
  "mesh_round self now answer peers =
     (if length peers = 0 then None
      else Some \<lparr>rep_prober = self, rep_at = now, rep_peers = sort_key pv_peer (probe_peers self answer peers)\<rparr>)"

section \<open>What a prober never does\<close>

text \<open>A probe is made only for a request that a registered key signed for this prober.\<close>

lemma probe_authorised:
  assumes "handle_probe cr cd cfg opened taken run body seen = (seen', resp, Some req)" "pc_ring cfg = Some k"
  shows "\<exists>env. body = Some env \<and> open_request cr cd k env opened = Inr req \<and> rq_prober req = pc_name cfg"
  using assms by (auto simp: handle_probe_def Let_def split: option.splits sum.splits if_splits prod.splits)

lemma no_probe_unless_made:
  "handle_probe cr cd cfg opened taken run body seen = (seen', ProbeAnswered env, made) \<Longrightarrow>
   \<exists>req. made = Some req \<and> run (rq_check req) (rq_id req) = Inr env"
  by (auto simp: handle_probe_def Let_def split: option.splits sum.splits if_splits prod.splits)

section \<open>Replays\<close>

lemma accepted_was_new:
  "accept_request now rid expires seen = (seen', True) \<Longrightarrow>
   (\<forall>t. map_of seen rid = Some t \<longrightarrow> distinct (map fst seen) \<longrightarrow> t < now) \<and> map_of seen' rid = Some expires"
  by (auto simp: accept_request_def Let_def update_conv' split: if_splits dest: map_of_SomeD)
    (force dest: map_of_SomeD)

lemma seen_distinct:
  "distinct (map fst seen) \<Longrightarrow> distinct (map fst (fst (accept_request now rid expires seen)))"
  by (auto simp: accept_request_def Let_def distinct_update distinct_map_filter)

lemma map_of_filter_keep:
  "distinct (map fst xs) \<Longrightarrow> map_of xs k = Some v \<Longrightarrow> P (k, v) \<Longrightarrow> map_of (filter P xs) k = Some v"
  by (induction xs) (auto simp: map_of_eq_None_iff image_iff split: if_splits)

text \<open>A request that was accepted stays known until it has expired.\<close>

definition used_up :: "seen_requests \<Rightarrow> time \<Rightarrow> string \<times> time \<Rightarrow> bool" where
  "used_up seen now req \<longleftrightarrow> map_of seen (fst req) = Some (snd req) \<or> snd req < now"

lemma accept_keeps_used:
  assumes "used_up seen t req" "t \<le> now" "distinct (map fst seen)"
    and "accept_request now rid expires seen = (seen', fresh)"
  shows "used_up seen' now req"
proof (cases "snd req < now")
  case True
  then show ?thesis by (simp add: used_up_def)
next
  case False
  with assms(1,2) have held: "map_of seen (fst req) = Some (snd req)" by (auto simp: used_up_def)
  define live where "live = filter (\<lambda>(_, until_t). \<not> now > until_t) seen"
  have kept: "map_of live (fst req) = Some (snd req)"
    unfolding live_def using map_of_filter_keep [OF assms(3) held, of "\<lambda>(_, until_t). \<not> now > until_t"] False
    by (cases req) simp
  then have known: "fst req \<in> fst ` set live" by (metis domI dom_map_of_conv_image_fst)
  have acc: "(if rid \<in> fst ` set live then (live, False) else (AList.update rid expires live, True)) = (seen', fresh)"
    using assms(4) unfolding accept_request_def live_def [symmetric] Let_def .
  show ?thesis
  proof (cases "rid \<in> fst ` set live")
    case True
    with acc kept show ?thesis by (simp add: used_up_def)
  next
    case new: False
    with known have "rid \<noteq> fst req" by blast
    with acc kept new show ?thesis by (auto simp: used_up_def update_conv')
  qed
qed

lemma accepted_not_used:
  assumes "used_up seen t req" "t \<le> now" "distinct (map fst seen)" "\<not> snd req < now"
    and "accept_request now rid expires seen = (seen', True)"
  shows "rid \<noteq> fst req"
proof
  assume "rid = fst req"
  moreover have "map_of seen (fst req) = Some (snd req)" using assms(1,2,4) by (auto simp: used_up_def)
  ultimately show False using accepted_was_new [OF assms(5)] assms(3,4) by auto
qed

lemma handle_probe_cases:
  assumes "handle_probe cr cd cfg opened taken run body seen = (seen', resp, made)"
  obtains (refused) "seen' = seen" "made = None"
  | (replayed) rid expires where "accept_request taken rid expires seen = (seen', False)" "made = None"
  | (made) req where "made = Some req" "accept_request taken (rq_id req) (rq_expires_at req) seen = (seen', True)"
      "is_zero opened \<or> opened \<le> rq_expires_at req"
proof (cases body)
  case None
  with assms refused show ?thesis by (simp add: handle_probe_def)
next
  case (Some env)
  show ?thesis
  proof (cases "open_request cr cd (case pc_ring cfg of None \<Rightarrow> [] | Some k \<Rightarrow> k) env opened")
    case (Inl e)
    with Some assms refused show ?thesis by (simp add: handle_probe_def)
  next
    case (Inr req)
    obtain s f where acc: "accept_request taken (rq_id req) (rq_expires_at req) seen = (s, f)"
      by (metis surj_pair)
    show ?thesis
    proof (cases "rq_prober req = pc_name cfg")
      case False
      with Some Inr assms refused show ?thesis by (simp add: handle_probe_def)
    next
      case True
      with Some Inr assms acc open_request_checks(1) [OF Inr] replayed made show ?thesis
        by (cases f) (auto simp: handle_probe_def)
    qed
  qed
qed

lemma handle_probe_keeps:
  assumes "handle_probe cr cd cfg opened taken run body seen = (seen', resp, made)" "distinct (map fst seen)"
  shows "distinct (map fst seen')"
  using assms(1)
proof (cases rule: handle_probe_cases)
  case refused
  with assms(2) show ?thesis by simp
next
  case (replayed rid expires)
  with seen_distinct [OF assms(2), of taken rid expires] show ?thesis by simp
next
  case (made r)
  with seen_distinct [OF assms(2), of taken "rq_id r" "rq_expires_at r"] show ?thesis by simp
qed

definition same_request :: "request \<Rightarrow> request \<Rightarrow> bool" where
  "same_request r r' \<longleftrightarrow> rq_id r = rq_id r' \<and> rq_expires_at r = rq_expires_at r'"

text \<open>What was used up runs again only if the mutex was entered after it had expired.\<close>

lemma probes_made_fresh:
  assumes "sorted (map (\<lambda>e. fst (snd e)) events)" "\<forall>e \<in> set events. t \<le> fst (snd e)"
    and "distinct (map fst seen)" "used_up seen t (rq_id r, rq_expires_at r)"
    and "(r', taken') \<in> set (probes_made cr cd cfg run seen events)" "same_request r r'"
  shows "rq_expires_at r < taken'"
  using assms(1-5)
proof (induction events arbitrary: seen t)
  case Nil
  then show ?case by simp
next
  case (Cons e events)
  obtain opened taken body where e: "e = (opened, taken, body)" by (cases e)
  obtain seen' resp made where h: "handle_probe cr cd cfg opened taken run body seen = (seen', resp, made)"
    by (metis prod_cases3)
  have now: "t \<le> taken" using Cons.prems(2) e by auto
  have later: "sorted (map (\<lambda>e. fst (snd e)) events)" "\<forall>x \<in> set events. taken \<le> fst (snd x)"
    using Cons.prems(1) e by auto
  note kept = handle_probe_keeps [OF h Cons.prems(3)]
  have used: "used_up seen' taken (rq_id r, rq_expires_at r)"
    using h
  proof (cases rule: handle_probe_cases)
    case refused
    with Cons.prems(4) now show ?thesis by (auto simp: used_up_def)
  next
    case (replayed rid expires)
    with accept_keeps_used [OF Cons.prems(4) now Cons.prems(3) replayed(1)] show ?thesis by simp
  next
    case (made q)
    with accept_keeps_used [OF Cons.prems(4) now Cons.prems(3) made(2)] show ?thesis by simp
  qed
  from Cons.prems(5) h e consider "made = Some r'" "taken' = taken" |
      "(r', taken') \<in> set (probes_made cr cd cfg run seen' events)"
    by (auto split: option.splits)
  then show ?case
  proof cases
    case 1
    from h 1(1) have acc: "accept_request taken (rq_id r') (rq_expires_at r') seen = (seen', True)"
      by (cases rule: handle_probe_cases) auto
    have "snd (rq_id r, rq_expires_at r) < taken"
      using accepted_not_used [OF Cons.prems(4) now Cons.prems(3) _ acc] assms(6) by (auto simp: same_request_def)
    with 1(2) show ?thesis by simp
  next
    case 2
    then show ?thesis by (rule Cons.IH [OF later kept used])
  qed
qed

lemma probes_made_once:
  assumes "sorted (map (\<lambda>e. fst (snd e)) events)" "distinct (map fst seen)"
  shows "sorted_wrt (\<lambda>(r, _) (r', taken'). same_request r r' \<longrightarrow> rq_expires_at r < taken') (probes_made cr cd cfg run seen events)"
  using assms
proof (induction events arbitrary: seen)
  case Nil
  then show ?case by simp
next
  case (Cons e events)
  obtain opened taken body where e: "e = (opened, taken, body)" by (cases e)
  obtain seen' resp made where h: "handle_probe cr cd cfg opened taken run body seen = (seen', resp, made)"
    by (metis prod_cases3)
  have later: "sorted (map (\<lambda>e. fst (snd e)) events)" "\<forall>x \<in> set events. taken \<le> fst (snd x)"
    using Cons.prems(1) e by auto
  note kept = handle_probe_keeps [OF h Cons.prems(2)]
  note rest = Cons.IH [OF later(1) kept]
  show ?case
  proof (cases made)
    case None
    with rest h e show ?thesis by simp
  next
    case (Some r)
    from h Some have acc: "accept_request taken (rq_id r) (rq_expires_at r) seen = (seen', True)"
      by (cases rule: handle_probe_cases) auto
    have "used_up seen' taken (rq_id r, rq_expires_at r)"
      using accepted_was_new [OF acc] by (simp add: used_up_def)
    from probes_made_fresh [OF later kept this] have
      "\<forall>x \<in> set (probes_made cr cd cfg run seen' events). case x of (r', taken') \<Rightarrow> same_request r r' \<longrightarrow> rq_expires_at r < taken'"
      by blast
    with rest h e Some show ?thesis by simp
  qed
qed

lemma probes_made_opened:
  assumes "(r, taken) \<in> set (probes_made cr cd cfg run seen events)" "pc_ring cfg = Some k"
  shows "\<exists>opened env. (opened, taken, Some env) \<in> set events \<and>
    open_request cr cd k env opened = Inr r \<and> rq_prober r = pc_name cfg"
  using assms(1)
proof (induction events arbitrary: seen)
  case Nil
  then show ?case by simp
next
  case (Cons e events)
  obtain opened taken' body where e: "e = (opened, taken', body)" by (cases e)
  obtain seen' resp made where h: "handle_probe cr cd cfg opened taken' run body seen = (seen', resp, made)"
    by (metis prod_cases3)
  with Cons.prems e have "made = Some r \<and> taken' = taken \<or> (r, taken) \<in> set (probes_made cr cd cfg run seen' events)"
    by (auto split: option.splits)
  then show ?case
  proof
    assume m: "made = Some r \<and> taken' = taken"
    then have "handle_probe cr cd cfg opened taken' run body seen = (seen', resp, Some r)" using h by simp
    from probe_authorised [OF this assms(2)] e m show ?thesis by auto
  next
    assume "(r, taken) \<in> set (probes_made cr cd cfg run seen' events)"
    from Cons.IH [OF this] show ?thesis by auto
  qed
qed

section \<open>Schedules follow the assignments\<close>

lemma by_name_map: "map_of (by_name checks) n = List.find (\<lambda>c. c_name c = n) (rev checks)"
proof -
  have "map_of (foldl (\<lambda>m c. AList.update (c_name c) c m) m checks) n =
      (case List.find (\<lambda>c. c_name c = n) (rev checks) of None \<Rightarrow> map_of m n | Some c \<Rightarrow> Some c)" for m
    by (induction checks rule: rev_induct) (auto simp: update_conv' split: option.splits)
  then show ?thesis by (auto simp: by_name_def split: option.splits)
qed

lemma by_name_distinct: "distinct (map fst (by_name checks))"
  unfolding by_name_def by (induction checks rule: rev_induct) (simp_all add: distinct_update)

lemma by_name_entry: "(n, c) \<in> set (by_name checks) \<Longrightarrow> c \<in> set checks \<and> c_name c = n"
proof -
  assume "(n, c) \<in> set (by_name checks)"
  then have "map_of (by_name checks) n = Some c" by (simp add: by_name_distinct)
  then have "List.find (\<lambda>c. c_name c = n) (rev checks) = Some c" by (simp add: by_name_map)
  then show ?thesis by (auto simp: find_Some_iff) (metis length_rev nth_mem set_rev)
qed

lemma distinct_names: "distinct (map c_name checks) \<Longrightarrow> map_of (by_name checks) n = map_of (map (\<lambda>c. (c_name c, c)) checks) n"
proof (induction checks)
  case Nil
  then show ?case by (simp add: by_name_def)
next
  case (Cons c checks)
  have app: "List.find P (xs @ ys) = (case List.find P xs of None \<Rightarrow> List.find P ys | Some x \<Rightarrow> Some x)"
    for P :: "check \<Rightarrow> bool" and xs ys by (induction xs) auto
  have "List.find (\<lambda>c. c_name c = n) (rev checks) = None" if "c_name c = n"
    using Cons.prems that by (simp add: find_None_iff image_iff) metis
  with Cons show ?case by (auto simp: by_name_map app split: option.splits)
qed

lemma map_of_append_new:
  "map_of (xs @ filter (\<lambda>(n, _). n \<notin> fst ` set xs) ys) n = (case map_of xs n of None \<Rightarrow> map_of ys n | Some v \<Rightarrow> Some v)"
proof -
  have "map_of (filter (\<lambda>(n, _). n \<notin> A) ys) n = (if n \<in> A then None else map_of ys n)" for A
    by (induction ys) (auto split: if_splits)
  moreover have "map_of xs n \<noteq> None \<longleftrightarrow> n \<in> fst ` set xs" by (simp add: map_of_eq_None_iff)
  ultimately show ?thesis
    by (auto simp: map_add_def split: option.splits)
qed

text \<open>After a reconciliation exactly the assigned checks run, each in its assigned form; a schedule
  whose check did not change is neither cancelled nor started again.\<close>

lemma reconcile_runs:
  assumes "reconcile same running checks = (running', cancelled, started)" "distinct (map fst running)"
    and "\<And>a b. same a b \<longleftrightarrow> a = b"
  shows "map_of running' = map_of (by_name checks)"
    and "set cancelled = {x \<in> set running. map_of (by_name checks) (fst x) \<noteq> Some (snd x)}"
    and "set started = {x \<in> set (by_name checks). map_of running (fst x) \<noteq> Some (snd x)}"
    and "distinct (map fst running')"
proof -
  define target where "target = by_name checks"
  define kept where "kept = filter (\<lambda>(n, c). map_of target n = Some c) running"
  have stays: "(\<lambda>(n, c). case map_of target n of None \<Rightarrow> False | Some c' \<Rightarrow> same c c') =
      (\<lambda>(n, c). map_of target n = Some c)"
    using assms(3) by (auto simp: fun_eq_iff split: option.splits)
  have r: "running' = kept @ filter (\<lambda>(n, _). n \<notin> fst ` set kept) target"
      "cancelled = filter (\<lambda>(n, c). map_of target n \<noteq> Some c) running"
      "started = filter (\<lambda>(n, _). n \<notin> fst ` set kept) target"
    using assms(1) unfolding reconcile_def Let_def target_def [symmetric] stays kept_def
    by (auto simp: case_prod_unfold)
  have kd: "distinct (map fst kept)" using assms(2) by (simp add: kept_def distinct_map_filter)
  have td: "distinct (map fst target)" by (simp add: target_def by_name_distinct)
  have kept_of: "map_of kept n = Some c \<Longrightarrow> map_of target n = Some c" for n c
    by (auto simp: kept_def dest: map_of_SomeD)
  show "map_of running' = map_of (by_name checks)"
  proof
    fix n
    show "map_of running' n = map_of (by_name checks) n"
      unfolding r map_of_append_new target_def [symmetric]
      using kept_of [of n] by (auto split: option.splits)
  qed
  show "set cancelled = {x \<in> set running. map_of (by_name checks) (fst x) \<noteq> Some (snd x)}"
    unfolding r target_def by auto
  have kept_names: "n \<in> fst ` set kept \<longleftrightarrow> map_of running n = Some c" if "(n, c) \<in> set target" for n c
  proof -
    have "map_of target n = Some c" using that td by simp
    then have "n \<in> fst ` set kept \<longleftrightarrow> (n, c) \<in> set running" by (force simp: kept_def)
    with assms(2) show ?thesis by simp
  qed
  show "set started = {x \<in> set (by_name checks). map_of running (fst x) \<noteq> Some (snd x)}"
    unfolding r target_def [symmetric] set_filter
    by (rule Collect_cong) (use kept_names in \<open>simp add: case_prod_unfold\<close>, metis prod.collapse)
  show "distinct (map fst running')"
    unfolding r using kd td by (simp add: distinct_map_filter) force
qed

section \<open>What a report says\<close>

lemma mesh_round_report:
  "mesh_round self now answer peers = Some r \<Longrightarrow> rep_prober r = self \<and> rep_at r = now \<and>
   set (rep_peers r) = set (probe_peers self answer peers) \<and> length (rep_peers r) = length (probe_peers self answer peers)"
  by (auto simp: mesh_round_def split: if_splits)

lemma probe_peers_length:
  "length (probe_peers self answer peers) = length (filter (\<lambda>p. mp_name p \<noteq> self \<and> mp_address p \<noteq> []) peers)"
  by (simp add: probe_peers_def)

lemma probe_peers_reachable:
  "v \<in> set (probe_peers self answer peers) \<Longrightarrow> pv_peer v \<noteq> self \<and>
   (\<exists>p \<in> set peers. mp_name p = pv_peer v \<and> mp_address p \<noteq> [] \<and> (pv_reachable v \<longleftrightarrow> (\<exists>l. answer (mp_address p) = Inr l)))"
  by (auto simp: probe_peers_def split: sum.splits)

lemma run_result_signed:
  assumes "prober_run cr cd render err_name cfg now slot execute c rid = Inr env" "pc_name cfg \<noteq> []"
  shows "\<exists>r. seal cr cd (pc_key cfg) DomainResult (pc_name cfg) \<lparr>rp_result = r, rp_request_id = rid\<rparr> = Inr env \<and>
    r_prober r = pc_name cfg \<and> r_check r = c_name c \<and> r_at r = now \<and> r_provider r = pc_provider cfg \<and>
    (r_status r = StatusDown \<longrightarrow> fst (execute c) = StatusDown \<and> check_validate c = None)"
proof (cases "known_kind (c_kind c)")
  case False
  with assms show ?thesis
    by (auto simp: prober_run_def sign_run_def sign_result_def split: sum.splits if_splits)
next
  case True
  have r: "r_prober (run_result render err_name cfg now (execute c) c) = pc_name cfg"
    "r_check (run_result render err_name cfg now (execute c) c) = c_name c"
    "r_at (run_result render err_name cfg now (execute c) c) = now"
    "r_provider (run_result render err_name cfg now (execute c) c) = pc_provider cfg"
    "r_status (run_result render err_name cfg now (execute c) c) = StatusDown \<Longrightarrow>
       fst (execute c) = StatusDown \<and> check_validate c = None"
    using run_probe_identity [of render err_name now "c_kind c" "execute c" c "pc_name cfg" "pc_provider cfg"]
    by (auto simp: run_result_def Let_def run_probe_status split: if_splits)
  with True assms show ?thesis
    by (auto simp: prober_run_def sign_run_def sign_result_def split: sum.splits if_splits)
qed

end
