(* ===== verification/Endpoints.thy ===== *)
theory Endpoints
  imports Coordinator Prober
begin

text \<open>
  Where the signed protocol meets the coordinator (\<open>handlers.go\<close>, \<open>mesh.go\<close>): results and mesh reports
  as envelopes, the credential a prober shows for requests without a body, and the two documents
  published to it, the peer list and its assignments.
\<close>

section \<open>Results and mesh reports\<close>

datatype result_response = ResultMalformed | ResultRefused wire_error | ResultSubmitted submission

definition handle_result :: "crypto \<Rightarrow> result_payload codec \<Rightarrow> keyring \<Rightarrow> coord_config \<Rightarrow> time \<Rightarrow> bool \<Rightarrow>
    envelope option \<Rightarrow> coord \<Rightarrow> coord \<times> result_response" where
  "handle_result cr cd k cfg now free body co =
     (case body of
        None \<Rightarrow> (co, ResultMalformed)
      | Some env \<Rightarrow>
     (case open_result cr cd k env now of
        Inl e \<Rightarrow> (co, ResultRefused e)
      | Inr p \<Rightarrow> (let (co, s) = submit_result cfg now (Some (rp_request_id p, rp_result p)) free co
          in (co, ResultSubmitted s))))"

definition handle_mesh_report :: "crypto \<Rightarrow> report codec \<Rightarrow> keyring \<Rightarrow> world \<Rightarrow> coord_config \<Rightarrow> time \<Rightarrow>
    envelope option \<Rightarrow> coord \<Rightarrow> coord \<times> event list \<times> mesh_response" where
  "handle_mesh_report cr cd k w cfg now body co =
     (case body of
        None \<Rightarrow> (co, [], MeshRejected)
      | Some env \<Rightarrow>
          handle_mesh w cfg now (case open_mesh_report cr cd k env now of Inl _ \<Rightarrow> None | Inr r \<Rightarrow> Some r) co)"

section \<open>The credential of a prober\<close>

record credential =
  cr_prober :: string
  cr_at :: time

definition credential_ttl :: duration where "credential_ttl = 2 * minute"
definition credential_skew :: duration where "credential_skew = 2 * minute"
definition max_request_bytes :: int where "max_request_bytes = 131072"

text \<open>What a prober sends: the signed credential, encoded as JSON and then in base64.\<close>

definition make_credential :: "crypto \<Rightarrow> credential codec \<Rightarrow> envelope codec \<Rightarrow> prober_config \<Rightarrow> time \<Rightarrow>
    wire_error + string" where
  "make_credential cr ccd ecd cfg now =
     (case sign_document cr ccd (pc_key cfg) (pc_name cfg) \<lparr>cr_prober = pc_name cfg, cr_at = now\<rparr> of
        Inl e \<Rightarrow> Inl e
      | Inr env \<Rightarrow> (case cd_encode ecd env of
          None \<Rightarrow> Inl ErrEncode
        | Some raw \<Rightarrow> Inr (b64_encode std_alphabet True raw)))"

definition prober_caller :: "crypto \<Rightarrow> credential codec \<Rightarrow> envelope codec \<Rightarrow> keyring \<Rightarrow> peer list \<Rightarrow> time \<Rightarrow>
    string \<Rightarrow> string option" where
  "prober_caller cr ccd ecd k peers now header =
     (if header = [] then None
      else case b64_decode std_alphabet header of
        None \<Rightarrow> None
      | Some raw \<Rightarrow>
          if int (length raw) > max_request_bytes then None
          else case cd_decode ecd raw of
            None \<Rightarrow> None
          | Some env \<Rightarrow>
         (case open_document cr k env of
            Inl _ \<Rightarrow> None
          | Inr payload \<Rightarrow>
         (case cd_decode ccd payload of
            None \<Rightarrow> None
          | Some c \<Rightarrow>
              if cr_prober c \<noteq> ev_peer env then None
              else if peer_by_name peers (cr_prober c) = None then None
              else
                (let age = sub_time now (cr_at c) in
                 if age < - credential_skew \<or> age > credential_ttl then None else Some (cr_prober c)))))"

section \<open>Published documents\<close>

definition host_port :: "(string \<Rightarrow> url option) \<Rightarrow> (string \<Rightarrow> string \<Rightarrow> string) \<Rightarrow> string \<Rightarrow> string" where
  "host_port parse_url join_host_port raw =
     (case parse_url raw of
        None \<Rightarrow> []
      | Some u \<Rightarrow>
          if u_host u = [] then []
          else if u_port u \<noteq> [] then u_host u
          else if u_scheme u = ''https'' then join_host_port (u_hostname u) ''443''
          else if u_scheme u = ''http'' then join_host_port (u_hostname u) ''80''
          else [])"

definition peer_list :: "(string \<Rightarrow> string) \<Rightarrow> peer list \<Rightarrow> mesh_peer list" where
  "peer_list address peers =
     filter (\<lambda>m. mp_address m \<noteq> []) (map (\<lambda>p. \<lparr>mp_name = p_name p, mp_address = address (p_url p)\<rparr>) peers)"

datatype document_response = NotARegisteredProber | CouldNotSign wire_error | Document envelope

definition handle_peers :: "crypto \<Rightarrow> published codec \<Rightarrow> mesh_peer list codec \<Rightarrow> bytes \<Rightarrow> coord_config \<Rightarrow> string \<Rightarrow>
    (string \<Rightarrow> string) \<Rightarrow> time \<Rightarrow> string option \<Rightarrow> document_response" where
  "handle_peers cr pcd mcd key cfg self address now caller =
     (case caller of
        None \<Rightarrow> NotARegisteredProber
      | Some who \<Rightarrow>
     (case sign_published cr pcd mcd key self who ''peers'' now (peer_list address (cc_peers cfg)) of
        Inl e \<Rightarrow> CouldNotSign e | Inr env \<Rightarrow> Document env))"

definition assigned_checks :: "coord_config \<Rightarrow> time \<Rightarrow> coord \<Rightarrow> string \<Rightarrow> check list" where
  "assigned_checks cfg now co who =
     checks_for (cc_peers cfg) (unavailable_probers cfg now co) (mesh_recovery_active cfg now co) (co_checks co) who"

definition handle_checks :: "crypto \<Rightarrow> published codec \<Rightarrow> check list codec \<Rightarrow> bytes \<Rightarrow> coord_config \<Rightarrow> string \<Rightarrow>
    time \<Rightarrow> string option \<Rightarrow> coord \<Rightarrow> document_response" where
  "handle_checks cr pcd ccd key cfg self now caller co =
     (case caller of
        None \<Rightarrow> NotARegisteredProber
      | Some who \<Rightarrow>
     (case sign_published cr pcd ccd key self who ''assignments'' now (assigned_checks cfg now co who) of
        Inl e \<Rightarrow> CouldNotSign e | Inr env \<Rightarrow> Document env))"

section \<open>Accepted results are genuine\<close>

lemma accepted_result_genuine:
  assumes "handle_result cr cd k cfg now free body co = (co', ResultSubmitted (AcceptedResult r))"
    and "unforgeable cr k log"
  shows "\<exists>env p pub. body = Some env \<and> cd_decode cd (ev_payload env) = Some p \<and> rp_request_id p = [] \<and>
    map_of k (r_prober r) = Some pub \<and> (pub, DomainResult, ev_payload env) \<in> log \<and>
    (is_zero now \<or> r_at r \<le> now + max_clock_skew)"
proof -
  obtain env where env: "body = Some env" using assms(1) by (cases body) (auto simp: handle_result_def)
  obtain p where p: "open_result cr cd k env now = Inr p"
    using assms(1) env by (cases "open_result cr cd k env now") (auto simp: handle_result_def)
  have sub: "submit_result cfg now (Some (rp_request_id p, rp_result p)) free co = (co', AcceptedResult r)"
    using assms(1) env p by (auto simp: handle_result_def split: prod.splits)
  have "rp_request_id p = [] \<and> r_prober r = r_prober (rp_result p) \<and> r_at r = r_at (rp_result p)"
    using sub by (auto simp: submit_result_def split: option.splits if_splits)
  with results.sender_sealed [OF p assms(2)] open_result_checks [OF p] env show ?thesis by auto
qed

text \<open>A refused envelope leaves the coordinator as it was.\<close>

lemma refused_result_frame:
  "handle_result cr cd k cfg now free body co = (co', resp) \<Longrightarrow> (\<forall>r. resp \<noteq> ResultSubmitted (AcceptedResult r)) \<Longrightarrow>
   co' = co"
  using submit_rejected [of cfg now _ free co co']
  by (auto simp: handle_result_def split: option.splits sum.splits prod.splits)

section \<open>Credentials\<close>

lemma caller_genuine:
  assumes "prober_caller cr ccd ecd k peers now header = Some who" "unforgeable cr k log"
  shows "\<exists>pub payload c. map_of k who = Some pub \<and> (pub, DomainDoc, payload) \<in> log \<and>
    cd_decode ccd payload = Some c \<and> cr_prober c = who \<and> peer_by_name peers who \<noteq> None \<and>
    - credential_skew \<le> sub_time now (cr_at c) \<and> sub_time now (cr_at c) \<le> credential_ttl"
proof -
  obtain env where env: "open_document cr k env = Inr (ev_payload env)"
    "\<exists>c. cd_decode ccd (ev_payload env) = Some c \<and> cr_prober c = ev_peer env \<and> cr_prober c = who \<and>
       peer_by_name peers who \<noteq> None \<and> \<not> (sub_time now (cr_at c) < - credential_skew \<or> sub_time now (cr_at c) > credential_ttl)"
    using assms(1)
    by (auto simp: prober_caller_def open_document_def Let_def split: option.splits sum.splits if_splits)
  from env(1) have "ring_verify cr k DomainDoc env = None" by (auto simp: open_document_def split: option.splits)
  from verified_was_sealed [OF assms(2) this] obtain pub where
    pub: "map_of k (ev_peer env) = Some pub" "(pub, DomainDoc, ev_payload env) \<in> log" by blast
  from env(2) obtain c where "cd_decode ccd (ev_payload env) = Some c" "cr_prober c = ev_peer env" "cr_prober c = who"
    "peer_by_name peers who \<noteq> None" "- credential_skew \<le> sub_time now (cr_at c)" "sub_time now (cr_at c) \<le> credential_ttl"
    by (auto simp: not_less)
  with pub show ?thesis by (intro exI [of _ pub] exI [of _ "ev_payload env"] exI [of _ c]) simp
qed

section \<open>Assignments reach the prober\<close>

definition faithful :: "'m codec \<Rightarrow> bool" where
  "faithful cd \<longleftrightarrow> (\<forall>m raw. cd_encode cd m = Some raw \<longrightarrow> cd_decode cd raw = Some m)"

lemma first_invalid_None: "first_invalid cs = None \<longleftrightarrow> (\<forall>c \<in> set cs. check_validate c = None)"
  by (induction cs) (auto split: option.splits)

lemma published_round_trip:
  assumes "sign_published cr pcd dcd key self who kind t data = Inr env" "faithful pcd"
    and "map_of k self = Some pub" "key_pair cr key pub" "int (length (ev_payload env)) \<le> max_payload_bytes"
    and "now - 2 * minute \<le> t" "t \<le> now + max_clock_skew"
  shows "\<exists>raw. cd_encode dcd data = Some raw \<and> open_published cr pcd k env self who kind now = Inr raw"
proof -
  obtain raw where raw: "cd_encode dcd data = Some raw"
    using assms(1) by (auto simp: sign_published_def split: option.splits)
  define doc where "doc = \<lparr>pd_audience = who, pd_kind = kind, pd_issued_at = t, pd_data = raw\<rparr>"
  have s: "seal cr pcd key DomainDoc self doc = Inr env"
    using assms(1) raw by (simp add: sign_published_def sign_document_def doc_def split: if_splits)
  have "cd_decode pcd (ev_payload env) = Some doc"
    using seal_fields [OF s] assms(2) by (auto simp: faithful_def)
  with seal_verifies [OF s assms(3-5)] seal_fields [OF s] raw assms(6,7) show ?thesis
    by (simp add: open_published_def open_document_def doc_def)
qed

lemma assignments_delivered:
  assumes "handle_checks cr pcd ccd key cfg self t (Some who) co = Document env"
    and "faithful pcd" "faithful ccd" "pc_ring pcfg = Some k" "map_of k self = Some pub" "key_pair cr key pub"
    and "pc_coordinator pcfg = self" "pc_name pcfg = who" "int (length (ev_payload env)) \<le> max_payload_bytes"
    and "now - 2 * minute \<le> t" "t \<le> now + max_clock_skew"
    and "\<forall>c \<in> set (co_checks co). check_validate c = None"
  shows "open_assignments cr pcd (cd_decode ccd) pcfg now env = Inr (assigned_checks cfg t co who)"
proof -
  have "sign_published cr pcd ccd key self who ''assignments'' t (assigned_checks cfg t co who) = Inr env"
    using assms(1) by (auto simp: handle_checks_def split: sum.splits)
  from published_round_trip [OF this assms(2,5,6,9-11)] obtain raw where
    raw: "cd_encode ccd (assigned_checks cfg t co who) = Some raw"
      "open_published cr pcd k env self who ''assignments'' now = Inr raw" by blast
  have "first_invalid (assigned_checks cfg t co who) = None"
    using assms(12) by (auto simp: first_invalid_None assigned_checks_def checks_for_def)
  with raw assms(3,4,7,8) show ?thesis by (simp add: open_assignments_def faithful_def)
qed

text \<open>A document that has grown past the limit for signed payloads is never accepted by the prober it
  is for, although the coordinator signs it.\<close>

lemma oversized_assignments_refused:
  assumes "max_payload_bytes < int (length (ev_payload env))"
  shows "open_assignments cr pcd decode_checks pcfg now env = Inl (AssignmentsRejected ErrPayloadTooLarge)"
  using assms by (simp add: open_assignments_def open_published_def open_document_def ring_verify_def)

section \<open>A prober that is cut off\<close>

lemma own_reports: "reports_ok rs \<Longrightarrow> map_of rs p = Some r \<Longrightarrow> filter (\<lambda>x. rep_prober x = p) (map snd rs) = [r]"
proof (induction rs)
  case Nil
  then show ?case by simp
next
  case (Cons x rs)
  obtain n y where x: "x = (n, y)" by (cases x)
  have ok: "reports_ok rs" and n: "rep_prober y = n" "n \<notin> fst ` set rs"
    using Cons.prems(1) x by (auto simp: reports_ok_def)
  show ?case
  proof (cases "n = p")
    case True
    have "rep_prober z \<noteq> p" if "z \<in> snd ` set rs" for z
      using that ok n(2) True by (force simp: reports_ok_def)
    then have "filter (\<lambda>x. rep_prober x = p) (map snd rs) = []" by (auto simp: filter_empty_conv)
    with Cons.prems(2) x n True show ?thesis by simp
  next
    case False
    with Cons.IH [OF ok] Cons.prems(2) x n show ?thesis by simp
  qed
qed

lemma isolated_iff_held:
  assumes "reports_ok rs" "map_of rs p = Some r" "rep_prober r = p"
  shows "p \<in> set (mv_isolated (mesh_evaluate (map snd rs) opts)) \<longleftrightarrow> report_fresh opts r \<and> looks_isolated opts r"
proof -
  have "map_of (latest_reports opts (map snd rs)) p = map_of (latest_reports opts [r]) p"
    by (subst latest_own) (simp only: own_reports [OF assms(1,2)])
  then show ?thesis
    using assms(3) by (auto simp: isolated_iff_latest latest_reports_def latest_step_def put_report_def)
qed

lemma handle_mesh_reports:
  "peer_by_name (cc_peers cfg) (rep_prober rep) \<noteq> None \<Longrightarrow>
   co_reports (fst (handle_mesh w cfg now (Some rep) co)) = put_report (co_reports co) rep"
proof -
  assume known: "peer_by_name (cc_peers cfg) (rep_prober rep) \<noteq> None"
  let ?co = "co\<lparr>co_reports := put_report (co_reports co) rep\<rparr>"
  have "co_reports (fst (report_mesh_transitions w cfg now ?co)) = put_report (co_reports co) rep"
    by (simp add: report_mesh_transitions_def Let_def)
  then show ?thesis
    using known by (auto simp: handle_mesh_def begin_mesh_recovery_def Let_def split: prod.splits)
qed

text \<open>From the prober's round to the coordinator's verdict: a prober none of whose connections worked,
  and who tried enough peers, is isolated as soon as its report arrives.\<close>

lemma cut_off_isolated:
  assumes "mesh_round self t answer peers = Some rep" "\<And>a. \<exists>e. answer a = Inl e" "self \<noteq> []"
    and "reports_ok (co_reports co)" "peer_by_name (cc_peers cfg) self \<noteq> None"
    and "\<And>old. map_of (co_reports co) self = Some old \<Longrightarrow> rep_at old < t"
    and "(if cc_mesh_min_peers cfg \<le> 0 then default_min_peers else cc_mesh_min_peers cfg) \<le>
      int (length (filter (\<lambda>p. mp_name p \<noteq> self \<and> mp_address p \<noteq> []) peers))"
    and "now - (if cc_mesh_max_age cfg \<le> 0 then default_mesh_max_age else cc_mesh_max_age cfg) \<le> t"
  shows "isolated_probers cfg now (fst (handle_mesh w cfg now (Some rep) co)) self"
proof -
  note rep = mesh_round_report [OF assms(1)]
  have reports: "co_reports (fst (handle_mesh w cfg now (Some rep) co)) = put_report (co_reports co) rep"
    using handle_mesh_reports assms(5) rep by blast
  have ok: "reports_ok (put_report (co_reports co) rep)" by (rule put_report_ok [OF assms(4)])
  have held: "map_of (put_report (co_reports co) rep) self = Some rep"
    using reports_kept.put_accept [of "co_reports co" rep] assms(6) rep by simp
  have "\<forall>v \<in> set (rep_peers rep). \<not> pv_reachable v"
    using rep probe_peers_reachable [of _ self answer peers] assms(2) by (metis Inl_Inr_False)
  then have "looks_isolated opts rep" if "mo_min_peers opts = cc_mesh_min_peers cfg" for opts
    using rep assms(7) that by (simp add: looks_isolated_def reached_def probe_peers_length min_peers_of_def filter_empty_conv
        split: if_splits)
  moreover have "report_fresh \<lparr>mo_now = now,
      mo_max_age = (if cc_mesh_max_age cfg \<le> 0 then default_mesh_max_age else cc_mesh_max_age cfg),
      mo_min_peers = cc_mesh_min_peers cfg\<rparr> rep"
    using rep assms(3,8) by (simp add: report_fresh_def)
  ultimately show ?thesis
    using isolated_iff_held [OF ok held] rep by (simp add: isolated_probers_def mesh_of_def reports)
qed

end
