(* ===== verification/Watch.thy ===== *)
theory Watch
  imports Wire Alert Interfaces
begin

text \<open>
  The far end of the dead-man's switch: \<open>internal/watch/watch.go\<close> and the two places of
  \<open>cmd/parallaxd-watch/main.go\<close> that drive it, the heartbeat handler and the ticker. The watcher is
  a step on \<open>watcher\<close> that may send one alert; \<open>now\<close> is the clock of the step.
\<close>

section \<open>The watcher\<close>

definition empty_beat :: heartbeat where
  "empty_beat = \<lparr>hb_coordinator = [], hb_at = zero_time, hb_checks = 0, hb_probers = 0, hb_stale = 0\<rparr>"

record watcher =
  wt_grace :: duration
  wt_started :: time
  wt_last :: heartbeat
  wt_received_at :: time
  wt_have_one :: bool
  wt_alive :: bool
  wt_since :: time

record watch_state =
  ws_alive :: bool
  ws_last :: heartbeat
  ws_silence :: duration
  ws_since :: time

definition new_watcher :: "duration \<Rightarrow> time \<Rightarrow> watcher" where
  "new_watcher grace t = \<lparr>wt_grace = grace, wt_started = t, wt_last = empty_beat, wt_received_at = zero_time,
     wt_have_one = False, wt_alive = True, wt_since = t\<rparr>"

definition watch_silence :: "time \<Rightarrow> watcher \<Rightarrow> duration" where
  "watch_silence now w =
     (let from_t = (if wt_have_one w \<and> wt_received_at w > wt_started w then wt_received_at w else wt_started w);
          d = sub_time now from_t
      in if d < 0 then 0 else d)"

definition record_beat :: "time \<Rightarrow> heartbeat \<Rightarrow> watcher \<Rightarrow> watcher \<times> bool" where
  "record_beat now b w =
     (if wt_have_one w \<and> \<not> hb_at b > hb_at (wt_last w) then (w, False)
      else
        (let w = w\<lparr>wt_last := b, wt_received_at := now, wt_have_one := True\<rparr> in
         if \<not> wt_alive w then (w\<lparr>wt_alive := True, wt_since := now\<rparr>, True) else (w, False)))"

definition check_watch :: "time \<Rightarrow> watcher \<Rightarrow> watcher \<times> bool" where
  "check_watch now w =
     (if watch_silence now w \<le> wt_grace w then (w, False)
      else if \<not> wt_alive w then (w, False)
      else (w\<lparr>wt_alive := False, wt_since := now\<rparr>, True))"

definition watch_state :: "time \<Rightarrow> watcher \<Rightarrow> watch_state" where
  "watch_state now w = \<lparr>ws_alive = wt_alive w,
     ws_last = (if wt_have_one w then wt_last w else empty_beat),
     ws_silence = watch_silence now w, ws_since = wt_since w\<rparr>"

definition watch_summary :: "watch_state \<Rightarrow> string" where
  "watch_summary s =
     (if ws_alive s then
        ''coordinator '' @ hb_coordinator (ws_last s) @ '' alive; '' @ itoa_int (hb_checks (ws_last s)) @
        '' checks, '' @ itoa_int (hb_probers (ws_last s)) @ '' probers, '' @ itoa_int (hb_stale (ws_last s)) @
        '' stale''
      else
        (let who = (if hb_coordinator (ws_last s) = [] then ''coordinator'' else hb_coordinator (ws_last s)) in
         who @ '' has not checked in for '' @ dur_string (round_second (ws_silence s)) @ em_dash @
         ''nothing is deciding, and no outage will be reported until it returns''))"

section \<open>The handler and the ticker\<close>

definition watch_alert :: "time \<Rightarrow> alert_kind \<Rightarrow> string \<Rightarrow> alert" where
  "watch_alert now kind detail = empty_alert\<lparr>al_kind := kind, al_detail := detail, al_at := now\<rparr>"

datatype beat_response = BeatMalformed | BeatRejected | BeatAccepted

definition handle_heartbeat :: "crypto \<Rightarrow> heartbeat codec \<Rightarrow> keyring \<Rightarrow> duration \<Rightarrow> time \<Rightarrow> envelope option \<Rightarrow>
    watcher \<Rightarrow> watcher \<times> alert option \<times> beat_response" where
  "handle_heartbeat cr cd k grace now body w =
     (case body of
        None \<Rightarrow> (w, None, BeatMalformed)
      | Some env \<Rightarrow>
     (case open_heartbeat cr cd k env now grace of
        Inl err \<Rightarrow> (w, None, BeatRejected)
      | Inr b \<Rightarrow>
          (let (w, recovered) = record_beat now b w in
           (w, if recovered then Some (watch_alert now KindWatchRecovered (watch_summary (watch_state now w)))
               else None, BeatAccepted))))"

definition watch_tick :: "time \<Rightarrow> watcher \<Rightarrow> watcher \<times> alert option" where
  "watch_tick now w =
     (let (w, died) = check_watch now w in
      (w, if died then Some (watch_alert now KindWatchLost (watch_summary (watch_state now w))) else None))"

definition default_check_interval :: duration where "default_check_interval = 30 * second"

definition watch_interval :: "duration \<Rightarrow> duration" where
  "watch_interval interval = (if interval \<le> 0 then default_check_interval else interval)"

datatype watch_config_error = GraceNotPositive | CoordinatorIdentityRequired

definition watch_config_check :: "duration \<Rightarrow> string \<Rightarrow> string \<Rightarrow> watch_config_error option" where
  "watch_config_check grace coordinator_name coordinator_key =
     (if grace \<le> 0 then Some GraceNotPositive
      else if coordinator_name = [] \<or> coordinator_key = [] then Some CoordinatorIdentityRequired
      else None)"

section \<open>Alternation\<close>

text \<open>What happens to a watcher, in the order it happens.\<close>

datatype watch_event = BeatArrives time "envelope option" | Tick time

fun watch_step :: "crypto \<Rightarrow> heartbeat codec \<Rightarrow> keyring \<Rightarrow> watcher \<Rightarrow> watch_event \<Rightarrow> watcher \<times> alert option" where
  "watch_step cr cd k w (BeatArrives now body) =
     (let (w', a, _) = handle_heartbeat cr cd k (wt_grace w) now body w in (w', a))"
| "watch_step cr cd k w (Tick now) = watch_tick now w"

interpretation switch: alarm "watch_step cr cd k" "\<lambda>w. \<not> wt_alive w"
    "\<lambda>a. al_kind a = KindWatchLost" "\<lambda>a. al_kind a = KindWatchRecovered" for cr cd k
proof
  fix w e w' a
  show "watch_step cr cd k w e = (w', Some a) \<Longrightarrow> al_kind a = KindWatchLost \<Longrightarrow> \<not> \<not> wt_alive w \<and> \<not> wt_alive w'"
    by (cases e) (auto simp: handle_heartbeat_def watch_tick_def record_beat_def check_watch_def watch_alert_def
        Let_def split: option.splits sum.splits if_splits prod.splits)
  show "watch_step cr cd k w e = (w', Some a) \<Longrightarrow> al_kind a = KindWatchRecovered \<Longrightarrow> \<not> wt_alive w \<and> \<not> \<not> wt_alive w'"
    by (cases e) (auto simp: handle_heartbeat_def watch_tick_def record_beat_def check_watch_def watch_alert_def
        Let_def split: option.splits sum.splits if_splits prod.splits)
next
  fix w e w' out
  show "watch_step cr cd k w e = (w', out) \<Longrightarrow> (\<not> wt_alive w') \<noteq> (\<not> wt_alive w) \<Longrightarrow>
      \<exists>x. out = Some x \<and> (al_kind x = KindWatchLost \<or> al_kind x = KindWatchRecovered)"
    by (cases e) (auto simp: handle_heartbeat_def watch_tick_def record_beat_def check_watch_def watch_alert_def
        Let_def split: option.splits sum.splits if_splits prod.splits)
qed

section \<open>The newest beat is kept\<close>

definition last_beat :: "watcher \<Rightarrow> unit \<Rightarrow> heartbeat option" where
  "last_beat w = (\<lambda>_. if wt_have_one w then Some (wt_last w) else None)"

interpretation beats_kept: newest_wins "\<lambda>w b. fst (record_beat now b w)" last_beat "\<lambda>_. ()" hb_at for now
  by unfold_locales (auto simp: record_beat_def last_beat_def Let_def fun_eq_iff split: if_splits)

section \<open>When the coordinator is declared dead\<close>

lemma silence_same:
  "wt_have_one w' = wt_have_one w \<Longrightarrow> wt_received_at w' = wt_received_at w \<Longrightarrow> wt_started w' = wt_started w \<Longrightarrow>
   watch_silence now w' = watch_silence now w"
  by (simp add: watch_silence_def)

lemma tick_alive: "wt_alive (fst (watch_tick now w)) \<longleftrightarrow> wt_alive w \<and> watch_silence now w \<le> wt_grace w"
  by (simp add: watch_tick_def check_watch_def)

lemma tick_quiet: "watch_silence now w \<le> wt_grace w \<or> \<not> wt_alive w \<Longrightarrow> watch_tick now w = (w, None)"
  by (auto simp: watch_tick_def check_watch_def)

lemma ticks_dead: "\<not> wt_alive w \<Longrightarrow> emit_run (watch_step cr cd k) w (map Tick ts) = (w, [])"
  by (induction ts) (simp_all add: tick_quiet)

text \<open>Between two beats the ticks send one alert, at the first tick past the grace period.\<close>

definition late_ticks :: "watcher \<Rightarrow> time list \<Rightarrow> time list" where
  "late_ticks w ts = filter (\<lambda>t. wt_grace w < watch_silence t w) ts"

lemma ticks_once:
  "wt_alive w \<Longrightarrow> emit_run (watch_step cr cd k) w (map Tick ts) = (w', as) \<Longrightarrow>
   map al_at as = take 1 (late_ticks w ts) \<and> (\<forall>a \<in> set as. al_kind a = KindWatchLost) \<and>
   wt_alive w' = (late_ticks w ts = [])"
proof (induction ts arbitrary: as)
  case Nil
  then show ?case by (auto simp: late_ticks_def)
next
  case (Cons t ts)
  show ?case
  proof (cases "watch_silence t w \<le> wt_grace w")
    case True
    with Cons.prems(2) have "emit_run (watch_step cr cd k) w (map Tick ts) = (w', as)"
      by (auto simp: tick_quiet split: prod.splits)
    with Cons.IH [OF Cons.prems(1)] True show ?thesis by (simp add: late_ticks_def)
  next
    case False
    then have "watch_tick t w = (w\<lparr>wt_alive := False, wt_since := t\<rparr>,
        Some (watch_alert t KindWatchLost (watch_summary (watch_state t (w\<lparr>wt_alive := False, wt_since := t\<rparr>)))))"
      using Cons.prems(1) by (simp add: watch_tick_def check_watch_def)
    with Cons.prems(2) False show ?thesis
      by (auto simp: ticks_dead late_ticks_def watch_alert_def)
  qed
qed

text \<open>A beat resets the silence, whether it revives the watcher or not.\<close>

lemma accepted_beat_resets:
  "record_beat now b w = (w', r) \<Longrightarrow> w' \<noteq> w \<Longrightarrow> wt_started w \<le> now \<Longrightarrow> watch_silence now w' = 0 \<and> wt_alive w'"
  by (auto simp: record_beat_def watch_silence_def sub_time_def min_duration_def max_duration_def Let_def
      split: if_splits)

lemma beat_moves_forward:
  "record_beat now b w = (w', r) \<Longrightarrow> w' \<noteq> w \<Longrightarrow> wt_last w' = b \<and> (wt_have_one w \<longrightarrow> hb_at (wt_last w) < hb_at b)"
  by (auto simp: record_beat_def Let_def split: if_splits)

lemma beat_genuine:
  assumes "handle_heartbeat cr cd k grace now body w = (w', a, resp)" "w' \<noteq> w" "unforgeable cr k log"
  shows "\<exists>env b pub. body = Some env \<and> cd_decode cd (ev_payload env) = Some b \<and> wt_last w' = b \<and>
    map_of k (hb_coordinator b) = Some pub \<and> (pub, DomainHeartbeat, ev_payload env) \<in> log \<and>
    (wt_have_one w \<longrightarrow> hb_at (wt_last w) < hb_at b)"
proof -
  obtain env where env: "body = Some env" using assms(1,2) by (cases body) (auto simp: handle_heartbeat_def)
  obtain b where b: "open_heartbeat cr cd k env now grace = Inr b"
    using assms(1,2) env by (cases "open_heartbeat cr cd k env now grace") (auto simp: handle_heartbeat_def)
  have "record_beat now b w = (w', snd (record_beat now b w))"
    using assms(1) env b by (auto simp: handle_heartbeat_def split: prod.splits)
  from beat_moves_forward [OF this assms(2)] heartbeats.sender_sealed [OF b assms(3)] env
  show ?thesis by blast
qed

end
