(* ===== verification/Trust.thy ===== *)
theory Trust
  imports Endpoints Watch Examples
begin

text \<open>
  What holds because messages are signed and probes are guarded (\<open>internal/wire\<close>, \<open>internal/prober\<close>,
  \<open>internal/probe\<close>, \<open>internal/watch\<close>, and the coordinator's endpoints): whose word a result is, which
  requests cause traffic and how often, where a probe may connect, what an answer proves, when the
  coordinator is declared dead, and how assignments and mesh reports get from one side to the other.
\<close>

section \<open>Results\<close>

text \<open>C25: every result the coordinator accepts was signed as a scheduled result with the key registered
  for its prober; no other kind of message, and nobody else's signature, can stand in for it.\<close>

theorem accepted_results_genuine:
  assumes "handle_result cr cd k cfg now free body co = (co', ResultSubmitted (AcceptedResult r))"
    and "unforgeable cr k log"
  shows "\<exists>env p pub. body = Some env \<and> cd_decode cd (ev_payload env) = Some p \<and> rp_request_id p = [] \<and>
    map_of k (r_prober r) = Some pub \<and> (pub, DomainResult, ev_payload env) \<in> log \<and>
    (is_zero now \<or> r_at r \<le> now + max_clock_skew)"
  by (rule accepted_result_genuine [OF assms])

definition one_signature :: "domain \<Rightarrow> bytes \<Rightarrow> crypto" where
  "one_signature d payload = \<lparr>cr_sign = (\<lambda>_ m. m),
     cr_verify = (\<lambda>pub m sig. pub = ''key'' \<and> m = signed_bytes d payload \<and> sig = ''ok'')\<rparr>"

definition one_message :: "bytes \<Rightarrow> 'm \<Rightarrow> 'm codec" where
  "one_message raw m = \<lparr>cd_encode = (\<lambda>x. None), cd_decode = (\<lambda>s. if s = raw then Some m else None)\<rparr>"

lemma one_signature_unforgeable: "unforgeable (one_signature d payload) k {(''key'', d, payload)}"
  by (auto simp: unforgeable_def one_signature_def)

definition an_envelope :: envelope where
  "an_envelope = \<lparr>ev_peer = ''ams'', ev_payload = ''body'', ev_signature = ''ok''\<rparr>"

definition scheduled :: result_payload where
  "scheduled = \<lparr>rp_result = a_result ''ams'' StatusUp (1000 * second), rp_request_id = []\<rparr>"

definition accepted_run :: "coord \<times> result_response" where
  "accepted_run = handle_result (one_signature DomainResult ''body'') (one_message ''body'' scheduled)
     [(''ams'', ''key'')] config3 (1000 * second) True (Some an_envelope) start"

lemma accepted_answer:
  "snd accepted_run = ResultSubmitted (AcceptedResult ((a_result ''ams'' StatusUp (1000 * second))\<lparr>r_provider := ''one''\<rparr>))"
  by code_simp

theorem accepted_results_genuine_witness:
  "\<exists>p. cd_decode (one_message ''body'' scheduled) ''body'' = Some p \<and> rp_request_id p = []"
proof -
  have "handle_result (one_signature DomainResult ''body'') (one_message ''body'' scheduled) [(''ams'', ''key'')]
      config3 (1000 * second) True (Some an_envelope) start =
    (fst accepted_run, ResultSubmitted (AcceptedResult ((a_result ''ams'' StatusUp (1000 * second))\<lparr>r_provider := ''one''\<rparr>)))"
    using accepted_answer by (simp add: accepted_run_def prod_eq_iff)
  from accepted_results_genuine [OF this one_signature_unforgeable] show ?thesis by auto
qed

section \<open>Requests\<close>

text \<open>C26: the only network traffic a prober makes on request is for requests that a registered key
  signed for this prober, unexpired when they were opened and with a valid check. However its handlers
  overlap and however often a request arrives, it is carried out a second time only by a handler that
  entered the mutex after the request had expired, having opened it before.\<close>

theorem request_runs_once:
  assumes "sorted (map (\<lambda>e. fst (snd e)) events)" "\<forall>e \<in> set events. zero_time < fst e"
    and "pc_ring cfg = Some k" "unforgeable cr k log"
  shows "sorted_wrt (\<lambda>(r, _) (r', taken'). same_request r r' \<longrightarrow> rq_expires_at r < taken')
      (probes_made cr cd cfg run [] events) \<and>
    (\<forall>(r, taken) \<in> set (probes_made cr cd cfg run [] events).
       rq_prober r = pc_name cfg \<and> check_validate (rq_check r) = None \<and>
       (\<exists>opened env pub. (opened, taken, Some env) \<in> set events \<and> opened \<le> rq_expires_at r \<and>
          cd_decode cd (ev_payload env) = Some r \<and>
          (pub, DomainRequest, ev_payload env) \<in> log \<and> map_of k (ev_peer env) = Some pub))"
proof (intro conjI ballI)
  show "sorted_wrt (\<lambda>(r, _) (r', taken'). same_request r r' \<longrightarrow> rq_expires_at r < taken')
      (probes_made cr cd cfg run [] events)"
    by (rule probes_made_once [OF assms(1)]) simp
  fix x assume x: "x \<in> set (probes_made cr cd cfg run [] events)"
  obtain r taken where rt: "x = (r, taken)" by (cases x)
  with x obtain opened env where b: "(opened, taken, Some env) \<in> set events"
      "open_request cr cd k env opened = Inr r" "rq_prober r = pc_name cfg"
    using probes_made_opened [OF _ assms(3)] by blast
  from requests.authentic [OF b(2) assms(4)] obtain pub where
    "map_of k (ev_peer env) = Some pub" "(pub, DomainRequest, ev_payload env) \<in> log"
    "cd_decode cd (ev_payload env) = Some r" by blast
  moreover have "opened \<le> rq_expires_at r"
    using open_request_checks(1) [OF b(2)] assms(2) b(1) by auto
  ultimately show "case x of (r, taken) \<Rightarrow> rq_prober r = pc_name cfg \<and> check_validate (rq_check r) = None \<and>
       (\<exists>opened env pub. (opened, taken, Some env) \<in> set events \<and> opened \<le> rq_expires_at r \<and>
          cd_decode cd (ev_payload env) = Some r \<and>
          (pub, DomainRequest, ev_payload env) \<in> log \<and> map_of k (ev_peer env) = Some pub)"
    using b open_request_checks(2) [OF b(2)] rt by auto
qed

definition ams_prober :: prober_config where
  "ams_prober = \<lparr>pc_name = ''ams'', pc_coordinator = ''hub'', pc_provider = ''one'', pc_key = [],
     pc_ring = Some [(''ams'', ''key'')], pc_profiles = [], pc_max_concurrent = 0\<rparr>"

definition a_request :: request where
  "a_request = \<lparr>rq_id = ''nonce'', rq_prober = ''ams'', rq_check = web_check, rq_issued_at = 4, rq_expires_at = 9\<rparr>"

definition asked :: "(time \<times> time) list \<Rightarrow> (request \<times> time) list" where
  "asked readings = probes_made (one_signature DomainRequest ''body'') (one_message ''body'' a_request) ams_prober
     (\<lambda>_ _. Inl RunCancelled) [] (map (\<lambda>(opened, taken). (opened, taken, Some an_envelope)) readings)"

theorem request_runs_once_witness: "length (asked [(5, 5), (6, 6)]) \<le> 1"
proof -
  let ?events = "map (\<lambda>(opened, taken). (opened, taken, Some an_envelope)) [(5 :: time, 5 :: time), (6, 6)]"
  have events: "sorted (map (\<lambda>e. fst (snd e)) ?events)" "\<forall>e \<in> set ?events. zero_time < fst e"
    "pc_ring ams_prober = Some [(''ams'', ''key'')]"
    by (simp_all add: zero_time_def ams_prober_def)
  note once = request_runs_once [OF events one_signature_unforgeable, of DomainRequest "''body''"
      "one_message ''body'' a_request" "\<lambda>_ _. Inl RunCancelled", folded asked_def]
  have made: "r = a_request \<and> taken \<le> 6" if "(r, taken) \<in> set (asked [(5, 5), (6, 6)])" for r taken
    using once that by (auto simp: one_message_def split: if_splits)
  show ?thesis
  proof (rule ccontr)
    assume "\<not> ?thesis"
    then obtain x y zs where xy: "asked [(5, 5), (6, 6)] = x # y # zs"
      by (cases "asked [(5, 5), (6, 6)]"; cases "tl (asked [(5, 5), (6, 6)])") auto
    obtain r1 t1 r2 t2 where p: "x = (r1, t1)" "y = (r2, t2)" by (cases x; cases y)
    from once xy p have "same_request r1 r2 \<longrightarrow> rq_expires_at r1 < t2" by simp
    with made [of r1 t1] made [of r2 t2] xy p show False by (simp add: same_request_def a_request_def)
  qed
qed

text \<open>The gap is real: a request, opened in time twice, runs twice when the second handler reaches the mutex after
  it has expired, for then its first use has been forgotten.\<close>

theorem replay_across_expiry:
  assumes "pc_ring cfg = Some k" "open_request cr cd k env t1 = Inr r" "open_request cr cd k env t2 = Inr r"
    and "rq_prober r = pc_name cfg" "rq_expires_at r < taken"
  shows "probes_made cr cd cfg run [] [(t1, t1, Some env), (t2, taken, Some env)] = [(r, t1), (r, taken)]"
  using assms by (auto simp: handle_probe_def accept_request_def)

section \<open>Probes\<close>

text \<open>C27: a public check may connect to exactly the IPv4 addresses outside the ranges listed in
  \<open>never_ranges\<close> (link-local with its metadata services, multicast, the unspecified address) and
  \<open>not_public_ranges\<close> (loopback, private and special-use space) that no exclusion covers and, if there
  is an allowlist, that an entry covers. No entry of either list can re-admit an address of the ranges.\<close>

theorem guard_public_ranges:
  "allows p VantagePublic (V4 a) = None \<longleftrightarrow>
     outside never_ranges (uint a) \<and> outside not_public_ranges (uint a) \<and>
     (\<forall>d \<in> set (po_deny p). \<not> prefix_contains d (V4 a)) \<and>
     (po_allow p = [] \<or> (\<exists>q \<in> set (po_allow p). prefix_contains q (V4 a)))"
  by (rule allows_public4)

theorem guard_public_ranges_witness:
  "allows \<lparr>po_allow = [], po_deny = [net4 0x08080800 24], po_require_allow = True\<rparr> VantagePublic (V4 0x08080404) = None"
  by (subst guard_public_ranges)
    (simp add: outside_def never_ranges_def not_public_ranges_def quad_def v4_net)

text \<open>C28: a prober aimed at addresses its own guard refuses casts no vote, whatever the kind of check: the
  outcome is unknown, never down. A check that connects is aimed at the addresses its target (a DNS check
  with a server of its own: that server) resolves to, an HTTP check if it does not go through a proxy; a
  ping at the addresses of its target; a DNS check that asks the resolver for addresses at those it is
  told, where one refused is enough.\<close>

theorem misaimed_probe_never_votes:
  assumes "dg_lookup dg = None" "dg_tries dg \<noteq> []"
    and "\<forall>a \<in> fst ` set (dg_tries dg). \<exists>x reason. dial_control split_hp parse_addr (c_vantage c) p a = Some (Blocked x reason)"
    and "control = guard_control split_hp parse_addr show_refusal (c_vantage c) p"
    and "ic_lookup i = None" "\<forall>x \<in> set (ic_addrs i). allows p (c_vantage c) (unmap_addr x) \<noteq> None"
    and "x \<in> set xs" "wanted_family (if c_dns_record c = [] then ''A'' else c_dns_record c) x"
      "allows p (c_vantage c) (unmap_addr x) \<noteq> None"
    and "c_proxy_profile c = []"
  shows "fst (probe_tcp control dg latency) = StatusUnknown \<and>
    fst (probe_banner control c dg deadline stream latency) = StatusUnknown \<and>
    fst (probe_request control c dg script) = StatusUnknown \<and>
    fst (probe_ntp now deadline sent reply latency control dg) = StatusUnknown \<and>
    fst (probe_tls c t control dg) = StatusUnknown \<and>
    fst (probe_smtp c s control dg) = StatusUnknown \<and>
    fst (probe_grpc c g control dg) = StatusUnknown \<and>
    fst (probe_http_direct profiles request phases c h control dg) = StatusUnknown \<and>
    fst (probe_server c sv control dg) = StatusUnknown \<and>
    fst (probe_dns p show_addr show_reason c (AddrAnswer xs) failure latency) = StatusUnknown \<and>
    fst (probe_icmp p c counter i) = StatusUnknown"
proof -
  have blocked: "\<exists>m. control a = Some (BlockedTarget m)" if "a \<in> fst ` set (dg_tries dg)" for a
    using assms(3,4) that by (auto simp: guard_control_def dest!: bspec)
  have direct: "c\<lparr>c_proxy_profile := []\<rparr> = c" using assms(10) by (cases c) simp
  have "fst (probe_http_direct profiles request phases (c\<lparr>c_proxy_profile := []\<rparr>) h control dg) = StatusUnknown"
    by (rule http.refused_unknown) (simp_all add: assms(1,2) blocked)
  moreover have "fst (probe_dns p show_addr show_reason c (AddrAnswer xs) failure latency) = StatusUnknown"
    using dns_refused [OF assms(7,8), where guard = "allows p (c_vantage c)", OF assms(9), of show_addr]
    by (auto simp: probe_dns_def Let_def)
  moreover have "fst (probe_icmp p c counter i) = StatusUnknown"
    by (simp add: probe_icmp_def assms(5) select_refused [OF assms(6)])
  ultimately show ?thesis
    unfolding direct
    by (intro conjI tcp.refused_unknown banner.refused_unknown tcp_request.refused_unknown ntp.refused_unknown
        tls.refused_unknown smtp.refused_unknown grpc.refused_unknown dns_server.refused_unknown)
      (simp_all add: assms(1,2) blocked)
qed

definition metadata_dial :: dialing where
  "metadata_dial = \<lparr>dg_lookup = None, dg_tries = [(''169.254.169.254:80'', None)]\<rparr>"

definition open_policy :: policy where
  "open_policy = \<lparr>po_allow = [], po_deny = [], po_require_allow = False\<rparr>"

definition metadata_control :: "string \<Rightarrow> err option" where
  "metadata_control = guard_control (\<lambda>s. Some (s, [])) (\<lambda>_. Some (V4 0xa9fea9fe)) (\<lambda>_. []) VantageInternal open_policy"

definition metadata_check :: check where
  "metadata_check = web_check\<lparr>c_vantage := VantageInternal, c_proxy_profile := [], c_dns_record := []\<rparr>"

definition metadata_ping :: icmp_script where
  "metadata_ping = \<lparr>ic_lookup = None, ic_addrs = [V4 0xa9fea9fe], ic_socket = None, ic_deadline = None, ic_write = None,
     ic_packets = [], ic_final = DeadlineExceeded, ic_latency = 7\<rparr>"

theorem misaimed_probe_never_votes_witness:
  "fst (probe_tcp metadata_control metadata_dial 7) = StatusUnknown \<and>
   fst (probe_dns open_policy (\<lambda>_. []) (\<lambda>_. []) metadata_check (AddrAnswer [V4 0xa9fea9fe]) None 7) = StatusUnknown \<and>
   fst (probe_icmp open_policy metadata_check 0 metadata_ping) = StatusUnknown"
proof -
  have "link_local_unicast (V4 0xa9fea9fe)" by (simp add: link_local_unicast_def drop_bit_range)
  then have refused: "allows open_policy VantageInternal (V4 0xa9fea9fe) = Some LinkLocalNeverProbed"
    by (simp add: allows_def)
  then have "dial_control (\<lambda>s. Some (s, [])) (\<lambda>_. Some (V4 0xa9fea9fe)) VantageInternal open_policy a =
      Some (Blocked (V4 0xa9fea9fe) LinkLocalNeverProbed)" for a
    by (simp add: dial_control_def)
  then have dialled: "\<forall>a \<in> fst ` set (dg_tries metadata_dial). \<exists>x reason. dial_control (\<lambda>s. Some (s, []))
      (\<lambda>_. Some (V4 0xa9fea9fe)) (c_vantage metadata_check) open_policy a = Some (Blocked x reason)"
    by (simp add: metadata_check_def)
  have control: "metadata_control = guard_control (\<lambda>s. Some (s, [])) (\<lambda>_. Some (V4 0xa9fea9fe)) (\<lambda>_. [])
      (c_vantage metadata_check) open_policy"
    by (simp add: metadata_control_def metadata_check_def)
  have pinged: "\<forall>x \<in> set (ic_addrs metadata_ping). allows open_policy (c_vantage metadata_check) (unmap_addr x) \<noteq> None"
    using refused by (simp add: metadata_ping_def metadata_check_def)
  have told: "V4 0xa9fea9fe \<in> set [V4 0xa9fea9fe]" "c_proxy_profile metadata_check = []" "ic_lookup metadata_ping = None"
    "wanted_family (if c_dns_record metadata_check = [] then ''A'' else c_dns_record metadata_check) (V4 0xa9fea9fe)"
    "allows open_policy (c_vantage metadata_check) (unmap_addr (V4 0xa9fea9fe)) \<noteq> None"
    "dg_lookup metadata_dial = None" "dg_tries metadata_dial \<noteq> []"
    using refused by (simp_all add: metadata_check_def metadata_ping_def metadata_dial_def)
  note all = misaimed_probe_never_votes [OF told(6,7) dialled control told(3) pinged told(1) told(4,5) told(2)]
  show ?thesis
    using all [where latency = 7] all [where latency = 7 and show_addr = "\<lambda>_. []" and show_reason = "\<lambda>_. []" and failure = None and counter = 0]
    by blast
qed

text \<open>An exclusion the operator wrote as an IPv4-mapped address is accepted without complaint and
  changes nothing: the policy allows exactly what it allows without it.\<close>

theorem mapped_exclusion_ignored:
  assumes "parse_prefix s = None" "parse_addr s = Some (V6 a z)" "mapped a"
  shows "\<exists>d. parse_prefixes parse_prefix parse_addr [s] = Inr [d] \<and>
    (\<forall>p v x. allows (p\<lparr>po_deny := d # po_deny p\<rparr>) v x = allows p v x)"
proof -
  obtain d where d: "parse_prefixes parse_prefix parse_addr [s] = Inr [d]" "\<And>x. \<not> prefix_contains d x"
    using mapped_single_host [of parse_prefix s parse_addr a z, OF assms] by blast
  then show ?thesis by (auto simp: allows_def)
qed

theorem mapped_exclusion_ignored_witness:
  "\<exists>d. parse_prefixes (\<lambda>_. None) (\<lambda>_. Some (V6 0xffff0a000001 [])) [''::ffff:10.0.0.1''] = Inr [d] \<and>
     allows \<lparr>po_allow = [], po_deny = [d], po_require_allow = False\<rparr> VantageInternal (V4 0x0a000001) = None"
proof -
  have "mapped 0xffff0a000001" by (simp add: mapped_def drop_bit_range)
  from mapped_exclusion_ignored [OF _ _ this, where parse_prefix = "\<lambda>_. None" and s = "''::ffff:10.0.0.1''" and
      parse_addr = "\<lambda>_. Some (V6 0xffff0a000001 [])" and z = "[]"]
  obtain d where d: "parse_prefixes (\<lambda>_. None) (\<lambda>_. Some (V6 0xffff0a000001 [])) [''::ffff:10.0.0.1''] = Inr [d]"
    and same: "\<And>p v x. allows (p\<lparr>po_deny := d # po_deny p\<rparr>) v x = allows p v x" by auto
  have "\<not> (link_local_unicast (V4 0x0a000001) \<or> link_local_multicast (V4 0x0a000001) \<or> multicast (V4 0x0a000001) \<or>
      unspecified (V4 0x0a000001))"
    unfolding v4_never by (simp add: outside_def never_ranges_def quad_def)
  then have "allows \<lparr>po_allow = [], po_deny = [], po_require_allow = False\<rparr> VantageInternal (V4 0x0a000001) = None"
    by (simp add: allows_def)
  with same [of "\<lparr>po_allow = [], po_deny = [], po_require_allow = False\<rparr>"] d show ?thesis by auto
qed

text \<open>A request check finds its answer exactly when the first 64 KiB of the stream contain it; how the
  network cut the stream into reads does not matter, neither for finding the answer nor for what is
  reported when it is missing.\<close>

theorem stream_cut_irrelevant:
  "if contains_text (take max_body_read (concat chunks)) expect
   then \<exists>buf. request_loop expect [] chunks final = Matched buf
   else request_loop expect [] chunks final =
     (if length (take max_body_read (concat chunks)) < max_body_read \<and> final \<noteq> EndOfFile then ReadFailed final
      else Exhausted (take max_body_read (concat chunks)))"
proof (cases "expect = []")
  case True
  have all: "contains_text s []" for s by (cases s) simp_all
  then have "\<exists>buf. request_loop [] [] chunks final = Matched buf"
    by (subst request_loop.simps) (auto simp: Let_def max_body_read_def split: list.splits)
  with all show ?thesis using True by simp
next
  case False
  then have "\<not> contains_text [] expect" by simp
  from request_loop_stream [OF _ this, of chunks final] show ?thesis
    by (auto simp: Let_def split: if_splits)
qed

section \<open>The dead-man's switch\<close>

text \<open>Whatever beats and ticks a watcher has seen, its alerts open and close in turn; while the
  coordinator stays quiet, the ticks send exactly one alert, at the first tick past the grace period,
  and none if every tick falls within it.\<close>

theorem silence_reported_once:
  assumes "emit_run (watch_step cr cd k) (new_watcher grace t0) events = (w, as)"
    and "emit_run (watch_step cr cd k) w (map Tick ts) = (w', bs)"
  shows "alternates (\<lambda>a. al_kind a = KindWatchLost) (\<lambda>a. al_kind a = KindWatchRecovered) False
      (filter (\<lambda>a. al_kind a = KindWatchLost \<or> al_kind a = KindWatchRecovered) as) \<and>
    (if wt_alive w then map al_at bs = take 1 (late_ticks w ts) \<and> (\<forall>b \<in> set bs. al_kind b = KindWatchLost) \<and>
        wt_alive w' = (late_ticks w ts = [])
     else bs = [])"
  using switch.run_alternates [OF assms(1)] ticks_once [OF _ assms(2)] ticks_dead [of w cr cd k ts] assms(2)
  by (auto simp: new_watcher_def)

theorem silence_reported_once_witness:
  "map al_at (snd (emit_run (watch_step (one_signature DomainHeartbeat []) (one_message [] empty_beat) [])
     (new_watcher 10 100) (map Tick [105, 111, 115, 130]))) = [111]"
proof -
  have "late_ticks (new_watcher 10 100) [105, 111, 115, 130] = [111, 115, 130]" by code_simp
  then show ?thesis
    using silence_reported_once [where events = "[]" and grace = 10 and ?t0.0 = 100 and ts = "[105, 111, 115, 130]" and
        w = "new_watcher 10 100" and as = "[]" and cr = "one_signature DomainHeartbeat []" and
        cd = "one_message [] empty_beat" and k = "[]", OF _ surjective_pairing]
    by (simp add: new_watcher_def)
qed

section \<open>Assignments and isolation, from one end to the other\<close>

text \<open>C29: the assignments the coordinator signs for a prober are the ones the prober ends up running:
  opened within two minutes they decode to the same checks, and after the reconciliation exactly these
  run, each in its current form.\<close>

theorem assignments_reach_prober:
  assumes "handle_checks cr pcd ccd key cfg self t (Some who) co = Document env"
    and "faithful pcd" "faithful ccd" "pc_ring pcfg = Some k" "map_of k self = Some pub" "key_pair cr key pub"
    and "pc_coordinator pcfg = self" "pc_name pcfg = who" "int (length (ev_payload env)) \<le> max_payload_bytes"
    and "now - 2 * minute \<le> t" "t \<le> now + max_clock_skew"
    and "\<forall>c \<in> set (co_checks co). check_validate c = None" "distinct (map c_name (co_checks co))"
    and "distinct (map fst running)"
  shows "open_assignments cr pcd (cd_decode ccd) pcfg now env = Inr (assigned_checks cfg t co who) \<and>
    map_of (fst (reconcile (\<lambda>a b. a = b) running (assigned_checks cfg t co who))) =
      map_of (map (\<lambda>c. (c_name c, c)) (assigned_checks cfg t co who))"
proof (intro conjI)
  show "open_assignments cr pcd (cd_decode ccd) pcfg now env = Inr (assigned_checks cfg t co who)"
    by (rule assignments_delivered [OF assms(1-12)])
  have "distinct (map c_name (assigned_checks cfg t co who))"
    using assms(13) unfolding assigned_checks_def checks_for_def
    by (auto simp: distinct_map intro: inj_on_subset)
  then have names: "map_of (by_name (assigned_checks cfg t co who)) =
      map_of (map (\<lambda>c. (c_name c, c)) (assigned_checks cfg t co who))"
    using distinct_names by blast
  obtain running' cancelled started where
    rc: "reconcile (\<lambda>a b. a = b) running (assigned_checks cfg t co who) = (running', cancelled, started)"
    by (metis prod_cases3)
  from reconcile_runs(1) [OF rc assms(14)] names rc
  show "map_of (fst (reconcile (\<lambda>a b. a = b) running (assigned_checks cfg t co who))) =
      map_of (map (\<lambda>c. (c_name c, c)) (assigned_checks cfg t co who))" by simp
qed

definition open_signature :: crypto where
  "open_signature = \<lparr>cr_sign = (\<lambda>_ m. m), cr_verify = (\<lambda>_ m sig. sig = m)\<rparr>"

definition only :: "bytes \<Rightarrow> 'm \<Rightarrow> 'm codec" where
  "only raw m = \<lparr>cd_encode = (\<lambda>x. if x = m then Some raw else None), cd_decode = (\<lambda>s. if s = raw then Some m else None)\<rparr>"

lemma only_faithful: "faithful (only raw m)"
  by (auto simp: faithful_def only_def)

definition ams_document :: published where
  "ams_document = \<lparr>pd_audience = ''ams'', pd_kind = ''assignments'', pd_issued_at = 1000 * second, pd_data = ''checks''\<rparr>"

definition ams_runner :: prober_config where
  "ams_runner = ams_prober\<lparr>pc_ring := Some [(''hub'', ''key'')]\<rparr>"

definition ams_envelope :: envelope where
  "ams_envelope = \<lparr>ev_peer = ''hub'', ev_payload = ''document'',
     ev_signature = signed_bytes DomainDoc ''document''\<rparr>"

lemma ams_assigned: "assigned_checks config3 (1000 * second) start ''ams'' = [web_check]"
  by code_simp

lemma ams_published: "handle_checks open_signature (only ''document'' ams_document) (only ''checks'' [web_check])
    (replicate 64 (CHR ''k'')) config3 ''hub'' (1000 * second) (Some ''ams'') start = Document ams_envelope"
  by (simp add: handle_checks_def ams_assigned sign_published_def sign_document_def seal_def only_def
      private_key_size_def ams_document_def ams_envelope_def open_signature_def)

theorem assignments_reach_prober_witness:
  "map_of (fst (reconcile (\<lambda>a b. a = b) [(''old'', web_check)] [web_check])) = [''web'' \<mapsto> web_check]"
proof -
  have keys: "key_pair open_signature (replicate 64 (CHR ''k'')) ''key''"
    by (simp add: key_pair_def private_key_size_def open_signature_def)
  have ring: "pc_ring ams_runner = Some [(''hub'', ''key'')]" "map_of [(''hub'', ''key'')] ''hub'' = Some ''key''"
    by (simp_all add: ams_runner_def)
  have names: "pc_coordinator ams_runner = ''hub''" "pc_name ams_runner = ''ams''"
    by (simp_all add: ams_runner_def ams_prober_def)
  have size: "int (length (ev_payload ams_envelope)) \<le> max_payload_bytes"
    by (simp add: ams_envelope_def max_payload_bytes_def)
  have times: "1010 * second - 2 * minute \<le> 1000 * second" "1000 * second \<le> 1010 * second + max_clock_skew"
    by (simp_all add: max_clock_skew_def minute_def second_def)
  have "co_checks start = [web_check]" by (simp add: start_def initial_coord_def)
  then have checks: "\<forall>c \<in> set (co_checks start). check_validate c = None" "distinct (map c_name (co_checks start))"
    using web_check_valid by simp_all
  have running: "distinct (map fst [(''old'', web_check)])" by simp
  note runs = assignments_reach_prober [OF ams_published only_faithful only_faithful ring(1,2) keys names size times
      checks running, THEN conjunct2]
  show ?thesis using runs unfolding ams_assigned by (simp add: web_check_def)
qed

text \<open>A prober none of whose connections to its peers worked, and who tried as many as isolation
  requires, counts as isolated from the moment the coordinator takes in the report of that round.\<close>

theorem cut_off_prober_isolated:
  assumes "mesh_round self t answer peers = Some rep" "\<forall>a. \<exists>e. answer a = Inl e" "self \<noteq> []"
    and "reports_ok (co_reports co)" "peer_by_name (cc_peers cfg) self \<noteq> None"
    and "\<forall>old. map_of (co_reports co) self = Some old \<longrightarrow> rep_at old < t"
    and "(if cc_mesh_min_peers cfg \<le> 0 then default_min_peers else cc_mesh_min_peers cfg) \<le>
      int (length (filter (\<lambda>p. mp_name p \<noteq> self \<and> mp_address p \<noteq> []) peers))"
    and "now - (if cc_mesh_max_age cfg \<le> 0 then default_mesh_max_age else cc_mesh_max_age cfg) \<le> t"
  shows "isolated_probers cfg now (fst (handle_mesh w cfg now (Some rep) co)) self"
  using cut_off_isolated [OF assms(1) _ assms(3-5) _ assms(7,8)] assms(2,6) by blast

definition two_peers :: "mesh_peer list" where
  "two_peers = [\<lparr>mp_name = ''fra'', mp_address = ''fra:1''\<rparr>, \<lparr>mp_name = ''nyc'', mp_address = ''nyc:1''\<rparr>]"

theorem cut_off_prober_isolated_witness:
  "isolated_probers config3 1010 (fst (handle_mesh plain_world config3 1010
     (mesh_round ''ams'' 1000 (\<lambda>_. Inl ''refused'') two_peers) start)) ''ams''"
proof -
  obtain rep where rep: "mesh_round ''ams'' 1000 (\<lambda>_. Inl ''refused'') two_peers = Some rep"
    by (simp add: mesh_round_def two_peers_def)
  show ?thesis
    unfolding rep
    by (rule cut_off_prober_isolated [OF rep])
      (simp_all add: start_def initial_coord_def reports_ok_def config3_def fleet3_def a_peer_def peer_by_name_def
        default_min_peers_def two_peers_def default_mesh_max_age_def minute_def)
qed

end
