(* ===== verification/Passwords.thy ===== *)
theory Passwords
  imports Base64 Check
begin

text \<open>
  Secrets and passwords (\<open>internal/coordinator/auth.go\<close>): random secrets, the hashes under which
  tokens and sessions are kept, and the text form of an Argon2id password hash. SHA-256 and
  Argon2id are the parameters \<open>kd_sha256\<close> and \<open>kd_argon\<close> (password, salt, iterations, memory,
  parallelism and length of the key); what the random source returned is an argument, \<open>None\<close> when
  it failed.
\<close>

record kdf =
  kd_sha256 :: "bytes \<Rightarrow> bytes"
  kd_argon :: "bytes \<Rightarrow> bytes \<Rightarrow> nat \<Rightarrow> nat \<Rightarrow> nat \<Rightarrow> nat \<Rightarrow> bytes"

section \<open>Unpadded base64, hexadecimal, decimal\<close>

fun raw_quanta :: "string \<Rightarrow> string \<Rightarrow> bytes option" where
  "raw_quanta al [] = Some []"
| "raw_quanta al [p] = None"
| "raw_quanta al [p, q] =
     (case (index_of al p, index_of al q) of
        (Some x, Some y) \<Rightarrow> Some [byte (x * 4 + y div 16)] | _ \<Rightarrow> None)"
| "raw_quanta al [p, q, r] =
     (case (index_of al p, index_of al q, index_of al r) of
        (Some x, Some y, Some z) \<Rightarrow> Some [byte (x * 4 + y div 16), byte (y mod 16 * 16 + z div 4)]
      | _ \<Rightarrow> None)"
| "raw_quanta al (p # q # r # s # rs) =
     (case (index_of al p, index_of al q, index_of al r, index_of al s) of
        (Some x, Some y, Some z, Some v) \<Rightarrow>
          map_option (\<lambda>more. byte (x * 4 + y div 16) # byte (y mod 16 * 16 + z div 4) #
            byte (z mod 4 * 64 + v) # more) (raw_quanta al rs)
      | _ \<Rightarrow> None)"

definition b64_decode_raw :: "string \<Rightarrow> string \<Rightarrow> bytes option" where
  "b64_decode_raw al s = raw_quanta al (filter (\<lambda>c. c \<noteq> CHR 0x0A \<and> c \<noteq> CHR 0x0D) s)"

definition hex_digits :: string where "hex_digits = ''0123456789abcdef''"

definition hex_encode :: "bytes \<Rightarrow> string" where
  "hex_encode bs = concat (map (\<lambda>c. [hex_digits ! (of_char c div 16), hex_digits ! (of_char c mod 16)]) bs)"

text \<open>The canonical decimal text of a 64-bit number, which is all \<open>verifyPassword\<close> accepts.\<close>

definition dec_value :: "string \<Rightarrow> nat" where
  "dec_value s = foldl (\<lambda>n c. n * 10 + (of_char c - 48)) 0 s"

definition parse_uint :: "string \<Rightarrow> nat option" where
  "parse_uint s =
     (if list_all (\<lambda>c. 48 \<le> (of_char c :: nat) \<and> (of_char c :: nat) \<le> 57) s \<and> itoa (dec_value s) = s \<and>
         int (dec_value s) < 18446744073709551616
      then Some (dec_value s) else None)"

section \<open>Secrets and password hashes\<close>

definition random_secret :: "bytes option \<Rightarrow> string option" where
  "random_secret raw = map_option (b64_encode url_alphabet False) raw"

definition secret_hash :: "kdf \<Rightarrow> string \<Rightarrow> string" where
  "secret_hash kd secret = hex_encode (kd_sha256 kd secret)"

definition argon_memory :: nat where "argon_memory = 65536"
definition argon_iterations :: nat where "argon_iterations = 1"
definition argon_parallelism :: nat where "argon_parallelism = 2"

definition argon_params :: "nat \<Rightarrow> nat \<Rightarrow> nat \<Rightarrow> string" where
  "argon_params memory iterations parallelism =
     ''m='' @ itoa memory @ '',t='' @ itoa iterations @ '',p='' @ itoa parallelism"

definition encode_hash :: "bytes \<Rightarrow> bytes \<Rightarrow> string" where
  "encode_hash salt key =
     ''$argon2id$v=19$'' @ argon_params argon_memory argon_iterations argon_parallelism @ ''$'' @
     b64_encode std_alphabet False salt @ ''$'' @ b64_encode std_alphabet False key"

datatype password_error = PasswordLength | NoRandomness

definition hash_password :: "kdf \<Rightarrow> bytes option \<Rightarrow> string \<Rightarrow> password_error + string" where
  "hash_password kd salt password =
     (if length password < 12 \<or> length password > 1024 then Inl PasswordLength
      else case salt of
        None \<Rightarrow> Inl NoRandomness
      | Some salt \<Rightarrow>
          Inr (encode_hash salt (kd_argon kd password salt argon_iterations argon_memory argon_parallelism 32)))"

text \<open>
  \<open>Sscanf\<close> followed by the comparison with the canonical text: the parameters are accepted exactly
  when the text is \<open>m=\<close>, \<open>,t=\<close>, \<open>,p=\<close> with canonical numbers.
\<close>

definition parse_params :: "string \<Rightarrow> (nat \<times> nat \<times> nat) option" where
  "parse_params s =
     (case split_on CHR '','' s of
        [m, t, p] \<Rightarrow>
          if has_prefix m ''m='' \<and> has_prefix t ''t='' \<and> has_prefix p ''p='' then
            (case (parse_uint (drop 2 m), parse_uint (drop 2 t), parse_uint (drop 2 p)) of
               (Some memory, Some iterations, Some parallelism) \<Rightarrow> Some (memory, iterations, parallelism)
             | _ \<Rightarrow> None)
          else None
      | _ \<Rightarrow> None)"

definition verify_password :: "kdf \<Rightarrow> string \<Rightarrow> string \<Rightarrow> bool" where
  "verify_password kd encoded password =
     (case split_on CHR ''$'' encoded of
        [_, alg, version, params, salt, key] \<Rightarrow>
          alg = ''argon2id'' \<and> version = ''v=19'' \<and>
          (case parse_params params of
             None \<Rightarrow> False
           | Some (memory, iterations, parallelism) \<Rightarrow>
               (case (b64_decode_raw std_alphabet salt, b64_decode_raw std_alphabet key) of
                  (Some salt, Some expected) \<Rightarrow>
                    length expected = 32 \<and> 8 * 1024 \<le> memory \<and> memory \<le> 256 * 1024 \<and>
                    1 \<le> iterations \<and> iterations \<le> 10 \<and> 1 \<le> parallelism \<and> parallelism \<le> 16 \<and>
                    kd_argon kd password salt iterations memory parallelism (length expected) = expected
                | _ \<Rightarrow> False))
      | _ \<Rightarrow> False)"

declare itoa.simps [simp del]

section \<open>A hash verifies exactly the passwords with its key\<close>

lemma raw_quanta_encode: "raw_quanta std_alphabet (b64_encode std_alphabet False bs) = Some bs"
  by (induction std_alphabet False bs rule: b64_encode.induct)
    (simp_all add: digits1_def digits2_def digits3_def std_digit sextets)

lemma encode_raw_no_breaks:
  "filter (\<lambda>c. c \<noteq> CHR 0x0A \<and> c \<noteq> CHR 0x0D) (b64_encode std_alphabet False bs) = b64_encode std_alphabet False bs"
  by (induction std_alphabet False bs rule: b64_encode.induct)
    (simp_all add: digits1_def digits2_def digits3_def std_plain sextets)

lemma decode_raw_encode [simp]: "b64_decode_raw std_alphabet (b64_encode std_alphabet False bs) = Some bs"
  by (simp add: b64_decode_raw_def encode_raw_no_breaks raw_quanta_encode)

lemma set_b64: "length al = 64 \<Longrightarrow> set (b64_encode al False bs) \<subseteq> set al"
  by (induction al False bs rule: b64_encode.induct)
    (simp_all add: digits1_def digits2_def digits3_def sextets)

lemma digit_of_byte: "d < 10 \<Longrightarrow> of_char (byte (48 + d)) = 48 + d"
  by (simp add: byte_def)

lemma itoa_ascii: "c \<in> set (itoa n) \<Longrightarrow> 48 \<le> (of_char c :: nat) \<and> (of_char c :: nat) \<le> 57"
proof (induction n rule: itoa.induct)
  case (1 n)
  then show ?case
    by (subst (asm) itoa.simps) (auto simp: digit_of_byte split: if_splits)
qed

lemma dec_value_itoa [simp]: "dec_value (itoa n) = n"
proof (induction n rule: itoa.induct)
  case (1 n)
  then show ?case
    by (subst itoa.simps) (auto simp: dec_value_def digit_of_byte)
qed

lemma parse_uint_itoa [simp]: "int n < 18446744073709551616 \<Longrightarrow> parse_uint (itoa n) = Some n"
  by (auto simp: parse_uint_def list_all_iff dest: itoa_ascii)

lemma itoa_plain:
  "CHR '','' \<notin> set (itoa n)" "CHR ''$'' \<notin> set (itoa n)"
  by (auto dest!: itoa_ascii)

lemma split_on_append: "c \<notin> set a \<Longrightarrow> split_on c (a @ c # b) = a # split_on c b"
  by (induction a) auto

lemma split_on_plain: "c \<notin> set a \<Longrightarrow> split_on c a = [a]"
  by (induction a) auto

lemma parse_params_canonical:
  assumes "int m < 18446744073709551616" "int t < 18446744073709551616" "int p < 18446744073709551616"
  shows "parse_params (argon_params m t p) = Some (m, t, p)"
proof -
  have "split_on CHR '','' (argon_params m t p) = [''m='' @ itoa m, ''t='' @ itoa t, ''p='' @ itoa p]"
    using split_on_append [of "CHR '',''" "''m='' @ itoa m" "''t='' @ itoa t @ '',p='' @ itoa p"]
      split_on_append [of "CHR '',''" "''t='' @ itoa t" "''p='' @ itoa p"]
      split_on_plain [of "CHR '',''" "''p='' @ itoa p"]
    by (simp add: argon_params_def itoa_plain)
  with assms show ?thesis by (simp add: parse_params_def)
qed

lemma std_alphabet_no_dollar: "CHR ''$'' \<notin> set std_alphabet"
  by code_simp

lemma b64_no_dollar: "CHR ''$'' \<notin> set (b64_encode std_alphabet False bs)"
  using set_b64 [OF std_alphabet_facts(2), of bs] std_alphabet_no_dollar by blast

lemma split_encoded:
  "split_on CHR ''$'' (encode_hash salt key) =
     [[], ''argon2id'', ''v=19'', argon_params argon_memory argon_iterations argon_parallelism,
      b64_encode std_alphabet False salt, b64_encode std_alphabet False key]"
proof -
  have "CHR ''$'' \<notin> set (argon_params argon_memory argon_iterations argon_parallelism)"
    by (simp add: argon_params_def itoa_plain)
  then show ?thesis
    unfolding encode_hash_def
    using split_on_append [of "CHR ''$''" "[]"] split_on_append [of "CHR ''$''" "''argon2id''"]
      split_on_append [of "CHR ''$''" "''v=19''"]
    by (simp add: split_on_append split_on_plain b64_no_dollar)
qed

lemma verify_encoded:
  assumes "length key = 32"
  shows "verify_password kd (encode_hash salt key) password \<longleftrightarrow>
    kd_argon kd password salt argon_iterations argon_memory argon_parallelism 32 = key"
proof -
  have "parse_params (argon_params argon_memory argon_iterations argon_parallelism) =
      Some (argon_memory, argon_iterations, argon_parallelism)"
    by (rule parse_params_canonical)
      (simp_all add: argon_memory_def argon_iterations_def argon_parallelism_def)
  with assms show ?thesis
    by (simp add: verify_password_def split_encoded)
      (simp add: argon_memory_def argon_iterations_def argon_parallelism_def)
qed

lemma hash_password_verifies:
  assumes "hash_password kd (Some salt) password = Inr h"
    and "length (kd_argon kd password salt argon_iterations argon_memory argon_parallelism 32) = 32"
  shows "verify_password kd h attempt \<longleftrightarrow>
    kd_argon kd attempt salt argon_iterations argon_memory argon_parallelism 32 =
    kd_argon kd password salt argon_iterations argon_memory argon_parallelism 32"
  using assms by (auto simp: hash_password_def verify_encoded split: if_splits)

lemma verify_empty [simp]: "\<not> verify_password kd [] password"
  by (simp add: verify_password_def)

lemma hex_encode_inj: "hex_encode a = hex_encode b \<Longrightarrow> a = b"
proof (induction a arbitrary: b)
  case Nil
  then show ?case by (cases b) (simp_all add: hex_encode_def)
next
  case (Cons x a)
  have d: "distinct hex_digits" "length hex_digits = 16" by code_simp+
  from Cons.prems obtain y c where b: "b = y # c"
    and hi: "hex_digits ! (of_char x div 16) = hex_digits ! (of_char y div 16)"
    and lo: "hex_digits ! (of_char x mod 16) = hex_digits ! (of_char y mod 16)"
    and rest: "hex_encode a = hex_encode c"
    by (cases b) (simp_all add: hex_encode_def)
  have "(of_char x :: nat) div 16 = of_char y div 16" "(of_char x :: nat) mod 16 = of_char y mod 16"
    using hi lo d div_small(2) [OF char_lt] by (simp_all add: nth_eq_iff_index_eq)
  then have "(of_char x :: nat) = of_char y" by (metis div_mult_mod_eq)
  then have "x = y" by simp
  with Cons.IH [OF rest] b show ?case by simp
qed

lemma secret_hash_eq: "secret_hash kd a = secret_hash kd b \<longleftrightarrow> kd_sha256 kd a = kd_sha256 kd b"
  by (auto simp: secret_hash_def dest: hex_encode_inj)

end
