(* ===== verification/Auth.thy ===== *)
theory Auth
  imports Passwords "HOL-Library.AList"
begin

text \<open>
  Accounts, API tokens and browser sessions of the operator API (\<open>internal/coordinator/auth.go\<close>).
  The maps the code keeps under \<open>authMu\<close> are association lists with distinct keys; a handler is a
  function of the state, the request, its decoded body (\<open>None\<close> when decoding failed), the reading
  of the clock and what the random source returned. The sections a handler runs under the lock are
  separate definitions where another request can come between them.
\<close>

section \<open>Roles and permissions\<close>

datatype role = RoleViewer | RoleOperator | RoleAdmin | OtherRole string

datatype permission = PermissionView | PermissionOperate | PermissionRollback | PermissionManageAuth

definition valid_role :: "role \<Rightarrow> bool" where
  "valid_role r \<longleftrightarrow> r = RoleViewer \<or> r = RoleOperator \<or> r = RoleAdmin"

fun permissions_for :: "role \<Rightarrow> permission list" where
  "permissions_for RoleAdmin = [PermissionView, PermissionOperate, PermissionRollback, PermissionManageAuth]"
| "permissions_for RoleOperator = [PermissionView, PermissionOperate]"
| "permissions_for RoleViewer = [PermissionView]"
| "permissions_for (OtherRole _) = []"

definition role_allows :: "role \<Rightarrow> permission \<Rightarrow> bool" where
  "role_allows r p = list_ex (\<lambda>allowed. allowed = p) (permissions_for r)"

text \<open>Roles in order of what they allow; unknown texts come first, in the order of the texts.\<close>

fun role_rank :: "role \<Rightarrow> nat \<times> string" where
  "role_rank (OtherRole s) = (0, s)"
| "role_rank RoleViewer = (1, [])"
| "role_rank RoleOperator = (2, [])"
| "role_rank RoleAdmin = (3, [])"

lemma role_rank_inj: "role_rank a = role_rank b \<longleftrightarrow> a = b"
  by (cases a; cases b) auto

instantiation role :: linorder
begin

definition less_eq_role_def: "a \<le> b \<longleftrightarrow>
  fst (role_rank a) < fst (role_rank b) \<or>
  fst (role_rank a) = fst (role_rank b) \<and> snd (role_rank a) \<le> snd (role_rank b)"

definition less_role_def: "(a :: role) < b \<longleftrightarrow> a \<le> b \<and> \<not> b \<le> a"

instance
proof
  fix a b c :: role
  show "a < b \<longleftrightarrow> a \<le> b \<and> \<not> b \<le> a" by (rule less_role_def)
  show "a \<le> a" by (simp add: less_eq_role_def)
  show "a \<le> b \<Longrightarrow> b \<le> c \<Longrightarrow> a \<le> c" by (auto simp: less_eq_role_def)
  show "a \<le> b \<Longrightarrow> b \<le> a \<Longrightarrow> a = b"
    by (auto simp: less_eq_role_def prod_eq_iff simp flip: role_rank_inj)
  show "a \<le> b \<or> b \<le> a" by (auto simp: less_eq_role_def)
qed

end

section \<open>State\<close>

record user =
  us_username :: string
  us_role :: role
  us_password_hash :: string
  us_local_login :: bool
  us_disabled :: bool
  us_created_at :: time
  us_updated_at :: time

record api_token =
  tk_id :: string
  tk_name :: string
  tk_role :: role
  tk_prefix :: string
  tk_hash :: string
  tk_created_at :: time
  tk_created_by :: string
  tk_last_used_at :: "time option"
  tk_revoked_at :: "time option"

record session =
  se_token_hash :: string
  se_csrf_hash :: string
  se_username :: string
  se_created_at :: time
  se_expires_at :: time

datatype auth_method = LegacyToken | ApiToken | SessionCookie | NoMethod

record principal =
  pr_actor :: string
  pr_role :: role
  pr_permissions :: "permission list"
  pr_method :: auth_method
  pr_csrf :: string

record auth =
  au_users :: "(string \<times> user) list"
  au_tokens :: "(string \<times> api_token) list"
  au_sessions :: "(string \<times> session) list"
  au_failures :: "(string \<times> time list) list"

record oidc_config =
  oc_issuer :: string
  oc_client_id :: string
  oc_client_secret :: string
  oc_redirect :: string
  oc_claim :: string
  oc_label :: string
  oc_insecure_issuer :: bool
  oc_unverified_email :: bool

record auth_config =
  ac_operator_token :: string
  ac_bootstrap_username :: string
  ac_bootstrap_password :: string
  ac_skip_restore :: bool
  ac_session_ttl :: duration
  ac_insecure_cookies :: bool
  ac_oidc :: oidc_config

text \<open>What the handlers read of a request; \<open>rq_cookie\<close> is the session cookie.\<close>

record request =
  rq_method :: string
  rq_authorization :: string
  rq_actor :: string
  rq_cookie :: "string option"
  rq_csrf :: string
  rq_remote :: string

datatype auth_error = OperatorDisabled | AuthRequired | PermissionDenied | CsrfRequired | MalformedBody
  | TooManyAttempts | BadCredentials | NoSession | NotALocalSession | WrongPassword
  | PasswordRefused password_error | InvalidUser | PasswordRequired | UserExists | UserNotFound
  | LastAdminDelete | LastAdminDemote | RoleRequired | InvalidToken | NoToken | TokenNotFound
  | UnverifiedEmail | NoActiveAccount | OidcNotFound | OidcStandby

definition valid_username :: "string \<Rightarrow> bool" where
  "valid_username s \<longleftrightarrow> 1 \<le> length s \<and> length s \<le> 64 \<and>
     list_all (\<lambda>c. ascii_alnum c \<or> c \<in> set ''._-@'') s"

definition auth_enabled :: "auth_config \<Rightarrow> auth \<Rightarrow> bool" where
  "auth_enabled cfg a \<longleftrightarrow> ac_operator_token cfg \<noteq> [] \<or> au_users a \<noteq> [] \<or> au_tokens a \<noteq> []"

definition oidc_enabled :: "auth_config \<Rightarrow> bool" where
  "oidc_enabled cfg \<longleftrightarrow> oc_issuer (ac_oidc cfg) \<noteq> []"

datatype bootstrap_error = BootstrapUsername | BootstrapPassword password_error | BootstrapPersist

definition ensure_bootstrap_admin :: "kdf \<Rightarrow> auth_config \<Rightarrow> time \<Rightarrow> bytes option \<Rightarrow> bool \<Rightarrow> auth \<Rightarrow>
    auth \<times> bootstrap_error option" where
  "ensure_bootstrap_admin kd cfg now salt persists a =
     (let username = trim_space (ac_bootstrap_username cfg); password = ac_bootstrap_password cfg in
      if username = [] \<and> password = [] then (a, None)
      else if \<not> valid_username username then (a, Some BootstrapUsername)
      else if au_users a \<noteq> [] then (a, None)
      else case hash_password kd salt password of
        Inl e \<Rightarrow> (a, Some (BootstrapPassword e))
      | Inr hash \<Rightarrow>
          (let a = a\<lparr>au_users := AList.update username
                 \<lparr>us_username = username, us_role = RoleAdmin, us_password_hash = hash, us_local_login = False,
                  us_disabled = False, us_created_at = now, us_updated_at = now\<rparr> (au_users a)\<rparr>
           in (a, if \<not> ac_skip_restore cfg \<and> \<not> persists then Some BootstrapPersist else None)))"

section \<open>Who a request is from\<close>

definition use_token :: "time \<Rightarrow> string \<times> api_token \<Rightarrow> auth \<Rightarrow> auth \<times> principal option" where
  "use_token now it a =
     (let t = (snd it)\<lparr>tk_last_used_at := Some now\<rparr> in
      (a\<lparr>au_tokens := AList.update (fst it) t (au_tokens a)\<rparr>,
       Some \<lparr>pr_actor = ''token:'' @ tk_name t, pr_role = tk_role t,
         pr_permissions = permissions_for (tk_role t), pr_method = ApiToken, pr_csrf = []\<rparr>))"

definition token_live :: "string \<Rightarrow> api_token \<Rightarrow> bool" where
  "token_live hash t \<longleftrightarrow> tk_revoked_at t = None \<and> hash = tk_hash t"

definition session_principal :: "user \<Rightarrow> principal" where
  "session_principal u = \<lparr>pr_actor = us_username u, pr_role = us_role u,
     pr_permissions = permissions_for (us_role u), pr_method = SessionCookie, pr_csrf = []\<rparr>"

definition by_session :: "time \<Rightarrow> string \<Rightarrow> auth \<Rightarrow> auth \<times> principal option" where
  "by_session now hash a =
     (case map_of (au_sessions a) hash of
        None \<Rightarrow> (a\<lparr>au_sessions := AList.delete hash (au_sessions a)\<rparr>, None)
      | Some s \<Rightarrow>
          if \<not> now < se_expires_at s then (a\<lparr>au_sessions := AList.delete hash (au_sessions a)\<rparr>, None)
          else case map_of (au_users a) (se_username s) of
            None \<Rightarrow> (a, None)
          | Some u \<Rightarrow> if us_disabled u then (a, None) else (a, Some (session_principal u)))"

definition authenticate :: "kdf \<Rightarrow> auth_config \<Rightarrow> time \<Rightarrow> request \<Rightarrow> auth \<Rightarrow> auth \<times> principal option" where
  "authenticate kd cfg now r a =
     (if has_prefix (rq_authorization r) ''Bearer '' then
        (let secret = drop 7 (rq_authorization r) in
         if ac_operator_token cfg \<noteq> [] \<and> secret = ac_operator_token cfg then
           (a, Some \<lparr>pr_actor = trim_space (rq_actor r), pr_role = RoleAdmin,
              pr_permissions = permissions_for RoleAdmin, pr_method = LegacyToken, pr_csrf = []\<rparr>)
         else case find (\<lambda>it. token_live (secret_hash kd secret) (snd it)) (au_tokens a) of
           None \<Rightarrow> (a, None)
         | Some it \<Rightarrow> use_token now it a)
      else case rq_cookie r of
        None \<Rightarrow> (a, None)
      | Some value \<Rightarrow> if value = [] then (a, None) else by_session now (secret_hash kd value) a)"

definition unsafe_method :: "string \<Rightarrow> bool" where
  "unsafe_method m \<longleftrightarrow> m \<noteq> ''GET'' \<and> m \<noteq> ''HEAD'' \<and> m \<noteq> ''OPTIONS''"

definition cookie_hash :: "kdf \<Rightarrow> request \<Rightarrow> string" where
  "cookie_hash kd r = secret_hash kd (case rq_cookie r of None \<Rightarrow> [] | Some v \<Rightarrow> v)"

definition csrf_ok :: "kdf \<Rightarrow> request \<Rightarrow> auth \<Rightarrow> bool" where
  "csrf_ok kd r a \<longleftrightarrow>
     secret_hash kd (rq_csrf r) =
       (case map_of (au_sessions a) (cookie_hash kd r) of None \<Rightarrow> [] | Some s \<Rightarrow> se_csrf_hash s)"

definition require_permission :: "kdf \<Rightarrow> auth_config \<Rightarrow> time \<Rightarrow> request \<Rightarrow> permission \<Rightarrow> auth \<Rightarrow>
    auth \<times> (auth_error + principal)" where
  "require_permission kd cfg now r p a =
     (if \<not> auth_enabled cfg a then (a, Inl OperatorDisabled)
      else case authenticate kd cfg now r a of
        (a, None) \<Rightarrow> (a, Inl AuthRequired)
      | (a, Some who) \<Rightarrow>
          if \<not> role_allows (pr_role who) p then (a, Inl PermissionDenied)
          else if pr_method who = SessionCookie \<and> unsafe_method (rq_method r) \<and> \<not> csrf_ok kd r a
          then (a, Inl CsrfRequired)
          else (a, Inr who))"

definition mutation_actor :: "principal \<Rightarrow> string \<Rightarrow> string" where
  "mutation_actor who supplied = (if pr_actor who \<noteq> [] then pr_actor who else trim_space supplied)"

definition handle_auth_me :: "kdf \<Rightarrow> auth_config \<Rightarrow> time \<Rightarrow> request \<Rightarrow> auth \<Rightarrow>
    auth \<times> principal option \<times> bool \<times> string" where
  "handle_auth_me kd cfg now r a =
     (let (a, who) = authenticate kd cfg now r a in (a, who, oidc_enabled cfg, oc_label (ac_oidc cfg)))"

section \<open>Logging in and out\<close>

definition login_window :: duration where "login_window = 5 * minute"
definition max_login_failures :: nat where "max_login_failures = 8"
definition max_login_keys :: nat where "max_login_keys = 4096"
definition max_user_sessions :: nat where "max_user_sessions = 10"

definition recent :: "time \<Rightarrow> time list \<Rightarrow> time list" where
  "recent now ts = filter (\<lambda>at. at > now - login_window) ts"

definition login_limited :: "time \<Rightarrow> string \<Rightarrow> auth \<Rightarrow> auth \<times> bool" where
  "login_limited now key a =
     (let kept = filter (\<lambda>e. snd e \<noteq> []) (map (\<lambda>e. (fst e, recent now (snd e))) (au_failures a));
          attempts = (case map_of kept key of None \<Rightarrow> [] | Some prior \<Rightarrow> recent now prior)
      in (a\<lparr>au_failures := AList.update key attempts kept\<rparr>, length attempts \<ge> max_login_failures))"

definition record_login_failure :: "time \<Rightarrow> string \<Rightarrow> auth \<Rightarrow> auth" where
  "record_login_failure now key a =
     (if map_of (au_failures a) key = None \<and> length (au_failures a) \<ge> max_login_keys then a
      else a\<lparr>au_failures := AList.update key
             ((case map_of (au_failures a) key of None \<Rightarrow> [] | Some prior \<Rightarrow> prior) @ [now]) (au_failures a)\<rparr>)"

record cookie =
  ck_name :: string
  ck_value :: string
  ck_http_only :: bool
  ck_secure :: bool
  ck_expires :: time
  ck_max_age :: int

definition oldest_session :: "session list \<Rightarrow> session option" where
  "oldest_session ss =
     (case sort_key se_created_at ss of [] \<Rightarrow> None | s # _ \<Rightarrow> Some s)"

definition purge_sessions :: "time \<Rightarrow> string \<Rightarrow> (string \<times> session) list \<Rightarrow> (string \<times> session) list" where
  "purge_sessions now name ss =
     (let ss = filter (\<lambda>e. now < se_expires_at (snd e)) ss;
          own = filter (\<lambda>s. se_username s = name) (map snd ss)
      in if length own \<ge> max_user_sessions then
           (case oldest_session own of None \<Rightarrow> ss | Some s \<Rightarrow> AList.delete (se_token_hash s) ss)
         else ss)"

definition new_session :: "kdf \<Rightarrow> auth_config \<Rightarrow> time \<Rightarrow> string \<Rightarrow> string \<Rightarrow> user \<Rightarrow> session" where
  "new_session kd cfg now secret csrf u = \<lparr>se_token_hash = secret_hash kd secret, se_csrf_hash = secret_hash kd csrf,
     se_username = us_username u, se_created_at = now, se_expires_at = now + ac_session_ttl cfg\<rparr>"

text \<open>\<open>createSession\<close> reads the clock before it takes the lock (\<open>made\<close>), and under it (\<open>now\<close>).\<close>

definition create_session_at :: "kdf \<Rightarrow> auth_config \<Rightarrow> time \<Rightarrow> time \<Rightarrow> bytes option \<Rightarrow> bytes option \<Rightarrow> user \<Rightarrow> auth \<Rightarrow>
    auth \<times> (auth_error + principal \<times> cookie list)" where
  "create_session_at kd cfg made now raw raw_csrf u a =
     (case (random_secret raw, random_secret raw_csrf) of
        (Some secret, Some csrf) \<Rightarrow>
          (let s = new_session kd cfg made secret csrf u;
               a = a\<lparr>au_sessions := AList.update (se_token_hash s) s
                 (purge_sessions now (us_username u) (au_sessions a))\<rparr>;
               ck = \<lparr>ck_name = ''parallaxd_session'', ck_value = secret, ck_http_only = True,
                 ck_secure = (\<not> ac_insecure_cookies cfg), ck_expires = se_expires_at s,
                 ck_max_age = quot (ac_session_ttl cfg) second\<rparr>
           in (a, Inr (\<lparr>pr_actor = us_username u, pr_role = us_role u,
                  pr_permissions = permissions_for (us_role u), pr_method = NoMethod, pr_csrf = csrf\<rparr>,
                [ck, ck\<lparr>ck_name := ''parallaxd_csrf'', ck_value := csrf, ck_http_only := False\<rparr>])))
      | _ \<Rightarrow> (a, Inl NoSession))"

definition create_session :: "kdf \<Rightarrow> auth_config \<Rightarrow> time \<Rightarrow> bytes option \<Rightarrow> bytes option \<Rightarrow> user \<Rightarrow> auth \<Rightarrow>
    auth \<times> (auth_error + principal \<times> cookie list)" where
  "create_session kd cfg now = create_session_at kd cfg now now"

text \<open>\<open>remoteHost\<close>: \<open>split\<close> is \<open>net.SplitHostPort\<close>.\<close>

definition remote_host :: "(string \<Rightarrow> (string \<times> string) option) \<Rightarrow> string \<Rightarrow> string" where
  "remote_host split remote = (case split remote of Some (host, _) \<Rightarrow> host | None \<Rightarrow> remote)"

definition decoy_hash :: string where
  "decoy_hash = ''$argon2id$v=19$m=65536,t=1,p=2$AAAAAAAAAAAAAAAAAAAAAA$AAAAAAAAAAAAAAAAAAAAAAAAAAAAAAAAAAAAAAAAAAA''"

definition login_ok :: "kdf \<Rightarrow> string \<Rightarrow> string \<Rightarrow> auth \<Rightarrow> user option" where
  "login_ok kd username password a =
     (case map_of (au_users a) username of
        None \<Rightarrow> None
      | Some u \<Rightarrow>
          if verify_password kd (if us_password_hash u = [] then decoy_hash else us_password_hash u) password \<and>
             \<not> us_disabled u
          then Some u else None)"

text \<open>
  \<open>handleLogin\<close> with nothing in between its sections under the lock: the gate, the reading of the account,
  and then the record of a failure, or the new session and the clearing of the failures. The theory
  \<open>Sections\<close> has them as steps of their own.
\<close>

definition clear_failures :: "string \<Rightarrow> auth \<Rightarrow> auth" where
  "clear_failures k a = a\<lparr>au_failures := AList.delete k (au_failures a)\<rparr>"

definition handle_login :: "kdf \<Rightarrow> auth_config \<Rightarrow> time \<Rightarrow> bytes option \<Rightarrow> bytes option \<Rightarrow>
    (string \<Rightarrow> (string \<times> string) option) \<Rightarrow> request \<Rightarrow> (string \<times> string) option \<Rightarrow> auth \<Rightarrow>
    auth \<times> (auth_error + principal \<times> cookie list)" where
  "handle_login kd cfg now raw raw_csrf split r body a =
     (case body of
        None \<Rightarrow> (a, Inl MalformedBody)
      | Some (username, password) \<Rightarrow>
          (let username = trim_space username; key = remote_host split (rq_remote r);
               (a, limited) = login_limited now key a in
           if limited then (a, Inl TooManyAttempts)
           else case login_ok kd username password a of
             None \<Rightarrow> (record_login_failure now key a, Inl BadCredentials)
           | Some u \<Rightarrow>
               (case create_session kd cfg now raw raw_csrf u a of
                  (a, Inl e) \<Rightarrow> (a, Inl e)
                | (a, Inr out) \<Rightarrow> (clear_failures key a, Inr out))))"

definition cleared_cookies :: "auth_config \<Rightarrow> cookie list" where
  "cleared_cookies cfg =
     (let ck = \<lparr>ck_name = ''parallaxd_session'', ck_value = [], ck_http_only = True,
            ck_secure = (\<not> ac_insecure_cookies cfg), ck_expires = zero_time, ck_max_age = -1\<rparr>
      in [ck, ck\<lparr>ck_name := ''parallaxd_csrf'', ck_http_only := False\<rparr>])"

definition end_session :: "kdf \<Rightarrow> request \<Rightarrow> auth \<Rightarrow> auth" where
  "end_session kd r a =
     (case rq_cookie r of None \<Rightarrow> a | Some v \<Rightarrow> a\<lparr>au_sessions := AList.delete (secret_hash kd v) (au_sessions a)\<rparr>)"

definition handle_logout :: "kdf \<Rightarrow> auth_config \<Rightarrow> time \<Rightarrow> request \<Rightarrow> auth \<Rightarrow>
    auth \<times> (auth_error + cookie list)" where
  "handle_logout kd cfg now r a =
     (case require_permission kd cfg now r PermissionView a of
        (a, Inl e) \<Rightarrow> (a, Inl e)
      | (a, Inr _) \<Rightarrow> (end_session kd r a, Inr (cleared_cookies cfg)))"

text \<open>
  Single sign-on (\<open>oidc.go\<close>): the relying-party library verifies an identity and asks for a session.
  An identity is its string-valued claims and whether its email address is verified.
\<close>

datatype oidc_error = OidcIncomplete | OidcIssuer | OidcRedirect

text \<open>\<open>parse\<close> is \<open>url.Parse\<close>, giving the scheme and the host.\<close>

definition absolute_https :: "(string \<Rightarrow> (string \<times> string) option) \<Rightarrow> bool \<Rightarrow> string \<Rightarrow> bool" where
  "absolute_https parse insecure u =
     (case parse u of None \<Rightarrow> False | Some (scheme, host) \<Rightarrow> host \<noteq> [] \<and> (scheme = ''https'' \<or> insecure))"

definition validate_oidc_config :: "(string \<Rightarrow> (string \<times> string) option) \<Rightarrow> oidc_config \<Rightarrow> oidc_error option" where
  "validate_oidc_config parse cfg =
     (if oc_issuer cfg = [] \<and> oc_client_id cfg = [] \<and> oc_redirect cfg = [] \<and> oc_client_secret cfg = [] then None
      else if blank (oc_issuer cfg) \<or> blank (oc_client_id cfg) \<or> blank (oc_redirect cfg) then Some OidcIncomplete
      else if \<not> absolute_https parse (oc_insecure_issuer cfg) (oc_issuer cfg) then Some OidcIssuer
      else if \<not> absolute_https parse (oc_insecure_issuer cfg) (oc_redirect cfg) then Some OidcRedirect
      else None)"

definition oidc_valid :: "kdf \<Rightarrow> auth_config \<Rightarrow> time \<Rightarrow> request \<Rightarrow> auth \<Rightarrow> auth \<times> bool" where
  "oidc_valid kd cfg now r a =
     (let (a, who) = authenticate kd cfg now r a in
      (a, case who of None \<Rightarrow> False | Some p \<Rightarrow> pr_method p = SessionCookie))"

record identity =
  id_claims :: "(string \<times> string) list"
  id_email_verified :: bool

definition oidc_account :: "auth_config \<Rightarrow> identity \<Rightarrow> auth \<Rightarrow> auth_error + user" where
  "oidc_account cfg idn a =
     (let claim = (if oc_claim (ac_oidc cfg) = [] then ''email'' else oc_claim (ac_oidc cfg));
          username = trim_space (case map_of (id_claims idn) claim of None \<Rightarrow> [] | Some v \<Rightarrow> v)
      in if claim = ''email'' \<and> \<not> oc_unverified_email (ac_oidc cfg) \<and> \<not> id_email_verified idn then Inl UnverifiedEmail
         else case map_of (au_users a) username of
           None \<Rightarrow> Inl NoActiveAccount
         | Some u \<Rightarrow> if username = [] \<or> us_disabled u then Inl NoActiveAccount else Inr u)"

definition oidc_issue :: "kdf \<Rightarrow> auth_config \<Rightarrow> time \<Rightarrow> bytes option \<Rightarrow> bytes option \<Rightarrow> identity \<Rightarrow> auth \<Rightarrow>
    auth \<times> (auth_error + principal \<times> cookie list)" where
  "oidc_issue kd cfg now raw raw_csrf idn a =
     (case oidc_account cfg idn a of
        Inl e \<Rightarrow> (a, Inl e)
      | Inr u \<Rightarrow> create_session kd cfg now raw raw_csrf u a)"

definition oidc_allowed :: "auth_config \<Rightarrow> bool \<Rightarrow> auth_error option" where
  "oidc_allowed cfg standby =
     (if \<not> oidc_enabled cfg then Some OidcNotFound else if standby then Some OidcStandby else None)"

definition handle_oidc_start :: "auth_config \<Rightarrow> bool \<Rightarrow> time \<Rightarrow> (string \<Rightarrow> (string \<times> string) option) \<Rightarrow> request \<Rightarrow>
    auth \<Rightarrow> auth \<times> auth_error option" where
  "handle_oidc_start cfg standby now split r a =
     (case oidc_allowed cfg standby of
        Some e \<Rightarrow> (a, Some e)
      | None \<Rightarrow>
          (let key = ''oidc:'' @ remote_host split (rq_remote r); (a, limited) = login_limited now key a
           in if limited then (a, Some TooManyAttempts) else (record_login_failure now key a, None)))"

end
