(* ===== verification/Accounts.thy ===== *)
theory Accounts
  imports Auth
begin

text \<open>
  The handlers that administer accounts and API tokens (\<open>auth.go\<close>). Each is composed of its sections under
  the lock, with nothing in between; \<open>handleUser\<close> and \<open>handleChangePassword\<close> read the account in one section
  and write it back in another. \<open>Sections\<close> interleaves them.
\<close>

section \<open>Changing a password\<close>

definition no_user :: user where
  "no_user = \<lparr>us_username = [], us_role = OtherRole [], us_password_hash = [], us_local_login = False,
     us_disabled = False, us_created_at = zero_time, us_updated_at = zero_time\<rparr>"

definition user_named :: "auth \<Rightarrow> string \<Rightarrow> user" where
  "user_named a name = (case map_of (au_users a) name of None \<Rightarrow> no_user | Some u \<Rightarrow> u)"

definition new_password :: "kdf \<Rightarrow> bytes option \<Rightarrow> string \<Rightarrow> string \<Rightarrow> user \<Rightarrow> auth_error + string" where
  "new_password kd salt current new u =
     (if \<not> verify_password kd (us_password_hash u) current then Inl WrongPassword
      else map_sum PasswordRefused id (hash_password kd salt new))"

definition change_password_check :: "kdf \<Rightarrow> auth_config \<Rightarrow> time \<Rightarrow> bytes option \<Rightarrow> request \<Rightarrow>
    (string \<times> string) option \<Rightarrow> auth \<Rightarrow> auth \<times> (auth_error + user \<times> string)" where
  "change_password_check kd cfg now salt r body a =
     (case require_permission kd cfg now r PermissionView a of
        (a, Inl e) \<Rightarrow> (a, Inl e)
      | (a, Inr who) \<Rightarrow>
          if pr_method who \<noteq> SessionCookie \<or> pr_actor who = [] then (a, Inl NotALocalSession)
          else case body of
            None \<Rightarrow> (a, Inl MalformedBody)
          | Some (current, new) \<Rightarrow>
              (let u = user_named a (pr_actor who) in
               case new_password kd salt current new u of
                 Inl e \<Rightarrow> (a, Inl e)
               | Inr hash \<Rightarrow> (a, Inr (u, hash))))"

definition change_password_commit :: "kdf \<Rightarrow> time \<Rightarrow> request \<Rightarrow> user \<Rightarrow> string \<Rightarrow> auth \<Rightarrow> auth" where
  "change_password_commit kd now r u hash a =
     (let u = u\<lparr>us_password_hash := hash, us_updated_at := now\<rparr> in
      a\<lparr>au_users := AList.update (us_username u) u (au_users a),
        au_sessions := filter (\<lambda>e. \<not> (se_username (snd e) = us_username u \<and> fst e \<noteq> cookie_hash kd r))
          (au_sessions a)\<rparr>)"

definition handle_change_password :: "kdf \<Rightarrow> auth_config \<Rightarrow> time \<Rightarrow> bytes option \<Rightarrow> request \<Rightarrow>
    (string \<times> string) option \<Rightarrow> auth \<Rightarrow> auth \<times> auth_error option" where
  "handle_change_password kd cfg now salt r body a =
     (case change_password_check kd cfg now salt r body a of
        (a, Inl e) \<Rightarrow> (a, Some e)
      | (a, Inr (u, hash)) \<Rightarrow> (change_password_commit kd now r u hash a, None))"

section \<open>Accounts\<close>

definition hide_password :: "user \<Rightarrow> user" where
  "hide_password u = u\<lparr>us_local_login := (us_password_hash u \<noteq> []), us_password_hash := []\<rparr>"

definition user_list :: "auth \<Rightarrow> user list" where
  "user_list a = sort_key us_username (map (\<lambda>e. hide_password (snd e)) (au_users a))"

definition enabled_admin :: "user \<Rightarrow> bool" where
  "enabled_admin u \<longleftrightarrow> us_role u = RoleAdmin \<and> \<not> us_disabled u"

definition enabled_admins :: "auth \<Rightarrow> nat" where
  "enabled_admins a = length (filter (\<lambda>e. enabled_admin (snd e)) (au_users a))"

datatype users_reply = UserList "user list" | UserCreated user

definition serve_users :: "kdf \<Rightarrow> auth_config \<Rightarrow> time \<Rightarrow> bytes option \<Rightarrow> request \<Rightarrow>
    (string \<times> string \<times> role) option \<Rightarrow> auth \<Rightarrow> auth \<times> (auth_error + users_reply)" where
  "serve_users kd cfg now salt r body a =
     (if rq_method r = ''GET'' then (a, Inr (UserList (user_list a)))
      else case body of
        None \<Rightarrow> (a, Inl InvalidUser)
      | Some (username, password, rl) \<Rightarrow>
          if \<not> valid_username username \<or> \<not> valid_role rl then (a, Inl InvalidUser)
          else case (if password \<noteq> [] then map_sum PasswordRefused id (hash_password kd salt password)
              else if \<not> oidc_enabled cfg then Inl PasswordRequired else Inr []) of
            Inl e \<Rightarrow> (a, Inl e)
          | Inr hash \<Rightarrow>
              if map_of (au_users a) username \<noteq> None then (a, Inl UserExists)
              else (let u = \<lparr>us_username = username, us_role = rl, us_password_hash = hash,
                      us_local_login = False, us_disabled = False, us_created_at = now, us_updated_at = now\<rparr>
                    in (a\<lparr>au_users := AList.update username u (au_users a)\<rparr>,
                        Inr (UserCreated (hide_password u)))))"

definition handle_users :: "kdf \<Rightarrow> auth_config \<Rightarrow> time \<Rightarrow> bytes option \<Rightarrow> request \<Rightarrow>
    (string \<times> string \<times> role) option \<Rightarrow> auth \<Rightarrow> auth \<times> (auth_error + users_reply)" where
  "handle_users kd cfg now salt r body a =
     (case require_permission kd cfg now r PermissionManageAuth a of
        (a, Inl e) \<Rightarrow> (a, Inl e)
      | (a, Inr _) \<Rightarrow> serve_users kd cfg now salt r body a)"

datatype user_reply = UserDeleted | UserUpdated user

text \<open>The first section of \<open>handleUser\<close>: who asks, and the account as it is then.\<close>

definition user_lookup :: "kdf \<Rightarrow> auth_config \<Rightarrow> time \<Rightarrow> request \<Rightarrow> string \<Rightarrow> auth \<Rightarrow>
    auth \<times> (auth_error + user)" where
  "user_lookup kd cfg now r username a =
     (case require_permission kd cfg now r PermissionManageAuth a of
        (a, Inl e) \<Rightarrow> (a, Inl e)
      | (a, Inr _) \<Rightarrow>
          (case map_of (au_users a) username of None \<Rightarrow> (a, Inl UserNotFound) | Some u \<Rightarrow> (a, Inr u)))"

definition drop_sessions :: "string \<Rightarrow> (string \<times> session) list \<Rightarrow> (string \<times> session) list" where
  "drop_sessions username ss = filter (\<lambda>e. se_username (snd e) \<noteq> username) ss"

definition user_delete :: "string \<Rightarrow> user \<Rightarrow> auth \<Rightarrow> auth \<times> (auth_error + user_reply)" where
  "user_delete username u a =
     (if enabled_admin u \<and> enabled_admins a \<le> 1 then (a, Inl LastAdminDelete)
      else (a\<lparr>au_users := AList.delete username (au_users a),
              au_sessions := drop_sessions username (au_sessions a)\<rparr>, Inr UserDeleted))"

definition user_update :: "time \<Rightarrow> string \<Rightarrow> user \<Rightarrow> role \<Rightarrow> bool option \<Rightarrow> string \<Rightarrow> auth \<Rightarrow>
    auth \<times> (auth_error + user_reply)" where
  "user_update now username u rl disable hash a =
     (let disabled = (case disable of None \<Rightarrow> us_disabled u | Some d \<Rightarrow> d) in
      if enabled_admin u \<and> (rl \<noteq> RoleAdmin \<or> disabled) \<and> enabled_admins a \<le> 1 then (a, Inl LastAdminDemote)
      else (let u = u\<lparr>us_role := rl, us_disabled := disabled, us_updated_at := now,
                    us_password_hash := (if hash \<noteq> [] then hash else us_password_hash u)\<rparr>
            in (a\<lparr>au_users := AList.update username u (au_users a),
                  au_sessions := (if disabled \<or> hash \<noteq> [] then drop_sessions username (au_sessions a)
                    else au_sessions a)\<rparr>, Inr (UserUpdated (hide_password u)))))"

definition user_commit :: "kdf \<Rightarrow> time \<Rightarrow> bytes option \<Rightarrow> request \<Rightarrow> string \<Rightarrow>
    (role \<times> bool option \<times> string) option \<Rightarrow> user \<Rightarrow> auth \<Rightarrow> auth \<times> (auth_error + user_reply)" where
  "user_commit kd now salt r username body u a =
     (if rq_method r = ''DELETE'' then user_delete username u a
      else case body of
        None \<Rightarrow> (a, Inl RoleRequired)
      | Some (rl, disable, password) \<Rightarrow>
          if \<not> valid_role rl then (a, Inl RoleRequired)
          else case (if password \<noteq> [] then hash_password kd salt password else Inr []) of
            Inl e \<Rightarrow> (a, Inl (PasswordRefused e))
          | Inr hash \<Rightarrow> user_update now username u rl disable hash a)"

definition handle_user :: "kdf \<Rightarrow> auth_config \<Rightarrow> time \<Rightarrow> bytes option \<Rightarrow> request \<Rightarrow> string \<Rightarrow>
    (role \<times> bool option \<times> string) option \<Rightarrow> auth \<Rightarrow> auth \<times> (auth_error + user_reply)" where
  "handle_user kd cfg now salt r username body a =
     (case user_lookup kd cfg now r username a of
        (a, Inl e) \<Rightarrow> (a, Inl e)
      | (a, Inr u) \<Rightarrow> user_commit kd now salt r username body u a)"

section \<open>API tokens\<close>

definition hide_hash :: "api_token \<Rightarrow> api_token" where "hide_hash t = t\<lparr>tk_hash := []\<rparr>"

definition token_list :: "auth \<Rightarrow> api_token list" where
  "token_list a = sort_key (\<lambda>t. - tk_created_at t) (map (\<lambda>e. hide_hash (snd e)) (au_tokens a))"

datatype tokens_reply = TokenList "api_token list" | TokenCreated api_token string

definition serve_tokens :: "kdf \<Rightarrow> time \<Rightarrow> bytes option \<Rightarrow> bytes option \<Rightarrow> request \<Rightarrow> (string \<times> role) option \<Rightarrow>
    principal \<Rightarrow> auth \<Rightarrow> auth \<times> (auth_error + tokens_reply)" where
  "serve_tokens kd now raw_id raw r body who a =
     (if rq_method r = ''GET'' then (a, Inr (TokenList (token_list a)))
      else case body of
        None \<Rightarrow> (a, Inl InvalidToken)
      | Some (name, rl) \<Rightarrow>
          if blank name \<or> \<not> valid_role rl then (a, Inl InvalidToken)
          else case (random_secret raw_id, random_secret raw) of
            (Some tid, Some part) \<Rightarrow>
              (let secret = ''pxd_'' @ tid @ ''_'' @ part;
                   t = \<lparr>tk_id = tid, tk_name = trim_space name, tk_role = rl,
                     tk_prefix = take (min 16 (length secret)) secret, tk_hash = secret_hash kd secret,
                     tk_created_at = now, tk_created_by = pr_actor who, tk_last_used_at = None,
                     tk_revoked_at = None\<rparr>
               in (a\<lparr>au_tokens := AList.update tid t (au_tokens a)\<rparr>, Inr (TokenCreated (hide_hash t) secret)))
          | _ \<Rightarrow> (a, Inl NoToken))"

definition handle_tokens :: "kdf \<Rightarrow> auth_config \<Rightarrow> time \<Rightarrow> bytes option \<Rightarrow> bytes option \<Rightarrow> request \<Rightarrow>
    (string \<times> role) option \<Rightarrow> auth \<Rightarrow> auth \<times> (auth_error + tokens_reply)" where
  "handle_tokens kd cfg now raw_id raw r body a =
     (case require_permission kd cfg now r PermissionManageAuth a of
        (a, Inl e) \<Rightarrow> (a, Inl e)
      | (a, Inr who) \<Rightarrow> serve_tokens kd now raw_id raw r body who a)"

definition revoke_token :: "time \<Rightarrow> string \<Rightarrow> auth \<Rightarrow> auth \<times> auth_error option" where
  "revoke_token now tid a =
     (case map_of (au_tokens a) tid of
        None \<Rightarrow> (a, Some TokenNotFound)
      | Some t \<Rightarrow>
          ((if tk_revoked_at t = None
            then a\<lparr>au_tokens := AList.update tid (t\<lparr>tk_revoked_at := Some now\<rparr>) (au_tokens a)\<rparr> else a),
           None))"

definition handle_token :: "kdf \<Rightarrow> auth_config \<Rightarrow> time \<Rightarrow> request \<Rightarrow> string \<Rightarrow> auth \<Rightarrow>
    auth \<times> auth_error option" where
  "handle_token kd cfg now r tid a =
     (case require_permission kd cfg now r PermissionManageAuth a of
        (a, Inl e) \<Rightarrow> (a, Some e)
      | (a, Inr _) \<Rightarrow> revoke_token now tid a)"

section \<open>Requests\<close>

text \<open>What arrives at the API; \<open>auth_step\<close> is what it does to the state if it is served on its own.\<close>

datatype auth_event =
    AuthQuery request permission
  | Login "bytes option" "bytes option" request "(string \<times> string) option"
  | Logout request
  | OidcStart bool request
  | OidcIssue "bytes option" "bytes option" identity
  | ChangePassword "bytes option" request "(string \<times> string) option"
  | EditUsers "bytes option" request "(string \<times> string \<times> role) option"
  | EditUser "bytes option" request string "(role \<times> bool option \<times> string) option"
  | EditTokens "bytes option" "bytes option" request "(string \<times> role) option"
  | RevokeToken request string

fun auth_step :: "kdf \<Rightarrow> auth_config \<Rightarrow> (string \<Rightarrow> (string \<times> string) option) \<Rightarrow> time \<Rightarrow> auth_event \<Rightarrow> auth \<Rightarrow>
    auth" where
  "auth_step kd cfg split now (AuthQuery r p) a = fst (require_permission kd cfg now r p a)"
| "auth_step kd cfg split now (Login raw rawc r b) a = fst (handle_login kd cfg now raw rawc split r b a)"
| "auth_step kd cfg split now (Logout r) a = fst (handle_logout kd cfg now r a)"
| "auth_step kd cfg split now (OidcStart standby r) a = fst (handle_oidc_start cfg standby now split r a)"
| "auth_step kd cfg split now (OidcIssue raw rawc n) a = fst (oidc_issue kd cfg now raw rawc n a)"
| "auth_step kd cfg split now (ChangePassword salt r b) a = fst (handle_change_password kd cfg now salt r b a)"
| "auth_step kd cfg split now (EditUsers salt r b) a = fst (handle_users kd cfg now salt r b a)"
| "auth_step kd cfg split now (EditUser salt r n b) a = fst (handle_user kd cfg now salt r n b a)"
| "auth_step kd cfg split now (EditTokens raw_id raw r b) a = fst (handle_tokens kd cfg now raw_id raw r b a)"
| "auth_step kd cfg split now (RevokeToken r i) a = fst (handle_token kd cfg now r i a)"

end
