(* ===== verification/Access.thy ===== *)
theory Access
  imports Accounts
begin

text \<open>
  What each section under the lock guarantees of accounts, tokens and sessions: an invariant of the state,
  what it does to the number of enabled administrators, and who is admitted.
\<close>

section \<open>Maps whose keys name their entries\<close>

definition keyed :: "('v \<Rightarrow> string) \<Rightarrow> (string \<times> 'v) list \<Rightarrow> bool" where
  "keyed f l \<longleftrightarrow> distinct (map fst l) \<and> (\<forall>e \<in> set l. f (snd e) = fst e)"

lemma keyed_Nil [simp]: "keyed f []"
  by (simp add: keyed_def)

lemma set_update_cases: "e \<in> set (AList.update k v l) \<Longrightarrow> e = (k, v) \<or> e \<in> set l"
  by (induction l) (auto split: if_splits)

lemma keyed_update: "keyed f l \<Longrightarrow> f v = k \<Longrightarrow> keyed f (AList.update k v l)"
  by (auto simp: keyed_def distinct_update dest!: set_update_cases)

lemma distinct_fst_filter: "distinct (map fst l) \<Longrightarrow> distinct (map fst (filter P l))"
  by (induction l) auto

lemma keyed_filter: "keyed f l \<Longrightarrow> keyed f (filter P l)"
  by (auto simp: keyed_def distinct_fst_filter)

lemma delete_filter: "AList.delete k l = filter (\<lambda>e. fst e \<noteq> k) l"
  by (auto simp: AList.delete_eq intro: filter_cong)

lemma keyed_delete: "keyed f l \<Longrightarrow> keyed f (AList.delete k l)"
  by (simp add: delete_filter keyed_filter)

lemma keyed_key: "keyed f l \<Longrightarrow> map_of l k = Some v \<Longrightarrow> f v = k"
  by (auto simp: keyed_def dest!: map_of_SomeD)

lemmas keyed_intros = keyed_update keyed_filter keyed_delete

text \<open>An update changes a count by the difference between the old entry and the new.\<close>

lemma count_update:
  assumes "distinct (map fst l)"
  shows "length (filter (\<lambda>e. P (snd e)) (AList.update k v l)) + (case map_of l k of Some w \<Rightarrow> of_bool (P w) | None \<Rightarrow> 0) =
    length (filter (\<lambda>e. P (snd e)) l) + of_bool (P v)"
  using assms by (induction l) (auto split: option.splits dest: map_of_SomeD)

lemma count_delete:
  assumes "distinct (map fst l)"
  shows "length (filter (\<lambda>e. P (snd e)) (AList.delete k l)) + (case map_of l k of Some w \<Rightarrow> of_bool (P w) | None \<Rightarrow> 0) =
    length (filter (\<lambda>e. P (snd e)) l)"
  using assms
proof (induction l)
  case Nil
  then show ?case by simp
next
  case (Cons e l)
  obtain j w where e: "e = (j, w)" by (cases e)
  show ?case
  proof (cases "j = k")
    case True
    with Cons.prems e have "map_of l k = None" by (simp add: map_of_eq_None_iff)
    with Cons True e show ?thesis by (auto simp: delete_filter)
  next
    case False
    with Cons e show ?thesis by (auto simp: delete_filter)
  qed
qed

section \<open>The invariant\<close>

definition own_sessions :: "string \<Rightarrow> (string \<times> session) list \<Rightarrow> nat" where
  "own_sessions n ss = length (filter (\<lambda>e. se_username (snd e) = n) ss)"

definition auth_ok :: "auth \<Rightarrow> bool" where
  "auth_ok a \<longleftrightarrow> keyed us_username (au_users a) \<and> keyed tk_id (au_tokens a) \<and>
     keyed se_token_hash (au_sessions a) \<and> distinct (map fst (au_failures a)) \<and>
     (\<forall>n. own_sessions n (au_sessions a) \<le> max_user_sessions)"

text \<open>What authenticating a request may change: the use of a token, an expired session.\<close>

definition only_checked :: "auth \<Rightarrow> auth \<Rightarrow> bool" where
  "only_checked a b \<longleftrightarrow> au_users b = au_users a \<and> au_failures b = au_failures a \<and>
     (\<exists>P. au_sessions b = filter P (au_sessions a)) \<and>
     (au_tokens b = au_tokens a \<or>
      (\<exists>i t now. (i, t) \<in> set (au_tokens a) \<and>
         au_tokens b = AList.update i (t\<lparr>tk_last_used_at := Some now\<rparr>) (au_tokens a)))"

lemma filter_all: "\<exists>P. xs = filter P xs"
  by (rule exI [of _ "\<lambda>_. True"]) simp

lemma only_checked_refl [simp]: "only_checked a a"
  by (simp add: only_checked_def filter_all)

lemma only_checked_delete: "only_checked a (a\<lparr>au_sessions := AList.delete h (au_sessions a)\<rparr>)"
  by (auto simp: only_checked_def delete_filter)

lemma by_session_checked: "only_checked a (fst (by_session now h a))"
  by (auto simp: by_session_def only_checked_delete split: option.splits)

lemma find_in: "find P xs = Some x \<Longrightarrow> x \<in> set xs \<and> P x"
  by (induction xs) (auto split: if_splits)

lemma use_token_checked: "it \<in> set (au_tokens a) \<Longrightarrow> only_checked a (fst (use_token now it a))"
  by (cases it) (auto simp: use_token_def only_checked_def filter_all)

lemma authenticate_checked: "only_checked a (fst (authenticate kd cfg now r a))"
  by (auto simp: authenticate_def by_session_checked Let_def dest: find_in intro!: use_token_checked
      split: option.splits)

lemma require_permission_checked: "only_checked a (fst (require_permission kd cfg now r p a))"
  using authenticate_checked [of a kd cfg now r]
  by (auto simp: require_permission_def split: prod.splits option.splits)

lemma own_sessions_filter: "own_sessions n (filter P ss) \<le> own_sessions n ss"
  by (induction ss) (auto simp: own_sessions_def)

lemma own_sessions_update:
  "own_sessions n (AList.update k s ss) \<le> own_sessions n ss + (if se_username s = n then 1 else 0)"
  by (induction ss) (auto simp: own_sessions_def)

lemma only_checked_keyed:
  assumes "only_checked a b" "keyed tk_id (au_tokens a)"
  shows "keyed tk_id (au_tokens b)"
proof -
  have "keyed tk_id (AList.update i (t\<lparr>tk_last_used_at := Some now\<rparr>) (au_tokens a))"
    if "(i, t) \<in> set (au_tokens a)" for i t now
    using assms(2) that by (intro keyed_update) (auto simp: keyed_def)
  with assms show ?thesis by (auto simp: only_checked_def)
qed

lemma only_checked_ok: "only_checked a b \<Longrightarrow> auth_ok a \<Longrightarrow> auth_ok b"
  using only_checked_keyed [of a b] order_trans [OF own_sessions_filter]
  by (auto simp: only_checked_def auth_ok_def keyed_filter)

lemma require_ok: "auth_ok a \<Longrightarrow> require_permission kd cfg now r p a = (b, x) \<Longrightarrow> auth_ok b"
  using only_checked_ok [OF require_permission_checked] by (metis fst_conv)

subsection \<open>Sessions\<close>

lemma oldest_in: "oldest_session ss = Some s \<Longrightarrow> s \<in> set ss"
  by (auto simp: oldest_session_def split: list.splits dest: arg_cong [of _ _ set])

lemma oldest_exists: "ss \<noteq> [] \<Longrightarrow> \<exists>s. oldest_session ss = Some s"
  by (auto simp: oldest_session_def split: list.splits dest: arg_cong [of _ _ length])

lemma purge_keyed: "keyed f ss \<Longrightarrow> keyed f (purge_sessions now n ss)"
  by (auto simp: purge_sessions_def Let_def keyed_filter keyed_delete split: option.splits)

lemma purge_subset: "set (purge_sessions now n ss) \<subseteq> set ss"
  by (auto simp: purge_sessions_def Let_def delete_filter split: option.splits)

lemma purge_le: "own_sessions m (purge_sessions now n ss) \<le> own_sessions m ss"
  by (auto simp: purge_sessions_def Let_def delete_filter own_sessions_filter
      intro: order_trans [OF own_sessions_filter] split: option.splits)

lemma own_sessions_map: "own_sessions n ss = length (filter (\<lambda>s. se_username s = n) (map snd ss))"
  by (simp add: own_sessions_def filter_map comp_def)

lemma purge_makes_room:
  assumes "keyed se_token_hash ss" "own_sessions n ss \<le> max_user_sessions"
  shows "own_sessions n (purge_sessions now n ss) < max_user_sessions"
proof -
  define live where "live = filter (\<lambda>e. now < se_expires_at (snd e)) ss"
  have k: "keyed se_token_hash live" and few: "own_sessions n live \<le> max_user_sessions"
    using assms keyed_filter order_trans [OF own_sessions_filter] by (auto simp: live_def)
  let ?own = "filter (\<lambda>s. se_username s = n) (map snd live)"
  show ?thesis
  proof (cases "length ?own \<ge> max_user_sessions")
    case False
    then show ?thesis by (simp add: purge_sessions_def Let_def own_sessions_map live_def)
  next
    case True
    have "?own \<noteq> []"
    proof
      assume "?own = []"
      with True show False by (simp only: list.size) (simp add: max_user_sessions_def)
    qed
    then obtain s where s: "oldest_session ?own = Some s" using oldest_exists by blast
    then have "se_username s = n" "s \<in> snd ` set live" using oldest_in by fastforce+
    with k have "map_of live (se_token_hash s) = Some s"
      by (auto simp: keyed_def intro!: map_of_is_SomeI)
    with count_delete [of live "\<lambda>x. se_username x = n" "se_token_hash s"] k \<open>se_username s = n\<close>
    have "own_sessions n (AList.delete (se_token_hash s) live) + 1 = own_sessions n live"
      by (simp add: own_sessions_def keyed_def)
    with True few s show ?thesis by (simp add: purge_sessions_def Let_def live_def [symmetric])
  qed
qed

lemma create_session_cases:
  assumes "create_session_at kd cfg made now raw rawc u a = (b, x)"
  obtains (failed) "b = a" "x = Inl NoSession"
    | (created) secret csrf cks where "random_secret raw = Some secret" "random_secret rawc = Some csrf"
      "b = a\<lparr>au_sessions := AList.update (secret_hash kd secret) (new_session kd cfg made secret csrf u)
         (purge_sessions now (us_username u) (au_sessions a))\<rparr>"
      "x = Inr (\<lparr>pr_actor = us_username u, pr_role = us_role u, pr_permissions = permissions_for (us_role u),
         pr_method = NoMethod, pr_csrf = csrf\<rparr>, cks)"
  using assms
  by (auto simp: create_session_at_def Let_def new_session_def split: option.splits)

lemma create_session_at_ok:
  assumes "auth_ok a" "create_session_at kd cfg made now raw rawc u a = (b, x)"
  shows "auth_ok b"
  using assms(2)
proof (cases rule: create_session_cases)
  case failed
  with assms(1) show ?thesis by simp
next
  case (created secret csrf cks)
  let ?ss = "purge_sessions now (us_username u) (au_sessions a)"
  let ?s = "new_session kd cfg made secret csrf u"
  have k: "keyed se_token_hash ?ss" using assms(1) by (simp add: auth_ok_def purge_keyed)
  have room: "own_sessions (us_username u) ?ss < max_user_sessions"
    using assms(1) purge_makes_room by (simp add: auth_ok_def)
  have le: "own_sessions n ?ss \<le> max_user_sessions" for n
    using assms(1) purge_le order_trans unfolding auth_ok_def by blast
  have "own_sessions n (AList.update h ?s ?ss) \<le> max_user_sessions" for h n
    using own_sessions_update [of n h ?s ?ss] room le [of n] by (auto simp: new_session_def split: if_splits)
  with assms(1) k created show ?thesis by (simp add: auth_ok_def keyed_update new_session_def)
qed

lemma fst_create_session_ok: "auth_ok a \<Longrightarrow> auth_ok (fst (create_session_at kd cfg made now raw rawc u a))"
  by (rule create_session_at_ok [OF _ prod.collapse [symmetric]])

lemma limited_ok: "auth_ok a \<Longrightarrow> login_limited now key a = (b, x) \<Longrightarrow> auth_ok b"
  by (auto simp: login_limited_def Let_def auth_ok_def distinct_update distinct_fst_filter comp_def)

lemma failure_ok: "auth_ok a \<Longrightarrow> auth_ok (record_login_failure now key a)"
  by (auto simp: record_login_failure_def auth_ok_def distinct_update)

lemma clear_ok: "auth_ok a \<Longrightarrow> auth_ok (clear_failures key a)"
  by (simp add: clear_failures_def auth_ok_def distinct_delete)

lemma filter_sessions_ok: "auth_ok a \<Longrightarrow> auth_ok (a\<lparr>au_sessions := filter P (au_sessions a)\<rparr>)"
  using order_trans [OF own_sessions_filter] by (auto simp: auth_ok_def keyed_filter)

lemma users_ok: "auth_ok a \<Longrightarrow> keyed us_username us \<Longrightarrow> auth_ok (a\<lparr>au_users := us\<rparr>)"
  by (simp add: auth_ok_def)

lemma tokens_ok: "auth_ok a \<Longrightarrow> tk_id t = i \<Longrightarrow> auth_ok (a\<lparr>au_tokens := AList.update i t (au_tokens a)\<rparr>)"
  by (simp add: auth_ok_def keyed_update)

lemmas auth_ok_intros = filter_sessions_ok users_ok tokens_ok clear_ok failure_ok
lemmas auth_ok_dests = require_ok limited_ok

lemma end_session_ok: "auth_ok a \<Longrightarrow> auth_ok (end_session kd r a)"
  by (auto simp: end_session_def delete_filter split: option.splits intro: auth_ok_intros)

subsection \<open>Accounts and tokens\<close>

lemma named_username: "auth_ok a \<Longrightarrow> map_of (au_users a) n = Some u \<Longrightarrow> us_username u = n"
  by (auto simp: auth_ok_def dest: keyed_key)

lemma named_token: "auth_ok a \<Longrightarrow> map_of (au_tokens a) i = Some t \<Longrightarrow> tk_id t = i"
  by (auto simp: auth_ok_def dest: keyed_key)

lemma put_user_ok: "auth_ok a \<Longrightarrow> us_username u = n \<Longrightarrow> auth_ok (a\<lparr>au_users := AList.update n u (au_users a)\<rparr>)"
  by (rule users_ok) (auto simp: auth_ok_def keyed_update)

lemma users_sessions_ok:
  "auth_ok a \<Longrightarrow> keyed us_username us \<Longrightarrow> auth_ok (a\<lparr>au_users := us, au_sessions := filter P (au_sessions a)\<rparr>)"
  using order_trans [OF own_sessions_filter] by (auto simp: auth_ok_def keyed_filter)

lemma auth_ok_users: "auth_ok a \<Longrightarrow> keyed us_username (au_users a)"
  by (simp add: auth_ok_def)

lemma commit_ok: "auth_ok a \<Longrightarrow> auth_ok (change_password_commit kd now r u hash a)"
  by (auto simp: change_password_commit_def Let_def auth_ok_users keyed_update intro!: users_sessions_ok)

lemma serve_users_ok: "auth_ok a \<Longrightarrow> auth_ok (fst (serve_users kd cfg now salt r body a))"
  by (auto simp: serve_users_def Let_def intro!: put_user_ok split: option.splits sum.splits)

lemma user_delete_ok: "auth_ok a \<Longrightarrow> auth_ok (fst (user_delete username u a))"
  by (auto simp: user_delete_def drop_sessions_def auth_ok_users keyed_delete intro!: users_sessions_ok)

lemma user_update_ok:
  "auth_ok a \<Longrightarrow> us_username u = username \<Longrightarrow> auth_ok (fst (user_update now username u rl dis hash a))"
  by (auto simp: user_update_def drop_sessions_def Let_def auth_ok_users keyed_update
      intro!: users_sessions_ok put_user_ok)

lemma user_commit_ok: "auth_ok a \<Longrightarrow> us_username u = username \<Longrightarrow> auth_ok (fst (user_commit kd now salt r username body u a))"
  by (auto simp: user_commit_def user_delete_ok user_update_ok split: option.splits sum.splits)

lemma handle_user_ok: "auth_ok a \<Longrightarrow> auth_ok (fst (handle_user kd cfg now salt r username body a))"
  by (auto simp: handle_user_def user_lookup_def intro!: user_commit_ok
      split: option.splits prod.splits sum.splits dest: auth_ok_dests named_username)

lemma serve_tokens_ok: "auth_ok a \<Longrightarrow> auth_ok (fst (serve_tokens kd now raw_id raw r body who a))"
  by (auto simp: serve_tokens_def Let_def intro!: tokens_ok split: option.splits)

lemma revoke_token_ok: "auth_ok a \<Longrightarrow> auth_ok (fst (revoke_token now i a))"
  by (auto simp: revoke_token_def named_token intro!: tokens_ok split: option.splits)

lemmas sections_ok = fst_create_session_ok failure_ok clear_ok end_session_ok commit_ok serve_users_ok
  serve_tokens_ok revoke_token_ok

section \<open>An administrator remains\<close>

lemma require_users: "require_permission kd cfg now r p a = (b, x) \<Longrightarrow> au_users b = au_users a"
  using require_permission_checked [of a kd cfg now r p] by (simp add: only_checked_def)

lemma create_session_users [simp]: "au_users (fst (create_session_at kd cfg made now raw rawc u a)) = au_users a"
  "au_failures (fst (create_session_at kd cfg made now raw rawc u a)) = au_failures a"
  by (auto simp: create_session_at_def Let_def split: option.splits)

lemma limited_users: "login_limited now key a = (b, x) \<Longrightarrow> au_users b = au_users a \<and> au_sessions b = au_sessions a"
  by (auto simp: login_limited_def Let_def)

lemma failure_users [simp]: "au_users (record_login_failure now key a) = au_users a"
  "au_sessions (record_login_failure now key a) = au_sessions a"
  by (simp_all add: record_login_failure_def)

lemma clear_users [simp]: "au_users (clear_failures key a) = au_users a"
  by (simp add: clear_failures_def)

lemma end_session_users [simp]: "au_users (end_session kd r a) = au_users a" "au_failures (end_session kd r a) = au_failures a"
  by (simp_all add: end_session_def split: option.splits)

lemma serve_tokens_users [simp]: "au_users (fst (serve_tokens kd now raw_id raw r body who a)) = au_users a"
  "au_failures (fst (serve_tokens kd now raw_id raw r body who a)) = au_failures a"
  by (simp_all add: serve_tokens_def Let_def split: option.splits)

lemma revoke_token_users [simp]: "au_users (fst (revoke_token now i a)) = au_users a"
  "au_failures (fst (revoke_token now i a)) = au_failures a"
  by (simp_all add: revoke_token_def split: option.splits)

lemma serve_users_failures [simp]: "au_failures (fst (serve_users kd cfg now salt r body a)) = au_failures a"
  by (simp add: serve_users_def Let_def split: option.splits sum.splits)

lemma user_commit_failures [simp]: "au_failures (fst (user_commit kd now salt r name body u a)) = au_failures a"
  by (simp add: user_commit_def user_delete_def user_update_def Let_def split: option.splits sum.splits)

lemma commit_failures [simp]: "au_failures (change_password_commit kd now r u hash a) = au_failures a"
  by (simp add: change_password_commit_def Let_def)

text \<open>What an update of an account does to the number of enabled administrators.\<close>

lemma admins_update:
  assumes "auth_ok a" "map_of (au_users a) n = Some u"
  shows "enabled_admins (a\<lparr>au_users := AList.update n v (au_users a)\<rparr>) + of_bool (enabled_admin u) =
    enabled_admins a + of_bool (enabled_admin v)"
  using count_update [of "au_users a" enabled_admin n v] assms
  by (simp add: enabled_admins_def auth_ok_def keyed_def)

lemma admins_insert:
  assumes "auth_ok a" "map_of (au_users a) n = None"
  shows "enabled_admins (a\<lparr>au_users := AList.update n v (au_users a)\<rparr>) =
    enabled_admins a + of_bool (enabled_admin v)"
  using count_update [of "au_users a" enabled_admin n v] assms
  by (simp add: enabled_admins_def auth_ok_def keyed_def)

lemma admins_delete:
  assumes "auth_ok a" "map_of (au_users a) n = Some u"
  shows "enabled_admins (a\<lparr>au_users := AList.delete n (au_users a)\<rparr>) + of_bool (enabled_admin u) =
    enabled_admins a"
  using count_delete [of "au_users a" enabled_admin n] assms
  by (simp add: enabled_admins_def auth_ok_def keyed_def)

lemma enabled_admins_users: "au_users b = au_users a \<Longrightarrow> enabled_admins b = enabled_admins a"
  by (simp add: enabled_admins_def)

text \<open>A copy of an account is outdated if the account has been made an enabled administrator since.\<close>

definition outdated :: "user \<Rightarrow> string \<Rightarrow> auth \<Rightarrow> bool" where
  "outdated u name a \<longleftrightarrow> \<not> enabled_admin u \<and> (case map_of (au_users a) name of None \<Rightarrow> False | Some w \<Rightarrow> enabled_admin w)"

lemma put_user_admins:
  assumes "auth_ok a" "1 \<le> enabled_admins a" "\<not> outdated u n a"
    and "enabled_admin u \<Longrightarrow> \<not> enabled_admin v \<Longrightarrow> 1 < enabled_admins a"
  shows "1 \<le> enabled_admins (a\<lparr>au_users := AList.update n v (au_users a)\<rparr>)"
proof (cases "map_of (au_users a) n")
  case None
  with assms(1,2) show ?thesis by (simp add: admins_insert)
next
  case (Some w)
  with assms(2-4) admins_update [OF assms(1) Some, of v] show ?thesis
    by (cases "enabled_admin w"; cases "enabled_admin v") (auto simp: outdated_def)
qed

lemma user_delete_admins:
  assumes "auth_ok a" "1 \<le> enabled_admins a" "\<not> outdated u n a"
  shows "1 \<le> enabled_admins (fst (user_delete n u a))"
proof -
  have same: "enabled_admins (fst (user_delete n u a)) =
      (if enabled_admin u \<and> enabled_admins a \<le> 1 then enabled_admins a
       else enabled_admins (a\<lparr>au_users := AList.delete n (au_users a)\<rparr>))"
    by (simp add: user_delete_def enabled_admins_def)
  show ?thesis
  proof (cases "map_of (au_users a) n")
    case None
    then have "AList.delete n (au_users a) = au_users a"
      by (auto simp: delete_filter map_of_eq_None_iff filter_id_conv)
    with same assms(2) show ?thesis by simp
  next
    case (Some w)
    with same admins_delete [OF assms(1) Some] assms(2,3) show ?thesis
      by (cases "enabled_admin w"; cases "enabled_admin u") (auto simp: outdated_def split: if_splits)
  qed
qed

lemma user_update_admins:
  assumes "auth_ok a" "1 \<le> enabled_admins a" "\<not> outdated u n a"
  shows "1 \<le> enabled_admins (fst (user_update now n u rl dis hash a))"
proof -
  define disabled where "disabled = (case dis of None \<Rightarrow> us_disabled u | Some d \<Rightarrow> d)"
  show ?thesis
  proof (cases "enabled_admin u \<and> (rl \<noteq> RoleAdmin \<or> disabled) \<and> enabled_admins a \<le> 1")
    case True
    with assms(2) show ?thesis by (simp add: user_update_def disabled_def [symmetric])
  next
    case False
    define v where "v = u\<lparr>us_role := rl, us_disabled := disabled, us_updated_at := now,
      us_password_hash := (if hash \<noteq> [] then hash else us_password_hash u)\<rparr>"
    have "enabled_admins (fst (user_update now n u rl dis hash a)) =
        enabled_admins (a\<lparr>au_users := AList.update n v (au_users a)\<rparr>)"
      using False unfolding user_update_def disabled_def [symmetric] Let_def
      by (simp only: if_not_P v_def) (simp add: enabled_admins_def)
    moreover have "enabled_admin v \<longleftrightarrow> rl = RoleAdmin \<and> \<not> disabled"
      by (simp add: enabled_admin_def v_def)
    ultimately show ?thesis using put_user_admins [OF assms, of v] False by auto
  qed
qed

lemma user_commit_admins:
  "auth_ok a \<Longrightarrow> 1 \<le> enabled_admins a \<Longrightarrow> \<not> outdated u n a \<Longrightarrow>
     1 \<le> enabled_admins (fst (user_commit kd now salt r n body u a))"
  by (auto simp: user_commit_def user_delete_admins user_update_admins simp del: One_nat_def split: option.splits sum.splits)

lemma commit_admins:
  assumes "auth_ok a" "1 \<le> enabled_admins a" "\<not> outdated u (us_username u) a"
  shows "1 \<le> enabled_admins (change_password_commit kd now r u hash a)"
proof -
  let ?v = "u\<lparr>us_password_hash := hash, us_updated_at := now\<rparr>"
  have "enabled_admins (change_password_commit kd now r u hash a) =
      enabled_admins (a\<lparr>au_users := AList.update (us_username u) ?v (au_users a)\<rparr>)"
    by (simp add: change_password_commit_def enabled_admins_def Let_def)
  moreover have "enabled_admin ?v = enabled_admin u" by (simp add: enabled_admin_def)
  ultimately show ?thesis using put_user_admins [OF assms, of ?v] by simp
qed

lemma serve_users_admins:
  "auth_ok a \<Longrightarrow> 1 \<le> enabled_admins a \<Longrightarrow> 1 \<le> enabled_admins (fst (serve_users kd cfg now salt r body a))"
  by (auto simp: serve_users_def Let_def admins_insert simp del: One_nat_def split: option.splits sum.splits)

subsection \<open>Who a request is from\<close>

lemma authenticate_cases:
  assumes "authenticate kd cfg now r a = (b, Some who)"
  obtains (legacy) "has_prefix (rq_authorization r) ''Bearer ''" "ac_operator_token cfg \<noteq> []"
      "drop 7 (rq_authorization r) = ac_operator_token cfg" "pr_role who = RoleAdmin"
      "pr_method who = LegacyToken" "b = a"
    | (token) i t where "has_prefix (rq_authorization r) ''Bearer ''" "(i, t) \<in> set (au_tokens a)"
      "token_live (secret_hash kd (drop 7 (rq_authorization r))) t" "pr_role who = tk_role t"
      "pr_method who = ApiToken"
    | (session) v s u where "\<not> has_prefix (rq_authorization r) ''Bearer ''" "rq_cookie r = Some v" "v \<noteq> []"
      "map_of (au_sessions a) (secret_hash kd v) = Some s" "now < se_expires_at s"
      "map_of (au_users a) (se_username s) = Some u" "\<not> us_disabled u" "who = session_principal u" "b = a"
proof (cases "has_prefix (rq_authorization r) ''Bearer ''")
  case True
  show ?thesis
  proof (cases "ac_operator_token cfg \<noteq> [] \<and> drop 7 (rq_authorization r) = ac_operator_token cfg")
    case op: True
    with assms True show ?thesis by (intro legacy) (auto simp: authenticate_def)
  next
    case False
    with assms True obtain i t where "find (\<lambda>it. token_live (secret_hash kd (drop 7 (rq_authorization r))) (snd it))
        (au_tokens a) = Some (i, t)" and out: "use_token now (i, t) a = (b, Some who)"
      by (auto simp: authenticate_def Let_def split: option.splits)
    then have "(i, t) \<in> set (au_tokens a)" "token_live (secret_hash kd (drop 7 (rq_authorization r))) t"
      by (auto dest: find_in)
    with True out show ?thesis by (intro token) (auto simp: use_token_def Let_def)
  qed
next
  case False
  with assms obtain v where v: "rq_cookie r = Some v" "v \<noteq> []" "by_session now (secret_hash kd v) a = (b, Some who)"
    by (auto simp: authenticate_def split: option.splits if_splits)
  then show ?thesis
    using False by (auto simp: by_session_def split: option.splits if_splits intro: session)
qed

lemma require_cases:
  assumes "require_permission kd cfg now r p a = (b, Inr who)"
  shows "authenticate kd cfg now r a = (b, Some who)" "role_allows (pr_role who) p"
    "pr_method who = SessionCookie \<Longrightarrow> unsafe_method (rq_method r) \<Longrightarrow> csrf_ok kd r b"
  using assms by (auto simp: require_permission_def split: prod.splits option.splits if_splits)

lemma session_user:
  assumes "auth_ok a" "authenticate kd cfg now r a = (b, Some who)" "pr_method who = SessionCookie"
  obtains u where "map_of (au_users a) (pr_actor who) = Some u" "\<not> us_disabled u" "b = a"
  using assms(2)
proof (cases rule: authenticate_cases)
  case (session v s u)
  with named_username [OF assms(1)] that [of u] show ?thesis by (auto simp: session_principal_def)
qed (use assms(3) in auto)

end
