(* ===== verification/Sections.thy ===== *)
theory Sections
  imports Access
begin

text \<open>
  Requests to the operator API that overlap (\<open>internal/coordinator/auth.go\<close>, \<open>oidc.go\<close>). A handler takes the
  lock several times and works without it in between: \<open>requirePermission\<close> reads the accounts, the credential
  and the CSRF secret in sections of their own, a login verifies the password between the gate and the record
  of its failure, an edit of an account computes a password hash between reading the account and writing it
  back. A task is what a request has left to do, named after its next section under the lock; a step of the
  whole is a request that arrives or one section of one task.
\<close>

section \<open>The sections of the handlers\<close>

text \<open>What a handler does once \<open>requirePermission\<close> has let the request in.\<close>

datatype duty =
    Look
  | LeaveSession
  | ChangeOwn "bytes option" "(string \<times> string) option"
  | UsersDuty "bytes option" "(string \<times> string \<times> role) option"
  | UserDuty "bytes option" string "(role \<times> bool option \<times> string) option"
  | TokensDuty "bytes option" "bytes option" "(string \<times> role) option"
  | RevokeDuty string

datatype task =
    Asks request permission duty
  | Identifies request permission duty
  | ShowsCsrf request principal duty
  | Serves request principal duty
  | CommitsPassword request user string
  | CommitsUser "bytes option" request string "(role \<times> bool option \<times> string) option" user
  | LoginGate "bytes option" "bytes option" string string string
  | LoginLooks "bytes option" "bytes option" string string string
  | LoginFails string
  | LoginOpens "bytes option" "bytes option" string user
  | LoginClears string
  | OidcGate string
  | OidcCounts string
  | OidcLooks "bytes option" "bytes option" identity
  | OidcOpens "bytes option" "bytes option" user

text \<open>After a section a task goes on, or the request is answered: a login by telling the address that the password
  is wrong, or by letting it in, everything else in a way that does not matter here.\<close>

datatype progress = GoesOn task | Answered | TellsWrong string | LetsIn string

text \<open>\<open>before\<close> is the reading of the clock of a section that takes it before the lock, \<open>now\<close> the reading under
  the lock. What is computed without the lock between two sections belongs to the first.\<close>

fun perform :: "kdf \<Rightarrow> auth_config \<Rightarrow> time \<Rightarrow> time \<Rightarrow> request \<Rightarrow> principal \<Rightarrow> duty \<Rightarrow> auth \<Rightarrow> auth \<times> progress" where
  "perform kd cfg before now r who Look a = (a, Answered)"
| "perform kd cfg before now r who LeaveSession a = (end_session kd r a, Answered)"
| "perform kd cfg before now r who (ChangeOwn salt body) a =
     (if pr_method who \<noteq> SessionCookie \<or> pr_actor who = [] then (a, Answered)
      else case body of
        None \<Rightarrow> (a, Answered)
      | Some (current, new) \<Rightarrow>
          (let u = user_named a (pr_actor who) in
           (a, case new_password kd salt current new u of Inl _ \<Rightarrow> Answered | Inr hash \<Rightarrow> GoesOn (CommitsPassword r u hash))))"
| "perform kd cfg before now r who (UsersDuty salt body) a = (fst (serve_users kd cfg before salt r body a), Answered)"
| "perform kd cfg before now r who (UserDuty salt name body) a =
     (a, case map_of (au_users a) name of None \<Rightarrow> Answered | Some u \<Rightarrow> GoesOn (CommitsUser salt r name body u))"
| "perform kd cfg before now r who (TokensDuty raw_id raw body) a =
     (fst (serve_tokens kd before raw_id raw r body who a), Answered)"
| "perform kd cfg before now r who (RevokeDuty tid) a = (fst (revoke_token now tid a), Answered)"

fun section_of :: "kdf \<Rightarrow> auth_config \<Rightarrow> time \<Rightarrow> time \<Rightarrow> task \<Rightarrow> auth \<Rightarrow> auth \<times> progress" where
  "section_of kd cfg before now (Asks r p d) a =
     (a, if auth_enabled cfg a then GoesOn (Identifies r p d) else Answered)"
| "section_of kd cfg before now (Identifies r p d) a =
     (case authenticate kd cfg now r a of
        (a, None) \<Rightarrow> (a, Answered)
      | (a, Some who) \<Rightarrow>
          (a, if \<not> role_allows (pr_role who) p then Answered
              else if pr_method who = SessionCookie \<and> unsafe_method (rq_method r) then GoesOn (ShowsCsrf r who d)
              else GoesOn (Serves r who d)))"
| "section_of kd cfg before now (ShowsCsrf r who d) a =
     (a, if csrf_ok kd r a then GoesOn (Serves r who d) else Answered)"
| "section_of kd cfg before now (Serves r who d) a = perform kd cfg before now r who d a"
| "section_of kd cfg before now (CommitsPassword r u hash) a = (change_password_commit kd now r u hash a, Answered)"
| "section_of kd cfg before now (CommitsUser salt r name body u) a =
     (fst (user_commit kd now salt r name body u a), Answered)"
| "section_of kd cfg before now (LoginGate raw rawc host username password) a =
     (case login_limited before host a of
        (a, True) \<Rightarrow> (a, Answered)
      | (a, False) \<Rightarrow> (a, GoesOn (LoginLooks raw rawc host username password)))"
| "section_of kd cfg before now (LoginLooks raw rawc host username password) a =
     (a, case login_ok kd username password a of
        None \<Rightarrow> GoesOn (LoginFails host) | Some u \<Rightarrow> GoesOn (LoginOpens raw rawc host u))"
| "section_of kd cfg before now (LoginFails host) a = (record_login_failure now host a, TellsWrong host)"
| "section_of kd cfg before now (LoginOpens raw rawc host u) a =
     (case create_session_at kd cfg before now raw rawc u a of
        (a, Inl _) \<Rightarrow> (a, Answered)
      | (a, Inr _) \<Rightarrow> (a, GoesOn (LoginClears host)))"
| "section_of kd cfg before now (LoginClears host) a = (clear_failures host a, LetsIn host)"
| "section_of kd cfg before now (OidcGate key) a =
     (case login_limited before key a of (a, True) \<Rightarrow> (a, Answered) | (a, False) \<Rightarrow> (a, GoesOn (OidcCounts key)))"
| "section_of kd cfg before now (OidcCounts key) a = (record_login_failure now key a, Answered)"
| "section_of kd cfg before now (OidcLooks raw rawc idn) a =
     (a, case oidc_account cfg idn a of Inl _ \<Rightarrow> Answered | Inr u \<Rightarrow> GoesOn (OidcOpens raw rawc u))"
| "section_of kd cfg before now (OidcOpens raw rawc u) a =
     (fst (create_session_at kd cfg before now raw rawc u a), Answered)"

text \<open>The task of a request that arrives, unless it is answered at once.\<close>

fun first_task :: "auth_config \<Rightarrow> (string \<Rightarrow> (string \<times> string) option) \<Rightarrow> auth_event \<Rightarrow> task option" where
  "first_task cfg split (AuthQuery r p) = Some (Asks r p Look)"
| "first_task cfg split (Login raw rawc r body) =
     (case body of
        None \<Rightarrow> None
      | Some (username, password) \<Rightarrow>
          Some (LoginGate raw rawc (remote_host split (rq_remote r)) (trim_space username) password))"
| "first_task cfg split (Logout r) = Some (Asks r PermissionView LeaveSession)"
| "first_task cfg split (OidcStart standby r) =
     (case oidc_allowed cfg standby of
        Some _ \<Rightarrow> None
      | None \<Rightarrow> Some (OidcGate (''oidc:'' @ remote_host split (rq_remote r))))"
| "first_task cfg split (OidcIssue raw rawc n) = Some (OidcLooks raw rawc n)"
| "first_task cfg split (ChangePassword salt r body) = Some (Asks r PermissionView (ChangeOwn salt body))"
| "first_task cfg split (EditUsers salt r body) = Some (Asks r PermissionManageAuth (UsersDuty salt body))"
| "first_task cfg split (EditUser salt r n body) = Some (Asks r PermissionManageAuth (UserDuty salt n body))"
| "first_task cfg split (EditTokens raw_id raw r body) = Some (Asks r PermissionManageAuth (TokensDuty raw_id raw body))"
| "first_task cfg split (RevokeToken r tid) = Some (Asks r PermissionManageAuth (RevokeDuty tid))"

section \<open>Requests that overlap\<close>

record front =
  fr_auth :: auth
  fr_tasks :: "task list"

datatype move = Arrives auth_event | Proceeds nat

definition proceed :: "nat \<Rightarrow> progress \<Rightarrow> task list \<Rightarrow> task list" where
  "proceed i p ts = (case p of GoesOn t \<Rightarrow> ts[i := t] | _ \<Rightarrow> take i ts @ drop (Suc i) ts)"

fun front_step :: "kdf \<Rightarrow> auth_config \<Rightarrow> (string \<Rightarrow> (string \<times> string) option) \<Rightarrow> time \<times> time \<times> move \<Rightarrow> front \<Rightarrow>
    front \<times> progress" where
  "front_step kd cfg split (before, now, Arrives ev) s =
     (case first_task cfg split ev of
        None \<Rightarrow> (s, Answered)
      | Some t \<Rightarrow> (s\<lparr>fr_tasks := fr_tasks s @ [t]\<rparr>, GoesOn t))"
| "front_step kd cfg split (before, now, Proceeds i) s =
     (if i < length (fr_tasks s) then
        (let (a, p) = section_of kd cfg before now (fr_tasks s ! i) (fr_auth s)
         in (\<lparr>fr_auth = a, fr_tasks = proceed i p (fr_tasks s)\<rparr>, p))
      else (s, Answered))"

fun front_run :: "kdf \<Rightarrow> auth_config \<Rightarrow> (string \<Rightarrow> (string \<times> string) option) \<Rightarrow> (time \<times> time \<times> move) list \<Rightarrow>
    front \<Rightarrow> front" where
  "front_run kd cfg split [] s = s"
| "front_run kd cfg split (m # ms) s = front_run kd cfg split ms (fst (front_step kd cfg split m s))"

lemma front_run_append: "front_run kd cfg split (ms @ ns) s = front_run kd cfg split ns (front_run kd cfg split ms s)"
  by (induction ms arbitrary: s) simp_all

section \<open>A request on its own\<close>

text \<open>A task that nothing interrupts, its clock standing still, does what its handler is defined to do.\<close>

fun uninterrupted :: "nat \<Rightarrow> kdf \<Rightarrow> auth_config \<Rightarrow> time \<Rightarrow> task \<Rightarrow> auth \<Rightarrow> auth" where
  "uninterrupted 0 kd cfg now t a = a"
| "uninterrupted (Suc n) kd cfg now t a =
     (case section_of kd cfg now now t a of
        (a, GoesOn t) \<Rightarrow> uninterrupted n kd cfg now t a
      | (a, _) \<Rightarrow> a)"

lemma alone_admitted:
  "uninterrupted (Suc (Suc (Suc n))) kd cfg now (Asks r p d) a =
     (case require_permission kd cfg now r p a of
        (b, Inl _) \<Rightarrow> b
      | (b, Inr who) \<Rightarrow> if pr_method who = SessionCookie \<and> unsafe_method (rq_method r)
          then uninterrupted n kd cfg now (Serves r who d) b else uninterrupted (Suc n) kd cfg now (Serves r who d) b)"
  by (simp add: require_permission_def split: prod.splits option.splits)

lemma alone_serves:
  "uninterrupted (Suc (Suc n)) kd cfg now (Serves r who Look) a = a"
  "uninterrupted (Suc (Suc n)) kd cfg now (Serves r who LeaveSession) a = end_session kd r a"
  "uninterrupted (Suc (Suc n)) kd cfg now (Serves r who (UsersDuty salt ub)) a = fst (serve_users kd cfg now salt r ub a)"
  "uninterrupted (Suc (Suc n)) kd cfg now (Serves r who (TokensDuty raw_id raw tb)) a = fst (serve_tokens kd now raw_id raw r tb who a)"
  "uninterrupted (Suc (Suc n)) kd cfg now (Serves r who (RevokeDuty tid)) a = fst (revoke_token now tid a)"
  "uninterrupted (Suc (Suc n)) kd cfg now (Serves r who (UserDuty salt name body)) a =
     (case map_of (au_users a) name of None \<Rightarrow> a | Some u \<Rightarrow> fst (user_commit kd now salt r name body u a))"
  "uninterrupted (Suc (Suc n)) kd cfg now (Serves r who (ChangeOwn salt pb)) a =
     (if pr_method who \<noteq> SessionCookie \<or> pr_actor who = [] then a
      else case pb of None \<Rightarrow> a
      | Some (current, new) \<Rightarrow> (let u = user_named a (pr_actor who) in
          case new_password kd salt current new u of Inl _ \<Rightarrow> a | Inr hash \<Rightarrow> change_password_commit kd now r u hash a))"
  by (simp_all add: Let_def split: option.splits sum.splits)

theorem served_alone:
  "(case first_task cfg split ev of None \<Rightarrow> a | Some t \<Rightarrow> uninterrupted 6 kd cfg now t a) = auth_step kd cfg split now ev a"
proof -
  have six: "(6 :: nat) = Suc (Suc (Suc (Suc (Suc (Suc 0)))))" by simp
  note admitted = alone_admitted alone_serves
  show ?thesis
  proof (cases ev)
    case (Login raw rawc r body)
    then show ?thesis
      by (simp add: six handle_login_def create_session_def Let_def split: option.splits prod.splits bool.splits sum.splits)
  next
    case (OidcStart standby r)
    then show ?thesis
      by (simp add: six handle_oidc_start_def Let_def split: option.splits prod.splits bool.splits)
  next
    case (OidcIssue raw rawc n)
    then show ?thesis by (simp add: six oidc_issue_def create_session_def split: sum.splits)
  next
    case (AuthQuery r p)
    then show ?thesis by (simp add: six admitted del: uninterrupted.simps split: prod.splits sum.splits)
  next
    case (Logout r)
    then show ?thesis by (simp add: six admitted handle_logout_def del: uninterrupted.simps split: prod.splits sum.splits)
  next
    case (ChangePassword salt r body)
    then show ?thesis
      by (simp add: six admitted handle_change_password_def change_password_check_def Let_def del: uninterrupted.simps
          split: prod.splits sum.splits option.splits)
  next
    case (EditUsers salt r body)
    then show ?thesis by (simp add: six admitted handle_users_def del: uninterrupted.simps split: prod.splits sum.splits)
  next
    case (EditUser salt r n body)
    then show ?thesis
      by (simp add: six admitted handle_user_def user_lookup_def del: uninterrupted.simps split: prod.splits sum.splits option.splits)
  next
    case (EditTokens raw_id raw r body)
    then show ?thesis by (simp add: six admitted handle_tokens_def del: uninterrupted.simps split: prod.splits sum.splits)
  next
    case (RevokeToken r tid)
    then show ?thesis by (simp add: six admitted handle_token_def del: uninterrupted.simps split: prod.splits sum.splits)
  qed
qed

section \<open>What every section keeps\<close>

text \<open>The copy of an account that a task is going to write back, and under which name.\<close>

fun held_copy :: "task \<Rightarrow> (string \<times> user) option" where
  "held_copy (CommitsPassword r u hash) = Some (us_username u, u)"
| "held_copy (CommitsUser salt r name body u) = Some (name, u)"
| "held_copy _ = None"

definition task_ok :: "task \<Rightarrow> bool" where
  "task_ok t \<longleftrightarrow> (case held_copy t of None \<Rightarrow> True | Some (name, u) \<Rightarrow> us_username u = name)"

definition front_ok :: "front \<Rightarrow> bool" where
  "front_ok s \<longleftrightarrow> auth_ok (fr_auth s) \<and> list_all task_ok (fr_tasks s)"

lemma authenticate_ok: "auth_ok a \<Longrightarrow> authenticate kd cfg now r a = (b, x) \<Longrightarrow> auth_ok b"
  using only_checked_ok [OF authenticate_checked, of a kd cfg now r] by simp

lemma authenticate_users: "authenticate kd cfg now r a = (b, x) \<Longrightarrow> au_users b = au_users a \<and> au_failures b = au_failures a"
  using authenticate_checked [of a kd cfg now r] by (simp add: only_checked_def)

lemma serve_ok: "auth_ok a \<Longrightarrow> auth_ok (fst (perform kd cfg before now r who d a))"
  by (cases d) (auto simp: sections_ok Let_def split: option.splits)

lemma serve_task_ok: "auth_ok a \<Longrightarrow> snd (perform kd cfg before now r who d a) = GoesOn t \<Longrightarrow> task_ok t"
  by (cases d) (auto simp: task_ok_def Let_def named_username split: option.splits sum.splits if_splits)

lemma section_ok:
  assumes "auth_ok a" "task_ok t"
  shows "auth_ok (fst (section_of kd cfg before now t a))"
  using assms
  by (cases t) (auto simp: sections_ok serve_ok user_commit_ok task_ok_def split: prod.splits option.splits bool.splits sum.splits
      dest: authenticate_ok limited_ok create_session_at_ok)

lemma section_task_ok:
  assumes "auth_ok a" "snd (section_of kd cfg before now t a) = GoesOn t'"
  shows "task_ok t'"
  using assms
  by (cases t) (auto simp: task_ok_def serve_task_ok [unfolded task_ok_def] split: prod.splits option.splits bool.splits sum.splits if_splits)

lemma list_all_proceed:
  "list_all P ts \<Longrightarrow> (\<And>t. p = GoesOn t \<Longrightarrow> P t) \<Longrightarrow> list_all P (proceed i p ts)"
  by (auto simp: proceed_def list_all_iff split: progress.splits dest!: set_update_subset_insert [THEN subsetD] in_set_takeD in_set_dropD)

lemma first_task_ok: "first_task cfg split ev = Some t \<Longrightarrow> held_copy t = None"
  by (cases ev) (auto split: option.splits)

lemma front_step_ok:
  assumes "front_ok s"
  shows "front_ok (fst (front_step kd cfg split m s))"
proof -
  obtain before now mv where m: "m = (before, now, mv)" by (cases m)
  show ?thesis
  proof (cases mv)
    case (Arrives ev)
    with m assms show ?thesis
      by (auto simp: front_ok_def task_ok_def first_task_ok split: option.splits)
  next
    case (Proceeds i)
    show ?thesis
    proof (cases "i < length (fr_tasks s)")
      case True
      obtain b p where sec: "section_of kd cfg before now (fr_tasks s ! i) (fr_auth s) = (b, p)" by force
      have t: "task_ok (fr_tasks s ! i)" using assms True by (simp add: front_ok_def list_all_length)
      have "auth_ok b" using section_ok [OF _ t, of "fr_auth s" kd cfg before now] assms sec by (simp add: front_ok_def)
      moreover have "list_all task_ok (proceed i p (fr_tasks s))"
        using assms section_task_ok [of "fr_auth s" kd cfg before now "fr_tasks s ! i"] sec
        by (intro list_all_proceed) (auto simp: front_ok_def)
      ultimately show ?thesis using m Proceeds True sec by (simp add: front_ok_def)
    qed (use m Proceeds assms in simp)
  qed
qed

lemma front_run_ok: "front_ok s \<Longrightarrow> front_ok (front_run kd cfg split ms s)"
  by (induction ms arbitrary: s) (simp_all add: front_step_ok)

section \<open>An enabled administrator\<close>

text \<open>A task is overtaken if it is about to write back, or delete by, a copy of an account that has been made an
  enabled administrator since it was read.\<close>

definition overtaken :: "front \<Rightarrow> time \<times> time \<times> move \<Rightarrow> bool" where
  "overtaken s m =
     (case m of (_, _, Proceeds i) \<Rightarrow> i < length (fr_tasks s) \<and>
        (case held_copy (fr_tasks s ! i) of None \<Rightarrow> False | Some (name, u) \<Rightarrow> outdated u name (fr_auth s))
      | _ \<Rightarrow> False)"

fun edits :: "task \<Rightarrow> bool" where
  "edits (Serves r who (UsersDuty salt body)) = True"
| "edits (CommitsPassword r u hash) = True"
| "edits (CommitsUser salt r name body u) = True"
| "edits _ = False"

lemma serve_users_same: "\<not> edits (Serves r who d) \<Longrightarrow> au_users (fst (perform kd cfg before now r who d a)) = au_users a"
  by (cases d) (auto simp: Let_def split: option.splits)

lemma created_users: "create_session_at kd cfg made now raw rawc u a = (b, x) \<Longrightarrow> au_users b = au_users a \<and> au_failures b = au_failures a"
  using create_session_users [of kd cfg made now raw rawc u a] by simp

lemma section_users_same: "\<not> edits t \<Longrightarrow> au_users (fst (section_of kd cfg before now t a)) = au_users a"
  by (cases t) (simp_all add: serve_users_same split: prod.splits option.splits bool.splits sum.splits,
    auto dest: authenticate_users limited_users created_users)

lemma section_admins:
  assumes "auth_ok a" "1 \<le> enabled_admins a"
    and "\<And>name u. held_copy t = Some (name, u) \<Longrightarrow> \<not> outdated u name a"
  shows "1 \<le> enabled_admins (fst (section_of kd cfg before now t a))"
proof (cases "edits t")
  case False
  from enabled_admins_users [OF section_users_same [OF False, of kd cfg before now a]] assms(2) show ?thesis by simp
next
  case True
  then show ?thesis
    using assms(3) by (cases t rule: edits.cases)
      (simp_all add: serve_users_admins [OF assms(1,2)] commit_admins [OF assms(1,2)] user_commit_admins [OF assms(1,2)] del: One_nat_def)
qed

lemma front_step_admins:
  assumes "front_ok s" "1 \<le> enabled_admins (fr_auth s)" "\<not> overtaken s m"
  shows "1 \<le> enabled_admins (fr_auth (fst (front_step kd cfg split m s)))"
proof -
  obtain before now mv where m: "m = (before, now, mv)" by (cases m)
  show ?thesis
  proof (cases mv)
    case (Arrives ev)
    with m assms(2) show ?thesis by (simp split: option.splits)
  next
    case (Proceeds i)
    show ?thesis
    proof (cases "i < length (fr_tasks s)")
      case True
      have "1 \<le> enabled_admins (fst (section_of kd cfg before now (fr_tasks s ! i) (fr_auth s)))"
        by (rule section_admins) (use assms m Proceeds True in \<open>auto simp: front_ok_def overtaken_def\<close>)
      with m Proceeds True show ?thesis by (simp add: Let_def split_beta del: One_nat_def)
    qed (use m Proceeds assms(2) in simp)
  qed
qed

lemma administrator_lost:
  assumes "front_ok s" "1 \<le> enabled_admins (fr_auth s)" "\<not> 1 \<le> enabled_admins (fr_auth (front_run kd cfg split ms s))"
  shows "\<exists>pre m post. ms = pre @ m # post \<and> overtaken (front_run kd cfg split pre s) m"
  using assms
proof (induction ms arbitrary: s)
  case Nil
  then show ?case by simp
next
  case (Cons m ms)
  show ?case
  proof (cases "overtaken s m")
    case True
    then show ?thesis by (intro exI [of _ "[]"]) simp
  next
    case False
    from Cons.IH [OF front_step_ok [OF Cons.prems(1)] front_step_admins [OF Cons.prems(1,2) False]] Cons.prems(3)
    obtain pre n post where "ms = pre @ n # post" "overtaken (front_run kd cfg split pre (fst (front_step kd cfg split m s))) n"
      by fastforce
    then show ?thesis by (intro exI [of _ "m # pre"]) auto
  qed
qed

subsection \<open>Edits of an account that do not overlap\<close>

text \<open>Nobody else is between reading the account and writing it back when it is written back.\<close>

definition others_hold :: "task list \<Rightarrow> nat \<Rightarrow> string \<Rightarrow> bool" where
  "others_hold ts i name \<longleftrightarrow> list_ex (\<lambda>j. j \<noteq> i \<and> (case held_copy (ts ! j) of Some (n, _) \<Rightarrow> n = name | None \<Rightarrow> False)) [0 ..< length ts]"

definition undisturbed :: "front \<Rightarrow> time \<times> time \<times> move \<Rightarrow> bool" where
  "undisturbed s m =
     (case m of (_, _, Proceeds i) \<Rightarrow> i < length (fr_tasks s) \<longrightarrow>
        (case held_copy (fr_tasks s ! i) of Some (name, _) \<Rightarrow> \<not> others_hold (fr_tasks s) i name | None \<Rightarrow> True)
      | _ \<Rightarrow> True)"

fun edits_apart :: "kdf \<Rightarrow> auth_config \<Rightarrow> (string \<Rightarrow> (string \<times> string) option) \<Rightarrow> (time \<times> time \<times> move) list \<Rightarrow>
    front \<Rightarrow> bool" where
  "edits_apart kd cfg split [] s = True"
| "edits_apart kd cfg split (m # ms) s = (undisturbed s m \<and> edits_apart kd cfg split ms (fst (front_step kd cfg split m s)))"

text \<open>Then every copy agrees with its account on whether it is an enabled administrator.\<close>

definition current_copy :: "auth \<Rightarrow> task \<Rightarrow> bool" where
  "current_copy a t \<longleftrightarrow> (case held_copy t of None \<Rightarrow> True
     | Some (name, u) \<Rightarrow> (\<exists>w. map_of (au_users a) name = Some w \<and> enabled_admin w = enabled_admin u))"

lemma no_password [simp]: "\<not> verify_password kd [] p"
  by (simp add: verify_password_def)

lemma serve_current:
  assumes "auth_ok a" "snd (perform kd cfg before now r who d a) = GoesOn t"
  shows "current_copy a t"
  using assms
  by (cases d) (auto simp: current_copy_def Let_def new_password_def user_named_def no_user_def named_username
      split: option.splits sum.splits if_splits)

lemma serve_goes_on: "snd (perform kd cfg before now r who d a) = GoesOn t \<Longrightarrow> fst (perform kd cfg before now r who d a) = a"
  by (cases d) (auto simp: Let_def split: option.splits if_splits)

lemma section_current:
  assumes "auth_ok a" "snd (section_of kd cfg before now t a) = GoesOn t'"
  shows "current_copy (fst (section_of kd cfg before now t a)) t'"
  using assms
  by (cases t) (auto simp: serve_goes_on serve_current current_copy_def [where t = "Identifies _ _ _"] current_copy_def [where t = "ShowsCsrf _ _ _"]
      current_copy_def [where t = "Serves _ _ _"] current_copy_def [where t = "LoginLooks _ _ _ _ _"] current_copy_def [where t = "LoginFails _"]
      current_copy_def [where t = "LoginOpens _ _ _ _"] current_copy_def [where t = "LoginClears _"] current_copy_def [where t = "OidcCounts _"]
      current_copy_def [where t = "OidcOpens _ _ _"]
      split: prod.splits option.splits bool.splits sum.splits if_splits)

lemma serve_users_others: "map_of (au_users a) n = Some w \<Longrightarrow> map_of (au_users (fst (serve_users kd cfg now salt r body a))) n = Some w"
  by (auto simp: serve_users_def Let_def update_conv' split: option.splits sum.splits)

lemma user_commit_others: "n \<noteq> name \<Longrightarrow> map_of (au_users (fst (user_commit kd now salt r name body u a))) n = map_of (au_users a) n"
  by (auto simp: user_commit_def user_delete_def user_update_def Let_def update_conv' delete_conv' split: option.splits sum.splits)

lemma commit_others: "n \<noteq> us_username u \<Longrightarrow> map_of (au_users (change_password_commit kd now r u hash a)) n = map_of (au_users a) n"
  by (simp add: change_password_commit_def Let_def update_conv')

lemma section_others:
  assumes "current_copy a t'"
    and "\<And>n u n' u'. held_copy t = Some (n, u) \<Longrightarrow> held_copy t' = Some (n', u') \<Longrightarrow> n' \<noteq> n"
  shows "current_copy (fst (section_of kd cfg before now t a)) t'"
proof (cases "held_copy t'")
  case None
  then show ?thesis by (simp add: current_copy_def)
next
  case (Some nu)
  then obtain n u w where n: "held_copy t' = Some (n, u)" "map_of (au_users a) n = Some w" "enabled_admin w = enabled_admin u"
    using assms(1) by (cases nu) (auto simp: current_copy_def)
  have "map_of (au_users (fst (section_of kd cfg before now t a))) n = Some w"
  proof (cases "edits t")
    case False
    with n(2) show ?thesis by (simp add: section_users_same)
  next
    case True
    then show ?thesis
      using n(2) assms(2) [OF _ n(1)]
      by (cases t rule: edits.cases) (simp_all add: serve_users_others user_commit_others commit_others)
  qed
  with n(1,3) show ?thesis by (simp add: current_copy_def)
qed

lemma proceed_set: "x \<in> set (proceed i p ts) \<Longrightarrow> p = GoesOn x \<or> (\<exists>j < length ts. j \<noteq> i \<and> x = ts ! j)"
proof -
  assume x: "x \<in> set (proceed i p ts)"
  show ?thesis
  proof (cases "\<exists>t. p = GoesOn t")
    case True
    then obtain t where t: "p = GoesOn t" by blast
    from x t obtain j where "j < length ts" "x = ts[i := t] ! j" by (auto simp: proceed_def in_set_conv_nth)
    with t show ?thesis by (cases "j = i") auto
  next
    case False
    with x have "x \<in> set (take i ts) \<or> x \<in> set (drop (Suc i) ts)" by (auto simp: proceed_def split: progress.splits)
    then obtain j where "j < length ts" "j \<noteq> i" "x = ts ! j"
    proof
      assume "x \<in> set (take i ts)"
      then obtain j where "j < i" "j < length ts" "x = ts ! j" by (auto simp: in_set_conv_nth)
      then show ?thesis using that [of j] by simp
    next
      assume "x \<in> set (drop (Suc i) ts)"
      then obtain j where "j < length ts - Suc i" "x = ts ! (Suc i + j)" by (auto simp: in_set_conv_nth)
      then show ?thesis using that [of "Suc i + j"] by simp
    qed
    then show ?thesis by blast
  qed
qed

definition copies_current :: "front \<Rightarrow> bool" where
  "copies_current s \<longleftrightarrow> list_all (current_copy (fr_auth s)) (fr_tasks s)"

lemma front_step_current:
  assumes "front_ok s" "copies_current s" "undisturbed s m"
  shows "copies_current (fst (front_step kd cfg split m s))"
proof -
  obtain before now mv where m: "m = (before, now, mv)" by (cases m)
  show ?thesis
  proof (cases mv)
    case (Arrives ev)
    with m assms(2) show ?thesis
      by (auto simp: copies_current_def current_copy_def first_task_ok split: option.splits)
  next
    case (Proceeds i)
    show ?thesis
    proof (cases "i < length (fr_tasks s)")
      case True
      let ?t = "fr_tasks s ! i" and ?a = "fr_auth s"
      let ?b = "fst (section_of kd cfg before now ?t ?a)" and ?p = "snd (section_of kd cfg before now ?t ?a)"
      have "current_copy ?b x" if "x \<in> set (proceed i ?p (fr_tasks s))" for x
        using proceed_set [OF that]
      proof
        assume "?p = GoesOn x"
        then show ?thesis using section_current assms(1) by (simp add: front_ok_def)
      next
        assume "\<exists>j < length (fr_tasks s). j \<noteq> i \<and> x = fr_tasks s ! j"
        then obtain j where j: "j < length (fr_tasks s)" "j \<noteq> i" "x = fr_tasks s ! j" by blast
        show ?thesis
        proof (rule section_others)
          show "current_copy ?a x" using assms(2) j by (simp add: copies_current_def list_all_length)
          show "n' \<noteq> n" if "held_copy ?t = Some (n, u)" "held_copy x = Some (n', u')" for n u n' u'
            using assms(3) m Proceeds True j that
            by (auto simp: undisturbed_def others_hold_def list_ex_iff split: option.splits)
        qed
      qed
      with m Proceeds True show ?thesis by (simp add: copies_current_def list_all_iff Let_def split_beta)
    qed (use m Proceeds assms(2) in simp)
  qed
qed

lemma current_not_overtaken: "copies_current s \<Longrightarrow> \<not> overtaken s m"
  by (auto simp: overtaken_def copies_current_def current_copy_def outdated_def list_all_length split: prod.splits move.splits option.splits)

lemma apart_admins:
  assumes "front_ok s" "copies_current s" "1 \<le> enabled_admins (fr_auth s)" "edits_apart kd cfg split ms s"
  shows "1 \<le> enabled_admins (fr_auth (front_run kd cfg split ms s))"
  using assms
proof (induction ms arbitrary: s)
  case Nil
  then show ?case by simp
next
  case (Cons m ms)
  note kept = front_step_ok [OF Cons.prems(1)] front_step_current [OF Cons.prems(1,2)]
    front_step_admins [OF Cons.prems(1,3) current_not_overtaken [OF Cons.prems(2)]]
  from Cons.prems(4) have "undisturbed s m" "edits_apart kd cfg split ms (fst (front_step kd cfg split m s))" by simp_all
  with Cons.IH [OF kept(1) kept(2) kept(3)] show ?case by simp
qed

end
