(* ===== verification/Throttle.thy ===== *)
theory Throttle
  imports Prelude
begin

text \<open>
  The contract of a rate limit whose gate and whose log are taken apart: an attempt passes the gate, which
  forgets what is older than a window and refuses a key that has reached its allowance, and is counted
  later, if it failed. Attempts under way at the same time have passed the gate without having been counted,
  so a window holds at most the allowance and what was under way.
\<close>

lemma length_filter_imp: "(\<And>x. P x \<Longrightarrow> Q x) \<Longrightarrow> length (filter P xs) \<le> length (filter Q xs)"
  by (induction xs) auto

locale throttle =
  fixes gate :: "time \<Rightarrow> 'k \<Rightarrow> 's \<Rightarrow> 's \<times> bool"
    and log_attempt :: "time \<Rightarrow> 'k \<Rightarrow> 's \<Rightarrow> 's"
    and clear :: "'k \<Rightarrow> 's \<Rightarrow> 's"
    and counted :: "'s \<Rightarrow> 'k \<Rightarrow> time list"
    and window :: duration
    and allowance :: nat
    and sound :: "'s \<Rightarrow> bool"
    and room :: "'s \<Rightarrow> bool"
  assumes gate_sound: "gate t k s = (s', shut) \<Longrightarrow> sound s \<Longrightarrow> sound s'"
    and log_sound: "sound s \<Longrightarrow> sound (log_attempt t k s)"
    and clear_sound: "sound s \<Longrightarrow> sound (clear k s)"
    and gate_keeps: "gate t k s = (s', shut) \<Longrightarrow> sound s \<Longrightarrow>
      counted s' j = filter (\<lambda>at. at > t - window) (counted s j)"
    and gate_shuts: "gate t k s = (s', shut) \<Longrightarrow> sound s \<Longrightarrow>
      shut \<longleftrightarrow> allowance \<le> length (filter (\<lambda>at. at > t - window) (counted s k))"
    and log_counts: "sound s \<Longrightarrow> room s \<Longrightarrow>
      counted (log_attempt t k s) j = (if j = k then counted s k @ [t] else counted s j)"
    and clear_counts: "sound s \<Longrightarrow> counted (clear k s) j = (if j = k then [] else counted s j)"
begin

text \<open>
  \<open>past\<close> are the times counted for the key \<open>k\<close>, \<open>now\<close> the latest clock reading, \<open>under_way\<close> how many
  attempts on \<open>k\<close> have passed the gate and have not been counted, \<open>busy\<close> a bound on that number.
\<close>

definition crowd :: "time \<Rightarrow> 's \<Rightarrow> 'k \<Rightarrow> time list \<Rightarrow> nat \<Rightarrow> nat \<Rightarrow> bool" where
  "crowd now s k past under_way busy \<longleftrightarrow> sound s \<and>
     filter (\<lambda>at. at > now - window) past = filter (\<lambda>at. at > now - window) (counted s k) \<and>
     (\<forall>at \<in> set past. at \<le> now) \<and>
     length (filter (\<lambda>at. at > now - window) past) + under_way < allowance + busy \<and>
     (\<forall>T. length (filter (\<lambda>at. T - window < at \<and> at \<le> T) past) < allowance + busy)"

lemma filter_later:
  "T \<le> now \<Longrightarrow> filter (\<lambda>at. at > T - window) (xs :: time list) = filter (\<lambda>at. at > T - window) ys \<Longrightarrow>
   filter (\<lambda>at. at > now - window) xs = filter (\<lambda>at. at > now - window) ys"
proof -
  assume le: "T \<le> now" and eq: "filter (\<lambda>at. at > T - window) xs = filter (\<lambda>at. at > T - window) ys"
  have "filter (\<lambda>at. at > now - window) zs =
      filter (\<lambda>at. at > now - window) (filter (\<lambda>at. at > T - window) zs)" for zs
    using le by (induction zs) auto
  with eq show ?thesis by metis
qed

lemma crowdD:
  assumes "crowd now s k past under_way busy"
  shows "sound s" "filter (\<lambda>at. at > now - window) past = filter (\<lambda>at. at > now - window) (counted s k)"
    and "at \<in> set past \<Longrightarrow> at \<le> now"
    and "length (filter (\<lambda>at. at > now - window) past) + under_way < allowance + busy"
    and "length (filter (\<lambda>at. T - window < at \<and> at \<le> T) past) < allowance + busy"
  using assms unfolding crowd_def by blast+

lemma crowd_start: "sound s \<Longrightarrow> counted s k = [] \<Longrightarrow> 0 < allowance \<Longrightarrow> crowd now s k [] 0 busy"
  by (simp add: crowd_def)

lemma crowd_later:
  assumes "crowd T s k past under_way busy" "T \<le> now"
  shows "crowd now s k past under_way busy"
proof -
  have "length (filter (\<lambda>at. at > now - window) past) \<le> length (filter (\<lambda>at. at > T - window) past)"
    by (rule length_filter_imp) (use assms(2) in auto)
  with crowdD(4) [OF assms(1)] have "length (filter (\<lambda>at. at > now - window) past) + under_way < allowance + busy"
    by simp
  with crowdD [OF assms(1)] filter_later [OF assms(2)] assms(2) show ?thesis
    unfolding crowd_def by (meson order_trans)
qed

text \<open>The state may change as long as what is counted for \<open>k\<close> within the window does not.\<close>

lemma crowd_same:
  assumes "crowd now s k past under_way busy" "sound s'" "u \<le> under_way"
    and "filter (\<lambda>at. at > now - window) (counted s' k) = filter (\<lambda>at. at > now - window) (counted s k)"
  shows "crowd now s' k past u busy"
  using assms unfolding crowd_def by (auto intro: le_less_trans [OF add_left_mono])

text \<open>The gate may have read the clock before it was passed: it then forgets less.\<close>

lemma gate_window:
  assumes "gate t j s = (s', shut)" "sound s" "t \<le> now"
  shows "filter (\<lambda>at. at > now - window) (counted s' k) = filter (\<lambda>at. at > now - window) (counted s k)"
proof -
  have "filter (\<lambda>at. at > now - window) (filter (\<lambda>at. at > t - window) xs) = filter (\<lambda>at. at > now - window) xs" for xs
    using assms(3) by (induction xs) auto
  with gate_keeps [OF assms(1,2)] show ?thesis by simp
qed

lemma crowd_gate:
  assumes "crowd now s k past under_way busy" "gate t j s = (s', shut)" "t \<le> now"
  shows "crowd now s' k past under_way busy"
  by (rule crowd_same [OF assms(1) gate_sound [OF assms(2)] order_refl gate_window [OF assms(2) _ assms(3)]])
    (use crowdD(1) [OF assms(1)] in simp_all)

lemma crowd_admit:
  assumes "crowd now s k past under_way busy" "gate t k s = (s', False)" "t \<le> now" "u \<le> busy"
  shows "crowd now s' k past u busy"
proof -
  note s = crowdD(1) [OF assms(1)]
  have "length (filter (\<lambda>at. at > now - window) past) \<le> length (filter (\<lambda>at. at > t - window) (counted s k))"
    unfolding crowdD(2) [OF assms(1)] by (rule length_filter_imp) (use assms(3) in auto)
  also have "\<dots> < allowance" using gate_shuts [OF assms(2) s] by simp
  finally have "length (filter (\<lambda>at. at > now - window) past) + u < allowance + busy" using assms(4) by simp
  with crowd_gate [OF assms(1-3)] show ?thesis unfolding crowd_def by blast
qed

lemma crowd_log:
  assumes "crowd now s k past (Suc u) busy" "room s" "0 < window"
  shows "crowd now (log_attempt now k s) k (past @ [now]) u busy"
  unfolding crowd_def
proof (intro conjI allI ballI)
  note s = crowdD(1) [OF assms(1)]
  show "sound (log_attempt now k s)" by (rule log_sound [OF s])
  show "filter (\<lambda>at. at > now - window) (past @ [now]) = filter (\<lambda>at. at > now - window) (counted (log_attempt now k s) k)"
    using crowdD(2) [OF assms(1)] by (simp add: log_counts [OF s assms(2)])
  show "at \<le> now" if "at \<in> set (past @ [now])" for at using that crowdD(3) [OF assms(1), of at] by auto
  have few: "length (filter (\<lambda>at. at > now - window) past) + Suc u < allowance + busy" by (rule crowdD(4) [OF assms(1)])
  then show "length (filter (\<lambda>at. at > now - window) (past @ [now])) + u < allowance + busy" by simp
  show "length (filter (\<lambda>at. T - window < at \<and> at \<le> T) (past @ [now])) < allowance + busy" for T
  proof (cases "T - window < now \<and> now \<le> T")
    case True
    have "length (filter (\<lambda>at. T - window < at \<and> at \<le> T) past) \<le> length (filter (\<lambda>at. at > now - window) past)"
      by (rule length_filter_imp) (use True in auto)
    with few True show ?thesis by simp
  next
    case False
    with crowdD(5) [OF assms(1), of T] show ?thesis by auto
  qed
qed

lemma crowd_log_other:
  assumes "crowd now s k past under_way busy" "room s" "j \<noteq> k"
  shows "crowd now (log_attempt t j s) k past under_way busy"
  by (rule crowd_same [OF assms(1) log_sound [OF crowdD(1) [OF assms(1)]] order_refl])
    (use assms(3) in \<open>simp add: log_counts [OF crowdD(1) [OF assms(1)] assms(2)]\<close>)

lemma crowd_clear_other:
  assumes "crowd now s k past under_way busy" "j \<noteq> k"
  shows "crowd now (clear j s) k past under_way busy"
  by (rule crowd_same [OF assms(1) clear_sound [OF crowdD(1) [OF assms(1)]] order_refl])
    (use assms(2) in \<open>simp add: clear_counts [OF crowdD(1) [OF assms(1)]]\<close>)

end

end
