(* ===== verification/Logins.thy ===== *)
theory Logins
  imports Sections Throttle
begin

text \<open>
  How many passwords an address may try: the login limit of \<open>auth.go\<close> as a throttle, over requests that
  overlap.
\<close>

definition failures_of :: "auth \<Rightarrow> string \<Rightarrow> time list" where
  "failures_of a k = (case map_of (au_failures a) k of None \<Rightarrow> [] | Some ts \<Rightarrow> ts)"

definition failures_keyed :: "auth \<Rightarrow> bool" where
  "failures_keyed a \<longleftrightarrow> distinct (map fst (au_failures a))"

lemma recent_recent [simp]: "recent t (recent t xs) = recent t xs"
  by (simp add: recent_def)

lemma recent_Nil [simp]: "recent t [] = []"
  by (simp add: recent_def)

lemma map_of_kept:
  "distinct (map fst l) \<Longrightarrow>
   map_of (filter (\<lambda>e. snd e \<noteq> []) (map (\<lambda>e. (fst e, recent t (snd e))) l)) j =
   (case map_of l j of None \<Rightarrow> None | Some ts \<Rightarrow> if recent t ts = [] then None else Some (recent t ts))"
proof (induction l)
  case Nil
  then show ?case by simp
next
  case (Cons e l)
  obtain k ts where e: "e = (k, ts)" by (cases e)
  with Cons.prems have "map_of l k = None" by (simp add: map_of_eq_None_iff)
  with Cons e show ?case by (auto split: option.splits)
qed

lemma limited_failures:
  assumes "login_limited t k a = (b, shut)" "failures_keyed a"
  shows "failures_of b j = recent t (failures_of a j)"
    and "shut \<longleftrightarrow> max_login_failures \<le> length (recent t (failures_of a k))"
    and "failures_keyed b" and "map_of (au_failures b) k \<noteq> None"
proof -
  let ?kept = "filter (\<lambda>e. snd e \<noteq> []) (map (\<lambda>e. (fst e, recent t (snd e))) (au_failures a))"
  have kept: "(case map_of ?kept j of None \<Rightarrow> [] | Some ts \<Rightarrow> recent t ts) = recent t (failures_of a j)" for j
    using assms(2) by (auto simp: map_of_kept failures_of_def failures_keyed_def split: option.splits)
  have b: "au_failures b = AList.update k (recent t (failures_of a k)) ?kept"
    and shut: "shut \<longleftrightarrow> max_login_failures \<le> length (recent t (failures_of a k))"
    using assms(1) unfolding login_limited_def Let_def kept by auto
  show "failures_of b j = recent t (failures_of a j)"
    using assms(2)
    by (auto simp: failures_of_def b update_conv' map_of_kept failures_keyed_def split: option.splits)
  show "failures_keyed b"
    using assms(2) by (simp add: failures_keyed_def b distinct_update distinct_fst_filter comp_def)
  show "map_of (au_failures b) k \<noteq> None" by (simp add: b update_conv')
  show "shut \<longleftrightarrow> max_login_failures \<le> length (recent t (failures_of a k))" by (rule shut)
qed

text \<open>
  The entry the gate leaves behind makes the bound on the number of addresses in \<open>recordLoginFailure\<close>
  ineffective for a login on its own: a failure that was admitted is recorded. When logins overlap, the gate
  may have dropped the empty entry again before the failure is recorded, and then the bound does apply.
\<close>

lemma admitted_failure_recorded:
  assumes "login_limited t k a = (b, shut)" "failures_keyed a"
  shows "failures_of (record_login_failure t k b) j = (if j = k then failures_of b k @ [t] else failures_of b j)"
  using limited_failures(4) [OF assms]
  by (auto simp: record_login_failure_def failures_of_def update_conv' split: option.splits)

definition failures_room :: "auth \<Rightarrow> bool" where
  "failures_room a \<longleftrightarrow> length (au_failures a) < max_login_keys"

interpretation guesses: throttle login_limited record_login_failure clear_failures failures_of login_window
  max_login_failures failures_keyed failures_room
proof
  fix t k s s' shut j
  assume lim: "login_limited t k s = (s', shut)" and ok: "failures_keyed s"
  note facts = limited_failures [OF lim ok]
  show "failures_keyed s'" by (rule facts(3))
  show "failures_of s' j = filter (\<lambda>at. at > t - login_window) (failures_of s j)"
    using facts(1) [of j] by (simp add: recent_def)
  show "shut \<longleftrightarrow> max_login_failures \<le> length (filter (\<lambda>at. at > t - login_window) (failures_of s k))"
    using facts(2) by (simp add: recent_def)
next
  fix t k s j
  assume ok: "failures_keyed s"
  show "failures_keyed (record_login_failure t k s)"
    using ok by (simp add: record_login_failure_def failures_keyed_def distinct_update)
  show "failures_of (record_login_failure t k s) j = (if j = k then failures_of s k @ [t] else failures_of s j)"
    if "failures_room s"
    using that by (auto simp: record_login_failure_def failures_room_def failures_of_def update_conv' split: option.splits)
  show "failures_keyed (clear_failures k s)"
    using ok by (simp add: clear_failures_def failures_keyed_def distinct_delete)
  show "failures_of (clear_failures k s) j = (if j = k then [] else failures_of s j)"
    by (simp add: clear_failures_def failures_of_def delete_conv')
qed

section \<open>Wrong passwords over a run\<close>

text \<open>The attempts of an address that have passed the gate and are still being served.\<close>

fun passed_gate :: "task \<Rightarrow> string \<Rightarrow> bool" where
  "passed_gate (LoginLooks raw rawc host username password) k = (host = k)"
| "passed_gate (LoginFails host) k = (host = k)"
| "passed_gate (LoginOpens raw rawc host u) k = (host = k)"
| "passed_gate (LoginClears host) k = (host = k)"
| "passed_gate (OidcCounts key) k = (key = k)"
| "passed_gate _ k = False"

definition under_way :: "string \<Rightarrow> front \<Rightarrow> nat" where
  "under_way k s = length (filter (\<lambda>t. passed_gate t k) (fr_tasks s))"

text \<open>Over a run: the most that were under way at once, whether the table of failures always had room, when the
  address was told that a password is wrong, whether it was let in.\<close>

fun most_under_way :: "kdf \<Rightarrow> auth_config \<Rightarrow> (string \<Rightarrow> (string \<times> string) option) \<Rightarrow> string \<Rightarrow>
    (time \<times> time \<times> move) list \<Rightarrow> front \<Rightarrow> nat" where
  "most_under_way kd cfg split k [] s = under_way k s"
| "most_under_way kd cfg split k (m # ms) s =
     max (under_way k s) (most_under_way kd cfg split k ms (fst (front_step kd cfg split m s)))"

fun always_room :: "kdf \<Rightarrow> auth_config \<Rightarrow> (string \<Rightarrow> (string \<times> string) option) \<Rightarrow>
    (time \<times> time \<times> move) list \<Rightarrow> front \<Rightarrow> bool" where
  "always_room kd cfg split [] s = failures_room (fr_auth s)"
| "always_room kd cfg split (m # ms) s =
     (failures_room (fr_auth s) \<and> always_room kd cfg split ms (fst (front_step kd cfg split m s)))"

fun wrong_guesses :: "kdf \<Rightarrow> auth_config \<Rightarrow> (string \<Rightarrow> (string \<times> string) option) \<Rightarrow> string \<Rightarrow>
    (time \<times> time \<times> move) list \<Rightarrow> front \<Rightarrow> time list" where
  "wrong_guesses kd cfg split k [] s = []"
| "wrong_guesses kd cfg split k (m # ms) s =
     (let (s', p) = front_step kd cfg split m s in
      (if p = TellsWrong k then [fst (snd m)] else []) @ wrong_guesses kd cfg split k ms s')"

fun logs_in :: "kdf \<Rightarrow> auth_config \<Rightarrow> (string \<Rightarrow> (string \<times> string) option) \<Rightarrow> string \<Rightarrow>
    (time \<times> time \<times> move) list \<Rightarrow> front \<Rightarrow> bool" where
  "logs_in kd cfg split k [] s = False"
| "logs_in kd cfg split k (m # ms) s =
     (let (s', p) = front_step kd cfg split m s in p = LetsIn k \<or> logs_in kd cfg split k ms s')"

lemma count_proceed:
  assumes "i < length ts"
  shows "length (filter P (proceed i p ts)) + of_bool (P (ts ! i)) =
    length (filter P ts) + (case p of GoesOn t \<Rightarrow> of_bool (P t) | _ \<Rightarrow> 0)"
proof -
  have ts: "ts = take i ts @ ts ! i # drop (Suc i) ts" by (rule id_take_nth_drop [OF assms])
  have "length (filter P ts) = length (filter P (take i ts)) + of_bool (P (ts ! i)) + length (filter P (drop (Suc i) ts))"
    by (subst ts) (simp del: append_take_drop_id)
  with assms show ?thesis by (simp add: proceed_def upd_conv_take_nth_drop split: progress.splits)
qed

lemma serve_failures: "au_failures (fst (perform kd cfg before now r who d a)) = au_failures a"
  by (cases d) (simp_all add: Let_def split: option.splits)

fun counts :: "task \<Rightarrow> bool" where
  "counts (LoginGate raw rawc host username password) = True"
| "counts (LoginFails host) = True"
| "counts (LoginClears host) = True"
| "counts (OidcGate key) = True"
| "counts (OidcCounts key) = True"
| "counts _ = False"

lemma section_failures: "\<not> counts t \<Longrightarrow> au_failures (fst (section_of kd cfg before now t a)) = au_failures a"
  by (cases t) (simp_all add: serve_failures split: prod.splits option.splits bool.splits sum.splits,
    auto dest: authenticate_users created_users)

lemma serve_not_gated: "snd (perform kd cfg before now r who d a) = GoesOn t \<Longrightarrow> \<not> passed_gate t k"
  by (cases d) (auto simp: Let_def split: option.splits sum.splits if_splits)

lemma serve_silent: "snd (perform kd cfg before now r who d a) \<noteq> TellsWrong k"
  by (cases d) (auto simp: Let_def split: option.splits sum.splits)

lemma section_gated: "\<not> counts t \<Longrightarrow> snd (section_of kd cfg before now t a) = GoesOn t' \<Longrightarrow> passed_gate t' k \<Longrightarrow> passed_gate t k"
  by (cases t) (auto simp: serve_not_gated split: prod.splits option.splits bool.splits sum.splits if_splits)

lemma section_silent: "(\<And>h. t \<noteq> LoginFails h) \<Longrightarrow> snd (section_of kd cfg before now t a) \<noteq> TellsWrong k"
  by (cases t) (auto simp: serve_silent split: prod.splits option.splits bool.splits sum.splits)

lemma crowd_same_failures:
  assumes "guesses.crowd now a k past u busy" "au_failures b = au_failures a" "u' \<le> u"
  shows "guesses.crowd now b k past u' busy"
  by (rule guesses.crowd_same [OF assms(1) _ assms(3)])
    (use guesses.crowdD(1) [OF assms(1)] assms(2) in \<open>simp_all add: failures_keyed_def failures_of_def\<close>)

text \<open>What one section of one attempt does to the failures counted for the address.\<close>

lemma gate_crowd:
  assumes "guesses.crowd now a k past u busy" "before \<le> now" "login_limited before h a = (b, shut)"
    and "u' = u + of_bool (\<not> shut \<and> h = k)" "u' \<le> busy \<or> u' = u"
  shows "guesses.crowd now b k past u' busy"
proof (cases "\<not> shut \<and> h = k")
  case True
  with assms(3-5) have "login_limited before k a = (b, False)" "u' \<le> busy" by simp_all
  from guesses.crowd_admit [OF assms(1) this(1) assms(2) this(2)] show ?thesis .
next
  case False
  with guesses.crowd_gate [OF assms(1,3,2)] assms(4) show ?thesis by simp
qed

lemma count_crowd:
  assumes "guesses.crowd now a k past u busy" "failures_room a" "u' + of_bool (h = k) = u"
  shows "guesses.crowd now (record_login_failure now h a) k (if h = k then past @ [now] else past) u' busy"
proof (cases "h = k")
  case True
  have pos: "0 < login_window" by (simp add: login_window_def minute_def second_def)
  from True assms have "guesses.crowd now a k past (Suc u') busy" by simp
  from guesses.crowd_log [OF this assms(2) pos] True show ?thesis by simp
next
  case False
  with assms guesses.crowd_log_other [of now a k past u busy h now] show ?thesis by simp
qed

lemma section_crowd:
  assumes w: "guesses.crowd now a k past u busy" and room: "failures_room a" and times: "before \<le> now"
    and sec: "section_of kd cfg before now t a = (b, p)"
    and u': "u' + of_bool (passed_gate t k) = u + (case p of GoesOn t' \<Rightarrow> of_bool (passed_gate t' k) | _ \<Rightarrow> 0)" "u' \<le> busy"
    and out: "p \<noteq> LetsIn k"
  shows "\<exists>past'. guesses.crowd now b k past' u' busy \<and> (past' = past \<and> p \<noteq> TellsWrong k \<or> past' = past @ [now])"
proof (cases "counts t")
  case False
  then have same: "au_failures b = au_failures a" using section_failures [OF False, of kd cfg before now a] sec by simp
  have "u' \<le> u"
    using u'(1) section_gated [OF False, of kd cfg before now a _ k] sec
    by (cases p) (auto simp: of_bool_def split: if_splits)
  moreover have "p \<noteq> TellsWrong k"
    using section_silent [of t kd cfg before now a k] False sec by (cases t) auto
  ultimately show ?thesis using crowd_same_failures [OF w same] by blast
next
  case True
  then show ?thesis
  proof (cases t rule: counts.cases)
    case (1 raw rawc h name password)
    obtain c shut where lim: "login_limited before h a = (c, shut)" by force
    with sec 1 u' have "b = c" "p \<noteq> TellsWrong k" "u' = u + of_bool (\<not> shut \<and> h = k)"
      by (auto split: bool.splits)
    with gate_crowd [OF w times lim this(3)] u'(2) show ?thesis by blast
  next
    case (2 h)
    with sec u' have "b = record_login_failure now h a" "p = TellsWrong h" "u' + of_bool (h = k) = u" by auto
    with count_crowd [OF w room this(3)] show ?thesis by (intro exI [of _ "if h = k then past @ [now] else past"]) auto
  next
    case (3 h)
    with sec out u' have "b = clear_failures h a" "p = LetsIn h" "h \<noteq> k" "u' = u" by auto
    with guesses.crowd_clear_other [OF w, of h] show ?thesis by blast
  next
    case (4 h)
    obtain c shut where lim: "login_limited before h a = (c, shut)" by force
    with sec 4 u' have "b = c" "p \<noteq> TellsWrong k" "u' = u + of_bool (\<not> shut \<and> h = k)"
      by (auto split: bool.splits)
    with gate_crowd [OF w times lim this(3)] u'(2) show ?thesis by blast
  next
    case (5 h)
    with sec u' have "b = record_login_failure now h a" "p = Answered" "u' + of_bool (h = k) = u" by auto
    with count_crowd [OF w room this(3)] show ?thesis by (intro exI [of _ "if h = k then past @ [now] else past"]) auto
  qed simp_all
qed

lemma first_task_gated: "first_task cfg split ev = Some t \<Longrightarrow> \<not> passed_gate t k"
  by (cases ev) (auto split: option.splits)

lemma step_crowd:
  assumes w: "guesses.crowd T (fr_auth s) k past (under_way k s) busy" and times: "T \<le> now" "before \<le> now"
    and room: "failures_room (fr_auth s)"
    and step: "front_step kd cfg split (before, now, mv) s = (s', p)" and out: "p \<noteq> LetsIn k" and few: "under_way k s' \<le> busy"
  shows "\<exists>past'. guesses.crowd now (fr_auth s') k past' (under_way k s') busy \<and>
    (past' = past \<and> p \<noteq> TellsWrong k \<or> past' = past @ [now])"
proof -
  note w = guesses.crowd_later [OF w times(1)]
  show ?thesis
  proof (cases mv)
    case (Arrives ev)
    with step have "fr_auth s' = fr_auth s" "under_way k s' = under_way k s" "p \<noteq> TellsWrong k"
      by (auto simp: under_way_def first_task_gated split: option.splits)
    with w show ?thesis by auto
  next
    case (Proceeds i)
    show ?thesis
    proof (cases "i < length (fr_tasks s)")
      case False
      with w step Proceeds show ?thesis by auto
    next
      case True
      obtain b q where sec: "section_of kd cfg before now (fr_tasks s ! i) (fr_auth s) = (b, q)" by force
      with step Proceeds True have s': "s' = \<lparr>fr_auth = b, fr_tasks = proceed i q (fr_tasks s)\<rparr>" "p = q" by auto
      have "under_way k s' + of_bool (passed_gate (fr_tasks s ! i) k) =
          under_way k s + (case q of GoesOn t' \<Rightarrow> of_bool (passed_gate t' k) | _ \<Rightarrow> 0)"
        using count_proceed [OF True, of "\<lambda>t. passed_gate t k" q] s'(1) by (simp add: under_way_def)
      from section_crowd [OF w room times(2) sec this few] out s' show ?thesis by simp
    qed
  qed
qed

lemma guesses_bounded:
  assumes "guesses.crowd T (fr_auth s) k past (under_way k s) busy" "sorted (T # map (\<lambda>m. fst (snd m)) ms)"
    and "\<forall>m \<in> set ms. fst m \<le> fst (snd m)"
    and "\<not> logs_in kd cfg split k ms s" "always_room kd cfg split ms s" "most_under_way kd cfg split k ms s \<le> busy"
  shows "length (filter (\<lambda>at. U - login_window < at \<and> at \<le> U) (past @ wrong_guesses kd cfg split k ms s)) <
    max_login_failures + busy"
  using assms
proof (induction ms arbitrary: T s past)
  case Nil
  then show ?case using guesses.crowdD(5) by simp
next
  case (Cons m ms)
  obtain before now mv where m: "m = (before, now, mv)" by (cases m)
  obtain s' p where step: "front_step kd cfg split (before, now, mv) s = (s', p)" by force
  have head: "most_under_way kd cfg split k ms s' \<le> busy \<Longrightarrow> under_way k s' \<le> busy" by (cases ms) auto
  from Cons.prems m step have now: "T \<le> now" "before \<le> now" "failures_room (fr_auth s)" "p \<noteq> LetsIn k" "under_way k s' \<le> busy"
    using head by (auto simp: Let_def)
  from step_crowd [OF Cons.prems(1) now(1-3) step now(4,5)] obtain past' where
    w: "guesses.crowd now (fr_auth s') k past' (under_way k s') busy" and
    past': "past' = past \<and> p \<noteq> TellsWrong k \<or> past' = past @ [now]" by blast
  let ?P = "\<lambda>at. U - login_window < at \<and> at \<le> U"
  have "length (filter ?P (past' @ wrong_guesses kd cfg split k ms s')) < max_login_failures + busy"
    by (rule Cons.IH [OF w]) (use Cons.prems m step in \<open>auto simp: Let_def\<close>)
  moreover have "length (filter ?P (past @ wrong_guesses kd cfg split k (m # ms) s)) \<le>
      length (filter ?P (past' @ wrong_guesses kd cfg split k ms s'))"
    using past' m step by (auto simp: Let_def)
  ultimately show ?case by simp
qed

end
