(* ===== verification/Operators.thy ===== *)
theory Operators
  imports Logins
begin

text \<open>
  What the operator API promises about accounts, sessions and tokens: the properties of the theories
  on authentication, each with a concrete instance.
\<close>

section \<open>A concrete authority\<close>

text \<open>
  A key derivation that pads or cuts the password to 32 bytes, and a hash that is the identity: enough
  to run the model.
\<close>

definition plain_kdf :: kdf where
  "plain_kdf = \<lparr>kd_sha256 = (\<lambda>s. s), kd_argon = (\<lambda>password salt it mem par len. take len (password @ replicate len CHR ''.''))\<rparr>"

lemma plain_key_length: "length (kd_argon plain_kdf password salt i m p n) = n"
  by (simp add: plain_kdf_def)

definition ops_config :: auth_config where
  "ops_config = \<lparr>ac_operator_token = ''operator'', ac_bootstrap_username = ''root'',
     ac_bootstrap_password = ''correct horse'', ac_skip_restore = True, ac_session_ttl = 12 * hour,
     ac_insecure_cookies = False, ac_oidc = \<lparr>oc_issuer = [], oc_client_id = [], oc_client_secret = [], oc_redirect = [],
       oc_claim = [], oc_label = [], oc_insecure_issuer = False, oc_unverified_email = False\<rparr>\<rparr>"

definition no_auth :: auth where
  "no_auth = \<lparr>au_users = [], au_tokens = [], au_sessions = [], au_failures = []\<rparr>"

definition a_salt :: bytes where "a_salt = replicate 16 CHR ''s''"

definition root_user :: user where
  "root_user = \<lparr>us_username = ''root'', us_role = RoleAdmin,
     us_password_hash = encode_hash a_salt (kd_argon plain_kdf ''correct horse'' a_salt argon_iterations argon_memory argon_parallelism 32),
     us_local_login = False, us_disabled = False, us_created_at = 1000 * second, us_updated_at = 1000 * second\<rparr>"

definition rooted :: auth where "rooted = no_auth\<lparr>au_users := [(''root'', root_user)]\<rparr>"

lemma rooted_bootstrap:
  "ensure_bootstrap_admin plain_kdf ops_config (1000 * second) (Some a_salt) True no_auth = (rooted, None)"
proof -
  have "trim_space ''root'' = ''root''" "valid_username ''root''" by code_simp+
  then show ?thesis
    by (simp add: ensure_bootstrap_admin_def ops_config_def no_auth_def hash_password_def rooted_def root_user_def Let_def)
qed

lemma rooted_ok: "auth_ok rooted" "1 \<le> enabled_admins rooted"
  by (simp_all add: rooted_def root_user_def no_auth_def auth_ok_def keyed_def own_sessions_def enabled_admins_def
      enabled_admin_def)

text \<open>A request of the operator, with the configured token.\<close>

definition op_request :: "string \<Rightarrow> request" where
  "op_request m = \<lparr>rq_method = m, rq_authorization = ''Bearer operator'', rq_actor = ''ops'', rq_cookie = None,
     rq_csrf = [], rq_remote = ''10.0.0.1:5000''\<rparr>"

lemma op_method [simp]: "rq_method (op_request m) = m"
  by (simp add: op_request_def)

lemma op_admitted: "require_permission plain_kdf ops_config t (op_request m) p a =
    (a, if role_allows RoleAdmin p
        then Inr \<lparr>pr_actor = ''ops'', pr_role = RoleAdmin, pr_permissions = permissions_for RoleAdmin,
          pr_method = LegacyToken, pr_csrf = []\<rparr>
        else Inl PermissionDenied)"
proof -
  have "trim_space ''ops'' = ''ops''" by code_simp
  then show ?thesis
    by (simp add: require_permission_def auth_enabled_def ops_config_def authenticate_def op_request_def)
qed

lemma admin_allows [simp]: "role_allows RoleAdmin p"
  by (cases p) (simp_all add: role_allows_def)

text \<open>An operator with a browser session, and its requests.\<close>

definition eve :: user where
  "eve = \<lparr>us_username = ''eve'', us_role = RoleOperator,
     us_password_hash = encode_hash a_salt (kd_argon plain_kdf ''a long secret'' a_salt argon_iterations argon_memory argon_parallelism 32),
     us_local_login = False, us_disabled = False, us_created_at = 1000 * second, us_updated_at = 1000 * second\<rparr>"

definition eve_session :: session where
  "eve_session = \<lparr>se_token_hash = secret_hash plain_kdf ''cookie'', se_csrf_hash = secret_hash plain_kdf ''csrf'',
     se_username = ''eve'', se_created_at = 1000 * second, se_expires_at = 44200 * second\<rparr>"

definition with_eve :: auth where
  "with_eve = rooted\<lparr>au_users := [(''root'', root_user), (''eve'', eve)],
     au_sessions := [(secret_hash plain_kdf ''cookie'', eve_session)]\<rparr>"

definition eve_request :: "string \<Rightarrow> request" where
  "eve_request m = \<lparr>rq_method = m, rq_authorization = [], rq_actor = [], rq_cookie = Some ''cookie'',
     rq_csrf = ''csrf'', rq_remote = ''10.0.0.2:5000''\<rparr>"

lemma with_eve_ok: "auth_ok with_eve"
  by (simp add: with_eve_def rooted_def root_user_def no_auth_def auth_ok_def keyed_def own_sessions_def
      eve_def eve_session_def max_user_sessions_def)

lemma eve_admitted:
  assumes "t < 44200 * second"
  shows "require_permission plain_kdf ops_config t (eve_request m) PermissionView with_eve =
    (with_eve, Inr (session_principal eve))"
proof -
  have "map_of (au_sessions with_eve) (secret_hash plain_kdf ''cookie'') = Some eve_session"
    "map_of (au_users with_eve) ''eve'' = Some eve" "us_disabled eve = False" "se_username eve_session = ''eve''"
    "se_expires_at eve_session = 44200 * second" "se_csrf_hash eve_session = secret_hash plain_kdf ''csrf''"
    by (simp_all add: with_eve_def rooted_def eve_def eve_session_def)
  with assms show ?thesis
    by (simp add: require_permission_def auth_enabled_def ops_config_def authenticate_def eve_request_def
        by_session_def session_principal_def eve_def role_allows_def csrf_ok_def cookie_hash_def)
qed

section \<open>Properties\<close>

text \<open>C30: from any state that keeps the invariant, with nothing under way, whatever is asked of the operator API
  and however the requests overlap: every map stays keyed by its entries, no account has more than ten
  sessions, and an enabled administrator remains as long as no account is written back while another request
  is between reading and writing back the same account. In general the last enabled administrator can be lost
  in one way only: a request writes back, or deletes by, a copy that it read before the account was made an
  enabled administrator.\<close>

theorem administrator_remains:
  assumes "auth_ok (fr_auth s)" "1 \<le> enabled_admins (fr_auth s)" "fr_tasks s = []"
  shows "auth_ok (fr_auth (front_run kd cfg split ms s)) \<and>
    (edits_apart kd cfg split ms s \<longrightarrow> 1 \<le> enabled_admins (fr_auth (front_run kd cfg split ms s))) \<and>
    (1 \<le> enabled_admins (fr_auth (front_run kd cfg split ms s)) \<or>
     (\<exists>pre m post. ms = pre @ m # post \<and> overtaken (front_run kd cfg split pre s) m))"
proof -
  have ok: "front_ok s" and current: "copies_current s"
    using assms(1,3) by (simp_all add: front_ok_def copies_current_def)
  have "auth_ok (fr_auth (front_run kd cfg split ms s))"
    using front_run_ok [OF ok, of kd cfg split ms] by (simp add: front_ok_def)
  with apart_admins [OF ok current assms(2)] administrator_lost [OF ok assms(2)] show ?thesis by blast
qed

text \<open>A request on its own, and the requests of several operators at once.\<close>

definition on_its_own :: "time \<Rightarrow> auth_event \<Rightarrow> (time \<times> time \<times> move) list" where
  "on_its_own t ev = (t, t, Arrives ev) # replicate 4 (t, t, Proceeds 0)"

definition promote_eve :: "(time \<times> time \<times> move) list" where
  "promote_eve = on_its_own (1001 * second) (EditUser None (op_request ''PUT'') ''eve'' (Some (RoleAdmin, None, []))) @
     on_its_own (1002 * second) (EditUser None (op_request ''DELETE'') ''root'' None)"

definition plain_user :: "string \<Rightarrow> role \<Rightarrow> user" where
  "plain_user n rl = \<lparr>us_username = n, us_role = rl, us_password_hash = [], us_local_login = False, us_disabled = False,
     us_created_at = 1000, us_updated_at = 1000\<rparr>"

definition staff_front :: front where
  "staff_front = \<lparr>fr_auth = no_auth\<lparr>au_users := [(''root'', plain_user ''root'' RoleAdmin), (''eve'', plain_user ''eve'' RoleOperator)]\<rparr>,
     fr_tasks = []\<rparr>"

lemma staff_ok: "auth_ok (fr_auth staff_front)" "1 \<le> enabled_admins (fr_auth staff_front)" "fr_tasks staff_front = []"
  by (simp_all add: staff_front_def plain_user_def no_auth_def auth_ok_def keyed_def own_sessions_def enabled_admins_def
      enabled_admin_def)

theorem administrator_remains_witness:
  "1 \<le> enabled_admins (fr_auth (front_run plain_kdf ops_config (\<lambda>_. None) promote_eve staff_front)) \<and>
   map fst (au_users (fr_auth (front_run plain_kdf ops_config (\<lambda>_. None) promote_eve staff_front))) = [''eve'']"
proof
  have "edits_apart plain_kdf ops_config (\<lambda>_. None) promote_eve staff_front" by code_simp
  then show "1 \<le> enabled_admins (fr_auth (front_run plain_kdf ops_config (\<lambda>_. None) promote_eve staff_front))"
    using administrator_remains [OF staff_ok, of plain_kdf ops_config "\<lambda>_. None" promote_eve] by blast
  show "map fst (au_users (fr_auth (front_run plain_kdf ops_config (\<lambda>_. None) promote_eve staff_front))) = [''eve'']"
    by code_simp
qed

text \<open>Overlapping edits can leave no administrator: one operator has begun to edit an account, another makes it an
  administrator and deletes the first administrator, and the first edit is written back.\<close>

definition overlapping :: "(time \<times> time \<times> move) list" where
  "overlapping = (1000 * second, 1000 * second, Arrives (EditUser None (op_request ''PUT'') ''eve'' (Some (RoleOperator, None, [])))) #
     replicate 3 (1000 * second, 1000 * second, Proceeds 0) @
     map (\<lambda>(b, n, m). (b, n, case m of Proceeds i \<Rightarrow> Proceeds (Suc i) | _ \<Rightarrow> m)) promote_eve @
     [(1003 * second, 1003 * second, Proceeds 0)]"

theorem overlapping_edits_lose_administrators:
  "enabled_admins (fr_auth (front_run plain_kdf ops_config (\<lambda>_. None) overlapping staff_front)) = 0 \<and>
   map fst (au_users (fr_auth (front_run plain_kdf ops_config (\<lambda>_. None) overlapping staff_front))) = [''eve'']"
  by code_simp

text \<open>C31: whoever is admitted has a role with the permission asked for, and showed one of three things:
  the operator token; a token that has not been revoked, whose role it gets; or the cookie of a session
  that has not expired, of an account that exists and is not disabled, with the role the account has
  now, and then an unsafe method also needs the secret of the session.\<close>

theorem admission_explained:
  assumes "require_permission kd cfg now r p a = (b, Inr who)" "auth_ok a"
  shows "role_allows (pr_role who) p \<and>
    (pr_method who = LegacyToken \<and> ac_operator_token cfg \<noteq> [] \<and>
       rq_authorization r = ''Bearer '' @ ac_operator_token cfg \<and> pr_role who = RoleAdmin \<or>
     (\<exists>i t secret. pr_method who = ApiToken \<and> (i, t) \<in> set (au_tokens a) \<and> tk_revoked_at t = None \<and>
       rq_authorization r = ''Bearer '' @ secret \<and> secret_hash kd secret = tk_hash t \<and> pr_role who = tk_role t) \<or>
     (\<exists>v s u. pr_method who = SessionCookie \<and> rq_cookie r = Some v \<and> v \<noteq> [] \<and>
       map_of (au_sessions a) (secret_hash kd v) = Some s \<and> now < se_expires_at s \<and>
       se_username s = pr_actor who \<and> map_of (au_users a) (pr_actor who) = Some u \<and> \<not> us_disabled u \<and>
       pr_role who = us_role u \<and>
       (\<not> unsafe_method (rq_method r) \<or> secret_hash kd (rq_csrf r) = se_csrf_hash s)))"
proof -
  note req = require_cases [OF assms(1)]
  have bearer: "rq_authorization r = ''Bearer '' @ drop 7 (rq_authorization r)"
    if "has_prefix (rq_authorization r) ''Bearer ''"
    using that by (auto simp: has_prefix_iff)
  from req(1) show ?thesis
  proof (cases rule: authenticate_cases)
    case legacy
    with bearer req(2) show ?thesis by metis
  next
    case (token i t)
    with bearer req(2) show ?thesis by (auto simp: token_live_def)
  next
    case (session v s u)
    have "us_username u = se_username s" by (rule named_username [OF assms(2) session(6)])
    with session req show ?thesis by (auto simp: session_principal_def csrf_ok_def cookie_hash_def)
  qed
qed

theorem admission_explained_witness:
  "role_allows RoleOperator PermissionView \<and>
   (\<exists>s. map_of (au_sessions with_eve) (secret_hash plain_kdf ''cookie'') = Some s \<and>
     secret_hash plain_kdf ''csrf'' = se_csrf_hash s)"
proof -
  have "require_permission plain_kdf ops_config (2000 * second) (eve_request ''POST'') PermissionView with_eve =
      (with_eve, Inr (session_principal eve))"
    by (rule eve_admitted) (simp add: second_def)
  from admission_explained [OF this with_eve_ok] show ?thesis
    by (simp add: session_principal_def eve_def eve_request_def unsafe_method_def with_eve_def eve_session_def)
qed

lemma handle_user_split:
  assumes "handle_user kd cfg now salt r name body a = (b, Inr out)"
  obtains a1 who u where "require_permission kd cfg now r PermissionManageAuth a = (a1, Inr who)"
    "map_of (au_users a1) name = Some u" "user_commit kd now salt r name body u a1 = (b, Inr out)"
  using assms by (auto simp: handle_user_def user_lookup_def split: prod.splits sum.splits option.splits)

lemma own_sessions_dropped [simp]: "own_sessions n (drop_sessions n ss) = 0"
  by (simp add: own_sessions_def drop_sessions_def)

lemma commit_drops:
  assumes "user_commit kd now salt r name body u a = (b, Inr out)"
    and "out = UserDeleted \<or> (\<exists>v. out = UserUpdated v \<and> us_disabled v)"
  shows "own_sessions name (au_sessions b) = 0"
  using assms
  by (auto simp: user_commit_def user_delete_def user_update_def Let_def hide_password_def
      split: option.splits sum.splits if_splits)

lemma no_own_session: "own_sessions n ss = 0 \<Longrightarrow> map_of ss h = Some s \<Longrightarrow> se_username s \<noteq> n"
  by (force simp: own_sessions_def filter_empty_conv dest: map_of_SomeD)

text \<open>C32: once an administrator has deleted an account or left it disabled, none of its sessions exist
  any more, and nothing is admitted by a session in its name, at any time and for whatever permission.\<close>

theorem account_shut_out:
  assumes "handle_user kd cfg now salt r name body a = (b, Inr out)" "auth_ok a"
    and "out = UserDeleted \<or> (\<exists>v. out = UserUpdated v \<and> us_disabled v)"
  shows "own_sessions name (au_sessions b) = 0 \<and>
    (\<forall>t q p c who. require_permission kd cfg t q p b = (c, Inr who) \<and> pr_method who = SessionCookie
       \<longrightarrow> pr_actor who \<noteq> name)"
proof (intro conjI allI impI)
  from assms(1) obtain a1 u where "user_commit kd now salt r name body u a1 = (b, Inr out)"
    by (rule handle_user_split)
  then show none: "own_sessions name (au_sessions b) = 0" by (rule commit_drops [OF _ assms(3)])
  have ok: "auth_ok b" using handle_user_ok [OF assms(2), of kd cfg now salt r name body] assms(1) by simp
  fix t q p c who
  assume "require_permission kd cfg t q p b = (c, Inr who) \<and> pr_method who = SessionCookie"
  then obtain v s where "map_of (au_sessions b) (secret_hash kd v) = Some s" "se_username s = pr_actor who"
    using admission_explained [of kd cfg t q p b c who] ok by auto
  with no_own_session [OF none] show "pr_actor who \<noteq> name" by blast
qed

lemma op_update_eve:
  "handle_user plain_kdf ops_config (2000 * second) None (op_request ''PUT'') ''eve'' (Some (RoleOperator, Some True, [])) with_eve =
    (with_eve\<lparr>au_users := [(''root'', root_user), (''eve'', eve\<lparr>us_disabled := True, us_updated_at := 2000 * second\<rparr>)],
       au_sessions := []\<rparr>,
     Inr (UserUpdated (hide_password (eve\<lparr>us_disabled := True, us_updated_at := 2000 * second\<rparr>))))"
  by (simp add: handle_user_def user_lookup_def op_admitted user_commit_def user_update_def with_eve_def rooted_def
      no_auth_def eve_def eve_session_def enabled_admin_def valid_role_def drop_sessions_def Let_def)

theorem account_shut_out_witness:
  "own_sessions ''eve'' (au_sessions with_eve) = 1 \<and>
   own_sessions ''eve'' (au_sessions (fst (handle_user plain_kdf ops_config (2000 * second) None (op_request ''PUT'')
     ''eve'' (Some (RoleOperator, Some True, [])) with_eve))) = 0"
proof
  show "own_sessions ''eve'' (au_sessions with_eve) = 1"
    by (simp add: own_sessions_def with_eve_def eve_session_def)
  have off: "us_disabled (hide_password (eve\<lparr>us_disabled := True, us_updated_at := 2000 * second\<rparr>))"
    by (simp add: hide_password_def)
  show "own_sessions ''eve'' (au_sessions (fst (handle_user plain_kdf ops_config (2000 * second) None (op_request ''PUT'')
     ''eve'' (Some (RoleOperator, Some True, [])) with_eve))) = 0"
    using account_shut_out [OF op_update_eve with_eve_ok, THEN conjunct1] off by (auto simp: op_update_eve)
qed

text \<open>C33: as long as none of its logins succeeds, an address is told in any five minutes at most seven times,
  and once more for each of its attempts that were under way at the same time, that a password is wrong: eight
  times if it tries one after the other. Whatever else happens in between; the clock does not go backwards,
  and fewer than 4096 addresses are remembered.\<close>

theorem wrong_passwords_limited:
  assumes "au_failures (fr_auth s) = []" "fr_tasks s = []"
    and "sorted (map (\<lambda>m. fst (snd m)) ms)" "\<forall>m \<in> set ms. fst m \<le> fst (snd m)"
    and "\<not> logs_in kd cfg split host ms s" "always_room kd cfg split ms s"
  shows "length (filter (\<lambda>t. T - login_window < t \<and> t \<le> T) (wrong_guesses kd cfg split host ms s)) \<le>
    7 + most_under_way kd cfg split host ms s"
proof (cases ms)
  case Nil
  then show ?thesis by simp
next
  case (Cons m rest)
  have "guesses.crowd (fst (snd m)) (fr_auth s) host [] (under_way host s) (most_under_way kd cfg split host ms s)"
    using guesses.crowd_start [of "fr_auth s" host] assms(1,2)
    by (simp add: failures_keyed_def failures_of_def under_way_def max_login_failures_def)
  from guesses_bounded [OF this _ assms(4-6) order_refl, of T] assms(3) Cons show ?thesis
    by (simp add: max_login_failures_def)
qed

definition bad_login :: "int \<Rightarrow> (time \<times> time \<times> move) list" where
  "bad_login t = (t * second, t * second, Arrives (Login None None (op_request ''POST'') (Some (''mallory'', ''guess'')))) #
     replicate 3 (t * second, t * second, Proceeds 0)"

definition empty_front :: front where "empty_front = \<lparr>fr_auth = no_auth, fr_tasks = []\<rparr>"

theorem wrong_passwords_limited_witness:
  "length (filter (\<lambda>t. 310 * second - login_window < t \<and> t \<le> 310 * second)
     (wrong_guesses plain_kdf ops_config (\<lambda>_. None) ''10.0.0.1:5000'' (concat (map bad_login [1,2,3,4,5,6,7,8,9])) empty_front)) \<le> 8"
proof -
  let ?ms = "concat (map bad_login [1,2,3,4,5,6,7,8,9])"
  have "length (filter (\<lambda>t. 310 * second - login_window < t \<and> t \<le> 310 * second)
     (wrong_guesses plain_kdf ops_config (\<lambda>_. None) ''10.0.0.1:5000'' ?ms empty_front)) \<le>
     7 + most_under_way plain_kdf ops_config (\<lambda>_. None) ''10.0.0.1:5000'' ?ms empty_front"
  proof (rule wrong_passwords_limited)
    show "au_failures (fr_auth empty_front) = []" "fr_tasks empty_front = []" by (simp_all add: empty_front_def no_auth_def)
    show "sorted (map (\<lambda>m. fst (snd m)) ?ms)" "\<forall>m \<in> set ?ms. fst m \<le> fst (snd m)" by (simp_all add: bad_login_def second_def eval_nat_numeral)
    show "\<not> logs_in plain_kdf ops_config (\<lambda>_. None) ''10.0.0.1:5000'' ?ms empty_front" by code_simp
    show "always_room plain_kdf ops_config (\<lambda>_. None) ?ms empty_front" by code_simp
  qed
  moreover have "most_under_way plain_kdf ops_config (\<lambda>_. None) ''10.0.0.1:5000'' ?ms empty_front = 1" by code_simp
  ultimately show ?thesis by simp
qed

text \<open>Attempts that pass the gate together are all told: the limit is no bound on guesses made in parallel.\<close>

definition at_once :: "nat \<Rightarrow> (time \<times> time \<times> move) list" where
  "at_once n = replicate n (0, 0, Arrives (Login None None (op_request ''POST'') (Some (''mallory'', ''guess'')))) @
     map (\<lambda>i. (0, 0, Proceeds i)) [0 ..< n] @ map (\<lambda>i. (0, 0, Proceeds i)) [0 ..< n] @ replicate n (0, 0, Proceeds 0)"

theorem parallel_guesses_pass:
  "length (wrong_guesses plain_kdf ops_config (\<lambda>_. None) ''10.0.0.1:5000'' (at_once 12) empty_front) = 12"
  by code_simp

lemma map_sum_Inr_iff: "map_sum f id x = Inr y \<longleftrightarrow> x = Inr y"
  by (cases x) simp_all

text \<open>The password an account was created with logs it in, and so does exactly every other text for
  which the key derivation gives the same key; the stored text of the hash loses nothing.\<close>

theorem created_account_logs_in:
  assumes "handle_users kd cfg now (Some salt) r (Some (name, password, rl)) a = (b, Inr (UserCreated u))"
    and "password \<noteq> []"
    and "length (kd_argon kd password salt argon_iterations argon_memory argon_parallelism 32) = 32"
  shows "login_ok kd name attempt b \<noteq> None \<longleftrightarrow>
    kd_argon kd attempt salt argon_iterations argon_memory argon_parallelism 32 =
    kd_argon kd password salt argon_iterations argon_memory argon_parallelism 32"
proof -
  from assms(1,2) obtain hash v where h: "hash_password kd (Some salt) password = Inr hash"
    and v: "map_of (au_users b) name = Some v" "us_password_hash v = hash" "\<not> us_disabled v"
    by (auto simp: handle_users_def serve_users_def Let_def update_conv' map_sum_Inr_iff split: prod.splits sum.splits if_splits option.splits)
  have "hash \<noteq> []" using h by (auto simp: hash_password_def encode_hash_def split: if_splits)
  with v hash_password_verifies [OF h assms(3)] show ?thesis by (simp add: login_ok_def)
qed

theorem created_account_logs_in_witness:
  "login_ok plain_kdf ''dan'' ''twelve or more''
     (fst (handle_users plain_kdf ops_config (2000 * second) (Some a_salt) (op_request ''POST'')
       (Some (''dan'', ''twelve or more'', RoleViewer)) rooted)) \<noteq> None"
proof -
  have "valid_username ''dan''" by code_simp
  then obtain b u where run: "handle_users plain_kdf ops_config (2000 * second) (Some a_salt) (op_request ''POST'')
       (Some (''dan'', ''twelve or more'', RoleViewer)) rooted = (b, Inr (UserCreated u))"
    by (simp add: handle_users_def serve_users_def op_admitted valid_role_def hash_password_def rooted_def no_auth_def Let_def)
  show ?thesis
    unfolding run using created_account_logs_in [OF run _ plain_key_length, of "''twelve or more''"] by simp
qed

text \<open>C34: \<open>handleChangePassword\<close> writes back the account it read before it checked the password. When an
  administrator disables the account between the two sections under the lock, the account is disabled
  for that time only: the password change enables it again.\<close>

theorem password_change_undoes_disabling:
  assumes "auth_ok a" "change_password_check kd cfg t1 salt r body a = (a1, Inr (u, hash))"
    and "handle_user kd cfg t2 salt2 r2 (us_username u) body2 a1 = (a2, Inr (UserUpdated v))" "us_disabled v"
  shows "(\<exists>w. map_of (au_users a2) (us_username u) = Some w \<and> us_disabled w) \<and>
    (\<exists>w. map_of (au_users (change_password_commit kd t3 r u hash a2)) (us_username u) = Some w \<and>
      \<not> us_disabled w \<and> us_role w = us_role u)"
proof
  from assms(3) obtain b who w where "user_commit kd t2 salt2 r2 (us_username u) body2 w b = (a2, Inr (UserUpdated v))"
    by (rule handle_user_split)
  with assms(4) show "\<exists>w. map_of (au_users a2) (us_username u) = Some w \<and> us_disabled w"
    by (auto simp: user_commit_def user_delete_def user_update_def Let_def hide_password_def update_conv'
        split: option.splits sum.splits if_splits)
  obtain c x where eq: "require_permission kd cfg t1 r PermissionView a = (c, x)" by force
  with assms(2) obtain who where who: "x = Inr who" "pr_method who = SessionCookie" "u = user_named c (pr_actor who)"
    by (auto simp: change_password_check_def Let_def split: sum.splits if_splits option.splits)
  from eq who(1) have "authenticate kd cfg t1 r a = (c, Some who)" using require_cases(1) by blast
  from session_user [OF assms(1) this who(2)] obtain w where
    "map_of (au_users a) (pr_actor who) = Some w" "\<not> us_disabled w" "c = a" by blast
  with who(3) have "\<not> us_disabled u" by (simp add: user_named_def)
  then show "\<exists>w. map_of (au_users (change_password_commit kd t3 r u hash a2)) (us_username u) = Some w \<and>
      \<not> us_disabled w \<and> us_role w = us_role u"
    by (simp add: change_password_commit_def Let_def update_conv')
qed

theorem password_change_undoes_disabling_witness:
  "map_option us_disabled (map_of (au_users (fst (handle_user plain_kdf ops_config (2000 * second) None (op_request ''PUT'')
     ''eve'' (Some (RoleOperator, Some True, [])) with_eve))) ''eve'') = Some True \<and>
   map_option us_disabled (map_of (au_users (change_password_commit plain_kdf (2001 * second) (eve_request ''POST'') eve
     (encode_hash a_salt (kd_argon plain_kdf ''another secret'' a_salt argon_iterations argon_memory argon_parallelism 32))
     (fst (handle_user plain_kdf ops_config (2000 * second) None (op_request ''PUT'')
     ''eve'' (Some (RoleOperator, Some True, [])) with_eve)))) ''eve'') = Some False"
proof -
  let ?hash = "encode_hash a_salt (kd_argon plain_kdf ''another secret'' a_salt argon_iterations argon_memory argon_parallelism 32)"
  have "require_permission plain_kdf ops_config (1999 * second) (eve_request ''POST'') PermissionView with_eve =
      (with_eve, Inr (session_principal eve))"
    by (rule eve_admitted) (simp add: second_def)
  moreover have "verify_password plain_kdf (us_password_hash eve) ''a long secret''"
    by (simp add: eve_def verify_encoded plain_key_length)
  moreover have "user_named with_eve (pr_actor (session_principal eve)) = eve" "us_username eve = ''eve''"
    by (simp_all add: user_named_def with_eve_def rooted_def session_principal_def eve_def)
  ultimately have check: "change_password_check plain_kdf ops_config (1999 * second) (Some a_salt) (eve_request ''POST'')
      (Some (''a long secret'', ''another secret'')) with_eve = (with_eve, Inr (eve, ?hash))"
    by (simp add: change_password_check_def new_password_def session_principal_def hash_password_def)
  have name: "us_username eve = ''eve''" by (simp add: eve_def)
  have off: "us_disabled (hide_password (eve\<lparr>us_disabled := True, us_updated_at := 2000 * second\<rparr>))"
    by (simp add: hide_password_def)
  from password_change_undoes_disabling [OF with_eve_ok check _ off, unfolded name, OF op_update_eve, of "2001 * second"]
  show ?thesis by (auto simp: op_update_eve)
qed

end
