(* ===== verification/Uptime.thy ===== *)
theory Uptime
  imports Delivery "HOL-Library.While_Combinator"
begin

text \<open>
  Uptime from durable incidents (\<open>internal/coordinator/uptime.go\<close>). Durations stay in nanoseconds where
  the code turns them into floating-point seconds, and the share is an exact fraction.
\<close>

record interval =
  iv_from :: time
  iv_to :: time

definition clip :: "interval \<Rightarrow> time \<Rightarrow> time \<Rightarrow> interval \<times> bool" where
  "clip i lo hi =
     (let i = (if iv_from i < lo then i\<lparr>iv_from := lo\<rparr> else i);
          i = (if iv_to i > hi then i\<lparr>iv_to := hi\<rparr> else i)
      in (i, iv_to i > iv_from i))"

definition clipped :: "interval \<Rightarrow> interval \<Rightarrow> interval list" where
  "clipped i span = (case clip i (iv_from span) (iv_to span) of (part, ok) \<Rightarrow> if ok then [part] else [])"

text \<open>The loop over the repetitions as it stands: nothing in it stops it when \<open>every\<close> is not positive. The
  test at the head of \<open>occurrences\<close> lets only a positive \<open>every\<close> reach it, and then it ends
  (\<open>occurrence_loop_ends\<close>).\<close>

definition before_end :: "interval \<Rightarrow> time \<times> interval list \<Rightarrow> bool" where
  "before_end span round = (fst round < iv_to span)"

definition next_occurrence :: "duration \<Rightarrow> duration \<Rightarrow> interval \<Rightarrow> time \<times> interval list \<Rightarrow> time \<times> interval list" where
  "next_occurrence every len span = (\<lambda>(start, out).
     (start + every, out @ clipped \<lparr>iv_from = start, iv_to = start + len\<rparr> span))"

definition occurrence_loop :: "duration \<Rightarrow> duration \<Rightarrow> interval \<Rightarrow> time \<Rightarrow> interval list" where
  "occurrence_loop every len span start = snd (while (before_end span) (next_occurrence every len span) (start, []))"

definition occurrences :: "(string \<Rightarrow> duration option) \<Rightarrow> maintenance \<Rightarrow> interval \<Rightarrow> interval list" where
  "occurrences parse m span =
     (let once = clipped \<lparr>iv_from = mt_starts_at m, iv_to = mt_ends_at m\<rparr> span;
          len = sub_time (mt_ends_at m) (mt_starts_at m)
      in case parse (mt_every m) of
           None \<Rightarrow> once
         | Some every \<Rightarrow>
             if every \<le> 0 then once
             else (let start = mt_starts_at m;
                       start = (if iv_from span > start
                         then start + quot (sub_time (iv_from span) start) every * every else start)
                   in occurrence_loop every len span start))"

definition total_step :: "duration \<times> time \<Rightarrow> interval \<Rightarrow> duration \<times> time" where
  "total_step acc i =
     (let (sum, last_end) = acc;
          i = (if iv_from i < last_end then i\<lparr>iv_from := last_end\<rparr> else i)
      in if iv_to i > iv_from i then (sum + sub_time (iv_to i) (iv_from i), iv_to i) else (sum, last_end))"

definition total_duration :: "interval list \<Rightarrow> duration" where
  "total_duration is = fst (foldl total_step (0, zero_time) (sort_key iv_from is))"

datatype uptime_subject = UptimeCheck string | UptimeComponent string

record uptime =
  up_subject :: uptime_subject
  up_from :: time
  up_to :: time
  up_ratio :: "int \<times> int"
  up_downtime :: duration
  up_maintenance :: duration
  up_outages :: nat

definition subject_of :: "alert \<Rightarrow> uptime_subject" where
  "subject_of a = (if al_component a \<noteq> [] then UptimeComponent (al_component a) else UptimeCheck (al_check a))"

definition outage_span :: "time \<Rightarrow> time \<Rightarrow> incident \<Rightarrow> interval \<times> bool" where
  "outage_span lo hi i =
     (let finish = (if in_active i \<or> is_zero (in_resolved_at i) then hi else in_resolved_at i)
      in clip \<lparr>iv_from = in_opened_at i, iv_to = finish\<rparr> lo hi)"

definition covered :: "(string \<Rightarrow> duration option) \<Rightarrow> maintenance list \<Rightarrow> alert \<Rightarrow> interval \<Rightarrow> interval list" where
  "covered parse ws a span =
     concat (map (\<lambda>m. if alert_matches a (mt_checks m) (mt_components m) (mt_probers m)
       then occurrences parse m span else []) ws)"

definition charge :: "(string \<Rightarrow> duration option) \<Rightarrow> maintenance list \<Rightarrow> time \<Rightarrow> time \<Rightarrow> uptime list \<Rightarrow> incident \<Rightarrow>
    uptime list" where
  "charge parse ws lo hi us i =
     (if in_kind i \<noteq> KindDown \<or> al_prober (in_alert i) \<noteq> [] then us
      else (let (outage, ok) = outage_span lo hi i in
        if \<not> ok then us
        else (let excluded = total_duration (covered parse ws (in_alert i) outage) in
          map (\<lambda>u. if up_subject u = subject_of (in_alert i)
             then u\<lparr>up_outages := Suc (up_outages u), up_maintenance := up_maintenance u + excluded,
               up_downtime := up_downtime u + (sub_time (iv_to outage) (iv_from outage) - excluded)\<rparr>
             else u) us)))"

definition empty_uptime :: "time \<Rightarrow> time \<Rightarrow> uptime_subject \<Rightarrow> uptime" where
  "empty_uptime lo hi s = \<lparr>up_subject = s, up_from = lo, up_to = hi, up_ratio = (1, 1), up_downtime = 0,
     up_maintenance = 0, up_outages = 0\<rparr>"

definition with_ratio :: "duration \<Rightarrow> uptime \<Rightarrow> uptime" where
  "with_ratio period u =
     u\<lparr>up_ratio := (if period > 0 then (max 0 (period - up_downtime u), period) else (1, 1))\<rparr>"

definition uptime_report :: "(string \<Rightarrow> duration option) \<Rightarrow> 'c desk_config_scheme \<Rightarrow> time \<Rightarrow> 'a desk_scheme \<Rightarrow>
    string list \<Rightarrow> string list \<Rightarrow> time \<Rightarrow> time \<Rightarrow> uptime list" where
  "uptime_report parse cfg now d checks components lo hi =
     (let hi = (if hi > now then now else hi);
          entries = map (\<lambda>n. empty_uptime lo hi (UptimeCheck n)) checks @
            map (\<lambda>n. empty_uptime lo hi (UptimeComponent n)) components;
          us = foldl (charge parse (windows cfg d) lo hi) entries (dk_incidents d)
      in map (with_ratio (sub_time hi lo)) us)"

definition default_uptime_period :: duration where "default_uptime_period = 720 * hour"

text \<open>\<open>handleUptime\<close>: the two query parameters, as parsed times or \<open>None\<close> when they do not parse.\<close>

datatype uptime_reply = NotATime string | EmptyPeriod | UptimeReport "uptime list"

definition handle_uptime :: "(string \<Rightarrow> duration option) \<Rightarrow> (string \<Rightarrow> time option) \<Rightarrow> 'c desk_config_scheme \<Rightarrow> time \<Rightarrow>
    'a desk_scheme \<Rightarrow> string list \<Rightarrow> string list \<Rightarrow> string \<Rightarrow> string \<Rightarrow> uptime_reply" where
  "handle_uptime parse parse_at cfg now d checks components since until_text =
     (let bound = (\<lambda>raw default. if raw = [] then Some default else parse_at raw) in
      case bound since (now - default_uptime_period) of
        None \<Rightarrow> NotATime ''since''
      | Some lo \<Rightarrow> (case bound until_text now of
          None \<Rightarrow> NotATime ''until''
        | Some hi \<Rightarrow> if \<not> hi > lo then EmptyPeriod
            else UptimeReport (uptime_report parse cfg now d checks components lo hi)))"

section \<open>Intervals as sets of instants\<close>

definition instants :: "interval \<Rightarrow> time set" where "instants i = {iv_from i ..< iv_to i}"

definition all_instants :: "interval list \<Rightarrow> time set" where "all_instants is = (\<Union>i \<in> set is. instants i)"

lemma all_instants_simps [simp]:
  "all_instants [] = {}" "all_instants (i # is) = instants i \<union> all_instants is"
  "all_instants (xs @ ys) = all_instants xs \<union> all_instants ys"
  by (auto simp: all_instants_def)

lemma clip_eq: "clip i lo hi =
    (\<lparr>iv_from = max lo (iv_from i), iv_to = min hi (iv_to i)\<rparr>, max lo (iv_from i) < min hi (iv_to i))"
  by (cases i) (auto simp: clip_def Let_def)

lemma instants_clipped: "all_instants (clipped i span) = instants i \<inter> instants span"
  by (auto simp: clipped_def clip_eq instants_def)

text \<open>How many rounds the loop makes, and what it covers.\<close>

definition rounds :: "duration \<Rightarrow> interval \<Rightarrow> time \<Rightarrow> nat" where
  "rounds every span start = nat ((iv_to span - start + every - 1) div every)"

lemma rounds_step:
  assumes "0 < every" "start < iv_to span"
  shows "rounds every span start = Suc (rounds every span (start + every))"
proof -
  have "(iv_to span - start + every - 1) div every = (iv_to span - (start + every) + every - 1) div every + 1"
    using assms(1) div_add_self2 [of every "iv_to span - start - 1"] by (simp add: algebra_simps)
  moreover have "0 \<le> (iv_to span - (start + every) + every - 1) div every"
    using assms by (simp add: pos_imp_zdiv_nonneg_iff)
  ultimately show ?thesis by (simp add: rounds_def)
qed

lemma rounds_done:
  assumes "0 < every" "\<not> start < iv_to span"
  shows "rounds every span start = 0"
proof -
  have "(iv_to span - start + every - 1) div every \<le> (every - 1) div every"
    using assms by (intro zdiv_mono1) auto
  moreover have "(every - 1) div every = 0" using assms(1) by simp
  ultimately show ?thesis by (simp add: rounds_def)
qed

text \<open>The loop ends at the first start that is not before the end of the span, after one round for each
  start before it.\<close>

lemma occurrence_loop_ends:
  assumes "0 < every"
  shows "while_option (before_end span) (next_occurrence every len span) (start, out) =
    Some (start + int (rounds every span start) * every,
      out @ concat (map (\<lambda>k. clipped \<lparr>iv_from = start + int k * every, iv_to = start + int k * every + len\<rparr> span)
        [0 ..< rounds every span start]))"
proof (induction "rounds every span start" arbitrary: start out)
  case 0
  then have "\<not> start < iv_to span" using rounds_step [OF assms, of start span] by auto
  with 0 show ?case by (subst while_option_unfold) (simp add: before_end_def)
next
  case (Suc n)
  then have more: "start < iv_to span" using rounds_done [OF assms, of start span] by auto
  then have n: "n = rounds every span (start + every)" using Suc.hyps(2) rounds_step [OF assms] by simp
  let ?f = "\<lambda>st k. clipped \<lparr>iv_from = st + int k * every, iv_to = st + int k * every + len\<rparr> span"
  have "?f start \<circ> Suc = ?f (start + every)" by (simp add: fun_eq_iff algebra_simps)
  then have shift: "map (?f (start + every)) [0 ..< n] = map (?f start) [1 ..< Suc n]"
    by (simp add: map_Suc_upt [symmetric] del: upt_Suc)
  have "while_option (before_end span) (next_occurrence every len span) (start, out) =
      while_option (before_end span) (next_occurrence every len span) (start + every, out @ ?f start 0)"
    using more by (subst while_option_unfold) (simp add: before_end_def next_occurrence_def)
  also have "\<dots> = Some (start + every + int n * every, (out @ ?f start 0) @ concat (map (?f (start + every)) [0 ..< n]))"
    using Suc.hyps(1) [OF n, of "out @ ?f start 0"] by (simp only: n [symmetric])
  also have "\<dots> = Some (start + int (Suc n) * every, out @ concat (map (?f start) [0 ..< Suc n]))"
    unfolding shift by (simp add: upt_conv_Cons algebra_simps del: upt_Suc)
  finally show ?case by (simp only: Suc.hyps(2) [symmetric])
qed

lemma occurrence_loop_rounds:
  "0 < every \<Longrightarrow> occurrence_loop every len span start =
     concat (map (\<lambda>k. clipped \<lparr>iv_from = start + int k * every, iv_to = start + int k * every + len\<rparr> span)
       [0 ..< rounds every span start])"
  by (simp add: occurrence_loop_def while_def occurrence_loop_ends)

lemma rounds_reach:
  assumes "0 < every"
  shows "start + int k * every < iv_to span \<longleftrightarrow> k < rounds every span start"
proof (induction k arbitrary: start)
  case 0
  show ?case
  proof (cases "start < iv_to span")
    case True
    with rounds_step [OF assms True] show ?thesis by simp
  next
    case False
    with rounds_done [OF assms False] show ?thesis by simp
  qed
next
  case (Suc k)
  show ?case
  proof (cases "start < iv_to span")
    case True
    with Suc [of "start + every"] rounds_step [OF assms True] show ?thesis by (simp add: algebra_simps)
  next
    case False
    moreover have "0 \<le> int (Suc k) * every" using assms by simp
    ultimately show ?thesis using rounds_done [OF assms False] by simp
  qed
qed

lemma all_instants_concat: "all_instants (concat (map f ks)) = (\<Union>k \<in> set ks. all_instants (f k))"
  by (induction ks) auto

lemma loop_instants:
  assumes "0 < every" "0 \<le> len"
  shows "all_instants (occurrence_loop every len span start) =
    {t \<in> instants span. \<exists>k::nat. start + int k * every \<le> t \<and> t < start + int k * every + len}"
proof -
  have "k < rounds every span start" if "t \<in> instants span" "start + int k * every \<le> t" for t k
    using that rounds_reach [OF assms(1), of start k span] by (simp add: instants_def)
  then show ?thesis
    unfolding occurrence_loop_rounds [OF assms(1)] all_instants_concat instants_clipped set_upt atLeast0LessThan
    by (auto simp: instants_def) blast
qed

section \<open>Occurrences are the instants a window is in force\<close>

text \<open>Skipping the repetitions before the span loses none that reaches into it.\<close>

lemma skipped_repetitions:
  fixes s p l lo t :: int
  assumes "0 < p" "l < p" "s < lo" "lo \<le> t"
  shows "(\<exists>k::nat. s + (lo - s) div p * p + int k * p \<le> t \<and> t < s + (lo - s) div p * p + int k * p + l) \<longleftrightarrow>
    (\<exists>k::nat. s + int k * p \<le> t \<and> t < s + int k * p + l)"
proof
  let ?q = "(lo - s) div p"
  have q: "0 \<le> ?q" using assms by (simp add: pos_imp_zdiv_nonneg_iff)
  have le: "?q * p \<le> lo - s" using div_mult_mod_eq [of "lo - s" p] pos_mod_sign [OF assms(1), of "lo - s"] by linarith
  {
    assume "\<exists>k::nat. s + ?q * p + int k * p \<le> t \<and> t < s + ?q * p + int k * p + l"
    then obtain k :: nat where "s + ?q * p + int k * p \<le> t" "t < s + ?q * p + int k * p + l" by blast
    then have "s + int (nat ?q + k) * p \<le> t \<and> t < s + int (nat ?q + k) * p + l"
      using q by (simp add: distrib_right add.assoc)
    then show "\<exists>k::nat. s + int k * p \<le> t \<and> t < s + int k * p + l" by blast
  }
  assume "\<exists>k::nat. s + int k * p \<le> t \<and> t < s + int k * p + l"
  then obtain k :: nat where k: "s + int k * p \<le> t" "t < s + int k * p + l" by blast
  have "?q \<le> int k"
  proof (rule ccontr)
    assume "\<not> ?q \<le> int k"
    then have "(int k + 1) * p \<le> ?q * p" using assms(1) by (intro mult_right_mono) auto
    with k(2) le assms(2,4) show False by (simp add: distrib_right)
  qed
  then have "?q * p + int (nat (int k - ?q)) * p = int k * p"
    by (simp add: left_diff_distrib)
  with k have "s + ?q * p + int (nat (int k - ?q)) * p \<le> t \<and> t < s + ?q * p + int (nat (int k - ?q)) * p + l"
    by linarith
  then show "\<exists>k::nat. s + ?q * p + int k * p \<le> t \<and> t < s + ?q * p + int k * p + l" by blast
qed

text \<open>Windows a report can rely on: validated ones, within reach of the 64-bit durations.\<close>

definition window_ok :: "(string \<Rightarrow> duration option) \<Rightarrow> time \<Rightarrow> maintenance \<Rightarrow> bool" where
  "window_ok parse hi m \<longleftrightarrow> maintenance_validate parse m = None \<and>
     hi - mt_starts_at m \<le> max_duration \<and> mt_ends_at m - mt_starts_at m \<le> max_duration"

lemma occurrences_instants:
  assumes "window_ok parse (iv_to span) m" "parse [] = None"
  shows "all_instants (occurrences parse m span) = {t \<in> instants span. maintenance_active parse m t}"
proof (cases "parse (mt_every m)")
  case None
  then show ?thesis
    by (auto simp: occurrences_def instants_clipped maintenance_once) (auto simp: instants_def)
next
  case (Some every)
  with assms(2) have ne: "mt_every m \<noteq> []" by auto
  let ?s = "mt_starts_at m" and ?l = "mt_ends_at m - mt_starts_at m"
  have v: "maintenance_validate parse m = None" and b: "iv_to span - ?s \<le> max_duration" "?l \<le> max_duration"
    using assms(1) by (simp_all add: window_ok_def)
  have pos: "0 < every" "?s < mt_ends_at m" "sub_time (mt_ends_at m) ?s < every"
    using v ne Some by (auto simp: maintenance_validate_def split: if_splits)
  have l: "sub_time (mt_ends_at m) ?s = ?l" using b(2) pos(2) by (intro sub_time_exact) auto
  have act: "maintenance_active parse m t \<longleftrightarrow> (\<exists>k::nat. ?s + int k * every \<le> t \<and> t < ?s + int k * every + ?l)"
    if "t < iv_to span" for t
  proof -
    have "t - ?s \<le> max_duration" using b(1) that by linarith
    from maintenance_repeats [OF v ne Some this b(2)] show ?thesis by (simp add: algebra_simps)
  qed
  show ?thesis
  proof (cases "iv_from span > ?s")
    case True
    show ?thesis
    proof (cases "iv_from span < iv_to span")
      case False
      then have "instants span = {}" by (simp add: instants_def)
      with loop_instants [OF pos(1), of ?l span] l pos Some True show ?thesis
        by (simp add: occurrences_def Let_def)
    next
      case reach: True
      have "sub_time (iv_from span) ?s = iv_from span - ?s"
        using True reach b(1) by (intro sub_time_exact) auto
      moreover have "quot (iv_from span - ?s) every = (iv_from span - ?s) div every" using True by simp
      ultimately have "occurrences parse m span =
          occurrence_loop every ?l span (?s + (iv_from span - ?s) div every * every)"
        using Some pos True by (simp add: occurrences_def Let_def l)
      then show ?thesis
        using loop_instants [OF pos(1), of ?l span "?s + (iv_from span - ?s) div every * every"]
          skipped_repetitions [OF pos(1), of ?l ?s "iv_from span"] pos l act True
        by (auto simp: instants_def)
    qed
  next
    case False
    with Some pos l loop_instants [OF pos(1), of ?l span ?s] act show ?thesis
      by (auto simp: occurrences_def Let_def instants_def)
  qed
qed

section \<open>Totals count instants once\<close>

lemma total_step_eq:
  "total_step (n, e) i =
    (if max e (iv_from i) < iv_to i then (n + sub_time (iv_to i) (max e (iv_from i)), iv_to i) else (n, e))"
  by (cases i) (auto simp: total_step_def Let_def max_def)

lemma finite_instants [simp]: "finite (instants i)"
  by (simp add: instants_def)

lemma finite_all_instants [simp]: "finite (all_instants is)"
  by (simp add: all_instants_def)

lemma total_fold:
  assumes "sorted (map iv_from is)" "\<And>i. i \<in> set is \<Longrightarrow> iv_to i - iv_from i \<le> max_duration"
  shows "fst (foldl total_step (n, e) is) = n + int (card (all_instants is - {..< e}))"
  using assms
proof (induction "is" arbitrary: n e)
  case Nil
  then show ?case by simp
next
  case (Cons i rest)
  have sorted: "sorted (map iv_from rest)" and later: "\<And>j. j \<in> set rest \<Longrightarrow> iv_from i \<le> iv_from j"
    and len: "\<And>j. j \<in> set rest \<Longrightarrow> iv_to j - iv_from j \<le> max_duration"
    using Cons.prems by auto
  note IH = Cons.IH [OF sorted len]
  let ?lo = "max e (iv_from i)"
  show ?case
  proof (cases "?lo < iv_to i")
    case False
    then have "instants i - {..< e} = {}" by (auto simp: instants_def)
    then have "all_instants (i # rest) - {..< e} = all_instants rest - {..< e}" by (auto simp: Un_Diff)
    moreover have "total_step (n, e) i = (n, e)" using False by (auto simp: total_step_eq)
    ultimately show ?thesis using IH by simp
  next
    case True
    have exact: "sub_time (iv_to i) ?lo = iv_to i - ?lo"
      using True Cons.prems(2) [of i] by (intro sub_time_exact) auto
    have "all_instants rest - {..< e} \<subseteq> {?lo ..< iv_to i} \<union> (all_instants rest - {..< iv_to i})"
      using later by (fastforce simp: all_instants_def instants_def)
    then have split: "all_instants (i # rest) - {..< e} = {?lo ..< iv_to i} \<union> (all_instants rest - {..< iv_to i})"
      using True by (auto simp: instants_def)
    have "card (all_instants (i # rest) - {..< e}) = card {?lo ..< iv_to i} + card (all_instants rest - {..< iv_to i})"
      unfolding split by (rule card_Un_disjoint) auto
    moreover have "total_step (n, e) i = (n + (iv_to i - ?lo), iv_to i)" using True exact by (auto simp: total_step_eq)
    ultimately show ?thesis using IH True by simp
  qed
qed

lemma total_duration_card:
  assumes "\<And>i. i \<in> set is \<Longrightarrow> 0 \<le> iv_from i \<and> iv_to i - iv_from i \<le> max_duration"
  shows "total_duration is = int (card (all_instants is))"
proof -
  have "all_instants (sort_key iv_from is) = all_instants is" by (simp add: all_instants_def)
  moreover have "all_instants is - {..< zero_time} = all_instants is"
    using assms by (fastforce simp: all_instants_def instants_def zero_time_def)
  ultimately show ?thesis
    using total_fold [of "sort_key iv_from is" 0 zero_time] assms by (simp add: total_duration_def)
qed

section \<open>The report\<close>

definition excused :: "(string \<Rightarrow> duration option) \<Rightarrow> maintenance list \<Rightarrow> alert \<Rightarrow> time \<Rightarrow> bool" where
  "excused parse ws a t \<longleftrightarrow> (\<exists>m \<in> set ws. alert_matches a (mt_checks m) (mt_components m) (mt_probers m) \<and>
     maintenance_active parse m t)"

lemma clipped_within: "i \<in> set (clipped j span) \<Longrightarrow> iv_from span \<le> iv_from i \<and> iv_to i \<le> iv_to span"
  by (auto simp: clipped_def clip_eq split: if_splits)

lemma loop_within:
  "0 < every \<Longrightarrow> i \<in> set (occurrence_loop every len span start) \<Longrightarrow> iv_from span \<le> iv_from i \<and> iv_to i \<le> iv_to span"
  by (auto simp: occurrence_loop_rounds dest: clipped_within)

lemma occurrences_within: "i \<in> set (occurrences parse m span) \<Longrightarrow> iv_from span \<le> iv_from i \<and> iv_to i \<le> iv_to span"
  by (auto simp: occurrences_def Let_def split: option.splits if_splits dest: clipped_within loop_within [rotated])

lemma covered_within: "i \<in> set (covered parse ws a span) \<Longrightarrow> iv_from span \<le> iv_from i \<and> iv_to i \<le> iv_to span"
  by (auto simp: covered_def dest: occurrences_within split: if_splits)

lemma covered_instants:
  assumes "\<And>m. m \<in> set ws \<Longrightarrow> window_ok parse (iv_to span) m" "parse [] = None"
  shows "all_instants (covered parse ws a span) = {t \<in> instants span. excused parse ws a t}"
proof -
  have "all_instants (covered parse ws a span) = (\<Union>m \<in> set ws.
      if alert_matches a (mt_checks m) (mt_components m) (mt_probers m) then all_instants (occurrences parse m span) else {})"
    by (auto simp: covered_def all_instants_concat split: if_splits)
  also have "\<dots> = (\<Union>m \<in> set ws. if alert_matches a (mt_checks m) (mt_components m) (mt_probers m)
      then {t \<in> instants span. maintenance_active parse m t} else {})"
    using occurrences_instants [OF assms(1) assms(2)] by (intro SUP_cong refl) simp
  finally show ?thesis by (auto simp: excused_def)
qed

text \<open>The instants of an incident within the period.\<close>

definition outage_instants :: "time \<Rightarrow> time \<Rightarrow> incident \<Rightarrow> time set" where
  "outage_instants lo hi i = {t. lo \<le> t \<and> t < hi \<and> in_opened_at i \<le> t \<and>
     (in_active i \<or> is_zero (in_resolved_at i) \<or> t < in_resolved_at i)}"

lemma outage_span_instants:
  assumes "outage_span lo hi i = (o', ok)"
  shows "instants o' = outage_instants lo hi i" "ok \<longleftrightarrow> outage_instants lo hi i \<noteq> {}" "lo \<le> iv_from o'" "iv_to o' \<le> hi"
proof -
  let ?finish = "if in_active i \<or> is_zero (in_resolved_at i) then hi else in_resolved_at i"
  have o': "o' = \<lparr>iv_from = max lo (in_opened_at i), iv_to = min hi ?finish\<rparr>" and ok: "ok \<longleftrightarrow> iv_from o' < iv_to o'"
    using assms by (auto simp: outage_span_def clip_eq Let_def)
  show inst: "instants o' = outage_instants lo hi i"
    by (cases "in_active i \<or> is_zero (in_resolved_at i)") (auto simp: o' instants_def outage_instants_def)
  show "ok \<longleftrightarrow> outage_instants lo hi i \<noteq> {}" unfolding inst [symmetric] ok by (auto simp: instants_def)
  show "lo \<le> iv_from o'" "iv_to o' \<le> hi" by (simp_all add: o')
qed

definition down_instants :: "(string \<Rightarrow> duration option) \<Rightarrow> maintenance list \<Rightarrow> time \<Rightarrow> time \<Rightarrow> incident \<Rightarrow> time set" where
  "down_instants parse ws lo hi i = {t \<in> outage_instants lo hi i. \<not> excused parse ws (in_alert i) t}"

definition counts_for :: "uptime_subject \<Rightarrow> incident \<Rightarrow> bool" where
  "counts_for s i \<longleftrightarrow> in_kind i = KindDown \<and> al_prober (in_alert i) = [] \<and> subject_of (in_alert i) = s"

lemma outage_instants_finite [simp]: "finite (outage_instants lo hi i)"
  by (rule finite_subset [of _ "{lo ..< hi}"]) (auto simp: outage_instants_def)

text \<open>What one incident adds to an entry.\<close>

definition add_outage :: "(string \<Rightarrow> duration option) \<Rightarrow> maintenance list \<Rightarrow> time \<Rightarrow> time \<Rightarrow> uptime \<Rightarrow> incident \<Rightarrow> uptime" where
  "add_outage parse ws lo hi u i =
     (if counts_for (up_subject u) i \<and> outage_instants lo hi i \<noteq> {}
      then u\<lparr>up_outages := Suc (up_outages u),
             up_maintenance := up_maintenance u + int (card {t \<in> outage_instants lo hi i. excused parse ws (in_alert i) t}),
             up_downtime := up_downtime u + int (card (down_instants parse ws lo hi i))\<rparr>
      else u)"

lemma card_split: "finite A \<Longrightarrow> card A = card {t \<in> A. P t} + card {t \<in> A. \<not> P t}"
proof -
  assume "finite A"
  moreover have "{t \<in> A. P t} \<union> {t \<in> A. \<not> P t} = A" "{t \<in> A. P t} \<inter> {t \<in> A. \<not> P t} = {}" by auto
  ultimately show ?thesis using card_Un_disjoint [of "{t \<in> A. P t}" "{t \<in> A. \<not> P t}"] by simp
qed

lemma charge_adds:
  assumes "\<And>m. m \<in> set ws \<Longrightarrow> window_ok parse hi m" "parse [] = None" "0 \<le> lo" "hi - lo \<le> max_duration"
  shows "charge parse ws lo hi us i = map (\<lambda>u. add_outage parse ws lo hi u i) us"
proof -
  obtain o' ok where os: "outage_span lo hi i = (o', ok)" by force
  note o' = outage_span_instants [OF os]
  show ?thesis
  proof (cases "in_kind i = KindDown \<and> al_prober (in_alert i) = [] \<and> ok")
    case False
    with o'(2) os show ?thesis
      by (auto simp: charge_def add_outage_def counts_for_def map_idI)
  next
    case True
    have wide: "iv_to o' - iv_from o' \<le> max_duration" and low: "0 \<le> iv_from o'" using o'(3,4) assms(3,4) by auto
    have wok: "window_ok parse (iv_to o') m" if "m \<in> set ws" for m
      using assms(1) [OF that] o'(4) by (auto simp: window_ok_def)
    have "total_duration (covered parse ws (in_alert i) o') = int (card (all_instants (covered parse ws (in_alert i) o')))"
      using covered_within [of _ parse ws "in_alert i" o'] wide low by (intro total_duration_card) force
    then have ex: "total_duration (covered parse ws (in_alert i) o') =
        int (card {t \<in> outage_instants lo hi i. excused parse ws (in_alert i) t})"
      using covered_instants [OF wok assms(2), where a = "in_alert i"] o'(1) by simp
    have "iv_from o' < iv_to o'" using True o'(1,2) by (auto simp: instants_def)
    then have "sub_time (iv_to o') (iv_from o') = int (card (instants o'))"
      using wide by (simp add: sub_time_exact instants_def)
    moreover have "card (instants o') = card {t \<in> outage_instants lo hi i. excused parse ws (in_alert i) t} +
        card (down_instants parse ws lo hi i)"
      unfolding o'(1) down_instants_def by (rule card_split) simp
    ultimately have down: "sub_time (iv_to o') (iv_from o') - total_duration (covered parse ws (in_alert i) o') =
        int (card (down_instants parse ws lo hi i))" using ex by simp
    show ?thesis
      using True os o'(2) down ex
      by (auto simp: charge_def add_outage_def counts_for_def Let_def)
  qed
qed

lemma charges_add:
  assumes "\<And>m. m \<in> set ws \<Longrightarrow> window_ok parse hi m" "parse [] = None" "0 \<le> lo" "hi - lo \<le> max_duration"
  shows "foldl (charge parse ws lo hi) us js = map (\<lambda>u. foldl (add_outage parse ws lo hi) u js) us"
  by (induction js arbitrary: us) (simp_all add: charge_adds [OF assms] comp_def)

lemma added_outages:
  shows "up_subject (foldl (add_outage parse ws lo hi) u js) = up_subject u"
    "up_downtime (foldl (add_outage parse ws lo hi) u js) = up_downtime u + (\<Sum>i\<leftarrow>filter (counts_for (up_subject u)) js. int (card (down_instants parse ws lo hi i)))"
    "up_maintenance (foldl (add_outage parse ws lo hi) u js) = up_maintenance u +
      (\<Sum>i\<leftarrow>filter (counts_for (up_subject u)) js. int (card {t \<in> outage_instants lo hi i. excused parse ws (in_alert i) t}))"
    "up_outages (foldl (add_outage parse ws lo hi) u js) = up_outages u + length (filter (\<lambda>i. outage_instants lo hi i \<noteq> {}) (filter (counts_for (up_subject u)) js))"
proof -
  have step: "up_subject (add_outage parse ws lo hi u i) = up_subject u"
    "up_downtime (add_outage parse ws lo hi u i) = up_downtime u +
      (if counts_for (up_subject u) i then int (card (down_instants parse ws lo hi i)) else 0)"
    "up_maintenance (add_outage parse ws lo hi u i) = up_maintenance u +
      (if counts_for (up_subject u) i then int (card {t \<in> outage_instants lo hi i. excused parse ws (in_alert i) t}) else 0)"
    "up_outages (add_outage parse ws lo hi u i) = up_outages u +
      (if counts_for (up_subject u) i \<and> outage_instants lo hi i \<noteq> {} then 1 else 0)" for u i
    by (simp_all add: add_outage_def down_instants_def)
  show "up_subject (foldl (add_outage parse ws lo hi) u js) = up_subject u"
    by (induction js arbitrary: u) (simp_all add: step)
  show "up_downtime (foldl (add_outage parse ws lo hi) u js) = up_downtime u + (\<Sum>i\<leftarrow>filter (counts_for (up_subject u)) js. int (card (down_instants parse ws lo hi i)))"
    by (induction js arbitrary: u) (simp_all add: step)
  show "up_maintenance (foldl (add_outage parse ws lo hi) u js) = up_maintenance u +
      (\<Sum>i\<leftarrow>filter (counts_for (up_subject u)) js. int (card {t \<in> outage_instants lo hi i. excused parse ws (in_alert i) t}))"
    by (induction js arbitrary: u) (simp_all add: step)
  show "up_outages (foldl (add_outage parse ws lo hi) u js) = up_outages u + length (filter (\<lambda>i. outage_instants lo hi i \<noteq> {}) (filter (counts_for (up_subject u)) js))"
    by (induction js arbitrary: u) (simp_all add: step)
qed

lemma window_ok_earlier: "window_ok parse hi m \<Longrightarrow> hi' \<le> hi \<Longrightarrow> window_ok parse hi' m"
  by (auto simp: window_ok_def)

lemma uptime_entries:
  assumes "\<And>m. m \<in> set (windows cfg d) \<Longrightarrow> window_ok parse hi m" "parse [] = None" "0 \<le> lo" "hi - lo \<le> max_duration"
    and "u \<in> set (uptime_report parse cfg now d checks components lo hi)"
  defines "fin \<equiv> min hi now" and "mine \<equiv> filter (counts_for (up_subject u)) (dk_incidents d)"
  shows "up_downtime u = (\<Sum>i\<leftarrow>mine. int (card (down_instants parse (windows cfg d) lo fin i)))"
    "up_maintenance u = (\<Sum>i\<leftarrow>mine. int (card {t \<in> outage_instants lo fin i. excused parse (windows cfg d) (in_alert i) t}))"
    "up_outages u = length (filter (\<lambda>i. outage_instants lo fin i \<noteq> {}) mine)"
    "up_ratio u = (if fin > lo then (max 0 (fin - lo - up_downtime u), fin - lo) else (1, 1))"
proof -
  let ?entries = "map (\<lambda>n. empty_uptime lo fin (UptimeCheck n)) checks @ map (\<lambda>n. empty_uptime lo fin (UptimeComponent n)) components"
  have wok: "window_ok parse fin m" if "m \<in> set (windows cfg d)" for m
    by (rule window_ok_earlier [OF assms(1) [OF that]]) (simp add: fin_def)
  have len: "fin - lo \<le> max_duration" using assms(4) by (simp add: fin_def)
  have "uptime_report parse cfg now d checks components lo hi =
      map (with_ratio (sub_time fin lo)) (foldl (charge parse (windows cfg d) lo fin) ?entries (dk_incidents d))"
    by (simp add: uptime_report_def fin_def min_def Let_def)
  with assms(5) charges_add [OF wok assms(2,3) len, where us = ?entries and js = "dk_incidents d"]
  obtain s where u: "u = with_ratio (sub_time fin lo) (foldl (add_outage parse (windows cfg d) lo fin)
      (empty_uptime lo fin s) (dk_incidents d))" by auto
  let ?v = "foldl (add_outage parse (windows cfg d) lo fin) (empty_uptime lo fin s) (dk_incidents d)"
  note added = added_outages [where parse = parse and ws = "windows cfg d" and lo = lo and hi = fin
      and u = "empty_uptime lo fin s" and js = "dk_incidents d"]
  have "up_subject u = s" using added(1) by (simp add: u with_ratio_def empty_uptime_def)
  then have mine: "mine = filter (counts_for (up_subject (empty_uptime lo fin s))) (dk_incidents d)"
    by (simp add: mine_def empty_uptime_def)
  show "up_downtime u = (\<Sum>i\<leftarrow>mine. int (card (down_instants parse (windows cfg d) lo fin i)))"
    using added(2) unfolding mine by (simp add: u with_ratio_def empty_uptime_def)
  show "up_maintenance u = (\<Sum>i\<leftarrow>mine. int (card {t \<in> outage_instants lo fin i. excused parse (windows cfg d) (in_alert i) t}))"
    using added(3) unfolding mine by (simp add: u with_ratio_def empty_uptime_def)
  show "up_outages u = length (filter (\<lambda>i. outage_instants lo fin i \<noteq> {}) mine)"
    using added(4) unfolding mine by (simp add: u with_ratio_def empty_uptime_def)
  show "up_ratio u = (if fin > lo then (max 0 (fin - lo - up_downtime u), fin - lo) else (1, 1))"
    using len by (auto simp: u with_ratio_def sub_time_def max_duration_def min_duration_def)
qed

end
