(* ===== verification/Runs.thy ===== *)
theory Runs
  imports Coordinator Uptime
begin

text \<open>
  Whole runs of the coordinator, without alerts from nowhere: the operator's requests and the outbox as
  steps, and two facts every run keeps: which statuses a check can have, and whom an incident can be
  about.
\<close>

section \<open>Runs\<close>

text \<open>A step of the alerting desk that raises no alert: an operator's request or a pass over the outbox.\<close>

inductive operator_step :: "world \<Rightarrow> coord_config \<Rightarrow> coord \<Rightarrow> coord \<Rightarrow> bool" for w cfg where
  Acknowledge: "operator_step w cfg co (fst (acknowledge_incident now iid actor remark co))"
| Resolve: "operator_step w cfg co (fst (resolve_incident now iid actor remark co))"
| CreateSilence: "operator_step w cfg co (fst (desk_create_silence k now s co))"
| CancelSilence: "operator_step w cfg co (fst (desk_cancel_silence (w_parse_duration w) cfg now (w_send w) sid actor remark co))"
| PutMaintenance: "operator_step w cfg co (fst (desk_put_maintenance (w_parse_duration w) cfg k now (w_send w) m actor create co))"
| DeleteMaintenance: "operator_step w cfg co (fst (desk_delete_maintenance (w_parse_duration w) cfg now (w_send w) nm actor co))"
| Outbox: "operator_step w cfg co (fst (process_deliveries cfg now attempt co))"

inductive live_step :: "world \<Rightarrow> coord_config \<Rightarrow> coord \<Rightarrow> coord \<Rightarrow> bool" for w cfg where
  Submit: "live_step w cfg co (fst (submit_result cfg now payload free co))"
| Result: "live_step w cfg co (fst (process w cfg at now f r co))"
| Mesh: "live_step w cfg co (fst (handle_mesh w cfg now opened co))"
| Tick: "live_step w cfg co (fst (check_staleness w cfg now co))"
| Beat: "live_step w cfg co (fst (co_beat w cfg now b co))"
| Operator: "operator_step w cfg co co' \<Longrightarrow> live_step w cfg co co'"

inductive live :: "world \<Rightarrow> coord_config \<Rightarrow> coord \<Rightarrow> bool" for w cfg where
  Begin: "live w cfg (initial_coord checks now)"
| Go: "live w cfg co \<Longrightarrow> live_step w cfg co co' \<Longrightarrow> live w cfg co'"

section \<open>The desk's operations leave the rest of the coordinator alone\<close>

lemma escalate_more: "desk.more (escalate now d ip) = desk.more d"
  by (simp add: escalate_def Let_def enqueue_more split: prod.splits)

lemma schedule_more: "desk.more (schedule_escalations cfg now d) = desk.more d"
proof -
  have "desk.more (foldl (escalate now) d ips) = desk.more d" for ips and d :: "'a desk_scheme"
    by (induction ips arbitrary: d) (simp_all add: escalate_more)
  then show ?thesis by (simp add: schedule_escalations_def)
qed

lemma process_item_more: "desk.more (fst (snd (process_item cfg now attempt (bl, d, evs) q))) = desk.more d"
  by (simp add: process_item_def Let_def split: prod.splits option.splits)

lemma process_deliveries_more: "desk.more (fst (process_deliveries cfg now attempt d)) = desk.more d"
proof -
  have "desk.more (fst (snd (foldl (process_item cfg now attempt) (bl, d, evs) qs))) = desk.more d" for bl evs qs
    and d :: "'a desk_scheme"
  proof (induction qs arbitrary: bl d evs)
    case Nil
    then show ?case by simp
  next
    case (Cons q qs)
    obtain bl' d' evs' where s: "process_item cfg now attempt (bl, d, evs) q = (bl', d', evs')" by (metis surj_pair)
    with process_item_more [of cfg now attempt bl d evs q] Cons.IH [of bl' d' evs'] show ?case by simp
  qed
  then show ?thesis by (simp add: process_deliveries_def Let_def schedule_more split: prod.splits) (metis fst_conv snd_conv schedule_more)
qed

lemma operator_more: "operator_step w cfg co co' \<Longrightarrow> desk.more co' = desk.more co"
  by (induction rule: operator_step.induct)
    (auto simp: acknowledge_incident_def resolve_incident_def cancel_escalations_def desk_create_silence_def
      desk_cancel_silence_def desk_put_maintenance_def desk_delete_maintenance_def Let_def process_deliveries_more
      split: option.splits prod.splits sum.splits dest!: arg_cong [where f = "\<lambda>x. desk.more (fst x)"] simp: release_more)

section \<open>The statuses a check can have\<close>

definition plain :: "status \<Rightarrow> bool" where "plain s \<longleftrightarrow> (\<forall>x. s \<noteq> StatusOther x)"

definition states_plain :: "coord \<Rightarrow> bool" where
  "states_plain co \<longleftrightarrow> (\<forall>n. plain (es_status (state_of (co_states co) n)))"

lemma decide_plain: "plain (es_status st) \<Longrightarrow> plain (es_status (d_state (decide chk opts0 opts at now took answers st r)))"
proof -
  assume p: "plain (es_status st)"
  obtain st2 where "es_status st2 = es_status st"
    "entity_apply st2 (v_status (judge chk opts0 opts st r answers), now) =
      (d_state (decide chk opts0 opts at now took answers st r), d_alert (decide chk opts0 opts at now took answers st r))"
    using decide_apply by blast
  with apply_status [of st2 "v_status (judge chk opts0 opts st r answers)" now] p show ?thesis
    by (auto simp: plain_def split: if_splits)
qed

lemma process_plain: "states_plain co \<Longrightarrow> states_plain (fst (process w cfg at now f r co))"
proof (cases rule: process_branches [of w cfg at now f r co])
  case (accepted chk peer)
  assume p: "states_plain co"
  have "plain (es_status (state_of (co_states (fst (process w cfg at now f r co))) n))" for n
  proof (cases "n = r_check r")
    case True
    from p have "plain (es_status (state_of (co_states co) (c_name chk)))" by (simp add: states_plain_def)
    from decide_plain [OF this] show ?thesis
      unfolding True process_own_check [OF accepted(1-3)] decision_on_def .
  next
    case False
    with p show ?thesis by (simp add: process_other_checks states_plain_def)
  qed
  then show ?thesis by (simp add: states_plain_def)
qed (simp_all add: record_observation_def states_plain_def)

lemma handle_mesh_states: "co_states (fst (handle_mesh w cfg now opened co)) = co_states co"
  by (auto simp: handle_mesh_def report_mesh_transitions_def begin_mesh_recovery_def Let_def split: option.splits prod.splits
      dest!: arg_cong [where f = "\<lambda>x. co_states (fst x)"])

lemma co_beat_states: "co_states (fst (co_beat w cfg now b co)) = co_states co"
  by (simp add: co_beat_def Let_def split: prod.splits option.splits)

lemma live_step_plain: "live_step w cfg co co' \<Longrightarrow> states_plain co \<Longrightarrow> states_plain co'"
proof (induction rule: live_step.induct)
  case (Submit co now payload free)
  then show ?case by (simp add: submit_result_def states_plain_def split: option.splits prod.splits if_splits)
next
  case (Operator co co')
  then show ?case by (simp add: states_plain_def more_fields [OF operator_more])
next
  case (Result co at now f r)
  then show ?case by (rule process_plain)
qed (simp_all add: states_plain_def handle_mesh_states co_beat_states staleness_decides_nothing)

lemma live_plain: "live w cfg co \<Longrightarrow> states_plain co"
proof (induction rule: live.induct)
  case (Begin checks now)
  then show ?case by (simp add: states_plain_def initial_coord_def state_of_def new_entity_def plain_def)
qed (rule live_step_plain)

section \<open>Whom an incident can be about\<close>

definition about :: "(alert \<Rightarrow> bool) \<Rightarrow> 'a desk_scheme \<Rightarrow> bool" where
  "about P d \<longleftrightarrow> (\<forall>i \<in> set (dk_incidents d). P (in_alert i))"

lemma update_first_alerts:
  assumes "\<And>i. in_alert (f i) = in_alert i" "x \<in> set (update_first Q f is)"
  shows "\<exists>i \<in> set is. in_alert i = in_alert x"
  using assms(2) by (induction "is") (auto simp: assms(1) split: if_splits)

lemma record_about: "about P d \<Longrightarrow> P a \<Longrightarrow> about P (record_incident a m sid sn d)"
proof -
  assume d: "about P d" and a: "P a"
  have "P (in_alert x)" if "x \<in> set (update_first Q (\<lambda>i. i\<lparr>in_active := False, in_resolved_at := t\<rparr>) (rev (dk_incidents d)))" for x Q t
  proof -
    from that obtain i where "i \<in> set (dk_incidents d)" "in_alert i = in_alert x"
      using update_first_alerts [of "\<lambda>i. i\<lparr>in_active := False, in_resolved_at := t\<rparr>"] by force
    with d show ?thesis by (auto simp: about_def)
  qed
  with d a show ?thesis
    by (auto simp: record_incident_def about_def cancel_escalations_def Let_def split: option.splits)
qed

lemma emit_about: "about P d \<Longrightarrow> P a \<Longrightarrow> about P (fst (emit parse cfg now send a d))"
proof -
  assume p: "about P d" "P a"
  obtain sid sn where s: "active_silence now d a = (sid, sn)" by (metis surj_pair)
  define e where "e = record_incident a (active_maintenance parse cfg now d a) sid sn d"
  obtain e' evs where dv: "deliver cfg now send a e = (e', evs)" by (metis surj_pair)
  have "about P e" unfolding e_def by (rule record_about [OF p])
  moreover have "dk_incidents e' = dk_incidents e" using deliver_frame [OF dv] by simp
  ultimately show ?thesis using s dv by (simp add: emit_def e_def [symmetric] about_def)
qed

lemma co_emit_about: "about P (fst ce) \<Longrightarrow> P a \<Longrightarrow> about P (fst (co_emit w cfg now a ce))"
  by (simp add: co_emit_fst emit_about)

lemma co_emits_about:
  "about P (fst ce) \<Longrightarrow> \<forall>a \<in> set as. P a \<Longrightarrow> about P (fst (foldl (\<lambda>ce a. co_emit w cfg now a ce) ce as))"
  by (induction as arbitrary: ce) (simp_all add: co_emit_about)

lemma release_about: "about P d \<Longrightarrow> about P (fst (release_suppressions parse cfg now send d))"
  unfolding about_def release_incidents by auto

text \<open>An alert that names a check names one that is in no component.\<close>

definition alone :: "coord_config \<Rightarrow> alert \<Rightarrow> bool" where
  "alone cfg a \<longleftrightarrow> al_check a = [] \<or> components_for cfg (al_check a) = []"

lemma about_fields [simp]:
  "about P (co\<lparr>co_states := x1\<rparr>) = about P co" "about P (co\<lparr>co_component_states := x2\<rparr>) = about P co"
  "about P (co\<lparr>co_last_scheduled := x3\<rparr>) = about P co" "about P (co\<lparr>co_reports := x4\<rparr>) = about P co"
  "about P (co\<lparr>co_isolated := x5\<rparr>) = about P co" "about P (co\<lparr>co_silent := x6\<rparr>) = about P co"
  "about P (co\<lparr>co_recovery := x7\<rparr>) = about P co" "about P (co\<lparr>co_overruled := x8\<rparr>) = about P co"
  "about P (co\<lparr>co_history := x9\<rparr>) = about P co" "about P (co\<lparr>co_beat_failures := x10\<rparr>) = about P co"
  by (simp_all add: about_def)

lemma roll_component_about:
  "about (alone cfg) (fst ce) \<Longrightarrow> about (alone cfg) (fst (roll_component w cfg now ce cm))"
  by (auto simp: roll_component_def Let_def alone_def empty_alert_def intro!: co_emit_about split: prod.splits option.splits)

lemma roll_up_about: "about (alone cfg) (fst ce) \<Longrightarrow> about (alone cfg) (fst (roll_up w cfg now n ce))"
proof -
  have "about (alone cfg) (fst ce) \<Longrightarrow> about (alone cfg) (fst (foldl (roll_component w cfg now) ce cms))" for cms ce
    by (induction cms arbitrary: ce) (simp_all add: roll_component_about)
  then show "about (alone cfg) (fst ce) \<Longrightarrow> ?thesis" by (simp add: roll_up_def)
qed

lemma alert_check_about: "about (alone cfg) (fst ce) \<Longrightarrow> about (alone cfg) (fst (alert_check w cfg now chk d ce))"
  by (auto simp: alert_check_def alone_def check_alert_def intro!: co_emit_about split: option.splits)

lemma report_back_about: "about (alone cfg) co \<Longrightarrow> about (alone cfg) (fst (report_back w cfg now p co))"
  by (auto simp: report_back_def mark_result_reporting_def Let_def alone_def reporting_alert_def empty_alert_def
      intro!: co_emit_about split: prod.splits if_splits)

lemma decide_check_about: "about P co \<Longrightarrow> about P (fst (decide_check w cfg at now f chk r co))"
proof -
  have obs: "about P co \<Longrightarrow> about P (foldl (record_observation w cfg now chk src sup v) co rs)" for co src sup v rs
    by (induction rs arbitrary: co) (simp_all add: record_observation_def)
  then show "about P co \<Longrightarrow> ?thesis" by (simp add: decide_check_def Let_def)
qed

lemma act_on_about: "about (alone cfg) co \<Longrightarrow> about (alone cfg) (fst (act_on w cfg at now f chk r co))"
proof -
  assume p: "about (alone cfg) co"
  obtain co1 evs1 co2 d co3 where st:
    "report_back w cfg at (r_prober r) co = (co1, evs1)"
    "decide_check w cfg at now f chk r co1 = (co2, d)"
    "co3 = count_overruled chk r (d_verdict d) (record_observation w cfg now chk ''scheduled''
        (\<lambda>r. r_vantage r \<noteq> c_vantage chk) (v_status (d_verdict d)) co2 r)"
    "fst (act_on w cfg at now f chk r co) =
       fst (roll_up w cfg now (c_name chk) (alert_check w cfg now chk d (co3, evs1)))"
    by (rule act_on_stages)
  have "about (alone cfg) co1" using report_back_about [OF p, of w at "r_prober r"] st(1) by simp
  from decide_check_about [OF this, of w cfg at now f chk r] st(2) have "about (alone cfg) co2" by simp
  then have "about (alone cfg) co3" by (simp add: st(3) count_overruled_def record_observation_def)
  then show ?thesis unfolding st(4) by (intro roll_up_about alert_check_about) simp
qed

lemma process_about: "about (alone cfg) co \<Longrightarrow> about (alone cfg) (fst (process w cfg at now f r co))"
  by (cases rule: process_branches [of w cfg at now f r co]) (simp_all add: record_observation_def act_on_about)

lemma handle_mesh_about: "about (alone cfg) co \<Longrightarrow> about (alone cfg) (fst (handle_mesh w cfg now opened co))"
proof -
  assume p: "about (alone cfg) co"
  have tr: "about (alone cfg) (fst (report_mesh_transitions w cfg now (co\<lparr>co_reports := x\<rparr>)))" for x
    using p by (auto simp: report_mesh_transitions_def Let_def transition_alerts_def alone_def empty_alert_def
        intro!: co_emits_about)
  have "about P (begin_mesh_recovery pr now c) = about P c" for P pr c
    by (simp add: begin_mesh_recovery_def)
  with p tr show ?thesis
    by (auto simp: handle_mesh_def Let_def split: option.splits prod.splits dest!: arg_cong [where f = fst])
qed

lemma silence_alone:
  assumes "apply_silence co sf now gs = (silent, alerts)"
  shows "\<forall>a \<in> set alerts. alone cfg a"
proof -
  have one: "alone cfg (silence_alert co sf now who cs)" for who cs
    by (simp add: alone_def silence_alert_def empty_alert_def Let_def)
  define step where "step = (\<lambda>(silent, out) (who, checks). if flag silent who then (silent, out)
      else (AList.update who True silent, out @ [silence_alert co sf now who checks]))"
  have step: "\<forall>a \<in> set (snd (step acc g)). alone cfg a" if "\<forall>a \<in> set (snd acc). alone cfg a" for acc g
    using that by (cases acc; cases g) (auto simp: step_def one)
  have "\<forall>a \<in> set (snd (foldl step acc gs)). alone cfg a" if "\<forall>a \<in> set (snd acc). alone cfg a" for acc
    using that
  proof (induction gs arbitrary: acc)
    case (Cons g gs)
    from Cons.IH [OF step [OF Cons.prems]] show ?case by simp
  qed simp
  from this [of "(co_silent co, [])"] have all: "\<forall>a \<in> set (snd (foldl step (co_silent co, []) gs)). alone cfg a" by simp
  obtain s0 out where f: "foldl step (co_silent co, []) gs = (s0, out)" by (metis surj_pair)
  have "apply_silence co sf now gs = (let (silent, out) = foldl step (co_silent co, []) gs in (silent, sort_key al_prober out))"
    by (simp only: apply_silence_def step_def)
  with assms f all show ?thesis by auto
qed

lemma check_staleness_about: "about (alone cfg) co \<Longrightarrow> about (alone cfg) (fst (check_staleness w cfg now co))"
proof -
  assume p: "about (alone cfg) co"
  define c1 where "c1 = fst (release_suppressions (w_parse_duration w) cfg now (w_send w) co)"
  obtain evs where rel: "release_suppressions (w_parse_duration w) cfg now (w_send w) co = (c1, evs)"
    by (metis c1_def prod.collapse)
  define stale where "stale = stale_checks cfg now c1"
  define c2 where "c2 = flag_stale (map fst stale) c1"
  obtain silent alerts where sil: "apply_silence c2 stale now (by_prober cfg c2 (map fst stale)) = (silent, alerts)"
    by (metis surj_pair)
  have "about (alone cfg) c1" unfolding c1_def by (rule release_about [OF p])
  then have c2: "about (alone cfg) c2" by (simp add: c2_def flag_stale_def)
  have alerts: "\<forall>a \<in> set alerts. alone cfg a" using silence_alone [OF sil] .
  have rolls: "about (alone cfg) (fst (foldl (\<lambda>ce n. roll_up w cfg now n ce) ce ns))" if "about (alone cfg) (fst ce)" for ce ns
    using that by (induction ns arbitrary: ce) (simp_all add: roll_up_about)
  have "check_staleness w cfg now co = foldl (\<lambda>ce n. roll_up w cfg now n ce)
      (foldl (\<lambda>ce a. co_emit w cfg now a ce) (c2\<lparr>co_silent := silent\<rparr>, evs) alerts) (map fst stale)"
    by (simp add: check_staleness_def rel sil stale_def [symmetric] c2_def [symmetric] Let_def split: prod.splits)
  with rolls co_emits_about [of "alone cfg" "(c2\<lparr>co_silent := silent\<rparr>, evs)" alerts] alerts c2 show ?thesis by simp
qed

lemma co_beat_about: "about (alone cfg) co \<Longrightarrow> about (alone cfg) (fst (co_beat w cfg now b co))"
proof -
  assume p: "about (alone cfg) co"
  obtain n alert where b: "beat_step (co_beat_failures co) (now, b) = (n, alert)" by (metis surj_pair)
  have told: "alone cfg (unwatched_alert now k detail)" "alone cfg (watched_alert now)" for k detail
    by (simp_all add: unwatched_alert_def watched_alert_def alone_def empty_alert_def)
  show ?thesis
  proof (cases alert)
    case None
    with b p show ?thesis by (simp add: co_beat_def)
  next
    case (Some a)
    with b told have "alone cfg a" by (cases b) (auto simp: beat_step_def Let_def split: if_splits)
    with b Some p show ?thesis by (simp add: co_beat_def co_emit_about)
  qed
qed

lemma operator_about: "operator_step w cfg co co' \<Longrightarrow> about P co \<Longrightarrow> about P co'"
proof (induction rule: operator_step.induct)
  case (Acknowledge co now iid actor remark)
  then show ?case
    using update_first_alerts [where f = "\<lambda>i. i\<lparr>in_acknowledged_at := Some now, in_acknowledged_by := trim_space actor,
        in_acknowledgement := trim_space remark\<rparr>"]
    by (fastforce simp: acknowledge_incident_def about_def cancel_escalations_def Let_def split: option.splits)
next
  case (Resolve co now iid actor remark)
  then show ?case
    using update_first_alerts [where f = "\<lambda>i. i\<lparr>in_active := False, in_resolved_at := now, in_resolved_by := trim_space actor,
        in_resolution := trim_space remark, in_manual_resolution := True\<rparr>"]
    by (fastforce simp: resolve_incident_def about_def cancel_escalations_def Let_def split: option.splits)
next
  case (CreateSilence co k now s)
  then show ?case by (simp add: desk_create_silence_def about_def split: prod.splits)
next
  case (CancelSilence co now sid actor remark)
  have "about P (co\<lparr>dk_silences := ss\<rparr>)" for ss using CancelSilence by (simp add: about_def)
  with CancelSilence show ?case
    by (auto simp: desk_cancel_silence_def Let_def split: prod.splits option.splits dest!: arg_cong [where f = fst] intro!: release_about)
next
  case (PutMaintenance co k now m actor create)
  have "about P (co\<lparr>dk_maintenance := ss\<rparr>)" for ss using PutMaintenance by (simp add: about_def)
  with PutMaintenance show ?case
    by (auto simp: desk_put_maintenance_def Let_def split: prod.splits sum.splits dest!: arg_cong [where f = fst] intro!: release_about)
next
  case (DeleteMaintenance co now nm actor)
  have "about P (co\<lparr>dk_maintenance := ss\<rparr>)" for ss using DeleteMaintenance by (simp add: about_def)
  with DeleteMaintenance show ?case
    by (auto simp: desk_delete_maintenance_def Let_def split: prod.splits option.splits dest!: arg_cong [where f = fst] intro!: release_about)
next
  case (Outbox co now attempt)
  then show ?case using process_frame [of cfg now attempt co] by (simp add: about_def)
qed

lemma live_step_about: "live_step w cfg co co' \<Longrightarrow> about (alone cfg) co \<Longrightarrow> about (alone cfg) co'"
proof (induction rule: live_step.induct)
  case (Submit co now payload free)
  then show ?case by (simp add: submit_result_def about_def split: option.splits prod.splits if_splits)
qed (simp_all add: process_about handle_mesh_about check_staleness_about co_beat_about operator_about)

lemma live_about: "live w cfg co \<Longrightarrow> about (alone cfg) co"
proof (induction rule: live.induct)
  case (Begin checks now)
  then show ?case by (simp add: about_def initial_coord_def)
qed (rule live_step_about)

section \<open>The uptime of a check in a component\<close>

text \<open>Only incidents about the subject itself change its entry.\<close>

lemma charge_other:
  assumes "u \<in> set (charge parse ws lo hi us i)" "subject_of (in_alert i) \<noteq> up_subject u"
  shows "u \<in> set us"
  using assms by (auto simp: charge_def Let_def split: if_splits prod.splits)

lemma charges_other:
  assumes "u \<in> set (foldl (charge parse ws lo hi) us js)" "\<forall>i \<in> set js. subject_of (in_alert i) \<noteq> up_subject u"
  shows "u \<in> set us"
  using assms
proof (induction js arbitrary: us)
  case (Cons j js)
  then have "u \<in> set (charge parse ws lo hi us j)" by simp
  with charge_other [OF this] Cons.prems show ?case by simp
qed simp

lemma with_ratio_subject [simp]: "up_subject (with_ratio p u) = up_subject u"
  by (simp add: with_ratio_def)

lemma uncharged_entry:
  assumes "u \<in> set (uptime_report parse cfg now d checks components lo hi)"
    and "\<forall>i \<in> set (dk_incidents d). subject_of (in_alert i) \<noteq> up_subject u"
  shows "up_downtime u = 0" "up_outages u = 0" "fst (up_ratio u) = snd (up_ratio u)"
proof -
  define fin where "fin = (if hi > now then now else hi)"
  let ?entries = "map (\<lambda>n. empty_uptime lo fin (UptimeCheck n)) checks @ map (\<lambda>n. empty_uptime lo fin (UptimeComponent n)) components"
  obtain v where v: "u = with_ratio (sub_time fin lo) v"
    "v \<in> set (foldl (charge parse (windows cfg d) lo fin) ?entries (dk_incidents d))"
    using assms(1) by (auto simp: uptime_report_def Let_def fin_def [symmetric])
  then have "v \<in> set ?entries" using assms(2) by (intro charges_other [OF v(2)]) simp
  then have "up_downtime v = 0 \<and> up_outages v = 0" by (auto simp: empty_uptime_def)
  with v(1) show "up_downtime u = 0" "up_outages u = 0" "fst (up_ratio u) = snd (up_ratio u)"
    by (simp_all add: with_ratio_def)
qed

lemma member_uptime:
  assumes "live w cfg co" "components_for cfg n \<noteq> []" "n \<noteq> []"
    and "u \<in> set (uptime_report parse cfg now co checks components lo hi)" "up_subject u = UptimeCheck n"
  shows "up_downtime u = 0 \<and> up_outages u = 0 \<and> fst (up_ratio u) = snd (up_ratio u)"
proof -
  have "subject_of (in_alert i) \<noteq> up_subject u" if "i \<in> set (dk_incidents co)" for i
    using live_about [OF assms(1)] that assms(2,3,5) by (auto simp: about_def alone_def subject_of_def)
  then show ?thesis using uncharged_entry [OF assms(4)] by blast
qed

end
