(* ===== verification/Notices.thy ===== *)
theory Notices
  imports Suppression Accounts
begin

text \<open>
  Operator-written notices (\<open>internal/coordinator/notices.go\<close>): the book of notices, its operations and
  their handlers. \<open>EditNotice\<close> validates between two sections under the lock, which are definitions of
  their own.
\<close>

section \<open>Counting characters\<close>

text \<open>\<open>utf8.RuneCountInString\<close>: the length in bytes of the first rune, 1 for a byte that starts none.\<close>

definition in_range :: "nat \<Rightarrow> nat \<Rightarrow> char \<Rightarrow> bool" where
  "in_range lo hi c \<longleftrightarrow> lo \<le> of_char c \<and> (of_char c :: nat) \<le> hi"

fun rune_len :: "bytes \<Rightarrow> nat" where
  "rune_len (a # b # c # d # rs) =
     (if in_range 0xC2 0xDF a \<and> in_range 0x80 0xBF b then 2
      else if (in_range 0xE0 0xE0 a \<and> in_range 0xA0 0xBF b \<or> in_range 0xED 0xED a \<and> in_range 0x80 0x9F b \<or>
          (in_range 0xE1 0xEC a \<or> in_range 0xEE 0xEF a) \<and> in_range 0x80 0xBF b) \<and> in_range 0x80 0xBF c then 3
      else if (in_range 0xF0 0xF0 a \<and> in_range 0x90 0xBF b \<or> in_range 0xF4 0xF4 a \<and> in_range 0x80 0x8F b \<or>
          in_range 0xF1 0xF3 a \<and> in_range 0x80 0xBF b) \<and> in_range 0x80 0xBF c \<and> in_range 0x80 0xBF d then 4
      else 1)"
| "rune_len [a, b, c] =
     (if in_range 0xC2 0xDF a \<and> in_range 0x80 0xBF b then 2
      else if (in_range 0xE0 0xE0 a \<and> in_range 0xA0 0xBF b \<or> in_range 0xED 0xED a \<and> in_range 0x80 0x9F b \<or>
          (in_range 0xE1 0xEC a \<or> in_range 0xEE 0xEF a) \<and> in_range 0x80 0xBF b) \<and> in_range 0x80 0xBF c then 3
      else 1)"
| "rune_len [a, b] = (if in_range 0xC2 0xDF a \<and> in_range 0x80 0xBF b then 2 else 1)"
| "rune_len _ = 1"

lemma rune_len_pos: "0 < rune_len s"
  by (cases s rule: rune_len.cases) auto

function rune_count :: "bytes \<Rightarrow> nat" where
  "rune_count s = (if s = [] then 0 else Suc (rune_count (drop (rune_len s) s)))"
  by pat_completeness auto
termination
  by (relation "measure length") (auto simp: rune_len_pos)

declare rune_count.simps [simp del]

lemma rune_count_le: "rune_count s \<le> length s"
proof (induction s rule: rune_count.induct)
  case (1 s)
  show ?case
  proof (cases "s = []")
    case True
    then show ?thesis by (simp add: rune_count.simps)
  next
    case False
    with 1 have "rune_count (drop (rune_len s) s) \<le> length s - rune_len s" by simp
    moreover have "rune_len s > 0" "length s > 0" using rune_len_pos False by auto
    ultimately have "Suc (rune_count (drop (rune_len s) s)) \<le> length s" by linarith
    with False show ?thesis by (subst rune_count.simps) simp
  qed
qed

section \<open>Notices\<close>

definition max_notice_title :: nat where "max_notice_title = 200"
definition max_notice_message :: nat where "max_notice_message = 2000"
definition max_notice_updates :: nat where "max_notice_updates = 100"
definition max_notices :: nat where "max_notices = 500"
definition notice_retention :: duration where "notice_retention = 2160 * hour"

definition notice_incident :: string where "notice_incident = ''incident''"
definition notice_maintenance :: string where "notice_maintenance = ''maintenance''"

definition notice_states :: "string \<Rightarrow> string list" where
  "notice_states kind =
     (if kind = notice_incident then [''investigating'', ''identified'', ''monitoring'', ''resolved'']
      else if kind = notice_maintenance then [''scheduled'', ''in_progress'', ''completed''] else [])"

record notice_update =
  nu_at :: time
  nu_state :: string
  nu_message :: string
  nu_by :: string

record notice =
  no_id :: nat
  no_kind :: string
  no_title :: string
  no_state :: string
  no_public :: bool
  no_checks :: "string list"
  no_components :: "string list"
  no_starts_at :: time
  no_ends_at :: time
  no_updates :: "notice_update list"
  no_created_at :: time
  no_created_by :: string
  no_updated_at :: time
  no_updated_by :: string
  no_resolved_at :: time

record notice_book =
  nb_notices :: "notice list"
  nb_next :: nat

definition notice_open :: "notice \<Rightarrow> bool" where "notice_open n \<longleftrightarrow> is_zero (no_resolved_at n)"

definition valid_notice_state :: "string \<Rightarrow> string \<Rightarrow> bool" where
  "valid_notice_state kind st \<longleftrightarrow> st \<in> set (notice_states kind)"

definition closing_state :: "string \<Rightarrow> string \<Rightarrow> bool" where
  "closing_state kind st \<longleftrightarrow> notice_states kind \<noteq> [] \<and> last (notice_states kind) = st"

datatype notice_error = NoticeActor | NoticeTitle | TitleTooLong | MessageTooLong | NoticeKind | NoticeSchedule
  | NoticeNoSchedule | NoticeScope suppression_error | NoticeState | NoticeMessage | NoticesFull | NoticeNotFound
  | NoticeUpdates

definition validate_notice_text :: "string \<Rightarrow> string \<Rightarrow> notice_error option" where
  "validate_notice_text title message =
     (if title \<noteq> [] \<and> rune_count title > max_notice_title then Some TitleTooLong
      else if rune_count message > max_notice_message then Some MessageTooLong else None)"

definition validate_notice :: "catalogue \<Rightarrow> notice \<Rightarrow> notice_error option" where
  "validate_notice k n =
     (if no_title n = [] then Some NoticeTitle
      else case validate_notice_text (no_title n) [] of Some e \<Rightarrow> Some e | None \<Rightarrow>
        if notice_states (no_kind n) = [] then Some NoticeKind
        else if no_kind n = notice_maintenance \<and> (is_zero (no_starts_at n) \<or> \<not> no_ends_at n > no_starts_at n)
        then Some NoticeSchedule
        else if no_kind n = notice_incident \<and> (\<not> is_zero (no_starts_at n) \<or> \<not> is_zero (no_ends_at n))
        then Some NoticeNoSchedule
        else map_option NoticeScope (validate_scope k (no_checks n) (no_components n) []))"

definition notices :: "notice_book \<Rightarrow> notice list" where "notices b = rev (nb_notices b)"

definition opened_notice :: "notice \<Rightarrow> notice" where
  "opened_notice n =
     (let n = n\<lparr>no_title := trim_space (no_title n)\<rparr>; states = notice_states (no_kind n)
      in if no_state n = [] \<and> states \<noteq> [] then n\<lparr>no_state := hd states\<rparr> else n)"

definition drafted_notice :: "time \<Rightarrow> string \<Rightarrow> string \<Rightarrow> notice \<Rightarrow> notice" where
  "drafted_notice now message actor n = n\<lparr>
     no_updates := [\<lparr>nu_at = now, nu_state = no_state n, nu_message = message, nu_by = actor\<rparr>],
     no_created_at := now, no_created_by := actor, no_updated_at := now, no_updated_by := actor,
     no_resolved_at := (if closing_state (no_kind n) (no_state n) then now else zero_time)\<rparr>"

definition notice_expired :: "time \<Rightarrow> notice \<Rightarrow> bool" where
  "notice_expired now n \<longleftrightarrow> \<not> notice_open n \<and> sub_time now (no_resolved_at n) > notice_retention"

definition create_notice :: "catalogue \<Rightarrow> time \<Rightarrow> notice \<Rightarrow> string \<Rightarrow> string \<Rightarrow> notice_book \<Rightarrow>
    notice_book \<times> (notice_error + notice)" where
  "create_notice k now n message actor b =
     (let actor = trim_space actor in
      if actor = [] then (b, Inl NoticeActor)
      else
        let n = opened_notice n; message = trim_space message
        in case validate_notice k n of Some e \<Rightarrow> (b, Inl e) | None \<Rightarrow>
          if \<not> valid_notice_state (no_kind n) (no_state n) then (b, Inl NoticeState)
          else if message = [] then (b, Inl NoticeMessage)
          else case validate_notice_text [] message of Some e \<Rightarrow> (b, Inl e) | None \<Rightarrow>
            (let n = drafted_notice now message actor n;
                 kept = filter (\<lambda>old. \<not> notice_expired now old) (nb_notices b);
                 b = b\<lparr>nb_notices := kept\<rparr>
             in if length kept \<ge> max_notices then (b, Inl NoticesFull)
                else (let n = n\<lparr>no_id := Suc (nb_next b)\<rparr>
                      in (b\<lparr>nb_notices := kept @ [n], nb_next := Suc (nb_next b)\<rparr>, Inr n))))"

definition notice_named :: "nat \<Rightarrow> notice_book \<Rightarrow> notice option" where
  "notice_named i b = find (\<lambda>n. no_id n = i) (nb_notices b)"

text \<open>Writing to the first notice with an id.\<close>

fun set_notice :: "nat \<Rightarrow> notice \<Rightarrow> notice list \<Rightarrow> notice list" where
  "set_notice i n [] = []"
| "set_notice i n (x # xs) = (if no_id x = i then n # xs else x # set_notice i n xs)"

definition posted_notice :: "time \<Rightarrow> string \<Rightarrow> string \<Rightarrow> string \<Rightarrow> notice \<Rightarrow> notice" where
  "posted_notice now st message actor n = n\<lparr>
     no_updates := no_updates n @ [\<lparr>nu_at = now, nu_state = st, nu_message = message, nu_by = actor\<rparr>],
     no_state := st, no_updated_at := now, no_updated_by := actor,
     no_resolved_at := (if \<not> closing_state (no_kind n) st then zero_time
       else if is_zero (no_resolved_at n) then now else no_resolved_at n)\<rparr>"

definition post_notice_update :: "time \<Rightarrow> nat \<Rightarrow> string \<Rightarrow> string \<Rightarrow> string \<Rightarrow> notice_book \<Rightarrow>
    notice_book \<times> (notice_error + notice)" where
  "post_notice_update now i st message actor b =
     (let actor = trim_space actor; message = trim_space message in
      if actor = [] then (b, Inl NoticeActor)
      else if message = [] then (b, Inl NoticeMessage)
      else case validate_notice_text [] message of Some e \<Rightarrow> (b, Inl e) | None \<Rightarrow>
        (case notice_named i b of
           None \<Rightarrow> (b, Inl NoticeNotFound)
         | Some n \<Rightarrow>
             (let st = (if st = [] then no_state n else st) in
              if \<not> valid_notice_state (no_kind n) st then (b, Inl NoticeState)
              else if length (no_updates n) \<ge> max_notice_updates then (b, Inl NoticeUpdates)
              else (let n = posted_notice now st message actor n
                    in (b\<lparr>nb_notices := set_notice i n (nb_notices b)\<rparr>, Inr n)))))"

text \<open>The edited copy made from the first section, and the second section that stores it.\<close>

definition edited_notice :: "catalogue \<Rightarrow> time \<Rightarrow> notice \<Rightarrow> string \<Rightarrow> notice \<Rightarrow> notice_error + notice" where
  "edited_notice k now edit actor n =
     (let n = n\<lparr>no_title := trim_space (no_title edit), no_public := no_public edit, no_checks := no_checks edit,
            no_components := no_components edit, no_starts_at := no_starts_at edit, no_ends_at := no_ends_at edit\<rparr>
      in case validate_notice k n of
           Some e \<Rightarrow> Inl e
         | None \<Rightarrow> Inr (n\<lparr>no_updated_at := now, no_updated_by := actor\<rparr>))"

definition store_edit :: "nat \<Rightarrow> notice \<Rightarrow> notice_book \<Rightarrow> notice_book \<times> (notice_error + notice)" where
  "store_edit i n b =
     (case notice_named i b of
        None \<Rightarrow> (b, Inl NoticeNotFound)
      | Some cur \<Rightarrow>
          (let n = n\<lparr>no_updates := no_updates cur, no_state := no_state cur, no_resolved_at := no_resolved_at cur\<rparr>
           in (b\<lparr>nb_notices := set_notice i n (nb_notices b)\<rparr>, Inr n)))"

definition edit_notice :: "catalogue \<Rightarrow> time \<Rightarrow> nat \<Rightarrow> notice \<Rightarrow> string \<Rightarrow> notice_book \<Rightarrow>
    notice_book \<times> (notice_error + notice)" where
  "edit_notice k now i edit actor b =
     (let actor = trim_space actor in
      if actor = [] then (b, Inl NoticeActor)
      else case notice_named i b of
        None \<Rightarrow> (b, Inl NoticeNotFound)
      | Some n \<Rightarrow>
          (case edited_notice k now edit actor n of Inl e \<Rightarrow> (b, Inl e) | Inr n \<Rightarrow> store_edit i n b))"

definition delete_notice :: "nat \<Rightarrow> string \<Rightarrow> notice_book \<Rightarrow> notice_book \<times> notice_error option" where
  "delete_notice i actor b =
     (if trim_space actor = [] then (b, Some NoticeActor)
      else case delete_first (\<lambda>n. no_id n = i) (nb_notices b) of
        None \<Rightarrow> (b, Some NoticeNotFound)
      | Some rest \<Rightarrow> (b\<lparr>nb_notices := rest\<rparr>, None))"

section \<open>The handlers\<close>

record notice_request =
  nr_kind :: string
  nr_title :: string
  nr_state :: string
  nr_message :: string
  nr_public :: bool
  nr_checks :: "string list"
  nr_components :: "string list"
  nr_starts_at :: time
  nr_ends_at :: time
  nr_actor :: string

datatype notice_reply = NoticeDenied auth_error | NoticeBadRequest | NoticeFailed notice_error
  | NoticeStored notice | NoticeDeleted

definition requested_notice :: "notice_request \<Rightarrow> notice" where
  "requested_notice q = \<lparr>no_id = 0, no_kind = nr_kind q, no_title = nr_title q, no_state = nr_state q,
     no_public = nr_public q, no_checks = nr_checks q, no_components = nr_components q,
     no_starts_at = nr_starts_at q, no_ends_at = nr_ends_at q, no_updates = [], no_created_at = zero_time,
     no_created_by = [], no_updated_at = zero_time, no_updated_by = [], no_resolved_at = zero_time\<rparr>"

definition notice_outcome :: "notice_error + notice \<Rightarrow> notice_reply" where
  "notice_outcome x = (case x of Inl e \<Rightarrow> NoticeFailed e | Inr n \<Rightarrow> NoticeStored n)"

definition handle_create_notice :: "kdf \<Rightarrow> auth_config \<Rightarrow> catalogue \<Rightarrow> time \<Rightarrow> request \<Rightarrow> notice_request option \<Rightarrow>
    auth \<times> notice_book \<Rightarrow> (auth \<times> notice_book) \<times> notice_reply" where
  "handle_create_notice kd cfg k now r body s =
     (case require_permission kd cfg now r PermissionOperate (fst s) of
        (a, Inl e) \<Rightarrow> ((a, snd s), NoticeDenied e)
      | (a, Inr who) \<Rightarrow>
          (case body of
             None \<Rightarrow> ((a, snd s), NoticeBadRequest)
           | Some q \<Rightarrow>
               (let (b, out) = create_notice k now (requested_notice q) (nr_message q)
                      (mutation_actor who (nr_actor q)) (snd s)
                in ((a, b), notice_outcome out))))"

text \<open>\<open>i\<close> is the id of the path, \<open>None\<close> when it is not a number.\<close>

definition handle_post_notice_update :: "kdf \<Rightarrow> auth_config \<Rightarrow> time \<Rightarrow> request \<Rightarrow> nat option \<Rightarrow>
    (string \<times> string \<times> string) option \<Rightarrow> auth \<times> notice_book \<Rightarrow> (auth \<times> notice_book) \<times> notice_reply" where
  "handle_post_notice_update kd cfg now r i body s =
     (case require_permission kd cfg now r PermissionOperate (fst s) of
        (a, Inl e) \<Rightarrow> ((a, snd s), NoticeDenied e)
      | (a, Inr who) \<Rightarrow>
          (case (i, body) of
             (Some i, Some (st, message, actor)) \<Rightarrow>
               (let (b, out) = post_notice_update now i st message (mutation_actor who actor) (snd s)
                in ((a, b), notice_outcome out))
           | _ \<Rightarrow> ((a, snd s), NoticeBadRequest)))"

definition handle_edit_notice :: "kdf \<Rightarrow> auth_config \<Rightarrow> catalogue \<Rightarrow> time \<Rightarrow> request \<Rightarrow> nat option \<Rightarrow>
    notice_request option \<Rightarrow> auth \<times> notice_book \<Rightarrow> (auth \<times> notice_book) \<times> notice_reply" where
  "handle_edit_notice kd cfg k now r i body s =
     (case require_permission kd cfg now r PermissionOperate (fst s) of
        (a, Inl e) \<Rightarrow> ((a, snd s), NoticeDenied e)
      | (a, Inr who) \<Rightarrow>
          (case (i, body) of
             (Some i, Some q) \<Rightarrow>
               if nr_kind q \<noteq> [] \<or> nr_state q \<noteq> [] \<or> nr_message q \<noteq> [] then ((a, snd s), NoticeBadRequest)
               else (let (b, out) = edit_notice k now i (requested_notice q) (mutation_actor who (nr_actor q)) (snd s)
                     in ((a, b), notice_outcome out))
           | _ \<Rightarrow> ((a, snd s), NoticeBadRequest)))"

definition handle_delete_notice :: "kdf \<Rightarrow> auth_config \<Rightarrow> time \<Rightarrow> request \<Rightarrow> nat option \<Rightarrow> string option \<Rightarrow>
    auth \<times> notice_book \<Rightarrow> (auth \<times> notice_book) \<times> notice_reply" where
  "handle_delete_notice kd cfg now r i actor s =
     (case require_permission kd cfg now r PermissionOperate (fst s) of
        (a, Inl e) \<Rightarrow> ((a, snd s), NoticeDenied e)
      | (a, Inr who) \<Rightarrow>
          (case (i, actor) of
             (Some i, Some actor) \<Rightarrow>
               (case delete_notice i (mutation_actor who actor) (snd s) of
                  (b, Some e) \<Rightarrow> ((a, b), NoticeFailed e)
                | (b, None) \<Rightarrow> ((a, b), NoticeDeleted))
           | _ \<Rightarrow> ((a, snd s), NoticeBadRequest)))"

section \<open>The invariant of the book\<close>

text \<open>
  A stored notice has a title, a kind, a timeline of one to a hundred updates whose last state is its
  state, and counts as resolved exactly in the closing state of its kind.
\<close>

definition notice_ok :: "notice \<Rightarrow> bool" where
  "notice_ok n \<longleftrightarrow> no_title n \<noteq> [] \<and> rune_count (no_title n) \<le> max_notice_title \<and>
     valid_notice_state (no_kind n) (no_state n) \<and>
     no_updates n \<noteq> [] \<and> length (no_updates n) \<le> max_notice_updates \<and> nu_state (last (no_updates n)) = no_state n \<and>
     (\<forall>u \<in> set (no_updates n). nu_message u \<noteq> [] \<and> rune_count (nu_message u) \<le> max_notice_message \<and> nu_by u \<noteq> [] \<and>
        valid_notice_state (no_kind n) (nu_state u)) \<and>
     (notice_open n \<longleftrightarrow> \<not> closing_state (no_kind n) (no_state n)) \<and>
     (no_kind n = notice_maintenance \<longrightarrow> no_starts_at n < no_ends_at n)"

definition notices_ok :: "notice_book \<Rightarrow> bool" where
  "notices_ok b \<longleftrightarrow> sorted_wrt (<) (map no_id (nb_notices b)) \<and> (\<forall>n \<in> set (nb_notices b). no_id n \<le> nb_next b) \<and>
     length (nb_notices b) \<le> max_notices \<and> (\<forall>n \<in> set (nb_notices b). notice_ok n)"

lemma valid_states_known: "valid_notice_state kind st \<Longrightarrow> notice_states kind \<noteq> []"
  by (auto simp: valid_notice_state_def)

lemma validate_notice_None:
  assumes "validate_notice k n = None"
  shows "no_title n \<noteq> []" "rune_count (no_title n) \<le> max_notice_title" "notice_states (no_kind n) \<noteq> []"
    "no_kind n = notice_maintenance \<Longrightarrow> no_starts_at n < no_ends_at n"
  using assms by (auto simp: validate_notice_def validate_notice_text_def split: option.splits if_splits)

lemma set_notice_ids: "no_id n = i \<Longrightarrow> map no_id (set_notice i n xs) = map no_id xs"
  by (induction xs) auto

lemma set_notice_set: "x \<in> set (set_notice i n xs) \<Longrightarrow> x = n \<or> x \<in> set xs"
  by (induction xs) (auto split: if_splits)

lemma length_set_notice [simp]: "length (set_notice i n xs) = length xs"
  by (induction xs) auto

lemma notice_named_in: "notice_named i b = Some n \<Longrightarrow> n \<in> set (nb_notices b) \<and> no_id n = i"
  unfolding notice_named_def by (induction "nb_notices b" arbitrary: b) (auto simp: find_Some_iff)

lemma set_notice_ok:
  assumes "notices_ok b" "notice_named i b = Some old" "notice_ok n" "no_id n = i"
  shows "notices_ok (b\<lparr>nb_notices := set_notice i n (nb_notices b)\<rparr>)"
proof -
  have "old \<in> set (nb_notices b)" "no_id old = i" using notice_named_in [OF assms(2)] by auto
  with assms show ?thesis
    by (auto simp: notices_ok_def set_notice_ids dest!: set_notice_set)
qed

lemma filter_notices_ok:
  assumes "notices_ok b"
  shows "notices_ok (b\<lparr>nb_notices := filter P (nb_notices b)\<rparr>)"
proof -
  have "sorted_wrt (<) (map no_id (filter P xs))" if "sorted_wrt (<) (map no_id xs)" for xs
    using that by (induction xs) auto
  with assms show ?thesis
    using order_trans [OF length_filter_le] by (auto simp: notices_ok_def)
qed

lemma drafted_ok:
  assumes "validate_notice k n = None" "valid_notice_state (no_kind n) (no_state n)" "message \<noteq> []" "actor \<noteq> []"
    and "rune_count message \<le> max_notice_message" "0 < now"
  shows "notice_ok ((drafted_notice now message actor n)\<lparr>no_id := i\<rparr>)"
  using assms validate_notice_None [OF assms(1)]
  by (auto simp: notice_ok_def drafted_notice_def notice_open_def zero_time_def max_notice_updates_def)

lemma posted_ok:
  assumes "notice_ok n" "valid_notice_state (no_kind n) st" "message \<noteq> []" "actor \<noteq> []"
    and "rune_count message \<le> max_notice_message" "length (no_updates n) < max_notice_updates" "0 < now"
  shows "notice_ok (posted_notice now st message actor n)"
  using assms by (auto simp: notice_ok_def posted_notice_def notice_open_def zero_time_def)

lemma text_ok: "validate_notice_text [] message = None \<longleftrightarrow> rune_count message \<le> max_notice_message"
  by (auto simp: validate_notice_text_def)

lemma append_notice_ok:
  assumes "notices_ok b" "length (nb_notices b) < max_notices" "notice_ok n" "no_id n = Suc (nb_next b)"
  shows "notices_ok (b\<lparr>nb_notices := nb_notices b @ [n], nb_next := Suc (nb_next b)\<rparr>)"
  using assms by (auto simp: notices_ok_def sorted_wrt_append le_Suc_eq less_Suc_eq_le)

lemma create_notice_ok:
  assumes "notices_ok b" "0 < now"
  shows "notices_ok (fst (create_notice k now n message actor b))"
proof -
  define kept where "kept = b\<lparr>nb_notices := filter (\<lambda>old. \<not> notice_expired now old) (nb_notices b)\<rparr>"
  have kept: "notices_ok kept" unfolding kept_def by (rule filter_notices_ok [OF assms(1)])
  have stored: "notices_ok (b\<lparr>nb_notices := filter (\<lambda>old. \<not> notice_expired now old) (nb_notices b) @
        [(drafted_notice now m w x)\<lparr>no_id := Suc (nb_next b)\<rparr>], nb_next := Suc (nb_next b)\<rparr>)"
    if "\<not> max_notices \<le> length (filter (\<lambda>old. \<not> notice_expired now old) (nb_notices b))"
      "validate_notice k x = None" "valid_notice_state (no_kind x) (no_state x)" "m \<noteq> []" "w \<noteq> []"
      "rune_count m \<le> max_notice_message" for m w x
    using append_notice_ok [OF kept _ drafted_ok [OF that(2-6) assms(2)], of "Suc (nb_next b)"] that(1)
    by (simp add: kept_def)
  from kept have purged: "notices_ok (b\<lparr>nb_notices := filter (\<lambda>old. \<not> notice_expired now old) (nb_notices b)\<rparr>)"
    by (simp only: kept_def)
  show ?thesis
    unfolding create_notice_def Let_def
    by (simp add: assms(1) purged stored text_ok split: option.splits)
qed

lemma post_notice_ok:
  assumes "notices_ok b" "0 < now"
  shows "notices_ok (fst (post_notice_update now i st message actor b))"
proof (cases "notice_named i b")
  case None
  with assms show ?thesis by (auto simp: post_notice_update_def Let_def split: option.splits)
next
  case (Some n)
  then have n: "notice_ok n" "no_id n = i" using assms(1) notice_named_in by (auto simp: notices_ok_def)
  have stored: "notices_ok (b\<lparr>nb_notices := set_notice i (posted_notice now st' m a n) (nb_notices b)\<rparr>)"
    if "valid_notice_state (no_kind n) st'" "m \<noteq> []" "a \<noteq> []" "rune_count m \<le> max_notice_message"
      "\<not> max_notice_updates \<le> length (no_updates n)" for st' m a
    using that n(2)
    by (intro set_notice_ok [OF assms(1) Some] posted_ok n(1) assms(2)) (auto simp: posted_notice_def)
  from assms(1) Some show ?thesis
    unfolding post_notice_update_def Let_def by (auto simp: text_ok stored split: option.splits)
qed

text \<open>An edited copy waiting for its second section: sound by itself, and of the kind of the notice it replaces.\<close>

definition edit_ok :: "notice_book \<Rightarrow> nat \<times> notice \<Rightarrow> bool" where
  "edit_ok b e = (case e of (i, n) \<Rightarrow> no_id n = i \<and> i \<le> nb_next b \<and> no_title n \<noteq> [] \<and>
     rune_count (no_title n) \<le> max_notice_title \<and> (no_kind n = notice_maintenance \<longrightarrow> no_starts_at n < no_ends_at n) \<and>
     (\<forall>m \<in> set (nb_notices b). no_id m = i \<longrightarrow> no_kind m = no_kind n))"

lemma edited_ok:
  assumes "notices_ok b" "notice_named i b = Some old" "edited_notice k now edit actor old = Inr n"
  shows "edit_ok b (i, n)"
proof -
  have old: "old \<in> set (nb_notices b)" "no_id old = i" using notice_named_in [OF assms(2)] by auto
  define m where "m = old\<lparr>no_title := trim_space (no_title edit), no_public := no_public edit, no_checks := no_checks edit,
      no_components := no_components edit, no_starts_at := no_starts_at edit, no_ends_at := no_ends_at edit\<rparr>"
  from assms(3) have v: "validate_notice k m = None" and nm: "n = m\<lparr>no_updated_at := now, no_updated_by := actor\<rparr>"
    by (auto simp: edited_notice_def Let_def m_def split: option.splits)
  have n: "no_id n = no_id old" "no_kind n = no_kind old" "no_title n \<noteq> []" "rune_count (no_title n) \<le> max_notice_title"
    "no_kind n = notice_maintenance \<Longrightarrow> no_starts_at n < no_ends_at n"
    using validate_notice_None [OF v] by (simp_all add: nm) (simp_all add: m_def)
  have "distinct (map no_id (nb_notices b))" using assms(1) by (simp add: notices_ok_def strict_sorted_iff)
  then have inj: "inj_on no_id (set (nb_notices b))" by (simp add: distinct_map)
  have "m' = old" if "m' \<in> set (nb_notices b)" "no_id m' = i" for m'
    by (rule inj_onD [OF inj _ that(1) old(1)]) (simp only: that(2) old(2))
  then have "\<forall>m' \<in> set (nb_notices b). no_id m' = i \<longrightarrow> no_kind m' = no_kind n" by (simp add: n(2))
  moreover have "i \<le> nb_next b" using old assms(1) by (auto simp: notices_ok_def)
  ultimately show ?thesis
    unfolding edit_ok_def prod.case using n(3-5) trans [OF n(1) old(2)] by (intro conjI impI) assumption+
qed

definition merged_edit :: "notice \<Rightarrow> notice \<Rightarrow> notice" where
  "merged_edit n cur = n\<lparr>no_updates := no_updates cur, no_state := no_state cur, no_resolved_at := no_resolved_at cur\<rparr>"

lemma store_edit_eq:
  "notice_named i b = Some cur \<Longrightarrow>
   store_edit i n b = (b\<lparr>nb_notices := set_notice i (merged_edit n cur) (nb_notices b)\<rparr>, Inr (merged_edit n cur))"
  by (simp add: store_edit_def merged_edit_def Let_def)

lemma merged_simps [simp]:
  "no_id (merged_edit n cur) = no_id n" "no_kind (merged_edit n cur) = no_kind n"
  by (simp_all add: merged_edit_def)

lemma store_edit_ok:
  assumes "notices_ok b" "edit_ok b (i, n)"
  shows "notices_ok (fst (store_edit i n b))"
proof (cases "notice_named i b")
  case None
  with assms(1) show ?thesis by (simp add: store_edit_def)
next
  case (Some cur)
  then have cur: "notice_ok cur" "cur \<in> set (nb_notices b)" "no_id cur = i"
    using assms(1) notice_named_in by (auto simp: notices_ok_def)
  then have "no_kind cur = no_kind n" using assms(2) by (auto simp: edit_ok_def)
  with cur(1) assms(2) have "notice_ok (merged_edit n cur)"
    by (auto simp: notice_ok_def notice_open_def edit_ok_def merged_edit_def)
  then have "notices_ok (b\<lparr>nb_notices := set_notice i (merged_edit n cur) (nb_notices b)\<rparr>)"
    using assms(2) by (intro set_notice_ok [OF assms(1) Some]) (auto simp: edit_ok_def)
  with Some show ?thesis by (simp add: store_edit_eq)
qed

lemma edit_notice_ok:
  assumes "notices_ok b"
  shows "notices_ok (fst (edit_notice k now i edit actor b))"
  using store_edit_ok [OF assms edited_ok [OF assms]] assms
  by (auto simp: edit_notice_def Let_def split: option.splits sum.splits)

lemma delete_first_split: "delete_first P xs = Some ys \<Longrightarrow> \<exists>us v ws. xs = us @ v # ws \<and> ys = us @ ws"
proof (induction P xs arbitrary: ys rule: delete_first.induct)
  case (1 P)
  then show ?case by simp
next
  case (2 P x xs)
  show ?case
  proof (cases "P x")
    case True
    with 2 have "x # xs = [] @ x # xs \<and> ys = [] @ xs" by simp
    then show ?thesis by blast
  next
    case False
    with 2 obtain zs us v ws where "ys = x # zs" "xs = us @ v # ws" "zs = us @ ws" by auto
    then have "x # xs = (x # us) @ v # ws \<and> ys = (x # us) @ ws" by simp
    then show ?thesis by blast
  qed
qed

lemma delete_notice_ok:
  assumes "notices_ok b"
  shows "notices_ok (fst (delete_notice i actor b))"
proof -
  have "notices_ok (b\<lparr>nb_notices := ys\<rparr>)" if "delete_first P (nb_notices b) = Some ys" for P ys
    using delete_first_split [OF that] assms by (auto simp: notices_ok_def sorted_wrt_append)
  with assms show ?thesis by (auto simp: delete_notice_def split: option.splits)
qed

section \<open>Requests that interleave\<close>

text \<open>
  \<open>EditNotice\<close> validates between its two sections, so any other request can come in between; \<open>es\<close> are the
  edits that are past their first section.
\<close>

inductive book_run :: "catalogue \<Rightarrow> notice_book \<Rightarrow> (nat \<times> notice) list \<Rightarrow> bool" for k where
  Empty: "book_run k \<lparr>nb_notices = [], nb_next = 0\<rparr> []"
| Create: "book_run k b es \<Longrightarrow> 0 < now \<Longrightarrow> book_run k (fst (create_notice k now n message actor b)) es"
| Post: "book_run k b es \<Longrightarrow> 0 < now \<Longrightarrow> book_run k (fst (post_notice_update now i st message actor b)) es"
| Delete: "book_run k b es \<Longrightarrow> book_run k (fst (delete_notice i actor b)) es"
| ReadEdit: "book_run k b es \<Longrightarrow> notice_named i b = Some old \<Longrightarrow> edited_notice k now edit actor old = Inr n \<Longrightarrow>
    book_run k b ((i, n) # es)"
| StoreEdit: "book_run k b es \<Longrightarrow> (i, n) \<in> set es \<Longrightarrow> book_run k (fst (store_edit i n b)) (remove1 (i, n) es)"

text \<open>A waiting edit stays sound as long as numbers only grow and a number keeps its kind.\<close>

definition kinds_kept :: "notice_book \<Rightarrow> notice_book \<Rightarrow> bool" where
  "kinds_kept b b' \<longleftrightarrow> nb_next b \<le> nb_next b' \<and> (\<forall>m' \<in> set (nb_notices b'). no_id m' \<le> nb_next b \<longrightarrow>
     (\<exists>m \<in> set (nb_notices b). no_id m = no_id m' \<and> no_kind m = no_kind m'))"

lemma kinds_keptI:
  assumes "nb_next b' = nb_next b" "\<And>m'. m' \<in> set (nb_notices b') \<Longrightarrow> \<exists>m \<in> set (nb_notices b). no_id m = no_id m' \<and> no_kind m = no_kind m'"
  shows "kinds_kept b b'"
  using assms by (simp add: kinds_kept_def)

lemma kinds_kept_refl [simp]: "kinds_kept b b"
  by (auto simp: kinds_kept_def)

lemma edit_ok_kept: "edit_ok b e \<Longrightarrow> kinds_kept b b' \<Longrightarrow> edit_ok b' e"
  by (auto simp: edit_ok_def kinds_kept_def split: prod.splits)

lemma set_notice_kept:
  assumes "notice_named i b = Some old" "no_id n = i" "no_kind n = no_kind old"
  shows "kinds_kept b (b\<lparr>nb_notices := set_notice i n (nb_notices b)\<rparr>)"
  using notice_named_in [OF assms(1)] assms(2,3) by (intro kinds_keptI) (auto dest!: set_notice_set)

lemma post_kept: "kinds_kept b (fst (post_notice_update now i st message actor b))"
proof -
  have "kinds_kept b (b\<lparr>nb_notices := set_notice i (posted_notice now st' m a n) (nb_notices b)\<rparr>)"
    if "notice_named i b = Some n" for st' m a n
    using notice_named_in [OF that] by (intro set_notice_kept [OF that]) (auto simp: posted_notice_def)
  then show ?thesis by (auto simp: post_notice_update_def Let_def split: option.splits)
qed

lemma store_kept: "edit_ok b (i, n) \<Longrightarrow> kinds_kept b (fst (store_edit i n b))"
proof (cases "notice_named i b")
  case (Some cur)
  assume "edit_ok b (i, n)"
  with notice_named_in [OF Some] have "no_id (merged_edit n cur) = i" "no_kind (merged_edit n cur) = no_kind cur"
    by (auto simp: edit_ok_def)
  from set_notice_kept [OF Some this] Some show ?thesis by (simp add: store_edit_eq)
qed (simp add: store_edit_def)

lemma delete_kept: "kinds_kept b (fst (delete_notice i actor b))"
proof -
  have "kinds_kept b (b\<lparr>nb_notices := ys\<rparr>)" if "delete_first P (nb_notices b) = Some ys" for P ys
    using delete_first_split [OF that] by (intro kinds_keptI) auto
  then show ?thesis by (auto simp: delete_notice_def split: option.splits)
qed

lemma create_kept: "kinds_kept b (fst (create_notice k now n message actor b))"
proof -
  have "kinds_kept b (b\<lparr>nb_notices := filter P (nb_notices b)\<rparr>)" for P
    by (intro kinds_keptI) auto
  moreover have "kinds_kept b (b\<lparr>nb_notices := filter P (nb_notices b) @ [m\<lparr>no_id := Suc (nb_next b)\<rparr>], nb_next := Suc (nb_next b)\<rparr>)" for P m
    by (auto simp: kinds_kept_def)
  ultimately show ?thesis
    by (simp add: create_notice_def Let_def split: option.splits)
qed

lemma book_run_ok: "book_run k b es \<Longrightarrow> notices_ok b \<and> (\<forall>e \<in> set es. edit_ok b e)"
proof (induction rule: book_run.induct)
  case Empty
  then show ?case by (simp add: notices_ok_def)
next
  case (Create b es now n message actor)
  then show ?case using create_notice_ok edit_ok_kept [OF _ create_kept] by blast
next
  case (Post b es now i st message actor)
  then show ?case using post_notice_ok edit_ok_kept [OF _ post_kept] by blast
next
  case (Delete b es i actor)
  then show ?case using delete_notice_ok edit_ok_kept [OF _ delete_kept] by blast
next
  case (ReadEdit b es i old now edit actor n)
  then show ?case using edited_ok by auto
next
  case (StoreEdit b es i n)
  then have e: "edit_ok b (i, n)" by blast
  have "set (remove1 (i, n) es) \<subseteq> set es" by (rule set_remove1_subset)
  with StoreEdit store_edit_ok [OF _ e] edit_ok_kept [OF _ store_kept [OF e]] show ?case by blast
qed

text \<open>An edit does not undo an update that was posted between its sections.\<close>

lemma set_notice_named:
  assumes "notice_named i b = Some old" "no_id n = i"
  shows "notice_named i (b\<lparr>nb_notices := set_notice i n (nb_notices b)\<rparr>) = Some n"
proof -
  have "find (\<lambda>x. no_id x = i) xs = Some old \<Longrightarrow> find (\<lambda>x. no_id x = i) (set_notice i n xs) = Some n" for xs
    using assms(2) by (induction xs) (auto split: if_splits)
  with assms(1) show ?thesis by (simp add: notice_named_def)
qed

lemma edit_keeps_post:
  assumes "notice_named i b = Some old" "edited_notice k t edit who old = Inr e"
    and "post_notice_update now i st message actor b = (b1, Inr posted)"
  shows "\<exists>b2. store_edit i e b1 = (b2, Inr (merged_edit e posted)) \<and> notice_named i b2 = Some (merged_edit e posted)"
proof -
  have old: "no_id old = i" using notice_named_in [OF assms(1)] by simp
  from assms(3) assms(1) obtain st' m a where p: "posted = posted_notice now st' m a old"
    "b1 = b\<lparr>nb_notices := set_notice i posted (nb_notices b)\<rparr>"
    by (auto simp: post_notice_update_def Let_def split: option.splits if_splits)
  then have "no_id posted = i" using old by (simp add: posted_notice_def)
  from set_notice_named [OF assms(1) this] have n1: "notice_named i b1 = Some posted" by (simp add: p(2))
  have "no_id e = i" using assms(2) old by (auto simp: edited_notice_def Let_def split: option.splits)
  then have "no_id (merged_edit e posted) = i" by simp
  from set_notice_named [OF n1 this] show ?thesis by (simp add: store_edit_eq [OF n1])
qed

section \<open>Only operators write notices\<close>

lemma notice_change_admitted:
  "snd (fst (handle_create_notice kd cfg k now r q s)) \<noteq> snd s \<Longrightarrow>
     \<exists>who. snd (require_permission kd cfg now r PermissionOperate (fst s)) = Inr who"
  "snd (fst (handle_post_notice_update kd cfg now r i u s)) \<noteq> snd s \<Longrightarrow>
     \<exists>who. snd (require_permission kd cfg now r PermissionOperate (fst s)) = Inr who"
  "snd (fst (handle_edit_notice kd cfg k now r i q s)) \<noteq> snd s \<Longrightarrow>
     \<exists>who. snd (require_permission kd cfg now r PermissionOperate (fst s)) = Inr who"
  "snd (fst (handle_delete_notice kd cfg now r i x s)) \<noteq> snd s \<Longrightarrow>
     \<exists>who. snd (require_permission kd cfg now r PermissionOperate (fst s)) = Inr who"
  by (auto simp: handle_create_notice_def handle_post_notice_update_def handle_edit_notice_def handle_delete_notice_def
      split: prod.splits sum.splits)

end
