(* ===== verification/Publish.thy ===== *)
theory Publish
  imports Runs Endpoints Notices
begin

text \<open>
  The published view: the export and its signature (\<open>internal/coordinator/export.go\<close>) and the program that
  turns it into a status page off the fleet (\<open>cmd/parallaxd-status/main.go\<close>). The handler reads its clock
  once here. The page is the data the HTML template gets; the share of uptime stays a fraction.
\<close>

section \<open>The export\<close>

record export_update =
  xu_at :: time
  xu_state :: string
  xu_message :: string

record export_notice =
  xn_id :: nat
  xn_kind :: string
  xn_title :: string
  xn_state :: string
  xn_checks :: "string list"
  xn_components :: "string list"
  xn_starts_at :: time
  xn_ends_at :: time
  xn_created_at :: time
  xn_updated_at :: time
  xn_resolved_at :: time
  xn_updates :: "export_update list"

record export_doc =
  ex_version :: int
  ex_coordinator :: string
  ex_generated_at :: time
  ex_components :: "component_entry list"
  ex_checks :: "status_entry list"
  ex_probers :: nat
  ex_isolated :: "string list"
  ex_partitioned :: bool
  ex_uptime :: "uptime list"
  ex_notices :: "export_notice list"

definition export_version :: int where "export_version = 1"
definition export_notice_window :: duration where "export_notice_window = 168 * hour"
definition max_export_notices :: nat where "max_export_notices = 20"
definition max_export_updates :: nat where "max_export_updates = 10"
definition max_export_text :: int where "max_export_text = 131072"

definition exported_update :: "notice_update \<Rightarrow> export_update" where
  "exported_update u = \<lparr>xu_at = nu_at u, xu_state = nu_state u, xu_message = nu_message u\<rparr>"

text \<open>The inner loop, over the updates from the newest: what is taken, and the budget left.\<close>

fun take_updates :: "nat \<Rightarrow> int \<Rightarrow> notice_update list \<Rightarrow> export_update list \<times> int" where
  "take_updates room budget [] = ([], budget)"
| "take_updates 0 budget us = ([], budget)"
| "take_updates (Suc room) budget (u # us) =
     (let budget = budget - int (length (nu_message u)) in
      if budget < 0 then ([], budget)
      else (let (taken, left) = take_updates room budget us in (exported_update u # taken, left)))"

definition exported_notice :: "notice \<Rightarrow> export_update list \<Rightarrow> export_notice" where
  "exported_notice n us =
     \<lparr>xn_id = no_id n, xn_kind = no_kind n, xn_title = no_title n, xn_state = no_state n,
      xn_checks = no_checks n, xn_components = no_components n, xn_starts_at = no_starts_at n,
      xn_ends_at = no_ends_at n, xn_created_at = no_created_at n, xn_updated_at = no_updated_at n,
      xn_resolved_at = no_resolved_at n, xn_updates = us\<rparr>"

definition published_notice :: "time \<Rightarrow> notice \<Rightarrow> bool" where
  "published_notice now n \<longleftrightarrow>
     \<not> (\<not> no_public n \<or> (\<not> notice_open n \<and> sub_time now (no_resolved_at n) > export_notice_window))"

fun export_loop :: "time \<Rightarrow> int \<Rightarrow> export_notice list \<Rightarrow> notice list \<Rightarrow> export_notice list" where
  "export_loop now budget out [] = out"
| "export_loop now budget out (n # ns) =
     (if \<not> published_notice now n then export_loop now budget out ns
      else (let budget = budget - int (length (no_title n)) in
        if budget < 0 then out
        else (let (us, budget) = take_updates max_export_updates budget (rev (no_updates n));
                  out = out @ [exported_notice n us]
              in if length out = max_export_notices \<or> budget < 0 then out
                 else export_loop now budget out ns)))"

definition export_notices :: "notice list \<Rightarrow> time \<Rightarrow> export_notice list" where
  "export_notices ns now = export_loop now max_export_text [] ns"

definition public_entry :: "status_entry \<Rightarrow> status_entry" where
  "public_entry e = e\<lparr>se_target := [], se_assigned_to := [], se_history := [], se_last_inconclusive := []\<rparr>"

definition export_of :: "world \<Rightarrow> coord_config \<Rightarrow> string \<Rightarrow> time \<Rightarrow> coord \<Rightarrow> notice_book \<Rightarrow> export_doc" where
  "export_of w cfg self now co b =
     (let m = mesh_of cfg now co in
      \<lparr>ex_version = export_version, ex_coordinator = self, ex_generated_at = now,
       ex_components = components_page cfg co, ex_checks = map public_entry (status_page cfg now co),
       ex_probers = length (cc_peers cfg), ex_isolated = mv_isolated m, ex_partitioned = mv_partitioned m,
       ex_uptime = uptime_report (w_parse_duration w) cfg now co (map c_name (co_checks co))
         (map comp_name (cc_components cfg)) (now - default_uptime_period) now,
       ex_notices = export_notices (notices b) now\<rparr>)"

definition signed_export :: "crypto \<Rightarrow> export_doc codec \<Rightarrow> bytes \<Rightarrow> world \<Rightarrow> coord_config \<Rightarrow> string \<Rightarrow> time \<Rightarrow> coord \<Rightarrow>
    notice_book \<Rightarrow> wire_error + envelope" where
  "signed_export cr cd key w cfg self now co b = sign_document cr cd key self (export_of w cfg self now co b)"

datatype export_reply = PlainExport export_doc | SignedExport envelope | CouldNotSignExport wire_error

definition handle_export :: "crypto \<Rightarrow> export_doc codec \<Rightarrow> bytes \<Rightarrow> world \<Rightarrow> coord_config \<Rightarrow> string \<Rightarrow> time \<Rightarrow>
    string \<Rightarrow> coord \<Rightarrow> notice_book \<Rightarrow> export_reply" where
  "handle_export cr cd key w cfg self now query co b =
     (if query \<noteq> ''true'' then PlainExport (export_of w cfg self now co b)
      else case signed_export cr cd key w cfg self now co b of
        Inl e \<Rightarrow> CouldNotSignExport e | Inr env \<Rightarrow> SignedExport env)"

section \<open>The status page\<close>

record page_item =
  it_check :: string
  it_component :: string
  it_label :: string

record page_group =
  pg_name :: string
  pg_items :: "page_item list"

record page_config =
  sc_source :: string
  sc_coordinator_name :: string
  sc_coordinator_key :: string
  sc_output_dir :: string
  sc_title :: string
  sc_logo :: string
  sc_max_age :: duration
  sc_groups :: "page_group list"

datatype page_error = SourceRequired | CoordinatorKeyRequired | TitleRequired | GroupRequired | GroupIncomplete
  | ItemNamesOne string | ExportTooLarge | PageKey wire_error | PageWire wire_error | NotAnEnvelope
  | SignedBy string | NotAnExport | UnsupportedVersion int

fun first_some :: "('a \<Rightarrow> 'e option) \<Rightarrow> 'a list \<Rightarrow> 'e option" where
  "first_some f [] = None"
| "first_some f (x # xs) = (case f x of Some e \<Rightarrow> Some e | None \<Rightarrow> first_some f xs)"

definition check_item :: "string \<Rightarrow> page_item \<Rightarrow> page_error option" where
  "check_item g it = (if (it_check it = []) = (it_component it = []) then Some (ItemNamesOne g) else None)"

definition check_group :: "page_group \<Rightarrow> page_error option" where
  "check_group g =
     (if pg_name g = [] \<or> pg_items g = [] then Some GroupIncomplete
      else first_some (check_item (pg_name g)) (pg_items g))"

text \<open>\<open>loadConfig\<close> on a decoded file.\<close>

definition load_page_config :: "page_config \<Rightarrow> page_error + page_config" where
  "load_page_config cfg =
     (let cfg = (if sc_max_age cfg = 0 then cfg\<lparr>sc_max_age := 5 * minute\<rparr> else cfg) in
      if sc_source cfg = [] \<or> sc_output_dir cfg = [] then Inl SourceRequired
      else if sc_coordinator_name cfg = [] \<or> sc_coordinator_key cfg = [] then Inl CoordinatorKeyRequired
      else if sc_title cfg = [] then Inl TitleRequired
      else if sc_groups cfg = [] then Inl GroupRequired
      else case first_some check_group (sc_groups cfg) of Some e \<Rightarrow> Inl e | None \<Rightarrow> Inr cfg)"

definition max_export_bytes :: nat where "max_export_bytes = 1048576"

text \<open>The tail of \<open>fetch\<close>: \<open>body\<close> is everything the source would yield.\<close>

definition read_export :: "bytes \<Rightarrow> page_error + bytes" where
  "read_export body =
     (let raw = take (max_export_bytes + 1) body
      in if length raw > max_export_bytes then Inl ExportTooLarge else Inr raw)"

definition verify_export :: "crypto \<Rightarrow> envelope codec \<Rightarrow> export_doc codec \<Rightarrow> bytes \<Rightarrow> string \<Rightarrow> string \<Rightarrow>
    page_error + export_doc" where
  "verify_export cr ecd xcd raw name key =
     (case decode_public_key key of Inl e \<Rightarrow> Inl (PageKey e) | Inr pub \<Rightarrow>
      (case keyring_add [] name pub of Inl e \<Rightarrow> Inl (PageWire e) | Inr k \<Rightarrow>
       (case cd_decode ecd raw of None \<Rightarrow> Inl NotAnEnvelope | Some env \<Rightarrow>
          if ev_peer env \<noteq> name then Inl (SignedBy (ev_peer env))
          else (case open_document cr k env of Inl e \<Rightarrow> Inl (PageWire e) | Inr payload \<Rightarrow>
           (case cd_decode xcd payload of None \<Rightarrow> Inl NotAnExport | Some x \<Rightarrow>
              if ex_version x \<noteq> 1 then Inl (UnsupportedVersion (ex_version x)) else Inr x)))))"

record page_row =
  ro_label :: string
  ro_status :: status
  ro_since :: time
  ro_uptime :: "(int \<times> int) option"

record page_notice =
  pn_title :: string
  pn_state :: string
  pn_tone :: status
  pn_affected :: "string list"
  pn_starts_at :: time
  pn_ends_at :: time
  pn_updates :: "export_update list"

datatype overall = OutOfDate | MajorOutage | PartialOutage | Degraded | SomeUnchecked | AllOperational

record page =
  pa_title :: string
  pa_logo :: string
  pa_overall :: overall
  pa_tone :: status
  pa_generated_at :: time
  pa_stale :: bool
  pa_max_age :: duration
  pa_groups :: "(string \<times> page_row list) list"
  pa_incidents :: "page_notice list"
  pa_maintenance :: "page_notice list"
  pa_past :: "page_notice list"

definition cmp_or :: "string \<Rightarrow> string \<Rightarrow> string" where
  "cmp_or a b = (if a \<noteq> [] then a else b)"

text \<open>The maps built from the lists: the last entry of a name wins.\<close>

definition last_named :: "('a \<Rightarrow> 'k) \<Rightarrow> 'a list \<Rightarrow> 'k \<Rightarrow> 'a option" where
  "last_named key xs k = find (\<lambda>x. key x = k) (rev xs)"

definition item_subject :: "page_item \<Rightarrow> uptime_subject" where
  "item_subject it = (if it_component it \<noteq> [] then UptimeComponent (it_component it) else UptimeCheck (it_check it))"

definition item_name :: "page_item \<Rightarrow> string" where
  "item_name it = (if it_component it \<noteq> [] then it_component it else it_check it)"

definition item_status :: "export_doc \<Rightarrow> page_item \<Rightarrow> (status \<times> time) option" where
  "item_status x it =
     (if it_component it \<noteq> []
      then map_option (\<lambda>e. (ce_status e, ce_since e)) (last_named ce_component (ex_components x) (it_component it))
      else map_option (\<lambda>e. (if se_stale e then StatusUnknown else se_status e, se_since e))
        (last_named se_check (ex_checks x) (it_check it)))"

definition page_row_of :: "export_doc \<Rightarrow> bool \<Rightarrow> page_item \<Rightarrow> page_row \<times> uptime_subject list" where
  "page_row_of x stale it =
     (let found = item_status x it;
          row = \<lparr>ro_label = cmp_or (it_label it) (item_name it), ro_status = StatusUnknown, ro_since = zero_time,
                 ro_uptime = map_option up_ratio (last_named up_subject (ex_uptime x) (item_subject it))\<rparr>;
          row = (case found of None \<Rightarrow> row | Some (s, t) \<Rightarrow> row\<lparr>ro_status := s, ro_since := t\<rparr>);
          row = (if stale then row\<lparr>ro_status := StatusUnknown\<rparr> else row)
      in (row, if found = None then [item_subject it] else []))"

fun tone_of :: "overall \<Rightarrow> status" where
  "tone_of OutOfDate = StatusUnknown"
| "tone_of MajorOutage = StatusDown"
| "tone_of PartialOutage = StatusDown"
| "tone_of Degraded = StatusWarning"
| "tone_of SomeUnchecked = StatusUnknown"
| "tone_of AllOperational = StatusUp"

definition overall_of :: "bool \<Rightarrow> status list \<Rightarrow> overall" where
  "overall_of stale ss =
     (let total = count_list ss StatusUp + count_list ss StatusWarning + count_list ss StatusDown + count_list ss StatusUnknown in
      if stale then OutOfDate
      else if count_list ss StatusDown > 0 \<and> count_list ss StatusDown = total then MajorOutage
      else if count_list ss StatusDown > 0 then PartialOutage
      else if count_list ss StatusWarning > 0 then Degraded
      else if count_list ss StatusUnknown > 0 then SomeUnchecked
      else AllOperational)"

definition item_labels :: "page_config \<Rightarrow> (uptime_subject \<times> string) list" where
  "item_labels cfg = map (\<lambda>it. (item_subject it, cmp_or (it_label it) (item_name it))) (concat (map pg_items (sc_groups cfg)))"

definition affected_step :: "(uptime_subject \<times> string) list \<Rightarrow> string list \<Rightarrow> uptime_subject \<Rightarrow> string list" where
  "affected_step labels named s =
     (case last_named fst labels s of
        None \<Rightarrow> named
      | Some (_, label) \<Rightarrow> if List.member named label then named else named @ [label])"

definition page_notice_of :: "(uptime_subject \<times> string) list \<Rightarrow> export_notice \<Rightarrow> page_notice" where
  "page_notice_of labels n =
     \<lparr>pn_title = xn_title n, pn_state = xn_state n,
      pn_tone = (if \<not> is_zero (xn_resolved_at n) then StatusUp
        else if xn_kind n = notice_maintenance then StatusWarning else StatusDown),
      pn_affected = foldl (affected_step labels) [] (map UptimeComponent (xn_components n) @ map UptimeCheck (xn_checks n)),
      pn_starts_at = xn_starts_at n, pn_ends_at = xn_ends_at n, pn_updates = xn_updates n\<rparr>"

definition page_notices :: "page_config \<Rightarrow> export_notice list \<Rightarrow> page_notice list \<times> page_notice list \<times> page_notice list" where
  "page_notices cfg ns =
     (let shown = map (\<lambda>n. page_notice_of (item_labels cfg) n) in
      (shown (filter (\<lambda>n. is_zero (xn_resolved_at n) \<and> xn_kind n \<noteq> notice_maintenance) ns),
       shown (filter (\<lambda>n. is_zero (xn_resolved_at n) \<and> xn_kind n = notice_maintenance) ns),
       shown (filter (\<lambda>n. \<not> is_zero (xn_resolved_at n)) ns)))"

definition page_groups :: "page_config \<Rightarrow> export_doc \<Rightarrow> bool \<Rightarrow> (string \<times> page_row list) list" where
  "page_groups cfg x stale = map (\<lambda>g. (pg_name g, map (fst \<circ> page_row_of x stale) (pg_items g))) (sc_groups cfg)"

definition build_page :: "page_config \<Rightarrow> export_doc \<Rightarrow> time \<Rightarrow> page \<times> uptime_subject list" where
  "build_page cfg x now =
     (let stale = sub_time now (ex_generated_at x) > sc_max_age cfg;
          groups = page_groups cfg x stale;
          (incidents, maintenance, past) = page_notices cfg (ex_notices x);
          total = overall_of stale (map ro_status (concat (map snd groups)))
      in (\<lparr>pa_title = sc_title cfg, pa_logo = sc_logo cfg, pa_overall = total, pa_tone = tone_of total,
           pa_generated_at = ex_generated_at x, pa_stale = stale, pa_max_age = sc_max_age cfg,
           pa_groups = groups, pa_incidents = incidents, pa_maintenance = maintenance, pa_past = past\<rparr>,
          concat (map (snd \<circ> page_row_of x stale) (concat (map pg_items (sc_groups cfg))))))"

text \<open>\<open>run\<close> up to the rendering: the page written, or the error that leaves the previous page in place.\<close>

definition run_status :: "crypto \<Rightarrow> envelope codec \<Rightarrow> export_doc codec \<Rightarrow> page_config \<Rightarrow> bytes \<Rightarrow> time \<Rightarrow> page_error + page" where
  "run_status cr ecd xcd file body now =
     (case load_page_config file of Inl e \<Rightarrow> Inl e | Inr cfg \<Rightarrow>
      (case read_export body of Inl e \<Rightarrow> Inl e | Inr raw \<Rightarrow>
       (case verify_export cr ecd xcd raw (sc_coordinator_name cfg) (sc_coordinator_key cfg) of
          Inl e \<Rightarrow> Inl e | Inr x \<Rightarrow> Inr (fst (build_page cfg x now)))))"

section \<open>What leaves the fleet is bounded\<close>

definition updates_text :: "export_update list \<Rightarrow> nat" where
  "updates_text us = sum_list (map (length \<circ> xu_message) us)"

definition notices_text :: "export_notice list \<Rightarrow> nat" where
  "notices_text ns = sum_list (map (\<lambda>n. length (xn_title n) + updates_text (xn_updates n)) ns)"

lemma text_simps [simp]:
  "updates_text [] = 0" "updates_text (u # us) = length (xu_message u) + updates_text us"
  "notices_text [] = 0" "notices_text (xs @ ys) = notices_text xs + notices_text ys"
  "notices_text [n] = length (xn_title n) + updates_text (xn_updates n)"
  by (simp_all add: updates_text_def notices_text_def)

text \<open>The inner loop takes the newest updates, and a budget that is not overdrawn pays for all of them.\<close>

lemma take_updates_newest:
  "\<exists>k \<le> room. fst (take_updates room budget us) = map exported_update (take k us)"
proof (induction room budget us rule: take_updates.induct)
  case (3 room budget u us)
  show ?case
  proof (cases "budget - int (length (nu_message u)) < 0")
    case True
    then show ?thesis by (auto simp: Let_def intro: exI [of _ 0])
  next
    case False
    with 3 obtain k where "k \<le> room"
      "fst (take_updates room (budget - int (length (nu_message u))) us) = map exported_update (take k us)" by auto
    then show ?thesis using False by (intro exI [of _ "Suc k"]) (auto simp: Let_def split: prod.splits)
  qed
qed auto

lemma take_updates_paid:
  assumes "0 \<le> budget" "take_updates room budget us = (taken, left)"
  shows "int (updates_text taken) + max 0 left \<le> budget"
  using assms
proof (induction room budget us arbitrary: taken left rule: take_updates.induct)
  case (3 room budget u us)
  show ?case
  proof (cases "budget - int (length (nu_message u)) < 0")
    case True
    with 3 show ?thesis by (auto simp: Let_def)
  next
    case False
    obtain t l where r: "take_updates room (budget - int (length (nu_message u))) us = (t, l)" by force
    with 3(1) [OF refl _ _ r] False have "int (updates_text t) + max 0 l \<le> budget - int (length (nu_message u))" by simp
    moreover have "taken = exported_update u # t" "left = l" using 3(3) False r by (auto simp: Let_def)
    ultimately show ?thesis by (simp add: exported_update_def)
  qed
qed auto

text \<open>The accumulated list only grows, by exported public notices.\<close>

definition exported_from :: "time \<Rightarrow> notice list \<Rightarrow> export_notice \<Rightarrow> bool" where
  "exported_from now ns e \<longleftrightarrow> (\<exists>n \<in> set ns. \<exists>k \<le> max_export_updates. published_notice now n \<and>
     e = exported_notice n (map exported_update (take k (rev (no_updates n)))))"

lemma exported_from_Cons: "exported_from now ns e \<Longrightarrow> exported_from now (n # ns) e"
  by (auto simp: exported_from_def)

lemma export_step:
  assumes "published_notice now n" "take_updates max_export_updates budget (rev (no_updates n)) = (us, left)"
  shows "exported_from now (n # ns) (exported_notice n us)"
proof -
  from take_updates_newest [of max_export_updates budget "rev (no_updates n)"] assms(2) obtain k where
    "k \<le> max_export_updates" "us = map exported_update (take k (rev (no_updates n)))" by auto
  with assms(1) show ?thesis by (auto simp: exported_from_def)
qed

lemma export_loop_bounded:
  assumes "0 \<le> budget" "length out < max_export_notices"
  shows "int (notices_text (export_loop now budget out ns)) \<le> int (notices_text out) + budget \<and>
    length (export_loop now budget out ns) \<le> max_export_notices \<and>
    (\<forall>e \<in> set (export_loop now budget out ns). e \<in> set out \<or> exported_from now ns e)"
  using assms
proof (induction now budget out ns rule: export_loop.induct)
  case (1 now budget out)
  then show ?case by simp
next
  case (2 now budget out n ns)
  show ?case
  proof (cases "published_notice now n")
    case False
    with 2 show ?thesis by (auto intro: exported_from_Cons)
  next
    case pub: True
    show ?thesis
    proof (cases "budget - int (length (no_title n)) < 0")
      case True
      with 2(3,4) pub show ?thesis by (simp add: Let_def)
    next
      case False
      define b where "b = budget - int (length (no_title n))"
      obtain us left where t: "take_updates max_export_updates b (rev (no_updates n)) = (us, left)" by force
      define e where "e = exported_notice n us"
      have paid: "int (updates_text us) + max 0 left \<le> b"
        using take_updates_paid [OF _ t] False by (simp add: b_def)
      have e: "exported_from now (n # ns) e" unfolding e_def by (rule export_step [OF pub t])
      have counted: "int (notices_text (out @ [e])) + max 0 left \<le> int (notices_text out) + budget"
        using paid by (simp add: e_def exported_notice_def b_def)
      show ?thesis
      proof (cases "length (out @ [e]) = max_export_notices \<or> left < 0")
        case stop: True
        then have "export_loop now budget out (n # ns) = out @ [e]"
          using pub False t by (auto simp: Let_def b_def e_def)
        with e counted 2(4) show ?thesis by auto
      next
        case go: False
        then have l: "export_loop now budget out (n # ns) = export_loop now left (out @ [e]) ns"
          using pub False t by (auto simp: Let_def b_def e_def)
        have IH: "int (notices_text (export_loop now left (out @ [e]) ns)) \<le> int (notices_text (out @ [e])) + left \<and>
            length (export_loop now left (out @ [e]) ns) \<le> max_export_notices \<and>
            (\<forall>x \<in> set (export_loop now left (out @ [e]) ns). x \<in> set (out @ [e]) \<or> exported_from now ns x)"
          using 2(2) [of b "(us, left)" us left "out @ [e]"] pub False t go 2(4) by (auto simp: b_def e_def)
        with e counted go show ?thesis unfolding l by (auto intro: exported_from_Cons)
      qed
    qed
  qed
qed

lemma export_notices_bounded:
  "int (notices_text (export_notices ns now)) \<le> max_export_text"
  "length (export_notices ns now) \<le> max_export_notices"
  "e \<in> set (export_notices ns now) \<Longrightarrow> exported_from now ns e"
  using export_loop_bounded [of max_export_text "[]" now ns]
  by (auto simp: export_notices_def max_export_text_def max_export_notices_def)

section \<open>What the page claims\<close>

lemma overall_all_up:
  "overall_of stale ss = AllOperational \<longleftrightarrow>
     \<not> stale \<and> StatusDown \<notin> set ss \<and> StatusWarning \<notin> set ss \<and> StatusUnknown \<notin> set ss"
  by (auto simp: overall_of_def Let_def neq0_conv [symmetric] count_list_0_iff simp del: neq0_conv split: if_splits)

lemma not_in_image: "v \<notin> f ` S \<longleftrightarrow> (\<forall>x \<in> S. f x \<noteq> v)"
  by auto

lemma row_status:
  "ro_status (fst (page_row_of x stale it)) =
     (if stale then StatusUnknown else case item_status x it of None \<Rightarrow> StatusUnknown | Some (s, t) \<Rightarrow> s)"
  by (auto simp: page_row_of_def Let_def split: option.splits)

lemma build_page_fields:
  "pa_stale (fst (build_page cfg x now)) \<longleftrightarrow> sub_time now (ex_generated_at x) > sc_max_age cfg"
  "pa_groups (fst (build_page cfg x now)) = page_groups cfg x (sub_time now (ex_generated_at x) > sc_max_age cfg)"
  "pa_overall (fst (build_page cfg x now)) = overall_of (sub_time now (ex_generated_at x) > sc_max_age cfg)
     (map ro_status (concat (map snd (page_groups cfg x (sub_time now (ex_generated_at x) > sc_max_age cfg)))))"
  "pa_tone (fst (build_page cfg x now)) = tone_of (pa_overall (fst (build_page cfg x now)))"
  by (simp_all add: build_page_def Let_def split: prod.splits)

definition page_items :: "page_config \<Rightarrow> page_item list" where
  "page_items cfg = concat (map pg_items (sc_groups cfg))"

lemma page_rows: "concat (map snd (page_groups cfg x stale)) = map (fst \<circ> page_row_of x stale) (page_items cfg)"
proof -
  have "concat (map snd (map (\<lambda>g. (pg_name g, map f (pg_items g))) gs)) = map f (concat (map pg_items gs))"
    for f :: "page_item \<Rightarrow> page_row" and gs
    by (induction gs) auto
  then show ?thesis by (simp add: page_groups_def page_items_def)
qed

text \<open>The page says that everything works only of fresh data in which every listed item is up.\<close>

lemma all_operational:
  "pa_overall (fst (build_page cfg x now)) = AllOperational \<longleftrightarrow>
     sub_time now (ex_generated_at x) \<le> sc_max_age cfg \<and>
     (\<forall>it \<in> set (page_items cfg). \<exists>s t. item_status x it = Some (s, t) \<and> s \<notin> {StatusDown, StatusWarning, StatusUnknown})"
proof (cases "sub_time now (ex_generated_at x) > sc_max_age cfg")
  case True
  then show ?thesis by (simp add: build_page_fields overall_all_up)
next
  case False
  then have "pa_overall (fst (build_page cfg x now)) = overall_of False (map (\<lambda>it. ro_status (fst (page_row_of x False it))) (page_items cfg))"
    by (simp add: build_page_fields page_rows comp_def)
  then have "pa_overall (fst (build_page cfg x now)) = AllOperational \<longleftrightarrow>
      (\<forall>it \<in> set (page_items cfg). ro_status (fst (page_row_of x False it)) \<notin> {StatusDown, StatusWarning, StatusUnknown})"
    by (simp add: overall_all_up not_in_image ball_conj_distrib)
  moreover have "ro_status (fst (page_row_of x False it)) \<notin> {StatusDown, StatusWarning, StatusUnknown} \<longleftrightarrow>
      (\<exists>s t. item_status x it = Some (s, t) \<and> s \<notin> {StatusDown, StatusWarning, StatusUnknown})" for it
    by (simp add: row_status split: option.splits prod.splits)
  ultimately show ?thesis using False by simp
qed

text \<open>What \<open>verify\<close> accepts was signed with the configured key, as a document.\<close>

lemma verify_export_Inr:
  assumes "verify_export cr ecd xcd raw name key = Inr x"
  obtains pub env where "decode_public_key key = Inr pub" "cd_decode ecd raw = Some env" "ev_peer env = name"
    "ring_verify cr [(name, pub)] DomainDoc env = None" "cd_decode xcd (ev_payload env) = Some x" "ex_version x = 1"
proof -
  obtain pub where pub: "decode_public_key key = Inr pub"
    using assms by (auto simp: verify_export_def split: sum.splits)
  obtain k where k: "keyring_add [] name pub = Inr k"
    using assms pub by (auto simp: verify_export_def split: sum.splits)
  then have "k = [(name, pub)]" by (auto simp: keyring_add_def split: if_splits)
  with assms pub k that show ?thesis
    by (auto simp: verify_export_def open_document_def split: sum.splits option.splits if_splits)
qed

lemma run_status_Inr:
  assumes "run_status cr ecd xcd file body now = Inr p"
  obtains cfg x where "load_page_config file = Inr cfg"
    "verify_export cr ecd xcd body (sc_coordinator_name cfg) (sc_coordinator_key cfg) = Inr x"
    "p = fst (build_page cfg x now)"
proof -
  obtain cfg where cfg: "load_page_config file = Inr cfg"
    using assms by (auto simp: run_status_def split: sum.splits)
  obtain raw where raw: "read_export body = Inr raw"
    using assms cfg by (auto simp: run_status_def split: sum.splits)
  then have "raw = body" by (auto simp: read_export_def Let_def split: if_splits)
  with assms cfg raw that show ?thesis by (auto simp: run_status_def split: sum.splits)
qed

lemma load_page_config_Inr:
  assumes "load_page_config file = Inr cfg"
  shows "cfg = file\<lparr>sc_max_age := if sc_max_age file = 0 then 5 * minute else sc_max_age file\<rparr>" "page_items cfg \<noteq> []"
    "\<forall>it \<in> set (page_items cfg). (it_check it = []) \<noteq> (it_component it = [])"
proof -
  have one: "first_some f xs = None \<longleftrightarrow> (\<forall>x \<in> set xs. f x = None)" for f :: "'a \<Rightarrow> 'e option" and xs
    by (induction xs) (auto split: option.splits)
  have groups: "\<forall>g \<in> set (sc_groups cfg). check_group g = None" "sc_groups cfg \<noteq> []"
    using assms by (auto simp: load_page_config_def Let_def one split: option.splits if_splits)
  show "cfg = file\<lparr>sc_max_age := if sc_max_age file = 0 then 5 * minute else sc_max_age file\<rparr>"
    using assms by (auto simp: load_page_config_def Let_def split: option.splits if_splits)
  have g: "pg_items g \<noteq> []" "\<forall>it \<in> set (pg_items g). (it_check it = []) \<noteq> (it_component it = [])"
    if "g \<in> set (sc_groups cfg)" for g
    using groups(1) that by (auto simp: check_group_def check_item_def one split: if_splits)
  show "page_items cfg \<noteq> []" using groups(2) g(1) by (cases "sc_groups cfg") (auto simp: page_items_def)
  show "\<forall>it \<in> set (page_items cfg). (it_check it = []) \<noteq> (it_component it = [])"
    using g(2) by (auto simp: page_items_def)
qed

text \<open>A signed export within the limits is shown as it is; one larger than a signed payload may be is refused.\<close>

lemma genuine_export_shown:
  assumes "sign_document cr xcd priv self x = Inr env" "cd_encode ecd env = Some body" "faithful ecd" "faithful xcd"
    and "key_pair cr priv pub" "decode_public_key (sc_coordinator_key file) = Inr pub" "sc_coordinator_name file = self"
    and "load_page_config file = Inr cfg" "length body \<le> max_export_bytes"
    and "int (length (ev_payload env)) \<le> max_payload_bytes" "ex_version x = 1"
  shows "run_status cr ecd xcd file body now = Inr (fst (build_page cfg x now))"
proof -
  have s: "seal cr xcd priv DomainDoc self x = Inr env" and self: "self \<noteq> []"
    using assms(1) by (auto simp: sign_document_def split: if_splits)
  have k: "keyring_add [] self pub = Inr [(self, pub)]" using decoded_key_fits [OF assms(6) self] by simp
  have v: "ring_verify cr [(self, pub)] DomainDoc env = None"
    using assms(5,10) by (intro seal_verifies [OF s]) auto
  have "cd_decode ecd body = Some env" "cd_decode xcd (ev_payload env) = Some x" "ev_peer env = self"
    using assms(2-4) seal_fields [OF s] by (auto simp: faithful_def)
  moreover have "sc_coordinator_name cfg = self" "sc_coordinator_key cfg = sc_coordinator_key file"
    using load_page_config_Inr(1) [OF assms(8)] assms(7) by simp_all
  moreover have "read_export body = Inr body" using assms(9) by (simp add: read_export_def Let_def)
  ultimately show ?thesis
    using assms(6,8,11) k v by (simp add: run_status_def verify_export_def open_document_def)
qed

lemma oversized_export_refused:
  assumes "sign_document cr xcd priv self x = Inr env" "cd_encode ecd env = Some body" "faithful ecd"
    and "decode_public_key (sc_coordinator_key file) = Inr pub" "sc_coordinator_name file = self"
    and "load_page_config file = Inr cfg" "length body \<le> max_export_bytes"
    and "max_payload_bytes < int (length (ev_payload env))"
  shows "run_status cr ecd xcd file body now = Inl (PageWire ErrPayloadTooLarge)"
proof -
  have s: "seal cr xcd priv DomainDoc self x = Inr env" and self: "self \<noteq> []"
    using assms(1) by (auto simp: sign_document_def split: if_splits)
  have k: "keyring_add [] self pub = Inr [(self, pub)]" using decoded_key_fits [OF assms(4) self] by simp
  have "cd_decode ecd body = Some env" "ev_peer env = self"
    using assms(2,3) seal_fields [OF s] by (auto simp: faithful_def)
  moreover have "sc_coordinator_name cfg = self" "sc_coordinator_key cfg = sc_coordinator_key file"
    using load_page_config_Inr(1) [OF assms(6)] assms(5) by simp_all
  moreover have "read_export body = Inr body" using assms(7) by (simp add: read_export_def Let_def)
  ultimately show ?thesis
    using assms(4,6,8) k by (simp add: run_status_def verify_export_def open_document_def ring_verify_def)
qed

section \<open>From the page back to the coordinator\<close>

text \<open>A listed item works: its check is decided up on current results, or its component's rule says up.\<close>

definition item_up :: "coord_config \<Rightarrow> coord \<Rightarrow> page_item \<Rightarrow> bool" where
  "item_up cfg co it \<longleftrightarrow>
     (if it_component it \<noteq> []
      then \<exists>cm \<in> set (cc_components cfg). comp_name cm = it_component it \<and>
        roll cm (check_statuses co (comp_checks cm)) = StatusUp
      else \<exists>chk \<in> set (co_checks co). c_name chk = it_check it \<and>
        (\<exists>st. map_of (co_states co) (it_check it) = Some st \<and> es_status st = StatusUp \<and> \<not> es_stale st))"

lemma last_named_Some: "last_named key xs k = Some x \<Longrightarrow> x \<in> set xs \<and> key x = k"
  by (auto simp: last_named_def find_Some_iff rev_nth)

lemma roll_plain: "roll cm f \<in> {StatusUp, StatusDown, StatusWarning, StatusUnknown}"
  by (auto simp: roll_def Let_def)

lemma exported_item_up:
  assumes "live w cfg co" "item_status (export_of w cfg self t co b) it = Some (s, since)"
    and "s \<notin> {StatusDown, StatusWarning, StatusUnknown}"
  shows "item_up cfg co it"
proof (cases "it_component it \<noteq> []")
  case True
  then obtain e where e: "last_named ce_component (components_page cfg co) (it_component it) = Some e" "s = ce_status e"
    using assms(2) by (auto simp: item_status_def export_of_def Let_def)
  then obtain cm where cm: "cm \<in> set (cc_components cfg)" "e = component_entry_of co cm" "comp_name cm = it_component it"
    using last_named_Some [OF e(1)] by (auto simp: components_page_def component_entry_of_def Let_def)
  have "ce_status e = roll cm (check_statuses co (comp_checks cm))" by (simp add: cm(2) component_entry_of_def Let_def)
  with e(2) assms(3) roll_plain [of cm "check_statuses co (comp_checks cm)"]
  have "roll cm (check_statuses co (comp_checks cm)) = StatusUp" by auto
  with True cm show ?thesis by (auto simp: item_up_def)
next
  case False
  then obtain e where e: "last_named se_check (map public_entry (status_page cfg t co)) (it_check it) = Some e"
    "s = (if se_stale e then StatusUnknown else se_status e)"
    using assms(2) by (auto simp: item_status_def export_of_def Let_def)
  then obtain chk where chk: "chk \<in> set (co_checks co)" "e = public_entry (status_entry_of cfg t co chk)"
    "se_check e = it_check it"
    using last_named_Some [OF e(1)] by (auto simp: status_page_def)
  have fields: "se_check e = c_name chk" "se_status e = (case map_of (co_states co) (c_name chk) of None \<Rightarrow> StatusUnknown | Some st \<Rightarrow> reported st)"
    by (simp_all add: chk(2) public_entry_def status_entry_of_def blank_entry_def Let_def split: option.splits)
  have pl: "plain (es_status (state_of (co_states co) (c_name chk)))"
    using live_plain [OF assms(1)] by (simp add: states_plain_def)
  obtain st where st: "map_of (co_states co) (c_name chk) = Some st"
    using fields e(2) assms(3) by (cases "map_of (co_states co) (c_name chk)") (auto split: if_splits)
  have "s = reported st" using fields st e(2) assms(3) by (auto split: if_splits)
  then have "es_status st = StatusUp \<and> \<not> es_stale st"
    using assms(3) pl st by (cases "es_status st") (auto simp: reported_def plain_def state_of_def split: if_splits)
  with False chk fields st show ?thesis by (auto simp: item_up_def)
qed

text \<open>
  What is signed as a document and reads as an export of the current version is an export of the running
  coordinator; \<open>log\<close> is what its key ever sealed.
\<close>

definition exports_only :: "export_doc codec \<Rightarrow> world \<Rightarrow> coord_config \<Rightarrow> string \<Rightarrow> bytes \<Rightarrow> (bytes \<times> domain \<times> bytes) set \<Rightarrow> bool" where
  "exports_only xcd w cfg self pub log \<longleftrightarrow>
     (\<forall>payload x. (pub, DomainDoc, payload) \<in> log \<longrightarrow> cd_decode xcd payload = Some x \<longrightarrow> ex_version x = 1 \<longrightarrow>
        (\<exists>t co b. live w cfg co \<and> x = export_of w cfg self t co b))"

lemma page_rests_on_coordinator:
  assumes "run_status cr ecd xcd file body now = Inr p"
    and "decode_public_key (sc_coordinator_key file) = Inr pub" "unforgeable cr [(sc_coordinator_name file, pub)] log"
    and "exports_only xcd w cfg self pub log"
  obtains page t co b where "load_page_config file = Inr page" "live w cfg co"
    "p = fst (build_page page (export_of w cfg self t co b) now)" "page_items page = page_items file"
proof -
  obtain page x where r: "load_page_config file = Inr page"
    "verify_export cr ecd xcd body (sc_coordinator_name page) (sc_coordinator_key page) = Inr x"
    "p = fst (build_page page x now)"
    using assms(1) by (rule run_status_Inr)
  note pg = load_page_config_Inr(1) [OF r(1)]
  then have same: "sc_coordinator_name page = sc_coordinator_name file" "sc_coordinator_key page = sc_coordinator_key file"
    "page_items page = page_items file" by (simp_all add: page_items_def)
  obtain env where v: "ev_peer env = sc_coordinator_name file"
    "ring_verify cr [(sc_coordinator_name file, pub)] DomainDoc env = None"
    "cd_decode xcd (ev_payload env) = Some x" "ex_version x = 1"
    using r(2) assms(2) unfolding same by (elim verify_export_Inr) auto
  from verified_was_sealed [OF assms(3) v(2)] v(1) have "(pub, DomainDoc, ev_payload env) \<in> log" by auto
  then have "\<exists>t co b. live w cfg co \<and> x = export_of w cfg self t co b"
    using assms(4) v(3,4) unfolding exports_only_def by blast
  with r same that show ?thesis by blast
qed

end
