(* ===== verification/Reports.thy ===== *)
theory Reports
  imports Publish Trust
begin

text \<open>
  What readers are told about the past and the present (\<open>internal/coordinator/uptime.go\<close>,
  \<open>notices.go\<close>, \<open>export.go\<close>, \<open>cmd/parallaxd-status\<close>): how uptime is counted and whose it is, what the
  page off the fleet can claim, and what becomes of operators' notices.
\<close>

section \<open>Uptime\<close>

text \<open>C37: every entry of the uptime report counts instants exactly: downtime is, summed over the outages of
  its check or component, the instants of the period in the outage and in no matching maintenance window
  (each repetition of a window included, overlaps once); maintenance the instants of outages inside one;
  and the share is one minus downtime over the length of the period, cut off at now.\<close>

theorem uptime_exact:
  assumes "u \<in> set (uptime_report parse cfg now d checks components lo hi)" "parse [] = None" "0 \<le> lo"
    and "hi - lo \<le> max_duration" "\<forall>m \<in> set (windows cfg d). window_ok parse hi m"
  shows "up_downtime u = (\<Sum>i\<leftarrow>filter (counts_for (up_subject u)) (dk_incidents d).
      int (card {t \<in> outage_instants lo (min hi now) i. \<not> excused parse (windows cfg d) (in_alert i) t})) \<and>
    up_maintenance u = (\<Sum>i\<leftarrow>filter (counts_for (up_subject u)) (dk_incidents d).
      int (card {t \<in> outage_instants lo (min hi now) i. excused parse (windows cfg d) (in_alert i) t})) \<and>
    up_ratio u = (if min hi now > lo then (max 0 (min hi now - lo - up_downtime u), min hi now - lo) else (1, 1))"
  using uptime_entries [OF _ assms(2-4,1)] assms(5) unfolding down_instants_def by blast

definition hourly :: "string \<Rightarrow> duration option" where
  "hourly s = (if s = ''1h'' then Some hour else None)"

definition patching :: maintenance where
  "patching = \<lparr>mt_name = ''patching'', mt_starts_at = 1500 * second, mt_ends_at = 1800 * second, mt_every = ''1h'',
     mt_checks = [''web''], mt_components = [], mt_probers = [], mt_comment = [], mt_source = [],
     mt_created_at = 0, mt_created_by = [], mt_updated_at = 0, mt_updated_by = []\<rparr>"

definition patched :: coord_config where "patched = config3\<lparr>dc_maintenance := [patching]\<rparr>"

definition patched_report :: "uptime list" where
  "patched_report = uptime_report hourly patched (6001 * second) (fst outage_run) [''web''] [] (1 * second) (6001 * second)"

lemma patched_report_value:
  "map up_downtime patched_report = [4400 * second]" "map up_ratio patched_report = [(1600 * second, 6000 * second)]"
  by code_simp+

theorem uptime_exact_witness:
  "(\<Sum>i\<leftarrow>filter (counts_for (up_subject (hd patched_report))) (dk_incidents (fst outage_run)).
      int (card {t \<in> outage_instants (1 * second) (6001 * second) i.
        \<not> excused hourly (windows patched (fst outage_run)) (in_alert i) t})) = 4400 * second"
proof -
  have v: "map up_downtime patched_report = [4400 * second]" by (rule patched_report_value)
  then obtain u where u: "patched_report = [u]" "up_downtime u = 4400 * second" by auto
  have ok: "\<forall>m \<in> set (windows patched (fst outage_run)). window_ok hourly (6001 * second) m" by code_simp
  have u': "u \<in> set (uptime_report hourly patched (6001 * second) (fst outage_run) [''web''] [] (1 * second) (6001 * second))"
    unfolding patched_report_def [symmetric] u(1) by simp
  have h: "hourly [] = None" "0 \<le> 1 * second" "6001 * second - 1 * second \<le> max_duration"
    "\<forall>m \<in> set (windows patched (fst outage_run)). window_ok hourly (6001 * second) m"
    using ok by (simp_all add: hourly_def second_def max_duration_def)
  have "hd patched_report = u" by (simp only: u(1) list.sel)
  with uptime_exact [OF u' h, THEN conjunct1] u(2) show ?thesis by simp
qed

text \<open>The documentation calls uptime the share of a period outside corroborated outages, for every check. The
  outages of a check that belongs to a component are recorded as incidents of the component only: in every
  state that a run under one configuration reaches from a fresh start, the entry of the check itself has no
  outage and no downtime, although the check may have been down (\<open>member_uptime_perfect_witness\<close>).
  Incidents from before the check joined the component do count.\<close>

theorem member_uptime_perfect:
  assumes "live w cfg co" "components_for cfg n \<noteq> []" "n \<noteq> []"
    and "u \<in> set (uptime_report parse cfg now co checks components lo hi)" "up_subject u = UptimeCheck n"
  shows "up_downtime u = 0 \<and> up_outages u = 0 \<and> fst (up_ratio u) = snd (up_ratio u)"
  by (rule member_uptime [OF assms])

definition grouped :: coord_config where
  "grouped = config3\<lparr>cc_components := [\<lparr>comp_name = ''site'', comp_description = [], comp_checks = [''web''],
     comp_down_if = RollupAny, comp_down_at = 0\<rparr>]\<rparr>"

definition grouped_run :: "coord \<times> event list \<times> (process_error + verdict)" where
  "grouped_run = process plain_world grouped (1000 * second) (1001 * second)
     (answering StatusDown (1000 * second)) (a_result ''ams'' StatusDown (1000 * second)) start"

definition grouped_report :: "uptime list" where
  "grouped_report = uptime_report hourly grouped (6001 * second) (fst grouped_run) [''web''] [''site''] (1 * second) (6001 * second)"

lemma grouped_live: "live plain_world grouped (fst grouped_run)"
  unfolding grouped_run_def start_def by (rule live.Go [OF live.Begin live_step.Result])

theorem member_uptime_perfect_witness:
  "es_status (state_of (co_states (fst grouped_run)) ''web'') = StatusDown \<and>
   map up_subject grouped_report = [UptimeCheck ''web'', UptimeComponent ''site''] \<and>
   up_downtime (hd grouped_report) = 0 \<and> up_downtime (grouped_report ! 1) = 5000 * second"
proof -
  have s: "map up_subject grouped_report = [UptimeCheck ''web'', UptimeComponent ''site'']" by code_simp
  then obtain u v where u: "grouped_report = [u, v]" "up_subject u = UptimeCheck ''web''" by auto
  have "u \<in> set (uptime_report hourly grouped (6001 * second) (fst grouped_run) [''web''] [''site''] (1 * second) (6001 * second))"
    unfolding grouped_report_def [symmetric] u(1) by simp
  from member_uptime_perfect [OF grouped_live _ _ this u(2)] have "up_downtime u = 0"
    by (simp add: grouped_def components_for_def)
  moreover have "es_status (state_of (co_states (fst grouped_run)) ''web'') = StatusDown" by code_simp
  moreover have "up_downtime (grouped_report ! 1) = 5000 * second" by code_simp
  moreover have "hd grouped_report = u" by (simp only: u(1) list.sel)
  ultimately show ?thesis using s by simp
qed

section \<open>The status page\<close>

text \<open>C36: when the page says that all systems are operational, then some state of the coordinator whose
  export was signed with the configured key, no older than the configured age, had every item the page
  lists up: a check decided up on results that are not stale, a component whose rule says up.\<close>

theorem operational_page_means_up:
  assumes "run_status cr ecd xcd file body now = Inr p" "pa_overall p = AllOperational"
    and "decode_public_key (sc_coordinator_key file) = Inr pub" "unforgeable cr [(sc_coordinator_name file, pub)] log"
    and "exports_only xcd w cfg self pub log"
  shows "\<exists>t co. live w cfg co \<and>
    sub_time now t \<le> (if sc_max_age file = 0 then 5 * minute else sc_max_age file) \<and>
    (\<forall>it \<in> set (page_items file). item_up cfg co it)"
proof -
  obtain page t co b where pg: "load_page_config file = Inr page" "live w cfg co"
    "p = fst (build_page page (export_of w cfg self t co b) now)" "page_items page = page_items file"
    using assms(1,3-5) by (rule page_rests_on_coordinator)
  from assms(2) have fresh: "sub_time now t \<le> sc_max_age page" and
    items: "\<forall>it \<in> set (page_items file). \<exists>s since. item_status (export_of w cfg self t co b) it = Some (s, since) \<and>
      s \<notin> {StatusDown, StatusWarning, StatusUnknown}"
    unfolding pg(3) all_operational pg(4) by (simp_all add: export_of_def Let_def)
  have "\<forall>it \<in> set (page_items file). item_up cfg co it"
    using items exported_item_up [OF pg(2)] by blast
  moreover have "sc_max_age page = (if sc_max_age file = 0 then 5 * minute else sc_max_age file)"
    using load_page_config_Inr(1) [OF pg(1)] by simp
  ultimately show ?thesis using pg(2) fresh by (intro exI [of _ t] exI [of _ co]) simp
qed

text \<open>An up report of the check, and the page made of its export.\<close>

definition up_run :: "coord \<times> event list \<times> (process_error + verdict)" where
  "up_run = process plain_world config3 (1000 * second) (1001 * second)
     (answering StatusUp (1000 * second)) (a_result ''ams'' StatusUp (1000 * second)) start"

lemma up_live: "live plain_world config3 (fst up_run)"
  unfolding up_run_def start_def by (rule live.Go [OF live.Begin live_step.Result])

definition no_notices :: notice_book where "no_notices = \<lparr>nb_notices = [], nb_next = 0\<rparr>"

definition up_export :: export_doc where
  "up_export = export_of plain_world config3 ''hub'' (1010 * second) (fst up_run) no_notices"

definition hub_public :: bytes where "hub_public = replicate 32 (CHR ''k'')"

lemma hub_key: "decode_public_key (encode_key hub_public) = Inr hub_public"
  unfolding key_text by (simp add: hub_public_def public_key_size_def)

definition hub_page :: page_config where
  "hub_page = \<lparr>sc_source = ''export.json'', sc_coordinator_name = ''hub'', sc_coordinator_key = encode_key hub_public,
     sc_output_dir = ''/srv'', sc_title = ''Status'', sc_logo = [], sc_max_age = 0,
     sc_groups = [\<lparr>pg_name = ''Web'', pg_items = [\<lparr>it_check = ''web'', it_component = [], it_label = []\<rparr>]\<rparr>]\<rparr>"

definition hub_signature :: "bytes \<Rightarrow> crypto" where
  "hub_signature payload = \<lparr>cr_sign = (\<lambda>_ m. m),
     cr_verify = (\<lambda>pub m sig. pub = hub_public \<and> m = signed_bytes DomainDoc payload \<and> sig = ''ok'')\<rparr>"

definition hub_envelope :: envelope where
  "hub_envelope = \<lparr>ev_peer = ''hub'', ev_payload = ''export'', ev_signature = ''ok''\<rparr>"

lemma key_not_empty: "encode_key hub_public \<noteq> []"
proof
  assume "encode_key hub_public = []"
  moreover have "decode_public_key [] \<noteq> Inr hub_public" by code_simp
  ultimately show False using hub_key by simp
qed

lemma hub_config: "load_page_config hub_page = Inr (hub_page\<lparr>sc_max_age := 5 * minute\<rparr>)"
  using key_not_empty by (simp add: load_page_config_def hub_page_def check_group_def check_item_def)

definition up_page :: page where
  "up_page = fst (build_page (hub_page\<lparr>sc_max_age := 5 * minute\<rparr>) up_export (1020 * second))"

lemma up_page_run:
  "run_status (hub_signature ''export'') (only ''body'' hub_envelope) (only ''export'' up_export) hub_page ''body'' (1020 * second) = Inr up_page"
proof -
  have "ex_version up_export = 1" by (simp add: up_export_def export_of_def export_version_def Let_def)
  moreover have "keyring_add [] ''hub'' hub_public = Inr [(''hub'', hub_public)]"
    by (simp add: keyring_add_def hub_public_def public_key_size_def)
  moreover have "sc_coordinator_name (hub_page\<lparr>sc_max_age := a\<rparr>) = ''hub''"
    "sc_coordinator_key (hub_page\<lparr>sc_max_age := a\<rparr>) = encode_key hub_public" for a
    by (simp_all add: hub_page_def)
  ultimately show ?thesis
    by (simp add: run_status_def hub_config read_export_def verify_export_def hub_key only_def hub_envelope_def
        open_document_def ring_verify_def max_payload_bytes_def hub_signature_def max_export_bytes_def up_page_def Let_def)
qed

lemma up_page_overall: "pa_overall up_page = AllOperational"
proof -
  have "item_status up_export \<lparr>it_check = ''web'', it_component = [], it_label = []\<rparr> = Some (StatusUp, 1001 * second)"
    by code_simp
  moreover have "ex_generated_at up_export = 1010 * second" by (simp add: up_export_def export_of_def Let_def)
  ultimately show ?thesis
    by (simp add: up_page_def all_operational page_items_def hub_page_def sub_time_def max_duration_def min_duration_def
        minute_def second_def)
qed

theorem operational_page_means_up_witness:
  "\<exists>co. live plain_world config3 co \<and> item_up config3 co \<lparr>it_check = ''web'', it_component = [], it_label = []\<rparr>"
proof -
  have key: "decode_public_key (sc_coordinator_key hub_page) = Inr hub_public" by (simp add: hub_page_def hub_key)
  have log: "unforgeable (hub_signature ''export'') [(sc_coordinator_name hub_page, hub_public)] {(hub_public, DomainDoc, ''export'')}"
    by (auto simp: unforgeable_def hub_signature_def)
  have ex: "exports_only (only ''export'' up_export) plain_world config3 ''hub'' hub_public {(hub_public, DomainDoc, ''export'')}"
    using up_live by (auto simp: exports_only_def only_def up_export_def)
  from operational_page_means_up [OF up_page_run up_page_overall key log ex]
  show ?thesis by (auto simp: page_items_def hub_page_def)
qed

text \<open>A signed export within the size limits is what the page is made of: a correctly configured
  renderer accepts it unchanged, whatever the coordinator's state was.\<close>

theorem export_page_shown:
  assumes "signed_export cr xcd key w cfg self t co b = Inr env" "cd_encode ecd env = Some body"
    and "faithful ecd" "faithful xcd" "key_pair cr key pub"
    and "decode_public_key (sc_coordinator_key file) = Inr pub" "sc_coordinator_name file = self"
    and "load_page_config file = Inr page"
    and "length body \<le> max_export_bytes" "int (length (ev_payload env)) \<le> max_payload_bytes"
  shows "run_status cr ecd xcd file body now = Inr (fst (build_page page (export_of w cfg self t co b) now))"
proof -
  have "ex_version (export_of w cfg self t co b) = 1" by (simp add: export_of_def export_version_def Let_def)
  from genuine_export_shown [OF assms(1) [unfolded signed_export_def] assms(2-10) this] show ?thesis .
qed

definition hub_sealed :: "bytes \<Rightarrow> envelope" where
  "hub_sealed payload = \<lparr>ev_peer = ''hub'', ev_payload = payload, ev_signature = signed_bytes DomainDoc payload\<rparr>"

lemma hub_seals:
  "signed_export open_signature (only payload up_export) (replicate 64 (CHR ''k'')) plain_world config3 ''hub'' (1010 * second)
     (fst up_run) no_notices = Inr (hub_sealed payload)"
  by (simp add: signed_export_def sign_document_def seal_def only_def up_export_def [symmetric] private_key_size_def
      hub_sealed_def open_signature_def)

lemma hub_pair: "key_pair open_signature (replicate 64 (CHR ''k'')) hub_public"
  by (simp add: key_pair_def private_key_size_def open_signature_def)

theorem export_page_shown_witness:
  "run_status open_signature (only ''body'' (hub_sealed ''export'')) (only ''export'' up_export) hub_page ''body'' (1020 * second) =
     Inr up_page \<and> pa_overall up_page = AllOperational"
proof -
  have enc: "cd_encode (only ''body'' (hub_sealed ''export'')) (hub_sealed ''export'') = Some ''body''"
    by (simp add: only_def)
  have conf: "decode_public_key (sc_coordinator_key hub_page) = Inr hub_public" "sc_coordinator_name hub_page = ''hub''"
    by (simp_all add: hub_page_def hub_key)
  have size: "length ''body'' \<le> max_export_bytes" "int (length (ev_payload (hub_sealed ''export''))) \<le> max_payload_bytes"
    by (simp_all add: max_export_bytes_def max_payload_bytes_def hub_sealed_def)
  from export_page_shown [OF hub_seals enc only_faithful only_faithful hub_pair conf hub_config size, of "1020 * second"]
  show ?thesis using up_page_overall unfolding up_page_def up_export_def [symmetric] by blast
qed

text \<open>An export the coordinator signs without complaint, and which fits the renderer's own limit of a
  mebibyte, is refused by the renderer once its payload is longer than 65536 bytes, although the notices
  alone may carry twice as much text: the page is never replaced again until the export shrinks.\<close>

theorem large_export_refused:
  assumes "signed_export cr xcd key w cfg self t co b = Inr env" "cd_encode ecd env = Some body" "faithful ecd"
    and "decode_public_key (sc_coordinator_key file) = Inr pub" "sc_coordinator_name file = self"
    and "load_page_config file = Inr page"
    and "length body \<le> max_export_bytes" "max_payload_bytes < int (length (ev_payload env))"
  shows "run_status cr ecd xcd file body now = Inl (PageWire ErrPayloadTooLarge)"
  by (rule oversized_export_refused [OF assms(1) [unfolded signed_export_def] assms(2-8)])

theorem large_export_refused_witness:
  "run_status open_signature (only ''body'' (hub_sealed (replicate 70000 (CHR ''n'')))) (only (replicate 70000 (CHR ''n'')) up_export)
     hub_page ''body'' (1020 * second) = Inl (PageWire ErrPayloadTooLarge) \<and>
   (70000 :: int) < max_export_text"
proof -
  let ?big = "replicate 70000 (CHR ''n'')"
  have enc: "cd_encode (only ''body'' (hub_sealed ?big)) (hub_sealed ?big) = Some ''body''" by (simp add: only_def)
  have conf: "decode_public_key (sc_coordinator_key hub_page) = Inr hub_public" "sc_coordinator_name hub_page = ''hub''"
    by (simp_all add: hub_page_def hub_key)
  have size: "length ''body'' \<le> max_export_bytes" "max_payload_bytes < int (length (ev_payload (hub_sealed ?big)))"
    by (simp_all add: max_export_bytes_def max_payload_bytes_def hub_sealed_def)
  from large_export_refused [OF hub_seals enc only_faithful conf hub_config size, of "1020 * second"]
  show ?thesis by (simp add: max_export_text_def)
qed

text \<open>What of the notices leaves the fleet is bounded and public: at most twenty notices with at most
  128 KiB of text, each made of a public notice that is open or was resolved within a week, with its
  newest updates, ten at most, and without the names of operators.\<close>

theorem exported_notices_bounded:
  "length (export_notices ns now) \<le> 20 \<and> notices_text (export_notices ns now) \<le> 131072 \<and>
   set (export_notices ns now) \<subseteq> {exported_notice n (map exported_update (take k (rev (no_updates n)))) | n k.
     n \<in> set ns \<and> k \<le> 10 \<and> no_public n \<and> (notice_open n \<or> sub_time now (no_resolved_at n) \<le> 168 * hour)}"
proof (intro conjI subsetI CollectI)
  show "length (export_notices ns now) \<le> 20" "notices_text (export_notices ns now) \<le> 131072"
    using export_notices_bounded(1,2) [of ns now] by (simp_all add: max_export_notices_def max_export_text_def)
  fix e assume "e \<in> set (export_notices ns now)"
  then obtain n k where "n \<in> set ns" "k \<le> max_export_updates" "published_notice now n"
    "e = exported_notice n (map exported_update (take k (rev (no_updates n))))"
    using export_notices_bounded(3) [of e ns now] unfolding exported_from_def by blast
  then show "\<exists>n k. e = exported_notice n (map exported_update (take k (rev (no_updates n)))) \<and> n \<in> set ns \<and> k \<le> 10 \<and>
      no_public n \<and> (notice_open n \<or> sub_time now (no_resolved_at n) \<le> 168 * hour)"
    by (intro exI [of _ n] exI [of _ k]) (auto simp: max_export_updates_def published_notice_def export_notice_window_def)
qed

section \<open>Notices\<close>

text \<open>C38: whatever requests reach the book, and however edits interleave with them, every stored notice has
  a title, between one and a hundred updates of which the last is its state, states of its kind only, a
  resolution time exactly in the closing state of its kind, and for maintenance an interval; numbers are
  unique and ascending, and there are at most five hundred notices.\<close>

theorem notices_stay_sound:
  assumes "book_run k b es"
  shows "notices_ok b"
  using book_run_ok [OF assms] by blast

definition everything :: catalogue where
  "everything = \<lparr>k_checks = [''web''], k_components = [], k_probers = []\<rparr>"

definition outage_notice :: notice where
  "outage_notice = \<lparr>no_id = 0, no_kind = ''incident'', no_title = ''Outage'', no_state = [], no_public = True, no_checks = [''web''],
     no_components = [], no_starts_at = zero_time, no_ends_at = zero_time, no_updates = [], no_created_at = zero_time,
     no_created_by = [], no_updated_at = zero_time, no_updated_by = [], no_resolved_at = zero_time\<rparr>"

definition book1 :: notice_book where
  "book1 = fst (create_notice everything 10 outage_notice ''we are looking'' ''ann'' \<lparr>nb_notices = [], nb_next = 0\<rparr>)"

definition book2 :: notice_book where
  "book2 = fst (post_notice_update 20 1 ''resolved'' ''fixed'' ''bob'' book1)"

theorem notices_stay_sound_witness: "notices_ok book2 \<and> map no_state (nb_notices book2) = [''resolved'']"
proof
  show "notices_ok book2"
    unfolding book2_def book1_def
    by (rule notices_stay_sound [OF book_run.Post [OF book_run.Create [OF book_run.Empty, where k = everything]]]) simp_all
  show "map no_state (nb_notices book2) = [''resolved'']" by code_simp
qed

text \<open>An edit that was validated before somebody posted an update, and is stored after it, loses
  neither: the stored notice has the edited title and visibility and the posted timeline, state and
  resolution time.\<close>

theorem edit_keeps_posted_update:
  assumes "notice_named i b = Some old" "edited_notice k t edit who old = Inr e"
    and "post_notice_update now i st message actor b = (b1, Inr posted)"
  shows "\<exists>b2 m. store_edit i e b1 = (b2, Inr m) \<and> notice_named i b2 = Some m \<and>
    no_title m = trim_space (no_title edit) \<and> no_public m = no_public edit \<and>
    no_updates m = no_updates posted \<and> no_state m = no_state posted \<and> no_resolved_at m = no_resolved_at posted"
proof -
  obtain b2 where b2: "store_edit i e b1 = (b2, Inr (merged_edit e posted))" "notice_named i b2 = Some (merged_edit e posted)"
    using edit_keeps_post [OF assms] by blast
  have "no_title e = trim_space (no_title edit)" "no_public e = no_public edit"
    using assms(2) by (auto simp: edited_notice_def Let_def split: option.splits)
  with b2 show ?thesis by (intro exI [of _ b2] exI [of _ "merged_edit e posted"]) (simp add: merged_edit_def)
qed

definition renamed :: "notice_error + notice" where
  "renamed = edited_notice everything 15 (outage_notice\<lparr>no_title := ''Major outage''\<rparr>) ''eve'' (hd (nb_notices book1))"

theorem edit_keeps_posted_update_witness:
  "\<exists>e m. renamed = Inr e \<and> snd (store_edit 1 e book2) = Inr m \<and> no_title m = ''Major outage'' \<and> no_state m = ''resolved''"
proof -
  have old: "notice_named 1 book1 = Some (hd (nb_notices book1))" by code_simp
  have "case renamed of Inl x \<Rightarrow> False | Inr e \<Rightarrow> True" by code_simp
  then obtain e where e: "renamed = Inr e" by (simp split: sum.splits)
  have "case snd (post_notice_update 20 1 ''resolved'' ''fixed'' ''bob'' book1) of Inl x \<Rightarrow> False | Inr m \<Rightarrow> no_state m = ''resolved''"
    by code_simp
  then obtain posted where p: "post_notice_update 20 1 ''resolved'' ''fixed'' ''bob'' book1 = (book2, Inr posted)"
    "no_state posted = ''resolved''"
    by (cases "post_notice_update 20 1 ''resolved'' ''fixed'' ''bob'' book1") (auto simp: book2_def split: sum.splits)
  have "trim_space ''Major outage'' = ''Major outage''" by code_simp
  with edit_keeps_posted_update [OF old e [unfolded renamed_def] p(1)] p(2) e show ?thesis by auto
qed

end
