(* ===== verification/Hosts.thy ===== *)
theory Hosts
  imports Check
begin

text \<open>
  Host metrics from Prometheus (\<open>internal/coordinator/prometheus.go\<close>): the sources a configuration
  may name, the queries sent to one, what is read of the answers, and the cache. Parsing a URL or a JSON
  document, quoting a label and reading a number are parameters; a number is a value of an ordered ring
  \<open>'f\<close>, for the finite floating-point numbers.
\<close>

section \<open>Sources\<close>

record prometheus_url =
  pu_scheme :: string
  pu_host :: string
  pu_has_user :: bool
  pu_path :: string
  pu_query :: string
  pu_fragment :: string

record prometheus_source =
  ps_name :: string
  ps_url :: string
  ps_match_labels :: "(string \<times> string) list"
  ps_allow_insecure :: bool

record prometheus_runtime =
  pm_name :: string
  pm_base :: prometheus_url
  pm_labels :: "(string \<times> string) list"

datatype prometheus_error = SourceName string | DuplicateSource string | SourceURL string | SourceURLParts string
  | SourceInsecure string | SourceLabels string | SourceLabel string string

definition ascii_letter :: "char \<Rightarrow> bool" where
  "ascii_letter c \<longleftrightarrow> ascii_alnum c \<and> (of_char c :: nat) > 57"

fun valid_identifier :: "string \<Rightarrow> bool" where
  "valid_identifier [] = False"
| "valid_identifier (c # cs) \<longleftrightarrow> length (c # cs) \<le> 64 \<and> ascii_letter c \<and>
     list_all (\<lambda>c. ascii_alnum c \<or> c \<in> set ''._-'') cs"

fun valid_label_name :: "string \<Rightarrow> bool" where
  "valid_label_name [] = False"
| "valid_label_name (c # cs) \<longleftrightarrow> (ascii_letter c \<or> c = CHR ''_'') \<and> list_all (\<lambda>c. ascii_alnum c \<or> c = CHR ''_'') cs"

definition trim_slashes :: "string \<Rightarrow> string" where
  "trim_slashes s = rev (dropWhile (\<lambda>c. c = CHR ''/'') (rev s))"

fun valid_labels :: "string \<Rightarrow> (string \<times> string) list \<Rightarrow> prometheus_error option" where
  "valid_labels name [] = None"
| "valid_labels name ((k, v) # ls) =
     (if \<not> valid_label_name k \<or> blank v then Some (SourceLabel name k) else valid_labels name ls)"

definition prepare_source :: "(string \<Rightarrow> prometheus_url option) \<Rightarrow> string list \<Rightarrow> prometheus_source \<Rightarrow>
    prometheus_error + prometheus_runtime" where
  "prepare_source parse seen s =
     (let name = trim_space (ps_name s) in
      if name = [] \<or> \<not> valid_identifier name then Inl (SourceName (ps_name s))
      else if List.member seen name then Inl (DuplicateSource name)
      else case parse (ps_url s) of None \<Rightarrow> Inl (SourceURL name) | Some u \<Rightarrow>
        if pu_host u = [] \<or> pu_scheme u \<noteq> ''https'' \<and> pu_scheme u \<noteq> ''http'' then Inl (SourceURL name)
        else if pu_has_user u \<or> pu_query u \<noteq> [] \<or> pu_fragment u \<noteq> [] then Inl (SourceURLParts name)
        else if pu_scheme u = ''http'' \<and> \<not> ps_allow_insecure s then Inl (SourceInsecure name)
        else if ps_match_labels s = [] then Inl (SourceLabels name)
        else case valid_labels name (ps_match_labels s) of Some e \<Rightarrow> Inl e
        | None \<Rightarrow> Inr \<lparr>pm_name = name, pm_base = u\<lparr>pu_path := trim_slashes (pu_path u)\<rparr>, pm_labels = ps_match_labels s\<rparr>)"

fun prepare_loop :: "(string \<Rightarrow> prometheus_url option) \<Rightarrow> string list \<Rightarrow> prometheus_source list \<Rightarrow>
    prometheus_error + prometheus_runtime list" where
  "prepare_loop parse seen [] = Inr []"
| "prepare_loop parse seen (s # ss) =
     (case prepare_source parse seen s of Inl e \<Rightarrow> Inl e
      | Inr r \<Rightarrow> map_sum id ((#) r) (prepare_loop parse (pm_name r # seen) ss))"

definition prepare_prometheus_sources :: "(string \<Rightarrow> prometheus_url option) \<Rightarrow> prometheus_source list \<Rightarrow>
    prometheus_error + prometheus_runtime list" where
  "prepare_prometheus_sources parse ss = map_sum id (sort_key pm_name) (prepare_loop parse [] ss)"

section \<open>Queries\<close>

definition selector :: "(string \<Rightarrow> string) \<Rightarrow> prometheus_runtime \<Rightarrow> string list \<Rightarrow> string" where
  "selector quote_text p extra =
     ''{'' @ join '','' (sort (map (\<lambda>(k, v). k @ ''='' @ quote_text v) (pm_labels p) @ extra)) @ ''}''"

record sample =
  sm_metric :: "(string \<times> string) list"
  sm_value :: "string list"

record prometheus_response =
  rs_status :: string
  rs_error_type :: string
  rs_error :: string
  rs_result_type :: string
  rs_result :: "sample list"

datatype query_error = QueryFailed string | QueryStatus int | QueryRead | QueryTooLarge | QueryDecode
  | QueryRejected string string | QueryType string | TooManySeries | TooManyHosts

definition max_prometheus_response :: nat where "max_prometheus_response = 2 * 1024 * 1024"
definition max_prometheus_hosts :: nat where "max_prometheus_hosts = 1000"

definition metric_label :: "sample \<Rightarrow> string \<Rightarrow> string" where
  "metric_label s k = (case map_of (sm_metric s) k of None \<Rightarrow> [] | Some v \<Rightarrow> v)"

definition keep_sample :: "(string \<times> sample) list \<Rightarrow> sample \<Rightarrow> (string \<times> sample) list" where
  "keep_sample out s = (if metric_label s ''instance'' \<noteq> [] then AList.update (metric_label s ''instance'') s out else out)"

text \<open>What came back: an error of the client, or a status and the body, \<open>None\<close> when reading it failed.\<close>

definition query :: "(bytes \<Rightarrow> prometheus_response option) \<Rightarrow> string + int \<times> bytes option \<Rightarrow>
    query_error + (string \<times> sample) list" where
  "query decode answer =
     (case answer of Inl e \<Rightarrow> Inl (QueryFailed e) | Inr (code, body) \<Rightarrow>
      if code div 100 \<noteq> 2 then Inl (QueryStatus code)
      else case body of None \<Rightarrow> Inl QueryRead | Some raw \<Rightarrow>
        let raw = take (max_prometheus_response + 1) raw in
        if length raw > max_prometheus_response then Inl QueryTooLarge
        else case decode raw of None \<Rightarrow> Inl QueryDecode | Some d \<Rightarrow>
          if rs_status d \<noteq> ''success'' then Inl (QueryRejected (rs_error_type d) (rs_error d))
          else if rs_result_type d \<noteq> ''vector'' then Inl (QueryType (rs_result_type d))
          else if length (rs_result d) > max_prometheus_hosts then Inl TooManySeries
          else Inr (foldl keep_sample [] (rs_result d)))"

text \<open>\<open>number\<close> reads a finite number out of the raw JSON value.\<close>

definition sample_float :: "(string \<Rightarrow> 'f option) \<Rightarrow> sample option \<Rightarrow> 'f option" where
  "sample_float number s =
     (case s of None \<Rightarrow> None | Some s \<Rightarrow> if length (sm_value s) \<noteq> 2 then None else number (sm_value s ! 1))"

definition clamp_percent :: "'f :: linordered_idom option \<Rightarrow> 'f option" where
  "clamp_percent v = map_option (\<lambda>v. max 0 (min 100 v)) v"

section \<open>Hosts\<close>

record 'f host_metrics =
  hm_instance :: string
  hm_hostname :: string
  hm_up :: "bool option"
  hm_cpu :: "'f option"
  hm_memory :: "'f option"
  hm_filesystem :: "'f option"
  hm_load :: "'f option"
  hm_uptime :: "'f option"

definition query_names :: "string list" where
  "query_names = [''up'', ''identity'', ''cpu'', ''memory'', ''filesystem'', ''load'', ''uptime'']"

definition queries :: "(string \<Rightarrow> string) \<Rightarrow> prometheus_runtime \<Rightarrow> (string \<times> string) list" where
  "queries quote_text p =
     (let sel = selector quote_text p [];
          fs = selector quote_text p
            [''fstype!~\"autofs|binfmt_misc|cgroup2?|configfs|debugfs|devpts|devtmpfs|fusectl|overlay|proc|procfs|pstore|securityfs|squashfs|sysfs|tmpfs|tracefs\"'',
             ''mountpoint!~\"/run($|/)|/var/lib/(docker|containers)($|/)\"'']
      in [(''up'', ''max by(instance) (up'' @ sel @ '')''),
          (''identity'', ''node_uname_info'' @ sel),
          (''cpu'', ''100 * (1 - avg by(instance) (rate(node_cpu_seconds_total'' @
             selector quote_text p [''mode=\"idle\"''] @ ''[5m])))''),
          (''memory'', ''100 * (1 - node_memory_MemAvailable_bytes'' @ sel @ '' / node_memory_MemTotal_bytes'' @ sel @ '')''),
          (''filesystem'', ''max by(instance) (100 * (1 - node_filesystem_avail_bytes'' @ fs @
             '' / node_filesystem_size_bytes'' @ fs @ ''))''),
          (''load'', ''node_load1'' @ sel),
          (''uptime'', ''time() - node_boot_time_seconds'' @ sel)])"

definition host_of :: "(string \<Rightarrow> 'f :: linordered_idom option) \<Rightarrow> (string \<Rightarrow> (string \<times> sample) list) \<Rightarrow> string \<Rightarrow>
    'f host_metrics" where
  "host_of number results i =
     (let at = (\<lambda>q. map_of (results q) i); value_at = (\<lambda>q. sample_float number (at q)) in
      \<lparr>hm_instance = i,
       hm_hostname = (case at ''identity'' of None \<Rightarrow> [] | Some s \<Rightarrow> metric_label s ''nodename''),
       hm_up = map_option (\<lambda>v. v = 1) (value_at ''up''),
       hm_cpu = clamp_percent (value_at ''cpu''),
       hm_memory = clamp_percent (value_at ''memory''),
       hm_filesystem = clamp_percent (value_at ''filesystem''),
       hm_load = value_at ''load'', hm_uptime = value_at ''uptime''\<rparr>)"

definition display_name :: "'f host_metrics \<Rightarrow> string" where
  "display_name h = (if hm_hostname h = [] then hm_instance h else hm_hostname h)"

text \<open>The queries run concurrently; \<open>finished\<close> is the order in which they ended, which decides the error
  that is returned.\<close>

definition hosts :: "(string \<Rightarrow> 'f :: linordered_idom option) \<Rightarrow> string list \<Rightarrow>
    (string \<Rightarrow> query_error + (string \<times> sample) list) \<Rightarrow> query_error + 'f host_metrics list" where
  "hosts number finished result =
     (case find (\<lambda>q. isl (result q)) finished of
        Some q \<Rightarrow> Inl (projl (result q))
      | None \<Rightarrow>
          (let results = (\<lambda>q. projr (result q));
               instances = remdups (concat (map (\<lambda>q. map fst (results q)) query_names))
           in if length instances > max_prometheus_hosts then Inl TooManyHosts
              else Inr (sort_key display_name (map (host_of number results) instances))))"

section \<open>The cache\<close>

definition host_metrics_cache_ttl :: duration where "host_metrics_cache_ttl = 15 * second"

text \<open>The time of the last answer and the answer; no entry before the first one.\<close>

type_synonym 'f prometheus_cache = "(time \<times> (query_error + 'f host_metrics list)) option"

text \<open>\<open>cancelled\<close>: the request ended while the queries ran, until \<open>later\<close>; then nothing is kept, and the
  hosts are dropped even if the queries succeeded.\<close>

definition cached_hosts :: "time \<Rightarrow> time \<Rightarrow> bool \<Rightarrow> query_error + 'f host_metrics list \<Rightarrow> 'f prometheus_cache \<Rightarrow>
    'f prometheus_cache \<times> (query_error + 'f host_metrics list)" where
  "cached_hosts now later cancelled fresh cache =
     (let ask = (if cancelled then (cache, map_sum id (\<lambda>_. []) fresh) else (Some (later, fresh), fresh)) in
      case cache of
        Some (at, held) \<Rightarrow> if sub_time now at < host_metrics_cache_ttl then (cache, held) else ask
      | None \<Rightarrow> ask)"

record 'f host_metrics_source =
  hs_name :: string
  hs_hosts :: "'f host_metrics list"
  hs_error :: string

definition handle_host_metrics :: "(string \<times> (query_error + 'f host_metrics list)) list \<Rightarrow>
    'f host_metrics_source list" where
  "handle_host_metrics answers =
     map (\<lambda>(n, a). case a of
        Inl _ \<Rightarrow> \<lparr>hs_name = n, hs_hosts = [], hs_error = ''metrics source unavailable''\<rparr>
      | Inr hs \<Rightarrow> \<lparr>hs_name = n, hs_hosts = hs, hs_error = []\<rparr>) answers"

section \<open>What holds of sources and hosts\<close>

lemma valid_labels_None:
  "valid_labels n ls = None \<longleftrightarrow> (\<forall>(k, v) \<in> set ls. valid_label_name k \<and> \<not> blank v)"
  by (induction n ls rule: valid_labels.induct) auto

text \<open>An accepted source: an identifier for a name, an absolute URL without secrets in it, plain HTTP only
  when it was asked for, and at least one label to match.\<close>

definition source_ok :: "prometheus_source \<Rightarrow> prometheus_runtime \<Rightarrow> bool" where
  "source_ok s r \<longleftrightarrow> pm_name r = trim_space (ps_name s) \<and> valid_identifier (pm_name r) \<and> pu_host (pm_base r) \<noteq> [] \<and>
     (pu_scheme (pm_base r) = ''https'' \<or> pu_scheme (pm_base r) = ''http'' \<and> ps_allow_insecure s) \<and>
     \<not> pu_has_user (pm_base r) \<and> pm_labels r = ps_match_labels s \<and> pm_labels r \<noteq> [] \<and>
     (\<forall>(k, v) \<in> set (pm_labels r). valid_label_name k \<and> \<not> blank v)"

lemma prepare_source_Inr:
  "prepare_source parse seen s = Inr r \<Longrightarrow> source_ok s r \<and> pm_name r \<notin> set seen"
  by (auto simp: prepare_source_def source_ok_def Let_def valid_labels_None split: if_splits option.splits)

lemma prepare_loop_Inr:
  "prepare_loop parse seen ss = Inr rs \<Longrightarrow>
   list_all2 source_ok ss rs \<and> distinct (map pm_name rs) \<and> set (map pm_name rs) \<inter> set seen = {}"
proof (induction parse seen ss arbitrary: rs rule: prepare_loop.induct)
  case (2 parse seen s ss)
  then obtain r rs' where r: "prepare_source parse seen s = Inr r" "rs = r # rs'"
    "prepare_loop parse (pm_name r # seen) ss = Inr rs'"
    by (cases "prepare_source parse seen s"; cases "prepare_loop parse (pm_name (projr (prepare_source parse seen s)) # seen) ss") auto
  show ?case using "2.IH" [OF r(1) r(3)] prepare_source_Inr [OF r(1)] r(2) by auto
qed simp

lemma prepared_sources:
  assumes "prepare_prometheus_sources parse ss = Inr rs"
  shows "distinct (map pm_name rs)" "sorted (map pm_name rs)" "\<forall>r \<in> set rs. \<exists>s \<in> set ss. source_ok s r"
proof -
  obtain rs' where rs: "prepare_loop parse [] ss = Inr rs'" "rs = sort_key pm_name rs'"
    using assms by (cases "prepare_loop parse [] ss") (auto simp: prepare_prometheus_sources_def)
  note p = prepare_loop_Inr [OF rs(1)]
  show "distinct (map pm_name rs)"
    using p rs(2) by (metis mset_map mset_sort mset_eq_imp_distinct_iff)
  show "sorted (map pm_name rs)" by (simp add: rs(2))
  show "\<forall>r \<in> set rs. \<exists>s \<in> set ss. source_ok s r"
    using p by (auto simp: rs(2) list_all2_conv_all_nth in_set_conv_nth) (metis nth_mem)
qed

definition percent_ok :: "'f :: linordered_idom option \<Rightarrow> bool" where
  "percent_ok v = (case v of None \<Rightarrow> True | Some x \<Rightarrow> 0 \<le> x \<and> x \<le> 100)"

lemma clamp_percent_ok [simp]: "percent_ok (clamp_percent v)"
  by (cases v) (simp_all add: clamp_percent_def percent_ok_def)

lemma host_of_instance [simp]: "hm_instance (host_of number results i) = i"
  by (simp add: host_of_def Let_def)

lemma hosts_Inr:
  assumes "hosts number finished result = Inr hs"
  shows "length hs \<le> max_prometheus_hosts" "distinct (map hm_instance hs)" "sorted (map display_name hs)"
    "\<forall>h \<in> set hs. percent_ok (hm_cpu h) \<and> percent_ok (hm_memory h) \<and> percent_ok (hm_filesystem h)"
    "hm_instance ` set hs = (\<Union>q \<in> set query_names. fst ` set (projr (result q)))"
proof -
  define insts where "insts = remdups (concat (map (\<lambda>q. map fst (projr (result q))) query_names))"
  let ?f = "host_of number (\<lambda>q. projr (result q))"
  have hs: "length insts \<le> max_prometheus_hosts" "hs = sort_key display_name (map ?f insts)"
    using assms by (auto simp: hosts_def insts_def Let_def split: option.splits if_splits)
  show "length hs \<le> max_prometheus_hosts" using hs by simp
  have "mset (map hm_instance hs) = mset insts" by (simp add: hs(2) multiset.map_comp comp_def)
  moreover have "distinct insts" by (simp add: insts_def)
  ultimately show "distinct (map hm_instance hs)" by (metis mset_eq_imp_distinct_iff)
  show "sorted (map display_name hs)" by (simp add: hs(2))
  show "\<forall>h \<in> set hs. percent_ok (hm_cpu h) \<and> percent_ok (hm_memory h) \<and> percent_ok (hm_filesystem h)"
    by (simp add: hs(2) host_of_def Let_def)
  show "hm_instance ` set hs = (\<Union>q \<in> set query_names. fst ` set (projr (result q)))"
    by (simp add: hs(2) insts_def image_image)
qed

text \<open>Within fifteen seconds of an answer nobody asks Prometheus again: what would come back is not read.\<close>

lemma cached_within_ttl:
  assumes "cached_hosts t0 t1 False fresh cache = (cache', answer)" "sub_time t2 t1 < host_metrics_cache_ttl"
    "cache = None"
  shows "cached_hosts t2 t3 cancelled other cache' = (cache', answer)"
  using assms by (auto simp: cached_hosts_def Let_def)

end
