(* ===== verification/Catalog.thy ===== *)
theory Catalog
  imports Coordinator Accounts Hosts
begin

text \<open>
  The catalogue of monitors (\<open>internal/coordinator/catalog.go\<close>): monitors as operators write them, their
  conversion to checks, the validation of a whole catalogue, its revisions, and the handlers. A handler
  holds the catalogue's mutex from its first read to its last write, so it is one step; what writing
  the state file answered is an argument.
\<close>

section \<open>Configuration\<close>

record ha_config =
  ha_role :: string
  ha_primary_url :: string
  ha_token :: string
  ha_interval :: duration
  ha_timeout :: duration

text \<open>The fields of \<open>Config\<close> that \<open>New\<close> and the catalogue read. The catalogue works on an accepted
  configuration, whose probers \<open>New\<close> has sorted by name.\<close>

record configuration =
  su_name :: string
  su_key :: bytes
  su_peers :: "peer list"
  su_checks :: "check list"
  su_components :: "component list"
  su_maintenance :: "maintenance list"
  su_destinations :: "destination list"
  su_routes :: "route list"
  su_escalations :: "escalation_policy list"
  su_retry_initial :: duration
  su_retry_max :: duration
  su_retry_interval :: duration
  su_fan_out_timeout :: duration
  su_request_ttl :: duration
  su_result_max_age :: duration
  su_max_fan_outs :: int
  su_max_pending :: int
  su_session_ttl :: duration
  su_history :: history_config
  su_ha :: ha_config
  su_oidc :: oidc_config
  su_state_file :: string
  su_history_file :: string
  su_prometheus :: "prometheus_source list"
  su_skip_restore :: bool
  su_stale_multiplier :: int
  su_stale_grace :: duration
  su_mesh_max_age :: duration
  su_mesh_min_peers :: int
  su_heartbeat_interval :: duration

definition minimum_fan_out_overhead :: duration where "minimum_fan_out_overhead = second"

definition validate_notifications :: "configuration \<Rightarrow> string list \<Rightarrow> notify_error option" where
  "validate_notifications cfg checks =
     (if su_retry_initial cfg < 0 \<or> su_retry_max cfg < 0 \<or> su_retry_interval cfg < 0 then Some NegativeRetry
      else
        let initial = (if su_retry_initial cfg = 0 then default_retry_initial else su_retry_initial cfg);
            maximum = (if su_retry_max cfg = 0 then default_retry_max else su_retry_max cfg)
        in if maximum < initial then Some RetryMaxTooShort
        else case known_destinations [''default''] (su_destinations cfg) of
          Inl e \<Rightarrow> Some e
        | Inr known \<Rightarrow>
            (let sel = validate_alert_selector checks (map comp_name (su_components cfg)) (map p_name (su_peers cfg)) in
             case validate_routes (\<lambda>r. sel (rt_checks r) (rt_components r) (rt_probers r) (rt_kinds r)) known [] (su_routes cfg) of
               Some e \<Rightarrow> Some e
             | None \<Rightarrow> validate_escalations (\<lambda>p. sel (ep_checks p) (ep_components p) (ep_probers p) (ep_kinds p)) known []
                 (su_escalations cfg)))"

section \<open>Monitors\<close>

record monitor =
  mo_name :: string
  mo_enabled :: bool
  mo_kind :: kind
  mo_target :: string
  mo_vantage :: vantage
  mo_interval :: string
  mo_timeout :: string
  mo_quorum :: quorum
  mo_prober :: string
  mo_probers :: "string list"
  mo_expect_status :: "int list"
  mo_expect_body :: string
  mo_send :: string
  mo_http_method :: string
  mo_http_headers :: "(string \<times> string) list"
  mo_http_body :: string
  mo_server_name :: string
  mo_start_tls :: bool
  mo_dns_record :: string
  mo_dns_server :: string
  mo_dns_rcode :: string
  mo_grpc_service :: string
  mo_grpc_tls :: bool
  mo_ca_file :: string
  mo_proxy_profile :: string
  mo_tls_expiry_warning :: string
  mo_latency_warning :: string

record monitor_revision =
  rv_id :: nat
  rv_at :: time
  rv_actor :: string
  rv_action :: string
  rv_subject :: string
  rv_catalog :: "monitor list"

text \<open>\<open>monitors\<close> and \<open>checks\<close> with the revisions; both maps are keyed by name.\<close>

record monitor_book =
  mb_monitors :: "(string \<times> monitor) list"
  mb_checks :: "(string \<times> check) list"
  mb_revisions :: "monitor_revision list"
  mb_next :: nat

definition max_monitor_revisions :: nat where "max_monitor_revisions = 100"

definition duration_string :: "duration \<Rightarrow> string" where
  "duration_string d = (if d = 0 then [] else dur_string d)"

definition monitor_from_check :: "check \<Rightarrow> monitor" where
  "monitor_from_check c =
     \<lparr>mo_name = c_name c, mo_enabled = True, mo_kind = c_kind c, mo_target = c_target c, mo_vantage = c_vantage c,
      mo_interval = dur_string (c_interval c), mo_timeout = dur_string (c_timeout c), mo_quorum = c_quorum c,
      mo_prober = c_prober c, mo_probers = c_probers c, mo_expect_status = c_expect_status c,
      mo_expect_body = c_expect_body c, mo_send = c_send c, mo_http_method = c_http_method c,
      mo_http_headers = c_http_headers c, mo_http_body = c_http_body c, mo_server_name = c_server_name c,
      mo_start_tls = c_start_tls c, mo_dns_record = c_dns_record c, mo_dns_server = c_dns_server c,
      mo_dns_rcode = c_dns_rcode c, mo_grpc_service = c_grpc_service c, mo_grpc_tls = c_grpc_tls c,
      mo_ca_file = c_ca_file c, mo_proxy_profile = c_proxy_profile c,
      mo_tls_expiry_warning = duration_string (c_tls_expiry_warning c),
      mo_latency_warning = duration_string (c_latency_warning c)\<rparr>"

datatype catalog_error = MonitorInterval string | MonitorTimeout string | MonitorTLSWarning string
  | MonitorLatencyWarning string | MonitorNameRequired | DuplicateMonitor string | MonitorInvalid check_error
  | NoResponseBudget string | MonitorFleet fleet_error | TooFewProbers string | TooFewProviders string
  | UnregisteredProber string string | ComponentNeedsMonitor string string | MonitorNotify notify_error
  | CatalogActor | CatalogPersist

text \<open>An optional duration of a monitor: blank is zero.\<close>

definition optional_duration :: "(string \<Rightarrow> duration option) \<Rightarrow> string \<Rightarrow> duration option" where
  "optional_duration parse s = (let v = trim_space s in if v = [] then Some 0 else parse v)"

definition to_check :: "(string \<Rightarrow> duration option) \<Rightarrow> monitor \<Rightarrow> catalog_error + check" where
  "to_check parse m =
     (case parse (trim_space (mo_interval m)) of None \<Rightarrow> Inl (MonitorInterval (mo_name m)) | Some interval \<Rightarrow>
      case parse (trim_space (mo_timeout m)) of None \<Rightarrow> Inl (MonitorTimeout (mo_name m)) | Some timeout \<Rightarrow>
      case optional_duration parse (mo_tls_expiry_warning m) of None \<Rightarrow> Inl (MonitorTLSWarning (mo_name m)) | Some tls \<Rightarrow>
      case optional_duration parse (mo_latency_warning m) of None \<Rightarrow> Inl (MonitorLatencyWarning (mo_name m)) | Some latency \<Rightarrow>
        Inr \<lparr>c_name = trim_space (mo_name m), c_kind = mo_kind m, c_target = trim_space (mo_target m),
          c_vantage = mo_vantage m, c_interval = interval, c_timeout = timeout, c_quorum = mo_quorum m,
          c_prober = mo_prober m, c_probers = mo_probers m, c_expect_status = mo_expect_status m,
          c_expect_body = mo_expect_body m, c_send = mo_send m, c_http_method = mo_http_method m,
          c_http_headers = mo_http_headers m, c_http_body = mo_http_body m, c_server_name = mo_server_name m,
          c_start_tls = mo_start_tls m, c_dns_record = mo_dns_record m, c_dns_server = mo_dns_server m,
          c_dns_rcode = mo_dns_rcode m, c_grpc_service = mo_grpc_service m, c_grpc_tls = mo_grpc_tls m,
          c_ca_file = mo_ca_file m, c_proxy_profile = mo_proxy_profile m,
          c_tls_expiry_warning = tls, c_latency_warning = latency\<rparr>)"

definition monitor_list :: "monitor_book \<Rightarrow> monitor list" where
  "monitor_list b = sort_key mo_name (map snd (mb_monitors b))"

section \<open>Validating a catalogue\<close>

definition named_providers :: "peer list \<Rightarrow> string list" where
  "named_providers ps = remdups (map p_provider (filter (\<lambda>p. trim_space (p_provider p) \<noteq> []) ps))"

text \<open>What the fleet must offer a valid check; \<open>New\<close> asks the same.\<close>

definition check_feasible :: "configuration \<Rightarrow> check \<Rightarrow> catalog_error option" where
  "check_feasible cfg c =
     (let q = c_quorum c in
      case validate_eligible_probers c (su_peers cfg) of
        Inl e \<Rightarrow> Some (MonitorFleet e)
      | Inr eligible \<Rightarrow>
          if q_of q > int (length eligible) then Some (TooFewProbers (c_name c))
          else case validate_route_quorum c eligible of
            Some e \<Rightarrow> Some (MonitorFleet e)
          | None \<Rightarrow>
              if q_distinct q \<and> int (length (named_providers eligible)) < q_agree q then Some (TooFewProviders (c_name c))
              else if c_prober c \<noteq> [] \<and> peer_by_name (su_peers cfg) (c_prober c) = None
              then Some (UnregisteredProber (c_name c) (c_prober c))
              else None)"

definition response_budget :: "configuration \<Rightarrow> check \<Rightarrow> bool" where
  "response_budget cfg c \<longleftrightarrow>
     \<not> (q_agree (c_quorum c) > 1 \<and> su_fan_out_timeout cfg < wrap64 (c_timeout c + minimum_fan_out_overhead))"

fun admit_monitors :: "(string \<Rightarrow> duration option) \<Rightarrow> configuration \<Rightarrow> string list \<Rightarrow> (string \<times> check) list \<Rightarrow> monitor list \<Rightarrow>
    catalog_error + (string \<times> check) list" where
  "admit_monitors parse cfg known active [] = Inr active"
| "admit_monitors parse cfg known active (m # ms) =
     (let m = m\<lparr>mo_name := trim_space (mo_name m)\<rparr> in
      if mo_name m = [] then Inl MonitorNameRequired
      else if List.member known (mo_name m) then Inl (DuplicateMonitor (mo_name m))
      else case to_check parse m of Inl e \<Rightarrow> Inl e | Inr c \<Rightarrow>
        (case check_validate c of Some e \<Rightarrow> Inl (MonitorInvalid e) | None \<Rightarrow>
          if \<not> response_budget cfg c then Inl (NoResponseBudget (c_name c))
          else case check_feasible cfg c of Some e \<Rightarrow> Inl e | None \<Rightarrow>
            admit_monitors parse cfg (mo_name m # known)
              (if mo_enabled m then AList.update (c_name c) c active else active) ms))"

definition missing_member :: "(string \<times> check) list \<Rightarrow> component \<Rightarrow> catalog_error option" where
  "missing_member active cm =
     map_option (ComponentNeedsMonitor (comp_name cm)) (find (\<lambda>n. map_of active n = None) (comp_checks cm))"

fun missing_members :: "(string \<times> check) list \<Rightarrow> component list \<Rightarrow> catalog_error option" where
  "missing_members active [] = None"
| "missing_members active (cm # cms) =
     (case missing_member active cm of Some e \<Rightarrow> Some e | None \<Rightarrow> missing_members active cms)"

definition validate_catalog :: "(string \<Rightarrow> duration option) \<Rightarrow> configuration \<Rightarrow> monitor list \<Rightarrow>
    catalog_error + (string \<times> check) list" where
  "validate_catalog parse cfg ms =
     (case admit_monitors parse cfg [] [] ms of
        Inl e \<Rightarrow> Inl e
      | Inr active \<Rightarrow>
          (case missing_members active (su_components cfg) of
             Some e \<Rightarrow> Inl e
           | None \<Rightarrow>
               (case validate_notifications cfg (map fst active) of
                  Some e \<Rightarrow> Inl (MonitorNotify e) | None \<Rightarrow> Inr active)))"

section \<open>Changing the catalogue\<close>

definition keep_monitor :: "(string \<times> monitor) list \<Rightarrow> monitor \<Rightarrow> (string \<times> monitor) list" where
  "keep_monitor by m = (let m = m\<lparr>mo_name := trim_space (mo_name m)\<rparr> in AList.update (mo_name m) m by)"

definition replace_catalog :: "(string \<Rightarrow> duration option) \<Rightarrow> configuration \<Rightarrow> monitor list \<Rightarrow> monitor_book \<Rightarrow>
    monitor_book \<times> catalog_error option" where
  "replace_catalog parse cfg ms b =
     (case validate_catalog parse cfg ms of
        Inl e \<Rightarrow> (b, Some e)
      | Inr active \<Rightarrow> (b\<lparr>mb_monitors := foldl keep_monitor [] ms, mb_checks := active\<rparr>, None))"

definition last_revisions :: "monitor_revision list \<Rightarrow> monitor_revision list" where
  "last_revisions rs = (if length rs > max_monitor_revisions then drop (length rs - max_monitor_revisions) rs else rs)"

definition add_revision :: "time \<Rightarrow> string \<Rightarrow> string \<Rightarrow> string \<Rightarrow> monitor_book \<Rightarrow> monitor_book" where
  "add_revision now actor action about b =
     (let n = Suc (mb_next b);
          rv = \<lparr>rv_id = n, rv_at = now, rv_actor = actor, rv_action = action, rv_subject = about,
                rv_catalog = monitor_list b\<rparr>
      in b\<lparr>mb_next := n, mb_revisions := last_revisions (mb_revisions b @ [rv])\<rparr>)"

definition mutate_monitors :: "(string \<Rightarrow> duration option) \<Rightarrow> configuration \<Rightarrow> time \<Rightarrow> bool \<Rightarrow> string \<Rightarrow> string \<Rightarrow> string \<Rightarrow>
    monitor list \<Rightarrow> monitor_book \<Rightarrow> monitor_book \<times> catalog_error option" where
  "mutate_monitors parse cfg now persisted actor action about ms b =
     (let actor = trim_space actor in
      if actor = [] then (b, Some CatalogActor)
      else
        let old = monitor_list b in
        case replace_catalog parse cfg ms b of
          (b', Some e) \<Rightarrow> (b', Some e)
        | (b', None) \<Rightarrow>
            (let b' = add_revision now actor action about b' in
             if persisted then (b', None)
             else (let (b', _) = replace_catalog parse cfg old b'
                   in (b'\<lparr>mb_revisions := mb_revisions b, mb_next := mb_next b\<rparr>, Some CatalogPersist))))"

text \<open>The catalogue of a configuration file, as \<open>New\<close> installs it.\<close>

definition baseline :: "time \<Rightarrow> check list \<Rightarrow> monitor_book" where
  "baseline started cs =
     (let b = \<lparr>mb_monitors = foldl (\<lambda>by c. AList.update (c_name c) (monitor_from_check c) by) [] cs,
               mb_checks = foldl (\<lambda>by c. AList.update (c_name c) c by) [] cs, mb_revisions = [], mb_next = 1\<rparr>
      in b\<lparr>mb_revisions := [\<lparr>rv_id = 1, rv_at = started, rv_actor = ''configuration'', rv_action = ''baseline'',
             rv_subject = [], rv_catalog = monitor_list b\<rparr>]\<rparr>)"

section \<open>The handlers\<close>

datatype catalog_reply = CatalogDenied auth_error | CatalogBadRequest | MonitorExists | MonitorNotFound | MonitorRenamed
  | CatalogRefused catalog_error | MonitorStored monitor | MonitorDeleted | MonitorValid | RevisionNotFound
  | Monitors "monitor list" | Revisions "monitor_revision list" | MonitorTests "(string \<times> result option) list"
  | TestUnknownProber string

definition mutated :: "catalog_reply \<Rightarrow> monitor_book \<times> catalog_error option \<Rightarrow> monitor_book \<times> catalog_reply" where
  "mutated ok x = (case x of (b, Some e) \<Rightarrow> (b, CatalogRefused e) | (b, None) \<Rightarrow> (b, ok))"

definition create_monitor :: "(string \<Rightarrow> duration option) \<Rightarrow> configuration \<Rightarrow> time \<Rightarrow> bool \<Rightarrow> string \<Rightarrow> monitor \<Rightarrow>
    monitor_book \<Rightarrow> monitor_book \<times> catalog_reply" where
  "create_monitor parse cfg now persisted actor m b =
     (let ms = monitor_list b in
      if list_ex (\<lambda>x. mo_name x = trim_space (mo_name m)) ms then (b, MonitorExists)
      else mutated (MonitorStored m) (mutate_monitors parse cfg now persisted actor ''create'' (mo_name m) (ms @ [m]) b))"

definition update_monitor :: "(string \<Rightarrow> duration option) \<Rightarrow> configuration \<Rightarrow> time \<Rightarrow> bool \<Rightarrow> string \<Rightarrow> string \<Rightarrow> monitor \<Rightarrow>
    monitor_book \<Rightarrow> monitor_book \<times> catalog_reply" where
  "update_monitor parse cfg now persisted actor name m b =
     (if trim_space (mo_name m) \<noteq> name then (b, MonitorRenamed)
      else
        let ms = monitor_list b in
        if \<not> list_ex (\<lambda>x. mo_name x = name) ms then (b, MonitorNotFound)
        else mutated (MonitorStored m) (mutate_monitors parse cfg now persisted actor ''update'' name
          (map (\<lambda>x. if mo_name x = name then m else x) ms) b))"

definition delete_monitor :: "(string \<Rightarrow> duration option) \<Rightarrow> configuration \<Rightarrow> time \<Rightarrow> bool \<Rightarrow> string \<Rightarrow> string \<Rightarrow>
    monitor_book \<Rightarrow> monitor_book \<times> catalog_reply" where
  "delete_monitor parse cfg now persisted actor name b =
     (let ms = monitor_list b; out = filter (\<lambda>x. mo_name x \<noteq> name) ms in
      if length out = length ms then (b, MonitorNotFound)
      else mutated MonitorDeleted (mutate_monitors parse cfg now persisted actor ''delete'' name out b))"

definition rollback_monitors :: "(string \<Rightarrow> duration option) \<Rightarrow> configuration \<Rightarrow> time \<Rightarrow> bool \<Rightarrow> string \<Rightarrow> nat \<Rightarrow>
    monitor_book \<Rightarrow> monitor_book \<times> catalog_reply" where
  "rollback_monitors parse cfg now persisted actor i b =
     (case find (\<lambda>rv. rv_id rv = i) (mb_revisions b) of
        None \<Rightarrow> (b, RevisionNotFound)
      | Some rv \<Rightarrow>
          (case mutate_monitors parse cfg now persisted actor ''rollback'' (itoa i) (rv_catalog rv) b of
             (b, Some e) \<Rightarrow> (b, CatalogRefused e) | (b, None) \<Rightarrow> (b, Monitors (monitor_list b))))"

definition validate_monitor :: "(string \<Rightarrow> duration option) \<Rightarrow> configuration \<Rightarrow> monitor \<Rightarrow> monitor_book \<Rightarrow> catalog_reply" where
  "validate_monitor parse cfg m b =
     (let ms = monitor_list b;
          replaced = list_ex (\<lambda>x. mo_name x = mo_name m) ms;
          ms = map (\<lambda>x. if mo_name x = mo_name m then m else x) ms
      in case validate_catalog parse cfg (if replaced then ms else ms @ [m]) of
           Inl e \<Rightarrow> CatalogRefused e | Inr _ \<Rightarrow> MonitorValid)"

text \<open>\<open>handleTestMonitor\<close>: \<open>answer\<close> is what \<open>ask\<close> brought back from a prober, \<open>None\<close> for an error.\<close>

fun test_names :: "peer list \<Rightarrow> (peer \<Rightarrow> result option) \<Rightarrow> string list \<Rightarrow> string + (string \<times> result option) list" where
  "test_names peers answer [] = Inr []"
| "test_names peers answer (n # ns) =
     (case peer_by_name peers n of None \<Rightarrow> Inl n | Some p \<Rightarrow>
       (case test_names peers answer ns of Inl x \<Rightarrow> Inl x | Inr out \<Rightarrow> Inr ((p_name p, answer p) # out)))"

definition test_monitor :: "(string \<Rightarrow> duration option) \<Rightarrow> configuration \<Rightarrow> (check \<Rightarrow> peer \<Rightarrow> result option) \<Rightarrow> monitor \<Rightarrow>
    string list \<Rightarrow> catalog_reply" where
  "test_monitor parse cfg answer m probers =
     (case to_check parse m of Inl e \<Rightarrow> CatalogRefused e | Inr c \<Rightarrow>
      (case check_validate c of Some e \<Rightarrow> CatalogRefused (MonitorInvalid e) | None \<Rightarrow>
       (case (if probers = [] then map_sum id (map p_name) (validate_eligible_probers c (su_peers cfg)) else Inr probers) of
          Inl e \<Rightarrow> CatalogRefused (MonitorFleet e)
        | Inr names \<Rightarrow> (case test_names (su_peers cfg) (answer c) names of
            Inl n \<Rightarrow> TestUnknownProber n | Inr out \<Rightarrow> MonitorTests out))))"

text \<open>Each handler first asks for the permission; \<open>None\<close> is a body that cannot be decoded.\<close>

definition catalog_handler :: "kdf \<Rightarrow> auth_config \<Rightarrow> time \<Rightarrow> request \<Rightarrow> permission \<Rightarrow>
    (principal \<Rightarrow> monitor_book \<Rightarrow> monitor_book \<times> catalog_reply) \<Rightarrow> auth \<times> monitor_book \<Rightarrow>
    (auth \<times> monitor_book) \<times> catalog_reply" where
  "catalog_handler kd ac now r perm f s =
     (case require_permission kd ac now r perm (fst s) of
        (a, Inl e) \<Rightarrow> ((a, snd s), CatalogDenied e)
      | (a, Inr who) \<Rightarrow> (let (b, reply) = f who (snd s) in ((a, b), reply)))"

definition handle_monitors :: "kdf \<Rightarrow> auth_config \<Rightarrow> time \<Rightarrow> request \<Rightarrow> auth \<times> monitor_book \<Rightarrow>
    (auth \<times> monitor_book) \<times> catalog_reply" where
  "handle_monitors kd ac now r =
     catalog_handler kd ac now r PermissionView (\<lambda>who b. (b, Monitors (monitor_list b)))"

definition handle_create_monitor :: "kdf \<Rightarrow> auth_config \<Rightarrow> (string \<Rightarrow> duration option) \<Rightarrow> configuration \<Rightarrow> time \<Rightarrow> bool \<Rightarrow>
    request \<Rightarrow> (string \<times> monitor) option \<Rightarrow> auth \<times> monitor_book \<Rightarrow> (auth \<times> monitor_book) \<times> catalog_reply" where
  "handle_create_monitor kd ac parse cfg now persisted r body =
     catalog_handler kd ac now r PermissionOperate (\<lambda>who b. case body of
        None \<Rightarrow> (b, CatalogBadRequest)
      | Some (actor, m) \<Rightarrow> create_monitor parse cfg now persisted (mutation_actor who actor) m b)"

definition handle_update_monitor :: "kdf \<Rightarrow> auth_config \<Rightarrow> (string \<Rightarrow> duration option) \<Rightarrow> configuration \<Rightarrow> time \<Rightarrow> bool \<Rightarrow>
    request \<Rightarrow> string \<Rightarrow> (string \<times> monitor) option \<Rightarrow> auth \<times> monitor_book \<Rightarrow> (auth \<times> monitor_book) \<times> catalog_reply" where
  "handle_update_monitor kd ac parse cfg now persisted r name body =
     catalog_handler kd ac now r PermissionOperate (\<lambda>who b. case body of
        None \<Rightarrow> (b, CatalogBadRequest)
      | Some (actor, m) \<Rightarrow> update_monitor parse cfg now persisted (mutation_actor who actor) name m b)"

definition handle_delete_monitor :: "kdf \<Rightarrow> auth_config \<Rightarrow> (string \<Rightarrow> duration option) \<Rightarrow> configuration \<Rightarrow> time \<Rightarrow> bool \<Rightarrow>
    request \<Rightarrow> string \<Rightarrow> string option \<Rightarrow> auth \<times> monitor_book \<Rightarrow> (auth \<times> monitor_book) \<times> catalog_reply" where
  "handle_delete_monitor kd ac parse cfg now persisted r name body =
     catalog_handler kd ac now r PermissionOperate (\<lambda>who b. case body of
        None \<Rightarrow> (b, CatalogBadRequest)
      | Some actor \<Rightarrow> delete_monitor parse cfg now persisted (mutation_actor who actor) name b)"

definition handle_validate_monitor :: "kdf \<Rightarrow> auth_config \<Rightarrow> (string \<Rightarrow> duration option) \<Rightarrow> configuration \<Rightarrow> time \<Rightarrow>
    request \<Rightarrow> monitor option \<Rightarrow> auth \<times> monitor_book \<Rightarrow> (auth \<times> monitor_book) \<times> catalog_reply" where
  "handle_validate_monitor kd ac parse cfg now r body =
     catalog_handler kd ac now r PermissionOperate (\<lambda>who b. case body of
        None \<Rightarrow> (b, CatalogBadRequest) | Some m \<Rightarrow> (b, validate_monitor parse cfg m b))"

definition handle_test_monitor :: "kdf \<Rightarrow> auth_config \<Rightarrow> (string \<Rightarrow> duration option) \<Rightarrow> configuration \<Rightarrow>
    (check \<Rightarrow> peer \<Rightarrow> result option) \<Rightarrow> time \<Rightarrow> request \<Rightarrow> (monitor \<times> string list) option \<Rightarrow>
    auth \<times> monitor_book \<Rightarrow> (auth \<times> monitor_book) \<times> catalog_reply" where
  "handle_test_monitor kd ac parse cfg answer now r body =
     catalog_handler kd ac now r PermissionOperate (\<lambda>who b. case body of
        None \<Rightarrow> (b, CatalogBadRequest) | Some (m, probers) \<Rightarrow> (b, test_monitor parse cfg answer m probers))"

definition handle_monitor_revisions :: "kdf \<Rightarrow> auth_config \<Rightarrow> time \<Rightarrow> request \<Rightarrow> auth \<times> monitor_book \<Rightarrow>
    (auth \<times> monitor_book) \<times> catalog_reply" where
  "handle_monitor_revisions kd ac now r =
     catalog_handler kd ac now r PermissionView (\<lambda>who b. (b, Revisions (mb_revisions b)))"

text \<open>\<open>i\<close> is the revision of the path, \<open>None\<close> when it is not a number.\<close>

definition handle_rollback_monitors :: "kdf \<Rightarrow> auth_config \<Rightarrow> (string \<Rightarrow> duration option) \<Rightarrow> configuration \<Rightarrow> time \<Rightarrow> bool \<Rightarrow>
    request \<Rightarrow> nat option \<Rightarrow> string option \<Rightarrow> auth \<times> monitor_book \<Rightarrow> (auth \<times> monitor_book) \<times> catalog_reply" where
  "handle_rollback_monitors kd ac parse cfg now persisted r i body =
     catalog_handler kd ac now r PermissionRollback (\<lambda>who b. case (body, i) of
        (Some actor, Some i) \<Rightarrow> rollback_monitors parse cfg now persisted (mutation_actor who actor) i b
      | _ \<Rightarrow> (b, CatalogBadRequest))"

section \<open>Trimmed names\<close>

lemma strip_first_append: "strip_first ps (s @ r) = None \<Longrightarrow> strip_first ps s = None"
  by (induction ps) (auto simp: has_prefix_iff split: if_splits)

lemma trim_left_suffix: "\<exists>u. s = u @ trim_left ps s"
proof (induction ps s rule: trim_left.induct)
  case (1 ps s)
  show ?case
  proof (cases "strip_first ps s")
    case None
    then show ?thesis by (simp add: trim_left.simps)
  next
    case (Some r)
    from Some have "\<exists>p. s = p @ r"
      by (induction ps) (auto simp: has_prefix_iff split: if_splits)
    moreover from 1 [OF Some] have "\<exists>u. r = u @ trim_left ps r" .
    moreover have "trim_left ps s = trim_left ps r" using Some by (subst trim_left.simps) simp
    ultimately show ?thesis by (metis append.assoc)
  qed
qed

lemma trim_trim [simp]: "trim_space (trim_space s) = trim_space s"
proof -
  let ?t = "trim_left space_runes s"
  obtain u where "rev ?t = u @ trim_left (map rev space_runes) (rev ?t)" using trim_left_suffix by blast
  then have "?t = trim_space s @ rev u" unfolding trim_space_def by (metis rev_append rev_rev_ident)
  then have "strip_first space_runes (trim_space s) = None"
    using trim_left_stuck [of space_runes s] strip_first_append by metis
  then have "trim_left space_runes (trim_space s) = trim_space s" by (subst trim_left.simps) simp
  then show ?thesis by (simp add: trim_space_def)
qed

definition trimmed_name :: "monitor \<Rightarrow> monitor" where
  "trimmed_name m = m\<lparr>mo_name := trim_space (mo_name m)\<rparr>"

lemma trimmed_simps [simp]:
  "mo_name (trimmed_name m) = trim_space (mo_name m)" "mo_enabled (trimmed_name m) = mo_enabled m"
  "trimmed_name (trimmed_name m) = trimmed_name m"
  by (simp_all add: trimmed_name_def)

lemma trimmed_id: "trim_space (mo_name m) = mo_name m \<Longrightarrow> trimmed_name m = m"
  by (simp add: trimmed_name_def)

section \<open>Valid catalogues\<close>

text \<open>A monitor as it is stored, and the check it stands for.\<close>

definition monitor_ok :: "(string \<Rightarrow> duration option) \<Rightarrow> configuration \<Rightarrow> monitor \<Rightarrow> check \<Rightarrow> bool" where
  "monitor_ok parse cfg m c \<longleftrightarrow> mo_name m \<noteq> [] \<and> to_check parse m = Inr c \<and>
     check_validate c = None \<and> response_budget cfg c \<and> check_feasible cfg c = None"

definition check_of :: "(string \<Rightarrow> duration option) \<Rightarrow> monitor \<Rightarrow> check" where
  "check_of parse m = projr (to_check parse m)"

definition enabled_checks :: "(string \<Rightarrow> duration option) \<Rightarrow> monitor list \<Rightarrow> (string \<times> check) list" where
  "enabled_checks parse ms = map (\<lambda>m. (mo_name m, check_of parse m)) (filter mo_enabled ms)"

lemma to_check_name: "to_check parse m = Inr c \<Longrightarrow> c_name c = trim_space (mo_name m)"
  by (auto simp: to_check_def split: option.splits)

lemma enabled_simps [simp]:
  "enabled_checks parse [] = []"
  "enabled_checks parse (m # ms) = (if mo_enabled m then [(mo_name m, check_of parse m)] else []) @ enabled_checks parse ms"
  by (simp_all add: enabled_checks_def)

lemma enabled_names: "fst ` set (enabled_checks parse ms) = mo_name ` {m \<in> set ms. mo_enabled m}"
  by (auto simp: enabled_checks_def image_image)

lemma update_fresh: "k \<notin> fst ` set al \<Longrightarrow> AList.update k v al = al @ [(k, v)]"
  by (induction al) auto

lemma admit_monitors_Inr:
  assumes "fst ` set active \<subseteq> set known"
  shows "admit_monitors parse cfg known active ms = Inr act \<longleftrightarrow>
    distinct (map mo_name (map trimmed_name ms)) \<and> mo_name ` trimmed_name ` set ms \<inter> set known = {} \<and>
    (\<forall>m \<in> set ms. \<exists>c. monitor_ok parse cfg (trimmed_name m) c) \<and> act = active @ enabled_checks parse (map trimmed_name ms)"
  using assms
proof (induction parse cfg known active ms rule: admit_monitors.induct)
  case (1 parse cfg known active)
  then show ?case by auto
next
  case (2 parse cfg known active m ms)
  let ?n = "trim_space (mo_name m)"
  show ?case
  proof (cases "?n \<noteq> [] \<and> ?n \<notin> set known \<and> (\<exists>c. monitor_ok parse cfg (trimmed_name m) c)")
    case False
    then have "admit_monitors parse cfg known active (m # ms) \<noteq> Inr act"
      by (auto simp: Let_def monitor_ok_def trimmed_name_def split: if_splits sum.splits option.splits)
    with False show ?thesis by (auto simp: monitor_ok_def)
  next
    case True
    then obtain c where c: "monitor_ok parse cfg (trimmed_name m) c" by blast
    then have tc: "to_check parse (m\<lparr>mo_name := ?n\<rparr>) = Inr c" "c_name c = ?n"
      using to_check_name [of parse "trimmed_name m" c] by (simp_all add: monitor_ok_def trimmed_name_def)
    then have co: "check_of parse (trimmed_name m) = c" by (simp add: check_of_def trimmed_name_def)
    define active' where "active' = (if mo_enabled m then AList.update (c_name c) c active else active)"
    have fresh: "?n \<notin> fst ` set active" using True 2(2) by auto
    then have act': "active' = active @ (if mo_enabled m then [(?n, c)] else [])"
      by (simp add: active'_def tc(2) update_fresh)
    have step: "admit_monitors parse cfg known active (m # ms) = admit_monitors parse cfg (?n # known) active' ms"
      using True c tc by (simp add: Let_def monitor_ok_def active'_def)
    have sub: "fst ` set active' \<subseteq> set (?n # known)" using 2(2) by (auto simp: act')
    have IH: "admit_monitors parse cfg (?n # known) active' ms = Inr act \<longleftrightarrow>
        distinct (map mo_name (map trimmed_name ms)) \<and> mo_name ` trimmed_name ` set ms \<inter> set (?n # known) = {} \<and>
        (\<forall>m \<in> set ms. \<exists>c. monitor_ok parse cfg (trimmed_name m) c) \<and> act = active' @ enabled_checks parse (map trimmed_name ms)"
      using "2.IH" [of "m\<lparr>mo_name := ?n\<rparr>" c] True c tc sub
      by (simp add: monitor_ok_def active'_def)
    have "act = active' @ enabled_checks parse (map trimmed_name ms) \<longleftrightarrow>
        act = active @ enabled_checks parse (map trimmed_name (m # ms))"
      by (simp add: act' co)
    then show ?thesis unfolding step IH using True by (auto simp: image_iff)
  qed
qed

text \<open>A list of stored monitors that would be accepted as the catalogue.\<close>

definition catalog_ok :: "(string \<Rightarrow> duration option) \<Rightarrow> configuration \<Rightarrow> monitor list \<Rightarrow> bool" where
  "catalog_ok parse cfg ms \<longleftrightarrow> distinct (map mo_name ms) \<and> (\<forall>m \<in> set ms. trim_space (mo_name m) = mo_name m) \<and>
     (\<forall>m \<in> set ms. \<exists>c. monitor_ok parse cfg m c) \<and>
     missing_members (enabled_checks parse ms) (su_components cfg) = None \<and>
     validate_notifications cfg (map fst (enabled_checks parse ms)) = None"

lemma validate_catalog_Inr:
  "validate_catalog parse cfg ms = Inr act \<longleftrightarrow>
     catalog_ok parse cfg (map trimmed_name ms) \<and> act = enabled_checks parse (map trimmed_name ms)"
proof -
  have "admit_monitors parse cfg [] [] ms = Inr a \<longleftrightarrow> distinct (map mo_name (map trimmed_name ms)) \<and>
      (\<forall>m \<in> set ms. \<exists>c. monitor_ok parse cfg (trimmed_name m) c) \<and> a = enabled_checks parse (map trimmed_name ms)" for a
    using admit_monitors_Inr [of "[]" "[]" parse cfg ms a] by simp
  note admit = this
  show ?thesis
  proof (cases "admit_monitors parse cfg [] [] ms")
    case (Inl e)
    then show ?thesis using admit by (auto simp: validate_catalog_def catalog_ok_def)
  next
    case (Inr a)
    with admit [of a] show ?thesis
      by (auto simp: validate_catalog_def catalog_ok_def split: option.splits)
  qed
qed

lemma first_unknown_cong: "set xs = set ys \<Longrightarrow> first_unknown xs = first_unknown ys"
  by (simp add: first_unknown_def fun_eq_iff)

lemma validate_notifications_cong:
  assumes "set xs = set ys"
  shows "validate_notifications cfg xs = validate_notifications cfg ys"
proof -
  have "validate_alert_selector xs = validate_alert_selector ys"
    by (simp add: validate_alert_selector_def fun_eq_iff first_unknown_cong [OF assms])
  then show ?thesis unfolding validate_notifications_def by (rule ssubst) (rule refl)
qed

lemma missing_members_cong:
  assumes "fst ` set act = fst ` set act'"
  shows "missing_members act cms = missing_members act' cms"
proof -
  have "(map_of act n = None) = (map_of act' n = None)" for n
    unfolding map_of_eq_None_iff assms ..
  then have "missing_member act cm = missing_member act' cm" for cm
    by (simp add: missing_member_def)
  then show ?thesis by (induction cms) (simp_all split: option.splits)
qed

text \<open>The order of the monitors does not matter.\<close>

lemma catalog_ok_mset:
  assumes "mset ms = mset ms'" "catalog_ok parse cfg ms"
  shows "catalog_ok parse cfg ms'"
proof -
  have s: "set ms = set ms'" using assms(1) by (metis set_mset_mset)
  then have names: "fst ` set (enabled_checks parse ms) = fst ` set (enabled_checks parse ms')"
    by (simp add: enabled_names)
  have "distinct (map mo_name ms')"
    using assms by (metis catalog_ok_def mset_map mset_eq_imp_distinct_iff)
  with assms(2) s missing_members_cong [OF names] validate_notifications_cong [of "map fst (enabled_checks parse ms)" "map fst (enabled_checks parse ms')"] names
  show ?thesis by (simp add: catalog_ok_def)
qed

lemma enabled_mset:
  assumes "mset ms = mset ms'" "distinct (map mo_name ms)"
  shows "map_of (enabled_checks parse ms) = map_of (enabled_checks parse ms')"
proof -
  have "mset (enabled_checks parse ms) = mset (enabled_checks parse ms')"
    using assms(1) by (simp add: enabled_checks_def mset_filter)
  moreover have "distinct (map fst (enabled_checks parse ms))"
    using assms(2) by (simp add: enabled_checks_def comp_def distinct_map_filter)
  ultimately show ?thesis
    by (metis map_of_inject_set mset_map mset_eq_imp_distinct_iff set_mset_mset)
qed

lemma trimmed_list: "(\<forall>m \<in> set ms. trim_space (mo_name m) = mo_name m) \<Longrightarrow> map trimmed_name ms = ms"
  by (induction ms) (auto simp: trimmed_id)

lemma keep_monitors: "distinct (map mo_name (map trimmed_name ms)) \<Longrightarrow>
    foldl keep_monitor [] ms = map (\<lambda>m. (mo_name m, m)) (map trimmed_name ms)"
proof (induction ms rule: rev_induct)
  case (snoc m ms)
  then show ?case
    by (auto simp: keep_monitor_def Let_def trimmed_name_def [symmetric] image_image intro!: update_fresh)
qed simp

section \<open>The invariant of the catalogue\<close>

definition revision_ok :: "(string \<Rightarrow> duration option) \<Rightarrow> configuration \<Rightarrow> monitor_revision \<Rightarrow> bool" where
  "revision_ok parse cfg rv \<longleftrightarrow> sorted (map mo_name (rv_catalog rv)) \<and> catalog_ok parse cfg (rv_catalog rv)"

definition monitors_ok :: "(string \<Rightarrow> duration option) \<Rightarrow> configuration \<Rightarrow> monitor_book \<Rightarrow> bool" where
  "monitors_ok parse cfg b \<longleftrightarrow> mb_monitors b = map (\<lambda>m. (mo_name m, m)) (map snd (mb_monitors b)) \<and>
     catalog_ok parse cfg (map snd (mb_monitors b)) \<and> mb_checks b = enabled_checks parse (map snd (mb_monitors b))"

definition revisions_ok :: "(string \<Rightarrow> duration option) \<Rightarrow> configuration \<Rightarrow> monitor_book \<Rightarrow> bool" where
  "revisions_ok parse cfg b \<longleftrightarrow> length (mb_revisions b) \<le> max_monitor_revisions \<and>
     sorted_wrt (<) (map rv_id (mb_revisions b)) \<and> (\<forall>rv \<in> set (mb_revisions b). rv_id rv \<le> mb_next b \<and> revision_ok parse cfg rv)"

lemma monitor_list_props:
  assumes "monitors_ok parse cfg b"
  shows "catalog_ok parse cfg (monitor_list b)" "sorted (map mo_name (monitor_list b))"
    "map_of (enabled_checks parse (monitor_list b)) = map_of (mb_checks b)"
    "set (monitor_list b) = snd ` set (mb_monitors b)"
proof -
  have m: "mset (map snd (mb_monitors b)) = mset (monitor_list b)" by (simp add: monitor_list_def)
  show "catalog_ok parse cfg (monitor_list b)" using assms catalog_ok_mset [OF m] by (simp add: monitors_ok_def)
  show "sorted (map mo_name (monitor_list b))" by (simp add: monitor_list_def)
  show "map_of (enabled_checks parse (monitor_list b)) = map_of (mb_checks b)"
    using enabled_mset [OF m, of parse] assms by (simp add: monitors_ok_def catalog_ok_def)
  show "set (monitor_list b) = snd ` set (mb_monitors b)" by (simp add: monitor_list_def)
qed

lemma replace_catalog_cases:
  obtains (refused) e where "replace_catalog parse cfg ms b = (b, Some e)" "validate_catalog parse cfg ms = Inl e"
  | (accepted) b' where "replace_catalog parse cfg ms b = (b', None)" "monitors_ok parse cfg b'"
      "map snd (mb_monitors b') = map trimmed_name ms" "mb_revisions b' = mb_revisions b" "mb_next b' = mb_next b"
      "catalog_ok parse cfg (map trimmed_name ms)" "mb_checks b' = enabled_checks parse (map trimmed_name ms)"
proof (cases "validate_catalog parse cfg ms")
  case (Inl e)
  then show ?thesis by (intro refused) (auto simp: replace_catalog_def)
next
  case (Inr act)
  then have ok: "catalog_ok parse cfg (map trimmed_name ms)" "act = enabled_checks parse (map trimmed_name ms)"
    by (auto simp: validate_catalog_Inr)
  then have k: "foldl keep_monitor [] ms = map (\<lambda>m. (mo_name m, m)) (map trimmed_name ms)"
    by (intro keep_monitors) (simp add: catalog_ok_def)
  define b' where "b' = b\<lparr>mb_monitors := foldl keep_monitor [] ms, mb_checks := act\<rparr>"
  have s: "map snd (mb_monitors b') = map trimmed_name ms"
    by (simp add: b'_def k comp_def)
  have "mb_monitors b' = map (\<lambda>m. (mo_name m, m)) (map snd (mb_monitors b'))"
    unfolding s by (simp add: b'_def k)
  then have "monitors_ok parse cfg b'" unfolding monitors_ok_def s using ok by (simp add: b'_def)
  moreover have "replace_catalog parse cfg ms b = (b', None)" by (simp add: replace_catalog_def Inr b'_def)
  ultimately show ?thesis using s ok by (intro accepted [of b']) (simp_all add: b'_def)
qed

text \<open>Putting back the catalogue that was valid before always succeeds.\<close>

lemma put_back:
  assumes "monitors_ok parse cfg b0"
  obtains b' where "replace_catalog parse cfg (monitor_list b0) b = (b', None)" "monitors_ok parse cfg b'"
    "monitor_list b' = monitor_list b0" "map_of (mb_checks b') = map_of (mb_checks b0)"
    "mb_revisions b' = mb_revisions b" "mb_next b' = mb_next b"
proof -
  note l = monitor_list_props [OF assms]
  have t: "map trimmed_name (monitor_list b0) = monitor_list b0"
    using l(1) by (intro trimmed_list) (simp add: catalog_ok_def)
  then have v: "validate_catalog parse cfg (monitor_list b0) = Inr (enabled_checks parse (monitor_list b0))"
    using l(1) by (simp add: validate_catalog_Inr)
  show ?thesis
  proof (cases rule: replace_catalog_cases [of parse cfg "monitor_list b0" b])
    case (refused e)
    with v show ?thesis by simp
  next
    case (accepted b')
    have "monitor_list b' = sort_key mo_name (monitor_list b0)"
      using accepted(3) t by (simp add: monitor_list_def)
    then have "monitor_list b' = monitor_list b0" using l(2) by (simp add: sort_key_id_if_sorted)
    with accepted t l(3) that show ?thesis by simp
  qed
qed

section \<open>A change of the catalogue\<close>

text \<open>What a client sees of a book: the catalogue, the checks that run, the revisions and their counter.\<close>

definition monitor_book_view :: "monitor_book \<Rightarrow> monitor list \<times> (string \<rightharpoonup> check) \<times> monitor_revision list \<times> nat" where
  "monitor_book_view b = (monitor_list b, map_of (mb_checks b), mb_revisions b, mb_next b)"

definition monitor_book_ok :: "(string \<Rightarrow> duration option) \<Rightarrow> configuration \<Rightarrow> monitor_book \<Rightarrow> bool" where
  "monitor_book_ok parse cfg b \<longleftrightarrow> monitors_ok parse cfg b \<and> revisions_ok parse cfg b"

lemma revisions_ok_cong:
  "mb_revisions b = mb_revisions b' \<Longrightarrow> mb_next b = mb_next b' \<Longrightarrow> revisions_ok parse cfg b = revisions_ok parse cfg b'"
  by (simp add: revisions_ok_def)

lemma last_revisions_drop: "last_revisions rs = drop (length rs - max_monitor_revisions) rs"
  by (simp add: last_revisions_def)

lemma last_revisions_sub: "rv \<in> set (last_revisions rs) \<Longrightarrow> rv \<in> set rs"
  unfolding last_revisions_drop by (rule in_set_dropD)

lemma add_revision_simps [simp]:
  "mb_monitors (add_revision now actor action subj b) = mb_monitors b"
  "mb_checks (add_revision now actor action subj b) = mb_checks b"
  "mb_next (add_revision now actor action subj b) = Suc (mb_next b)"
  "monitor_list (add_revision now actor action subj b) = monitor_list b"
  "monitors_ok parse cfg (add_revision now actor action subj b) = monitors_ok parse cfg b"
  by (simp_all add: add_revision_def monitor_list_def monitors_ok_def)

lemma add_revision_ok:
  assumes "monitors_ok parse cfg b" "revisions_ok parse cfg b"
  shows "revisions_ok parse cfg (add_revision now actor action subj b)"
proof -
  let ?b = "add_revision now actor action subj b"
  define rv where "rv = \<lparr>rv_id = Suc (mb_next b), rv_at = now, rv_actor = actor, rv_action = action, rv_subject = subj,
    rv_catalog = monitor_list b\<rparr>"
  have rs: "mb_revisions ?b = last_revisions (mb_revisions b @ [rv])" by (simp add: add_revision_def rv_def)
  have new: "revision_ok parse cfg rv" using monitor_list_props [OF assms(1)] by (simp add: revision_ok_def rv_def)
  have "sorted_wrt (<) (map rv_id (mb_revisions b @ [rv]))"
    using assms(2) by (auto simp: revisions_ok_def sorted_wrt_append rv_def less_Suc_eq_le)
  then have "sorted_wrt (<) (map rv_id (mb_revisions ?b))"
    unfolding rs last_revisions_drop drop_map [symmetric] by (rule sorted_wrt_drop)
  moreover have "length (mb_revisions ?b) \<le> max_monitor_revisions" unfolding rs last_revisions_drop by simp
  moreover have "rv_id r \<le> mb_next ?b \<and> revision_ok parse cfg r" if "r \<in> set (mb_revisions ?b)" for r
    using last_revisions_sub [OF that [unfolded rs]] assms(2) new by (auto simp: revisions_ok_def rv_def)
  ultimately show ?thesis by (auto simp: revisions_ok_def)
qed

lemma mutate_monitors_cases:
  assumes ok: "monitor_book_ok parse cfg b"
  obtains (refused) b' e where "mutate_monitors parse cfg now persisted actor action subj ms b = (b', Some e)"
      "monitor_book_ok parse cfg b'" "monitor_book_view b' = monitor_book_view b"
  | (changed) b' where "mutate_monitors parse cfg now persisted actor action subj ms b = (b', None)"
      "monitor_book_ok parse cfg b'" "persisted" "trim_space actor \<noteq> []" "monitor_list b' = sort_key mo_name (map trimmed_name ms)"
      "mb_next b' = Suc (mb_next b)" "mb_checks b' = enabled_checks parse (map trimmed_name ms)"
      "mb_revisions b' = last_revisions (mb_revisions b @ [\<lparr>rv_id = Suc (mb_next b), rv_at = now,
         rv_actor = trim_space actor, rv_action = action, rv_subject = subj, rv_catalog = monitor_list b'\<rparr>])"
proof (cases "trim_space actor = []")
  case True
  then show ?thesis using ok by (intro refused [of b]) (auto simp: mutate_monitors_def)
next
  case actor: False
  from ok have mok: "monitors_ok parse cfg b" and rok: "revisions_ok parse cfg b" by (simp_all add: monitor_book_ok_def)
  show ?thesis
  proof (cases rule: replace_catalog_cases [of parse cfg ms b])
    case r: (refused e)
    then show ?thesis using ok actor by (intro refused [of b]) (auto simp: mutate_monitors_def)
  next
    case (accepted b1)
    define b2 where "b2 = add_revision now (trim_space actor) action subj b1"
    have ml: "monitor_list b1 = sort_key mo_name (map trimmed_name ms)" using accepted(3) by (simp add: monitor_list_def)
    have ok1: "revisions_ok parse cfg b1" using rok revisions_ok_cong [OF accepted(4,5)] by simp
    show ?thesis
    proof (cases persisted)
      case True
      then show ?thesis using accepted actor ml add_revision_ok [OF accepted(2) ok1]
        by (intro changed [of b2]) (simp_all add: mutate_monitors_def b2_def monitor_book_ok_def, simp add: add_revision_def)
    next
      case False
      obtain b3 where b3: "replace_catalog parse cfg (monitor_list b) b2 = (b3, None)" "monitors_ok parse cfg b3"
        "monitor_list b3 = monitor_list b" "map_of (mb_checks b3) = map_of (mb_checks b)"
        by (rule put_back [OF mok])
      define b4 where "b4 = b3\<lparr>mb_revisions := mb_revisions b, mb_next := mb_next b\<rparr>"
      have "mutate_monitors parse cfg now persisted actor action subj ms b = (b4, Some CatalogPersist)"
        using False actor accepted(1) b3(1) by (simp add: mutate_monitors_def b2_def b4_def)
      moreover have "monitors_ok parse cfg b4" "monitor_list b4 = monitor_list b3" "mb_checks b4 = mb_checks b3"
        using b3(2) by (simp_all add: b4_def monitors_ok_def monitor_list_def)
      moreover have "revisions_ok parse cfg b4" using rok by (simp add: b4_def revisions_ok_def)
      ultimately show ?thesis using b3 by (intro refused [of b4]) (simp_all add: monitor_book_ok_def monitor_book_view_def b4_def)
    qed
  qed
qed

section \<open>Requests\<close>

text \<open>One request about the catalogue with what the world adds to it: the time, the request's headers,
  whether the state file could be written, and what the probers answered to a test.\<close>

datatype catalog_op = ListMonitors | CreateMonitor "(string \<times> monitor) option"
  | UpdateMonitor string "(string \<times> monitor) option" | DeleteMonitor string "string option"
  | ValidateMonitor "monitor option" | TestMonitor "(monitor \<times> string list) option" | ListRevisions
  | RollbackMonitors "nat option" "string option"

record catalog_call =
  cc_now :: time
  cc_request :: request
  cc_persisted :: bool
  cc_answer :: "check \<Rightarrow> peer \<Rightarrow> result option"
  cc_op :: catalog_op

definition catalog_step :: "kdf \<Rightarrow> auth_config \<Rightarrow> (string \<Rightarrow> duration option) \<Rightarrow> configuration \<Rightarrow> catalog_call \<Rightarrow>
    auth \<times> monitor_book \<Rightarrow> (auth \<times> monitor_book) \<times> catalog_reply" where
  "catalog_step kd ac parse cfg x =
     (case cc_op x of
        ListMonitors \<Rightarrow> handle_monitors kd ac (cc_now x) (cc_request x)
      | CreateMonitor body \<Rightarrow> handle_create_monitor kd ac parse cfg (cc_now x) (cc_persisted x) (cc_request x) body
      | UpdateMonitor n body \<Rightarrow> handle_update_monitor kd ac parse cfg (cc_now x) (cc_persisted x) (cc_request x) n body
      | DeleteMonitor n body \<Rightarrow> handle_delete_monitor kd ac parse cfg (cc_now x) (cc_persisted x) (cc_request x) n body
      | ValidateMonitor body \<Rightarrow> handle_validate_monitor kd ac parse cfg (cc_now x) (cc_request x) body
      | TestMonitor body \<Rightarrow> handle_test_monitor kd ac parse cfg (cc_answer x) (cc_now x) (cc_request x) body
      | ListRevisions \<Rightarrow> handle_monitor_revisions kd ac (cc_now x) (cc_request x)
      | RollbackMonitors i body \<Rightarrow> handle_rollback_monitors kd ac parse cfg (cc_now x) (cc_persisted x) (cc_request x) i body)"

text \<open>The replies that say the catalogue was changed.\<close>

fun acknowledges :: "catalog_op \<Rightarrow> catalog_reply \<Rightarrow> bool" where
  "acknowledges (CreateMonitor _) (MonitorStored _) = True"
| "acknowledges (UpdateMonitor _ _) (MonitorStored _) = True"
| "acknowledges (DeleteMonitor _ _) MonitorDeleted = True"
| "acknowledges (RollbackMonitors _ _) (Monitors _) = True"
| "acknowledges _ _ = False"

text \<open>What every operation on a valid book guarantees.\<close>

definition keeps_book :: "(string \<Rightarrow> duration option) \<Rightarrow> configuration \<Rightarrow> bool \<Rightarrow> monitor_book \<Rightarrow> monitor_book \<Rightarrow> bool" where
  "keeps_book parse cfg ack b b' \<longleftrightarrow> monitor_book_ok parse cfg b' \<and> (if ack
     then mb_next b' = Suc (mb_next b) \<and> mb_revisions b' \<noteq> [] \<and> rv_catalog (last (mb_revisions b')) = monitor_list b'
     else monitor_book_view b' = monitor_book_view b)"

lemma last_revisions_last [simp]: "last_revisions (rs @ [rv]) \<noteq> []" "last (last_revisions (rs @ [rv])) = rv"
  by (simp_all add: last_revisions_def max_monitor_revisions_def last_drop)

lemma changed_keeps:
  assumes "monitor_book_ok parse cfg b'" "mb_next b' = Suc (mb_next b)" "mb_revisions b' = last_revisions (rs @ [rv])"
    "rv_catalog rv = monitor_list b'"
  shows "keeps_book parse cfg True b b'"
  unfolding keeps_book_def assms(3) using assms(1,2,4) by simp

lemma refused_keeps:
  assumes "monitor_book_ok parse cfg b'" "monitor_book_view b' = monitor_book_view b"
  shows "keeps_book parse cfg False b b'"
  using assms by (simp add: keeps_book_def)

lemma mutated_keeps:
  assumes "monitor_book_ok parse cfg b"
    "mutated ok (mutate_monitors parse cfg now persisted actor action subj ms b) = (b', reply)"
    "\<And>e. ack (CatalogRefused e) = False" "ack ok"
  shows "keeps_book parse cfg (ack reply) b b'"
  using assms(1)
proof (cases rule: mutate_monitors_cases [where now = now and persisted = persisted and actor = actor and action = action and subj = subj and ms = ms])
  case (refused b1 e)
  have "b' = b1" "reply = CatalogRefused e" using assms(2) unfolding refused(1) mutated_def by simp_all
  then show ?thesis using refused_keeps [OF refused(2,3)] assms(3) by simp
next
  case (changed b1)
  have "b' = b1" "reply = ok" using assms(2) unfolding changed(1) mutated_def by simp_all
  then show ?thesis using changed_keeps [OF changed(2,6,8)] assms(4) by simp
qed

lemma rollback_keeps:
  assumes "monitor_book_ok parse cfg b" "rollback_monitors parse cfg now persisted actor i b = (b', reply)"
  shows "keeps_book parse cfg (acknowledges (RollbackMonitors x y) reply) b b'"
proof (cases "find (\<lambda>rv. rv_id rv = i) (mb_revisions b)")
  case None
  then show ?thesis using assms by (simp add: rollback_monitors_def keeps_book_def)
next
  case (Some rv)
  from assms(1) show ?thesis
  proof (cases rule: mutate_monitors_cases [where now = now and persisted = persisted and actor = actor and action = "''rollback''" and subj = "itoa i" and ms = "rv_catalog rv"])
    case (refused b1 e)
    have "b' = b1" "reply = CatalogRefused e"
      using assms(2) unfolding rollback_monitors_def Some option.case refused(1) by simp_all
    then show ?thesis using refused_keeps [OF refused(2,3)] by simp
  next
    case (changed b1)
    have "b' = b1" "reply = Monitors (monitor_list b1)"
      using assms(2) unfolding rollback_monitors_def Some option.case changed(1) by auto
    then show ?thesis using changed_keeps [OF changed(2,6,8)] by simp
  qed
qed

lemma same_keeps: "monitor_book_ok parse cfg b \<Longrightarrow> keeps_book parse cfg False b b"
  by (simp add: keeps_book_def)

lemma create_keeps:
  assumes "monitor_book_ok parse cfg b" "create_monitor parse cfg now persisted actor m b = (b', reply)"
  shows "keeps_book parse cfg (acknowledges (CreateMonitor x) reply) b b'"
  using assms(2) same_keeps [OF assms(1)] mutated_keeps [OF assms(1), where ack = "acknowledges (CreateMonitor x)"]
  by (fastforce simp: create_monitor_def Let_def split: if_splits)

lemma update_keeps:
  assumes "monitor_book_ok parse cfg b" "update_monitor parse cfg now persisted actor n m b = (b', reply)"
  shows "keeps_book parse cfg (acknowledges (UpdateMonitor x y) reply) b b'"
  using assms(2) same_keeps [OF assms(1)] mutated_keeps [OF assms(1), where ack = "acknowledges (UpdateMonitor x y)"]
  by (fastforce simp: update_monitor_def Let_def split: if_splits)

lemma delete_keeps:
  assumes "monitor_book_ok parse cfg b" "delete_monitor parse cfg now persisted actor n b = (b', reply)"
  shows "keeps_book parse cfg (acknowledges (DeleteMonitor x y) reply) b b'"
  using assms(2) same_keeps [OF assms(1)] mutated_keeps [OF assms(1), where ack = "acknowledges (DeleteMonitor x y)"]
  by (fastforce simp: delete_monitor_def Let_def split: if_splits)

lemma catalog_handler_cases:
  assumes "catalog_handler kd ac now r perm f (a, b) = ((a', b'), reply)"
  obtains (denied) e where "require_permission kd ac now r perm a = (a', Inl e)" "b' = b" "reply = CatalogDenied e"
  | (admitted) who where "require_permission kd ac now r perm a = (a', Inr who)" "f who b = (b', reply)"
  using assms by (auto simp: catalog_handler_def split: prod.splits sum.splits)

lemma catalog_handler_keeps:
  assumes "catalog_handler kd ac now r perm f (a, b) = ((a', b'), reply)"
    "monitor_book_ok parse cfg b" "\<And>e. \<not> ack (CatalogDenied e)"
    "\<And>who b' reply. f who b = (b', reply) \<Longrightarrow> keeps_book parse cfg (ack reply) b b'"
  shows "keeps_book parse cfg (ack reply) b b'"
  using assms(1)
proof (cases rule: catalog_handler_cases)
  case (denied e)
  then show ?thesis using assms(2,3) by (simp add: same_keeps)
next
  case (admitted who)
  then show ?thesis using assms(4) by blast
qed

lemma catalog_step_keeps:
  assumes "catalog_step kd ac parse cfg x (a, b) = ((a', b'), reply)" "monitor_book_ok parse cfg b"
  shows "keeps_book parse cfg (acknowledges (cc_op x) reply) b b'"
proof -
  let ?now = "cc_now x" and ?r = "cc_request x" and ?p = "cc_persisted x"
  note q = same_keeps [OF assms(2)]
  show ?thesis
  proof (cases "cc_op x")
    case ListMonitors
    from assms(1) have h: "handle_monitors kd ac ?now ?r (a, b) = ((a', b'), reply)"
      by (simp add: catalog_step_def ListMonitors)
    show ?thesis unfolding ListMonitors
      by (rule catalog_handler_keeps [OF h [unfolded handle_monitors_def] assms(2)])
        (auto simp: q split: option.splits prod.splits)
  next
    case (CreateMonitor body)
    from assms(1) have h: "handle_create_monitor kd ac parse cfg ?now ?p ?r body (a, b) = ((a', b'), reply)"
      by (simp add: catalog_step_def CreateMonitor)
    show ?thesis unfolding CreateMonitor
      by (rule catalog_handler_keeps [OF h [unfolded handle_create_monitor_def] assms(2)])
        (auto simp: q split: option.splits prod.splits dest: create_keeps [OF assms(2)])
  next
    case (UpdateMonitor n body)
    from assms(1) have h: "handle_update_monitor kd ac parse cfg ?now ?p ?r n body (a, b) = ((a', b'), reply)"
      by (simp add: catalog_step_def UpdateMonitor)
    show ?thesis unfolding UpdateMonitor
      by (rule catalog_handler_keeps [OF h [unfolded handle_update_monitor_def] assms(2)])
        (auto simp: q split: option.splits prod.splits dest: update_keeps [OF assms(2)])
  next
    case (DeleteMonitor n body)
    from assms(1) have h: "handle_delete_monitor kd ac parse cfg ?now ?p ?r n body (a, b) = ((a', b'), reply)"
      by (simp add: catalog_step_def DeleteMonitor)
    show ?thesis unfolding DeleteMonitor
      by (rule catalog_handler_keeps [OF h [unfolded handle_delete_monitor_def] assms(2)])
        (auto simp: q split: option.splits prod.splits dest: delete_keeps [OF assms(2)])
  next
    case (ValidateMonitor body)
    from assms(1) have h: "handle_validate_monitor kd ac parse cfg ?now ?r body (a, b) = ((a', b'), reply)"
      by (simp add: catalog_step_def ValidateMonitor)
    show ?thesis unfolding ValidateMonitor
      by (rule catalog_handler_keeps [OF h [unfolded handle_validate_monitor_def] assms(2)])
        (auto simp: q split: option.splits prod.splits)
  next
    case (TestMonitor body)
    from assms(1) have h: "handle_test_monitor kd ac parse cfg (cc_answer x) ?now ?r body (a, b) = ((a', b'), reply)"
      by (simp add: catalog_step_def TestMonitor)
    show ?thesis unfolding TestMonitor
      by (rule catalog_handler_keeps [OF h [unfolded handle_test_monitor_def] assms(2)])
        (auto simp: q split: option.splits prod.splits)
  next
    case ListRevisions
    from assms(1) have h: "handle_monitor_revisions kd ac ?now ?r (a, b) = ((a', b'), reply)"
      by (simp add: catalog_step_def ListRevisions)
    show ?thesis unfolding ListRevisions
      by (rule catalog_handler_keeps [OF h [unfolded handle_monitor_revisions_def] assms(2)])
        (auto simp: q split: option.splits prod.splits)
  next
    case (RollbackMonitors i body)
    from assms(1) have h: "handle_rollback_monitors kd ac parse cfg ?now ?p ?r i body (a, b) = ((a', b'), reply)"
      by (simp add: catalog_step_def RollbackMonitors)
    show ?thesis unfolding RollbackMonitors
      by (rule catalog_handler_keeps [OF h [unfolded handle_rollback_monitors_def] assms(2)])
        (auto simp: q split: option.splits prod.splits dest: rollback_keeps [OF assms(2)])
  qed
qed

text \<open>A retained revision can always be brought back.\<close>

lemma rollback_restores:
  assumes ok: "monitor_book_ok parse cfg b" and rv: "rv \<in> set (mb_revisions b)" and actor: "trim_space actor \<noteq> []"
  obtains b' where "rollback_monitors parse cfg now True actor (rv_id rv) b = (b', Monitors (rv_catalog rv))"
    "monitor_list b' = rv_catalog rv" "mb_checks b' = enabled_checks parse (rv_catalog rv)"
proof -
  have s: "sorted_wrt (<) (map rv_id (mb_revisions b))" and r: "revision_ok parse cfg rv"
    using ok rv by (auto simp: monitor_book_ok_def revisions_ok_def)
  have inj: "inj_on rv_id (set (mb_revisions b))"
    using s by (metis distinct_map strict_sorted_iff)
  have "find (\<lambda>x. rv_id x = rv_id rv) (mb_revisions b) = Some rv"
  proof (cases "find (\<lambda>x. rv_id x = rv_id rv) (mb_revisions b)")
    case None
    then show ?thesis using rv by (auto simp: find_None_iff)
  next
    case (Some x)
    then have "x \<in> set (mb_revisions b)" "rv_id x = rv_id rv" by (auto simp: find_Some_iff)
    then show ?thesis using Some inj rv by (auto dest: inj_onD)
  qed
  note f = this
  have c: "catalog_ok parse cfg (rv_catalog rv)" "sorted (map mo_name (rv_catalog rv))"
    using r by (simp_all add: revision_ok_def)
  then have t: "map trimmed_name (rv_catalog rv) = rv_catalog rv" by (intro trimmed_list) (simp add: catalog_ok_def)
  then have v: "validate_catalog parse cfg (rv_catalog rv) = Inr (enabled_checks parse (rv_catalog rv))"
    using c by (simp add: validate_catalog_Inr)
  show ?thesis
  proof (cases rule: replace_catalog_cases [of parse cfg "rv_catalog rv" b])
    case (refused e)
    then show ?thesis using v by simp
  next
    case (accepted b1)
    define b2 where "b2 = add_revision now (trim_space actor) ''rollback'' (itoa (rv_id rv)) b1"
    have m: "mutate_monitors parse cfg now True actor ''rollback'' (itoa (rv_id rv)) (rv_catalog rv) b = (b2, None)"
      using actor accepted(1) by (simp add: mutate_monitors_def b2_def)
    have l: "monitor_list b2 = rv_catalog rv" using accepted(3) t c(2)
      by (simp add: b2_def) (simp add: monitor_list_def sort_key_id_if_sorted)
    have "rollback_monitors parse cfg now True actor (rv_id rv) b = (b2, Monitors (rv_catalog rv))"
      by (simp only: rollback_monitors_def f option.case m prod.case l)
    moreover have "mb_checks b2 = enabled_checks parse (rv_catalog rv)"
      using accepted(7) unfolding t b2_def by simp
    ultimately show ?thesis using l by (intro that)
  qed
qed

text \<open>Any sequence of requests.\<close>

definition catalog_run :: "kdf \<Rightarrow> auth_config \<Rightarrow> (string \<Rightarrow> duration option) \<Rightarrow> configuration \<Rightarrow> catalog_call list \<Rightarrow>
    auth \<times> monitor_book \<Rightarrow> auth \<times> monitor_book" where
  "catalog_run kd ac parse cfg calls s = foldl (\<lambda>s x. fst (catalog_step kd ac parse cfg x s)) s calls"

lemma catalog_run_ok:
  "monitor_book_ok parse cfg (snd s) \<Longrightarrow> monitor_book_ok parse cfg (snd (catalog_run kd ac parse cfg calls s))"
proof (induction calls arbitrary: s)
  case Nil
  then show ?case by (simp add: catalog_run_def)
next
  case (Cons x calls)
  obtain a b where s: "s = (a, b)" by (cases s)
  obtain a' b' reply where x: "catalog_step kd ac parse cfg x (a, b) = ((a', b'), reply)" by (metis prod.exhaust)
  have "monitor_book_ok parse cfg b'"
    using catalog_step_keeps [OF x] Cons.prems by (simp add: s keeps_book_def)
  then show ?case using Cons.IH [of "(a', b')"] x by (simp add: catalog_run_def s)
qed

text \<open>What the invariant says of the catalogue, without the definitions it is made of.\<close>

lemma monitor_book_valid:
  assumes "monitor_book_ok parse cfg b"
  shows "\<exists>act. validate_catalog parse cfg (monitor_list b) = Inr act \<and> map_of act = map_of (mb_checks b)"
    "length (mb_revisions b) \<le> max_monitor_revisions" "sorted_wrt (<) (map rv_id (mb_revisions b))"
    "rv \<in> set (mb_revisions b) \<Longrightarrow> \<exists>act. validate_catalog parse cfg (rv_catalog rv) = Inr act"
proof -
  have m: "monitors_ok parse cfg b" and r: "revisions_ok parse cfg b" using assms by (simp_all add: monitor_book_ok_def)
  have t: "\<exists>act. validate_catalog parse cfg ms = Inr act \<and> act = enabled_checks parse ms" if "catalog_ok parse cfg ms" for ms
  proof -
    have "map trimmed_name ms = ms" using that by (intro trimmed_list) (simp add: catalog_ok_def)
    then show ?thesis using that by (simp add: validate_catalog_Inr)
  qed
  show "\<exists>act. validate_catalog parse cfg (monitor_list b) = Inr act \<and> map_of act = map_of (mb_checks b)"
    using t [OF monitor_list_props(1) [OF m]] monitor_list_props(3) [OF m] by auto
  show "length (mb_revisions b) \<le> max_monitor_revisions" "sorted_wrt (<) (map rv_id (mb_revisions b))"
    using r by (simp_all add: revisions_ok_def)
  show "\<exists>act. validate_catalog parse cfg (rv_catalog rv) = Inr act" if "rv \<in> set (mb_revisions b)"
    using r that t [of "rv_catalog rv"] by (auto simp: revisions_ok_def revision_ok_def)
qed

end
