(* ===== verification/Startup.thy ===== *)
theory Startup
  imports Catalog Wire
begin

text \<open>
  Building a coordinator (\<open>New\<close> in \<open>internal/coordinator/coordinator.go\<close>): the defaults, what is refused,
  and the state a coordinator starts with before the state file is read. Parsing URLs and durations is
  a parameter.
\<close>

section \<open>Refusals\<close>

datatype ha_error = HARole | HANegative | StandbyStateFile | StandbyHistoryFile | StandbyToken | StandbyURL

datatype startup_error = NameMissing | KeySize nat | NoPeers | BadNotifications notify_error | NegativeHistory
  | BadHA ha_error | BadOIDC oidc_error | BadPrometheus prometheus_error | BadProfile string | DuplicatePeer string
  | SharedKey string string | BadKey wire_error | BadCheck catalog_error | BadComponent component_error
  | DuplicateComponent string | BadMaintenance suppression_error

definition role_primary :: string where "role_primary = ''primary''"
definition role_standby :: string where "role_standby = ''standby''"

text \<open>\<open>parse\<close> is \<open>url.ParseRequestURI\<close>, giving the scheme and the host.\<close>

definition validate_ha_config :: "(string \<Rightarrow> (string \<times> string) option) \<Rightarrow> configuration \<Rightarrow> ha_error option" where
  "validate_ha_config parse cfg =
     (let h = su_ha cfg; role = (if ha_role h = [] then role_primary else ha_role h) in
      if role \<noteq> role_primary \<and> role \<noteq> role_standby then Some HARole
      else if ha_interval h < 0 \<or> ha_timeout h < 0 then Some HANegative
      else if role = role_standby then
        (if su_state_file cfg = [] then Some StandbyStateFile
         else if su_history_file cfg = [] then Some StandbyHistoryFile
         else if blank (ha_token h) then Some StandbyToken
         else case parse (ha_primary_url h) of None \<Rightarrow> Some StandbyURL
         | Some (scheme, host) \<Rightarrow> if host = [] \<or> scheme \<noteq> ''http'' \<and> scheme \<noteq> ''https'' then Some StandbyURL else None)
      else None)"

section \<open>Defaults\<close>

definition default_fan_out_timeout :: duration where "default_fan_out_timeout = 20 * second"
definition default_request_ttl :: duration where "default_request_ttl = 30 * second"
definition default_result_max_age :: duration where "default_result_max_age = 2 * minute"
definition default_max_fan_outs :: int where "default_max_fan_outs = 16"
definition default_max_pending :: int where "default_max_pending = 128"

definition positive_or :: "int \<Rightarrow> int \<Rightarrow> int" where
  "positive_or d x = (if x \<le> 0 then d else x)"

definition with_defaults :: "configuration \<Rightarrow> configuration" where
  "with_defaults cfg = cfg\<lparr>su_fan_out_timeout := positive_or default_fan_out_timeout (su_fan_out_timeout cfg),
     su_request_ttl := positive_or default_request_ttl (su_request_ttl cfg),
     su_result_max_age := positive_or default_result_max_age (su_result_max_age cfg),
     su_max_fan_outs := positive_or default_max_fan_outs (su_max_fan_outs cfg),
     su_max_pending := positive_or default_max_pending (su_max_pending cfg),
     su_session_ttl := positive_or (12 * hour) (su_session_ttl cfg)\<rparr>"

section \<open>Probers, checks and components\<close>

definition profiles_ok :: "peer \<Rightarrow> bool" where
  "profiles_ok p \<longleftrightarrow> list_all (\<lambda>(n, e). valid_route_id n \<and> valid_route_id e) (p_proxy_profiles p)"

text \<open>\<open>seen\<close> holds the probers taken so far, for the maps by name and by key.\<close>

fun add_peers :: "peer list \<Rightarrow> keyring \<Rightarrow> peer list \<Rightarrow> startup_error + peer list \<times> keyring" where
  "add_peers seen ring [] = Inr (seen, ring)"
| "add_peers seen ring (p # ps) =
     (if \<not> profiles_ok p then Inl (BadProfile (p_name p))
      else if peer_by_name seen (p_name p) \<noteq> None then Inl (DuplicatePeer (p_name p))
      else case find (\<lambda>q. p_public_key q = p_public_key p) seen of Some q \<Rightarrow> Inl (SharedKey (p_name q) (p_name p)) | None \<Rightarrow>
        (case keyring_add ring (p_name p) (p_public_key p) of Inl e \<Rightarrow> Inl (BadKey e)
         | Inr ring \<Rightarrow> add_peers (seen @ [p]) ring ps))"

fun admit_checks :: "configuration \<Rightarrow> string list \<Rightarrow> check list \<Rightarrow> catalog_error option" where
  "admit_checks cfg seen [] = None"
| "admit_checks cfg seen (c # cs) =
     (case check_validate c of Some e \<Rightarrow> Some (MonitorInvalid e) | None \<Rightarrow>
        if \<not> response_budget cfg c then Some (NoResponseBudget (c_name c))
        else if List.member seen (c_name c) then Some (DuplicateMonitor (c_name c))
        else case check_feasible cfg c of Some e \<Rightarrow> Some e | None \<Rightarrow> admit_checks cfg (c_name c # seen) cs)"

fun admit_components :: "(string \<Rightarrow> bool) \<Rightarrow> string list \<Rightarrow> component list \<Rightarrow> startup_error option" where
  "admit_components known seen [] = None"
| "admit_components known seen (cm # cms) =
     (case component_validate cm (Some known) of Some e \<Rightarrow> Some (BadComponent e) | None \<Rightarrow>
        if List.member seen (comp_name cm) then Some (DuplicateComponent (comp_name cm))
        else admit_components known (comp_name cm # seen) cms)"

fun admit_maintenance :: "(string \<Rightarrow> duration option) \<Rightarrow> maintenance list \<Rightarrow> startup_error option" where
  "admit_maintenance parse [] = None"
| "admit_maintenance parse (m # ms) =
     (case maintenance_validate parse m of Some e \<Rightarrow> Some (BadMaintenance e) | None \<Rightarrow> admit_maintenance parse ms)"

section \<open>A coordinator that has not started yet\<close>

text \<open>The parsers New calls: of durations, of request URIs, of URLs and of the URLs of metrics sources.\<close>

record parsers =
  pa_duration :: "string \<Rightarrow> duration option"
  pa_request_uri :: "string \<Rightarrow> (string \<times> string) option"
  pa_url :: "string \<Rightarrow> (string \<times> string) option"
  pa_prometheus :: "string \<Rightarrow> prometheus_url option"

record startup =
  st_config :: configuration
  st_ring :: keyring
  st_sources :: "prometheus_runtime list"
  st_book :: monitor_book
  st_coord :: coord

definition desk_destinations :: "configuration \<Rightarrow> string list" where
  "desk_destinations cfg = ''default'' # map ds_name (su_destinations cfg)"

text \<open>The part of the configuration the decisions read.\<close>

definition coord_config_of :: "configuration \<Rightarrow> coord_config" where
  "coord_config_of cfg =
     \<lparr>dc_maintenance = su_maintenance cfg, dc_destinations = desk_destinations cfg, dc_routes = su_routes cfg,
      dc_escalations = su_escalations cfg, dc_retry_initial = su_retry_initial cfg, dc_retry_max = su_retry_max cfg,
      cc_peers = su_peers cfg, cc_components = su_components cfg, cc_result_max_age = su_result_max_age cfg,
      cc_stale_multiplier = su_stale_multiplier cfg, cc_stale_grace = su_stale_grace cfg,
      cc_mesh_max_age = su_mesh_max_age cfg, cc_mesh_min_peers = su_mesh_min_peers cfg,
      cc_heartbeat_interval = su_heartbeat_interval cfg, cc_history = su_history cfg\<rparr>"

definition check_config :: "parsers \<Rightarrow> configuration \<Rightarrow> startup_error option" where
  "check_config pa cfg =
     (case validate_notifications cfg (map c_name (su_checks cfg)) of Some e \<Rightarrow> Some (BadNotifications e) | None \<Rightarrow>
        if hc_retention (su_history cfg) < 0 \<or> hc_max_per_check (su_history cfg) < 0 then Some NegativeHistory
        else case validate_ha_config (pa_request_uri pa) cfg of Some e \<Rightarrow> Some (BadHA e) | None \<Rightarrow>
          map_option BadOIDC (validate_oidc_config (pa_url pa) (su_oidc cfg)))"

text \<open>Without the state file, the journal and the bootstrap administrator.\<close>

definition new_coordinator :: "parsers \<Rightarrow> time \<Rightarrow> configuration \<Rightarrow> startup_error + startup" where
  "new_coordinator pa now cfg =
     (if blank (su_name cfg) then Inl NameMissing
      else if length (su_key cfg) \<noteq> private_key_size then Inl (KeySize (length (su_key cfg)))
      else if su_peers cfg = [] then Inl NoPeers
      else let cfg = with_defaults cfg in
      case check_config pa cfg of Some e \<Rightarrow> Inl e | None \<Rightarrow>
      case prepare_prometheus_sources (pa_prometheus pa) (su_prometheus cfg) of Inl e \<Rightarrow> Inl (BadPrometheus e) | Inr sources \<Rightarrow>
      case add_peers [] [] (su_peers cfg) of Inl e \<Rightarrow> Inl e | Inr (peers, ring) \<Rightarrow>
        (let cfg = cfg\<lparr>su_peers := sort_key p_name peers\<rparr> in
         case admit_checks cfg [] (su_checks cfg) of Some e \<Rightarrow> Inl (BadCheck e) | None \<Rightarrow>
         case admit_components (List.member (map c_name (su_checks cfg))) [] (su_components cfg) of Some e \<Rightarrow> Inl e | None \<Rightarrow>
         case admit_maintenance (pa_duration pa) (su_maintenance cfg) of Some e \<Rightarrow> Inl e | None \<Rightarrow>
           Inr \<lparr>st_config = cfg, st_ring = ring, st_sources = sources, st_book = baseline now (su_checks cfg),
             st_coord = initial_coord (su_checks cfg) now\<rparr>))"

section \<open>Durations as text\<close>

lemma strip_first_None: "strip_first ps s = None \<longleftrightarrow> (\<forall>p \<in> set ps. p = [] \<or> \<not> has_prefix s p)"
  by (induction ps) auto

lemma trim_plain:
  assumes "c \<notin> hd ` set space_runes" "d \<notin> last ` set space_runes"
  shows "trim_space (c # cs @ [d]) = c # cs @ [d]"
proof -
  have "[] \<notin> set space_runes" by (simp add: space_runes_def)
  then have "strip_first space_runes (c # cs @ [d]) = None"
    unfolding strip_first_None using assms(1) by (auto simp: has_prefix_iff image_iff) (metis list.sel(1) append_eq_Cons_conv)
  moreover have "strip_first (map rev space_runes) (d # rev cs @ [c]) = None"
    unfolding strip_first_None using assms(2)
    by (auto simp: has_prefix_iff image_iff) (metis append_eq_Cons_conv rev_is_Nil_conv last_rev list.sel(1) rev_rev_ident hd_rev)
  ultimately have "trim_left space_runes (c # cs @ [d]) = c # cs @ [d]"
    "trim_left (map rev space_runes) (d # rev cs @ [c]) = d # rev cs @ [c]"
    by (simp_all add: trim_left.simps)
  then show ?thesis by (simp add: trim_space_def)
qed

lemma digit_plain: "48 \<le> (of_char c :: nat) \<Longrightarrow> (of_char c :: nat) \<le> 57 \<Longrightarrow> c \<notin> hd ` set space_runes"
  by (auto simp: space_runes_def)

lemma dur_string_shape: "\<exists>c cs. dur_string d = c # cs @ ''s'' \<and> c \<notin> hd ` set space_runes"
proof -
  have i: "\<exists>c cs. itoa n = c # cs \<and> c \<notin> hd ` set space_runes" for n
    using itoa_nonempty [of n] itoa_ascii [of "hd (itoa n)" n] digit_plain by (cases "itoa n") auto
  have a: "\<exists>c cs. itoa n @ r @ ''s'' = c # cs @ ''s'' \<and> c \<notin> hd ` set space_runes" for n r
    using i [of n] by (metis append_Cons append_assoc)
  have z: "CHR ''0'' \<notin> hd ` set space_runes" "CHR ''-'' \<notin> hd ` set space_runes" by (auto simp: space_runes_def)
  have p: "\<exists>c cs. dur_string_pos u = c # cs @ ''s'' \<and> c \<notin> hd ` set space_runes" for u
  proof (cases "u = 0")
    case True
    then show ?thesis using z by (auto simp: dur_string_pos_def)
  next
    case False
    have "\<exists>n r. dur_string_pos u = itoa n @ r @ ''s''"
    proof (cases "u < 1000000000")
      case True
      consider "u < 1000" | "\<not> u < 1000" "u < 1000000" | "\<not> u < 1000000" by blast
      then show ?thesis
      proof cases
        case 1
        then have "dur_string_pos u = itoa u @ ''n'' @ ''s''" using False True by (simp add: dur_string_pos_def)
        then show ?thesis by blast
      next
        case 2
        then have "dur_string_pos u = itoa (u div 1000) @ (fraction 3 u @ map byte [0xC2, 0xB5]) @ ''s''"
          using False True by (simp add: dur_string_pos_def)
        then show ?thesis by blast
      next
        case 3
        then have "dur_string_pos u = itoa (u div 1000000) @ (fraction 6 u @ ''m'') @ ''s''"
          using False True by (simp add: dur_string_pos_def)
        then show ?thesis by blast
      qed
    next
      case large: False
      let ?s = "u div 1000000000"
      let ?seconds = "itoa (?s mod 60) @ fraction 9 u @ ''s''"
      consider "?s div 60 = 0" | "?s div 60 \<noteq> 0" "?s div 60 div 60 = 0" | "?s div 60 \<noteq> 0" "?s div 60 div 60 \<noteq> 0" by blast
      then show ?thesis
      proof cases
        case 1
        then have "dur_string_pos u = ?seconds" using large by (simp add: dur_string_pos_def Let_def)
        then show ?thesis by blast
      next
        case 2
        then have "dur_string_pos u = itoa (?s div 60 mod 60) @ (''m'' @ itoa (?s mod 60) @ fraction 9 u) @ ''s''"
          using large by (simp add: dur_string_pos_def Let_def)
        then show ?thesis by blast
      next
        case 3
        then have "dur_string_pos u = itoa (?s div 60 div 60) @
            (''h'' @ itoa (?s div 60 mod 60) @ ''m'' @ itoa (?s mod 60) @ fraction 9 u) @ ''s''"
          using large by (simp add: dur_string_pos_def Let_def)
        then show ?thesis by blast
      qed
    qed
    then show ?thesis using a by metis
  qed
  show ?thesis
  proof (cases "d < 0")
    case True
    obtain c cs where "dur_string_pos (nat (- d)) = c # cs @ ''s''" using p by blast
    then have "dur_string d = CHR ''-'' # (c # cs) @ ''s''" using True by (simp add: dur_string_def)
    then show ?thesis using z by blast
  next
    case False
    then show ?thesis using p by (simp add: dur_string_def)
  qed
qed

lemma trim_dur_string [simp]: "trim_space (dur_string d) = dur_string d"
proof -
  have "CHR ''s'' \<notin> last ` set space_runes" by (auto simp: space_runes_def)
  then show ?thesis using dur_string_shape [of d] trim_plain by auto
qed

lemma dur_string_nonempty [simp]: "dur_string d \<noteq> []"
  using dur_string_shape [of d] by auto

section \<open>What an accepted configuration satisfies\<close>

lemma admit_checks_None:
  "admit_checks cfg seen cs = None \<longleftrightarrow> distinct (map c_name cs) \<and> set seen \<inter> c_name ` set cs = {} \<and>
     (\<forall>c \<in> set cs. check_validate c = None \<and> response_budget cfg c \<and> check_feasible cfg c = None)"
  by (induction cfg seen cs rule: admit_checks.induct) (auto split: option.splits)

lemma admit_components_None:
  "admit_components known seen cms = None \<Longrightarrow> distinct (map comp_name cms) \<and>
     (\<forall>cm \<in> set cms. component_validate cm (Some known) = None)"
proof (induction known seen cms rule: admit_components.induct)
  case (2 known seen cm cms)
  have "comp_name cm \<notin> comp_name ` set cms"
    if "admit_components known (comp_name cm # seen) cms = None"
  proof -
    have "admit_components known s xs = None \<Longrightarrow> set s \<inter> comp_name ` set xs = {}" for s xs
      by (induction known s xs rule: admit_components.induct) (auto split: option.splits if_splits)
    from this [OF that] show ?thesis by auto
  qed
  with 2 show ?case by (auto split: option.splits if_splits)
qed simp

lemma member_checks_known:
  "member_checks (Some k) seen ns = None \<Longrightarrow> n \<in> set ns \<Longrightarrow> k n"
  by (induction "Some k" seen ns rule: member_checks.induct) (auto split: if_splits)

lemma component_members_known:
  "component_validate cm (Some k) = None \<Longrightarrow> n \<in> set (comp_checks cm) \<Longrightarrow> k n"
  by (auto simp: component_validate_def dest: member_checks_known split: if_splits option.splits)

lemma peer_by_name_None: "peer_by_name ps n = None \<longleftrightarrow> n \<notin> p_name ` set ps"
  by (auto simp: peer_by_name_def find_None_iff)

lemma add_peers_Inr:
  assumes "add_peers seen ring ps = Inr (peers, ring')" "distinct (map p_name seen)" "distinct (map p_public_key seen)"
    "map_of ring = (\<lambda>n. map_option p_public_key (peer_by_name seen n))"
  shows "peers = seen @ ps \<and> distinct (map p_name peers) \<and> distinct (map p_public_key peers) \<and>
    map_of ring' = (\<lambda>n. map_option p_public_key (peer_by_name peers n)) \<and>
    (\<forall>p \<in> set ps. profiles_ok p \<and> p_name p \<noteq> [] \<and> length (p_public_key p) = public_key_size)"
  using assms
proof (induction seen ring ps rule: add_peers.induct)
  case (1 seen ring)
  then show ?case by simp
next
  case (2 seen ring p ps)
  from "2.prems"(1) obtain ring1 where r: "profiles_ok p" "peer_by_name seen (p_name p) = None"
    "find (\<lambda>q. p_public_key q = p_public_key p) seen = None" "keyring_add ring (p_name p) (p_public_key p) = Inr ring1"
    "add_peers (seen @ [p]) ring1 ps = Inr (peers, ring')"
    by (auto split: if_splits option.splits sum.splits)
  have k: "p_name p \<noteq> []" "length (p_public_key p) = public_key_size" "ring1 = AList.update (p_name p) (p_public_key p) ring"
    using r(4) by (auto simp: keyring_add_def split: if_splits)
  have d: "distinct (map p_name (seen @ [p]))" "distinct (map p_public_key (seen @ [p]))"
    using "2.prems"(2,3) r(2,3) by (auto simp: peer_by_name_None find_None_iff)
  have f: "peer_by_name (seen @ [p]) n = (if n = p_name p then Some p else peer_by_name seen n)" for n
    using r(2) by (induction seen) (auto simp: peer_by_name_def)
  have m: "map_of ring1 = (\<lambda>n. map_option p_public_key (peer_by_name (seen @ [p]) n))"
    unfolding k(3) f update_conv' "2.prems"(4) by auto
  note ih = "2.IH" [OF _ _ r(3) r(4) r(5) d m]
  have "peers = (seen @ [p]) @ ps" "distinct (map p_name peers)" "distinct (map p_public_key peers)"
    "map_of ring' = (\<lambda>n. map_option p_public_key (peer_by_name peers n))"
    "\<forall>p \<in> set ps. profiles_ok p \<and> p_name p \<noteq> [] \<and> length (p_public_key p) = public_key_size"
    using ih r(1,2) by blast+
  then show ?case using r(1) k by (intro conjI) simp_all
qed

lemma peer_by_name_Some:
  "distinct (map p_name ps) \<Longrightarrow> peer_by_name ps n = Some p \<longleftrightarrow> p \<in> set ps \<and> p_name p = n"
  by (induction ps) (auto simp: peer_by_name_def)

lemma peer_by_name_cong:
  assumes "distinct (map p_name ps)" "mset ps = mset qs"
  shows "peer_by_name ps = peer_by_name qs"
proof (rule ext, rule option.expand)
  fix n
  have d: "distinct (map p_name qs)" using assms by (metis mset_map mset_eq_imp_distinct_iff)
  have s: "set ps = set qs" by (rule mset_eq_setD [OF assms(2)])
  show "(peer_by_name ps n = None) = (peer_by_name qs n = None)" by (simp add: peer_by_name_None s)
  assume "peer_by_name ps n \<noteq> None"
  then obtain p where p: "peer_by_name ps n = Some p" by blast
  then have "peer_by_name qs n = Some p" using peer_by_name_Some [OF assms(1)] peer_by_name_Some [OF d] s by simp
  with p show "the (peer_by_name ps n) = the (peer_by_name qs n)" by simp
qed

text \<open>What \<open>New\<close> has checked when it returns a coordinator.\<close>

lemma check_config_None:
  "check_config pa cfg = None \<longleftrightarrow> validate_notifications cfg (map c_name (su_checks cfg)) = None \<and>
     0 \<le> hc_retention (su_history cfg) \<and> 0 \<le> hc_max_per_check (su_history cfg) \<and>
     validate_ha_config (pa_request_uri pa) cfg = None \<and> validate_oidc_config (pa_url pa) (su_oidc cfg) = None"
  by (auto simp: check_config_def split: option.splits)

text \<open>The configuration a coordinator runs with.\<close>

definition accepted_config :: "configuration \<Rightarrow> configuration" where
  "accepted_config cfg = (with_defaults cfg)\<lparr>su_peers := sort_key p_name (su_peers cfg)\<rparr>"

lemma with_defaults_simps [simp]:
  "su_peers (with_defaults cfg) = su_peers cfg" "su_checks (with_defaults cfg) = su_checks cfg"
  "su_components (with_defaults cfg) = su_components cfg" "su_maintenance (with_defaults cfg) = su_maintenance cfg"
  "su_prometheus (with_defaults cfg) = su_prometheus cfg" "su_history (with_defaults cfg) = su_history cfg"
  "su_routes (with_defaults cfg) = su_routes cfg" "su_escalations (with_defaults cfg) = su_escalations cfg"
  "su_destinations (with_defaults cfg) = su_destinations cfg" "su_ha (with_defaults cfg) = su_ha cfg"
  by (simp_all add: with_defaults_def)

lemma accepted_config_simps [simp]:
  "su_peers (accepted_config cfg) = sort_key p_name (su_peers cfg)" "su_checks (accepted_config cfg) = su_checks cfg"
  "su_components (accepted_config cfg) = su_components cfg" "su_maintenance (accepted_config cfg) = su_maintenance cfg"
  "su_routes (accepted_config cfg) = su_routes cfg" "su_escalations (accepted_config cfg) = su_escalations cfg"
  "su_destinations (accepted_config cfg) = su_destinations cfg" "su_ha (accepted_config cfg) = su_ha cfg"
  by (simp_all add: accepted_config_def)

lemma new_coordinator_Inr:
  assumes "new_coordinator pa now cfg = Inr st"
  shows "st_config st = accepted_config cfg" "st_book st = baseline now (su_checks cfg)"
    "st_coord st = initial_coord (su_checks cfg) now" "check_config pa (with_defaults cfg) = None"
    "prepare_prometheus_sources (pa_prometheus pa) (su_prometheus cfg) = Inr (st_sources st)"
    "add_peers [] [] (su_peers cfg) = Inr (su_peers cfg, st_ring st)"
    "admit_checks (accepted_config cfg) [] (su_checks cfg) = None"
    "admit_components (List.member (map c_name (su_checks cfg))) [] (su_components cfg) = None"
    "admit_maintenance (pa_duration pa) (su_maintenance cfg) = None"
    "\<not> blank (su_name cfg)" "length (su_key cfg) = private_key_size"
proof -
  note n = assms [unfolded new_coordinator_def Let_def]
  show 1: "\<not> blank (su_name cfg)" "length (su_key cfg) = private_key_size"
    using n by (auto split: if_splits)
  obtain sources where s: "check_config pa (with_defaults cfg) = None"
    "prepare_prometheus_sources (pa_prometheus pa) (su_prometheus cfg) = Inr sources"
    using n by (auto split: if_splits option.splits sum.splits)
  obtain peers ring where a: "add_peers [] [] (su_peers cfg) = Inr (peers, ring)"
    using n s by (auto split: if_splits option.splits sum.splits)
  then have p: "peers = su_peers cfg" using add_peers_Inr [OF a] by (simp add: peer_by_name_def fun_eq_iff)
  define c where "c = accepted_config cfg"
  have c: "(with_defaults cfg)\<lparr>su_peers := sort_key p_name peers\<rparr> = c" "su_checks c = su_checks cfg"
    "su_components c = su_components cfg" "su_maintenance c = su_maintenance cfg"
    by (simp_all add: c_def p) (simp add: accepted_config_def)
  have m: "admit_checks c [] (su_checks cfg) = None"
    "admit_components (List.member (map c_name (su_checks cfg))) [] (su_components cfg) = None"
    "admit_maintenance (pa_duration pa) (su_maintenance cfg) = None"
    "st = \<lparr>st_config = c, st_ring = ring, st_sources = sources, st_book = baseline now (su_checks cfg),
             st_coord = initial_coord (su_checks cfg) now\<rparr>"
    using n 1 s a unfolding with_defaults_simps s a option.case sum.case prod.case c
    by (auto split: if_splits option.splits)
  then show "st_config st = accepted_config cfg" "st_book st = baseline now (su_checks cfg)"
    "st_coord st = initial_coord (su_checks cfg) now" "check_config pa (with_defaults cfg) = None"
    "prepare_prometheus_sources (pa_prometheus pa) (su_prometheus cfg) = Inr (st_sources st)"
    "add_peers [] [] (su_peers cfg) = Inr (su_peers cfg, st_ring st)"
    "admit_checks (accepted_config cfg) [] (su_checks cfg) = None"
    "admit_components (List.member (map c_name (su_checks cfg))) [] (su_components cfg) = None"
    "admit_maintenance (pa_duration pa) (su_maintenance cfg) = None"
    using s a p by (simp_all add: c_def)
qed

section \<open>The first catalogue\<close>

text \<open>A check whose texts survive being written as a monitor and read back: its name and target have no
  surrounding space, and \<open>time.ParseDuration\<close> reads what \<open>Duration.String\<close> wrote of its durations.\<close>

definition writes_back :: "(string \<Rightarrow> duration option) \<Rightarrow> check \<Rightarrow> bool" where
  "writes_back parse c \<longleftrightarrow> trim_space (c_name c) = c_name c \<and> trim_space (c_target c) = c_target c \<and>
     (\<forall>d \<in> {c_interval c, c_timeout c, c_tls_expiry_warning c, c_latency_warning c}. parse (dur_string d) = Some d)"

lemma optional_duration_string [simp]:
  "parse (dur_string d) = Some d \<Longrightarrow> optional_duration parse (duration_string d) = Some d"
  by (simp add: optional_duration_def duration_string_def Let_def)

lemma to_check_from_check: "writes_back parse c \<Longrightarrow> to_check parse (monitor_from_check c) = Inr c"
  by (simp add: to_check_def monitor_from_check_def writes_back_def)

lemma monitor_from_check_simps [simp]:
  "mo_name (monitor_from_check c) = c_name c" "mo_enabled (monitor_from_check c)"
  by (simp_all add: monitor_from_check_def)

lemma foldl_update_fresh:
  "distinct (map f xs) \<Longrightarrow> foldl (\<lambda>m x. AList.update (f x) (g x) m) [] xs = map (\<lambda>x. (f x, g x)) xs"
proof (induction xs rule: rev_induct)
  case (snoc x xs)
  then show ?case by (simp add: update_fresh image_image)
qed simp

lemma baseline_maps:
  assumes "distinct (map c_name cs)"
  shows "mb_monitors (baseline now cs) = map (\<lambda>c. (c_name c, monitor_from_check c)) cs"
    "mb_checks (baseline now cs) = map (\<lambda>c. (c_name c, c)) cs"
  using foldl_update_fresh [OF assms, of monitor_from_check] foldl_update_fresh [OF assms, of "\<lambda>c. c"]
  by (simp_all add: baseline_def Let_def)

lemma enabled_from_checks:
  "\<forall>c \<in> set cs. writes_back parse c \<Longrightarrow> enabled_checks parse (map monitor_from_check cs) = map (\<lambda>c. (c_name c, c)) cs"
  by (induction cs) (auto simp: check_of_def to_check_from_check)

lemma missing_members_known:
  "(\<And>cm n. cm \<in> set cms \<Longrightarrow> n \<in> set (comp_checks cm) \<Longrightarrow> map_of act n \<noteq> None) \<Longrightarrow> missing_members act cms = None"
proof (induction cms)
  case (Cons cm cms)
  have "find (\<lambda>n. map_of act n = None) (comp_checks cm) = None" using Cons.prems [of cm] by (auto simp: find_None_iff)
  moreover have "missing_members act cms = None" using Cons.prems by (intro Cons.IH) auto
  ultimately show ?case by (simp add: missing_member_def)
qed simp

lemma validate_notifications_peers:
  assumes "set (map p_name ps) = set (map p_name (su_peers cfg))"
  shows "validate_notifications (cfg\<lparr>su_peers := ps\<rparr>) ns = validate_notifications cfg ns"
proof -
  have "first_unknown (map p_name ps) = first_unknown (map p_name (su_peers cfg))" by (rule first_unknown_cong [OF assms])
  then have "validate_alert_selector k l (map p_name ps) = validate_alert_selector k l (map p_name (su_peers cfg))" for k l
    by (intro ext) (simp only: validate_alert_selector_def)
  note sel = this
  let ?c = "cfg\<lparr>su_peers := ps\<rparr>"
  have f: "su_retry_initial ?c = su_retry_initial cfg" "su_retry_max ?c = su_retry_max cfg"
    "su_retry_interval ?c = su_retry_interval cfg" "su_destinations ?c = su_destinations cfg"
    "su_components ?c = su_components cfg" "su_peers ?c = ps" "su_routes ?c = su_routes cfg"
    "su_escalations ?c = su_escalations cfg"
    by simp_all
  show ?thesis by (simp only: validate_notifications_def f sel)
qed

lemma check_valid_name: "check_validate c = None \<Longrightarrow> \<not> blank (c_name c)"
  by (simp add: check_validate_None validate_cases_def)

lemma baseline_ok:
  assumes new: "new_coordinator pa now cfg = Inr st" and w: "\<forall>c \<in> set (su_checks cfg). writes_back parse c"
  shows "monitor_book_ok parse (st_config st) (st_book st)"
    "map_of (mb_checks (st_book st)) = map_of (map (\<lambda>c. (c_name c, c)) (su_checks cfg))"
proof -
  let ?c = "accepted_config cfg" and ?cs = "su_checks cfg" and ?b = "baseline now (su_checks cfg)"
  note n = new_coordinator_Inr [OF new]
  have adm: "distinct (map c_name ?cs)"
    "\<forall>c \<in> set ?cs. check_validate c = None \<and> response_budget ?c c \<and> check_feasible ?c c = None"
    using n(7) by (simp_all add: admit_checks_None)
  note maps = baseline_maps [OF adm(1), of now]
  have snd: "map snd (mb_monitors ?b) = map monitor_from_check ?cs" by (simp add: maps comp_def)
  have act: "enabled_checks parse (map monitor_from_check ?cs) = mb_checks ?b"
    using enabled_from_checks [OF w] maps(2) by simp
  have names: "map fst (mb_checks ?b) = map c_name ?cs" by (simp add: maps comp_def)
  have nonblank: "c_name c \<noteq> []" if "c \<in> set ?cs" for c
    using check_valid_name [of c] adm(2) that by auto
  have "monitor_ok parse ?c (monitor_from_check c) c" if "c \<in> set ?cs" for c
    using adm(2) w that nonblank [OF that] by (simp add: monitor_ok_def to_check_from_check)
  moreover have "missing_members (mb_checks ?b) (su_components ?c) = None"
  proof (rule missing_members_known)
    fix cm n' assume "cm \<in> set (su_components ?c)" "n' \<in> set (comp_checks cm)"
    then have "component_validate cm (Some (List.member (map c_name ?cs))) = None"
      using admit_components_None [OF n(8)] unfolding accepted_config_simps by blast
    then have "List.member (map c_name ?cs) n'"
      using \<open>n' \<in> set (comp_checks cm)\<close> by (rule component_members_known)
    then show "map_of (mb_checks ?b) n' \<noteq> None" by (auto simp: maps map_of_eq_None_iff image_image)
  qed
  moreover have "validate_notifications ?c (map c_name ?cs) = None"
  proof -
    have "validate_notifications (with_defaults cfg) (map c_name ?cs) = None"
      using n(4) by (simp add: check_config_None)
    then show ?thesis unfolding accepted_config_def by (subst validate_notifications_peers) simp_all
  qed
  ultimately have cat: "catalog_ok parse ?c (map monitor_from_check ?cs)"
    using adm(1) w by (auto simp: catalog_ok_def act names writes_back_def comp_def)
  have mok: "monitors_ok parse ?c ?b"
    unfolding monitors_ok_def snd using cat act by (simp add: maps)
  have ml: "mb_revisions ?b = [\<lparr>rv_id = 1, rv_at = now, rv_actor = ''configuration'', rv_action = ''baseline'',
      rv_subject = [], rv_catalog = monitor_list ?b\<rparr>]" "mb_next ?b = 1"
    by (simp_all add: baseline_def Let_def monitor_list_def)
  have "revisions_ok parse ?c ?b"
    using monitor_list_props [OF mok] by (simp add: revisions_ok_def ml max_monitor_revisions_def revision_ok_def)
  with mok show "monitor_book_ok parse (st_config st) (st_book st)" by (simp add: n(1,2) monitor_book_ok_def)
  show "map_of (mb_checks (st_book st)) = map_of (map (\<lambda>c. (c_name c, c)) ?cs)" by (simp add: n(2) maps)
qed

end
