(* ===== verification/Changes.thy ===== *)
theory Changes
  imports Startup Verdicts Operators
begin

text \<open>
  What an accepted configuration and the catalogue of monitors promise: an accepted check can be decided
  by the probers it was accepted with, and the catalogue stays one that would be accepted, whatever is
  asked of it and whether or not the state file can be written.
\<close>

section \<open>An accepted check can be decided\<close>

lemma with_profile_Cons:
  assumes "with_profile chk (p # ps) = Inr qs"
  obtains (skipped) "with_profile chk ps = Inr qs"
  | (kept) qs' where "with_profile chk ps = Inr qs'" "qs = p # qs'"
      "c_proxy_profile chk \<noteq> [] \<longrightarrow> profile_exit p (c_proxy_profile chk) \<noteq> []"
  using assms by (auto split: if_splits sum.splits)

lemma with_profile_sub:
  "with_profile chk ps = Inr qs \<Longrightarrow>
   set qs \<subseteq> set ps \<and> (distinct (map p_name ps) \<longrightarrow> distinct (map p_name qs)) \<and>
   (c_proxy_profile chk \<noteq> [] \<longrightarrow> (\<forall>q \<in> set qs. profile_exit q (c_proxy_profile chk) \<noteq> []))"
proof (induction ps arbitrary: qs)
  case Nil
  then show ?case by simp
next
  case (Cons p ps)
  from Cons.prems show ?case
  proof (cases rule: with_profile_Cons)
    case skipped
    then show ?thesis using Cons.IH by auto
  next
    case (kept qs')
    then show ?thesis using Cons.IH [OF kept(1)] by auto
  qed
qed

lemma lookup_peers_names: "lookup_peers peers ns = Inr ps \<Longrightarrow> map p_name ps = ns \<and> set ps \<subseteq> set peers"
  by (induction ns arbitrary: ps) (auto dest: peer_by_name_some split: option.splits sum.splits)

lemma eligible_names_distinct:
  assumes "validate_eligible_probers chk peers = Inr es" "distinct (map p_name peers)" "distinct (c_probers chk)"
  shows "distinct (map p_name es)" "set es \<subseteq> set peers"
    "c_proxy_profile chk \<noteq> [] \<Longrightarrow> p \<in> set es \<Longrightarrow> profile_exit p (c_proxy_profile chk) \<noteq> []"
proof -
  obtain cs where cs: "with_profile chk cs = Inr es" "distinct (map p_name cs)" "set cs \<subseteq> set peers"
  proof (cases "length (c_probers chk) > 0")
    case True
    then obtain cs where "lookup_peers peers (c_probers chk) = Inr cs" "with_profile chk cs = Inr es"
      using assms(1) by (auto simp: validate_eligible_probers_def split: sum.splits)
    then show ?thesis using lookup_peers_names assms(3) that by metis
  next
    case False
    then show ?thesis using assms(1,2) that [of peers] by (simp add: validate_eligible_probers_def)
  qed
  show "set es \<subseteq> set peers" using with_profile_sub [OF cs(1)] cs(3) by blast
  show "distinct (map p_name es)" using with_profile_sub [OF cs(1)] cs(2) by blast
  show "c_proxy_profile chk \<noteq> [] \<Longrightarrow> p \<in> set es \<Longrightarrow> profile_exit p (c_proxy_profile chk) \<noteq> []"
    using with_profile_sub [OF cs(1)] by blast
qed

text \<open>A result that says the check is down, as the coordinator files it for the prober \<open>p\<close>.\<close>

definition says_down :: "check \<Rightarrow> options \<Rightarrow> peer \<Rightarrow> result \<Rightarrow> bool" where
  "says_down c opts p r \<longleftrightarrow> r_check r = c_name c \<and> r_prober r = p_name p \<and> r_vantage r = c_vantage c \<and>
     r_status r = StatusDown \<and> r_provider r = p_provider p \<and> r_proxy_profile r = c_proxy_profile c \<and>
     r_egress r = profile_exit p (c_proxy_profile c) \<and> o_now opts - o_max_age opts \<le> r_at r \<and>
     \<not> o_isolated opts (p_name p)"

lemma says_down_keys:
  assumes "says_down c opts p r"
  shows "left_key d r = left_key d (route_result c p)" "right_key r = right_key (route_result c p)"
    "routed r = routed (route_result c p)"
  using assms by (simp_all add: says_down_def left_key_def right_key_def routed_def provider_key_def)

lemma independent_peers:
  assumes "P \<subseteq> set es" "inj_on (left_key d \<circ> route_result c) P" "inj_on (right_key \<circ> route_result c) P"
    "\<forall>p \<in> P. routed (route_result c p)" "\<forall>p \<in> set es. says_down c opts p (rep p)"
  shows "card P \<le> independent_count (map rep es) d"
proof -
  have k: "left_key d (rep p) = left_key d (route_result c p)" "right_key (rep p) = right_key (route_result c p)"
    "routed (rep p) = routed (route_result c p)" if "p \<in> P" for p
    using says_down_keys [of c opts p "rep p"] assms(1,5) that by auto
  have l: "inj_on (left_key d \<circ> rep) P" "inj_on (right_key \<circ> rep) P"
    using assms(2,3) k by (auto simp: inj_on_def)
  then have i: "inj_on rep P" by (rule_tac inj_on_imageI2)
  have "independent d (rep ` P)"
    unfolding independent_def using l assms(4) k by (auto simp: inj_on_imageI)
  then have "card (rep ` P) \<le> independent_count (map rep es) d"
    using assms(1) by (intro independent_results_largest) auto
  then show ?thesis by (simp add: card_image [OF i])
qed

lemma feasible_independent:
  assumes feas: "check_feasible cfg c = None" and valid: "check_validate c = None"
    and es: "validate_eligible_probers c (su_peers cfg) = Inr es" and d: "distinct (map p_name es)"
    and exits: "\<And>p. c_proxy_profile c \<noteq> [] \<Longrightarrow> p \<in> set es \<Longrightarrow> profile_exit p (c_proxy_profile c) \<noteq> []"
    and trimmed: "\<forall>p \<in> set (su_peers cfg). trim_space (p_provider p) = p_provider p" and sub: "set es \<subseteq> set (su_peers cfg)"
    and down: "\<forall>p \<in> set es. says_down c opts p (rep p)"
  shows "q_agree (c_quorum c) \<le> int (independent_count (map rep es) (q_distinct (c_quorum c)))"
proof -
  let ?d = "q_distinct (c_quorum c)"
  have f: "q_of (c_quorum c) \<le> int (length es)" "validate_route_quorum c es = None"
    "?d \<Longrightarrow> q_agree (c_quorum c) \<le> int (length (named_providers es))"
    using feas es by (auto simp: check_feasible_def Let_def split: if_splits option.splits)
  have inj: "inj_on p_name (set es)" using d by (simp add: distinct_map)
  have "\<exists>P \<subseteq> set es. inj_on (left_key ?d \<circ> route_result c) P \<and> inj_on (right_key \<circ> route_result c) P \<and>
      (\<forall>p \<in> P. routed (route_result c p)) \<and> q_agree (c_quorum c) \<le> int (card P)"
  proof (cases "c_proxy_profile c = []")
    case direct: True
    have r: "inj_on (right_key \<circ> route_result c) P" if "P \<subseteq> set es" for P
      using inj_on_subset [OF inj that] by (simp add: right_key_def direct inj_on_def)
    show ?thesis
    proof (cases ?d)
      case True
      have "set (named_providers es) \<subseteq> p_provider ` {p \<in> set es. \<not> blank (p_provider p)}"
        by (auto simp: named_providers_def)
      then obtain P where P: "P \<subseteq> {p \<in> set es. \<not> blank (p_provider p)}" "inj_on p_provider P"
          "set (named_providers es) = p_provider ` P"
        by (auto simp: subset_image_inj)
      have "length (named_providers es) = card P"
        using P(2,3) card_image by (metis distinct_card distinct_remdups named_providers_def)
      moreover have "left_key True (route_result c p) = p_provider p" if "p \<in> P" for p
        using P(1) that trimmed sub by (auto simp: left_key_def provider_key_def Let_def)
      then have "inj_on (left_key ?d \<circ> route_result c) P" using P(2) True by (simp add: inj_on_def)
      ultimately show ?thesis using f(3) [OF True] P(1) r [of P]
        by (intro exI [of _ P]) (auto simp: routed_def direct)
    next
      case False
      have "card (set es) = length es" using d by (simp add: distinct_map distinct_card)
      moreover have "inj_on (left_key ?d \<circ> route_result c) (set es)" using inj False by (simp add: left_key_def inj_on_def)
      ultimately show ?thesis using f(1) check_valid_timing [OF valid] r [of "set es"]
        by (intro exI [of _ "set es"]) (auto simp: routed_def direct)
    qed
  next
    case False
    let ?S = "set (independent_results (map (route_result c) es) ?d)"
    have "?S \<subseteq> route_result c ` set es" using independent_results_subset [of "map (route_result c) es"] by simp
    then obtain P where P: "P \<subseteq> set es" "inj_on (route_result c) P" "?S = route_result c ` P"
      by (auto simp: subset_image_inj)
    have "q_agree (c_quorum c) \<le> int (card ?S)"
      using f(2) False by (auto simp: validate_route_quorum_def independent_count_card split: if_splits)
    moreover have "card ?S = card P" unfolding P(3) by (rule card_image [OF P(2)])
    moreover have "independent ?d (route_result c ` P)"
      using independent_results_independent [of ?d "map (route_result c) es"] by (simp add: P(3))
    ultimately show ?thesis using P(1,2)
      by (intro exI [of _ P]) (auto simp: independent_def intro!: comp_inj_on)
  qed
  then obtain P where P: "P \<subseteq> set es" "inj_on (left_key ?d \<circ> route_result c) P"
    "inj_on (right_key \<circ> route_result c) P" "\<forall>p \<in> P. routed (route_result c p)" "q_agree (c_quorum c) \<le> int (card P)"
    by blast
  from independent_peers [OF P(1-4) down] P(5) show ?thesis by linarith
qed

lemma says_down_admitted:
  assumes "says_down c opts p r" "c_proxy_profile c \<noteq> [] \<Longrightarrow> profile_exit p (c_proxy_profile c) \<noteq> []"
  shows "admitted c opts r"
  using assms by (auto simp: says_down_def admitted_def usable_def)

lemma all_down_decides:
  assumes agree: "q_agree (c_quorum c) \<le> int (independent_count rs (q_distinct (c_quorum c)))"
    and adm: "\<forall>r \<in> set rs. admitted c opts r \<and> r_status r = StatusDown" and d: "distinct (map r_prober rs)"
  shows "v_status (evaluate c rs opts) = StatusDown"
proof -
  have same: "r = r'" if "r \<in> set rs" "r' \<in> set rs" "r_prober r = r_prober r'" for r r'
    using d that by (auto simp: distinct_map inj_on_def)
  then have one: "one_report_per_instant rs" by (auto simp: one_report_per_instant_def)
  have "newest_votes c opts rs = set rs" using adm same by (auto simp: newest_votes_def)
  then have "set (voters c opts rs) = set rs" using voters_newest [OF one] by blast
  then have "set (with_status StatusDown (voters c opts rs)) = set rs" using adm by (auto simp: with_status_def)
  from independent_count_set_eq [OF this] agree show ?thesis by (simp add: evaluate_voters conclude_status)
qed

section \<open>A concrete deployment\<close>

definition read_duration :: "string \<Rightarrow> duration option" where
  "read_duration = map_of [(''1m0s'', minute), (''10s'', 10 * second), (''0s'', 0)]"

definition a_site :: "string \<times> string" where "a_site = (''https'', ''example.org'')"

definition the_parsers :: parsers where
  "the_parsers = \<lparr>pa_duration = read_duration, pa_request_uri = (\<lambda>_. Some a_site), pa_url = (\<lambda>_. Some a_site),
     pa_prometheus = (\<lambda>_. None)\<rparr>"

definition a_keyed_peer :: "string \<Rightarrow> string \<Rightarrow> peer" where
  "a_keyed_peer n provider = (a_peer n provider)\<lparr>p_public_key := n @ replicate 29 CHR ''k''\<rparr>"

definition small_config :: "check \<Rightarrow> peer list \<Rightarrow> configuration" where
  "small_config c ps = \<lparr>su_name = ''hub'', su_key = replicate 64 CHR ''k'', su_peers = ps, su_checks = [c],
     su_components = [], su_maintenance = [], su_destinations = [], su_routes = [], su_escalations = [],
     su_retry_initial = 0, su_retry_max = 0, su_retry_interval = 0, su_fan_out_timeout = 0, su_request_ttl = 0,
     su_result_max_age = 0, su_max_fan_outs = 0, su_max_pending = 0, su_session_ttl = 0,
     su_history = \<lparr>hc_retention = 0, hc_max_per_check = 0\<rparr>,
     su_ha = \<lparr>ha_role = [], ha_primary_url = [], ha_token = [], ha_interval = 0, ha_timeout = 0\<rparr>,
     su_oidc = ac_oidc ops_config, su_state_file = [], su_history_file = [], su_prometheus = [], su_skip_restore = False,
     su_stale_multiplier = 0, su_stale_grace = 0, su_mesh_max_age = 0, su_mesh_min_peers = 0, su_heartbeat_interval = 0\<rparr>"

definition fleet_up :: configuration where
  "fleet_up = small_config web_check [a_keyed_peer ''nyc'' ''three'', a_keyed_peer ''ams'' ''one'', a_keyed_peer ''fra'' ''two'']"

definition hub :: startup where "hub = projr (new_coordinator the_parsers (1000 * second) fleet_up)"

lemma small_config_simps [simp]:
  "su_peers (small_config c ps) = ps" "su_checks (small_config c ps) = [c]" "su_components (small_config c ps) = []"
  "su_maintenance (small_config c ps) = []" "su_prometheus (small_config c ps) = []" "su_name (small_config c ps) = ''hub''"
  "length (su_key (small_config c ps)) = private_key_size"
  by (simp_all add: small_config_def private_key_size_def)

lemma small_config_checked:
  "check_config the_parsers (with_defaults (small_config c ps)) = None"
proof -
  have "validate_oidc_config (\<lambda>_. Some a_site) (ac_oidc ops_config) = None" by code_simp
  then show ?thesis
    by (simp add: check_config_None the_parsers_def with_defaults_def small_config_def validate_notifications_def
        validate_ha_config_def role_primary_def role_standby_def default_retry_initial_def default_retry_max_def
        second_def minute_def Let_def)
qed

lemma small_config_new:
  assumes "add_peers [] [] ps = Inr (ps, ring)" "ps \<noteq> []" "check_feasible (accepted_config (small_config c ps)) c = None"
    "check_validate c = None" "c_timeout c = 10 * second"
  shows "\<exists>st. new_coordinator the_parsers t (small_config c ps) = Inr st"
proof -
  let ?c = "small_config c ps"
  have c: "(with_defaults ?c)\<lparr>su_peers := sort_key p_name ps\<rparr> = accepted_config ?c" by (simp add: accepted_config_def)
  have b: "response_budget (accepted_config ?c) c"
    by (simp add: response_budget_def accepted_config_def with_defaults_def small_config_def positive_or_def assms(5) wrap64_def
        default_fan_out_timeout_def minimum_fan_out_overhead_def second_def)
  have n: "\<not> blank ''hub''" by code_simp
  have "admit_checks (accepted_config ?c) [] [c] = None"
    using b assms(3,4) by simp
  then show ?thesis
    using assms(1,2) n by (simp add: new_coordinator_def small_config_checked prepare_prometheus_sources_def c)
qed

lemma web_check_timeout: "c_timeout web_check = 10 * second"
  by (simp add: web_check_def)

lemma hub_new: "new_coordinator the_parsers (1000 * second) fleet_up = Inr hub"
proof -
  have "\<exists>st. new_coordinator the_parsers (1000 * second) fleet_up = Inr st"
    unfolding fleet_up_def
  proof (rule small_config_new [OF _ _ _ web_check_valid web_check_timeout])
    let ?ps = "[a_keyed_peer ''nyc'' ''three'', a_keyed_peer ''ams'' ''one'', a_keyed_peer ''fra'' ''two'']"
    show "add_peers [] [] ?ps = Inr (?ps, snd (projr (add_peers [] [] ?ps)))" by code_simp
    show "check_feasible (accepted_config (small_config web_check ?ps)) web_check = None" by code_simp
  qed simp
  then show ?thesis by (auto simp: hub_def)
qed

section \<open>Properties\<close>

text \<open>C9: a check the coordinator was started with can be decided by the probers it was accepted for,
  provided the provider names of the probers are written without surrounding space. If every prober that
  may run it reports it down, fresh and not isolated, the verdict is down: the quorum, the provider
  diversity and the independent exits it asks for can be reached. The proviso is needed: the configuration
  counts the names as they are written, the verdict without the space around them
  (\<open>spaced_provider_undecidable\<close>).\<close>

theorem accepted_check_decidable:
  assumes "new_coordinator pa started cfg = Inr st" "c \<in> set (su_checks cfg)"
    "\<forall>p \<in> set (su_peers cfg). trim_space (p_provider p) = p_provider p"
  shows "\<exists>es. validate_eligible_probers c (su_peers (st_config st)) = Inr es \<and>
    (\<forall>rep. (\<forall>p \<in> set es. says_down c opts p (rep p)) \<longrightarrow> v_status (evaluate c (map rep es) opts) = StatusDown)"
proof -
  note n = new_coordinator_Inr [OF assms(1)]
  have c: "check_validate c = None" "check_feasible (accepted_config cfg) c = None"
    using n(7) assms(2) by (auto simp: admit_checks_None)
  then obtain es where es: "validate_eligible_probers c (su_peers (accepted_config cfg)) = Inr es"
    by (auto simp: check_feasible_def Let_def split: sum.splits)
  have ps: "distinct (map p_name (su_peers cfg))" using add_peers_Inr [OF n(6)] by (simp add: peer_by_name_def fun_eq_iff)
  then have ps: "distinct (map p_name (su_peers (accepted_config cfg)))"
    by (simp add: distinct_map)
  have probers: "distinct (c_probers c)" using c(1) by (auto simp: check_validate_None distinct_map)
  note e = eligible_names_distinct [OF es ps probers]
  have "v_status (evaluate c (map rep es) opts) = StatusDown" if r: "\<forall>p \<in> set es. says_down c opts p (rep p)" for rep
  proof (rule all_down_decides)
    show "q_agree (c_quorum c) \<le> int (independent_count (map rep es) (q_distinct (c_quorum c)))"
      using assms(3) by (intro feasible_independent [OF c(2) c(1) es e(1) e(3) _ e(2) r]) simp_all
    show "\<forall>r \<in> set (map rep es). admitted c opts r \<and> r_status r = StatusDown"
      using r e(3) says_down_admitted by (auto simp: says_down_def)
    have "map r_prober (map rep es) = map p_name es" using r by (auto simp: says_down_def)
    then show "distinct (map r_prober (map rep es))" using e(1) by (simp only:)
  qed
  then show ?thesis using es n(1) by auto
qed

theorem accepted_check_decidable_witness:
  "\<exists>es. validate_eligible_probers web_check (su_peers (st_config hub)) = Inr es \<and>
    (\<forall>rep. (\<forall>p \<in> set es. says_down web_check \<lparr>o_now = 0, o_max_age = 0, o_isolated = (\<lambda>_. False)\<rparr> p (rep p)) \<longrightarrow>
       v_status (evaluate web_check (map rep es) \<lparr>o_now = 0, o_max_age = 0, o_isolated = (\<lambda>_. False)\<rparr>) = StatusDown)"
proof (rule accepted_check_decidable [OF hub_new])
  show "web_check \<in> set (su_checks fleet_up)" by (simp add: fleet_up_def small_config_def)
  have "list_all (\<lambda>p. trim_space (p_provider p) = p_provider p) (su_peers fleet_up)" by code_simp
  then show "\<forall>p \<in> set (su_peers fleet_up). trim_space (p_provider p) = p_provider p" by (simp add: list_all_iff)
qed

text \<open>The trimmed providers are needed. \<open>New\<close> counts providers as they are written, \<open>Evaluate\<close> without the
  space around them. A check that wants two different providers is accepted with a fleet of two probers,
  at \<open>one\<close> and at \<open>one\<close> with a space before it, and then no results whatever of this fleet decide it down.\<close>

definition pair_check :: check where
  "pair_check = web_check\<lparr>c_quorum := \<lparr>q_agree = 2, q_of = 2, q_distinct = True\<rparr>\<rparr>"

definition two_writings :: configuration where
  "two_writings = small_config pair_check [a_keyed_peer ''ams'' ''one'', a_keyed_peer ''fra'' '' one'']"

lemma pair_check_valid: "check_validate pair_check = None"
  using web_check_valid
  by (simp add: check_validate_None validate_cases_def pair_check_def quorum_validate_def web_check_def)

theorem spaced_provider_undecidable:
  "(\<exists>st. new_coordinator the_parsers started two_writings = Inr st) \<and> su_checks two_writings = [pair_check] \<and>
   (list_all (\<lambda>r. list_ex (\<lambda>p. p_name p = r_prober r \<and> p_provider p = r_provider r) (su_peers two_writings)) rs \<longrightarrow>
      v_status (evaluate pair_check rs opts) \<noteq> StatusDown)"
proof (intro conjI impI)
  let ?ps = "[a_keyed_peer ''ams'' ''one'', a_keyed_peer ''fra'' '' one'']"
  show "\<exists>st. new_coordinator the_parsers started two_writings = Inr st" unfolding two_writings_def
  proof (rule small_config_new [OF _ _ _ pair_check_valid])
    show "add_peers [] [] ?ps = Inr (?ps, snd (projr (add_peers [] [] ?ps)))" by code_simp
    show "check_feasible (accepted_config (small_config pair_check ?ps)) pair_check = None" by code_simp
    show "c_timeout pair_check = 10 * second" by (simp add: pair_check_def web_check_def)
  qed simp
  show "su_checks two_writings = [pair_check]" by (simp add: two_writings_def)
  assume rs: "list_all (\<lambda>r. list_ex (\<lambda>p. p_name p = r_prober r \<and> p_provider p = r_provider r) (su_peers two_writings)) rs"
  show "v_status (evaluate pair_check rs opts) \<noteq> StatusDown"
  proof
    assume "v_status (evaluate pair_check rs opts) = StatusDown"
    then have down: "agreeing pair_check (with_status StatusDown (voters pair_check opts rs))"
      unfolding evaluate_voters using conclude_providers_down by blast
    let ?V = "with_status StatusDown (voters pair_check opts rs)"
    have k: "trim_space ''one'' = ''one''" "trim_space '' one'' = ''one''" by code_simp+
    have "provider_key r = ''one''" if "r \<in> set rs" for r
    proof -
      have "r_provider r = ''one'' \<or> r_provider r = '' one''"
        using rs that by (auto simp: list_all_iff list_ex_iff two_writings_def a_keyed_peer_def a_peer_def)
      then have "trim_space (r_provider r) = ''one''" using k by presburger
      then show ?thesis by (simp add: provider_key_def)
    qed
    moreover have "r \<in> set rs" if "r \<in> set ?V" for r
      using voters_in [of r pair_check opts rs] that by (simp add: with_status_def)
    ultimately have "provider_key ` set ?V \<subseteq> {''one''}" by blast
    then have "card (provider_key ` set ?V) \<le> 1" using card_mono [of "{''one''}"] by simp
    then have "independent_count ?V True \<le> 1" using independent_count_providers [of ?V] by linarith
    with down show False by (simp add: pair_check_def)
  qed
qed

theorem spaced_provider_undecidable_witness:
  "v_status (evaluate pair_check [(a_result ''ams'' StatusDown 5)\<lparr>r_provider := ''one''\<rparr>,
     (a_result ''fra'' StatusDown 5)\<lparr>r_provider := '' one''\<rparr>] \<lparr>o_now = 5, o_max_age = 0, o_isolated = (\<lambda>_. False)\<rparr>) \<noteq> StatusDown"
proof (rule spaced_provider_undecidable [THEN conjunct2, THEN conjunct2, THEN mp])
  show "list_all (\<lambda>r. list_ex (\<lambda>p. p_name p = r_prober r \<and> p_provider p = r_provider r) (su_peers two_writings))
     [(a_result ''ams'' StatusDown 5)\<lparr>r_provider := ''one''\<rparr>, (a_result ''fra'' StatusDown 5)\<lparr>r_provider := '' one''\<rparr>]"
    by (simp add: two_writings_def a_keyed_peer_def a_peer_def)
qed

text \<open>C10: whatever is asked of the catalogue after the coordinator was started, in whatever order and whether
  or not the state file can be written: the catalogue in force would be accepted, the checks that run are
  exactly its enabled monitors, at most a hundred revisions are kept, with increasing numbers, and the
  catalogue of each of them would be accepted too.\<close>

theorem catalogue_stays_valid:
  assumes "new_coordinator pa started cfg = Inr st" "\<forall>c \<in> set (su_checks cfg). writes_back parse c"
    and "b = snd (catalog_run kd ac parse (st_config st) calls (a, st_book st))"
  shows "(\<exists>act. validate_catalog parse (st_config st) (monitor_list b) = Inr act \<and> map_of act = map_of (mb_checks b)) \<and>
    length (mb_revisions b) \<le> max_monitor_revisions \<and> sorted_wrt (<) (map rv_id (mb_revisions b)) \<and>
    (\<forall>rv \<in> set (mb_revisions b). \<exists>act. validate_catalog parse (st_config st) (rv_catalog rv) = Inr act)"
proof -
  have "monitor_book_ok parse (st_config st) b"
    unfolding assms(3) using baseline_ok(1) [OF assms(1,2)] by (intro catalog_run_ok) simp
  from monitor_book_valid [OF this] show ?thesis by blast
qed

definition mail_monitor :: monitor where
  "mail_monitor = (monitor_from_check web_check)\<lparr>mo_name := '' mail '', mo_target := ''https://mail.example.org''\<rparr>"

definition create_mail :: catalog_call where
  "create_mail = \<lparr>cc_now = 1001 * second, cc_request = op_request ''POST'', cc_persisted = True, cc_answer = (\<lambda>_ _. None),
     cc_op = CreateMonitor (Some ([], mail_monitor))\<rparr>"

lemma whole_seconds: "fraction 9 60000000000 = []" "fraction 9 10000000000 = []"
proof -
  have "[0..<9] = [0, 1, 2, 3, 4, 5, 6, 7, 8::nat]" by code_simp
  then show "fraction 9 60000000000 = []" "fraction 9 10000000000 = []" by (simp_all add: fraction_def)
qed

lemma web_writes_back: "\<forall>c \<in> set (su_checks fleet_up). writes_back read_duration c"
proof -
  have "itoa 1 = ''1''" "itoa 10 = ''10''" "itoa 0 = ''0''" by code_simp+
  then have "dur_string minute = ''1m0s''" "dur_string (10 * second) = ''10s''" "dur_string 0 = ''0s''"
    using whole_seconds by (simp_all add: dur_string_def dur_string_pos_def minute_def second_def Let_def)
  moreover have "trim_space ''web'' = ''web''" "trim_space ''https://example.org'' = ''https://example.org''"
    by code_simp+
  ultimately show ?thesis by (simp add: fleet_up_def writes_back_def web_check_def read_duration_def)
qed

theorem catalogue_stays_valid_witness:
  "length (mb_revisions (snd (catalog_run plain_kdf ops_config read_duration (st_config hub) [create_mail] (no_auth, st_book hub)))) \<le>
     max_monitor_revisions"
  by (rule catalogue_stays_valid [OF hub_new web_writes_back refl, THEN conjunct2, THEN conjunct1])

text \<open>C19: a change of the catalogue is all or nothing. After a request that is acknowledged the newest
  revision is the catalogue in force, with the next number. After any other request - refused, not
  permitted, malformed, or one whose state file could not be written - the catalogue, the checks that run,
  the revisions and their counter are what they were.\<close>

theorem catalogue_change_all_or_nothing:
  assumes "new_coordinator pa started cfg = Inr st" "\<forall>c \<in> set (su_checks cfg). writes_back parse c"
    and "b = snd (catalog_run kd ac parse (st_config st) calls (a, st_book st))"
    and "catalog_step kd ac parse (st_config st) x (a', b) = ((a'', b'), reply)"
  shows "if acknowledges (cc_op x) reply
    then mb_next b' = Suc (mb_next b) \<and> mb_revisions b' \<noteq> [] \<and> rv_catalog (last (mb_revisions b')) = monitor_list b'
    else monitor_list b' = monitor_list b \<and> map_of (mb_checks b') = map_of (mb_checks b) \<and>
      mb_revisions b' = mb_revisions b \<and> mb_next b' = mb_next b"
proof -
  have "monitor_book_ok parse (st_config st) b"
    unfolding assms(3) using baseline_ok(1) [OF assms(1,2)] by (intro catalog_run_ok) simp
  from catalog_step_keeps [OF assms(4) this] show ?thesis
    by (auto simp: keeps_book_def monitor_book_view_def)
qed

text \<open>A monitor is created, and the state file cannot be written.\<close>

definition failed_mail :: catalog_call where "failed_mail = create_mail\<lparr>cc_persisted := False\<rparr>"

lemma unsaved_refused: "\<exists>e. snd (mutate_monitors parse cfg now False actor action subj ms b) = Some e"
  by (auto simp: mutate_monitors_def Let_def split: prod.splits option.splits)

lemma unsaved_create: "snd (create_monitor parse cfg now False actor m b) \<noteq> MonitorStored m'"
proof -
  obtain b' e where "mutate_monitors parse cfg now False (actor) ''create'' (mo_name m) (monitor_list b @ [m]) b = (b', Some e)"
    using unsaved_refused by (metis prod.exhaust_sel)
  then show ?thesis by (simp add: create_monitor_def mutated_def Let_def)
qed

theorem catalogue_change_all_or_nothing_witness:
  "monitor_list (snd (fst (catalog_step plain_kdf ops_config read_duration (st_config hub) failed_mail (no_auth, st_book hub)))) =
     monitor_list (st_book hub)"
proof -
  let ?step = "catalog_step plain_kdf ops_config read_duration (st_config hub) failed_mail (no_auth, st_book hub)"
  obtain a'' b' reply where s: "?step = ((a'', b'), reply)" by (metis prod.exhaust)
  have "\<not> acknowledges (cc_op failed_mail) reply"
    using s unsaved_create [of read_duration "st_config hub" "1001 * second" _ mail_monitor "st_book hub"]
    by (auto simp: catalog_step_def failed_mail_def create_mail_def handle_create_monitor_def catalog_handler_def op_admitted
        mutation_actor_def split: prod.splits elim!: acknowledges.elims) (metis snd_conv)+
  then show ?thesis
    using catalogue_change_all_or_nothing [where calls = "[]" and a = no_auth, OF hub_new web_writes_back _ s] s
    by (simp add: catalog_run_def)
qed

text \<open>C20: every revision the coordinator still has can be brought back, whatever happened since: an
  administrator who names one, with a state file that can be written, gets exactly its catalogue, and the
  checks that run are the enabled monitors of that catalogue.\<close>

theorem revisions_can_be_restored:
  assumes "new_coordinator pa started cfg = Inr st" "\<forall>c \<in> set (su_checks cfg). writes_back parse c"
    and "b = snd (catalog_run kd ac parse (st_config st) calls (a, st_book st))"
    and "rv \<in> set (mb_revisions b)" "require_permission kd ac now r PermissionRollback a' = (a'', Inr who)"
    and "trim_space (mutation_actor who actor) \<noteq> []"
  shows "\<exists>b'. handle_rollback_monitors kd ac parse (st_config st) now True r (Some (rv_id rv)) (Some actor) (a', b) =
      ((a'', b'), Monitors (rv_catalog rv)) \<and> monitor_list b' = rv_catalog rv \<and>
    Inr (mb_checks b') = validate_catalog parse (st_config st) (rv_catalog rv)"
proof -
  have ok: "monitor_book_ok parse (st_config st) b"
    unfolding assms(3) using baseline_ok(1) [OF assms(1,2)] by (intro catalog_run_ok) simp
  obtain b' where b': "rollback_monitors parse (st_config st) now True (mutation_actor who actor) (rv_id rv) b =
      (b', Monitors (rv_catalog rv))" "monitor_list b' = rv_catalog rv"
      "mb_checks b' = enabled_checks parse (rv_catalog rv)"
    by (rule rollback_restores [OF ok assms(4,6)])
  have "catalog_ok parse (st_config st) (rv_catalog rv)"
    using ok assms(4) by (auto simp: monitor_book_ok_def revisions_ok_def revision_ok_def)
  moreover from this have "map trimmed_name (rv_catalog rv) = rv_catalog rv"
    by (intro trimmed_list) (simp add: catalog_ok_def)
  ultimately have "validate_catalog parse (st_config st) (rv_catalog rv) = Inr (mb_checks b')"
    by (simp add: validate_catalog_Inr b'(3))
  then show ?thesis using b' assms(5)
    by (intro exI [of _ b']) (simp add: handle_rollback_monitors_def catalog_handler_def)
qed

theorem revisions_can_be_restored_witness:
  "\<exists>b'. handle_rollback_monitors plain_kdf ops_config read_duration (st_config hub) (1002 * second) True (op_request ''POST'')
      (Some 1) (Some []) (no_auth, st_book hub) = ((no_auth, b'), Monitors (monitor_list (st_book hub)))"
proof -
  have revs: "mb_revisions (st_book hub) = [\<lparr>rv_id = 1, rv_at = 1000 * second, rv_actor = ''configuration'',
      rv_action = ''baseline'', rv_subject = [], rv_catalog = monitor_list (st_book hub)\<rparr>]" (is "_ = [?rv]")
    by (simp add: new_coordinator_Inr(2) [OF hub_new] baseline_def Let_def monitor_list_def)
  have "trim_space ''ops'' = ''ops''" by code_simp
  then show ?thesis
    using revisions_can_be_restored [OF hub_new web_writes_back, of "st_book hub" plain_kdf ops_config "[]" no_auth ?rv
      "1002 * second" "op_request ''POST''" no_auth no_auth
      "\<lparr>pr_actor = ''ops'', pr_role = RoleAdmin, pr_permissions = permissions_for RoleAdmin, pr_method = LegacyToken, pr_csrf = []\<rparr>" "[]"]
    by (auto simp: catalog_run_def revs op_admitted mutation_actor_def)
qed

end
