(* ===== verification/Journal.thy ===== *)
theory Journal
  imports History
begin

text \<open>
  The observation journal (\<open>internal/coordinator/history.go\<close>): a file of one JSON line per observation,
  appended to as results arrive, read back at start and rewritten when lines were dropped or a thousand
  were appended. A line is the observation, or \<open>None\<close> when it cannot be parsed; a line longer than the
  scanner's buffer is the scan error.
\<close>

section \<open>The code\<close>

definition history_compact_every :: nat where "history_compact_every = 1000"

type_synonym history = "(string \<times> observation list) list"
type_synonym journal = "observation option list"

definition ensure_id :: "(observation \<Rightarrow> string) \<Rightarrow> observation \<Rightarrow> observation" where
  "ensure_id mk_id x = (if ob_id x \<noteq> [] then x else x\<lparr>ob_id := mk_id x\<rparr>)"

definition load_line :: "(observation \<Rightarrow> string) \<Rightarrow> (string \<Rightarrow> bool) \<Rightarrow> time \<Rightarrow> history \<times> bool \<Rightarrow> observation option \<Rightarrow>
    history \<times> bool" where
  "load_line mk_id known cutoff st line =
     (let (h, dropped) = st in
      case line of None \<Rightarrow> (h, True)
      | Some x \<Rightarrow>
          (let x = ensure_id mk_id x in
           if \<not> known (ob_check x) \<or> ob_received_at x < cutoff then (h, True)
           else (AList.update (ob_check x) (kept h (ob_check x) @ [x]) h, dropped)))"

text \<open>The second loop sorts each check's observations and keeps the newest.\<close>

definition settle :: "nat \<Rightarrow> observation list \<Rightarrow> observation list" where
  "settle most items =
     (let items = sort_key ob_received_at items in
      if length items > most then drop (length items - most) items else items)"

definition compacted :: "history \<Rightarrow> journal" where
  "compacted h = concat (map (\<lambda>n. map Some (kept h n)) (sort (map fst h)))"

datatype journal_error = JournalUnreadable | JournalScan | JournalCompaction

text \<open>Writing a file may fail and leave it as it was, or fail when the directory is synced, after the new
  content has taken its place.\<close>

datatype write_outcome = Written | WriteFailed | SyncFailed

text \<open>What opening the file gave; \<open>Lines\<close> with \<open>False\<close> when the scanner stopped with an error.\<close>

datatype journal_file = NoJournal | UnreadableJournal | Lines journal bool

definition load_history :: "(observation \<Rightarrow> string) \<Rightarrow> (string \<Rightarrow> bool) \<Rightarrow> history_config \<Rightarrow> time \<Rightarrow> string \<Rightarrow> write_outcome \<Rightarrow>
    journal_file \<Rightarrow> (journal_error option \<times> history) \<times> journal_file" where
  "load_history mk_id known hc now path rewritten file =
     (if path = [] then ((None, []), file)
      else case file of NoJournal \<Rightarrow> ((None, []), file)
      | UnreadableJournal \<Rightarrow> ((Some JournalUnreadable, []), file)
      | Lines lines ok \<Rightarrow>
          (let (h, dropped) = foldl (load_line mk_id known (now - history_retention hc)) ([], False) lines in
           if \<not> ok then ((Some JournalScan, h), file)
           else
             let most = history_max hc;
                 over = list_ex (\<lambda>it. length (snd it) > most) h;
                 h = map (\<lambda>(n, items). (n, settle most items)) h
             in if dropped \<or> over then
                  ((if rewritten = Written then None else Some JournalCompaction, h),
                   if rewritten = WriteFailed then file else Lines (compacted h) True)
                else ((None, h), file)))"

text \<open>Recording an observation: memory first, then the file; \<open>wrote\<close> and \<open>rewritten\<close> are what appending to
  the file and rewriting it answered.\<close>

record journaled =
  jn_history :: history
  jn_lines :: journal
  jn_appends :: nat
  jn_failures :: nat

definition journal_observation :: "history_config \<Rightarrow> time \<Rightarrow> string \<Rightarrow> write_outcome \<Rightarrow> write_outcome \<Rightarrow>
    observation \<Rightarrow> journaled \<Rightarrow> journaled" where
  "journal_observation hc now path wrote rewritten x j =
     (let j = j\<lparr>jn_history := append_history hc now (jn_history j) x\<rparr> in
      if path = [] then j
      else
        let j = (if wrote = WriteFailed then j else j\<lparr>jn_lines := jn_lines j @ [Some x]\<rparr>) in
        if wrote \<noteq> Written then j\<lparr>jn_failures := Suc (jn_failures j)\<rparr>
        else let j = j\<lparr>jn_appends := Suc (jn_appends j)\<rparr> in
          if jn_appends j < history_compact_every then j
          else
            let j = (if rewritten = WriteFailed then j else j\<lparr>jn_lines := compacted (jn_history j)\<rparr>) in
            if rewritten = Written then j\<lparr>jn_appends := 0\<rparr> else j\<lparr>jn_failures := Suc (jn_failures j)\<rparr>)"

section \<open>Suffixes of sorted lists\<close>

lemma filter_upward_suffix:
  assumes "received_sorted xs"
  shows "filter (\<lambda>x. c \<le> ob_received_at x) xs = dropWhile (\<lambda>x. ob_received_at x < c) xs"
  using assms unfolding received_sorted_def
proof (induction xs)
  case (Cons x xs)
  show ?case
  proof (cases "ob_received_at x < c")
    case True
    then show ?thesis using Cons by simp
  next
    case False
    then have "filter (\<lambda>x. c \<le> ob_received_at x) xs = xs" using Cons.prems by (auto simp: filter_id_conv)
    then show ?thesis using False by simp
  qed
qed simp

lemma insert_at_split:
  assumes "received_sorted xs"
  shows "takeWhile (\<lambda>y. ob_received_at y \<le> ob_received_at x) xs = take (insert_at x xs) xs"
    "dropWhile (\<lambda>y. ob_received_at y \<le> ob_received_at x) xs = drop (insert_at x xs) xs"
proof -
  let ?P = "\<lambda>y. ob_received_at y \<le> ob_received_at x" and ?k = "insert_at x xs"
  have "takeWhile ?P (take ?k xs @ drop ?k xs) = take ?k xs"
  proof (subst takeWhile_append2)
    show "?P y" if "y \<in> set (take ?k xs)" for y using insert_point(1) [OF assms that] .
    show "take ?k xs @ takeWhile ?P (drop ?k xs) = take ?k xs"
      using insert_point(2) [OF assms, of _ x] by (cases "drop ?k xs") (auto simp: not_le)
  qed
  then show t: "takeWhile ?P xs = take ?k xs" by simp
  then show "dropWhile ?P xs = drop ?k xs"
    by (metis append_take_drop_id same_append_eq takeWhile_dropWhile_id)
qed

lemma insert_observation_split:
  assumes "received_sorted xs"
  shows "insert_observation x xs =
    takeWhile (\<lambda>y. ob_received_at y \<le> ob_received_at x) xs @ x # dropWhile (\<lambda>y. ob_received_at y \<le> ob_received_at x) xs"
  by (simp add: insert_observation_at insert_at_split [OF assms])

lemma received_sort [simp]: "received_sorted (sort_key ob_received_at xs)"
  by (simp add: received_sorted_def)

lemma insert_sort_key:
  "insert_observation x (sort_key ob_received_at xs) = sort_key ob_received_at (xs @ [x])"
proof (rule sym, rule properties_for_sort_key)
  let ?S = "sort_key ob_received_at xs" and ?P = "\<lambda>y. ob_received_at y \<le> ob_received_at x"
  show "mset (insert_observation x ?S) = mset (xs @ [x])" by (simp add: insert_mset)
  show "sorted (map ob_received_at (insert_observation x ?S))"
    using insert_sorted [of ?S x] by (simp add: received_sorted_def)
  fix k assume "k \<in> set (insert_observation x ?S)"
  let ?F = "filter (\<lambda>y. ob_received_at k = ob_received_at y)"
  have S: "?F ?S = ?F (takeWhile ?P ?S) @ ?F (dropWhile ?P ?S)"
    by (metis filter_append takeWhile_dropWhile_id)
  have "?F (dropWhile ?P ?S) = []" if "ob_received_at k = ob_received_at x"
  proof -
    show ?thesis unfolding insert_at_split(2) [OF received_sort]
      using insert_point(2) [OF received_sort, where x = x] that by (fastforce simp: filter_empty_conv)
  qed
  moreover have "?F ?S = ?F xs" using sort_key_stable [of ob_received_at "ob_received_at k" xs] by (simp add: eq_commute)
  ultimately show "?F (insert_observation x ?S) = ?F (xs @ [x])"
    using S by (auto simp: insert_observation_split)
qed

lemma last_n_long: "n \<le> length ys \<Longrightarrow> last_n n (xs @ ys) = last_n n ys"
  by (simp add: last_n_def)

lemma insert_last_n:
  assumes "received_sorted xs"
  shows "last_n n (insert_observation x (last_n n xs)) = last_n n (insert_observation x xs)"
proof (cases "length xs \<le> n")
  case True
  then show ?thesis by simp
next
  case False
  let ?P = "\<lambda>y. ob_received_at y \<le> ob_received_at x"
  obtain ys where xs: "xs = ys @ last_n n xs" using last_n_suffix by blast
  define zs where "zs = last_n n xs"
  have len: "length zs = n" using False by (simp add: zs_def)
  have xs: "xs = ys @ zs" using xs by (simp add: zs_def)
  have sz: "received_sorted zs" and le: "\<And>y z. y \<in> set ys \<Longrightarrow> z \<in> set zs \<Longrightarrow> ob_received_at y \<le> ob_received_at z"
    using assms by (auto simp: xs received_sorted_def sorted_append)
  show ?thesis
  proof (cases "\<forall>y \<in> set ys. ?P y")
    case True
    then have "insert_observation x xs = ys @ insert_observation x zs"
      using insert_observation_split [OF assms] insert_observation_split [OF sz] by (simp add: xs)
    moreover have "length (insert_observation x zs) = Suc n" using insert_mset [of x zs] len by (metis size_add_mset size_mset)
    ultimately show ?thesis by (simp add: zs_def [symmetric] last_n_long)
  next
    case before: False
    then obtain y where y: "y \<in> set ys" "\<not> ?P y" by blast
    have "\<not> ?P z" if "z \<in> set zs" for z using le [OF y(1) that] y(2) by simp
    then have "insert_observation x zs = x # zs"
      using insert_observation_split [OF sz] by (cases zs) auto
    moreover have "takeWhile ?P (ys @ zs) = takeWhile ?P ys" "dropWhile ?P (ys @ zs) = dropWhile ?P ys @ zs"
      using takeWhile_append1 [of y ys ?P zs] dropWhile_append1 [of y ys ?P zs] y by blast+
    then have "insert_observation x xs = (takeWhile ?P ys @ x # dropWhile ?P ys) @ zs"
      using insert_observation_split [OF assms, of x] by (simp add: xs)
    moreover have "last_n n (us @ zs) = zs" for us using last_n_long [of n zs us] len by simp
    then have "last_n n (x # zs) = zs" "last_n n ((takeWhile ?P ys @ x # dropWhile ?P ys) @ zs) = zs"
      by (metis append_Cons append_Nil, blast)
    ultimately show ?thesis by (simp only: zs_def [symmetric])
  qed
qed

lemma filter_last_n:
  assumes "received_sorted xs"
  shows "filter (\<lambda>x. c \<le> ob_received_at x) (last_n n xs) = last_n n (filter (\<lambda>x. c \<le> ob_received_at x) xs)"
proof -
  let ?Q = "\<lambda>x. c \<le> ob_received_at x"
  obtain ys where xs: "xs = ys @ last_n n xs" using last_n_suffix by blast
  define zs where "zs = last_n n xs"
  have xs: "xs = ys @ zs" using xs by (simp add: zs_def)
  have le: "\<And>y z. y \<in> set ys \<Longrightarrow> z \<in> set zs \<Longrightarrow> ob_received_at y \<le> ob_received_at z"
    using assms unfolding xs received_sorted_def by (auto simp: sorted_append)
  show ?thesis
  proof (cases "\<exists>y \<in> set ys. ?Q y")
    case True
    then have "filter ?Q zs = zs" using le by (fastforce simp: filter_id_conv)
    moreover have "ys \<noteq> []" using True by auto
    then have "n \<le> length zs" using xs by (metis append_self_conv2 last_n_all length_last_n min_def nat_le_linear self_append_conv2 zs_def)
    ultimately show ?thesis unfolding zs_def [symmetric] unfolding xs filter_append
      by (simp add: last_n_long) (simp add: zs_def)
  next
    case False
    then have "filter ?Q ys = []" by (auto simp: filter_empty_conv)
    moreover have "length (filter ?Q zs) \<le> n" using length_filter_le [of ?Q zs] by (simp add: zs_def)
    ultimately show ?thesis unfolding zs_def [symmetric] by (subst xs) simp
  qed
qed

section \<open>Reading the journal back\<close>

text \<open>What is kept of the observations \<open>xs\<close> of one check when \<open>c\<close> is the oldest time kept.\<close>

definition window :: "history_config \<Rightarrow> time \<Rightarrow> observation list \<Rightarrow> observation list" where
  "window hc c xs = last_n (history_max hc) (filter (\<lambda>x. c \<le> ob_received_at x) (sort_key ob_received_at xs))"

lemma received_window: "received_sorted (window hc c xs)"
proof -
  have "received_sorted (filter (\<lambda>x. c \<le> ob_received_at x) (sort_key ob_received_at xs))"
    by (simp add: received_sorted_def filter_sort)
  then show ?thesis by (simp add: window_def received_sorted_def map_last_n sorted_last_n)
qed

lemma filter_insert:
  assumes "received_sorted xs"
  shows "filter (\<lambda>x. c \<le> ob_received_at x) (insert_observation x xs) =
    (if c \<le> ob_received_at x then insert_observation x (filter (\<lambda>x. c \<le> ob_received_at x) xs)
     else filter (\<lambda>x. c \<le> ob_received_at x) xs)"
proof -
  let ?Q = "\<lambda>x. c \<le> ob_received_at x"
  have s: "sort_key ob_received_at xs = xs" using assms by (simp add: received_sorted_def sort_key_id_if_sorted)
  have "received_sorted (filter ?Q xs)" using assms by (subst s [symmetric]) (simp add: filter_sort)
  then have f: "sort_key ob_received_at (filter ?Q xs) = filter ?Q xs" by (simp add: received_sorted_def sort_key_id_if_sorted)
  have "filter ?Q (insert_observation x xs) = sort_key ob_received_at (filter ?Q (xs @ [x]))"
    using insert_sort_key [of x xs] by (simp only: s filter_sort)
  then show ?thesis using insert_sort_key [of x "filter ?Q xs"] by (simp add: f)
qed

lemma filter_window:
  assumes "c \<le> c'"
  shows "filter (\<lambda>x. c' \<le> ob_received_at x) (window hc c xs) = window hc c' xs"
proof -
  have "received_sorted (filter (\<lambda>x. c \<le> ob_received_at x) (sort_key ob_received_at xs))"
    by (simp add: received_sorted_def filter_sort)
  moreover have "filter (\<lambda>x. c' \<le> ob_received_at x) (filter (\<lambda>x. c \<le> ob_received_at x) ys) = filter (\<lambda>x. c' \<le> ob_received_at x) ys" for ys :: "observation list"
    using assms by (auto intro!: filter_cong)
  ultimately show ?thesis unfolding window_def by (simp only: filter_last_n)
qed

lemma append_window:
  assumes "c \<le> now - history_retention hc"
  shows "trim_observations hc now (insert_observation x (window hc c xs)) = window hc (now - history_retention hc) (xs @ [x])"
proof -
  let ?c = "now - history_retention hc" and ?M = "history_max hc"
  let ?Q = "\<lambda>x. ?c \<le> ob_received_at x" and ?S = "sort_key ob_received_at xs"
  have f: "received_sorted (filter ?Q ?S)" by (simp add: received_sorted_def filter_sort)
  have "trim_observations hc now (insert_observation x (window hc c xs)) = last_n ?M (filter ?Q (insert_observation x (window hc c xs)))"
    by (rule trim_spec [OF insert_sorted [OF received_window]])
  also have "filter ?Q (insert_observation x (window hc c xs)) =
      (if ?Q x then insert_observation x (window hc ?c xs) else window hc ?c xs)"
    unfolding filter_insert [OF received_window] filter_window [OF assms] ..
  also have "last_n ?M \<dots> = last_n ?M (if ?Q x then insert_observation x (filter ?Q ?S) else filter ?Q ?S)"
    using insert_last_n [OF f] by (simp add: window_def)
  also have "\<dots> = last_n ?M (filter ?Q (insert_observation x ?S))"
    by (simp add: filter_insert)
  finally show ?thesis by (simp add: window_def insert_sort_key)
qed

text \<open>The observations in the lines that can be parsed.\<close>

fun readable :: "journal \<Rightarrow> observation list" where
  "readable [] = []"
| "readable (None # lines) = readable lines"
| "readable (Some x # lines) = x # readable lines"

lemma load_lines_kept:
  assumes "\<forall>x \<in> set (readable lines). ob_id x \<noteq> []"
  shows "kept (fst (foldl (load_line mk_id known c) st lines)) n = kept (fst st) n @
    (if known n then filter (\<lambda>x. c \<le> ob_received_at x \<and> ob_check x = n) (readable lines) else [])"
  using assms
proof (induction lines arbitrary: st)
  case Nil
  then show ?case by simp
next
  case (Cons line lines)
  obtain h d where st: "st = (h, d)" by (cases st)
  show ?case
  proof (cases line)
    case None
    then have "kept (fst (load_line mk_id known c st line)) n = kept h n" by (simp add: load_line_def st)
    moreover have "readable (line # lines) = readable lines" using None by simp
    ultimately show ?thesis using Cons.IH [of "load_line mk_id known c st line"] Cons.prems by (simp add: st None)
  next
    case (Some x)
    then have m: "readable (line # lines) = x # readable lines" by simp
    have "ob_id x \<noteq> []" using Cons.prems by (simp add: m)
    then have "kept (fst (load_line mk_id known c st line)) n = kept h n @
        (if known n then filter (\<lambda>x. c \<le> ob_received_at x \<and> ob_check x = n) [x] else [])"
      by (auto simp: load_line_def st Some ensure_id_def kept_def AList.update_conv' Let_def)
    moreover have "\<forall>x \<in> set (readable lines). ob_id x \<noteq> []" using Cons.prems by (simp add: m)
    ultimately show ?thesis using Cons.IH [of "load_line mk_id known c st line"] by (simp add: st m)
  qed
qed

lemma kept_settled: "kept (map (\<lambda>(n, items). (n, settle most items)) h) n = settle most (kept h n)"
proof -
  have "map_of (map (\<lambda>(n, items). (n, settle most items)) h) n = map_option (settle most) (map_of h n)"
    by (induction h) auto
  then show ?thesis by (cases "map_of h n") (simp_all add: kept_def settle_def)
qed

lemma settle_last_n: "settle most items = last_n most (sort_key ob_received_at items)"
  by (simp add: settle_def last_n_def Let_def)

lemma kept_absent: "k \<notin> fst ` set h \<Longrightarrow> kept h k = []"
  by (simp add: kept_def map_of_eq_None_iff [symmetric])

lemma mset_drop_sub: "mset (drop n xs) \<subseteq># mset xs"
proof -
  have "mset (take n xs) + mset (drop n xs) = mset xs" by (metis append_take_drop_id mset_append)
  then show ?thesis by (metis mset_subset_eq_add_right)
qed

lemma trim_sub: "mset (trim_observations hc now items) \<subseteq># mset items"
  using mset_drop_sub by (auto simp: trim_observations_def Let_def)

section \<open>The journal and the memory\<close>

text \<open>Observations recorded one after another, each at its time, with what appending it to the file and
  rewriting the file, when that is due, answered.\<close>

definition journal_run :: "history_config \<Rightarrow> string \<Rightarrow> (time \<times> write_outcome \<times> write_outcome \<times> observation) list \<Rightarrow>
    journaled \<Rightarrow> journaled" where
  "journal_run hc path rs j =
     foldl (\<lambda>j (now, wrote, rewritten, x). journal_observation hc now path wrote rewritten x j) j rs"

definition no_journal :: journaled where
  "no_journal = \<lparr>jn_history = [], jn_lines = [], jn_appends = 0, jn_failures = 0\<rparr>"

lemma readable_append [simp]: "readable (xs @ ys) = readable xs @ readable ys"
  by (induction xs rule: readable.induct) simp_all

lemma readable_Some [simp]: "readable (map Some xs) = xs"
  by (induction xs) simp_all

definition filed :: "string \<Rightarrow> journal \<Rightarrow> observation list" where
  "filed n lines = filter (\<lambda>x. ob_check x = n) (readable lines)"

lemma window_window: "window hc c (window hc c xs) = window hc c xs"
proof -
  have "sort_key ob_received_at (window hc c xs) = window hc c xs"
    using received_window by (simp add: received_sorted_def sort_key_id_if_sorted)
  moreover have "filter (\<lambda>x. c \<le> ob_received_at x) (window hc c xs) = window hc c xs"
    using filter_window [of c c] by simp
  moreover have "length (window hc c xs) \<le> history_max hc" by (simp add: window_def)
  ultimately show ?thesis by (simp add: window_def [of hc c "window hc c xs"])
qed

text \<open>Observations are under the name of their check.\<close>

definition named :: "history \<Rightarrow> bool" where
  "named h \<longleftrightarrow> distinct (map fst h) \<and> (\<forall>n. \<forall>x \<in> set (kept h n). ob_check x = n)"

lemma filed_compacted: "named h \<Longrightarrow> filed n (compacted h) = kept h n"
proof -
  assume h: "named h"
  have "filter (\<lambda>x. ob_check x = n) (kept h k) = (if k = n then kept h k else [])" for k
    using h by (auto simp: named_def filter_id_conv filter_empty_conv)
  then have "filed n (concat (map (\<lambda>n. map Some (kept h n)) ks)) = concat (map (\<lambda>k. if k = n then kept h k else []) ks)" for ks
    by (induction ks) (simp_all add: filed_def)
  moreover have "concat (map (\<lambda>k. if k = n then kept h k else []) ks) = (if n \<in> set ks then kept h n else [])" if "distinct ks" for ks
    using that by (induction ks) auto
  moreover have "n \<notin> fst ` set h \<Longrightarrow> kept h n = []" by (rule kept_absent)
  ultimately show ?thesis using h by (auto simp: compacted_def named_def)
qed

lemma trim_set: "set (trim_observations hc now xs) \<subseteq> set xs"
  using set_mset_mono [OF trim_sub [of hc now xs]] by simp

lemma insert_set: "set (insert_observation x xs) = insert x (set xs)"
  by (metis insert_mset set_mset_add_mset_insert set_mset_mset)

lemma kept_appended:
  assumes "y \<in> set (kept (append_history hc now h x) n)"
  shows "y = x \<and> n = ob_check x \<or> y \<in> set (kept h n)"
proof (cases "ob_check x = n")
  case True
  then have "y \<in> set (trim_observations hc now (insert_observation x (kept h n)))"
    using assms by (simp add: kept_append)
  then have "y \<in> insert x (set (kept h n))" using trim_set insert_set by blast
  then show ?thesis using True by blast
next
  case False
  then show ?thesis using assms by (simp add: kept_append)
qed

lemma named_append: "named h \<Longrightarrow> named (append_history hc now h x)"
proof -
  assume h: "named h"
  have "distinct (map fst (append_history hc now h x))" using h by (simp add: append_history_def named_def distinct_update)
  moreover have "\<forall>y \<in> set (kept (append_history hc now h x) n). ob_check y = n" for n
    using h kept_appended [of _ hc now h x n] by (auto simp: named_def)
  ultimately show ?thesis by (simp add: named_def)
qed

text \<open>What the journal holds and what is in memory, at the time \<open>now\<close>.\<close>

definition journal_ok :: "history_config \<Rightarrow> time \<Rightarrow> journaled \<Rightarrow> bool" where
  "journal_ok hc now j \<longleftrightarrow> named (jn_history j) \<and>
     (\<forall>n. \<exists>c \<le> now - history_retention hc. kept (jn_history j) n = window hc c (filed n (jn_lines j)))"

lemma no_journal_ok: "journal_ok hc now no_journal"
proof -
  have "\<exists>c \<le> now - history_retention hc. [] = window hc c []" by (auto simp: window_def)
  then show ?thesis by (simp add: journal_ok_def no_journal_def named_def kept_def filed_def)
qed

lemma journal_ok_later: "journal_ok hc now j \<Longrightarrow> now \<le> later \<Longrightarrow> journal_ok hc later j"
  unfolding journal_ok_def by (metis diff_right_mono order_trans)

lemma journal_observation_ok:
  assumes "journal_ok hc now j" "path \<noteq> []" "wrote \<noteq> WriteFailed"
  shows "journal_ok hc now (journal_observation hc now path wrote rewritten x j)"
proof -
  let ?h = "append_history hc now (jn_history j) x" and ?l = "jn_lines j @ [Some x]"
  have h: "named ?h" using assms(1) by (intro named_append) (simp add: journal_ok_def)
  have w: "\<exists>c \<le> now - history_retention hc. kept ?h n = window hc c (filed n ?l)" for n
  proof -
    obtain c where c: "c \<le> now - history_retention hc" "kept (jn_history j) n = window hc c (filed n (jn_lines j))"
      using assms(1) by (auto simp: journal_ok_def)
    show ?thesis
    proof (cases "ob_check x = n")
      case True
      then have "kept ?h n = window hc (now - history_retention hc) (filed n ?l)"
        using append_window [OF c(1), of x "filed n (jn_lines j)"] by (simp add: kept_append c(2) filed_def)
      then show ?thesis by blast
    next
      case False
      then show ?thesis using c by (auto simp: kept_append filed_def)
    qed
  qed
  have "\<exists>c \<le> now - history_retention hc. kept ?h n = window hc c (filed n (compacted ?h))" for n
    using w [of n] window_window by (metis filed_compacted [OF h])
  with h w show ?thesis using assms(2,3) by (simp add: journal_observation_def Let_def journal_ok_def)
qed

lemma journal_run_ok:
  assumes "sorted (map fst rs)" "\<forall>r \<in> set rs. begun \<le> fst r \<and> fst r \<le> later \<and> fst (snd r) \<noteq> WriteFailed" "begun \<le> later" "journal_ok hc begun j" "path \<noteq> []"
  shows "journal_ok hc later (journal_run hc path rs j)"
  using assms
proof (induction rs arbitrary: j begun)
  case Nil
  then show ?case by (auto simp: journal_run_def intro: journal_ok_later)
next
  case (Cons r rs)
  obtain now wrote rewritten x where r: "r = (now, wrote, rewritten, x)" by (cases r)
  have "journal_ok hc now (journal_observation hc now path wrote rewritten x j)"
    using Cons.prems by (intro journal_observation_ok journal_ok_later [OF Cons.prems(4)]) (auto simp: r)
  then show ?case using Cons.IH [of now] Cons.prems by (auto simp: journal_run_def r)
qed

lemma journal_run_ids:
  assumes "\<forall>r \<in> set rs. ob_id (snd (snd (snd r))) \<noteq> []" "\<forall>x \<in> set (readable (jn_lines j)). ob_id x \<noteq> []"
    "\<forall>n. \<forall>x \<in> set (kept (jn_history j) n). ob_id x \<noteq> []"
  shows "\<forall>x \<in> set (readable (jn_lines (journal_run hc path rs j))). ob_id x \<noteq> []"
  using assms
proof (induction rs arbitrary: j)
  case Nil
  then show ?case by (simp add: journal_run_def)
next
  case (Cons r rs)
  obtain now wrote rewritten x where r: "r = (now, wrote, rewritten, x)" by (cases r)
  let ?h = "append_history hc now (jn_history j) x"
  let ?j = "journal_observation hc now path wrote rewritten x j"
  have x: "ob_id x \<noteq> []" using Cons.prems(1) by (simp add: r)
  have h: "ob_id y \<noteq> []" if "y \<in> set (kept ?h n)" for y n
    using kept_appended [OF that] x Cons.prems(3) by blast
  have "readable (concat (map (\<lambda>n. map Some (f n)) ks)) = concat (map f ks)" for f :: "string \<Rightarrow> observation list" and ks
    by (induction ks) simp_all
  then have "readable (compacted ?h) = concat (map (kept ?h) (sort (map fst ?h)))" by (simp add: compacted_def)
  then have "\<forall>y \<in> set (readable (compacted ?h)). ob_id y \<noteq> []" using h by auto
  then have "\<forall>y \<in> set (readable (jn_lines ?j)). ob_id y \<noteq> []"
    using x Cons.prems(2) by (simp add: journal_observation_def Let_def)
  moreover have "jn_history ?j = ?h" by (simp add: journal_observation_def Let_def)
  ultimately show ?case using Cons.IH [of ?j] Cons.prems(1) h by (simp add: journal_run_def r)
qed

lemma load_history_kept:
  assumes "load_history mk_id known hc later path rewrites (Lines lines True) = ((None, h), file)" "path \<noteq> []" "known n"
    "\<forall>x \<in> set (readable lines). ob_id x \<noteq> []"
  shows "kept h n = window hc (later - history_retention hc) (filed n lines)"
proof -
  let ?c = "later - history_retention hc" and ?M = "history_max hc"
  obtain h0 d where h0: "foldl (load_line mk_id known ?c) ([], False) lines = (h0, d)" by (metis prod.exhaust)
  have h: "h = map (\<lambda>(n, items). (n, settle ?M items)) h0"
    using assms(1,2) h0 by (auto simp: load_history_def Let_def split: if_splits)
  have "kept h0 n = filter (\<lambda>x. ?c \<le> ob_received_at x) (filed n lines)"
    using load_lines_kept [OF assms(4), of mk_id known ?c "([], False)" n] assms(3)
    by (simp add: h0 kept_def filed_def conj_commute)
  then show ?thesis unfolding h kept_settled by (simp add: settle_last_n window_def filter_sort)
qed

end
