(* ===== verification/Persist.thy ===== *)
theory Persist
  imports Startup Notices Access Journal
begin

text \<open>
  The state file (\<open>internal/coordinator/persist.go\<close>): what of a running coordinator is written, how it is
  read back, and starting from it. The file is the document itself; writing it as JSON and reading it
  is the identity here. Go's maps are association lists.
\<close>

section \<open>A running coordinator\<close>

record node =
  nd_coord :: coord
  nd_auth :: auth
  nd_book :: monitor_book
  nd_notices :: notice_book
  nd_promoted :: bool
  nd_promoted_at :: time
  nd_promoted_by :: string

text \<open>\<open>c.checks\<close> is both in the book and what the decisions read.\<close>

definition with_book :: "monitor_book \<Rightarrow> node \<Rightarrow> node" where
  "with_book b nd = nd\<lparr>nd_book := b, nd_coord := (nd_coord nd)\<lparr>co_checks := map snd (mb_checks b)\<rparr>\<rparr>"

definition no_users :: auth where
  "no_users = \<lparr>au_users = [], au_tokens = [], au_sessions = [], au_failures = []\<rparr>"

definition fresh_node :: "startup \<Rightarrow> node" where
  "fresh_node st = \<lparr>nd_coord = st_coord st, nd_auth = no_users, nd_book = st_book st,
     nd_notices = \<lparr>nb_notices = [], nb_next = 0\<rparr>, nd_promoted = False, nd_promoted_at = zero_time, nd_promoted_by = []\<rparr>"

section \<open>The document\<close>

record persisted_state =
  pe_version :: int
  pe_checks :: "(string \<times> entity_state) list"
  pe_components :: "(string \<times> entity_state) list"
  pe_last_scheduled :: "(string \<times> time) list"
  pe_silent :: "(string \<times> bool) list"
  pe_incidents :: "incident list"
  pe_next_incident :: nat
  pe_silences :: "silence list"
  pe_next_silence :: nat
  pe_maintenance :: "maintenance list"
  pe_notices :: "notice list"
  pe_next_notice :: nat
  pe_outbox :: "delivery list"
  pe_next_delivery :: nat
  pe_escalated :: "(string \<times> time) list"
  pe_promoted :: bool
  pe_promoted_at :: time
  pe_promoted_by :: string
  pe_monitors :: "monitor list"
  pe_revisions :: "monitor_revision list"
  pe_next_revision :: nat
  pe_users :: "user list"
  pe_tokens :: "api_token list"
  pe_sessions :: "session list"

definition proxy_catalog :: "monitor list \<Rightarrow> bool" where
  "proxy_catalog ms = list_ex (\<lambda>m. mo_proxy_profile m \<noteq> []) ms"

text \<open>The version says which coordinators may read the document.\<close>

definition state_version :: "monitor list \<Rightarrow> monitor_revision list \<Rightarrow> maintenance list \<Rightarrow> notice list \<Rightarrow> int" where
  "state_version ms revs managed ns =
     (if ns \<noteq> [] then 9 else if managed \<noteq> [] then 8
      else if proxy_catalog ms \<or> list_ex (\<lambda>rv. proxy_catalog (rv_catalog rv)) revs then 7 else 6)"

text \<open>An account is written without the mark of its last login being local.\<close>

definition stored_user :: "user \<Rightarrow> user" where "stored_user u = u\<lparr>us_local_login := False\<rparr>"

definition snapshot :: "time \<Rightarrow> node \<Rightarrow> persisted_state" where
  "snapshot now nd =
     (let co = nd_coord nd; b = nd_book nd; a = nd_auth nd; nb = nd_notices nd in
      \<lparr>pe_version = state_version (monitor_list b) (mb_revisions b) (dk_maintenance co) (nb_notices nb),
       pe_checks = co_states co, pe_components = co_component_states co,
       pe_last_scheduled = co_last_scheduled co, pe_silent = co_silent co,
       pe_incidents = dk_incidents co, pe_next_incident = dk_next_incident co,
       pe_silences = dk_silences co, pe_next_silence = dk_next_silence co, pe_maintenance = dk_maintenance co,
       pe_notices = nb_notices nb, pe_next_notice = nb_next nb,
       pe_outbox = dk_outbox co, pe_next_delivery = dk_next_delivery co, pe_escalated = dk_escalated co,
       pe_promoted = nd_promoted nd, pe_promoted_at = nd_promoted_at nd, pe_promoted_by = nd_promoted_by nd,
       pe_monitors = monitor_list b, pe_revisions = mb_revisions b, pe_next_revision = mb_next b,
       pe_users = map (\<lambda>it. stored_user (snd it)) (au_users a), pe_tokens = map snd (au_tokens a),
       pe_sessions = filter (\<lambda>s. now < se_expires_at s) (map snd (au_sessions a))\<rparr>)"

section \<open>Writing\<close>

definition persist_state :: "configuration \<Rightarrow> time \<Rightarrow> write_outcome \<Rightarrow> node \<Rightarrow> persisted_state option \<Rightarrow>
    persisted_state option \<times> bool" where
  "persist_state cfg now outcome nd file =
     (if su_state_file cfg = [] then (file, True)
      else case outcome of Written \<Rightarrow> (Some (snapshot now nd), True)
      | WriteFailed \<Rightarrow> (file, False)
      | SyncFailed \<Rightarrow> (Some (snapshot now nd), False))"

text \<open>\<open>mutateMonitors\<close> with the state file: the changed catalogue is in the document that is written, and is
  taken back when writing reports an error.\<close>

definition change_catalog :: "(string \<Rightarrow> duration option) \<Rightarrow> configuration \<Rightarrow> time \<Rightarrow> write_outcome \<Rightarrow> string \<Rightarrow> string \<Rightarrow>
    string \<Rightarrow> monitor list \<Rightarrow> node \<times> persisted_state option \<Rightarrow> (node \<times> persisted_state option) \<times> catalog_error option" where
  "change_catalog parse cfg now outcome actor action subj ms st =
     (let (nd, stored) = st in
      case mutate_monitors parse cfg now True actor action subj ms (nd_book nd) of
        (b, Some e) \<Rightarrow> ((with_book b nd, stored), Some e)
      | (b, None) \<Rightarrow>
          (let (stored, ok) = persist_state cfg now outcome (with_book b nd) stored;
               (b, e) = mutate_monitors parse cfg now ok actor action subj ms (nd_book nd)
           in ((with_book b nd, stored), e)))"

section \<open>Reading\<close>

datatype persist_error = RestoreCatalog catalog_error | RestoreUser string | RestoreToken string
  | PendingDelivery nat string | UnsupportedVersion int | Unreadable | Unparsable

definition user_readable :: "user \<Rightarrow> bool" where
  "user_readable u \<longleftrightarrow> valid_username (us_username u) \<and> valid_role (us_role u) \<and>
     (us_password_hash u = [] \<or> has_prefix (us_password_hash u) ''$argon2id$'')"

definition token_readable :: "api_token \<Rightarrow> bool" where
  "token_readable t \<longleftrightarrow> tk_id t \<noteq> [] \<and> valid_role (tk_role t) \<and> length (tk_hash t) = 64"

definition session_live :: "time \<Rightarrow> session \<Rightarrow> bool" where
  "session_live now s \<longleftrightarrow> length (se_token_hash s) = 64 \<and> length (se_csrf_hash s) = 64 \<and> now < se_expires_at s"

text \<open>Filling a Go map from a list: the last entry of a key wins.\<close>

definition keyed_by :: "('a \<Rightarrow> string) \<Rightarrow> 'a list \<Rightarrow> (string \<times> 'a) list" where
  "keyed_by k xs = foldl (\<lambda>m x. AList.update (k x) x m) [] xs"

definition restore_auth :: "time \<Rightarrow> persisted_state \<Rightarrow> auth \<Rightarrow> persist_error + auth" where
  "restore_auth now s a =
     (case find (\<lambda>u. \<not> user_readable u) (pe_users s) of Some u \<Rightarrow> Inl (RestoreUser (us_username u)) | None \<Rightarrow>
      case find (\<lambda>t. \<not> token_readable t) (pe_tokens s) of Some t \<Rightarrow> Inl (RestoreToken (tk_id t)) | None \<Rightarrow>
        Inr (a\<lparr>au_users := keyed_by us_username (map stored_user (pe_users s)), au_tokens := keyed_by tk_id (pe_tokens s),
          au_sessions := keyed_by se_token_hash (filter (session_live now) (pe_sessions s))\<rparr>))"

text \<open>Of a component only the decided status is read back.\<close>

definition component_part :: "entity_state \<Rightarrow> entity_state" where
  "component_part v = new_entity\<lparr>es_status := es_status v, es_stale := es_stale v, es_since := es_since v,
     es_last_verdict := es_last_verdict v\<rparr>"

definition restore_coord :: "persisted_state \<Rightarrow> coord \<Rightarrow> coord" where
  "restore_coord s co = co\<lparr>co_states := filter (\<lambda>(n, _). check_by_name co n \<noteq> None) (pe_checks s),
     co_component_states := map (\<lambda>(n, v). (n, component_part v)) (pe_components s),
     co_last_scheduled := pe_last_scheduled s, co_silent := pe_silent s,
     dk_incidents := pe_incidents s, dk_next_incident := pe_next_incident s,
     dk_silences := pe_silences s, dk_next_silence := pe_next_silence s, dk_maintenance := pe_maintenance s,
     dk_outbox := pe_outbox s, dk_next_delivery := pe_next_delivery s, dk_escalated := pe_escalated s\<rparr>"

definition restore_book :: "persisted_state \<Rightarrow> monitor_book \<Rightarrow> monitor_book" where
  "restore_book s b = (if pe_version s \<ge> 5 then b\<lparr>mb_revisions := pe_revisions s, mb_next := pe_next_revision s\<rparr> else b)"

definition restore_rest :: "configuration \<Rightarrow> persisted_state \<Rightarrow> bool \<Rightarrow> node \<Rightarrow> node \<times> persist_error option" where
  "restore_rest cfg s replicated nd =
     (case find (\<lambda>q. \<not> List.member (desk_destinations cfg) (dl_destination q)) (pe_outbox s) of
        Some q \<Rightarrow> (nd, Some (PendingDelivery (dl_id q) (dl_destination q)))
      | None \<Rightarrow>
          (let nd = nd\<lparr>nd_coord := restore_coord s (nd_coord nd), nd_book := restore_book s (nd_book nd),
                 nd_notices := \<lparr>nb_notices = pe_notices s, nb_next = pe_next_notice s\<rparr>\<rparr>
           in (if \<not> replicated \<and> pe_promoted s
               then nd\<lparr>nd_promoted := True, nd_promoted_at := pe_promoted_at s, nd_promoted_by := pe_promoted_by s\<rparr>
               else nd, None)))"

definition apply_persisted :: "(string \<Rightarrow> duration option) \<Rightarrow> configuration \<Rightarrow> time \<Rightarrow> persisted_state \<Rightarrow> bool \<Rightarrow> node \<Rightarrow>
    node \<times> persist_error option" where
  "apply_persisted parse cfg now s replicated nd =
     (case (if pe_version s \<ge> 5 then replace_catalog parse cfg (pe_monitors s) (nd_book nd) else (nd_book nd, None)) of
        (b, Some e) \<Rightarrow> (nd, Some (RestoreCatalog e))
      | (b, None) \<Rightarrow>
          (let nd = with_book b nd in
           if pe_version s \<ge> 6 then
             (case restore_auth now s (nd_auth nd) of
                Inl e \<Rightarrow> (nd, Some e)
              | Inr a \<Rightarrow> restore_rest cfg s replicated (nd\<lparr>nd_auth := a\<rparr>))
           else restore_rest cfg s replicated nd))"

text \<open>What reading the file gave.\<close>

datatype state_file = NoStateFile | UnreadableFile | UnparsableFile | StateFile persisted_state

definition restore :: "(string \<Rightarrow> duration option) \<Rightarrow> configuration \<Rightarrow> time \<Rightarrow> state_file \<Rightarrow> node \<Rightarrow>
    node \<times> persist_error option" where
  "restore parse cfg now file nd =
     (if su_state_file cfg = [] then (nd, None)
      else case file of NoStateFile \<Rightarrow> (nd, None)
      | UnreadableFile \<Rightarrow> (nd, Some Unreadable)
      | UnparsableFile \<Rightarrow> (nd, Some Unparsable)
      | StateFile s \<Rightarrow>
          if pe_version s < 1 \<or> pe_version s > 9 then (nd, Some (UnsupportedVersion (pe_version s)))
          else apply_persisted parse cfg now s False nd)"

section \<open>Reading back what was written\<close>

lemma with_book_simps [simp]:
  "nd_book (with_book b nd) = b" "nd_auth (with_book b nd) = nd_auth nd" "nd_notices (with_book b nd) = nd_notices nd"
  "co_checks (nd_coord (with_book b nd)) = map snd (mb_checks b)"
  by (simp_all add: with_book_def)

lemma keyed_by_same: "keyed k m \<Longrightarrow> keyed_by k (map snd m) = m"
proof -
  assume k: "keyed k m"
  then have "map k (map snd m) = map fst m" by (auto simp: keyed_def)
  then have "keyed_by k (map snd m) = map (\<lambda>x. (k x, x)) (map snd m)"
    using k unfolding keyed_by_def by (intro foldl_update_fresh) (simp only: keyed_def)
  also have "\<dots> = m" using k by (auto simp: keyed_def intro!: map_idI)
  finally show ?thesis .
qed

lemma keyed_map: "keyed k m \<Longrightarrow> (\<And>x. k (f x) = k x) \<Longrightarrow> keyed k (map (\<lambda>it. (fst it, f (snd it))) m)"
  by (auto simp: keyed_def comp_def)

lemma stored_user_simps [simp]: "us_username (stored_user u) = us_username u" "stored_user (stored_user u) = stored_user u"
  "user_readable (stored_user u) = user_readable u"
  by (simp_all add: stored_user_def user_readable_def)

text \<open>Accounts and tokens that can be read back; sessions whose hashes have the length of a SHA-256 in hex.\<close>

definition auth_readable :: "auth \<Rightarrow> bool" where
  "auth_readable a \<longleftrightarrow> keyed us_username (au_users a) \<and> keyed tk_id (au_tokens a) \<and> keyed se_token_hash (au_sessions a) \<and>
     (\<forall>it \<in> set (au_users a). user_readable (snd it)) \<and> (\<forall>it \<in> set (au_tokens a). token_readable (snd it)) \<and>
     (\<forall>it \<in> set (au_sessions a). length (se_token_hash (snd it)) = 64 \<and> length (se_csrf_hash (snd it)) = 64)"

lemma restore_auth_snapshot:
  assumes "auth_readable (nd_auth nd)" "now \<le> later"
  shows "restore_auth later (snapshot now nd) a = Inr (a\<lparr>
    au_users := map (\<lambda>it. (fst it, stored_user (snd it))) (au_users (nd_auth nd)), au_tokens := au_tokens (nd_auth nd),
    au_sessions := filter (\<lambda>it. later < se_expires_at (snd it)) (au_sessions (nd_auth nd))\<rparr>)"
proof -
  let ?a = "nd_auth nd"
  note r = assms(1) [unfolded auth_readable_def]
  have u: "find (\<lambda>u. \<not> user_readable u) (pe_users (snapshot now nd)) = None"
    "find (\<lambda>t. \<not> token_readable t) (pe_tokens (snapshot now nd)) = None"
    using r by (auto simp: find_None_iff snapshot_def Let_def)
  have "map stored_user (pe_users (snapshot now nd)) = map snd (map (\<lambda>it. (fst it, stored_user (snd it))) (au_users ?a))"
    by (simp add: snapshot_def Let_def)
  then have us: "keyed_by us_username (map stored_user (pe_users (snapshot now nd))) =
      map (\<lambda>it. (fst it, stored_user (snd it))) (au_users ?a)"
    using keyed_by_same [OF keyed_map [of us_username "au_users ?a" stored_user]] r by (simp only: stored_user_simps)
  have ts: "keyed_by tk_id (pe_tokens (snapshot now nd)) = au_tokens ?a"
    using r keyed_by_same [of tk_id "au_tokens ?a"] by (simp add: snapshot_def Let_def)
  have "filter (session_live later) (pe_sessions (snapshot now nd)) =
      map snd (filter (\<lambda>it. later < se_expires_at (snd it)) (au_sessions ?a))"
    using r assms(2) by (auto simp: snapshot_def Let_def filter_map comp_def session_live_def intro!: arg_cong [where f = "map snd"] filter_cong)
  then have "keyed_by se_token_hash (filter (session_live later) (pe_sessions (snapshot now nd))) =
      filter (\<lambda>it. later < se_expires_at (snd it)) (au_sessions ?a)"
    using keyed_by_same [OF keyed_filter [of se_token_hash "au_sessions ?a"]] r by simp
  with u us ts show ?thesis by (simp add: restore_auth_def)
qed

lemma book_check_names:
  assumes "monitors_ok parse cfg b"
  shows "\<forall>it \<in> set (mb_checks b). c_name (snd it) = fst it" "distinct (map fst (mb_checks b))"
proof -
  let ?ms = "map snd (mb_monitors b)"
  have ok: "catalog_ok parse cfg ?ms" "mb_checks b = enabled_checks parse ?ms" using assms by (auto simp: monitors_ok_def)
  show "\<forall>it \<in> set (mb_checks b). c_name (snd it) = fst it"
  proof
    fix it assume "it \<in> set (mb_checks b)"
    then obtain m where m: "m \<in> set ?ms" "it = (mo_name m, check_of parse m)"
      unfolding ok(2) by (auto simp: enabled_checks_def)
    then obtain c where "to_check parse m = Inr c" "trim_space (mo_name m) = mo_name m"
      using ok(1) unfolding catalog_ok_def monitor_ok_def by blast
    then show "c_name (snd it) = fst it" using to_check_name m(2) by (simp add: check_of_def)
  qed
  show "distinct (map fst (mb_checks b))"
    using ok(1) unfolding ok(2) by (simp add: catalog_ok_def enabled_checks_def comp_def distinct_map_filter)
qed

lemma find_by_key:
  "\<forall>it \<in> set m. k (snd it) = fst it \<Longrightarrow> find (\<lambda>c. k c = n) (map snd m) = map_of m n"
  by (induction m) auto

lemma check_by_name_book:
  "monitors_ok parse cfg b \<Longrightarrow> co_checks co = map snd (mb_checks b) \<Longrightarrow> check_by_name co n = map_of (mb_checks b) n"
  using book_check_names(1) find_by_key [of "mb_checks b" c_name n] by (simp add: check_by_name_def)

text \<open>A coordinator whose state can be written and read back.\<close>

definition node_ok :: "(string \<Rightarrow> duration option) \<Rightarrow> configuration \<Rightarrow> node \<Rightarrow> bool" where
  "node_ok parse cfg nd \<longleftrightarrow> monitor_book_ok parse cfg (nd_book nd) \<and> co_checks (nd_coord nd) = map snd (mb_checks (nd_book nd)) \<and>
     auth_readable (nd_auth nd) \<and> (\<forall>q \<in> set (dk_outbox (nd_coord nd)). dl_destination q \<in> set (desk_destinations cfg))"

lemma snapshot_version: "6 \<le> pe_version (snapshot now nd)" "pe_version (snapshot now nd) \<le> 9"
  by (simp_all add: snapshot_def Let_def state_version_def)

text \<open>What a restart keeps.\<close>

definition kept_by_restart :: "time \<Rightarrow> node \<Rightarrow> node \<Rightarrow> bool" where
  "kept_by_restart later nd nd' \<longleftrightarrow>
     monitor_list (nd_book nd') = monitor_list (nd_book nd) \<and> map_of (mb_checks (nd_book nd')) = map_of (mb_checks (nd_book nd)) \<and>
     mb_revisions (nd_book nd') = mb_revisions (nd_book nd) \<and> mb_next (nd_book nd') = mb_next (nd_book nd) \<and>
     co_states (nd_coord nd') = filter (\<lambda>(n, _). map_of (mb_checks (nd_book nd)) n \<noteq> None) (co_states (nd_coord nd)) \<and>
     co_component_states (nd_coord nd') = map (\<lambda>(n, v). (n, component_part v)) (co_component_states (nd_coord nd)) \<and>
     co_last_scheduled (nd_coord nd') = co_last_scheduled (nd_coord nd) \<and> co_silent (nd_coord nd') = co_silent (nd_coord nd) \<and>
     desk.truncate (nd_coord nd') = desk.truncate (nd_coord nd) \<and>
     nd_notices nd' = nd_notices nd \<and>
     au_users (nd_auth nd') = map (\<lambda>it. (fst it, stored_user (snd it))) (au_users (nd_auth nd)) \<and>
     au_tokens (nd_auth nd') = au_tokens (nd_auth nd) \<and>
     au_sessions (nd_auth nd') = filter (\<lambda>it. later < se_expires_at (snd it)) (au_sessions (nd_auth nd))"

lemma apply_snapshot:
  assumes ok: "node_ok parse cfg nd" and "now \<le> later"
  obtains nd' where "apply_persisted parse cfg later (snapshot now nd) replicated fresh = (nd', None)"
    "kept_by_restart later nd nd'" "node_ok parse cfg nd'"
    "co_isolated (nd_coord nd') = co_isolated (nd_coord fresh)" "co_reports (nd_coord nd') = co_reports (nd_coord fresh)"
    "co_history (nd_coord nd') = co_history (nd_coord fresh)" "co_beat_failures (nd_coord nd') = co_beat_failures (nd_coord fresh)"
    "nd_promoted nd' = (if \<not> replicated \<and> nd_promoted nd then True else nd_promoted fresh)"
proof -
  let ?s = "snapshot now nd"
  have mok: "monitors_ok parse cfg (nd_book nd)" and rok: "revisions_ok parse cfg (nd_book nd)"
    using ok by (simp_all add: node_ok_def monitor_book_ok_def)
  obtain b where b: "replace_catalog parse cfg (monitor_list (nd_book nd)) (nd_book fresh) = (b, None)" "monitors_ok parse cfg b"
    "monitor_list b = monitor_list (nd_book nd)" "map_of (mb_checks b) = map_of (mb_checks (nd_book nd))"
    by (rule put_back [OF mok])
  define a where "a = (nd_auth fresh)\<lparr>
    au_users := map (\<lambda>it. (fst it, stored_user (snd it))) (au_users (nd_auth nd)), au_tokens := au_tokens (nd_auth nd),
    au_sessions := filter (\<lambda>it. later < se_expires_at (snd it)) (au_sessions (nd_auth nd))\<rparr>"
  have ra: "restore_auth later ?s (nd_auth fresh) = Inr a"
    unfolding a_def using ok assms(2) by (intro restore_auth_snapshot) (simp_all add: node_ok_def)
  define nd1 where "nd1 = (with_book b fresh)\<lparr>nd_auth := a\<rparr>"
  have "find (\<lambda>q. \<not> List.member (desk_destinations cfg) (dl_destination q)) (pe_outbox ?s) = None"
    using ok by (auto simp: find_None_iff snapshot_def Let_def node_ok_def)
  then obtain nd' where nd': "restore_rest cfg ?s replicated nd1 = (nd', None)"
      "nd_coord nd' = restore_coord ?s (nd_coord nd1)" "nd_book nd' = restore_book ?s b" "nd_auth nd' = a"
      "nd_notices nd' = \<lparr>nb_notices = pe_notices ?s, nb_next = pe_next_notice ?s\<rparr>"
      "nd_promoted nd' = (if \<not> replicated \<and> pe_promoted ?s then True else nd_promoted fresh)"
    by (simp add: restore_rest_def Let_def nd1_def with_book_def)
  have v: "5 \<le> pe_version ?s" "6 \<le> pe_version ?s" using snapshot_version [of now nd] by simp_all
  have m: "pe_monitors ?s = monitor_list (nd_book nd)" by (simp add: snapshot_def Let_def)
  have ap: "apply_persisted parse cfg later ?s replicated fresh = (nd', None)"
    using v ra nd'(1) by (simp add: apply_persisted_def m b(1) nd1_def)
  have known: "check_by_name (nd_coord nd1) n = map_of (mb_checks (nd_book nd)) n" for n
    using check_by_name_book [OF b(2), of "nd_coord nd1" n] b(4) by (simp add: nd1_def)
  have bk: "nd_book nd' = b\<lparr>mb_revisions := mb_revisions (nd_book nd), mb_next := mb_next (nd_book nd)\<rparr>"
    unfolding nd'(3) restore_book_def using v by (simp add: snapshot_def Let_def)
  have ml: "monitor_list (nd_book nd') = monitor_list (nd_book nd)" "mb_checks (nd_book nd') = mb_checks b"
    unfolding bk using b(3) by (simp_all add: monitor_list_def)
  have kept: "kept_by_restart later nd nd'"
    unfolding kept_by_restart_def ml nd'(2,4,5) using b(4)
    by (simp add: bk a_def restore_coord_def known snapshot_def Let_def desk.defs)
  have "monitors_ok parse cfg (nd_book nd')" "revisions_ok parse cfg (nd_book nd')"
    unfolding bk using b(2) rok by (simp_all add: monitors_ok_def revisions_ok_def)
  moreover have "auth_readable a"
    using ok by (auto simp: a_def node_ok_def auth_readable_def intro!: keyed_map keyed_filter)
  ultimately have "node_ok parse cfg nd'"
    using ok by (simp add: node_ok_def monitor_book_ok_def nd'(2,4) ml restore_coord_def nd1_def snapshot_def Let_def)
  with ap kept show ?thesis
    by (intro that [OF ap kept]) (simp_all add: nd'(2,6) restore_coord_def nd1_def with_book_def snapshot_def Let_def)
qed

text \<open>Reading the file that was written, when there is one.\<close>

definition read_back :: "persisted_state option \<Rightarrow> state_file" where
  "read_back stored = (case stored of None \<Rightarrow> NoStateFile | Some s \<Rightarrow> StateFile s)"

lemma restore_snapshot:
  assumes "node_ok parse cfg nd" "written \<le> later" "su_state_file cfg \<noteq> []"
  shows "restore parse cfg later (StateFile (snapshot written nd)) fresh =
    apply_persisted parse cfg later (snapshot written nd) False fresh"
  using snapshot_version [of written nd] assms(3) by (simp add: restore_def)

lemma fresh_node_ok:
  assumes "new_coordinator pa now cfg = Inr st" "\<forall>c \<in> set (su_checks cfg). writes_back parse c"
  shows "node_ok parse (st_config st) (fresh_node st)"
proof -
  note n = new_coordinator_Inr [OF assms(1)]
  have d: "distinct (map c_name (su_checks cfg))" using n(7) by (simp add: admit_checks_None)
  show ?thesis
    using baseline_ok(1) [OF assms]
    by (simp add: node_ok_def fresh_node_def n(2,3) initial_coord_def baseline_maps [OF d] comp_def no_users_def auth_readable_def)
qed

end
