(* ===== verification/Standby.thy ===== *)
theory Standby
  imports Persist
begin

text \<open>
  High availability (\<open>internal/coordinator/ha.go\<close>, the guard in \<open>routes.go\<close>): a standby copies the
  primary's state, serves reads and becomes active only when it is promoted. A replication pass fetches a
  document and then applies it under a lock that a promotion takes too, so a pass is two steps.
\<close>

section \<open>State\<close>

datatype replica_error = ReplicaRequest string | ReplicaStatus int | ReplicaDecode | ReplicaDocumentVersion int
  | ReplicaStateVersion int | ReplicaState persist_error | ReplicaHistory | ReplicaPersist | ReplicaCanceled

record standby =
  sb_node :: node
  sb_lines :: journal
  sb_file :: "persisted_state option"
  sb_last_sync :: time
  sb_primary_at :: time
  sb_error :: "replica_error option"

record replica_document =
  rd_version :: int
  rd_generated_at :: time
  rd_state :: persisted_state
  rd_history :: "observation list"

definition default_replica_interval :: duration where "default_replica_interval = 30 * second"
definition default_replica_timeout :: duration where "default_replica_timeout = 2 * minute"

definition replica_interval :: "configuration \<Rightarrow> duration" where
  "replica_interval cfg = positive_or default_replica_interval (ha_interval (su_ha cfg))"

definition replica_timeout :: "configuration \<Rightarrow> duration" where
  "replica_timeout cfg = positive_or default_replica_timeout (ha_timeout (su_ha cfg))"

definition is_standby :: "configuration \<Rightarrow> node \<Rightarrow> bool" where
  "is_standby cfg nd \<longleftrightarrow> ha_role (su_ha cfg) = role_standby \<and> \<not> nd_promoted nd"

record ha_status =
  hx_role :: string
  hx_active :: bool
  hx_promoted :: bool
  hx_promoted_at :: time
  hx_promoted_by :: string
  hx_last_sync :: time
  hx_primary_at :: time
  hx_lag_ms :: int
  hx_error :: "replica_error option"

definition ha_status :: "configuration \<Rightarrow> standby \<Rightarrow> ha_status" where
  "ha_status cfg sb =
     (let nd = sb_node sb; role = (if ha_role (su_ha cfg) = [] then role_primary else ha_role (su_ha cfg)) in
      \<lparr>hx_role = role, hx_active = (\<not> is_standby cfg nd), hx_promoted = nd_promoted nd, hx_promoted_at = nd_promoted_at nd,
       hx_promoted_by = nd_promoted_by nd, hx_last_sync = sb_last_sync sb, hx_primary_at = sb_primary_at sb,
       hx_lag_ms = (if \<not> is_zero (sb_last_sync sb) \<and> \<not> is_zero (sb_primary_at sb)
         then max 0 (quot (sub_time (sb_last_sync sb) (sb_primary_at sb)) millisecond) else 0),
       hx_error = sb_error sb\<rparr>)"

section \<open>The primary's side\<close>

datatype replica_reply = ReplicaDisabled | ReplicaUnauthorized | ReplicaBadSince | ReplicaDocument replica_document

definition trim_prefix :: "string \<Rightarrow> string \<Rightarrow> string" where
  "trim_prefix p s = (if has_prefix s p then drop (length p) s else s)"

definition require_replica :: "configuration \<Rightarrow> string \<Rightarrow> replica_reply option" where
  "require_replica cfg header =
     (let token = ha_token (su_ha cfg) in
      if token = [] then Some ReplicaDisabled
      else if trim_prefix ''Bearer '' header \<noteq> token then Some ReplicaUnauthorized else None)"

text \<open>\<open>parse_time\<close> is \<open>time.Parse\<close> for RFC 3339, \<open>raw\<close> the query parameter, empty when it is missing.\<close>

definition handle_replica :: "(string \<Rightarrow> time option) \<Rightarrow> configuration \<Rightarrow> time \<Rightarrow> string \<Rightarrow> string \<Rightarrow> node \<Rightarrow> replica_reply" where
  "handle_replica parse_time cfg now header raw nd =
     (case require_replica cfg header of Some e \<Rightarrow> e | None \<Rightarrow>
      case (if raw = [] then Some zero_time else parse_time raw) of None \<Rightarrow> ReplicaBadSince | Some since \<Rightarrow>
        ReplicaDocument \<lparr>rd_version = 1, rd_generated_at = now, rd_state = snapshot now nd,
          rd_history = history_of (su_history cfg) now (co_history (nd_coord nd)) [] since 0\<rparr>)"

section \<open>The standby's side\<close>

definition latest_history_time :: "history \<Rightarrow> time" where
  "latest_history_time h =
     foldl (\<lambda>t it. if snd it \<noteq> [] \<and> ob_received_at (last (snd it)) > t then ob_received_at (last (snd it)) else t) zero_time h"

text \<open>The observations of the document that the standby does not have.\<close>

fun unseen :: "(observation \<Rightarrow> string) \<Rightarrow> string list \<Rightarrow> observation list \<Rightarrow> observation list" where
  "unseen mk_id seen [] = []"
| "unseen mk_id seen (x # xs) =
     (let x = ensure_id mk_id x in
      if List.member seen (ob_id x) then unseen mk_id seen xs else x # unseen mk_id (ob_id x # seen) xs)"

definition history_ids :: "history \<Rightarrow> string list" where
  "history_ids h = concat (map (\<lambda>it. map ob_id (snd it)) h)"

definition with_history :: "history \<Rightarrow> node \<Rightarrow> node" where
  "with_history h nd = nd\<lparr>nd_coord := (nd_coord nd)\<lparr>co_history := h\<rparr>\<rparr>"

text \<open>\<open>appended\<close> and \<open>outcome\<close> are what appending to the journal and writing the state file answered.\<close>

definition apply_replica :: "(string \<Rightarrow> duration option) \<Rightarrow> (observation \<Rightarrow> string) \<Rightarrow> configuration \<Rightarrow> time \<Rightarrow> write_outcome \<Rightarrow>
    write_outcome \<Rightarrow> replica_document \<Rightarrow> standby \<Rightarrow> standby \<times> replica_error option" where
  "apply_replica parse mk_id cfg now appended outcome d sb =
     (let s = rd_state d in
      if pe_version s < 1 \<or> pe_version s > 9 then (sb, Some (ReplicaStateVersion (pe_version s)))
      else case apply_persisted parse cfg now s True (sb_node sb) of
        (nd, Some e) \<Rightarrow> (sb\<lparr>sb_node := nd\<rparr>, Some (ReplicaState e))
      | (nd, None) \<Rightarrow>
          (let h = co_history (nd_coord nd); fresh = unseen mk_id (history_ids h) (rd_history d) in
           if fresh \<noteq> [] \<and> su_history_file cfg \<noteq> [] \<and> appended \<noteq> Written
           then (sb\<lparr>sb_node := nd, sb_lines := (if appended = WriteFailed then sb_lines sb else sb_lines sb @ map Some fresh)\<rparr>,
             Some ReplicaHistory)
           else
             let nd = with_history (foldl (append_history (su_history cfg) now) h fresh) nd;
                 (file, ok) = persist_state cfg now outcome nd (sb_file sb)
             in (sb\<lparr>sb_node := nd, sb_file := file,
                   sb_lines := (if su_history_file cfg = [] then sb_lines sb else sb_lines sb @ map Some fresh)\<rparr>,
                 if ok then None else Some ReplicaPersist)))"

text \<open>What the request brought: an error, that it was cancelled, or a status and the decoded document.\<close>

datatype fetched = FetchFailed string | FetchCanceled | Fetched int "replica_document option"

definition fetched_document :: "fetched \<Rightarrow> replica_error + replica_document" where
  "fetched_document f =
     (case f of FetchFailed e \<Rightarrow> Inl (ReplicaRequest e) | FetchCanceled \<Rightarrow> Inl ReplicaCanceled
      | Fetched code d \<Rightarrow>
          if code div 100 \<noteq> 2 then Inl (ReplicaStatus code)
          else case d of None \<Rightarrow> Inl ReplicaDecode
          | Some d \<Rightarrow> if rd_version d \<noteq> 1 then Inl (ReplicaDocumentVersion (rd_version d)) else Inr d)"

definition finish_sync :: "time \<Rightarrow> time \<Rightarrow> replica_error option \<Rightarrow> standby \<Rightarrow> standby" where
  "finish_sync now generated err sb =
     (case err of
        Some e \<Rightarrow> if nd_promoted (sb_node sb) \<and> e = ReplicaCanceled then sb else sb\<lparr>sb_error := Some e\<rparr>
      | None \<Rightarrow> sb\<lparr>sb_last_sync := now, sb_primary_at := generated, sb_error := None\<rparr>)"

definition sync_replica :: "(string \<Rightarrow> duration option) \<Rightarrow> (observation \<Rightarrow> string) \<Rightarrow> configuration \<Rightarrow> time \<Rightarrow> write_outcome \<Rightarrow>
    write_outcome \<Rightarrow> fetched \<Rightarrow> standby \<Rightarrow> standby" where
  "sync_replica parse mk_id cfg now appended outcome f sb =
     (case fetched_document f of
        Inl e \<Rightarrow> finish_sync now zero_time (Some e) sb
      | Inr d \<Rightarrow> (let (sb, err) = apply_replica parse mk_id cfg now appended outcome d sb
                  in finish_sync now (rd_generated_at d) err sb))"

section \<open>Promotion\<close>

datatype promote_error = NotConfirmed | NotAStandby | PromotePersist

definition promote :: "configuration \<Rightarrow> time \<Rightarrow> write_outcome \<Rightarrow> string \<Rightarrow> bool \<Rightarrow> standby \<Rightarrow> standby \<times> promote_error option" where
  "promote cfg now outcome actor confirmed sb =
     (let nd = sb_node sb in
      if \<not> confirmed then (sb, Some NotConfirmed)
      else if ha_role (su_ha cfg) \<noteq> role_standby then (sb, Some NotAStandby)
      else if nd_promoted nd then (sb, None)
      else
        let up = nd\<lparr>nd_promoted := True, nd_promoted_at := now, nd_promoted_by := trim_space actor\<rparr>;
            (file, ok) = persist_state cfg now outcome up (sb_file sb)
        in if ok then (sb\<lparr>sb_node := up, sb_file := file\<rparr>, None)
           else (sb\<lparr>sb_node := nd\<lparr>nd_promoted := False, nd_promoted_at := zero_time, nd_promoted_by := []\<rparr>, sb_file := file\<rparr>,
                 Some PromotePersist))"

datatype promote_reply = PromoteDenied auth_error | PromoteBadRequest | PromoteNoActor | PromoteRefused promote_error
  | PromoteStatus ha_status

definition with_auth :: "auth \<Rightarrow> standby \<Rightarrow> standby" where
  "with_auth a sb = sb\<lparr>sb_node := (sb_node sb)\<lparr>nd_auth := a\<rparr>\<rparr>"

text \<open>\<open>body\<close> is the actor and the confirmation, \<open>None\<close> for a body that cannot be decoded.\<close>

definition handle_promote :: "kdf \<Rightarrow> auth_config \<Rightarrow> configuration \<Rightarrow> time \<Rightarrow> write_outcome \<Rightarrow> Auth.request \<Rightarrow> (string \<times> bool) option \<Rightarrow>
    standby \<Rightarrow> standby \<times> promote_reply" where
  "handle_promote kd ac cfg now outcome r body sb =
     (case require_permission kd ac now r PermissionManageAuth (nd_auth (sb_node sb)) of
        (a, Inl e) \<Rightarrow> (with_auth a sb, PromoteDenied e)
      | (a, Inr who) \<Rightarrow>
          (let sb = with_auth a sb in
           case body of None \<Rightarrow> (sb, PromoteBadRequest)
           | Some (actor, confirmed) \<Rightarrow>
               (let actor = mutation_actor who actor in
                if trim_space actor = [] then (sb, PromoteNoActor)
                else case promote cfg now outcome actor confirmed sb of
                  (sb, Some e) \<Rightarrow> (sb, PromoteRefused e)
                | (sb, None) \<Rightarrow> (sb, PromoteStatus (ha_status cfg sb)))))"

section \<open>Serving\<close>

definition standby_blocks :: "string \<Rightarrow> string \<Rightarrow> bool" where
  "standby_blocks meth path =
     (if meth \<noteq> ''GET'' \<and> meth \<noteq> ''HEAD'' \<and> meth \<noteq> ''OPTIONS'' then path \<noteq> ''/v1/ha/promote''
      else path = ''/v1/assignments'' \<or> path = ''/v1/checks'')"

text \<open>\<open>None\<close> is the answer that this is a read-only standby.\<close>

definition serve :: "configuration \<Rightarrow> string \<Rightarrow> string \<Rightarrow> (standby \<Rightarrow> standby \<times> 'r) \<Rightarrow> standby \<Rightarrow> standby \<times> 'r option" where
  "serve cfg meth path handler sb =
     (if is_standby cfg (sb_node sb) \<and> standby_blocks meth path then (sb, None)
      else (let (sb, reply) = handler sb in (sb, Some reply)))"

definition view_only :: "kdf \<Rightarrow> auth_config \<Rightarrow> time \<Rightarrow> Auth.request \<Rightarrow> (auth \<Rightarrow> auth \<times> 'r) \<Rightarrow> auth \<Rightarrow> auth \<times> (auth_error + 'r)" where
  "view_only kd ac now r handler a =
     (if \<not> auth_enabled ac a then (let (a, reply) = handler a in (a, Inr reply))
      else case require_permission kd ac now r PermissionView a of
        (a, Inl e) \<Rightarrow> (a, Inl e)
      | (a, Inr _) \<Rightarrow> (let (a, reply) = handler a in (a, Inr reply)))"

section \<open>A standby over time\<close>

text \<open>A pass applies what it fetched; a request to promote comes in through the guard.\<close>

datatype ha_event = Pass time write_outcome write_outcome fetched
  | PromotionRequest time write_outcome Auth.request "(string \<times> bool) option"

definition ha_step :: "(string \<Rightarrow> duration option) \<Rightarrow> (observation \<Rightarrow> string) \<Rightarrow> kdf \<Rightarrow> auth_config \<Rightarrow> configuration \<Rightarrow>
    standby \<Rightarrow> ha_event \<Rightarrow> standby" where
  "ha_step parse mk_id kd ac cfg sb ev =
     (case ev of
        Pass now appended outcome f \<Rightarrow> sync_replica parse mk_id cfg now appended outcome f sb
      | PromotionRequest now outcome r body \<Rightarrow>
          fst (serve cfg ''POST'' ''/v1/ha/promote'' (handle_promote kd ac cfg now outcome r body) sb))"

definition ha_run :: "(string \<Rightarrow> duration option) \<Rightarrow> (observation \<Rightarrow> string) \<Rightarrow> kdf \<Rightarrow> auth_config \<Rightarrow> configuration \<Rightarrow>
    standby \<Rightarrow> ha_event list \<Rightarrow> standby" where
  "ha_run parse mk_id kd ac cfg sb evs = foldl (ha_step parse mk_id kd ac cfg) sb evs"

text \<open>A request that promotes: permitted, confirmed, by somebody, and written down.\<close>

definition promotes :: "kdf \<Rightarrow> auth_config \<Rightarrow> configuration \<Rightarrow> standby \<Rightarrow> ha_event \<Rightarrow> bool" where
  "promotes kd ac cfg sb ev \<longleftrightarrow>
     (case ev of Pass _ _ _ _ \<Rightarrow> False
      | PromotionRequest now outcome r body \<Rightarrow>
          (case (snd (require_permission kd ac now r PermissionManageAuth (nd_auth (sb_node sb))), body) of
             (Inr who, Some (actor, confirmed)) \<Rightarrow> confirmed \<and> trim_space (mutation_actor who actor) \<noteq> [] \<and>
               (su_state_file cfg = [] \<or> outcome = Written)
           | _ \<Rightarrow> False))"

section \<open>Starting\<close>

definition monitor_known :: "monitor_book \<Rightarrow> string \<Rightarrow> bool" where
  "monitor_known b n \<longleftrightarrow> map_of (mb_monitors b) n \<noteq> None"

datatype boot_error = BootConfig startup_error | BootState persist_error | BootHistory journal_error | BootAdmin bootstrap_error

text \<open>\<open>New\<close> with its last steps: the state file, the journal and the first administrator. \<open>ac\<close> is the part of
  the configuration the accounts use; \<open>rewritten\<close> and \<open>persists\<close> are what rewriting the journal and writing
  the state file answered.\<close>

definition boot :: "parsers \<Rightarrow> (string \<Rightarrow> duration option) \<Rightarrow> (observation \<Rightarrow> string) \<Rightarrow> kdf \<Rightarrow> auth_config \<Rightarrow> time \<Rightarrow>
    bytes option \<Rightarrow> write_outcome \<Rightarrow> bool \<Rightarrow> configuration \<Rightarrow> state_file \<Rightarrow> journal_file \<Rightarrow> boot_error + node \<times> journal_file" where
  "boot pa parse mk_id kd ac now salt rewritten persists cfg stored lines =
     (case new_coordinator pa now cfg of Inl e \<Rightarrow> Inl (BootConfig e) | Inr st \<Rightarrow>
      case (if su_skip_restore cfg then (fresh_node st, None) else restore parse (st_config st) now stored (fresh_node st)) of
        (nd, Some e) \<Rightarrow> Inl (BootState e)
      | (nd, None) \<Rightarrow>
          (case (if su_skip_restore cfg then ((None, []), lines)
              else load_history mk_id (monitor_known (nd_book nd)) (su_history cfg) now (su_history_file cfg) rewritten lines) of
             ((Some e, h), lines) \<Rightarrow> Inl (BootHistory e)
           | ((None, h), lines) \<Rightarrow>
               (case ensure_bootstrap_admin kd ac now salt persists (nd_auth nd) of
                  (a, Some e) \<Rightarrow> Inl (BootAdmin e)
                | (a, None) \<Rightarrow> Inr ((with_history h nd)\<lparr>nd_auth := a\<rparr>, lines))))"

section \<open>Facts\<close>

lemma restore_rest_promoted [simp]:
  "nd_promoted (fst (restore_rest cfg s True nd)) = nd_promoted nd"
  by (simp add: restore_rest_def Let_def split: option.splits)

lemma restore_rest_promoted' [simp]: "restore_rest cfg s True nd = (nd', e) \<Longrightarrow> nd_promoted nd' = nd_promoted nd"
  using restore_rest_promoted [of cfg s nd] by simp

lemma with_book_promoted [simp]: "nd_promoted (with_book b nd) = nd_promoted nd"
  by (simp add: with_book_def)

lemma apply_replicated_promoted:
  assumes "apply_persisted parse cfg now s True nd = (nd', e)"
  shows "nd_promoted nd' = nd_promoted nd"
proof -
  let ?r = "if pe_version s \<ge> 5 then replace_catalog parse cfg (pe_monitors s) (nd_book nd) else (nd_book nd, None)"
  obtain b err where r: "?r = (b, err)" by (metis prod.exhaust)
  show ?thesis
  proof (cases err)
    case (Some x)
    then show ?thesis using assms unfolding apply_persisted_def r by simp
  next
    case None
    show ?thesis
    proof (cases "pe_version s \<ge> 6")
      case True
      then show ?thesis using assms None unfolding apply_persisted_def r
        by (cases "restore_auth now s (nd_auth nd)") (auto simp: Let_def)
    next
      case False
      then show ?thesis using assms None unfolding apply_persisted_def r by (auto simp: Let_def)
    qed
  qed
qed

lemma with_history_simps [simp]:
  "nd_promoted (with_history h nd) = nd_promoted nd" "nd_book (with_history h nd) = nd_book nd"
  "nd_auth (with_history h nd) = nd_auth nd" "nd_notices (with_history h nd) = nd_notices nd"
  "co_history (nd_coord (with_history h nd)) = h" "kept_by_restart t nd0 (with_history h nd) = kept_by_restart t nd0 nd"
  by (simp_all add: with_history_def kept_by_restart_def desk.defs)

lemma apply_replica_promoted:
  assumes "apply_replica parse mk_id cfg now appended outcome d sb = (sb', e)"
  shows "nd_promoted (sb_node sb') = nd_promoted (sb_node sb)"
proof -
  obtain nd err where a: "apply_persisted parse cfg now (rd_state d) True (sb_node sb) = (nd, err)" by (metis prod.exhaust)
  then have p: "nd_promoted nd = nd_promoted (sb_node sb)" by (rule apply_replicated_promoted)
  show ?thesis
    using assms p by (cases err) (auto simp: apply_replica_def a Let_def split: if_splits prod.splits)
qed

lemma finish_sync_node [simp]: "sb_node (finish_sync now g e sb) = sb_node sb"
  by (simp add: finish_sync_def split: option.splits)

lemma sync_promoted [simp]:
  "nd_promoted (sb_node (sync_replica parse mk_id cfg now appended outcome f sb)) = nd_promoted (sb_node sb)"
  by (auto simp: sync_replica_def split: sum.splits prod.splits dest: apply_replica_promoted)

lemma with_auth_simps [simp]:
  "nd_promoted (sb_node (with_auth a sb)) = nd_promoted (sb_node sb)" "nd_auth (sb_node (with_auth a sb)) = a"
  by (simp_all add: with_auth_def)

lemma persist_state_ok:
  "snd (persist_state cfg now outcome nd file) \<longleftrightarrow> su_state_file cfg = [] \<or> outcome = Written"
  by (cases outcome) (simp_all add: persist_state_def)

lemma promote_promoted:
  assumes "promote cfg now outcome actor confirmed sb = (sb', e)" "\<not> nd_promoted (sb_node sb)" "nd_promoted (sb_node sb')"
  shows "confirmed \<and> ha_role (su_ha cfg) = role_standby \<and> (su_state_file cfg = [] \<or> outcome = Written)"
proof -
  let ?up = "(sb_node sb)\<lparr>nd_promoted := True, nd_promoted_at := now, nd_promoted_by := trim_space actor\<rparr>"
  obtain stored ok where p: "persist_state cfg now outcome ?up (sb_file sb) = (stored, ok)" by (metis prod.exhaust)
  then have "ok \<longleftrightarrow> su_state_file cfg = [] \<or> outcome = Written" using persist_state_ok [of cfg now outcome ?up "sb_file sb"] by simp
  then show ?thesis using assms p by (auto simp: promote_def Let_def split: if_splits)
qed

lemma step_promotes:
  assumes "\<not> nd_promoted (sb_node sb)" "nd_promoted (sb_node (ha_step parse mk_id kd ac cfg sb ev))"
  shows "promotes kd ac cfg sb ev"
proof (cases ev)
  case (Pass now appended outcome f)
  then show ?thesis using assms by (simp add: ha_step_def)
next
  case (PromotionRequest now outcome r body)
  obtain a res where q: "require_permission kd ac now r PermissionManageAuth (nd_auth (sb_node sb)) = (a, res)"
    by (metis prod.exhaust)
  have s: "ha_step parse mk_id kd ac cfg sb ev = fst (handle_promote kd ac cfg now outcome r body sb)"
    by (simp add: ha_step_def PromotionRequest serve_def standby_blocks_def split: prod.splits)
  obtain who actor confirmed where w: "res = Inr who" "body = Some (actor, confirmed)"
    "trim_space (mutation_actor who actor) \<noteq> []"
    using assms unfolding s by (auto simp: handle_promote_def q Let_def split: sum.splits option.splits if_splits)
  obtain sb' e where p: "promote cfg now outcome (mutation_actor who actor) confirmed (with_auth a sb) = (sb', e)"
    by (metis prod.exhaust)
  have "nd_promoted (sb_node sb')"
    using assms(2) w unfolding s by (auto simp: handle_promote_def q p Let_def split: option.splits)
  with promote_promoted [OF p] assms(1) w show ?thesis by (simp add: promotes_def PromotionRequest q)
qed

lemma run_promotes:
  assumes "\<not> nd_promoted (sb_node sb)" "nd_promoted (sb_node (ha_run parse mk_id kd ac cfg sb evs))"
  shows "\<exists>pre ev post. evs = pre @ ev # post \<and> \<not> nd_promoted (sb_node (ha_run parse mk_id kd ac cfg sb pre)) \<and>
    promotes kd ac cfg (ha_run parse mk_id kd ac cfg sb pre) ev"
  using assms
proof (induction evs rule: rev_induct)
  case Nil
  then show ?case by (simp add: ha_run_def)
next
  case (snoc ev evs)
  let ?sb = "ha_run parse mk_id kd ac cfg sb evs"
  have step: "ha_run parse mk_id kd ac cfg sb (evs @ [ev]) = ha_step parse mk_id kd ac cfg ?sb ev" by (simp add: ha_run_def)
  show ?case
  proof (cases "nd_promoted (sb_node ?sb)")
    case True
    then obtain pre ev' post where "evs = pre @ ev' # post" "\<not> nd_promoted (sb_node (ha_run parse mk_id kd ac cfg sb pre))"
      "promotes kd ac cfg (ha_run parse mk_id kd ac cfg sb pre) ev'"
      using snoc by blast
    then show ?thesis by (intro exI [of _ pre] exI [of _ ev'] exI [of _ "post @ [ev]"]) simp
  next
    case False
    then have "promotes kd ac cfg ?sb ev" using step_promotes [of ?sb] snoc.prems(2) unfolding step by blast
    then show ?thesis using False by (intro exI [of _ evs] exI [of _ ev] exI [of _ "[]"]) simp
  qed
qed

section \<open>Replication copies the state\<close>

lemma apply_replica_snapshot:
  assumes "node_ok parse cfg nd" "written \<le> now"
  obtains sb' where "apply_replica parse mk_id cfg now Written Written
      \<lparr>rd_version = v, rd_generated_at = g, rd_state = snapshot written nd, rd_history = xs\<rparr> sb = (sb', None)"
    "kept_by_restart now nd (sb_node sb')" "node_ok parse cfg (sb_node sb')" "nd_promoted (sb_node sb') = nd_promoted (sb_node sb)"
    "co_history (nd_coord (sb_node sb')) = foldl (append_history (su_history cfg) now) (co_history (nd_coord (sb_node sb)))
       (unseen mk_id (history_ids (co_history (nd_coord (sb_node sb)))) xs)"
proof -
  let ?d = "\<lparr>rd_version = v, rd_generated_at = g, rd_state = snapshot written nd, rd_history = xs\<rparr>"
  let ?h = "co_history (nd_coord (sb_node sb))"
  obtain nd' where nd': "apply_persisted parse cfg now (snapshot written nd) True (sb_node sb) = (nd', None)"
    "kept_by_restart now nd nd'" "node_ok parse cfg nd'" "co_history (nd_coord nd') = ?h" "nd_promoted nd' = nd_promoted (sb_node sb)"
    using apply_snapshot [OF assms, of True "sb_node sb"] by (metis (no_types, lifting))
  define nd2 where "nd2 = with_history (foldl (append_history (su_history cfg) now) ?h (unseen mk_id (history_ids ?h) xs)) nd'"
  obtain stored where p: "persist_state cfg now Written nd2 (sb_file sb) = (stored, True)"
    using persist_state_ok [of cfg now Written nd2] by (metis prod.exhaust_sel)
  have v: "\<not> (pe_version (snapshot written nd) < 1 \<or> pe_version (snapshot written nd) > 9)"
    using snapshot_version [of written nd] by simp
  define sb2 where "sb2 = sb\<lparr>sb_node := nd2, sb_file := stored,
    sb_lines := (if su_history_file cfg = [] then sb_lines sb else sb_lines sb @ map Some (unseen mk_id (history_ids ?h) xs))\<rparr>"
  have "apply_replica parse mk_id cfg now Written Written ?d sb = (sb2, None)"
    using v nd'(1,4) p by (simp add: apply_replica_def Let_def nd2_def [symmetric] sb2_def)
  moreover have "node_ok parse cfg nd2"
    using nd'(3) by (simp add: nd2_def node_ok_def) (simp add: with_history_def)
  ultimately show ?thesis using nd'(2,5) by (intro that [of sb2]) (simp_all add: sb2_def nd2_def)
qed

section \<open>No observation twice\<close>

lemma unseen_ids:
  "distinct (map ob_id (unseen mk_id seen xs)) \<and> set seen \<inter> ob_id ` set (unseen mk_id seen xs) = {} \<and>
   (\<lambda>x. ob_id (ensure_id mk_id x)) ` set xs \<subseteq> set seen \<union> ob_id ` set (unseen mk_id seen xs)"
  by (induction mk_id seen xs rule: unseen.induct) (auto simp: Let_def)

definition each_once :: "history \<Rightarrow> bool" where
  "each_once h \<longleftrightarrow> distinct (map fst h) \<and> distinct (history_ids h)"

lemma kept_Cons: "kept ((n, xs) # h) k = (if k = n then xs else kept h k)"
  by (simp add: kept_def)

lemma history_ids_update:
  "distinct (map fst h) \<Longrightarrow> mset (history_ids (AList.update k v h)) + mset (map ob_id (kept h k)) =
     mset (history_ids h) + mset (map ob_id v)"
proof (induction h)
  case Nil
  then show ?case by (simp add: history_ids_def kept_def)
next
  case (Cons it h)
  obtain n xs where it: "it = (n, xs)" by (cases it)
  show ?case
  proof (cases "k = n")
    case True
    then show ?thesis by (simp add: it history_ids_def kept_Cons)
  next
    case False
    then show ?thesis using Cons by (simp add: it history_ids_def kept_Cons)
  qed
qed

lemma distinct_sub: "mset xs \<subseteq># mset ys \<Longrightarrow> distinct ys \<Longrightarrow> distinct xs"
proof -
  assume sub: "mset xs \<subseteq># mset ys" and d: "distinct ys"
  have le: "count (mset xs) a \<le> 1" for a
  proof -
    have "count (mset ys) a = (if a \<in> set ys then 1 else 0)" using d by (simp only: distinct_count_atmost_1)
    then have "count (mset ys) a \<le> 1" by (simp only:) simp
    then show ?thesis using le_trans [OF mset_subset_eq_count [OF sub, of a]] by blast
  qed
  have "count (mset xs) a = (if a \<in> set xs then 1 else 0)" for a
    using le [of a] by (auto simp: le_Suc_eq)
  then show "distinct xs" by (simp add: distinct_count_atmost_1)
qed

lemma sub_cancel: "D \<subseteq># add_mset i B \<Longrightarrow> A + B = C + D \<Longrightarrow> A \<subseteq># add_mset i C"
proof -
  assume "D \<subseteq># add_mset i B" "A + B = C + D"
  then have "A + B \<subseteq># C + add_mset i B" by simp
  then have "A + B \<subseteq># add_mset i C + B" by simp
  then show "A \<subseteq># add_mset i C" by (simp only: subset_mset.add_le_cancel_right)
qed

lemma append_once:
  assumes "each_once h" "ob_id x \<notin> set (history_ids h)"
  shows "each_once (append_history hc now h x) \<and> set (history_ids (append_history hc now h x)) \<subseteq> insert (ob_id x) (set (history_ids h))"
proof -
  let ?k = "ob_check x"
  let ?v = "trim_observations hc now (insert_observation x (kept h ?k))"
  have "mset ?v \<subseteq># add_mset x (mset (kept h ?k))"
    using trim_sub [of hc now "insert_observation x (kept h ?k)"] by (simp add: insert_mset)
  then have "image_mset ob_id (mset ?v) \<subseteq># add_mset (ob_id x) (image_mset ob_id (mset (kept h ?k)))"
    using image_mset_subseteq_mono by fastforce
  moreover have "mset (history_ids (AList.update ?k ?v h)) + image_mset ob_id (mset (kept h ?k)) =
      mset (history_ids h) + image_mset ob_id (mset ?v)"
    using history_ids_update [of h ?k ?v] assms(1) by (simp add: each_once_def)
  ultimately have sub: "mset (history_ids (AList.update ?k ?v h)) \<subseteq># add_mset (ob_id x) (mset (history_ids h))"
    by (rule sub_cancel)
  have "distinct (ob_id x # history_ids h)" using assms by (simp add: each_once_def)
  then have "distinct (history_ids (AList.update ?k ?v h))"
    by (rule distinct_sub [rotated]) (use sub in simp)
  moreover have "set (history_ids (AList.update ?k ?v h)) \<subseteq> insert (ob_id x) (set (history_ids h))"
    using set_mset_mono [OF sub] by simp
  ultimately show ?thesis using assms(1) by (simp add: append_history_def each_once_def distinct_update)
qed

lemma disjoint_insert: "N \<subseteq> insert i M \<Longrightarrow> i \<notin> S \<Longrightarrow> M \<inter> S = {} \<Longrightarrow> N \<inter> S = {}"
  by blast

lemma appends_once:
  assumes "each_once h" "distinct (map ob_id xs)" "set (history_ids h) \<inter> ob_id ` set xs = {}"
  shows "each_once (foldl (append_history hc now) h xs)"
  using assms
proof (induction xs arbitrary: h)
  case (Cons x xs)
  have o: "each_once (append_history hc now h x)" "set (history_ids (append_history hc now h x)) \<subseteq> insert (ob_id x) (set (history_ids h))"
    using append_once [OF Cons.prems(1), of x hc now] Cons.prems(3) by simp_all
  have "ob_id x \<notin> ob_id ` set xs" "set (history_ids h) \<inter> ob_id ` set xs = {}" using Cons.prems(2,3) by auto
  then have "set (history_ids (append_history hc now h x)) \<inter> ob_id ` set xs = {}" using disjoint_insert [OF o(2)] by simp
  then have "each_once (foldl (append_history hc now) (append_history hc now h x) xs)"
    using Cons.prems(2) o(1) by (intro Cons.IH) simp_all
  then show ?case by (simp only: foldl.simps)
qed simp

lemma apply_persisted_history:
  assumes "apply_persisted parse cfg now s rep nd = (nd', e)"
  shows "co_history (nd_coord nd') = co_history (nd_coord nd)"
proof -
  have rest: "co_history (nd_coord (fst (restore_rest cfg s rep nd1))) = co_history (nd_coord nd1)" for nd1
    by (simp add: restore_rest_def restore_coord_def Let_def split: option.splits)
  then have rest: "restore_rest cfg s rep nd1 = (nd2, err) \<Longrightarrow> co_history (nd_coord nd2) = co_history (nd_coord nd1)" for nd1 nd2 err
    by (metis fst_conv)
  have book: "co_history (nd_coord (with_book b nd1)) = co_history (nd_coord nd1)" for b nd1
    by (simp add: with_book_def)
  let ?r = "if pe_version s \<ge> 5 then replace_catalog parse cfg (pe_monitors s) (nd_book nd) else (nd_book nd, None)"
  obtain b err where r: "?r = (b, err)" by (metis prod.exhaust)
  show ?thesis
  proof (cases err)
    case (Some x)
    then show ?thesis using assms unfolding apply_persisted_def r by simp
  next
    case None
    show ?thesis
    proof (cases "pe_version s \<ge> 6")
      case True
      then show ?thesis using assms None unfolding apply_persisted_def r
        by (cases "restore_auth now s (nd_auth nd)") (auto simp: Let_def book dest: rest)
    next
      case False
      then show ?thesis using assms None unfolding apply_persisted_def r by (auto simp: Let_def book dest: rest)
    qed
  qed
qed

lemma apply_replica_once:
  assumes "apply_replica parse mk_id cfg now appended outcome d sb = (sb', e)" "each_once (co_history (nd_coord (sb_node sb)))"
  shows "each_once (co_history (nd_coord (sb_node sb')))"
proof -
  obtain nd err where a: "apply_persisted parse cfg now (rd_state d) True (sb_node sb) = (nd, err)" by (metis prod.exhaust)
  have h: "co_history (nd_coord nd) = co_history (nd_coord (sb_node sb))" by (rule apply_persisted_history [OF a])
  let ?h = "co_history (nd_coord (sb_node sb))"
  have "each_once (foldl (append_history (su_history cfg) now) ?h (unseen mk_id (history_ids ?h) (rd_history d)))"
    using unseen_ids [of mk_id "history_ids ?h" "rd_history d"] assms(2) by (intro appends_once) auto
  then show ?thesis
    using assms h by (cases err) (auto simp: apply_replica_def a Let_def split: if_splits prod.splits)
qed

text \<open>A delivery to a destination the standby does not have stops a pass half way: the catalogue and the
  accounts are already the document's.\<close>

lemma unknown_destination_half_applied:
  assumes "monitor_book_ok parse cfg (nd_book nd)" "auth_readable (nd_auth nd)" "written \<le> now"
    and "q \<in> set (dk_outbox (nd_coord nd))" "dl_destination q \<notin> set (desk_destinations cfg)"
  shows "\<exists>nd' i name. apply_persisted parse cfg now (snapshot written nd) True old = (nd', Some (PendingDelivery i name)) \<and>
    monitor_list (nd_book nd') = monitor_list (nd_book nd) \<and>
    map fst (au_users (nd_auth nd')) = map fst (au_users (nd_auth nd)) \<and>
    desk.truncate (nd_coord nd') = desk.truncate (nd_coord old) \<and> co_states (nd_coord nd') = co_states (nd_coord old)"
proof -
  let ?s = "snapshot written nd"
  have mok: "monitors_ok parse cfg (nd_book nd)" using assms(1) by (simp add: monitor_book_ok_def)
  obtain b where b: "replace_catalog parse cfg (monitor_list (nd_book nd)) (nd_book old) = (b, None)"
    "monitor_list b = monitor_list (nd_book nd)"
    by (rule put_back [OF mok])
  note ra = restore_auth_snapshot [OF assms(2,3), of "nd_auth old"]
  have "find (\<lambda>q. \<not> List.member (desk_destinations cfg) (dl_destination q)) (pe_outbox ?s) \<noteq> None"
    using assms(4,5) by (auto simp: find_None_iff snapshot_def Let_def)
  then obtain q' where q': "find (\<lambda>q. \<not> List.member (desk_destinations cfg) (dl_destination q)) (pe_outbox ?s) = Some q'"
    by blast
  have m: "pe_monitors ?s = monitor_list (nd_book nd)" "5 \<le> pe_version ?s" "6 \<le> pe_version ?s"
    using snapshot_version [of written nd] by (simp_all add: snapshot_def Let_def)
  define a where "a = projr (restore_auth now ?s (nd_auth old))"
  have a: "restore_auth now ?s (nd_auth old) = Inr a" "map fst (au_users a) = map fst (au_users (nd_auth nd))"
    unfolding a_def ra by (simp_all add: comp_def)
  define nd' where "nd' = (with_book b old)\<lparr>nd_auth := a\<rparr>"
  have "restore_rest cfg ?s True nd' = (nd', Some (PendingDelivery (dl_id q') (dl_destination q')))"
    by (simp only: restore_rest_def q' option.case)
  then have "apply_persisted parse cfg now ?s True old = (nd', Some (PendingDelivery (dl_id q') (dl_destination q')))"
    using m(2,3) a(1) by (simp add: apply_persisted_def m(1) b(1) nd'_def)
  then show ?thesis using b(2) a(2)
    by (intro exI [of _ nd'] exI [of _ "dl_id q'"] exI [of _ "dl_destination q'"]) (simp add: nd'_def with_book_def desk.defs)
qed

text \<open>A pass that fetched its document before a promotion and applies it afterwards replaces the state of the
  coordinator that is active now.\<close>

lemma late_pass_overwrites:
  assumes "node_ok parse cfg primary" "written \<le> now" "ha_role (su_ha cfg) = role_standby" "nd_promoted (sb_node sb)"
  shows "\<exists>sb'. sync_replica parse mk_id cfg now Written Written (Fetched 200 (Some
      \<lparr>rd_version = 1, rd_generated_at = g, rd_state = snapshot written primary, rd_history = xs\<rparr>)) sb = sb' \<and>
    \<not> is_standby cfg (sb_node sb') \<and> kept_by_restart now primary (sb_node sb')"
proof -
  obtain sb' where "apply_replica parse mk_id cfg now Written Written
      \<lparr>rd_version = 1, rd_generated_at = g, rd_state = snapshot written primary, rd_history = xs\<rparr> sb = (sb', None)"
    "kept_by_restart now primary (sb_node sb')" "nd_promoted (sb_node sb') = nd_promoted (sb_node sb)"
    using apply_replica_snapshot [OF assms(1,2)] by metis
  then show ?thesis using assms(4)
    by (simp add: sync_replica_def fetched_document_def is_standby_def finish_sync_def)
qed

end
