(* ===== verification/Restarts.thy ===== *)
theory Restarts
  imports Changes Alerting Standby
begin

text \<open>
  What survives a restart and what a standby promises: the properties of the theories on the state file,
  the observation journal and replication, each with a concrete instance.
\<close>

section \<open>Restarting\<close>

definition deployed :: "ha_config \<Rightarrow> configuration" where
  "deployed h = fleet_up\<lparr>su_ha := h, su_state_file := ''/var/lib/state.json'', su_history_file := ''/var/lib/history.jsonl''\<rparr>"

definition as_standby :: ha_config where
  "as_standby = \<lparr>ha_role = role_standby, ha_primary_url = ''https://hub.example.org'', ha_token = replicate 40 CHR ''t'',
     ha_interval = 0, ha_timeout = 0\<rparr>"

definition placed :: "ha_config \<Rightarrow> startup" where
  "placed h = projr (new_coordinator the_parsers (1000 * second) (deployed h))"

definition saved_hub :: startup where "saved_hub = placed (su_ha fleet_up)"

lemma deployed_simps [simp]:
  "su_checks (deployed h) = su_checks fleet_up" "su_state_file (with_defaults (deployed h)) = ''/var/lib/state.json''"
  "su_ha (deployed h) = h" "su_peers (deployed h) = su_peers fleet_up" "su_name (deployed h) = su_name fleet_up"
  "su_key (deployed h) = su_key fleet_up" "su_prometheus (deployed h) = su_prometheus fleet_up"
  "su_components (deployed h) = su_components fleet_up" "su_maintenance (deployed h) = su_maintenance fleet_up"
  "accepted_config (deployed h) = (accepted_config fleet_up)\<lparr>su_ha := h, su_state_file := ''/var/lib/state.json'', su_history_file := ''/var/lib/history.jsonl''\<rparr>"
  by (simp_all add: deployed_def with_defaults_def accepted_config_def)

lemma admit_checks_files: "admit_checks (cfg\<lparr>su_ha := h, su_state_file := f, su_history_file := g\<rparr>) seen cs = admit_checks cfg seen cs"
proof -
  let ?c = "cfg\<lparr>su_ha := h, su_state_file := f, su_history_file := g\<rparr>"
  have "su_peers ?c = su_peers cfg" by simp
  then have "check_feasible ?c = check_feasible cfg" unfolding fun_eq_iff check_feasible_def by (simp only:) simp
  moreover have "response_budget ?c = response_budget cfg" by (simp add: fun_eq_iff response_budget_def)
  ultimately have "check_feasible ?c = check_feasible cfg" "response_budget ?c = response_budget cfg" .
  then show ?thesis by (induction cs arbitrary: seen) (simp_all cong: option.case_cong)
qed

lemma check_config_files:
  assumes "validate_ha_config (pa_request_uri pa) (with_defaults (cfg\<lparr>su_ha := h, su_state_file := f, su_history_file := g\<rparr>)) = None"
    "check_config pa (with_defaults cfg) = None"
  shows "check_config pa (with_defaults (cfg\<lparr>su_ha := h, su_state_file := f, su_history_file := g\<rparr>)) = None"
proof -
  let ?c = "with_defaults (cfg\<lparr>su_ha := h, su_state_file := f, su_history_file := g\<rparr>)"
  have "su_retry_initial ?c = su_retry_initial (with_defaults cfg)" "su_retry_max ?c = su_retry_max (with_defaults cfg)"
    "su_retry_interval ?c = su_retry_interval (with_defaults cfg)" "su_destinations ?c = su_destinations (with_defaults cfg)"
    "su_components ?c = su_components (with_defaults cfg)" "su_peers ?c = su_peers (with_defaults cfg)"
    "su_routes ?c = su_routes (with_defaults cfg)" "su_escalations ?c = su_escalations (with_defaults cfg)"
    "su_history ?c = su_history (with_defaults cfg)" "su_oidc ?c = su_oidc (with_defaults cfg)"
    "su_checks ?c = su_checks (with_defaults cfg)"
    by (simp_all add: with_defaults_def)
  note same = this
  from same have "validate_notifications ?c xs = validate_notifications (with_defaults cfg) xs" for xs
    unfolding validate_notifications_def by (simp only:)
  with assms same show ?thesis unfolding check_config_None by (simp only:)
qed

lemma placed_new:
  assumes "validate_ha_config (\<lambda>_. Some a_site) (with_defaults (deployed h)) = None"
  shows "new_coordinator the_parsers (1000 * second) (deployed h) = Inr (placed h)"
proof -
  note n = new_coordinator_Inr [OF hub_new]
  have c: "check_config the_parsers (with_defaults (deployed h)) = None"
    using assms n(4) unfolding deployed_def by (intro check_config_files) (simp_all add: the_parsers_def)
  have ps: "su_peers fleet_up \<noteq> []" by (simp add: fleet_up_def)
  have w: "(with_defaults (deployed h))\<lparr>su_peers := sort_key p_name (su_peers fleet_up)\<rparr> = accepted_config (deployed h)"
    by (simp add: accepted_config_def deployed_def with_defaults_def)
  have "admit_checks (accepted_config (deployed h)) [] (su_checks fleet_up) = None"
    using n(7) by (simp add: admit_checks_files)
  then have "\<exists>st. new_coordinator the_parsers (1000 * second) (deployed h) = Inr st"
    using n(5,6,8-11) c ps by (simp add: new_coordinator_def w del: deployed_simps(10))
  then show ?thesis by (auto simp: placed_def)
qed

lemma saved_new: "new_coordinator the_parsers (1000 * second) (deployed (su_ha fleet_up)) = Inr saved_hub"
  unfolding saved_hub_def
proof (rule placed_new)
  show "validate_ha_config (\<lambda>_. Some a_site) (with_defaults (deployed (su_ha fleet_up))) = None"
    unfolding deployed_def fleet_up_def small_config_def by code_simp
qed

lemma standby_new: "new_coordinator the_parsers (1000 * second) (deployed as_standby) = Inr (placed as_standby)"
proof (rule placed_new)
  show "validate_ha_config (\<lambda>_. Some a_site) (with_defaults (deployed as_standby)) = None"
    unfolding deployed_def as_standby_def fleet_up_def small_config_def by code_simp
qed

lemma placed_writes_back: "\<forall>c \<in> set (su_checks (deployed h)). writes_back read_duration c"
  using web_writes_back by simp

lemma new_coordinator_again:
  assumes "new_coordinator pa started cfg = Inr st"
  obtains st' where "new_coordinator pa later cfg = Inr st'" "st_config st' = st_config st"
proof -
  have "su_peers cfg \<noteq> []" using assms by (auto simp: new_coordinator_def split: if_splits)
  note n = new_coordinator_Inr [OF assms] this
  have w: "(with_defaults cfg)\<lparr>su_peers := sort_key p_name (su_peers cfg)\<rparr> = accepted_config cfg"
    by (simp add: accepted_config_def)
  have "\<exists>st'. new_coordinator pa later cfg = Inr st'" using n by (simp add: new_coordinator_def w)
  then obtain st' where "new_coordinator pa later cfg = Inr st'" by blast
  then show ?thesis using that new_coordinator_Inr(1) n(1) by simp
qed

lemma monitor_known_list:
  assumes "monitors_ok parse cfg b"
  shows "monitor_known b n \<longleftrightarrow> n \<in> mo_name ` set (monitor_list b)"
proof -
  have m: "mb_monitors b = map (\<lambda>m. (mo_name m, m)) (map snd (mb_monitors b))" using assms by (simp add: monitors_ok_def)
  have "monitor_known b n \<longleftrightarrow> n \<in> fst ` set (mb_monitors b)"
    by (simp add: monitor_known_def map_of_eq_None_iff)
  also have "fst ` set (mb_monitors b) = mo_name ` set (map snd (mb_monitors b))"
    by (subst m) (force simp: image_image)
  finally show ?thesis using monitor_list_props(4) [OF assms] by simp
qed

definition names_administrator :: "auth_config \<Rightarrow> bool" where
  "names_administrator ac \<longleftrightarrow> valid_username (trim_space (ac_bootstrap_username ac))"

lemma no_second_administrator:
  "names_administrator ac \<Longrightarrow> au_users a \<noteq> [] \<Longrightarrow> ensure_bootstrap_admin kd ac now salt persists a = (a, None)"
  by (simp add: ensure_bootstrap_admin_def names_administrator_def Let_def)

text \<open>C11: a coordinator that is stopped and started again goes on where it was. Whatever was done to the
  catalogue since the start, the state file it wrote is read back without an error, and the catalogue, the
  checks that run, the revisions, what is known of every running check and component, the incidents,
  silences, windows, deliveries and escalations, the notices, the accounts, the tokens, the sessions that
  have not expired and a promotion are those it stopped with. The observations are those of the journal.\<close>

theorem restart_keeps_state:
  assumes "new_coordinator pa started cfg = Inr st" "\<forall>c \<in> set (su_checks cfg). writes_back parse c"
    and "nd_book nd = snd (catalog_run kd ac parse (st_config st) calls (a, st_book st))"
    and "co_checks (nd_coord nd) = map snd (mb_checks (nd_book nd))" "auth_readable (nd_auth nd)"
    and "\<forall>q \<in> set (dk_outbox (nd_coord nd)). dl_destination q \<in> set (desk_destinations (st_config st))"
    and "su_state_file (st_config st) \<noteq> []" "\<not> su_skip_restore cfg" "written \<le> later"
    and "au_users (nd_auth nd) \<noteq> []" "names_administrator ac"
    and "load_history mk_id (monitor_known (nd_book nd)) (su_history cfg) later (su_history_file cfg) rewritten lines = ((None, h), left)"
  shows "\<exists>nd'. boot pa parse mk_id kd ac later salt rewritten persists cfg
      (read_back (fst (persist_state (st_config st) written Written nd stored))) lines = Inr (nd', left) \<and>
    kept_by_restart later nd nd' \<and> nd_promoted nd' = nd_promoted nd \<and> co_history (nd_coord nd') = h"
proof -
  let ?file = "read_back (fst (persist_state (st_config st) written Written nd stored))"
  have "monitor_book_ok parse (st_config st) (nd_book nd)"
    unfolding assms(3) using baseline_ok(1) [OF assms(1,2)] by (intro catalog_run_ok) simp
  then have ok: "node_ok parse (st_config st) nd" using assms(4-6) by (simp add: node_ok_def)
  obtain st' where st': "new_coordinator pa later cfg = Inr st'" "st_config st' = st_config st"
    by (rule new_coordinator_again [OF assms(1)])
  obtain nd' where nd': "apply_persisted parse (st_config st) later (snapshot written nd) False (fresh_node st') = (nd', None)"
    "kept_by_restart later nd nd'" "node_ok parse (st_config st) nd'"
    "nd_promoted nd' = (if nd_promoted nd then True else nd_promoted (fresh_node st'))"
    using apply_snapshot [OF ok assms(9), of False "fresh_node st'"] by (metis (no_types, lifting))
  have r: "restore parse (st_config st') later ?file (fresh_node st') = (nd', None)"
    using restore_snapshot [OF ok assms(9,7), of "fresh_node st'"] assms(7) nd'(1)
    by (simp add: persist_state_def read_back_def st'(2))
  have "monitor_list (nd_book nd') = monitor_list (nd_book nd)" using nd'(2) by (simp add: kept_by_restart_def)
  then have "monitor_known (nd_book nd') = monitor_known (nd_book nd)"
    using monitor_known_list ok nd'(3) by (fastforce simp: node_ok_def monitor_book_ok_def)
  then have l: "load_history mk_id (monitor_known (nd_book nd')) (su_history cfg) later (su_history_file cfg) rewritten lines =
      ((None, h), left)"
    using assms(12) by simp
  have "au_users (nd_auth nd') \<noteq> []" using nd'(2) assms(10) by (simp add: kept_by_restart_def)
  then have e: "ensure_bootstrap_admin kd ac later salt persists (nd_auth nd') = (nd_auth nd', None)"
    by (rule no_second_administrator [OF assms(11)])
  have "boot pa parse mk_id kd ac later salt rewritten persists cfg ?file lines = Inr (with_history h nd', left)"
    using st'(1) r l e assms(8) by (simp add: boot_def with_history_def)
  then show ?thesis using nd'(2,4) by (intro exI [of _ "with_history h nd'"]) (simp add: fresh_node_def)
qed

definition stopped :: node where
  "stopped = (fresh_node saved_hub)\<lparr>nd_auth := rooted, nd_promoted := True\<rparr>"

lemma rooted_readable: "auth_readable rooted"
proof -
  have "valid_username ''root''" by code_simp
  then show ?thesis
    by (simp add: rooted_def root_user_def no_auth_def auth_readable_def keyed_def user_readable_def encode_hash_def valid_role_def)
qed

lemma saved_state_file: "su_state_file (st_config saved_hub) \<noteq> []"
  by (simp add: new_coordinator_Inr(1) [OF saved_new])

lemma stopped_simps [simp]:
  "nd_book stopped = st_book saved_hub" "nd_auth stopped = rooted" "nd_coord stopped = st_coord saved_hub" "nd_promoted stopped"
  by (simp_all add: stopped_def fresh_node_def)

lemma stopped_checks:
  "co_checks (nd_coord stopped) = map snd (mb_checks (nd_book stopped))" "dk_outbox (st_coord saved_hub) = []"
proof -
  have "node_ok read_duration (st_config saved_hub) (fresh_node saved_hub)"
    by (rule fresh_node_ok [OF saved_new placed_writes_back])
  then show "co_checks (nd_coord stopped) = map snd (mb_checks (nd_book stopped))"
    by (simp add: node_ok_def fresh_node_def)
  show "dk_outbox (st_coord saved_hub) = []"
    by (simp add: new_coordinator_Inr(3) [OF saved_new] initial_coord_def)
qed

theorem restart_keeps_state_witness:
  "\<exists>nd'. boot the_parsers read_duration (\<lambda>_. []) plain_kdf ops_config (1002 * second) None Written True (deployed (su_ha fleet_up))
      (read_back (fst (persist_state (st_config saved_hub) (1001 * second) Written stopped None))) NoJournal = Inr (nd', NoJournal) \<and>
    kept_by_restart (1002 * second) stopped nd' \<and> nd_promoted nd' = True"
proof -
  have b: "nd_book stopped = snd (catalog_run plain_kdf ops_config read_duration (st_config saved_hub) [] (no_auth, st_book saved_hub))"
    by (simp add: catalog_run_def)
  have n: "names_administrator ops_config" unfolding names_administrator_def by code_simp
  have t: "1001 * second \<le> 1002 * second" by (simp add: second_def)
  have u: "au_users (nd_auth stopped) \<noteq> []" by (simp add: rooted_def)
  have s: "\<not> su_skip_restore (deployed (su_ha fleet_up))" by (simp add: deployed_def fleet_up_def small_config_def)
  have a: "auth_readable (nd_auth stopped)" by (simp add: rooted_readable)
  have q: "\<forall>q \<in> set (dk_outbox (nd_coord stopped)). dl_destination q \<in> set (desk_destinations (st_config saved_hub))"
    by (simp add: stopped_checks(2))
  have l: "load_history (\<lambda>_. []) (monitor_known (nd_book stopped)) (su_history (deployed (su_ha fleet_up))) (1002 * second)
      (su_history_file (deployed (su_ha fleet_up))) Written NoJournal = ((None, []), NoJournal)"
    by (simp add: load_history_def)
  show ?thesis
    using restart_keeps_state [OF saved_new placed_writes_back b stopped_checks(1) a q saved_state_file s t u n l,
      where salt = None and persists = True and stored = None] by auto
qed

section \<open>The journal\<close>

text \<open>C21: the journal and the memory agree. Whatever observations were recorded, each written to the file as
  it arrived, and however the rewriting of the file that is due every thousand observations ended: a
  coordinator that starts from the file has, of every check it knows, exactly the observations the
  running one had that are not older than the retention.\<close>

theorem journal_replays:
  assumes "sorted (map fst rs)"
    and "\<forall>r \<in> set rs. fst r \<le> later \<and> fst (snd r) \<noteq> WriteFailed \<and> ob_id (snd (snd (snd r))) \<noteq> []" "path \<noteq> []" "known n"
    and "j = journal_run hc path rs no_journal"
    and "load_history mk_id known hc later path rewritten (Lines (jn_lines j) True) = ((None, h), file)"
  shows "kept h n = filter (\<lambda>x. later - history_retention hc \<le> ob_received_at x) (kept (jn_history j) n)"
proof -
  have ids: "\<forall>x \<in> set (readable (jn_lines j)). ob_id x \<noteq> []"
    unfolding assms(5) using assms(2) by (intro journal_run_ids) (simp_all add: no_journal_def kept_def)
  have "journal_ok hc later j"
  proof (cases rs)
    case Nil
    then show ?thesis by (simp add: assms(5) journal_run_def no_journal_ok)
  next
    case (Cons r rs')
    then show ?thesis unfolding assms(5) using assms(1-3)
      by (intro journal_run_ok [where begun = "fst r"] no_journal_ok) auto
  qed
  then obtain c where "c \<le> later - history_retention hc" "kept (jn_history j) n = window hc c (filed n (jn_lines j))"
    by (auto simp: journal_ok_def)
  then show ?thesis using load_history_kept [of mk_id known, OF assms(6,3,4) ids] filter_window by simp
qed

definition seen_at :: "time \<Rightarrow> observation" where
  "seen_at t = observe (\<lambda>_. 0) (\<lambda>_. ''id'') t web_check (a_result ''ams'' StatusUp t) ''scheduled'' False StatusUp"

lemma seen_id: "ob_id (seen_at t) \<noteq> []"
  by (simp add: seen_at_def observe_def Let_def)

definition two_kept :: history_config where "two_kept = \<lparr>hc_retention = 0, hc_max_per_check = 2\<rparr>"

definition three_seen :: journaled where
  "three_seen = journal_run two_kept ''j'' [(5, Written, Written, seen_at 4), (6, SyncFailed, Written, seen_at 3),
     (7, Written, SyncFailed, seen_at 6)] no_journal"

theorem journal_replays_witness:
  "kept (snd (fst (load_history (\<lambda>_. []) (\<lambda>_. True) two_kept 9 ''j'' Written (Lines (jn_lines three_seen) True)))) ''web'' =
     filter (\<lambda>x. 9 - history_retention two_kept \<le> ob_received_at x) (kept (jn_history three_seen) ''web'') \<and>
   map ob_received_at (kept (jn_history three_seen) ''web'') = [4, 6] \<and> length (jn_lines three_seen) = 3"
proof -
  let ?r = "load_history (\<lambda>_. []) (\<lambda>_. True) two_kept 9 ''j'' Written (Lines (jn_lines three_seen) True)"
  have "fst (fst ?r) = None" by (simp add: load_history_def Let_def split: prod.splits)
  then obtain h left where l: "?r = ((None, h), left)" by (metis prod.collapse)
  have "kept h ''web'' = filter (\<lambda>x. 9 - history_retention two_kept \<le> ob_received_at x) (kept (jn_history three_seen) ''web'')"
    by (rule journal_replays [OF _ _ _ _ three_seen_def l]) (simp_all add: seen_id)
  moreover have "map ob_received_at (kept (jn_history three_seen) ''web'') = [4, 6]" "length (jn_lines three_seen) = 3"
    by code_simp+
  ultimately show ?thesis by (simp add: l)
qed

section \<open>What a restart forgets\<close>

text \<open>The mesh alerts about the prober \<open>p\<close> over a run of mesh evaluations, folded into the desk.\<close>

definition mesh_told :: "(string \<Rightarrow> duration option) \<Rightarrow> coord_config \<Rightarrow> (string \<Rightarrow> alert \<Rightarrow> string option) \<Rightarrow> string \<Rightarrow>
    (time \<times> mesh_view) list \<Rightarrow> coord \<Rightarrow> coord" where
  "mesh_told parse cc send p views co =
     foldl (\<lambda>co a. fst (emit parse cc (al_at a) send a co)) co (snd (emit_run (mesh_step p) (co_isolated co) views))"

lemma emit_active: "active_incidents (fst (emit parse cfg now send a d)) s =
    active_incidents (record_incident a (active_maintenance parse cfg now d a) (fst (active_silence now d a))
      (snd (active_silence now d a)) d) s"
  using emit_frame [of parse cfg now send a d] by simp

lemma alternating_keeps:
  assumes "alternates (\<lambda>a. al_kind a = KindIsolated) (\<lambda>a. al_kind a = KindRejoined) up as" "\<forall>a \<in> set as. subject a = s"
    "i \<in> set (if up then butlast (active_incidents d s) else active_incidents d s)"
  shows "i \<in> set (active_incidents (foldl (\<lambda>d a. fst (emit parse cfg (al_at a) send a d)) d as) s)"
  using assms
proof (induction as arbitrary: up d)
  case Nil
  then show ?case by (auto split: if_splits dest: in_set_butlastD)
next
  case (Cons a as)
  let ?d = "fst (emit parse cfg (al_at a) send a d)"
  have step: "i \<in> set (if \<not> up then butlast (active_incidents ?d s) else active_incidents ?d s)"
    using Cons.prems by (cases up) (simp_all add: emit_active incident_book closing_kind_def)
  then show ?case using Cons.IH [of "\<not> up" ?d] Cons.prems by simp
qed

lemma mesh_step_told: "\<forall>a \<in> set (snd (emit_run (mesh_step p) was views)).
    al_prober a = p \<and> (al_kind a = KindIsolated \<or> al_kind a = KindRejoined)"
proof (induction views arbitrary: was)
  case Nil
  then show ?case by simp
next
  case (Cons e views)
  obtain w a where st: "mesh_step p was e = (w, a)" by (metis prod.exhaust)
  have "\<forall>x. a = Some x \<longrightarrow> al_prober x = p \<and> (al_kind x = KindIsolated \<or> al_kind x = KindRejoined)"
    using st by (auto simp: mesh_step_def transition_alerts_for split: if_splits)
  then show ?case using Cons.IH [of w] by (auto simp: st split: prod.splits option.splits)
qed

text \<open>C35: a restart forgets who was cut off from the fleet. The isolation of a prober is not in the state file,
  the incident about it is. After a restart no number of mesh evaluations, whatever they see, closes that
  incident: the prober that has rejoined in the meantime is not announced, and one that is cut off again
  gets a second incident, which is the one its return closes.\<close>

theorem restart_forgets_isolation:
  assumes "new_coordinator pa started cfg = Inr st" "node_ok parse (st_config st) nd" "written \<le> later"
    and "su_state_file (st_config st) \<noteq> []" "p \<noteq> []" "i \<in> set (active_incidents (nd_coord nd) p)"
    and "restore parse (st_config st) later (read_back (fst (persist_state (st_config st) written Written nd stored)))
      (fresh_node st) = (nd', e)"
  shows "e = None \<and> i \<in> set (active_incidents (mesh_told pd (coord_config_of (st_config st)) send p views (nd_coord nd')) p)"
proof -
  let ?fresh = "fresh_node st"
  have fresh: "co_isolated (nd_coord ?fresh) = []"
    by (simp add: fresh_node_def new_coordinator_Inr(3) [OF assms(1)] initial_coord_def)
  obtain nd1 where n: "apply_persisted parse (st_config st) later (snapshot written nd) False ?fresh = (nd1, None)"
    "kept_by_restart later nd nd1" "co_isolated (nd_coord nd1) = co_isolated (nd_coord ?fresh)"
    by (rule apply_snapshot [OF assms(2,3)])
  have "nd' = nd1" and e: "e = None"
    using assms(7) n(1) restore_snapshot [OF assms(2-4), of ?fresh] assms(4) by (simp_all add: persist_state_def read_back_def)
  with n have co: "dk_incidents (nd_coord nd') = dk_incidents (nd_coord nd)" "co_isolated (nd_coord nd') = []"
    using fresh by (auto simp: kept_by_restart_def desk.defs)
  let ?as = "snd (emit_run (mesh_step p) [] views)"
  have told: "\<forall>a \<in> set ?as. al_prober a = p \<and> (al_kind a = KindIsolated \<or> al_kind a = KindRejoined)"
    by (rule mesh_step_told)
  then have "filter (\<lambda>a. al_kind a = KindIsolated \<or> al_kind a = KindRejoined) ?as = ?as" by (simp add: filter_id_conv)
  with isolation.run_alternates [OF surjective_pairing, of p "[]" views]
  have alt: "alternates (\<lambda>a. al_kind a = KindIsolated) (\<lambda>a. al_kind a = KindRejoined) False ?as" by simp
  have "\<forall>a \<in> set ?as. subject a = p" using told assms(5) by (simp add: subject_def)
  from alternating_keeps [OF alt this, of i "nd_coord nd'"] assms(6) co e show ?thesis
    by (simp add: mesh_told_def)
qed

definition cut_off_hub :: node where
  "cut_off_hub = (fresh_node saved_hub)\<lparr>nd_coord := (record_incident (empty_alert\<lparr>al_prober := ''ams'', al_kind := KindIsolated,
     al_at := 1000 * second\<rparr>) [] 0 [] (st_coord saved_hub))\<lparr>co_isolated := [''ams'']\<rparr>\<rparr>"

definition nobody_isolated :: mesh_view where
  "nobody_isolated = \<lparr>mv_isolated = [], mv_reporting = [''ams'', ''fra'', ''nyc''], mv_partitioned = False, mv_unreachable = [], mv_edges = []\<rparr>"

lemma cut_off_ok: "node_ok read_duration (st_config saved_hub) cut_off_hub"
  using fresh_node_ok [OF saved_new placed_writes_back]
  by (simp add: node_ok_def cut_off_hub_def fresh_node_def record_incident_def closing_kind_def empty_alert_def)

lemma cut_off_incident: "\<exists>i. i \<in> set (active_incidents (nd_coord cut_off_hub) ''ams'')"
  by (simp add: cut_off_hub_def fresh_node_def record_incident_def closing_kind_def empty_alert_def subject_def) blast

lemma member_nonempty: "x \<in> set xs \<Longrightarrow> xs \<noteq> []"
  by auto

theorem restart_forgets_isolation_witness:
  "active_incidents (mesh_told read_duration (coord_config_of (st_config saved_hub)) (\<lambda>_ _. None) ''ams''
     [(1003 * second, nobody_isolated)] (nd_coord (fst (restore read_duration (st_config saved_hub) (1002 * second)
        (read_back (fst (persist_state (st_config saved_hub) (1001 * second) Written cut_off_hub None)))
        (fresh_node saved_hub))))) ''ams'' \<noteq> []"
proof -
  let ?r = "restore read_duration (st_config saved_hub) (1002 * second)
        (read_back (fst (persist_state (st_config saved_hub) (1001 * second) Written cut_off_hub None))) (fresh_node saved_hub)"
  obtain i where i: "i \<in> set (active_incidents (nd_coord cut_off_hub) ''ams'')" using cut_off_incident by blast
  have t: "1001 * second \<le> 1002 * second" "''ams'' \<noteq> []" by (simp_all add: second_def)
  obtain nd' e where r: "?r = (nd', e)" by (metis prod.exhaust)
  show ?thesis unfolding r fst_conv
    by (rule member_nonempty [OF restart_forgets_isolation [OF saved_new cut_off_ok t(1) saved_state_file t(2) i r, THEN conjunct2]])
qed

text \<open>A change of the catalogue that is reported as failed can come back. When the state file was replaced
  and only the directory could not be synced, the change is refused and taken back in memory, and the
  file keeps it: the next start has the catalogue that was refused.\<close>

theorem unsynced_change_returns:
  assumes "node_ok parse cfg nd" "now \<le> later" "su_state_file cfg \<noteq> []"
    and "mutate_monitors parse cfg now True actor action subj ms (nd_book nd) = (b, None)"
    and "change_catalog parse cfg now SyncFailed actor action subj ms (nd, stored) = ((nd', stored'), e)"
  shows "e = Some CatalogPersist \<and> monitor_list (nd_book nd') = monitor_list (nd_book nd) \<and>
    (\<exists>nd2. restore parse cfg later (read_back stored') fresh = (nd2, None) \<and> monitor_list (nd_book nd2) = monitor_list b)"
proof -
  have bok: "monitor_book_ok parse cfg (nd_book nd)" using assms(1) by (simp add: node_ok_def)
  have ok: "node_ok parse cfg (with_book b nd)"
  proof -
    from bok have "monitor_book_ok parse cfg b"
    proof (cases rule: mutate_monitors_cases [where now = now and persisted = True and actor = actor and action = action
          and subj = subj and ms = ms])
      case (refused b' e')
      then show ?thesis using assms(4) by simp
    next
      case (changed b')
      then show ?thesis using assms(4) by simp
    qed
    then show ?thesis using assms(1) by (simp add: node_ok_def) (simp add: with_book_def)
  qed
  have "snd (mutate_monitors parse cfg now False actor action subj ms (nd_book nd)) = Some CatalogPersist"
    using assms(4) by (auto simp: mutate_monitors_def Let_def split: if_splits prod.splits option.splits)
  then obtain b2 where m: "mutate_monitors parse cfg now False actor action subj ms (nd_book nd) = (b2, Some CatalogPersist)"
    by (metis prod.collapse)
  from bok have undone: "monitor_list b2 = monitor_list (nd_book nd)"
  proof (cases rule: mutate_monitors_cases [where now = now and persisted = False and actor = actor and action = action
        and subj = subj and ms = ms])
    case (refused b' e')
    then show ?thesis using m by (simp add: monitor_book_view_def)
  next
    case (changed b')
    then show ?thesis by simp
  qed
  have c: "nd' = with_book b2 nd" "stored' = Some (snapshot now (with_book b nd))" "e = Some CatalogPersist"
    using assms(5) by (simp_all add: change_catalog_def assms(4) m persist_state_def assms(3))
  obtain nd2 where "apply_persisted parse cfg later (snapshot now (with_book b nd)) False fresh = (nd2, None)"
    "kept_by_restart later (with_book b nd) nd2"
    by (rule apply_snapshot [OF ok assms(2)])
  then show ?thesis using undone restore_snapshot [OF ok assms(2,3), of fresh]
    by (simp add: c read_back_def kept_by_restart_def)
qed

text \<open>The only monitor is deleted; the deletion is reported as failed and is there after the next start.\<close>

lemma nothing_left: "\<exists>b. mutate_monitors read_duration (st_config saved_hub) now True ''ops'' ''delete'' ''web'' [] (st_book saved_hub) = (b, None) \<and>
    monitor_list b = []"
proof -
  let ?cfg = "st_config saved_hub"
  have n: "trim_space ''ops'' = ''ops''" by code_simp
  have cfg: "?cfg = (accepted_config fleet_up)\<lparr>su_ha := su_ha fleet_up, su_state_file := ''/var/lib/state.json'',
      su_history_file := ''/var/lib/history.jsonl''\<rparr>"
    by (simp add: new_coordinator_Inr(1) [OF saved_new])
  have "su_retry_initial ?cfg = 0" "su_retry_max ?cfg = 0" "su_retry_interval ?cfg = 0" "su_destinations ?cfg = []"
    "su_routes ?cfg = []" "su_escalations ?cfg = []"
    unfolding cfg by (simp_all add: accepted_config_def with_defaults_def fleet_up_def small_config_def)
  then have "validate_notifications ?cfg [] = None"
    by (simp add: validate_notifications_def Let_def default_retry_initial_def default_retry_max_def second_def minute_def)
  then have "validate_catalog read_duration ?cfg [] = Inr []"
    by (simp add: validate_catalog_def new_coordinator_Inr(1) [OF saved_new] fleet_up_def)
  then show ?thesis
    by (simp add: mutate_monitors_def replace_catalog_def n add_revision_def Let_def monitor_list_def)
qed

theorem unsynced_change_returns_witness:
  "\<exists>nd' stored' e nd2. change_catalog read_duration (st_config saved_hub) (1001 * second) SyncFailed ''ops'' ''delete'' ''web'' []
      (fresh_node saved_hub, None) = ((nd', stored'), e) \<and> e \<noteq> None \<and>
    restore read_duration (st_config saved_hub) (1002 * second) (read_back stored') (fresh_node saved_hub) = (nd2, None) \<and>
    monitor_list (nd_book nd') = monitor_list (st_book saved_hub) \<and> monitor_list (nd_book nd2) = []"
proof -
  obtain b where b: "mutate_monitors read_duration (st_config saved_hub) (1001 * second) True ''ops'' ''delete'' ''web'' []
      (nd_book (fresh_node saved_hub)) = (b, None)" "monitor_list b = []"
    using nothing_left by (auto simp: fresh_node_def)
  obtain nd' stored' e where c: "change_catalog read_duration (st_config saved_hub) (1001 * second) SyncFailed ''ops'' ''delete'' ''web'' []
      (fresh_node saved_hub, None) = ((nd', stored'), e)" by (metis prod.exhaust)
  have t: "1001 * second \<le> 1002 * second" by (simp add: second_def)
  from unsynced_change_returns [OF fresh_node_ok [OF saved_new placed_writes_back] t saved_state_file b(1) c, of "fresh_node saved_hub"]
  show ?thesis using c b(2) by (auto simp: fresh_node_def)
qed

text \<open>C12: a standby becomes active only when it is told to. If it is active after any run of replication passes
  and requests, then one of the requests promoted it: by somebody who may, with a name and a
  confirmation, and with the promotion written to the state file if there is one.\<close>

theorem standby_promoted_only_on_request:
  assumes "is_standby cfg (sb_node sb)" "\<not> is_standby cfg (sb_node (ha_run parse mk_id kd ac cfg sb evs))"
  shows "\<exists>pre ev post. evs = pre @ ev # post \<and> is_standby cfg (sb_node (ha_run parse mk_id kd ac cfg sb pre)) \<and>
    promotes kd ac cfg (ha_run parse mk_id kd ac cfg sb pre) ev"
  using run_promotes [of sb parse mk_id kd ac cfg evs] assms by (simp add: is_standby_def)

definition waiting :: standby where
  "waiting = \<lparr>sb_node = fresh_node (placed as_standby), sb_lines = [], sb_file = None, sb_last_sync = zero_time,
     sb_primary_at = zero_time, sb_error = None\<rparr>"

definition take_over :: ha_event where
  "take_over = PromotionRequest (1001 * second) Written (op_request ''POST'') (Some ([], True))"

lemma placed_ha: "su_ha (st_config (placed as_standby)) = as_standby"
  by (simp add: new_coordinator_Inr(1) [OF standby_new])

lemma waiting_standby: "is_standby (st_config (placed as_standby)) (sb_node waiting)"
proof -
  have "ha_role as_standby = role_standby" by (simp add: as_standby_def)
  then show ?thesis by (simp add: is_standby_def placed_ha waiting_def fresh_node_def)
qed

theorem standby_promoted_only_on_request_witness:
  "\<exists>pre ev post. [Pass (1000 * second) Written Written FetchCanceled, take_over] = pre @ ev # post \<and>
    promotes plain_kdf ops_config (st_config (placed as_standby)) (ha_run read_duration (\<lambda>_. []) plain_kdf ops_config
      (st_config (placed as_standby)) waiting pre) ev"
proof -
  let ?cfg = "st_config (placed as_standby)"
  have n: "trim_space ''ops'' = ''ops''" by code_simp
  have "nd_promoted (sb_node (ha_run read_duration (\<lambda>_. []) plain_kdf ops_config ?cfg waiting
      [Pass (1000 * second) Written Written FetchCanceled, take_over]))"
    using n waiting_standby
    by (simp add: ha_run_def ha_step_def take_over_def serve_def standby_blocks_def handle_promote_def op_admitted is_standby_def
        mutation_actor_def promote_def persist_state_def Let_def split: prod.splits)
  then have "\<not> is_standby ?cfg (sb_node (ha_run read_duration (\<lambda>_. []) plain_kdf ops_config ?cfg waiting
      [Pass (1000 * second) Written Written FetchCanceled, take_over]))"
    by (simp add: is_standby_def)
  from standby_promoted_only_on_request [OF waiting_standby this] show ?thesis by blast
qed

text \<open>C13: one pass copies the primary. A standby that has the document the primary answered with, and whose
  probers can run the primary's monitors, has the primary's catalogue, state and accounts, knows when it
  was in step and of no error, is still a standby, and has no observation twice.\<close>

theorem replica_copies_primary:
  assumes "handle_replica parse_time pcfg written header raw nd = ReplicaDocument d" "node_ok parse cfg nd" "written \<le> now"
    and "is_standby cfg (sb_node sb)" "each_once (co_history (nd_coord (sb_node sb)))"
    and "sb' = sync_replica parse mk_id cfg now Written Written (Fetched 200 (Some d)) sb"
  shows "kept_by_restart now nd (sb_node sb') \<and> is_standby cfg (sb_node sb') \<and> sb_error sb' = None \<and>
    sb_last_sync sb' = now \<and> sb_primary_at sb' = written \<and> each_once (co_history (nd_coord (sb_node sb')))"
proof -
  obtain xs where d: "d = \<lparr>rd_version = 1, rd_generated_at = written, rd_state = snapshot written nd, rd_history = xs\<rparr>"
    using assms(1) by (auto simp: handle_replica_def require_replica_def Let_def split: option.splits if_splits)
  obtain sb2 where a: "apply_replica parse mk_id cfg now Written Written d sb = (sb2, None)"
    "kept_by_restart now nd (sb_node sb2)" "nd_promoted (sb_node sb2) = nd_promoted (sb_node sb)"
    unfolding d by (rule apply_replica_snapshot [OF assms(2,3)])
  have "each_once (co_history (nd_coord (sb_node sb2)))" by (rule apply_replica_once [OF a(1) assms(5)])
  moreover have "sb' = finish_sync now written None sb2"
    using a(1) by (simp add: assms(6) sync_replica_def fetched_document_def d)
  moreover have "rd_version d = 1" by (simp add: d)
  ultimately show ?thesis using a(2,3) assms(4) by (simp add: finish_sync_def is_standby_def)
qed

lemma standby_copies_ok: "node_ok read_duration (st_config (placed as_standby)) stopped"
proof -
  have "node_ok read_duration (st_config (placed as_standby)) (fresh_node (placed as_standby))"
    by (rule fresh_node_ok [OF standby_new placed_writes_back])
  then show ?thesis
    using new_coordinator_Inr(2,3) [OF standby_new] new_coordinator_Inr(2,3) [OF saved_new] rooted_readable
    by (simp add: node_ok_def fresh_node_def)
qed

theorem replica_copies_primary_witness:
  "\<exists>d. handle_replica (\<lambda>_. None) (st_config (placed as_standby)) (1001 * second) (''Bearer '' @ ha_token as_standby) [] stopped =
      ReplicaDocument d \<and>
    kept_by_restart (1002 * second) stopped (sb_node (sync_replica read_duration (\<lambda>_. []) (st_config (placed as_standby))
      (1002 * second) Written Written (Fetched 200 (Some d)) waiting))"
proof -
  have "ha_token as_standby \<noteq> []" by (simp add: as_standby_def)
  then have "require_replica (st_config (placed as_standby)) (''Bearer '' @ ha_token as_standby) = None"
    by (simp add: require_replica_def placed_ha trim_prefix_def Let_def)
  then obtain d where d: "handle_replica (\<lambda>_. None) (st_config (placed as_standby)) (1001 * second)
      (''Bearer '' @ ha_token as_standby) [] stopped = ReplicaDocument d"
    by (simp add: handle_replica_def)
  have t: "1001 * second \<le> 1002 * second" by (simp add: second_def)
  have "each_once (co_history (nd_coord (sb_node waiting)))"
    by (simp add: waiting_def fresh_node_def new_coordinator_Inr(3) [OF standby_new] initial_coord_def each_once_def history_ids_def)
  from replica_copies_primary [OF d standby_copies_ok t waiting_standby this refl] d show ?thesis by blast
qed

end
