(* ===== verification/Network.thy ===== *)
theory Network
  imports Guard Base64
begin

text \<open>
  The WireGuard network of the control plane (\<open>internal/wgnet\<close>): keys, the private state of a node,
  enrolling a peer at the hub, the declarative topology, and the configuration that is rendered. Lists
  sorted by \<open>sort.Slice\<close> keep the order of equal names (the code does for up to twelve of them). The
  commands and the files are in theory \<open>Overlay\<close>.
\<close>

section \<open>Keys, names and endpoints\<close>

text \<open>\<open>netip.ParseAddr\<close>, \<open>netip.ParsePrefix\<close>, \<open>Addr.String\<close>, \<open>net.ParseIP\<close>, \<open>net.SplitHostPort\<close> and
  \<open>curve25519.X25519\<close> with the base point.\<close>

record net_ops =
  np_addr :: "string \<Rightarrow> addr option"
  np_prefix :: "string \<Rightarrow> prefix_t option"
  np_show :: "addr \<Rightarrow> string"
  np_ip :: "string \<Rightarrow> bool"
  np_split :: "string \<Rightarrow> (string \<times> string) option"
  np_x25519 :: "bytes \<Rightarrow> bytes option"

datatype net_error = NetVersion | NetName | NetInterface | NetRole | NetAddress | NetOverlay | NetPrivateKey | NetPublicKey
  | NetKeysDiffer | NetListenPort | NetMTU | NetDNS | NetEndpoint | NetEndpointHost | NetEndpointPort | NetPeer string net_error
  | NetHubMissing | NetHub net_error | NetInvitation | NetHubAddress | NetRequest | NetKey | NetPeerAddress | NetPeerOverlay
  | NetPeerName | NetKeepalive | NetAllowedMissing | NetAllowedIPs | NetNotHub | NetHubConflict | NetPeerConflict string
  | NetRandom | NetCurve | NetTopologyVersion | NetStateMissing | NetStateBroken | NetKeyMissing | NetKeyBroken
  | NetNoKey | NetImport | NetWrite | NetInput | NetExists | NetEndpointRequired | NetNotRoot | NetTemp | NetTool

definition net_version :: int where "net_version = 1"
definition role_hub :: string where "role_hub = ''hub''"
definition role_peer :: string where "role_peer = ''peer''"

text \<open>The three regular expressions.\<close>

definition interface_name :: "string \<Rightarrow> bool" where
  "interface_name s \<longleftrightarrow> 1 \<le> length s \<and> length s \<le> 15 \<and> list_all (\<lambda>c. ascii_alnum c \<or> c \<in> set ''_=+.-'') s"

fun node_name :: "string \<Rightarrow> bool" where
  "node_name [] = False"
| "node_name (c # cs) \<longleftrightarrow> ascii_alnum c \<and> length cs \<le> 62 \<and> list_all (\<lambda>c. ascii_alnum c \<or> c \<in> set ''_.-'') cs"

fun endpoint_host :: "string \<Rightarrow> bool" where
  "endpoint_host [] = False"
| "endpoint_host (c # cs) \<longleftrightarrow> ascii_alnum c \<and> length cs \<le> 252 \<and> list_all (\<lambda>c. ascii_alnum c \<or> c \<in> set ''.-'') cs"

definition scalar_size :: nat where "scalar_size = 32"

definition validate_key :: "string \<Rightarrow> bool" where
  "validate_key key \<longleftrightarrow> (case b64_decode std_alphabet key of None \<Rightarrow> False | Some raw \<Rightarrow> length raw = scalar_size)"

text \<open>\<open>strconv.Atoi\<close>: an optional sign and decimal digits, within 64 bits.\<close>

definition decimal :: "char \<Rightarrow> bool" where
  "decimal c \<longleftrightarrow> (let n = (of_char c :: nat) in 48 \<le> n \<and> n \<le> 57)"

definition atoi :: "string \<Rightarrow> int option" where
  "atoi s =
     (let (neg, ds) = (case s of [] \<Rightarrow> (False, []) | c # cs \<Rightarrow> if c = CHR ''-'' then (True, cs) else if c = CHR ''+'' then (False, cs) else (False, s));
          v = foldl (\<lambda>n c. 10 * n + (of_char c - 48)) (0 :: int) ds; v = (if neg then - v else v)
      in if ds = [] \<or> \<not> list_all decimal ds \<or> v < - (2 ^ 63) \<or> v \<ge> 2 ^ 63 then None else Some v)"

definition validate_endpoint :: "net_ops \<Rightarrow> string \<Rightarrow> bool \<Rightarrow> net_error option" where
  "validate_endpoint ops e required =
     (if e = [] \<and> \<not> required then None
      else case np_split ops e of None \<Rightarrow> Some NetEndpoint
      | Some (host, port) \<Rightarrow>
          if blank host \<or> blank port then Some NetEndpoint
          else if \<not> np_ip ops host \<and> \<not> endpoint_host host then Some NetEndpointHost
          else case atoi port of None \<Rightarrow> Some NetEndpointPort
          | Some n \<Rightarrow> if n < 1 \<or> n > 65535 then Some NetEndpointPort else None)"

definition host_address :: "net_ops \<Rightarrow> string \<Rightarrow> string" where
  "host_address ops prefix = (case np_prefix ops prefix of None \<Rightarrow> ''invalid IP'' | Some p \<Rightarrow> np_show ops (px_addr p))"

definition host_prefix :: "net_ops \<Rightarrow> string \<Rightarrow> string" where
  "host_prefix ops a = a @ ''/'' @ (case np_addr ops a of Some (V6 _ _) \<Rightarrow> ''128'' | _ \<Rightarrow> ''32'')"

record net_keys =
  kp_private :: string
  kp_public :: string

text \<open>Clamping the scalar: \<open>&= 248\<close>, \<open>&= 127\<close>, \<open>|= 64\<close>.\<close>

definition on_byte :: "(8 word \<Rightarrow> 8 word) \<Rightarrow> char \<Rightarrow> char" where
  "on_byte f c = byte (unat (f (of_char c)))"

definition clamp :: "bytes \<Rightarrow> bytes" where
  "clamp raw = (let raw = raw[0 := on_byte (\<lambda>b. and b 248) (raw ! 0)]
     in raw[31 := on_byte (\<lambda>b. or (and b 127) 64) (raw ! 31)])"

text \<open>\<open>raw\<close> is the 32 bytes \<open>rand.Read\<close> filled in, if it did.\<close>

definition generate_key :: "net_ops \<Rightarrow> bytes option \<Rightarrow> net_error + net_keys" where
  "generate_key ops raw =
     (case raw of None \<Rightarrow> Inl NetRandom
      | Some raw \<Rightarrow> (case np_x25519 ops (clamp raw) of None \<Rightarrow> Inl NetCurve
          | Some pub \<Rightarrow> Inr \<lparr>kp_private = b64_encode std_alphabet True (clamp raw),
              kp_public = b64_encode std_alphabet True pub\<rparr>))"

text \<open>The public key of a private key, \<open>None\<close> when it has none.\<close>

definition public_of :: "net_ops \<Rightarrow> string \<Rightarrow> string option" where
  "public_of ops key =
     (case b64_decode std_alphabet key of None \<Rightarrow> None
      | Some raw \<Rightarrow> map_option (b64_encode std_alphabet True) (np_x25519 ops raw))"

definition key_pair_from_private :: "net_ops \<Rightarrow> string \<Rightarrow> net_error + net_keys" where
  "key_pair_from_private ops encoded =
     (let key = trim_space encoded in
      if \<not> validate_key key then Inl NetKey
      else case public_of ops key of None \<Rightarrow> Inl NetCurve | Some pub \<Rightarrow> Inr \<lparr>kp_private = key, kp_public = pub\<rparr>)"

section \<open>The state of a node\<close>

record net_hub =
  nh_name :: string
  nh_address :: string
  nh_public :: string
  nh_endpoint :: string

record net_peer =
  ne_name :: string
  ne_address :: string
  ne_public :: string
  ne_endpoint :: string
  ne_allowed :: "string list"
  ne_keepalive :: int

record net_state =
  ns_version :: int
  ns_name :: string
  ns_role :: string
  ns_interface :: string
  ns_address :: string
  ns_listen_port :: int
  ns_endpoint :: string
  ns_private :: string
  ns_public :: string
  ns_overlay :: string
  ns_hub :: "net_hub option"
  ns_peers :: "net_peer list"
  ns_dns :: "string list"
  ns_mtu :: int
  ns_forward :: bool

record invitation =
  iv_version :: int
  iv_name :: string
  iv_address :: string
  iv_public :: string
  iv_endpoint :: string
  iv_overlay :: string
  iv_interface :: string

record enrolment =
  en_version :: int
  en_name :: string
  en_address :: string
  en_public :: string
  en_endpoint :: string

record topology =
  to_version :: int
  to_name :: string
  to_role :: string
  to_interface :: string
  to_address :: string
  to_overlay :: string
  to_endpoint :: string
  to_listen_port :: int
  to_mtu :: int
  to_forward :: bool
  to_peers :: "net_peer list"

definition invitation_validate :: "net_ops \<Rightarrow> invitation \<Rightarrow> net_error option" where
  "invitation_validate ops i =
     (if iv_version i \<noteq> net_version \<or> \<not> node_name (iv_name i) \<or> \<not> interface_name (iv_interface i) then Some NetInvitation
      else if \<not> validate_key (iv_public i) then Some NetKey
      else case np_prefix ops (iv_overlay i) of None \<Rightarrow> Some NetOverlay
      | Some overlay \<Rightarrow>
          (case np_addr ops (iv_address i) of None \<Rightarrow> Some NetHubAddress
           | Some a \<Rightarrow> if \<not> prefix_contains overlay a then Some NetHubAddress
               else validate_endpoint ops (iv_endpoint i) True))"

definition enrolment_validate :: "net_ops \<Rightarrow> string \<Rightarrow> enrolment \<Rightarrow> net_error option" where
  "enrolment_validate ops overlay r =
     (if en_version r \<noteq> net_version \<or> \<not> node_name (en_name r) then Some NetRequest
      else if \<not> validate_key (en_public r) then Some NetKey
      else case np_addr ops (en_address r) of None \<Rightarrow> Some NetPeerAddress
      | Some a \<Rightarrow>
          (case np_prefix ops overlay of None \<Rightarrow> Some NetPeerOverlay
           | Some p \<Rightarrow> if \<not> prefix_contains p a then Some NetPeerOverlay else validate_endpoint ops (en_endpoint r) False))"

definition validate_peer :: "net_ops \<Rightarrow> string \<Rightarrow> net_peer \<Rightarrow> net_error option" where
  "validate_peer ops overlay p =
     (if \<not> node_name (ne_name p) then Some NetPeerName
      else if \<not> validate_key (ne_public p) then Some NetKey
      else case (if ne_endpoint p = [] then None else validate_endpoint ops (ne_endpoint p) False) of Some e \<Rightarrow> Some e
      | None \<Rightarrow>
          if ne_keepalive p < 0 \<or> ne_keepalive p > 65535 then Some NetKeepalive
          else if ne_allowed p = [] then
            (if ne_address p = [] then Some NetAllowedMissing
             else enrolment_validate ops overlay \<lparr>en_version = net_version, en_name = ne_name p, en_address = ne_address p,
               en_public = ne_public p, en_endpoint = ne_endpoint p\<rparr>)
          else if list_ex (\<lambda>raw. np_prefix ops raw = None) (ne_allowed p) then Some NetAllowedIPs else None)"

fun validate_peers :: "net_ops \<Rightarrow> string \<Rightarrow> net_peer list \<Rightarrow> net_error option" where
  "validate_peers ops overlay [] = None"
| "validate_peers ops overlay (p # ps) =
     (case validate_peer ops overlay p of Some e \<Rightarrow> Some (NetPeer (ne_name p) e) | None \<Rightarrow> validate_peers ops overlay ps)"

definition validate_links :: "net_ops \<Rightarrow> net_state \<Rightarrow> net_error option" where
  "validate_links ops s =
     (if ns_role s = role_hub then
        (case validate_endpoint ops (ns_endpoint s) True of Some e \<Rightarrow> Some e
         | None \<Rightarrow> validate_peers ops (ns_overlay s) (ns_peers s))
      else case ns_hub s of
        None \<Rightarrow> if ns_peers s = [] then Some NetHubMissing else validate_peers ops (ns_overlay s) (ns_peers s)
      | Some h \<Rightarrow> map_option NetHub (invitation_validate ops \<lparr>iv_version = net_version, iv_name = nh_name h,
            iv_address = nh_address h, iv_public = nh_public h, iv_endpoint = nh_endpoint h, iv_overlay = ns_overlay s,
            iv_interface = ns_interface s\<rparr>))"

definition validate_network :: "net_ops \<Rightarrow> net_state \<Rightarrow> net_error option" where
  "validate_network ops s =
     (if ns_version s \<noteq> net_version then Some NetVersion
      else if \<not> node_name (ns_name s) then Some NetName
      else if \<not> interface_name (ns_interface s) then Some NetInterface
      else if ns_role s \<noteq> role_hub \<and> ns_role s \<noteq> role_peer then Some NetRole
      else case np_prefix ops (ns_address s) of None \<Rightarrow> Some NetAddress | Some a \<Rightarrow>
      case np_prefix ops (ns_overlay s) of None \<Rightarrow> Some NetOverlay | Some overlay \<Rightarrow>
      if \<not> prefix_contains overlay (px_addr a) then Some NetOverlay
      else if \<not> validate_key (ns_private s) then Some NetPrivateKey
      else if \<not> validate_key (ns_public s) then Some NetPublicKey
      else if public_of ops (ns_private s) \<noteq> Some (ns_public s) then Some NetKeysDiffer
      else if ns_listen_port s < 0 \<or> ns_listen_port s > 65535 \<or> ns_role s = role_hub \<and> ns_listen_port s = 0 then Some NetListenPort
      else if ns_mtu s < 0 \<or> ns_mtu s > 0 \<and> (ns_mtu s < 1280 \<or> ns_mtu s > 9000) then Some NetMTU
      else if list_ex (\<lambda>d. np_addr ops d = None) (ns_dns s) then Some NetDNS
      else validate_links ops s)"

section \<open>Making and changing states\<close>

record hub_options =
  ho_name :: string
  ho_interface :: string
  ho_address :: string
  ho_overlay :: string
  ho_endpoint :: string
  ho_listen_port :: int
  ho_mtu :: int
  ho_dns :: "string list"

definition init_hub :: "net_ops \<Rightarrow> bytes option \<Rightarrow> hub_options \<Rightarrow> net_error + net_state \<times> invitation" where
  "init_hub ops raw o' =
     (case generate_key ops raw of Inl e \<Rightarrow> Inl e
      | Inr k \<Rightarrow>
          (let s = \<lparr>ns_version = net_version, ns_name = ho_name o', ns_role = role_hub, ns_interface = ho_interface o',
                 ns_address = ho_address o', ns_listen_port = ho_listen_port o', ns_endpoint = ho_endpoint o',
                 ns_private = kp_private k, ns_public = kp_public k, ns_overlay = ho_overlay o', ns_hub = None, ns_peers = [],
                 ns_dns = ho_dns o', ns_mtu = ho_mtu o', ns_forward = True\<rparr>
           in case validate_network ops s of Some e \<Rightarrow> Inl e
              | None \<Rightarrow> Inr (s, \<lparr>iv_version = net_version, iv_name = ns_name s, iv_address = host_address ops (ns_address s),
                  iv_public = kp_public k, iv_endpoint = ns_endpoint s, iv_overlay = ns_overlay s, iv_interface = ns_interface s\<rparr>)))"

record peer_options =
  po_name :: string
  po_address :: string
  po_endpoint :: string
  po_invitation :: invitation
  po_mtu :: int
  po_dns :: "string list"

definition init_peer :: "net_ops \<Rightarrow> bytes option \<Rightarrow> peer_options \<Rightarrow> net_error + net_state \<times> enrolment" where
  "init_peer ops raw o' =
     (let i = po_invitation o' in
      case invitation_validate ops i of Some e \<Rightarrow> Inl e | None \<Rightarrow>
      case generate_key ops raw of Inl e \<Rightarrow> Inl e
      | Inr k \<Rightarrow>
          (let s = \<lparr>ns_version = net_version, ns_name = po_name o', ns_role = role_peer, ns_interface = iv_interface i,
                 ns_address = po_address o', ns_listen_port = 0, ns_endpoint = po_endpoint o',
                 ns_private = kp_private k, ns_public = kp_public k, ns_overlay = iv_overlay i,
                 ns_hub = Some \<lparr>nh_name = iv_name i, nh_address = iv_address i, nh_public = iv_public i, nh_endpoint = iv_endpoint i\<rparr>,
                 ns_peers = [], ns_dns = po_dns o', ns_mtu = po_mtu o', ns_forward = False\<rparr>
           in case validate_network ops s of Some e \<Rightarrow> Inl e
              | None \<Rightarrow> Inr (s, \<lparr>en_version = net_version, en_name = ns_name s, en_address = host_address ops (ns_address s),
                  en_public = kp_public k, en_endpoint = ns_endpoint s\<rparr>)))"

text \<open>The loop over the peers: a peer that shares nothing is passed over, one that is the same gets the new
  endpoint, any other that shares something is a conflict; \<open>None\<close> when no peer shares anything.\<close>

fun update_peer :: "enrolment \<Rightarrow> net_peer list \<Rightarrow> (net_error + net_peer list) option" where
  "update_peer r [] = None"
| "update_peer r (p # ps) =
     (if ne_name p \<noteq> en_name r \<and> ne_address p \<noteq> en_address r \<and> ne_public p \<noteq> en_public r
      then map_option (map_sum id ((#) p)) (update_peer r ps)
      else if ne_name p \<noteq> en_name r \<or> ne_address p \<noteq> en_address r \<or> ne_public p \<noteq> en_public r
      then Some (Inl (NetPeerConflict (ne_name p)))
      else Some (Inr (p\<lparr>ne_endpoint := en_endpoint r\<rparr> # ps)))"

definition enrolled :: "enrolment \<Rightarrow> net_peer" where
  "enrolled r = \<lparr>ne_name = en_name r, ne_address = en_address r, ne_public = en_public r, ne_endpoint = en_endpoint r,
     ne_allowed = [], ne_keepalive = 0\<rparr>"

definition authorize :: "net_ops \<Rightarrow> enrolment \<Rightarrow> net_state \<Rightarrow> net_error + net_state" where
  "authorize ops r s =
     (if ns_role s \<noteq> role_hub then Inl NetNotHub
      else case enrolment_validate ops (ns_overlay s) r of Some e \<Rightarrow> Inl e | None \<Rightarrow>
      if en_name r = ns_name s \<or> en_address r = host_address ops (ns_address s) then Inl NetHubConflict
      else case update_peer r (ns_peers s) of
        Some (Inl e) \<Rightarrow> Inl e
      | Some (Inr ps) \<Rightarrow> Inr (s\<lparr>ns_peers := ps\<rparr>)
      | None \<Rightarrow> Inr (s\<lparr>ns_peers := sort_key ne_name (ns_peers s @ [enrolled r])\<rparr>))"

definition reconcile_state :: "net_ops \<Rightarrow> bytes option \<Rightarrow> net_state option \<Rightarrow> topology \<Rightarrow> net_error + net_state \<times> bool" where
  "reconcile_state ops raw current t =
     (if to_version t \<noteq> net_version then Inl NetTopologyVersion
      else case (case current of None \<Rightarrow> generate_key ops raw
          | Some s \<Rightarrow> Inr \<lparr>kp_private = ns_private s, kp_public = ns_public s\<rparr>) of Inl e \<Rightarrow> Inl e
      | Inr k \<Rightarrow>
          (let s = \<lparr>ns_version = net_version, ns_name = to_name t, ns_role = to_role t, ns_interface = to_interface t,
                 ns_address = to_address t, ns_listen_port = to_listen_port t, ns_endpoint = to_endpoint t,
                 ns_private = kp_private k, ns_public = kp_public k, ns_overlay = to_overlay t, ns_hub = None,
                 ns_peers = sort_key ne_name (to_peers t), ns_dns = [], ns_mtu = to_mtu t, ns_forward = to_forward t\<rparr>
           in case validate_network ops s of Some e \<Rightarrow> Inl e | None \<Rightarrow> Inr (s, current \<noteq> Some s)))"

section \<open>The configuration\<close>

definition nl :: string where "nl = [CHR 0x0A]"

definition write_peer :: "string \<Rightarrow> string \<Rightarrow> string \<Rightarrow> string \<Rightarrow> int \<Rightarrow> string" where
  "write_peer name key allowed endpoint keepalive =
     nl @ ''# '' @ name @ nl @ ''[Peer]'' @ nl @ ''PublicKey = '' @ key @ nl @ ''AllowedIPs = '' @ allowed @ nl @
     (if endpoint = [] then [] else ''Endpoint = '' @ endpoint @ nl) @
     (if keepalive > 0 then ''PersistentKeepalive = '' @ itoa_int keepalive @ nl else [])"

definition peer_sections :: "net_ops \<Rightarrow> net_state \<Rightarrow> string" where
  "peer_sections ops s =
     (if ns_role s = role_hub then
        concat (map (\<lambda>p. write_peer (ne_name p) (ne_public p)
          (join '', '' (if ne_allowed p = [] then [host_prefix ops (ne_address p)] else ne_allowed p))
          (ne_endpoint p) (ne_keepalive p)) (ns_peers s))
      else case ns_hub s of
        Some h \<Rightarrow> write_peer (nh_name h) (nh_public h) (ns_overlay s) (nh_endpoint h) 25
      | None \<Rightarrow> concat (map (\<lambda>p. write_peer (ne_name p) (ne_public p) (join '', '' (ne_allowed p))
          (ne_endpoint p) (ne_keepalive p)) (ns_peers s)))"

definition net_config :: "net_ops \<Rightarrow> net_state \<Rightarrow> net_error + string" where
  "net_config ops s =
     (case validate_network ops s of Some e \<Rightarrow> Inl e
      | None \<Rightarrow> Inr (''# Generated by parallaxd-network. Do not share this file.'' @ nl @ ''[Interface]'' @ nl @
          ''Address = '' @ ns_address s @ nl @ ''PrivateKey = '' @ ns_private s @ nl @
          (if ns_listen_port s > 0 then ''ListenPort = '' @ itoa_int (ns_listen_port s) @ nl else []) @
          (if ns_mtu s > 0 then ''MTU = '' @ itoa_int (ns_mtu s) @ nl else []) @
          (if ns_dns s = [] then [] else ''DNS = '' @ join '', '' (ns_dns s) @ nl) @ peer_sections ops s))"

end
