(* ===== verification/Overlay.thy ===== *)
theory Overlay
  imports Network
begin

text \<open>
  The commands that keep a node's place in the WireGuard network (\<open>cmd/parallaxd-network/main.go\<close>, with
  the files of \<open>internal/wgnet/wgnet.go\<close>), and what they promise: the private key of a node that has a
  state is never lost, and a peer that enrolled and its hub are configured to reach each other. A file is
  what was last written to it, JSON is the identity on the value, the options that name a file are given, and
  printing succeeds. Commands on one directory run one after the other; the code takes no lock on it.
\<close>

section \<open>The state directory\<close>

text \<open>What is at a path: nothing, a link to nothing, something that cannot be read as what it should be (not a
  regular file, readable by others, no such JSON), a value.\<close>

datatype 'a stored = Missing | Dangling | Broken | Holds 'a

record net_dir =
  nd_state :: "net_state stored"
  nd_key :: "net_keys stored"
  nd_invitation :: "invitation stored"
  nd_request :: "enrolment stored"

definition load_state :: "net_ops \<Rightarrow> net_dir \<Rightarrow> net_error + net_state" where
  "load_state ops d =
     (case nd_state d of Missing \<Rightarrow> Inl NetStateMissing | Dangling \<Rightarrow> Inl NetStateBroken | Broken \<Rightarrow> Inl NetStateBroken
      | Holds s \<Rightarrow> (case validate_network ops s of Some e \<Rightarrow> Inl e | None \<Rightarrow> Inr s))"

definition load_key_pair :: "net_ops \<Rightarrow> net_dir \<Rightarrow> net_error + net_keys" where
  "load_key_pair ops d =
     (case load_state ops d of
        Inr s \<Rightarrow> Inr \<lparr>kp_private = ns_private s, kp_public = ns_public s\<rparr>
      | Inl _ \<Rightarrow>
          (case nd_key d of Missing \<Rightarrow> Inl NetKeyMissing | Dangling \<Rightarrow> Inl NetKeyBroken | Broken \<Rightarrow> Inl NetKeyBroken
           | Holds k \<Rightarrow>
               if \<not> validate_key (kp_private k) then Inl NetKey
               else if public_of ops (kp_private k) \<noteq> Some (kp_public k) then Inl NetKeysDiffer
               else Inr k))"

text \<open>\<open>os.Stat\<close> follows a link.\<close>

definition refuse_existing :: "net_dir \<Rightarrow> bool" where
  "refuse_existing d = (case nd_state d of Missing \<Rightarrow> False | Dangling \<Rightarrow> False | _ \<Rightarrow> True)"

text \<open>\<open>atomicWrite\<close> renames a file that was written and synced: a write that fails leaves what was there.\<close>

definition save_state :: "bool \<Rightarrow> net_state \<Rightarrow> net_dir \<Rightarrow> net_dir" where
  "save_state written s d = (if written then d\<lparr>nd_state := Holds s\<rparr> else d)"

definition save_key_pair :: "bool \<Rightarrow> net_keys \<Rightarrow> net_dir \<Rightarrow> net_dir" where
  "save_key_pair written k d = (if written then d\<lparr>nd_key := Holds k\<rparr> else d)"

section \<open>Commands\<close>

text \<open>What a command prints: a public key, whether something changed and the interface, the file to share, the
  configuration it wrote.\<close>

datatype printed = PublicKeyLine string | ChangeLine bool string | SharedInvitation invitation | SharedRequest enrolment
  | AuthorizedLine string string | WroteConfig string

text \<open>\<open>given\<close> is what \<open>os.ReadFile\<close> finds at the path of \<open>--import-private\<close>, if that option is set.\<close>

definition imported :: "net_ops \<Rightarrow> bytes option \<Rightarrow> string stored option \<Rightarrow> net_error + net_keys" where
  "imported ops raw given =
     (case given of
        None \<Rightarrow> generate_key ops raw
      | Some (Holds text) \<Rightarrow> key_pair_from_private ops text
      | Some Broken \<Rightarrow> Inl NetImport
      | Some _ \<Rightarrow> generate_key ops raw)"

definition key_init :: "net_ops \<Rightarrow> bytes option \<Rightarrow> bool \<Rightarrow> bool \<Rightarrow> string stored option \<Rightarrow> net_dir \<Rightarrow> (net_error + printed) \<times> net_dir" where
  "key_init ops raw written check given d =
     (case load_key_pair ops d of
        Inr k \<Rightarrow> (Inr (PublicKeyLine (kp_public k)), d)
      | Inl e \<Rightarrow>
          if e \<noteq> NetKeyMissing then (Inl e, d)
          else if check then
            (case given of
               Some (Holds text) \<Rightarrow> (map_sum id (\<lambda>k. PublicKeyLine (kp_public k)) (key_pair_from_private ops text), d)
             | _ \<Rightarrow> (Inl NetNoKey, d))
          else (case imported ops raw given of
             Inl e' \<Rightarrow> (Inl e', d)
           | Inr k \<Rightarrow> (if written then Inr (PublicKeyLine (kp_public k)) else Inl NetWrite, save_key_pair written k d)))"

definition public_key :: "net_ops \<Rightarrow> net_dir \<Rightarrow> net_error + printed" where
  "public_key ops d = map_sum id (\<lambda>k. PublicKeyLine (kp_public k)) (load_key_pair ops d)"

text \<open>A node without a state takes the key that \<open>key-init\<close> left; a check run tries the topology with a key it
  throws away.\<close>

definition adopt_key :: "net_ops \<Rightarrow> topology \<Rightarrow> net_state \<Rightarrow> net_dir \<Rightarrow> net_error + net_state" where
  "adopt_key ops t s d =
     (case load_key_pair ops d of
        Inl e \<Rightarrow> Inl e
      | Inr k \<Rightarrow> map_sum id fst (reconcile_state ops None (Some (s\<lparr>ns_private := kp_private k, ns_public := kp_public k\<rparr>)) t))"

definition finish_reconcile :: "bool \<Rightarrow> bool \<Rightarrow> bool \<Rightarrow> net_state \<Rightarrow> net_dir \<Rightarrow> (net_error + printed) \<times> net_dir" where
  "finish_reconcile written check changed s d =
     (if changed \<and> \<not> check \<and> \<not> written then (Inl NetWrite, d)
      else (Inr (ChangeLine changed (ns_interface s)), if changed \<and> \<not> check then save_state True s d else d))"

definition reconcile_dir :: "net_ops \<Rightarrow> bytes option \<Rightarrow> bool \<Rightarrow> bool \<Rightarrow> topology stored \<Rightarrow> net_dir \<Rightarrow> (net_error + printed) \<times> net_dir" where
  "reconcile_dir ops raw written check given d =
     (case given of Holds t \<Rightarrow>
        (case load_state ops d of
           Inr s \<Rightarrow>
             (case reconcile_state ops raw (Some s) t of Inl e \<Rightarrow> (Inl e, d)
              | Inr (s', changed) \<Rightarrow> finish_reconcile written check changed s' d)
         | Inl NetStateMissing \<Rightarrow>
             (case reconcile_state ops raw None t of Inl e \<Rightarrow> (Inl e, d)
              | Inr (s', _) \<Rightarrow>
                  if check then finish_reconcile written check True s' d
                  else (case adopt_key ops t s' d of Inl e \<Rightarrow> (Inl e, d) | Inr s'' \<Rightarrow> finish_reconcile written check True s'' d))
         | Inl e \<Rightarrow> (Inl e, d))
      | _ \<Rightarrow> (Inl NetInput, d))"

text \<open>The two initialisations write the state first and what may be shared second; \<open>shared\<close> says whether that
  second write succeeded.\<close>

definition hub_init :: "net_ops \<Rightarrow> bytes option \<Rightarrow> bool \<Rightarrow> bool \<Rightarrow> hub_options \<Rightarrow> net_dir \<Rightarrow> (net_error + printed) \<times> net_dir" where
  "hub_init ops raw written shared opts d =
     (if ho_endpoint opts = [] then (Inl NetEndpointRequired, d)
      else case init_hub ops raw (opts\<lparr>ho_mtu := 0, ho_dns := []\<rparr>) of Inl e \<Rightarrow> (Inl e, d)
      | Inr (s, i) \<Rightarrow>
          if refuse_existing d then (Inl NetExists, d)
          else if \<not> written then (Inl NetWrite, d)
          else if \<not> shared then (Inl NetWrite, save_state True s d)
          else (Inr (SharedInvitation i), (save_state True s d)\<lparr>nd_invitation := Holds i\<rparr>))"

definition peer_init :: "net_ops \<Rightarrow> bytes option \<Rightarrow> bool \<Rightarrow> bool \<Rightarrow> string \<Rightarrow> string \<Rightarrow> string \<Rightarrow> invitation stored \<Rightarrow> net_dir \<Rightarrow>
    (net_error + printed) \<times> net_dir" where
  "peer_init ops raw written shared name address endpoint given d =
     (if name = [] \<or> address = [] then (Inl NetInput, d)
      else case given of Holds i \<Rightarrow>
        (case init_peer ops raw \<lparr>po_name = name, po_address = address, po_endpoint = endpoint, po_invitation = i,
              po_mtu = 0, po_dns = []\<rparr> of Inl e \<Rightarrow> (Inl e, d)
         | Inr (s, r) \<Rightarrow>
             if refuse_existing d then (Inl NetExists, d)
             else if \<not> written then (Inl NetWrite, d)
             else if \<not> shared then (Inl NetWrite, save_state True s d)
             else (Inr (SharedRequest r), (save_state True s d)\<lparr>nd_request := Holds r\<rparr>))
      | _ \<Rightarrow> (Inl NetInput, d))"

definition authorize_dir :: "net_ops \<Rightarrow> bool \<Rightarrow> enrolment stored \<Rightarrow> net_dir \<Rightarrow> (net_error + printed) \<times> net_dir" where
  "authorize_dir ops written given d =
     (case load_state ops d of Inl e \<Rightarrow> (Inl e, d)
      | Inr s \<Rightarrow>
          (case given of Holds r \<Rightarrow>
             (case authorize ops r s of Inl e \<Rightarrow> (Inl e, d)
              | Inr s' \<Rightarrow> if written then (Inr (AuthorizedLine (en_name r) (en_address r)), save_state True s' d)
                  else (Inl NetWrite, d))
           | _ \<Rightarrow> (Inl NetInput, d)))"

definition render :: "net_ops \<Rightarrow> bool \<Rightarrow> net_dir \<Rightarrow> net_error + printed" where
  "render ops written d =
     (case load_state ops d of Inl e \<Rightarrow> Inl e
      | Inr s \<Rightarrow> (case net_config ops s of Inl e \<Rightarrow> Inl e
          | Inr text \<Rightarrow> if written then Inr (WroteConfig text) else Inl NetWrite))"

text \<open>The options of the commands that change the directory, with what the machine answers: random bytes,
  whether the writes succeed, what is found at the paths named.\<close>

datatype net_cmd =
    KeyInit "bytes option" bool bool "string stored option"
  | PublicKey
  | Reconcile "bytes option" bool bool "topology stored"
  | HubInit "bytes option" bool bool hub_options
  | PeerInit "bytes option" bool bool string string string "invitation stored"
  | Authorize bool "enrolment stored"
  | Render bool

fun net_step :: "net_ops \<Rightarrow> net_cmd \<Rightarrow> net_dir \<Rightarrow> (net_error + printed) \<times> net_dir" where
  "net_step ops (KeyInit raw written check given) d = key_init ops raw written check given d"
| "net_step ops PublicKey d = (public_key ops d, d)"
| "net_step ops (Reconcile raw written check given) d = reconcile_dir ops raw written check given d"
| "net_step ops (HubInit raw written shared opts) d = hub_init ops raw written shared opts d"
| "net_step ops (PeerInit raw written shared name address endpoint given) d =
     peer_init ops raw written shared name address endpoint given d"
| "net_step ops (Authorize written given) d = authorize_dir ops written given d"
| "net_step ops (Render written) d = (render ops written d, d)"

fun net_run :: "net_ops \<Rightarrow> net_cmd list \<Rightarrow> net_dir \<Rightarrow> net_dir" where
  "net_run ops [] d = d"
| "net_run ops (c # cs) d = net_run ops cs (snd (net_step ops c d))"

section \<open>Installing\<close>

text \<open>What \<open>install\<close> does to the host, in order: it writes files and runs tools. A host answers whether each of
  them succeeds, whether the caller is root, the temporary directory it made and what the configuration
  file held.\<close>

datatype host_call = WriteFile string string | RunTool "string list"

record host =
  hs_root :: bool
  hs_temp :: "string option"
  hs_existing :: "string option"
  hs_works :: "host_call \<Rightarrow> bool"

text \<open>Calls in order, up to the first that fails.\<close>

fun run_calls :: "(host_call \<Rightarrow> bool) \<Rightarrow> host_call list \<Rightarrow> host_call list \<times> bool" where
  "run_calls works [] = ([], True)"
| "run_calls works (c # cs) =
     (if works c then (let (made, ok) = run_calls works cs in (c # made, ok)) else ([c], False))"

definition conf_path :: "net_state \<Rightarrow> string" where
  "conf_path s = ''/etc/wireguard/'' @ ns_interface s @ ''.conf''"

definition unit_name :: "net_state \<Rightarrow> string" where
  "unit_name s = ''wg-quick@'' @ ns_interface s @ ''.service''"

definition sysctl_path :: string where "sysctl_path = ''/etc/sysctl.d/90-parallaxd-network.conf''"

definition forwarding :: "net_state \<Rightarrow> string" where
  "forwarding s = (if CHR '':'' \<in> set (ns_overlay s) then ''net.ipv6.conf.all.forwarding = 1'' else ''net.ipv4.ip_forward = 1'') @ nl"

definition install_calls :: "net_state \<Rightarrow> string \<Rightarrow> string \<Rightarrow> bool \<Rightarrow> host_call list" where
  "install_calls s text tmp changed =
     (let candidate = tmp @ ''/'' @ ns_interface s @ ''.conf'' in
      [WriteFile candidate text, RunTool [''wg-quick'', ''strip'', candidate]] @
      (if changed then [WriteFile (conf_path s) text] else []) @
      (if ns_role s = role_hub \<and> ns_forward s
       then [WriteFile sysctl_path (forwarding s), RunTool [''sysctl'', ''-p'', sysctl_path]] else []) @
      [RunTool [''systemctl'', ''enable'', unit_name s]] @
      (if changed then [RunTool [''systemctl'', ''restart'', unit_name s]] else []))"

definition start_calls :: "net_state \<Rightarrow> (host_call \<Rightarrow> bool) \<Rightarrow> host_call list \<times> bool \<times> bool" where
  "start_calls s works =
     (let active = RunTool [''systemctl'', ''is-active'', ''--quiet'', unit_name s];
          start = RunTool [''systemctl'', ''start'', unit_name s]
      in if works active then ([active], True, False) else ([active, start], works start, True))"

text \<open>The calls made, and whether anything changed.\<close>

definition install :: "net_ops \<Rightarrow> host \<Rightarrow> net_dir \<Rightarrow> host_call list \<times> (net_error + bool)" where
  "install ops h d =
     (if \<not> hs_root h then ([], Inl NetNotRoot)
      else case load_state ops d of Inl e \<Rightarrow> ([], Inl e) | Inr s \<Rightarrow>
      case net_config ops s of Inl e \<Rightarrow> ([], Inl e) | Inr text \<Rightarrow>
      case hs_temp h of None \<Rightarrow> ([], Inl NetTemp) | Some tmp \<Rightarrow>
        (let changed = hs_existing h \<noteq> Some text; (made, ok) = run_calls (hs_works h) (install_calls s text tmp changed)
         in if \<not> ok then (made, Inl NetTool)
            else if changed then (made, Inr True)
            else (let (more, ok', started) = start_calls s (hs_works h)
                  in (made @ more, if ok' then Inr started else Inl NetTool))))"

section \<open>What the private state keeps\<close>

lemma validate_peers_iff: "validate_peers ops overlay ps = None \<longleftrightarrow> (\<forall>p \<in> set ps. validate_peer ops overlay p = None)"
  by (induction ps) (auto split: option.splits)

lemma enrolled_valid:
  assumes "enrolment_validate ops overlay r = None" "np_addr ops [] = None"
  shows "validate_peer ops overlay (enrolled r) = None"
  using assms by (auto simp: enrolment_validate_def validate_peer_def enrolled_def split: if_splits option.splits)

lemma endpoint_valid:
  assumes "enrolment_validate ops overlay r = None" "validate_peer ops overlay p = None"
  shows "validate_peer ops overlay (p\<lparr>ne_endpoint := en_endpoint r\<rparr>) = None"
  using assms by (auto simp: enrolment_validate_def validate_peer_def split: if_splits option.splits)

lemma map_sum_Inr: "map_sum f g x = Inr y \<longleftrightarrow> (\<exists>z. x = Inr z \<and> y = g z)"
  by (cases x) auto

lemma update_peer_set:
  "update_peer r ps = Some (Inr qs) \<Longrightarrow> q \<in> set qs \<Longrightarrow>
     q \<in> set ps \<or> (\<exists>p \<in> set ps. q = p\<lparr>ne_endpoint := en_endpoint r\<rparr>)"
  by (induction ps arbitrary: qs) (fastforce simp: map_sum_Inr split: if_splits)+

lemma validate_network_peers:
  "validate_network ops s = None \<Longrightarrow> ns_role s = role_hub \<Longrightarrow>
     validate_network ops (s\<lparr>ns_peers := ps\<rparr>) = None \<longleftrightarrow> (\<forall>p \<in> set ps. validate_peer ops (ns_overlay s) p = None)"
  by (auto simp: validate_network_def validate_links_def validate_peers_iff split: if_splits option.splits)

lemma hub_peers_valid:
  "validate_network ops s = None \<Longrightarrow> ns_role s = role_hub \<Longrightarrow> p \<in> set (ns_peers s) \<Longrightarrow> validate_peer ops (ns_overlay s) p = None"
  using validate_network_peers [of ops s "ns_peers s"] by simp

definition peers_from :: "enrolment \<Rightarrow> net_peer list \<Rightarrow> net_peer list \<Rightarrow> bool" where
  "peers_from r ps qs \<longleftrightarrow> (\<forall>q \<in> set qs. q \<in> set ps \<or> q = enrolled r \<or> (\<exists>p \<in> set ps. q = p\<lparr>ne_endpoint := en_endpoint r\<rparr>))"

lemma authorize_gate:
  "authorize ops r s = Inr s' \<Longrightarrow> ns_role s = role_hub \<and> enrolment_validate ops (ns_overlay s) r = None"
  by (simp add: authorize_def split: if_splits option.splits)

lemma authorize_peers:
  assumes "authorize ops r s = Inr s'"
  shows "\<exists>ps. s' = s\<lparr>ns_peers := ps\<rparr> \<and> peers_from r (ns_peers s) ps"
proof (cases "update_peer r (ns_peers s)")
  case None
  have "peers_from r (ns_peers s) (sort_key ne_name (ns_peers s @ [enrolled r]))" by (auto simp: peers_from_def)
  moreover from None assms have "s' = s\<lparr>ns_peers := sort_key ne_name (ns_peers s @ [enrolled r])\<rparr>"
    by (simp add: authorize_def split: if_splits option.splits)
  ultimately show ?thesis by blast
next
  case (Some x)
  with assms obtain ps where ps: "x = Inr ps" "s' = s\<lparr>ns_peers := ps\<rparr>"
    by (auto simp: authorize_def split: if_splits option.splits sum.splits)
  with Some update_peer_set have "peers_from r (ns_peers s) ps" by (fastforce simp: peers_from_def)
  with ps(2) show ?thesis by blast
qed

lemma authorize_valid:
  assumes "validate_network ops s = None" "np_addr ops [] = None" "authorize ops r s = Inr s'"
  shows "validate_network ops s' = None"
proof -
  from authorize_gate [OF assms(3)] authorize_peers [OF assms(3)]
  obtain ps where ps: "ns_role s = role_hub" "enrolment_validate ops (ns_overlay s) r = None"
      "s' = s\<lparr>ns_peers := ps\<rparr>" "peers_from r (ns_peers s) ps" by blast
  have "validate_peer ops (ns_overlay s) q = None" if "q \<in> set ps" for q
  proof -
    from ps(4) that consider "q \<in> set (ns_peers s)" | "q = enrolled r" | p where "p \<in> set (ns_peers s)" "q = p\<lparr>ne_endpoint := en_endpoint r\<rparr>"
      by (auto simp: peers_from_def)
    then show ?thesis
      by cases (simp_all add: hub_peers_valid [OF assms(1) ps(1)] enrolled_valid [OF ps(2) assms(2)] endpoint_valid [OF ps(2)])
  qed
  with validate_network_peers [OF assms(1) ps(1)] ps(3) show ?thesis by simp
qed

text \<open>What a directory holds once it has a usable state with the keys \<open>k\<close>.\<close>

definition keeps_key :: "net_ops \<Rightarrow> net_keys \<Rightarrow> net_dir \<Rightarrow> bool" where
  "keeps_key ops k d = (case nd_state d of
     Holds s \<Rightarrow> validate_network ops s = None \<and> ns_private s = kp_private k \<and> ns_public s = kp_public k | _ \<Rightarrow> False)"

lemma keeps_key_iff:
  "keeps_key ops k d \<longleftrightarrow> (\<exists>s. load_state ops d = Inr s \<and> ns_private s = kp_private k \<and> ns_public s = kp_public k)"
  by (auto simp: keeps_key_def load_state_def split: stored.splits option.splits)

lemma keeps_key_load: "keeps_key ops k d \<Longrightarrow> load_key_pair ops d = Inr k"
  by (auto simp: keeps_key_iff load_key_pair_def)

lemma keeps_key_refuse: "keeps_key ops k d \<Longrightarrow> refuse_existing d"
  by (auto simp: keeps_key_def refuse_existing_def split: stored.splits)

lemma reconcile_state_keeps:
  "reconcile_state ops raw (Some s) t = Inr (s', changed) \<Longrightarrow>
     validate_network ops s' = None \<and> ns_private s' = ns_private s \<and> ns_public s' = ns_public s"
  by (auto simp: reconcile_state_def Let_def split: if_splits option.splits)

lemma authorize_keys: "authorize ops r s = Inr s' \<Longrightarrow> ns_private s' = ns_private s \<and> ns_public s' = ns_public s"
  by (drule authorize_peers) auto

lemma finish_reconcile_keeps:
  "keeps_key ops k d \<Longrightarrow> validate_network ops s = None \<Longrightarrow> ns_private s = kp_private k \<Longrightarrow> ns_public s = kp_public k \<Longrightarrow>
     keeps_key ops k (snd (finish_reconcile written check changed s d))"
  by (auto simp: finish_reconcile_def save_state_def keeps_key_def)

lemma reconcile_dir_keeps:
  assumes "keeps_key ops k d"
  shows "keeps_key ops k (snd (reconcile_dir ops raw written check given d))"
  using assms finish_reconcile_keeps [OF assms]
  by (auto simp: reconcile_dir_def keeps_key_iff split: stored.splits sum.splits dest!: reconcile_state_keeps)

lemma net_step_keeps:
  assumes "np_addr ops [] = None" "keeps_key ops k d"
  shows "keeps_key ops k (snd (net_step ops c d))"
proof (cases c)
  case (Authorize written given)
  from assms(2) obtain s where s: "load_state ops d = Inr s" "validate_network ops s = None"
      "ns_private s = kp_private k" "ns_public s = kp_public k"
    by (auto simp: keeps_key_def load_state_def split: stored.splits)
  with assms Authorize show ?thesis
    by (auto simp: authorize_dir_def save_state_def keeps_key_def [of _ _ "d\<lparr>nd_state := _\<rparr>"] authorize_keys
      split: stored.splits sum.splits dest: authorize_valid)
next
  case (Reconcile raw written check given)
  with reconcile_dir_keeps [OF assms(2)] show ?thesis by simp
qed (use assms(2) keeps_key_load [OF assms(2)] keeps_key_refuse [OF assms(2)] in
  \<open>auto simp: key_init_def hub_init_def peer_init_def split: sum.splits stored.splits\<close>)

lemma net_run_keeps: "np_addr ops [] = None \<Longrightarrow> keeps_key ops k d \<Longrightarrow> keeps_key ops k (net_run ops cs d)"
  by (induction cs arbitrary: d) (simp_all add: net_step_keeps)

section \<open>Enrolment\<close>

lemma init_hub_Inr:
  assumes "init_hub ops raw o' = Inr (h, i)"
  shows "validate_network ops h = None" "ns_role h = role_hub" "ns_peers h = []"
    "i = \<lparr>iv_version = net_version, iv_name = ns_name h, iv_address = host_address ops (ns_address h), iv_public = ns_public h,
       iv_endpoint = ns_endpoint h, iv_overlay = ns_overlay h, iv_interface = ns_interface h\<rparr>"
  using assms by (auto simp: init_hub_def Let_def split: sum.splits option.splits)

lemma init_peer_Inr:
  assumes "init_peer ops raw o' = Inr (p, r)"
  shows "validate_network ops p = None" "ns_role p = role_peer" "ns_overlay p = iv_overlay (po_invitation o')"
    "ns_hub p = Some \<lparr>nh_name = iv_name (po_invitation o'), nh_address = iv_address (po_invitation o'),
       nh_public = iv_public (po_invitation o'), nh_endpoint = iv_endpoint (po_invitation o')\<rparr>"
    "r = \<lparr>en_version = net_version, en_name = ns_name p, en_address = host_address ops (ns_address p),
       en_public = ns_public p, en_endpoint = ns_endpoint p\<rparr>"
  using assms by (auto simp: init_peer_def Let_def split: sum.splits option.splits)

lemma update_peer_fresh:
  "(\<And>q. q \<in> set ps \<Longrightarrow> ne_name q \<noteq> en_name r \<and> ne_address q \<noteq> en_address r \<and> ne_public q \<noteq> en_public r) \<Longrightarrow>
     update_peer r ps = None"
  by (induction ps) auto

text \<open>The endpoint is the only part of an enrolment that the peer's own state was not checked for.\<close>

lemma enrolment_valid:
  assumes p: "validate_network ops p = None"
    and reads: "\<And>x q. np_prefix ops x = Some q \<Longrightarrow> np_addr ops (np_show ops (px_addr q)) = Some (px_addr q)"
    and r: "en_version r = net_version" "en_name r = ns_name p" "en_address r = host_address ops (ns_address p)"
      "en_public r = ns_public p"
  shows "enrolment_validate ops (ns_overlay p) r = validate_endpoint ops (en_endpoint r) False"
  using assms by (auto simp: validate_network_def enrolment_validate_def host_address_def split: if_splits option.splits)

lemma peer_section:
  "ns_role h = role_hub \<Longrightarrow> enrolled r \<in> set (ns_peers h) \<Longrightarrow>
     \<exists>u v. peer_sections ops h = u @ write_peer (en_name r) (en_public r) (host_prefix ops (en_address r)) (en_endpoint r) 0 @ v"
proof -
  assume role: "ns_role h = role_hub" and "enrolled r \<in> set (ns_peers h)"
  then obtain ps qs where split: "ns_peers h = ps @ enrolled r # qs" by (meson split_list)
  show ?thesis
    unfolding peer_sections_def split using role by (auto simp: enrolled_def)
qed

lemma hub_section:
  "ns_role p = role_peer \<Longrightarrow> ns_hub p = Some n \<Longrightarrow>
     peer_sections ops p = write_peer (nh_name n) (nh_public n) (ns_overlay p) (nh_endpoint n) 25"
  by (simp add: peer_sections_def role_peer_def role_hub_def)

lemma net_config_sections: "validate_network ops s = None \<Longrightarrow> \<exists>u. net_config ops s = Inr (u @ peer_sections ops s)"
  by (auto simp: net_config_def simp flip: append_assoc)

text \<open>A key that was generated is accepted wherever keys are checked.\<close>

lemma key_of_encoding: "validate_key (b64_encode std_alphabet True bs) \<longleftrightarrow> length bs = scalar_size"
    "public_of ops (b64_encode std_alphabet True bs) = map_option (b64_encode std_alphabet True) (np_x25519 ops bs)"
  by (simp_all add: validate_key_def public_of_def decode_encode)

lemma clamp_length [simp]: "length (clamp raw) = length raw"
  by (simp add: clamp_def Let_def)

lemma generate_key_valid:
  assumes "generate_key ops (Some raw) = Inr k" "length raw = scalar_size"
    and "\<And>x y. np_x25519 ops x = Some y \<Longrightarrow> length y = scalar_size"
  shows "validate_key (kp_private k)" "validate_key (kp_public k)" "public_of ops (kp_private k) = Some (kp_public k)"
  using assms by (auto simp: generate_key_def key_of_encoding split: option.splits)

section \<open>A small network\<close>

definition lan_prefix :: "string \<Rightarrow> prefix_t option" where
  "lan_prefix s = (if s = ''10.77.0.1/24'' then Some (net4 0x0a4d0001 24) else if s = ''10.77.0.2/24'' then Some (net4 0x0a4d0002 24)
     else if s = ''10.77.0.0/24'' then Some (net4 0x0a4d0000 24) else None)"

definition lan_show :: "addr \<Rightarrow> string" where
  "lan_show a = (if a = V4 0x0a4d0001 then ''10.77.0.1'' else if a = V4 0x0a4d0002 then ''10.77.0.2'' else ''10.77.0.0'')"

definition lan_addr :: "string \<Rightarrow> addr option" where
  "lan_addr s = (if s = ''10.77.0.1'' then Some (V4 0x0a4d0001) else if s = ''10.77.0.2'' then Some (V4 0x0a4d0002)
     else if s = ''10.77.0.0'' then Some (V4 0x0a4d0000) else None)"

definition lan_ops :: net_ops where
  "lan_ops = \<lparr>np_addr = lan_addr, np_prefix = lan_prefix, np_show = lan_show, np_ip = (\<lambda>_. False),
     np_split = (\<lambda>s. if s = ''hub:51821'' then Some (''hub'', ''51821'') else None), np_x25519 = (\<lambda>raw. Some (rev raw))\<rparr>"

definition lan_hub :: "net_error + net_state \<times> invitation" where
  "lan_hub = init_hub lan_ops (Some (replicate 32 CHR ''a''))
     \<lparr>ho_name = ''coordinator'', ho_interface = ''wg-parallaxd'', ho_address = ''10.77.0.1/24'', ho_overlay = ''10.77.0.0/24'',
      ho_endpoint = ''hub:51821'', ho_listen_port = 51821, ho_mtu = 0, ho_dns = []\<rparr>"

definition lan_peer :: "invitation \<Rightarrow> net_error + net_state \<times> enrolment" where
  "lan_peer i = init_peer lan_ops (Some (replicate 32 CHR ''b''))
     \<lparr>po_name = ''probe-1'', po_address = ''10.77.0.2/24'', po_endpoint = [], po_invitation = i, po_mtu = 0, po_dns = []\<rparr>"

lemma lan_names: "node_name ''coordinator''" "node_name ''probe-1''" "interface_name ''wg-parallaxd''" "endpoint_host ''hub''"
    "\<not> blank ''hub''" "\<not> blank ''51821''" "atoi ''51821'' = Some 51821"
  by code_simp+

lemma lan_contains: "prefix_contains (net4 0x0a4d0000 24) (V4 0x0a4d0001)" "prefix_contains (net4 0x0a4d0000 24) (V4 0x0a4d0002)"
  by code_simp+

lemma lan_parsed: "np_prefix lan_ops ''10.77.0.1/24'' = Some (net4 0x0a4d0001 24)" "np_prefix lan_ops ''10.77.0.2/24'' = Some (net4 0x0a4d0002 24)"
    "np_prefix lan_ops ''10.77.0.0/24'' = Some (net4 0x0a4d0000 24)" "np_x25519 lan_ops raw = Some (rev raw)"
    "validate_endpoint lan_ops ''hub:51821'' True = None" "np_addr lan_ops ''10.77.0.1'' = Some (V4 0x0a4d0001)"
  by (simp_all add: lan_ops_def lan_prefix_def lan_addr_def validate_endpoint_def lan_names del: endpoint_host.simps)

lemma net4_addr [simp]: "px_addr (net4 a n) = V4 a"
  by (simp add: prefix_from_def)

lemma lan_addresses: "host_address lan_ops ''10.77.0.1/24'' = ''10.77.0.1''" "host_address lan_ops ''10.77.0.2/24'' = ''10.77.0.2''"
  by (simp_all add: host_address_def lan_prefix_def lan_ops_def lan_show_def)

text \<open>The names are decided as a whole, not letter by letter.\<close>

lemmas lan_facts = generate_key_def lan_parsed Let_def validate_network_def lan_names net_version_def role_hub_def lan_contains
  key_of_encoding validate_links_def scalar_size_def lan_addresses

lemma lan_hub_starts:
  "\<exists>h i. lan_hub = Inr (h, i) \<and> ns_name h = ''coordinator'' \<and> ns_address h = ''10.77.0.1/24''"
  by (simp add: lan_hub_def init_hub_def lan_facts del: node_name.simps endpoint_host.simps)

lemma lan_invitation:
  assumes "lan_hub = Inr (h, i)"
  shows "invitation_validate lan_ops i = None" "iv_version i = 1" "iv_overlay i = ''10.77.0.0/24''" "iv_interface i = ''wg-parallaxd''"
  using assms by (auto simp: lan_hub_def init_hub_def invitation_validate_def lan_facts simp del: node_name.simps endpoint_host.simps)

lemma lan_nodes:
  obtains h i p r where "lan_hub = Inr (h, i)" "lan_peer i = Inr (p, r)" "ns_name h = ''coordinator''"
    "ns_address h = ''10.77.0.1/24''" "ns_name p = ''probe-1''" "ns_address p = ''10.77.0.2/24''" "ns_endpoint p = []"
proof -
  from lan_hub_starts obtain h i where h: "lan_hub = Inr (h, i)" "ns_name h = ''coordinator''" "ns_address h = ''10.77.0.1/24''" by blast
  with lan_invitation [OF h(1)]
  have "\<exists>p r. lan_peer i = Inr (p, r) \<and> ns_name p = ''probe-1'' \<and> ns_address p = ''10.77.0.2/24'' \<and> ns_endpoint p = []"
    by (cases i) (simp add: lan_peer_def init_peer_def role_peer_def lan_facts del: node_name.simps endpoint_host.simps)
  with h that show ?thesis by blast
qed

lemma lan_reads: "np_addr lan_ops [] = None"
    "np_prefix lan_ops x = Some q \<Longrightarrow> np_addr lan_ops (np_show lan_ops (px_addr q)) = Some (px_addr q)"
  by (auto simp: lan_ops_def lan_addr_def lan_prefix_def lan_show_def prefix_from_def split: if_splits)

lemma no_peers: "ns_peers h = [] \<Longrightarrow> h\<lparr>ns_peers := []\<rparr> = h"
  by (cases h) simp

section \<open>Properties\<close>

text \<open>C39: Whatever commands are run on it one after the other, and whichever of their writes fail, a directory
  that holds a usable state goes on holding one, with the same key pair. (\<open>render\<close> writes to the path it is
  given, which must not be one of the directory's own files; \<open>install\<close> writes to the host only.)\<close>

theorem network_key_survives:
  assumes "np_addr ops [] = None" and "load_state ops d = Inr s"
  shows "\<exists>s'. load_state ops (net_run ops cs d) = Inr s' \<and> ns_private s' = ns_private s \<and> ns_public s' = ns_public s"
proof -
  from assms(2) have "keeps_key ops \<lparr>kp_private = ns_private s, kp_public = ns_public s\<rparr> d" by (simp add: keeps_key_iff)
  from net_run_keeps [OF assms(1) this, of cs] show ?thesis by (simp add: keeps_key_iff)
qed

theorem network_key_survives_witness:
  "\<exists>h i p r s'. lan_hub = Inr (h, i) \<and> lan_peer i = Inr (p, r) \<and>
     load_state lan_ops (net_run lan_ops
       [KeyInit None True False None, Authorize True (Holds r), PeerInit (Some []) True True ''x'' ''y'' [] (Holds i), Reconcile None False False Broken]
       \<lparr>nd_state = Holds h, nd_key = Missing, nd_invitation = Holds i, nd_request = Missing\<rparr>) = Inr s' \<and>
     ns_private s' = ns_private h \<and> ns_public s' = ns_public h"
proof -
  obtain h i p r where lan: "lan_hub = Inr (h, i)" "lan_peer i = Inr (p, r)" by (rule lan_nodes)
  let ?d = "\<lparr>nd_state = Holds h, nd_key = Missing, nd_invitation = Holds i, nd_request = Missing\<rparr>"
  from init_hub_Inr(1) [OF lan(1) [unfolded lan_hub_def]] have "load_state lan_ops ?d = Inr h" by (simp add: load_state_def)
  from network_key_survives [OF lan_reads(1) this] lan show ?thesis by blast
qed

text \<open>C40: A peer initialised from a hub's invitation, with a valid endpoint if any and a name, address and key nobody
  has, is authorised by the hub, and then each of the two rendered configurations has the section of the other:
  its public key, its addresses, its endpoint.\<close>

theorem enrolment_connects:
  assumes hub: "init_hub ops raw o' = Inr (h0, i)"
    and peer: "init_peer ops raw' p' = Inr (p, r)" "po_invitation p' = i"
    and since: "validate_network ops (h0\<lparr>ns_peers := ps\<rparr>) = None"
    and reads: "np_addr ops [] = None"
      "\<And>x q. np_prefix ops x = Some q \<Longrightarrow> np_addr ops (np_show ops (px_addr q)) = Some (px_addr q)"
    and endpoint: "validate_endpoint ops (ns_endpoint p) False = None"
    and fresh: "ns_name p \<noteq> ns_name h0" "host_address ops (ns_address p) \<noteq> host_address ops (ns_address h0)"
      "\<And>q. q \<in> set ps \<Longrightarrow> ne_name q \<noteq> ns_name p \<and> ne_address q \<noteq> host_address ops (ns_address p) \<and> ne_public q \<noteq> ns_public p"
  shows "\<exists>h u v w. authorize ops r (h0\<lparr>ns_peers := ps\<rparr>) = Inr h \<and>
    net_config ops h = Inr (u @ write_peer (ns_name p) (ns_public p)
      (host_prefix ops (host_address ops (ns_address p))) (ns_endpoint p) 0 @ v) \<and>
    net_config ops p = Inr (w @ write_peer (ns_name h0) (ns_public h0) (ns_overlay h0) (ns_endpoint h0) 25)"
proof -
  note h = init_hub_Inr [OF hub] and p = init_peer_Inr [OF peer(1)]
  define h where "h = h0\<lparr>ns_peers := sort_key ne_name (ps @ [enrolled r])\<rparr>"
  have "enrolment_validate ops (ns_overlay h0) r = None"
    using enrolment_valid [OF p(1) reads(2), where r = r] endpoint p h(4) peer(2) by simp
  moreover have "update_peer r ps = None" using fresh(3) p(5) by (intro update_peer_fresh) auto
  ultimately have ok: "authorize ops r (h0\<lparr>ns_peers := ps\<rparr>) = Inr h"
    using fresh(1,2) p(5) h(2) by (simp add: authorize_def h_def)
  obtain u where u: "net_config ops h = Inr (u @ peer_sections ops h)"
    using net_config_sections [OF authorize_valid [OF since reads(1) ok]] by blast
  have "enrolled r \<in> set (ns_peers h)" "ns_role h = role_hub" using h(2) by (simp_all add: h_def)
  from peer_section [OF this(2,1)] obtain u' v where
    "peer_sections ops h = u' @ write_peer (en_name r) (en_public r) (host_prefix ops (en_address r)) (en_endpoint r) 0 @ v" by blast
  with u p(5) have hub_side: "net_config ops h = Inr ((u @ u') @ write_peer (ns_name p) (ns_public p)
      (host_prefix ops (host_address ops (ns_address p))) (ns_endpoint p) 0 @ v)" by simp
  obtain w where "net_config ops p = Inr (w @ peer_sections ops p)" using net_config_sections [OF p(1)] by blast
  with hub_section [OF p(2,4)] p(3) h(4) peer(2)
  have "net_config ops p = Inr (w @ write_peer (ns_name h0) (ns_public h0) (ns_overlay h0) (ns_endpoint h0) 25)" by simp
  with ok hub_side show ?thesis by blast
qed

theorem enrolment_connects_witness:
  "\<exists>h0 i p r h u v w. lan_hub = Inr (h0, i) \<and> lan_peer i = Inr (p, r) \<and> authorize lan_ops r h0 = Inr h \<and>
    net_config lan_ops h = Inr (u @ write_peer ''probe-1'' (ns_public p)
      (host_prefix lan_ops ''10.77.0.2'') [] 0 @ v) \<and>
    net_config lan_ops p = Inr (w @ write_peer ''coordinator'' (ns_public h0) (ns_overlay h0) (ns_endpoint h0) 25)"
proof -
  obtain h0 i p r where lan: "lan_hub = Inr (h0, i)" "lan_peer i = Inr (p, r)" and
    at: "ns_name h0 = ''coordinator''" "ns_address h0 = ''10.77.0.1/24''" "ns_name p = ''probe-1''"
      "ns_address p = ''10.77.0.2/24''" "ns_endpoint p = []" by (rule lan_nodes)
  note h = init_hub_Inr [OF lan(1) [unfolded lan_hub_def]]
  have "\<exists>h u v w. authorize lan_ops r (h0\<lparr>ns_peers := []\<rparr>) = Inr h \<and>
    net_config lan_ops h = Inr (u @ write_peer (ns_name p) (ns_public p)
      (host_prefix lan_ops (host_address lan_ops (ns_address p))) (ns_endpoint p) 0 @ v) \<and>
    net_config lan_ops p = Inr (w @ write_peer (ns_name h0) (ns_public h0) (ns_overlay h0) (ns_endpoint h0) 25)"
    by (rule enrolment_connects [OF lan(1) [unfolded lan_hub_def] lan(2) [unfolded lan_peer_def] _ _ lan_reads])
      (simp_all add: h no_peers at lan_addresses validate_endpoint_def)
  with lan show ?thesis unfolding no_peers [OF h(3)] at lan_addresses by blast
qed

text \<open>\<open>install\<close> replaces the configuration only by the one of the state, and only if \<open>wg-quick\<close> took it.\<close>

lemma install_writes_checked:
  assumes "load_state ops d = Inr s" "WriteFile (conf_path s) text \<in> set (fst (install ops h d))" "hs_temp h = Some tmp"
    and apart: "tmp \<noteq> ''/etc/wireguard''"
  shows "net_config ops s = Inr text \<and>
    hs_works h (RunTool [''wg-quick'', ''strip'', tmp @ ''/'' @ ns_interface s @ ''.conf''])"
proof -
  have "tmp @ ''/'' @ ns_interface s @ ''.conf'' \<noteq> ''/etc/wireguard'' @ ''/'' @ ns_interface s @ ''.conf''"
    using apart by (simp only: append_same_eq) simp
  then have "tmp @ ''/'' @ ns_interface s @ ''.conf'' \<noteq> conf_path s" by (simp add: conf_path_def)
  with assms show ?thesis
    by (auto simp: install_def install_calls_def start_calls_def sysctl_path_def conf_path_def Let_def
      split: if_splits sum.splits prod.splits)
qed

text \<open>Once the configuration file holds the new text, an installation does not restart an interface that is up,
  although the installation that wrote it may have failed before its restart.\<close>

theorem retried_install_restarts_nothing:
  assumes "hs_root h" "load_state ops d = Inr s" "net_config ops s = Inr text" "hs_temp h = Some tmp"
    and "hs_existing h = Some text" "\<And>c. hs_works h c"
  shows "snd (install ops h d) = Inr False" "RunTool [''systemctl'', ''restart'', unit_name s] \<notin> set (fst (install ops h d))"
proof -
  have all: "run_calls (hs_works h) cs = (cs, True)" for cs by (induction cs) (simp_all add: assms(6))
  show "snd (install ops h d) = Inr False" "RunTool [''systemctl'', ''restart'', unit_name s] \<notin> set (fst (install ops h d))"
    using assms by (auto simp: install_def all install_calls_def start_calls_def Let_def)
qed

theorem failed_install_leaves_file:
  assumes "hs_root h" "load_state ops d = Inr s" "net_config ops s = Inr text" "hs_temp h = Some tmp"
    and "hs_existing h \<noteq> Some text" "ns_role s = role_hub" "ns_forward s"
    and "\<And>c. hs_works h c \<longleftrightarrow> c \<noteq> RunTool [''sysctl'', ''-p'', sysctl_path]"
  shows "snd (install ops h d) = Inl NetTool" "WriteFile (conf_path s) text \<in> set (fst (install ops h d))"
    "RunTool [''systemctl'', ''restart'', unit_name s] \<notin> set (fst (install ops h d))"
  using assms by (auto simp: install_def install_calls_def Let_def)

end
