(* ===== verification/Spec2Isabelle.thy ===== *)
theory Spec2Isabelle
  imports Verdicts Alerting Vantages Trust Operators Reports Restarts Overlay
begin

text \<open>
  parallaxd watches services from several vantage points. Probers run checks and sign what they saw;
  a coordinator decides, by asking other probers, whether a failure is real, tells people once per
  transition, and watches its own fleet and itself. The development models the coordinator's core
  and what it rests on, as executable definitions translated from the Go sources under \<open>src/\<close>, and
  proves what each part promises and what the parts promise together.

  \<^bold>\<open>The theories, in the order the code depends on them.\<close>

  \<^item> \<open>Prelude\<close>, \<open>Interfaces\<close>: Go's times, durations and strings; the contracts shared by several
    components as locales: a bounded log, a store in which the newest record of a key wins, an
    edge-triggered alarm, a choice that does not depend on the candidates not chosen.
  \<^item> \<open>Check\<close> (\<open>internal/check\<close>): checks, results, components, their validation, the rollup.
  \<^item> \<open>Independent\<close>, \<open>Quorum\<close> (\<open>internal/quorum\<close>): the largest set of independent results by
    augmenting paths, and \<open>Evaluate\<close>, which turns results into a verdict.
  \<^item> \<open>Mesh\<close> (\<open>internal/mesh\<close>): which probers are cut off from the rest.
  \<^item> \<open>Fleet\<close>, \<open>Entity\<close> (\<open>coordinator.go\<close>, \<open>assign.go\<close>): registered probers, who runs a check and who is
    asked to corroborate; the state of a check or component and \<open>decide\<close>.
  \<^item> \<open>Alert\<close>, \<open>Suppression\<close>, \<open>Incidents\<close>, \<open>Delivery\<close>, \<open>Console\<close> (\<open>notify.go\<close>, \<open>lifecycle.go\<close>,
    \<open>operations.go\<close>, \<open>delivery.go\<close>): the text and routes of alerts, maintenance and silences,
    incidents, the outbox with retries and escalations, and these together as a state machine on
    the record \<open>desk\<close>.
  \<^item> \<open>History\<close> (\<open>history.go\<close>), \<open>Watchdog\<close> (\<open>watchdog.go\<close>), \<open>Coordinator\<close> (\<open>coordinator.go\<close>,
    \<open>handlers.go\<close>, \<open>mesh.go\<close>, \<open>component.go\<close>): the record \<open>coord\<close>, the handlers of results and
    mesh reports, the tickers, the status and component pages; reachability over all of them.
  \<^item> \<open>Examples\<close> holds a small deployment for the witnesses; \<open>Verdicts\<close>, \<open>Alerting\<close>, \<open>Vantages\<close> and this
    theory state the properties.
  \<^item> \<open>Base64\<close>, \<open>Wire\<close> (\<open>internal/wire\<close>): the text of keys, envelopes and the keyring, the five kinds of
    signed message and what opening one proves; \<open>Endpoints\<close> (\<open>handlers.go\<close>, \<open>mesh.go\<close>): the
    coordinator's endpoints for probers, with credentials, assignments and the peer list.
  \<^item> \<open>Guard\<close>, \<open>Probe\<close>, \<open>Protocols\<close> (\<open>internal/probe\<close>): the vantage guard with its address ranges, the
    classification of errors, and what each protocol's probe concludes from what the network did.
  \<^item> \<open>Prober\<close> (\<open>internal/prober\<close>): requests with replay protection, the reconciliation of assignments,
    the mesh round; \<open>Watch\<close> (\<open>internal/watch\<close>, \<open>cmd/parallaxd-watch\<close>): the dead man's switch.
    \<open>Trust\<close> states the properties of these.
  \<^item> \<open>Throttle\<close> (a locale: a sliding window with its gate and its log apart, and how many may be between
    the two), \<open>Passwords\<close>, \<open>Auth\<close>, \<open>Accounts\<close>, \<open>Access\<close> (\<open>auth.go\<close>, \<open>oidc.go\<close>): stored passwords, sessions,
    tokens and login limits, accounts, and the invariant each section of a handler keeps. \<open>Sections\<close>:
    the handlers cut at the lock, as the tasks of requests that overlap; a request that nothing
    interrupts does what its handler is defined to do (\<open>served_alone\<close>). \<open>Logins\<close>: the throttle interpreted
    on the login limits, over such runs. \<open>Operators\<close> states the properties.
  \<^item> \<open>Uptime\<close> (\<open>uptime.go\<close>), \<open>Notices\<close> (\<open>notices.go\<close>), \<open>Runs\<close> (whole runs of the coordinator, and what
    they keep), \<open>Publish\<close> (\<open>export.go\<close>, \<open>cmd/parallaxd-status\<close>): what is published. \<open>Reports\<close> states
    the properties.
  \<^item> \<open>Hosts\<close> (\<open>prometheus.go\<close>): the metrics sources a configuration may name, their queries and answers.
    \<open>Catalog\<close> (\<open>catalog.go\<close>, \<open>validateNotificationConfig\<close>): monitors as operators write them, when a
    catalogue is accepted, replacing it, revisions, every handler. \<open>Startup\<close> (\<open>New\<close>,
    \<open>validateHAConfig\<close>): what a configuration must satisfy and the first state. \<open>Changes\<close> states the
    properties of these.
  \<^item> \<open>Journal\<close> (\<open>history.go\<close>): the file of observations, appended to, read back and rewritten. \<open>Persist\<close>
    (\<open>persist.go\<close>): the record \<open>node\<close> of a whole coordinator, the document of its state, writing,
    reading and applying it. \<open>Standby\<close> (\<open>ha.go\<close>, the guard of \<open>routes.go\<close>, the end of \<open>New\<close>): replication,
    promotion, what a standby serves, and \<open>boot\<close>, which starts from the files. \<open>Restarts\<close> states the
    properties of these.
  \<^item> \<open>Network\<close>, \<open>Overlay\<close> (\<open>internal/wgnet\<close>, \<open>cmd/parallaxd-network\<close>): the keys and the state of a node in the
    control plane's WireGuard network, enrolment, the rendered configuration; the commands on a state
    directory and the calls of \<open>install\<close>, with failing writes and tools, and their properties.
  \<^bold>\<open>How state and operations correspond.\<close> A Go struct is a record with the same fields (prefixed), a
  map an association list read with \<open>map_of\<close>, an open string type a datatype with a constructor
  for every other string. An operation that mutates its receiver returns the new record; the calls
  it makes to a notifier are a list of events. A method under a mutex is one step, and a handler is a
  step from the state it finds to the state it leaves; where requests to the operator API overlap, each
  section under the lock is a step of its own (\<open>Sections\<close>), as are the two sections of \<open>EditNotice\<close>.
  Where the time between two readings of the clock matters, both are arguments: in \<open>process\<close> (\<open>at\<close>
  before the corroborators are asked, \<open>now\<close> after), in \<open>handle_probe\<close> (\<open>opened\<close> when the request is opened,
  \<open>taken\<close> under the mutex), in \<open>create_session_at\<close> and in the sections of a login. Elsewhere one reading
  stands for all that the code takes in one step. An error is a value of a
  datatype with one constructor per message. \<open>time.Time\<close> is an integer of nanoseconds since Go's
  zero time and \<open>time.Duration\<close> an integer with the 64-bit bounds written out where a computation can
  reach them (\<open>sub_time\<close>, \<open>wrap64\<close>, \<open>retry_delay\<close>). Identifiers counted by the code in 64 bits are
  natural numbers: no run can exhaust them.

  \<^bold>\<open>Parameters.\<close> What the code reads from elsewhere is an argument: the answers of the
  corroborators and of notifiers, the clock, \<open>time.ParseDuration\<close> (it works on floating-point
  fractions) and the reading of RFC 3339 times, identifiers of observations (a hash of JSON), Ed25519
  (\<open>crypto\<close>), JSON (\<open>codec\<close>), SHA-256 and Argon2id (\<open>kdf\<close>), parsers of addresses and URLs, and what
  sockets, TLS, DNS and the protocol libraries did during a probe (the scripts of \<open>Probe\<close> and
  \<open>Protocols\<close>). No fact is assumed of them except where a theorem names it: that a signature that
  verifies was made with the key (\<open>unforgeable\<close>), that a key pair matches (\<open>key_pair\<close>), that decoding
  undoes encoding (\<open>faithful\<close>).

  \<^bold>\<open>What the lemmas show.\<close> For verdicts: the status refines a declarative reading of the votes, the
  size of an independent set is the maximum, the order of arrival does not matter except within one
  prober's results of one instant. For decisions:
  every outage and every recovery rests on a quorum, alerts alternate, a suspicion's history stays
  bounded. For alerting: who is told, suppression holds back and gives back, deliveries keep their
  order, the outbox drains, escalations fire once. For the whole: an invariant of every reachable
  coordinator state, and which alerts one result can cause. For messages: whose word a result is, one
  probe per request (a second one only after it expired), separation of the kinds of message. For probes: the exact ranges a public check
  may reach, and that what the guard refuses is never evidence. For operators: every admission is
  explained by a live credential; however requests overlap, an administrator remains unless an edit is
  written back over a newer one, and guesses are bounded by how many are under way at once; and what
  interleaved requests can undo. For what is published: uptime is an exact count, the page claims no more than
  the coordinator decided, notices stay well formed, exports are bounded. For the catalogue and the
  files: an accepted check can be decided by its fleet, the catalogue in force and every revision stay
  acceptable and a change is all or nothing, a restart and a replication pass keep the state, the
  journal replays to the history in memory, and a standby becomes active only when it is told to. For the network of the
  control plane: a node's key survives every command, and an enrolled peer and its hub are configured
  for each other.

  \<^bold>\<open>Bounds.\<close> The models are total functions with termination proofs and need no fuel; the loop over the
  repetitions of a maintenance window, which the code guards from outside, is a \<open>while\<close> that is proved to
  end where it is entered (\<open>occurrence_loop_ends\<close>). A suspicion
  keeps 32 attempts, a history at most 10000 observations a check and any configured bound, the catalogue
  100 revisions, the outbox backs off to a configured maximum.

  \<^bold>\<open>Not modelled.\<close> Metrics and diagnostics (\<open>metrics.go\<close>, \<open>diagnostics.go\<close>: counters no decision reads),
  most of HTTP routing, the dashboard and the status page's HTML, the exchange with an identity
  provider, Tintwire, the MCP server (a client of the operator API), network I/O of the probes, what
  \<open>wg-quick\<close> and the system's other tools do, the command line programs' flags and wiring.
  JSON is the identity on a document or a parameter; a file is what was last written to it, and a write
  ends in one of three ways (\<open>write_outcome\<close>). Counters kept only for metrics are left out of the
  records; shares and availability are kept as fractions or counts rather than floating-point ratios.
\<close>

section \<open>From results to alerts\<close>

text \<open>C1: if a scheduled result turns its check down, then enough distinct probers reported it down:
  each result is fresh, about the check's own vantage and route, from a prober that is not isolated,
  independent of the others, and comes from the sender or from a corroborator that was asked and
  answered.\<close>

theorem outage_rests_on_quorum:
  assumes "check_by_name co (r_check r) = Some chk" "peer_by_name (cc_peers cfg) (r_prober r) = Some peer"
    and "es_status (state_of (co_states co) (r_check r)) \<noteq> StatusDown"
    and "es_status (state_of (co_states (fst (process w cfg at now f r co))) (r_check r)) = StatusDown"
  shows "\<exists>S. q_agree (c_quorum chk) \<le> int (card S) \<and> independent (q_distinct (c_quorum chk)) S \<and>
    inj_on r_prober S \<and> S \<subseteq> insert (normalize_route chk peer r)
        (set (corroborate (cc_peers cfg) chk (normalize_route chk peer r) f)) \<and>
    (\<forall>x \<in> S. r_status x = StatusDown \<and> admitted chk (eval_options cfg now co) x)"
  by (rule down_needs_quorum [OF assms])

theorem outage_rests_on_quorum_witness:
  "\<exists>S. (2::int) \<le> int (card S) \<and> independent True S \<and> inj_on r_prober S \<and>
    (\<forall>x \<in> S. r_status x = StatusDown)"
proof -
  have "es_status (state_of (co_states (fst (process plain_world config3 (1000 * second) (1001 * second)
      (answering StatusDown (1000 * second)) (a_result ''ams'' StatusDown (1000 * second)) start))) ''web'') = StatusDown"
    using outage_status by (simp add: outage_run_def)
  with outage_rests_on_quorum [where co = start and cfg = config3 and chk = web_check and
      peer = "a_peer ''ams'' ''one''" and r = "a_result ''ams'' StatusDown (1000 * second)" and w = plain_world and
      at = "1000 * second" and now = "1001 * second" and f = "answering StatusDown (1000 * second)"]
  obtain S where "q_agree (c_quorum web_check) \<le> int (card S)" "independent (q_distinct (c_quorum web_check)) S"
    "inj_on r_prober S" "\<forall>x \<in> S. r_status x = StatusDown"
    by (auto simp: new_entity_def)
  then show ?thesis by (intro exI [of _ S]) (simp add: web_check_def)
qed

text \<open>C2: whatever ends an outage was confirmed by a quorum: enough independent probers, admitted and
  distinct, among the sender and the corroborators that answered, whose probes got an answer.\<close>

theorem recovery_rests_on_quorum:
  assumes "check_by_name co (r_check r) = Some chk" "peer_by_name (cc_peers cfg) (r_prober r) = Some peer"
    and "es_status (state_of (co_states co) (r_check r)) = StatusDown"
    and "es_status (state_of (co_states (fst (process w cfg at now f r co))) (r_check r)) \<noteq> StatusDown"
  shows "\<exists>S. q_agree (c_quorum chk) \<le> int (card S) \<and> independent (q_distinct (c_quorum chk)) S \<and>
    inj_on r_prober S \<and> S \<subseteq> insert (normalize_route chk peer r)
        (set (corroborate (cc_peers cfg) chk (normalize_route chk peer r) f)) \<and>
    (\<forall>x \<in> S. (r_status x = StatusUp \<or> r_status x = StatusWarning) \<and> admitted chk (eval_options cfg now co) x)"
  by (rule recovery_needs_votes [OF assms])

definition down_co :: coord where
  "down_co = start\<lparr>co_states := [(''web'', new_entity\<lparr>es_status := StatusDown\<rparr>)]\<rparr>"

lemma down_state: "es_status (state_of (co_states down_co) ''web'') = StatusDown"
  by (simp add: down_co_def state_of_def)

lemma recovery_run: "es_status (state_of (co_states (fst (process plain_world config3 (1000 * second) (1001 * second)
    (answering StatusUp (1000 * second)) (a_result ''ams'' StatusUp (1000 * second)) down_co))) ''web'') = StatusUp"
  by code_simp

theorem recovery_rests_on_quorum_witness:
  "\<exists>S. (2::int) \<le> int (card S) \<and> independent True S \<and> inj_on r_prober S \<and>
    (\<forall>x \<in> S. r_status x = StatusUp \<or> r_status x = StatusWarning)"
proof -
  have d: "check_by_name down_co ''web'' = Some web_check"
    using start_checks by (simp add: down_co_def check_by_name_def)
  from recovery_rests_on_quorum [where co = down_co and cfg = config3 and chk = web_check and
      peer = "a_peer ''ams'' ''one''" and r = "a_result ''ams'' StatusUp (1000 * second)" and w = plain_world and
      at = "1000 * second" and now = "1001 * second" and f = "answering StatusUp (1000 * second)"]
  obtain S where "q_agree (c_quorum web_check) \<le> int (card S)" "independent (q_distinct (c_quorum web_check)) S"
    "inj_on r_prober S" "\<forall>x \<in> S. r_status x = StatusUp \<or> r_status x = StatusWarning"
    using recovery_run d by (auto simp: down_state)
  then show ?thesis by (intro exI [of _ S]) (simp add: web_check_def)
qed

text \<open>C6: over any run of decisions on a check, the alerts that open and close an outage alternate,
  whatever warnings come between them: no outage is announced twice and every recovery closes one.\<close>

theorem outage_alerts_alternate:
  "alternates (\<lambda>k. k = KindDown) (\<lambda>k. k = KindRecovered) (es_status st = StatusDown)
     (filter (\<lambda>k. k = KindDown \<or> k = KindRecovered) (snd (emit_run (decide_step chk) st es)))"
  by (rule decisions.run_alternates [OF surjective_pairing])

text \<open>A result from an isolated prober changes nothing but the history: no state, no incident, no
  alert, no delivery.\<close>

theorem isolated_result_ignored:
  assumes "isolated_probers cfg at co (r_prober r)"
  shows "fst (snd (process w cfg at now f r co)) = [] \<and>
    (\<exists>h. fst (process w cfg at now f r co) = co\<lparr>co_history := h\<rparr>)"
  by (rule process_isolated_frame [OF assms])

definition cut_off :: coord where
  "cut_off = start\<lparr>co_reports := [(''ams'', \<lparr>rep_prober = ''ams'', rep_at = 1000 * second,
     rep_peers = [\<lparr>pv_peer = ''fra'', pv_reachable = False, pv_detail = [], pv_latency = 0\<rparr>,
                  \<lparr>pv_peer = ''nyc'', pv_reachable = False, pv_detail = [], pv_latency = 0\<rparr>]\<rparr>)]\<rparr>"

theorem isolated_result_ignored_witness:
  "fst (snd (process plain_world config3 (1000 * second) (1001 * second) (answering StatusDown (1000 * second))
     (a_result ''ams'' StatusDown (1000 * second)) cut_off)) = []"
proof -
  have "isolated_probers config3 (1000 * second) cut_off (r_prober (a_result ''ams'' StatusDown (1000 * second)))"
    by code_simp
  from isolated_result_ignored [OF this] show ?thesis by blast
qed

text \<open>C7: what one scheduled result may cause to be sent: that its prober reports again, that its
  check changed, and then only if the check is in no component, or that a component containing it
  changed. Checks of a component never alert on their own.\<close>

theorem result_alerts_through_components:
  assumes "e \<in> set (fst (snd (process w cfg at now f r co)))"
  shows "(al_prober (event_alert e) = r_prober r \<and> al_kind (event_alert e) = KindReporting \<and> al_check (event_alert e) = []) \<or>
    (al_check (event_alert e) = r_check r \<and> components_for cfg (r_check r) = []) \<or>
    (\<exists>cm \<in> set (components_for cfg (r_check r)). al_component (event_alert e) = comp_name cm \<and>
       al_check (event_alert e) = [] \<and> al_prober (event_alert e) = [])"
  by (rule process_alerts [OF assms])

theorem result_alerts_through_components_witness:
  "\<exists>e. event_alert e \<noteq> empty_alert \<and> al_check (event_alert e) = ''web''"
proof -
  obtain e where e: "e \<in> set (fst (snd outage_run))" "al_prober (event_alert e) = []"
    using outage_told by (metis list.set_intros(1))
  from result_alerts_through_components [OF e(1) [unfolded outage_run_def]] e(2)
  have "al_check (event_alert e) = ''web''" by (auto simp: components_for_def config3_def)
  then show ?thesis by (intro exI [of _ e]) (auto simp: empty_alert_def)
qed

text \<open>The results accepted for one prober and check carry strictly increasing times, over any
  sequence of submissions, whatever the queue does and whoever is assigned: a replayed, repeated or
  overtaken report is never processed.\<close>

theorem accepted_results_move_forward:
  "sorted_wrt (<) (map r_at (filter (\<lambda>r. scheduled_key r = k) (submit_run cfg co es)))"
  using submit_run_forward by blast

text \<open>C8: every state the coordinator can reach keeps the invariant: incident, silence and delivery
  numbers are unique and below their counters, the outbox is ordered by number, every pending
  escalation is marked as fired and is the only one for its incident and policy, managed windows are
  valid, unique and not configured ones, the suspicion histories hold at most 32 attempts, the
  observation histories are sorted by arrival and bounded, and each prober's mesh report is filed
  under its name.\<close>

theorem reachable_invariant:
  assumes "coord_reachable w cfg co" "named_policies cfg"
  shows "coord_ok w cfg co"
  by (rule reachable_ok [OF assms])

theorem reachable_invariant_witness: "coord_ok plain_world config3 (fst outage_run)"
proof (rule reachable_invariant)
  show "coord_reachable plain_world config3 (fst outage_run)"
    unfolding outage_run_def start_def by (rule coord_reachable.Next [OF coord_reachable.Init coord_step.Result])
  show "named_policies config3" by (simp add: named_policies_def config3_def)
qed

text \<open>The staleness watch decides nothing: it never changes the decided status of a check, so
  a prober going quiet neither opens nor ends an outage.\<close>

lemma staleness_never_decides:
  "es_status (state_of (co_states (fst (check_staleness w cfg now co))) n) = es_status (state_of (co_states co) n)"
  by (rule staleness_decides_nothing)

end
